(* ===== verification/Prelude.thy ===== *)
theory Prelude
  imports Main "HOL-Library.Word" "HOL-Library.AList"
begin

text \<open>
  Shared vocabulary of the Hank Remote development: Go errors as values, instants and
  durations in nanoseconds, big-endian integers on byte strings, Go maps as association
  lists, and the generic lemmas the component theories rest on. Nothing here models a file
  of the repository; it models the parts of the Go language and standard library that the
  repository's code uses (\<open>errors\<close>, \<open>time\<close>, \<open>encoding/binary\<close>, built-in maps).
\<close>

named_theorems be_simps \<open>big-endian encoding and decoding\<close>
named_theorems gomap_simps \<open>lookups, counts and keys of Go maps after an update\<close>

section \<open>Errors\<close>

text \<open>
  \<open>errors.New m\<close> is \<open>ErrMsg m\<close>; the two sentinel errors of package \<open>store\<close> keep their
  identity under \<open>fmt.Errorf\<close> wrapping, so \<open>errors.Is\<close> is a constructor test.
\<close>

datatype error =
    ErrMsg string
  | ErrNotFound
  | ErrConflict string

type_synonym 'a result = "error + 'a"

fun isConflict :: "error \<Rightarrow> bool" where
  "isConflict (ErrConflict _) = True"
| "isConflict _ = False"

fun isNotFound :: "error \<Rightarrow> bool" where
  "isNotFound ErrNotFound = True"
| "isNotFound _ = False"

definition check :: "bool \<Rightarrow> error \<Rightarrow> unit result" where
  "check ok e = (if ok then Inr () else Inl e)"

definition bindR :: "'a result \<Rightarrow> ('a \<Rightarrow> 'b result) \<Rightarrow> 'b result" where
  "bindR r f = (case r of Inl e \<Rightarrow> Inl e | Inr a \<Rightarrow> f a)"

lemma check_simps [simp]: "check True e = Inr ()" "check False e = Inl e"
  by (simp_all add: check_def)

lemma check_Inr_iff [simp]: "check ok e = Inr u \<longleftrightarrow> ok"
  by (simp add: check_def)

lemma check_Inl_iff [simp]: "check ok e = Inl e' \<longleftrightarrow> \<not> ok \<and> e' = e"
  by (auto simp: check_def)

lemma bindR_simps [simp]: "bindR (Inl e) f = Inl e" "bindR (Inr a) f = f a"
  by (simp_all add: bindR_def)

lemma bindR_Inr_iff: "bindR r f = Inr b \<longleftrightarrow> (\<exists>a. r = Inr a \<and> f a = Inr b)"
  by (cases r) auto

lemma case_sum_Inr_iff:
  "(case r of Inl x \<Rightarrow> Inl (e x) | Inr a \<Rightarrow> f a) = Inr b \<longleftrightarrow> (\<exists>a. r = Inr a \<and> f a = Inr b)"
  by (cases r) auto

lemma if_Inl_Inr_iff: "(if c then Inl e else r) = Inr b \<longleftrightarrow> \<not> c \<and> r = Inr b"
  by simp

lemmas result_simps = bindR_Inr_iff case_sum_Inr_iff if_Inl_Inr_iff Let_def

lemma bindR_assoc: "bindR (bindR r f) g = bindR r (\<lambda>a. bindR (f a) g)"
  by (cases r) auto

section \<open>Time\<close>

text \<open>
  A \<open>time.Time\<close> is the number of nanoseconds since the zero instant (January 1, year 1,
  UTC), so \<open>t.IsZero()\<close> is \<open>t = 0\<close>, \<open>a.After(b)\<close> is \<open>b < a\<close> and \<open>t.Add(d)\<close> is \<open>t + d\<close>.
  \<open>a.Sub(b)\<close> saturates at the range of an \<open>int64\<close> duration.
\<close>

type_synonym time = int
type_synonym duration = int

abbreviation seconds :: "int \<Rightarrow> duration" where "seconds n \<equiv> n * 1000000000"
abbreviation minutes :: "int \<Rightarrow> duration" where "minutes n \<equiv> n * 60000000000"
abbreviation hours :: "int \<Rightarrow> duration" where "hours n \<equiv> n * 3600000000000"

definition isZero :: "time \<Rightarrow> bool" where "isZero t \<longleftrightarrow> t = 0"

definition maxDuration :: duration where "maxDuration = 2 ^ 63 - 1"
definition minDuration :: duration where "minDuration = - (2 ^ 63)"

definition timeSub :: "time \<Rightarrow> time \<Rightarrow> duration" where
  "timeSub a b = max minDuration (min maxDuration (a - b))"

lemma timeSub_less: "d \<le> maxDuration \<Longrightarrow> minDuration < d \<Longrightarrow> timeSub a b < d \<longleftrightarrow> a - b < d"
  by (auto simp: timeSub_def)

lemma timeSub_mono: "a \<le> a' \<Longrightarrow> timeSub a b \<le> timeSub a' b"
  by (auto simp: timeSub_def)

lemma timeSub_self [simp]: "timeSub a a = 0"
  by (simp add: timeSub_def maxDuration_def minDuration_def)

text \<open>The Unix epoch in this scale and \<open>Time.UnixMicro\<close> (floored).\<close>

definition unixEpoch :: time where "unixEpoch = seconds 62135596800"

definition unixMicro :: "time \<Rightarrow> int" where "unixMicro t = (t - unixEpoch) div 1000"

section \<open>Bytes and big-endian integers\<close>

type_synonym byte = "8 word"
type_synonym bytes = "8 word list"

fun be_bytes :: "nat \<Rightarrow> nat \<Rightarrow> bytes" where
  "be_bytes 0 v = []"
| "be_bytes (Suc n) v = be_bytes n (v div 256) @ [of_nat v]"

definition be_nat :: "bytes \<Rightarrow> nat" where
  "be_nat bs = foldl (\<lambda>a b. 256 * a + unat b) 0 bs"

lemma length_be_bytes [simp, be_simps]: "length (be_bytes n v) = n"
  by (induction n arbitrary: v) auto

lemma be_nat_Nil [simp, be_simps]: "be_nat [] = 0"
  by (simp add: be_nat_def)

lemma be_nat_snoc [simp, be_simps]: "be_nat (bs @ [b]) = 256 * be_nat bs + unat b"
  by (simp add: be_nat_def)

lemma unat_lt2p: "unat (w :: 'a::len word) < 2 ^ LENGTH('a)"
  by (rule unsigned_less)

lemma unat_byte_of_nat: "unat (of_nat v :: byte) = v mod 256"
  by (simp add: unat_of_nat)

lemma be_nat_be_bytes [be_simps]: "be_nat (be_bytes n v) = v mod 256 ^ n"
proof (induction n arbitrary: v)
  case 0
  show ?case by simp
next
  case (Suc n)
  have "v mod (256 * 256 ^ n) = 256 * (v div 256 mod 256 ^ n) + v mod 256"
    by (rule mod_mult2_eq)
  with Suc.IH [of "v div 256"] show ?case
    by (simp add: unat_byte_of_nat)
qed

lemma be_nat_less: "be_nat bs < 256 ^ length bs"
proof (induction bs rule: rev_induct)
  case Nil
  show ?case by simp
next
  case (snoc b bs)
  have "unat b < 256" using unat_lt2p [of b] by simp
  with snoc show ?case by simp
qed

lemma be_bytes_be_nat [be_simps]: "be_bytes (length bs) (be_nat bs) = bs"
proof (induction bs rule: rev_induct)
  case Nil
  show ?case by simp
next
  case (snoc b bs)
  have b: "unat b < 256" using unat_lt2p [of b] by simp
  then have "(256 * be_nat bs + unat b) div 256 = be_nat bs" by simp
  moreover have "(of_nat (256 * be_nat bs + unat b) :: byte) = b"
    using b by (intro word_unat_eq_iff [THEN iffD2]) (simp add: unat_byte_of_nat del: of_nat_add)
  ultimately show ?case using snoc by simp
qed

text \<open>\<open>binary.BigEndian.PutUint16/32/64\<close> and \<open>Uint16/32/64\<close>.\<close>

definition putUint16 :: "16 word \<Rightarrow> bytes" where "putUint16 w = be_bytes 2 (unat w)"
definition putUint32 :: "32 word \<Rightarrow> bytes" where "putUint32 w = be_bytes 4 (unat w)"
definition putUint64 :: "64 word \<Rightarrow> bytes" where "putUint64 w = be_bytes 8 (unat w)"

definition uint16 :: "bytes \<Rightarrow> 16 word" where "uint16 bs = of_nat (be_nat bs)"
definition uint32 :: "bytes \<Rightarrow> 32 word" where "uint32 bs = of_nat (be_nat bs)"
definition uint64 :: "bytes \<Rightarrow> 64 word" where "uint64 bs = of_nat (be_nat bs)"

lemma length_putUint [simp, be_simps]:
  "length (putUint16 a) = 2" "length (putUint32 b) = 4" "length (putUint64 c) = 8"
  by (simp_all add: putUint16_def putUint32_def putUint64_def)

lemma uint16_putUint16 [simp, be_simps]: "uint16 (putUint16 w) = w"
  using unat_lt2p [of w] by (simp add: uint16_def putUint16_def be_nat_be_bytes)

lemma uint32_putUint32 [simp, be_simps]: "uint32 (putUint32 w) = w"
  using unat_lt2p [of w] by (simp add: uint32_def putUint32_def be_nat_be_bytes)

lemma uint64_putUint64 [simp, be_simps]: "uint64 (putUint64 w) = w"
  using unat_lt2p [of w] by (simp add: uint64_def putUint64_def be_nat_be_bytes)

lemma putUint16_uint16: "length bs = 2 \<Longrightarrow> putUint16 (uint16 bs) = bs"
  using be_nat_less [of bs] be_bytes_be_nat [of bs]
  by (simp add: uint16_def putUint16_def unat_of_nat)

lemma putUint32_uint32: "length bs = 4 \<Longrightarrow> putUint32 (uint32 bs) = bs"
  using be_nat_less [of bs] be_bytes_be_nat [of bs]
  by (simp add: uint32_def putUint32_def unat_of_nat)

lemma putUint64_uint64: "length bs = 8 \<Longrightarrow> putUint64 (uint64 bs) = bs"
  using be_nat_less [of bs] be_bytes_be_nat [of bs]
  by (simp add: uint64_def putUint64_def unat_of_nat)

lemma putUint32_inject [simp]: "putUint32 a = putUint32 b \<longleftrightarrow> a = b"
  by (metis uint32_putUint32)

lemma putUint64_inject [simp]: "putUint64 a = putUint64 b \<longleftrightarrow> a = b"
  by (metis uint64_putUint64)

lemma word32_of_nat_inject:
  "(of_nat a :: 32 word) = of_nat b \<Longrightarrow> a < 2 ^ 32 \<Longrightarrow> b < 2 ^ 32 \<Longrightarrow> a = b"
  by (drule arg_cong [where f = unat]) (simp add: unat_of_nat)

section \<open>Go maps\<close>

text \<open>
  A Go map is an association list with distinct keys: \<open>m[k]\<close> is \<open>map_of m k\<close>, assignment is
  \<open>AList.update\<close>, \<open>delete\<close> is \<open>AList.delete\<close>, and a \<open>range\<close> loop that only counts is
  \<open>mcount\<close>, which does not depend on the iteration order.
\<close>

type_synonym ('k, 'v) gomap = "('k \<times> 'v) list"

abbreviation mget :: "('k, 'v) gomap \<Rightarrow> 'k \<Rightarrow> 'v option" where "mget \<equiv> map_of"
abbreviation mput :: "'k \<Rightarrow> 'v \<Rightarrow> ('k, 'v) gomap \<Rightarrow> ('k, 'v) gomap" where "mput \<equiv> AList.update"
abbreviation mdel :: "'k \<Rightarrow> ('k, 'v) gomap \<Rightarrow> ('k, 'v) gomap" where "mdel \<equiv> AList.delete"

definition mwf :: "('k, 'v) gomap \<Rightarrow> bool" where
  "mwf m \<longleftrightarrow> distinct (map fst m)"

definition mcount :: "('v \<Rightarrow> bool) \<Rightarrow> ('k, 'v) gomap \<Rightarrow> nat" where
  "mcount P m = length (filter (\<lambda>kv. P (snd kv)) m)"

lemma mget_mput [simp, gomap_simps]: "mget (mput k v m) k' = (if k' = k then Some v else mget m k')"
  by (simp add: update_conv')

lemma mget_mdel [simp, gomap_simps]: "mget (mdel k m) k' = (if k' = k then None else mget m k')"
  by (simp add: delete_conv')

lemma mwf_Nil [simp]: "mwf []"
  by (simp add: mwf_def)

lemma mwf_mput [simp, intro]: "mwf m \<Longrightarrow> mwf (mput k v m)"
  by (simp add: mwf_def distinct_update)

lemma mwf_mdel [simp, intro]: "mwf m \<Longrightarrow> mwf (mdel k m)"
  by (simp add: mwf_def distinct_delete)

lemma mwf_filter [simp, intro]: "mwf m \<Longrightarrow> mwf (filter P m)"
  unfolding mwf_def by (induction m) auto

lemma mput_new: "mget m k = None \<Longrightarrow> mput k v m = m @ [(k, v)]"
  by (induction m) (auto split: if_splits)

lemma mget_filter: "mwf m \<Longrightarrow> mget (filter (\<lambda>kv. P (fst kv) (snd kv)) m) k =
    (case mget m k of None \<Rightarrow> None | Some v \<Rightarrow> if P k v then Some v else None)"
proof (induction m)
  case Nil
  show ?case by simp
next
  case (Cons kv m)
  obtain k0 v0 where kv: "kv = (k0, v0)" by (cases kv)
  have wf: "mwf m" and new: "k0 \<notin> fst ` set m"
    using Cons.prems by (auto simp: mwf_def kv)
  have none: "k0 = k \<Longrightarrow> mget m k = None"
    using new by (auto simp: map_of_eq_None_iff)
  show ?case
    using Cons.IH [OF wf] none by (auto simp: kv split: option.splits)
qed

lemma mcount_mput_new [gomap_simps]:
  "mget m k = None \<Longrightarrow> mcount P (mput k v m) = mcount P m + (if P v then 1 else 0)"
  by (simp add: mcount_def mput_new)

lemma mcount_mput_same [gomap_simps]:
  "mwf m \<Longrightarrow> mget m k = Some v0 \<Longrightarrow> P v \<longleftrightarrow> P v0 \<Longrightarrow> mcount P (mput k v m) = mcount P m"
  unfolding mcount_def mwf_def by (induction m) (auto split: if_splits)

lemma mcount_mdel_le [gomap_simps]: "mcount P (mdel k m) \<le> mcount P m"
  unfolding mcount_def AList.delete_eq filter_filter
  by (induction m) auto

lemma mcount_mdel:
  "mwf m \<Longrightarrow> mget m k = Some v \<Longrightarrow> mcount P (mdel k m) + (if P v then 1 else 0) = mcount P m"
proof (induction m)
  case Nil
  then show ?case by simp
next
  case (Cons kv m)
  obtain k0 v0 where kv: "kv = (k0, v0)" by (cases kv)
  have wf: "mwf m" and new: "k0 \<notin> fst ` set m" using Cons.prems(1) by (auto simp: mwf_def kv)
  show ?case
  proof (cases "k0 = k")
    case True
    then have "mdel k m = m" using new by (force simp: AList.delete_eq filter_id_conv)
    then show ?thesis using True Cons.prems(2) by (auto simp: mcount_def kv AList.delete_eq)
  next
    case False
    then show ?thesis using Cons.IH [OF wf] Cons.prems(2) by (auto simp: mcount_def kv AList.delete_eq)
  qed
qed

lemma mcount_filter_le: "mcount P (filter Q m) \<le> mcount P m"
  unfolding mcount_def by (induction m) auto

lemma mcount_pos: "mget m k = Some v \<Longrightarrow> P v \<Longrightarrow> 0 < mcount P m"
  unfolding mcount_def by (induction m) (auto split: if_splits)

lemma mcount_le_length: "mcount P m \<le> length m"
  by (simp add: mcount_def)

lemma mcount_one_unique:
  assumes "mwf m" "mcount P m \<le> 1" "mget m a = Some x" "mget m b = Some y" "P x" "P y"
  shows "a = b"
  using assms
proof (induction m)
  case Nil
  then show ?case by simp
next
  case (Cons kv m)
  have wf: "mwf m" using Cons.prems(1) by (simp add: mwf_def)
  have le: "mcount P m \<le> 1" using Cons.prems(2) by (auto simp: mcount_def split: if_splits)
  show ?case
  proof (cases "P (snd kv)")
    case True
    then have "mcount P m = 0" using Cons.prems(2) by (simp add: mcount_def)
    then have "\<And>k v. mget m k = Some v \<Longrightarrow> \<not> P v" using mcount_pos by fastforce
    with Cons.prems(3-6) show ?thesis by (auto split: if_splits)
  next
    case False
    with Cons.prems(3-6) have "mget m a = Some x" "mget m b = Some y"
      by (auto split: if_splits)
    with Cons.IH [OF wf le] Cons.prems(5,6) show ?thesis by blast
  qed
qed

section \<open>Transition systems\<close>

text \<open>
  The states a component reaches from its initial ones, and the rule by which a property that
  every step keeps holds in all of them.
\<close>

inductive reachable :: "('s \<Rightarrow> bool) \<Rightarrow> ('s \<Rightarrow> 's \<Rightarrow> bool) \<Rightarrow> 's \<Rightarrow> bool"
  for init step where
  reach_init: "init s \<Longrightarrow> reachable init step s"
| reach_step: "reachable init step s \<Longrightarrow> step s t \<Longrightarrow> reachable init step t"

locale invariant_system =
  fixes init :: "'s \<Rightarrow> bool"
    and step :: "'s \<Rightarrow> 's \<Rightarrow> bool"
    and inv :: "'s \<Rightarrow> bool"
  assumes inv_init: "init s \<Longrightarrow> inv s"
    and inv_step: "inv s \<Longrightarrow> step s t \<Longrightarrow> inv t"
begin

lemma reachable_inv: "reachable init step s \<Longrightarrow> inv s"
  by (induction rule: reachable.induct) (auto intro: inv_init inv_step)

end

section \<open>Lists\<close>

lemma take_append_len [simp]: "length xs = n \<Longrightarrow> take n (xs @ ys) = xs"
  by simp

lemma drop_append_len [simp]: "length xs = n \<Longrightarrow> drop n (xs @ ys) = ys"
  by simp

lemma append_eq_len: "length xs = length xs' \<Longrightarrow> xs @ ys = xs' @ ys' \<longleftrightarrow> xs = xs' \<and> ys = ys'"
  by simp

end
