(* ===== verification/Go_Text.thy ===== *)
theory Go_Text
  imports Prelude
begin

text \<open>
  Go strings. A Go string is a sequence of bytes, modelled as an Isabelle \<open>string\<close> whose
  characters are those bytes. This theory models what the repository uses of packages
  \<open>strings\<close> and \<open>unicode/utf8\<close>: \<open>TrimSpace\<close> (which removes the UTF-8 encodings of the
  Unicode white-space runes), the byte view \<open>[]byte(s)\<close>, \<open>HasPrefix\<close>/\<open>TrimPrefix\<close>, the
  rune loop \<open>for _, r := range s\<close> with its replacement of invalid bytes, and the regular
  expression \<open>^[A-Za-z0-9_-]{8,128}$\<close>.
\<close>

section \<open>Bytes of a string\<close>

definition bytes_of :: "string \<Rightarrow> bytes" where
  "bytes_of s = map (\<lambda>c. of_nat (of_char c)) s"

definition string_of :: "bytes \<Rightarrow> string" where
  "string_of bs = map (\<lambda>b. char_of (unat b)) bs"

lemma length_bytes_of [simp]: "length (bytes_of s) = length s"
  by (simp add: bytes_of_def)

lemma bytes_of_Nil_iff [simp]: "bytes_of s = [] \<longleftrightarrow> s = []"
  by (simp add: bytes_of_def)

lemma of_char_less_256: "(of_char c :: nat) < 256"
  by simp

lemma string_of_bytes_of [simp]: "string_of (bytes_of s) = s"
proof -
  have "\<And>c. char_of (unat (of_nat (of_char c) :: byte)) = c"
    by (simp add: unat_byte_of_nat)
  then show ?thesis
    by (simp add: string_of_def bytes_of_def comp_def)
qed

lemma bytes_of_string_of [simp]: "bytes_of (string_of bs) = bs"
proof -
  have "\<And>b :: byte. of_nat (of_char (char_of (unat b) :: char)) = b"
    using unat_lt2p [where 'a = 8] by (simp add: of_char_of)
  then show ?thesis
    by (simp add: string_of_def bytes_of_def comp_def)
qed

lemma bytes_of_inject [simp]: "bytes_of s = bytes_of t \<longleftrightarrow> s = t"
  by (metis string_of_bytes_of)

section \<open>TrimSpace\<close>

text \<open>
  The UTF-8 encodings of the runes for which \<open>unicode.IsSpace\<close> holds: U+0009 to U+000D,
  U+0020, U+0085, U+00A0, U+1680, U+2000 to U+200A, U+2028, U+2029, U+202F, U+205F, U+3000.
\<close>

definition space_runes :: "string list" where
  "space_runes =
     [[CHR 0x09], [CHR 0x0A], [CHR 0x0B], [CHR 0x0C], [CHR 0x0D], [CHR 0x20],
      [CHR 0xC2, CHR 0x85], [CHR 0xC2, CHR 0xA0], [CHR 0xE1, CHR 0x9A, CHR 0x80],
      [CHR 0xE2, CHR 0x80, CHR 0x80], [CHR 0xE2, CHR 0x80, CHR 0x81],
      [CHR 0xE2, CHR 0x80, CHR 0x82], [CHR 0xE2, CHR 0x80, CHR 0x83],
      [CHR 0xE2, CHR 0x80, CHR 0x84], [CHR 0xE2, CHR 0x80, CHR 0x85],
      [CHR 0xE2, CHR 0x80, CHR 0x86], [CHR 0xE2, CHR 0x80, CHR 0x87],
      [CHR 0xE2, CHR 0x80, CHR 0x88], [CHR 0xE2, CHR 0x80, CHR 0x89],
      [CHR 0xE2, CHR 0x80, CHR 0x8A], [CHR 0xE2, CHR 0x80, CHR 0xA8],
      [CHR 0xE2, CHR 0x80, CHR 0xA9], [CHR 0xE2, CHR 0x80, CHR 0xAF],
      [CHR 0xE2, CHR 0x81, CHR 0x9F], [CHR 0xE3, CHR 0x80, CHR 0x80]]"

definition starts_with :: "string \<Rightarrow> string \<Rightarrow> bool" where
  "starts_with p s \<longleftrightarrow> take (length p) s = p"

function trim_with :: "string list \<Rightarrow> string \<Rightarrow> string" where
  "trim_with ps s =
     (case find (\<lambda>p. p \<noteq> [] \<and> starts_with p s) ps of
        None \<Rightarrow> s
      | Some p \<Rightarrow> trim_with ps (drop (length p) s))"
  by pat_completeness auto
termination
proof (relation "measure (length \<circ> snd)", goal_cases)
  case (2 ps s p)
  then have "p \<noteq> []" and "starts_with p s"
    by (auto simp: find_Some_iff)
  then have "s \<noteq> []" by (auto simp: starts_with_def)
  with \<open>p \<noteq> []\<close> show ?case by simp
qed simp

declare trim_with.simps [simp del]

definition trimSpace :: "string \<Rightarrow> string" where
  "trimSpace s = rev (trim_with (map rev space_runes) (rev (trim_with space_runes s)))"

text \<open>\<open>strings.TrimSpace(s) == ""\<close>.\<close>

definition blank :: "string \<Rightarrow> bool" where
  "blank s \<longleftrightarrow> trimSpace s = []"

lemma length_trim_with: "length (trim_with ps s) \<le> length s"
proof (induction ps s rule: trim_with.induct)
  case (1 ps s)
  show ?case
    using "1.IH" by (subst trim_with.simps) (fastforce split: option.splits)
qed

lemma length_trimSpace: "length (trimSpace s) \<le> length s"
  using length_trim_with [of "map rev space_runes" "rev (trim_with space_runes s)"]
    length_trim_with [of space_runes s]
  by (simp add: trimSpace_def)

lemma trim_with_id: "\<forall>p \<in> set ps. p = [] \<or> \<not> starts_with p s \<Longrightarrow> trim_with ps s = s"
proof -
  assume "\<forall>p \<in> set ps. p = [] \<or> \<not> starts_with p s"
  then have "find (\<lambda>p. p \<noteq> [] \<and> starts_with p s) ps = None"
    by (auto simp: find_None_iff)
  then show ?thesis by (subst trim_with.simps) simp
qed

lemma trim_with_Nil [simp]: "trim_with ps [] = []"
  using length_trim_with [of ps "[]"] by simp

lemma trimSpace_Nil [simp]: "trimSpace [] = []"
  by (simp add: trimSpace_def)

lemma blank_Nil [simp]: "blank []"
  by (simp add: blank_def)

lemma not_blank_nonempty: "\<not> blank s \<Longrightarrow> s \<noteq> []"
  by auto

text \<open>A string that starts and ends with a printing ASCII character is left as it is.\<close>

definition graphic :: "char \<Rightarrow> bool" where
  "graphic c \<longleftrightarrow> 33 \<le> (of_char c :: nat) \<and> (of_char c :: nat) \<le> 126"

lemma graphic_not_space:
  assumes "graphic (hd s)" "s \<noteq> []" "\<forall>p \<in> set ps. p \<noteq> [] \<and> \<not> graphic (hd p)"
  shows "trim_with ps s = s"
proof (rule trim_with_id, intro ballI disjI2 notI)
  fix p
  assume p: "p \<in> set ps" "starts_with p s"
  with assms(3) have "p \<noteq> []" "\<not> graphic (hd p)" by auto
  moreover have "hd p = hd s"
    using p(2) \<open>p \<noteq> []\<close> assms(2) unfolding starts_with_def by (metis hd_take length_greater_0_conv)
  ultimately show False using assms(1) by simp
qed

lemma space_runes_not_graphic:
  "\<forall>p \<in> set space_runes. p \<noteq> [] \<and> \<not> graphic (hd p)"
  "\<forall>p \<in> set (map rev space_runes). p \<noteq> [] \<and> \<not> graphic (hd p)"
  by (simp_all add: space_runes_def graphic_def)

lemma trimSpace_graphic: "s \<noteq> [] \<Longrightarrow> graphic (hd s) \<Longrightarrow> graphic (last s) \<Longrightarrow> trimSpace s = s"
  by (simp add: trimSpace_def graphic_not_space space_runes_not_graphic hd_rev)

lemma not_blank_graphic: "s \<noteq> [] \<Longrightarrow> graphic (hd s) \<Longrightarrow> graphic (last s) \<Longrightarrow> \<not> blank s"
  by (simp add: blank_def trimSpace_graphic)

lemmas literal_simps = not_blank_graphic trimSpace_graphic graphic_def

text \<open>A trimmed string does not start with a white-space rune, so trimming twice is trimming once.\<close>

lemma trim_with_stuck: "p \<in> set ps \<Longrightarrow> p \<noteq> [] \<Longrightarrow> \<not> starts_with p (trim_with ps s)"
proof (induction ps s rule: trim_with.induct)
  case (1 ps s)
  show ?case
  proof (cases "find (\<lambda>p. p \<noteq> [] \<and> starts_with p s) ps")
    case None
    then have "trim_with ps s = s" by (subst trim_with.simps) simp
    with None "1.prems" show ?thesis by (auto simp: find_None_iff)
  next
    case (Some q)
    then have "trim_with ps s = trim_with ps (drop (length q) s)"
      by (subst trim_with.simps) simp
    with "1.IH" [OF Some] "1.prems" show ?thesis by simp
  qed
qed

lemma trim_with_idem [simp]: "trim_with ps (trim_with ps s) = trim_with ps s"
  by (rule trim_with_id) (use trim_with_stuck in blast)

section \<open>Prefixes\<close>

definition hasPrefix :: "string \<Rightarrow> string \<Rightarrow> bool" where
  "hasPrefix s p \<longleftrightarrow> take (length p) s = p"

definition trimPrefix :: "string \<Rightarrow> string \<Rightarrow> string" where
  "trimPrefix s p = (if hasPrefix s p then drop (length p) s else s)"

definition hasSuffix :: "string \<Rightarrow> string \<Rightarrow> bool" where
  "hasSuffix s p \<longleftrightarrow> length p \<le> length s \<and> drop (length s - length p) s = p"

definition trimSuffix :: "string \<Rightarrow> string \<Rightarrow> string" where
  "trimSuffix s p = (if hasSuffix s p then take (length s - length p) s else s)"

lemma hasPrefix_append [simp]: "hasPrefix (p @ s) p"
  by (simp add: hasPrefix_def)

lemma hasPrefix_iff: "hasPrefix s p \<longleftrightarrow> (\<exists>t. s = p @ t)"
  unfolding hasPrefix_def by (metis append_eq_conv_conj append_take_drop_id)

lemma trimPrefix_append [simp]: "trimPrefix (p @ s) p = s"
  by (simp add: trimPrefix_def)

section \<open>Runes\<close>

text \<open>
  One step of \<open>utf8.DecodeRuneInString\<close> on the byte codes: the rune and its width. An invalid
  or truncated encoding gives the replacement rune U+FFFD and consumes one byte.
\<close>

definition cont :: "nat \<Rightarrow> bool" where "cont b \<longleftrightarrow> 128 \<le> b \<and> b \<le> 191"

definition second_ok :: "nat \<Rightarrow> nat \<Rightarrow> bool" where
  "second_ok b0 b1 \<longleftrightarrow>
     (if b0 = 224 then 160 \<le> b1 \<and> b1 \<le> 191
      else if b0 = 237 then 128 \<le> b1 \<and> b1 \<le> 159
      else if b0 = 240 then 144 \<le> b1 \<and> b1 \<le> 191
      else if b0 = 244 then 128 \<le> b1 \<and> b1 \<le> 143
      else cont b1)"

fun decode_rune :: "nat list \<Rightarrow> nat \<times> nat" where
  "decode_rune [] = (65533, 0)"
| "decode_rune (b0 # bs) =
     (if b0 < 128 then (b0, 1)
      else if 194 \<le> b0 \<and> b0 \<le> 223 then
        (case bs of
           b1 # _ \<Rightarrow> if cont b1 then ((b0 - 192) * 64 + (b1 - 128), 2) else (65533, 1)
         | _ \<Rightarrow> (65533, 1))
      else if 224 \<le> b0 \<and> b0 \<le> 239 then
        (case bs of
           b1 # b2 # _ \<Rightarrow>
             if second_ok b0 b1 \<and> cont b2
             then ((b0 - 224) * 4096 + (b1 - 128) * 64 + (b2 - 128), 3) else (65533, 1)
         | _ \<Rightarrow> (65533, 1))
      else if 240 \<le> b0 \<and> b0 \<le> 244 then
        (case bs of
           b1 # b2 # b3 # _ \<Rightarrow>
             if second_ok b0 b1 \<and> cont b2 \<and> cont b3
             then ((b0 - 240) * 262144 + (b1 - 128) * 4096 + (b2 - 128) * 64 + (b3 - 128), 4)
             else (65533, 1)
         | _ \<Rightarrow> (65533, 1))
      else (65533, 1))"

lemma decode_rune_width: "bs \<noteq> [] \<Longrightarrow> 0 < snd (decode_rune bs)"
  by (cases bs) (auto split: list.splits)

function runes_of :: "nat list \<Rightarrow> nat list" where
  "runes_of bs =
     (if bs = [] then []
      else case decode_rune bs of (r, w) \<Rightarrow> r # runes_of (drop w bs))"
  by pat_completeness auto
termination
proof (relation "measure length", goal_cases)
  case (2 bs r w)
  then have "0 < w" using decode_rune_width [of bs] by (metis snd_conv)
  with 2 show ?case by simp
qed simp

declare runes_of.simps [simp del]

definition runes :: "string \<Rightarrow> nat list" where
  "runes s = runes_of (map of_char s)"

lemma runes_of_ascii: "list_all (\<lambda>b. b < 128) bs \<Longrightarrow> runes_of bs = bs"
proof (induction bs)
  case Nil
  show ?case by (subst runes_of.simps) simp
next
  case (Cons b bs)
  then show ?case by (subst runes_of.simps) simp
qed

section \<open>Identifier syntax\<close>

definition ascii_alnum :: "nat \<Rightarrow> bool" where
  "ascii_alnum c \<longleftrightarrow> (65 \<le> c \<and> c \<le> 90) \<or> (97 \<le> c \<and> c \<le> 122) \<or> (48 \<le> c \<and> c \<le> 57)"

definition id_code :: "nat \<Rightarrow> bool" where
  "id_code c \<longleftrightarrow> ascii_alnum c \<or> c = 95 \<or> c = 45"

text \<open>The regular expression \<open>^[A-Za-z0-9_-]{8,128}$\<close>; every accepted rune is one byte.\<close>

definition matches_id_pattern :: "string \<Rightarrow> bool" where
  "matches_id_pattern s \<longleftrightarrow>
     8 \<le> length s \<and> length s \<le> 128 \<and> list_all (\<lambda>c. id_code (of_char c)) s"

text \<open>ASCII lower case, the branch of \<open>strings.ToLower\<close> for strings without a byte above 127.\<close>

definition is_ascii :: "string \<Rightarrow> bool" where
  "is_ascii s \<longleftrightarrow> list_all (\<lambda>c. (of_char c :: nat) < 128) s"

definition ascii_lower :: "char \<Rightarrow> char" where
  "ascii_lower c =
     (let n = of_char c :: nat in if 65 \<le> n \<and> n \<le> 90 then char_of (n + 32) else c)"

text \<open>
  \<open>strings.ToLower\<close>: \<open>wideLower\<close> stands for the Unicode case mapping applied to a string that
  has a byte above 127.
\<close>

definition toLower :: "(string \<Rightarrow> string) \<Rightarrow> string \<Rightarrow> string" where
  "toLower wideLower s = (if is_ascii s then map ascii_lower s else wideLower s)"


section \<open>Decimal numbers\<close>

text \<open>\<open>strconv.FormatUint(n, 10)\<close>.\<close>

fun show_nat :: "nat \<Rightarrow> string" where
  "show_nat n =
     (if n < 10 then [char_of (48 + n)] else show_nat (n div 10) @ [char_of (48 + n mod 10)])"

declare show_nat.simps [simp del]

definition show_int :: "int \<Rightarrow> string" where
  "show_int n = (if n < 0 then ''-'' @ show_nat (nat (- n)) else show_nat (nat n))"

lemma show_nat_digits: "c \<in> set (show_nat n) \<Longrightarrow> 48 \<le> (of_char c :: nat) \<and> (of_char c :: nat) \<le> 57"
proof (induction n rule: show_nat.induct)
  case (1 n)
  show ?case
  proof (cases "n < 10")
    case True
    with "1.prems" show ?thesis by (subst (asm) show_nat.simps) (auto simp: of_char_of)
  next
    case False
    have "(48 + n mod 10) mod 256 = 48 + n mod 10" "n mod 10 \<le> 9"
      by (auto intro: mod_less)
    with False "1.prems" "1.IH" show ?thesis
      by (subst (asm) show_nat.simps) (auto simp: of_char_of)
  qed
qed

section \<open>Searching\<close>

text \<open>\<open>strings.Index\<close>: the position of the first occurrence.\<close>

fun stringsIndex :: "string \<Rightarrow> string \<Rightarrow> nat option" where
  "stringsIndex s sub =
     (if take (length sub) s = sub then Some 0
      else (case s of [] \<Rightarrow> None | _ # rest \<Rightarrow> map_option Suc (stringsIndex rest sub)))"

declare stringsIndex.simps [simp del]

lemma stringsIndex_bound: "stringsIndex s sub = Some off \<Longrightarrow> off + length sub \<le> length s"
proof (induction s arbitrary: off)
  case Nil
  then show ?case by (subst (asm) stringsIndex.simps) (auto split: if_splits)
next
  case (Cons c s)
  show ?case
  proof (cases "take (length sub) (c # s) = sub")
    case True
    then have "off = 0" using Cons.prems by (subst (asm) stringsIndex.simps) simp
    moreover have "length sub \<le> length (c # s)" using True by (metis length_take min.cobounded1)
    ultimately show ?thesis by simp
  next
    case False
    then obtain o' where "stringsIndex s sub = Some o'" "off = Suc o'"
      using Cons.prems by (subst (asm) stringsIndex.simps) auto
    then show ?thesis using Cons.IH by simp
  qed
qed

lemma show_nat_inject [simp]: "show_nat m = show_nat n \<longleftrightarrow> m = n"
proof
  show "show_nat m = show_nat n \<Longrightarrow> m = n"
  proof (induction m arbitrary: n rule: less_induct)
    case (less m)
    have one: "length (show_nat k) = 1 \<longleftrightarrow> k < 10" for k
      by (subst show_nat.simps) (use show_nat.simps [of "k div 10"] in \<open>auto split: if_splits\<close>)
    show ?case
    proof (cases "m < 10")
      case True
      then have "n < 10" using less.prems one by metis
      with True less.prems have "char_of (48 + m) = (char_of (48 + n) :: char)" by (simp add: show_nat.simps)
      then show ?thesis using True \<open>n < 10\<close> by simp
    next
      case False
      then have "\<not> n < 10" using less.prems one by metis
      with False less.prems have "show_nat (m div 10) = show_nat (n div 10)" and "char_of (48 + m mod 10) = (char_of (48 + n mod 10) :: char)"
        by (simp_all add: show_nat.simps [of m] show_nat.simps [of n] del: char_of_quasi_inj)
      moreover have "(48 + m mod 10) mod 256 = 48 + m mod 10" "(48 + n mod 10) mod 256 = 48 + n mod 10"
        by (rule mod_less, use mod_less_divisor [of 10 m] in linarith, rule mod_less, use mod_less_divisor [of 10 n] in linarith)
      moreover have "m div 10 < m" using False by simp
      ultimately have "m div 10 = n div 10" "m mod 10 = n mod 10" using less.IH by simp_all
      then show ?thesis by (metis div_mult_mod_eq)
    qed
  qed
qed simp

section \<open>Trimming twice\<close>

lemma trim_with_drop: "\<exists>n. trim_with ps s = drop n s"
proof (induction ps s rule: trim_with.induct)
  case (1 ps s)
  show ?case
  proof (cases "find (\<lambda>p. p \<noteq> [] \<and> starts_with p s) ps")
    case None
    then have "trim_with ps s = drop 0 s" by (subst trim_with.simps) simp
    then show ?thesis by blast
  next
    case (Some p)
    then obtain n where "trim_with ps (drop (length p) s) = drop n (drop (length p) s)" using "1.IH" by blast
    with Some show ?thesis by (subst trim_with.simps) (metis drop_drop option.simps(5))
  qed
qed

lemma starts_with_iff: "starts_with p s \<longleftrightarrow> (\<exists>t. s = p @ t)"
  using hasPrefix_iff by (simp add: starts_with_def hasPrefix_def)

lemma starts_with_take: "starts_with p (take m l) \<Longrightarrow> starts_with p l"
proof -
  assume "starts_with p (take m l)"
  then obtain t where "take m l = p @ t" by (auto simp: starts_with_iff)
  then have "l = p @ (t @ drop m l)" by (metis append.assoc append_take_drop_id)
  then show ?thesis by (auto simp: starts_with_iff)
qed

lemma trimSpace_idem [simp]: "trimSpace (trimSpace s) = trimSpace s"
proof -
  let ?l = "trim_with space_runes s"
  obtain n where n: "trim_with (map rev space_runes) (rev ?l) = drop n (rev ?l)" using trim_with_drop by blast
  have "trim_with space_runes (trimSpace s) = trimSpace s"
  proof (rule trim_with_id, intro ballI)
    fix p
    assume p: "p \<in> set space_runes"
    have "trimSpace s = take (length ?l - n) ?l" by (simp add: trimSpace_def n drop_rev)
    then have "starts_with p ?l" if "starts_with p (trimSpace s)" using that starts_with_take by metis
    then show "p = [] \<or> \<not> starts_with p (trimSpace s)" using trim_with_stuck [OF p] by blast
  qed
  then show ?thesis by (subst (1) trimSpace_def) (simp add: trimSpace_def)
qed

section \<open>Words\<close>

definition spaceLen :: "string \<Rightarrow> nat" where
  "spaceLen s = (case find (\<lambda>p. starts_with p s) space_runes of None \<Rightarrow> 0 | Some p \<Rightarrow> length p)"

text \<open>\<open>strings.Fields\<close>; \<open>acc\<close> is the current word in reverse.\<close>

function fieldsFrom :: "string \<Rightarrow> string \<Rightarrow> string list" where
  "fieldsFrom acc s =
     (if s = [] then (if acc = [] then [] else [rev acc])
      else if 0 < spaceLen s
      then (if acc = [] then [] else [rev acc]) @ fieldsFrom [] (drop (spaceLen s) s)
      else fieldsFrom (hd s # acc) (tl s))"
  by pat_completeness auto
termination by (relation "measure (\<lambda>(acc, s). length s)") auto

declare fieldsFrom.simps [simp del]

definition stringsFields :: "string \<Rightarrow> string list" where
  "stringsFields s = fieldsFrom [] s"

end
