(* ===== verification/Codec.thy ===== *)
theory Codec
  imports Prelude
begin

text \<open>
  The contract of a binary codec, as the repository's wire formats promise it: decoding what was
  encoded gives the value back, and a byte string decodes to at most the one value that encodes
  to it (decoders accept canonical encodings only). The interpretations are in the theories that
  define the codecs: outer frames and inner messages in \<open>Desktop_Wire\<close>, identity certificates
  in \<open>Desktop_Crypto\<close>.
\<close>

locale codec =
  fixes encode :: "'a \<Rightarrow> 'e + bytes"
    and decode :: "bytes \<Rightarrow> 'f + 'a"
    and valid :: "'a \<Rightarrow> bool"
  assumes decode_encode: "valid a \<Longrightarrow> encode a = Inr bs \<Longrightarrow> decode bs = Inr a"
    and encode_decode: "decode bs = Inr a \<Longrightarrow> valid a \<and> encode a = Inr bs"
begin

lemma encode_inject:
  assumes "valid a" "valid b" "encode a = Inr bs" "encode b = Inr bs"
  shows "a = b"
proof -
  have "decode bs = Inr a" "decode bs = Inr b"
    using assms by (auto intro: decode_encode)
  then show ?thesis by simp
qed

lemma decode_inject: "decode bs = Inr a \<Longrightarrow> decode cs = Inr a \<Longrightarrow> bs = cs"
  using encode_decode [of bs a] encode_decode [of cs a] by simp

lemma decode_iff: "decode bs = Inr a \<longleftrightarrow> valid a \<and> encode a = Inr bs"
  using decode_encode encode_decode by blast

lemma decode_error_iff: "(\<exists>e. decode bs = Inl e) \<longleftrightarrow> (\<nexists>a. valid a \<and> encode a = Inr bs)"
proof -
  have "(\<exists>e. decode bs = Inl e) \<longleftrightarrow> (\<nexists>a. decode bs = Inr a)"
    by (cases "decode bs") auto
  then show ?thesis by (simp add: decode_iff)
qed

end

text \<open>
  Writing a list of fields one after the other stops at the first error; reading \<open>n\<close> fields
  stops at the first error and returns the unread rest.
\<close>

fun put_all :: "('a \<Rightarrow> 'e + bytes) \<Rightarrow> 'a list \<Rightarrow> 'e + bytes" where
  "put_all put [] = Inr []"
| "put_all put (a # as) =
     (case put a of Inl e \<Rightarrow> Inl e
      | Inr bs \<Rightarrow> (case put_all put as of Inl e \<Rightarrow> Inl e | Inr cs \<Rightarrow> Inr (bs @ cs)))"

fun get_many :: "(bytes \<Rightarrow> 'f + 'a \<times> bytes) \<Rightarrow> nat \<Rightarrow> bytes \<Rightarrow> 'f + 'a list \<times> bytes" where
  "get_many get 0 input = Inr ([], input)"
| "get_many get (Suc n) input =
     (case get input of Inl e \<Rightarrow> Inl e
      | Inr (a, rest) \<Rightarrow>
          (case get_many get n rest of Inl e \<Rightarrow> Inl e | Inr (as, rest') \<Rightarrow> Inr (a # as, rest')))"

lemma put_all_Cons_Inr:
  "put_all put (a # as) = Inr bs \<longleftrightarrow>
     (\<exists>b c. put a = Inr b \<and> put_all put as = Inr c \<and> bs = b @ c)"
  by (auto simp: case_sum_Inr_iff)

text \<open>A prefix code: what \<open>put\<close> writes, \<open>get\<close> reads back and returns the rest of the input.\<close>

locale field_codec =
  fixes put :: "'a \<Rightarrow> 'e + bytes"
    and get :: "bytes \<Rightarrow> 'f + 'a \<times> bytes"
  assumes get_put: "put a = Inr bs \<Longrightarrow> get (bs @ rest) = Inr (a, rest)"
    and put_get: "get input = Inr (a, rest) \<Longrightarrow> \<exists>bs. put a = Inr bs \<and> input = bs @ rest"
begin

lemma put_inject_append:
  "put a = Inr bs \<Longrightarrow> put b = Inr cs \<Longrightarrow> bs @ r = cs @ s \<Longrightarrow> a = b \<and> r = s"
  using get_put [of a bs r] get_put [of b cs s] by simp

lemma get_many_put_all: "put_all put as = Inr bs \<Longrightarrow> get_many get (length as) (bs @ rest) = Inr (as, rest)"
  by (induction as arbitrary: bs) (auto simp: get_put split: sum.splits)

lemma put_all_get_many:
  "get_many get n input = Inr (as, rest) \<Longrightarrow>
     length as = n \<and> (\<exists>bs. put_all put as = Inr bs \<and> input = bs @ rest)"
proof (induction n arbitrary: input as)
  case 0
  then show ?case by simp
next
  case (Suc n)
  from Suc.prems obtain a mid as' where a: "get input = Inr (a, mid)"
    and as': "get_many get n mid = Inr (as', rest)" and eq: "as = a # as'"
    by (auto split: sum.splits)
  from put_get [OF a] Suc.IH [OF as'] show ?case
    by (fastforce simp: eq)
qed

lemma put_all_inject_append:
  assumes "put_all put as = Inr bs" "put_all put as' = Inr cs" "length as = length as'"
    and "bs @ r = cs @ s"
  shows "as = as' \<and> r = s"
proof -
  have "get_many get (length as) (bs @ r) = Inr (as, r)"
    using assms(1) by (rule get_many_put_all)
  moreover have "get_many get (length as) (bs @ r) = Inr (as', s)"
    unfolding assms(3,4) using assms(2) by (rule get_many_put_all)
  ultimately show ?thesis by simp
qed

end

end
