(* ===== verification/Desktop_Crypto.thy ===== *)
theory Desktop_Crypto
  imports Go_Text Codec
begin

text \<open>
  Canonical encodings that are signed, hashed or authenticated,
  \<open>internal/desktopcrypto/encoding.go\<close>: length-prefixed fields (\<open>writeField\<close>, \<open>readField\<close>), the
  handshake transcript, identity certificates with their decoder, recovery and rotation proofs,
  AES-GCM nonces and record headers, and the key derivations. SHA-256, HKDF and ECDSA are
  parameters. \<open>DecodeRawBase64URL\<close> and \<open>FingerprintSPKI\<close> only call the base64 library and are not
  modelled. The theorems are that each signed encoding determines its value, that encodings of
  different kinds never coincide, and the certificate codec's round trips.
\<close>

section \<open>Labels and records\<close>

definition HandshakeLabel :: string where "HandshakeLabel = ''Hank Desktop Handshake v1''"
definition CertificateLabel :: string where
  "CertificateLabel = ''Hank Desktop Identity Certificate v1''"
definition RecoveryEnrollmentLabel :: string where
  "RecoveryEnrollmentLabel = ''Hank Desktop Recovery Enrollment v1''"
definition RootRecoveryLabel :: string where "RootRecoveryLabel = ''Hank Desktop Root Recovery v1''"
definition RootRotationLabel :: string where "RootRotationLabel = ''Hank Desktop Root Rotation v1''"

lemmas label_defs = HandshakeLabel_def CertificateLabel_def RecoveryEnrollmentLabel_def
  RootRecoveryLabel_def RootRotationLabel_def

definition RecordVersion :: byte where "RecordVersion = 1"
definition DirectionBrowserToAgent :: byte where "DirectionBrowserToAgent = 1"
definition DirectionAgentToBrowser :: byte where "DirectionAgentToBrowser = 2"

record HandshakeTranscript =
  ht_HomeID :: string
  ht_SessionID :: string
  ht_AgentID :: string
  ht_OperatorUserID :: string
  ht_OperatorDeviceID :: string
  ht_Permissions :: "string list"
  ht_BrowserEphemeralPublicKey :: bytes
  ht_JoinExpiresAtUnixMS :: "64 word"
  ht_HardExpiresAtUnixMS :: "64 word"
  ht_KeyEpoch :: "32 word"

record IdentityCertificateClaims =
  ic_CertificateVersion :: string
  ic_HomeID :: string
  ic_IdentityID :: string
  ic_IdentityType :: string
  ic_UserID :: string
  ic_DeviceID :: string
  ic_AgentID :: string
  ic_PublicKeySPKI :: bytes
  ic_Capabilities :: "string list"
  ic_TrustRootGeneration :: "32 word"
  ic_CreatedAtUnixMS :: "64 word"
  ic_ExpiresAtUnixMS :: "64 word"

record RecoveryEnrollmentClaims =
  re_Label :: string
  re_HomeID :: string
  re_TrustRootGeneration :: "32 word"
  re_NewOperatorIdentityID :: string
  re_NewOperatorDeviceID :: string
  re_NewOperatorPublicKeySPKI :: bytes
  re_IssuedAtUnixMS :: "64 word"
  re_Challenge :: bytes

record RootRotationClaims =
  rr_HomeID :: string
  rr_OldGeneration :: "32 word"
  rr_NewGeneration :: "32 word"
  rr_NewRootPublicKeySPKI :: bytes
  rr_NewRecoveryEnvelopeHash :: bytes
  rr_ReplacementOperatorIdentityID :: string
  rr_IssuedAtUnixMS :: "64 word"

record RecordHeader =
  rh_Version :: byte
  rh_Direction :: byte
  rh_KeyEpoch :: "32 word"
  rh_Sequence :: "64 word"
  rh_CiphertextLength :: "32 word"

record DirectionalKeys =
  dk_BrowserToAgent :: bytes
  dk_AgentToBrowser :: bytes
  dk_BrowserNoncePrefix :: bytes
  dk_AgentNoncePrefix :: bytes

section \<open>Fields\<close>

definition writeField :: "bytes \<Rightarrow> bytes result" where
  "writeField field =
     (if length field > 2 ^ 20 then Inl (ErrMsg ''desktop transcript field exceeds 1 MiB'')
      else Inr (putUint32 (of_nat (length field)) @ field))"

text \<open>\<open>binary.Read\<close> of an \<open>n\<close>-byte integer: \<open>io.EOF\<close> on an empty input, \<open>io.ErrUnexpectedEOF\<close> on
  a short one.\<close>

definition readRaw :: "nat \<Rightarrow> bytes \<Rightarrow> (bytes \<times> bytes) result" where
  "readRaw n src =
     (if length src < n then Inl (ErrMsg (if src = [] then ''EOF'' else ''unexpected EOF''))
      else Inr (take n src, drop n src))"

definition readField :: "bytes \<Rightarrow> (bytes \<times> bytes) result" where
  "readField src =
     bindR (readRaw 4 src) (\<lambda>(lenBytes, rest).
       let n = unat (uint32 lenBytes) in
       if n > 2 ^ 20 \<or> n > length rest
       then Inl (ErrMsg ''invalid desktop transcript field length'')
       else Inr (take n rest, drop n rest))"

definition writeString :: "string \<Rightarrow> bytes result" where
  "writeString s = writeField (bytes_of s)"

definition readString :: "bytes \<Rightarrow> (string \<times> bytes) result" where
  "readString src = bindR (readField src) (\<lambda>(v, rest). Inr (string_of v, rest))"

text \<open>One iteration of the permission and capability loops: an empty entry is refused.\<close>

definition writeNonEmpty :: "string \<Rightarrow> string \<Rightarrow> bytes result" where
  "writeNonEmpty msg s = (if s = [] then Inl (ErrMsg msg) else writeString s)"

section \<open>Encoders\<close>

definition EncodeHandshakeTranscript :: "HandshakeTranscript \<Rightarrow> bytes result" where
  "EncodeHandshakeTranscript v =
     (if ht_HomeID v = [] \<or> ht_SessionID v = [] \<or> ht_AgentID v = []
         \<or> ht_OperatorUserID v = [] \<or> ht_OperatorDeviceID v = []
         \<or> ht_Permissions v = [] \<or> ht_BrowserEphemeralPublicKey v = []
         \<or> sint (ht_JoinExpiresAtUnixMS v) \<le> 0
         \<or> sint (ht_HardExpiresAtUnixMS v) \<le> sint (ht_JoinExpiresAtUnixMS v)
         \<or> ht_KeyEpoch v = 0
      then Inl (ErrMsg ''invalid desktop handshake transcript'')
      else
        bindR (put_all writeString
                 [HandshakeLabel, ht_HomeID v, ht_SessionID v, ht_AgentID v,
                  ht_OperatorUserID v, ht_OperatorDeviceID v]) (\<lambda>scope.
        bindR (put_all (writeNonEmpty ''empty desktop permission'') (ht_Permissions v)) (\<lambda>perms.
        bindR (writeField (ht_BrowserEphemeralPublicKey v)) (\<lambda>key.
          Inr (scope @ putUint32 (of_nat (length (ht_Permissions v))) @ perms @ key
               @ putUint64 (ht_JoinExpiresAtUnixMS v) @ putUint64 (ht_HardExpiresAtUnixMS v)
               @ putUint32 (ht_KeyEpoch v))))))"

definition certificateScope :: "IdentityCertificateClaims \<Rightarrow> unit result" where
  "certificateScope v =
     (if ic_IdentityType v = ''operator_device'' then
        (if ic_UserID v = [] \<or> ic_DeviceID v = [] \<or> ic_AgentID v \<noteq> []
         then Inl (ErrMsg ''operator-device identity scope is invalid'') else Inr ())
      else if ic_IdentityType v = ''endpoint'' then
        (if ic_AgentID v = [] \<or> ic_UserID v \<noteq> [] \<or> ic_DeviceID v \<noteq> []
         then Inl (ErrMsg ''endpoint identity scope is invalid'') else Inr ())
      else Inl (ErrMsg ''unsupported desktop identity type''))"

definition EncodeIdentityCertificate :: "IdentityCertificateClaims \<Rightarrow> bytes result" where
  "EncodeIdentityCertificate v =
     (if ic_CertificateVersion v \<noteq> ''desktop.v1'' \<or> ic_HomeID v = [] \<or> ic_IdentityID v = []
         \<or> ic_IdentityType v = [] \<or> ic_PublicKeySPKI v = [] \<or> ic_TrustRootGeneration v = 0
         \<or> sint (ic_CreatedAtUnixMS v) \<le> 0
         \<or> sint (ic_ExpiresAtUnixMS v) \<le> sint (ic_CreatedAtUnixMS v)
      then Inl (ErrMsg ''invalid desktop identity certificate'')
      else
        bindR (certificateScope v) (\<lambda>_.
        if ic_Capabilities v = [] then Inl (ErrMsg ''desktop identity capabilities are required'')
        else
        bindR (put_all writeField
                 [bytes_of CertificateLabel, bytes_of (ic_CertificateVersion v),
                  bytes_of (ic_HomeID v), bytes_of (ic_IdentityID v),
                  bytes_of (ic_IdentityType v), bytes_of (ic_UserID v),
                  bytes_of (ic_DeviceID v), bytes_of (ic_AgentID v), ic_PublicKeySPKI v]) (\<lambda>fields.
        bindR (put_all (writeNonEmpty ''empty desktop identity capability'') (ic_Capabilities v)) (\<lambda>caps.
          Inr (fields @ putUint32 (of_nat (length (ic_Capabilities v))) @ caps
               @ putUint32 (ic_TrustRootGeneration v) @ putUint64 (ic_CreatedAtUnixMS v)
               @ putUint64 (ic_ExpiresAtUnixMS v))))))"

definition DecodeIdentityCertificate :: "bytes \<Rightarrow> IdentityCertificateClaims result" where
  "DecodeIdentityCertificate encoded =
     (case readString encoded of
        Inl _ \<Rightarrow> Inl (ErrMsg ''invalid desktop identity certificate label'')
      | Inr (label, r0) \<Rightarrow>
        if label \<noteq> CertificateLabel
        then Inl (ErrMsg ''invalid desktop identity certificate label'')
        else
        bindR (readString r0) (\<lambda>(version, r1).
        bindR (readString r1) (\<lambda>(homeID, r2).
        bindR (readString r2) (\<lambda>(identityID, r3).
        bindR (readString r3) (\<lambda>(identityType, r4).
        bindR (readString r4) (\<lambda>(userID, r5).
        bindR (readString r5) (\<lambda>(deviceID, r6).
        bindR (readString r6) (\<lambda>(agentID, r7).
        bindR (readField r7) (\<lambda>(spki, r8).
        (case readRaw 4 r8 of
           Inl _ \<Rightarrow> Inl (ErrMsg ''invalid desktop identity capability count'')
         | Inr (countBytes, r9) \<Rightarrow>
           let capabilityCount = uint32 countBytes in
           if capabilityCount = 0 \<or> capabilityCount > 32
           then Inl (ErrMsg ''invalid desktop identity capability count'')
           else
           bindR (get_many readString (unat capabilityCount) r9) (\<lambda>(caps, r10).
           bindR (readRaw 4 r10) (\<lambda>(genBytes, r11).
           bindR (readRaw 8 r11) (\<lambda>(createdBytes, r12).
           bindR (readRaw 8 r12) (\<lambda>(expiresBytes, r13).
           if r13 \<noteq> [] then Inl (ErrMsg ''trailing desktop identity certificate data'')
           else
             let claims = \<lparr>ic_CertificateVersion = version, ic_HomeID = homeID,
                    ic_IdentityID = identityID, ic_IdentityType = identityType,
                    ic_UserID = userID, ic_DeviceID = deviceID, ic_AgentID = agentID,
                    ic_PublicKeySPKI = spki, ic_Capabilities = caps,
                    ic_TrustRootGeneration = uint32 genBytes,
                    ic_CreatedAtUnixMS = uint64 createdBytes,
                    ic_ExpiresAtUnixMS = uint64 expiresBytes\<rparr>
             in bindR (EncodeIdentityCertificate claims) (\<lambda>_. Inr claims)))))))))))))))"

definition EncodeRecoveryEnrollmentProof :: "RecoveryEnrollmentClaims \<Rightarrow> bytes result" where
  "EncodeRecoveryEnrollmentProof v =
     (if re_Label v = [] \<or> re_HomeID v = [] \<or> re_TrustRootGeneration v = 0
         \<or> re_NewOperatorIdentityID v = [] \<or> re_NewOperatorDeviceID v = []
         \<or> re_NewOperatorPublicKeySPKI v = [] \<or> sint (re_IssuedAtUnixMS v) \<le> 0
         \<or> re_Challenge v = []
      then Inl (ErrMsg ''invalid recovery enrollment proof'')
      else
        bindR (put_all writeString [RecoveryEnrollmentLabel, re_Label v, re_HomeID v]) (\<lambda>scope.
        bindR (put_all writeField [bytes_of (re_NewOperatorIdentityID v),
                 bytes_of (re_NewOperatorDeviceID v), re_NewOperatorPublicKeySPKI v]) (\<lambda>operator.
        bindR (writeField (re_Challenge v)) (\<lambda>challenge.
          Inr (scope @ putUint32 (re_TrustRootGeneration v) @ operator
               @ putUint64 (re_IssuedAtUnixMS v) @ challenge)))))"

definition EncodeRecoveryContext :: "string \<Rightarrow> 32 word \<Rightarrow> bytes result" where
  "EncodeRecoveryContext homeID generation =
     (if homeID = [] \<or> generation = 0 then Inl (ErrMsg ''invalid recovery context'')
      else bindR (put_all writeString [RootRecoveryLabel, homeID]) (\<lambda>scope.
             Inr (scope @ putUint32 generation)))"

definition EncodeRootRotationProof :: "RootRotationClaims \<Rightarrow> bytes result" where
  "EncodeRootRotationProof v =
     (if rr_HomeID v = [] \<or> rr_OldGeneration v = 0 \<or> rr_NewGeneration v \<noteq> rr_OldGeneration v + 1
         \<or> rr_NewRootPublicKeySPKI v = [] \<or> length (rr_NewRecoveryEnvelopeHash v) \<noteq> 32
         \<or> rr_ReplacementOperatorIdentityID v = [] \<or> sint (rr_IssuedAtUnixMS v) \<le> 0
      then Inl (ErrMsg ''invalid root rotation scope'')
      else
        bindR (put_all writeString [RootRotationLabel, rr_HomeID v]) (\<lambda>scope.
        bindR (put_all writeField [rr_NewRootPublicKeySPKI v, rr_NewRecoveryEnvelopeHash v,
                 bytes_of (rr_ReplacementOperatorIdentityID v)]) (\<lambda>fields.
          Inr (scope @ putUint32 (rr_OldGeneration v) @ putUint32 (rr_NewGeneration v)
               @ fields @ putUint64 (rr_IssuedAtUnixMS v)))))"

section \<open>Keys, nonces and record headers\<close>

text \<open>
  \<open>sha256\<close> is the digest, \<open>hkdf secret salt info n\<close> the first \<open>n\<close> bytes of HKDF-SHA256's output
  (which never fails below 255 blocks).
\<close>

definition DeriveRecoveryKey ::
    "(bytes \<Rightarrow> bytes) \<Rightarrow> (bytes \<Rightarrow> bytes \<Rightarrow> bytes \<Rightarrow> nat \<Rightarrow> bytes) \<Rightarrow> bytes \<Rightarrow> bytes \<Rightarrow> bytes result" where
  "DeriveRecoveryKey sha256 hkdf secret context =
     (if length secret \<noteq> 32 then Inl (ErrMsg ''recovery secret must be 32 bytes'')
      else if context = [] then Inl (ErrMsg ''recovery context is required'')
      else Inr (hkdf secret (sha256 context) (bytes_of ''hank-desktop-v1/root-recovery/key'') 32))"

definition VerifyP256Signature ::
    "(bytes \<Rightarrow> bytes) \<Rightarrow> ('key \<Rightarrow> bytes \<Rightarrow> bytes \<Rightarrow> bool) \<Rightarrow> ('key \<Rightarrow> bool) \<Rightarrow>
     'key option \<Rightarrow> bytes \<Rightarrow> bytes \<Rightarrow> unit result" where
  "VerifyP256Signature sha256 verifyASN1 onP256 publicKey encoded signature =
     (case publicKey of
        None \<Rightarrow> Inl (ErrMsg ''P-256 public key required'')
      | Some key \<Rightarrow>
          if \<not> onP256 key then Inl (ErrMsg ''P-256 public key required'')
          else if encoded = [] \<or> signature = []
          then Inl (ErrMsg ''encoded value and signature are required'')
          else if \<not> verifyASN1 key (sha256 encoded) signature
          then Inl (ErrMsg ''invalid ECDSA signature'')
          else Inr ())"

definition DeriveDirectionalKeys ::
    "(bytes \<Rightarrow> bytes \<Rightarrow> bytes \<Rightarrow> nat \<Rightarrow> bytes) \<Rightarrow> bytes \<Rightarrow> bytes \<Rightarrow> DirectionalKeys result" where
  "DeriveDirectionalKeys hkdf sharedSecret transcriptDigest =
     (if sharedSecret = [] \<or> length transcriptDigest \<noteq> 32
      then Inl (ErrMsg ''shared secret and SHA-256 transcript digest are required'')
      else
        let derive = (\<lambda>label n. hkdf sharedSecret transcriptDigest (bytes_of label) n) in
        Inr \<lparr>dk_BrowserToAgent = derive ''hank-desktop-v1/browser-to-agent/key'' 32,
             dk_AgentToBrowser = derive ''hank-desktop-v1/agent-to-browser/key'' 32,
             dk_BrowserNoncePrefix = derive ''hank-desktop-v1/browser-to-agent/nonce'' 4,
             dk_AgentNoncePrefix = derive ''hank-desktop-v1/agent-to-browser/nonce'' 4\<rparr>)"

text \<open>The prefix is a 4-byte array; \<open>take 4\<close> is the copy into the nonce's first four bytes.\<close>

definition Nonce :: "bytes \<Rightarrow> 64 word \<Rightarrow> bytes" where
  "Nonce prefix sequence = take 4 prefix @ putUint64 sequence"

definition recordHeaderMarshalBinary :: "RecordHeader \<Rightarrow> bytes result" where
  "recordHeaderMarshalBinary h =
     (if rh_Version h \<noteq> RecordVersion
         \<or> (rh_Direction h \<noteq> DirectionBrowserToAgent \<and> rh_Direction h \<noteq> DirectionAgentToBrowser)
         \<or> rh_KeyEpoch h = 0
      then Inl (ErrMsg ''invalid desktop record header'')
      else Inr ([rh_Version h, rh_Direction h] @ putUint32 (rh_KeyEpoch h)
                @ putUint64 (rh_Sequence h) @ putUint32 (rh_CiphertextLength h)))"

section \<open>Fields are a prefix code\<close>

lemma readRaw_append [simp]: "length a = n \<Longrightarrow> readRaw n (a @ rest) = Inr (a, rest)"
  by (simp add: readRaw_def)

lemma readRaw_Inr_iff: "readRaw n src = Inr (a, rest) \<longleftrightarrow> length a = n \<and> src = a @ rest"
  by (auto simp: readRaw_def)

lemma writeField_readField:
  assumes "writeField f = Inr bs"
  shows "readField (bs @ rest) = Inr (f, rest)"
proof -
  have len: "length f \<le> 2 ^ 20" and bs: "bs = putUint32 (of_nat (length f)) @ f"
    using assms by (auto simp: writeField_def split: if_splits)
  from len have "unat (of_nat (length f) :: 32 word) = length f"
    by (simp add: unat_of_nat)
  with len show ?thesis by (simp add: bs readField_def)
qed

lemma readField_writeField:
  assumes "readField input = Inr (f, rest)"
  shows "\<exists>bs. writeField f = Inr bs \<and> input = bs @ rest"
proof -
  obtain lb tail where raw: "readRaw 4 input = Inr (lb, tail)"
    using assms by (auto simp: readField_def bindR_Inr_iff)
  then have lb: "length lb = 4" and input: "input = lb @ tail"
    by (simp_all add: readRaw_Inr_iff)
  define n where "n = unat (uint32 lb)"
  have n: "n \<le> 2 ^ 20" "n \<le> length tail" and f: "f = take n tail" and rest: "rest = drop n tail"
    using assms raw by (auto simp: readField_def n_def Let_def split: if_splits)
  have "length f = n" using n f by simp
  then have "putUint32 (of_nat (length f)) = lb"
    using lb by (simp add: n_def putUint32_uint32)
  then have "writeField f = Inr (lb @ f)"
    using n \<open>length f = n\<close> by (simp add: writeField_def)
  then show ?thesis by (simp add: input f rest)
qed

interpretation field: field_codec writeField readField
  by unfold_locales (erule writeField_readField, erule readField_writeField)

interpretation strf: field_codec writeString readString
proof
  show "readString (bs @ rest) = Inr (a, rest)" if "writeString a = Inr bs" for a bs rest
    using that field.get_put [of "bytes_of a" bs rest]
    by (simp add: writeString_def readString_def)
next
  show "\<exists>bs. writeString a = Inr bs \<and> input = bs @ rest"
    if "readString input = Inr (a, rest)" for input a rest
  proof -
    from that obtain v where "readField input = Inr (v, rest)" and "a = string_of v"
      by (auto simp: readString_def bindR_Inr_iff)
    with field.put_get show ?thesis by (auto simp: writeString_def)
  qed
qed

lemma put_all_writeNonEmpty:
  "put_all (writeNonEmpty msg) ss = Inr bs \<longleftrightarrow> [] \<notin> set ss \<and> put_all writeString ss = Inr bs"
proof (induction ss arbitrary: bs)
  case Nil
  show ?case by simp
next
  case (Cons s ss)
  then show ?case
    by (auto simp: put_all_Cons_Inr writeNonEmpty_def simp del: put_all.simps split: if_splits)
qed

text \<open>A counted list of strings, as the permission and capability lists are laid out.\<close>

lemma counted_inject:
  assumes "put_all writeString ss = Inr bs" "put_all writeString ts = Inr cs"
    and "length ss < 2 ^ 32" "length ts < 2 ^ 32"
    and "putUint32 (of_nat (length ss)) @ bs @ r = putUint32 (of_nat (length ts)) @ cs @ s"
  shows "ss = ts \<and> r = s"
proof -
  have "putUint32 (of_nat (length ss)) = putUint32 (of_nat (length ts))" and rest: "bs @ r = cs @ s"
    using assms(5) by (simp_all add: append_eq_append_conv)
  then have "length ss = length ts"
    using assms(3,4) by (auto dest: word32_of_nat_inject)
  with strf.put_all_inject_append [OF assms(1,2) _ rest] show ?thesis by blast
qed


section \<open>The certificate codec\<close>

definition certificate_decodable :: "IdentityCertificateClaims \<Rightarrow> bool" where
  "certificate_decodable v \<longleftrightarrow> length (ic_Capabilities v) \<le> 32"

text \<open>The encoding of a certificate, field by field.\<close>

lemma EncodeIdentityCertificateD:
  assumes "EncodeIdentityCertificate v = Inr bs"
  obtains b0 b1 b2 b3 b4 b5 b6 b7 b8 caps where
    "writeString CertificateLabel = Inr b0" "writeString (ic_CertificateVersion v) = Inr b1"
    "writeString (ic_HomeID v) = Inr b2" "writeString (ic_IdentityID v) = Inr b3"
    "writeString (ic_IdentityType v) = Inr b4" "writeString (ic_UserID v) = Inr b5"
    "writeString (ic_DeviceID v) = Inr b6" "writeString (ic_AgentID v) = Inr b7"
    "writeField (ic_PublicKeySPKI v) = Inr b8"
    "put_all writeString (ic_Capabilities v) = Inr caps" "ic_Capabilities v \<noteq> []"
    "bs = b0 @ b1 @ b2 @ b3 @ b4 @ b5 @ b6 @ b7 @ b8
          @ putUint32 (of_nat (length (ic_Capabilities v))) @ caps
          @ putUint32 (ic_TrustRootGeneration v) @ putUint64 (ic_CreatedAtUnixMS v)
          @ putUint64 (ic_ExpiresAtUnixMS v)"
proof -
  from assms obtain fields caps where
      fields: "put_all writeField
        [bytes_of CertificateLabel, bytes_of (ic_CertificateVersion v), bytes_of (ic_HomeID v),
         bytes_of (ic_IdentityID v), bytes_of (ic_IdentityType v), bytes_of (ic_UserID v),
         bytes_of (ic_DeviceID v), bytes_of (ic_AgentID v), ic_PublicKeySPKI v] = Inr fields"
    and caps: "put_all writeString (ic_Capabilities v) = Inr caps" and ne: "ic_Capabilities v \<noteq> []"
    and bs: "bs = fields @ putUint32 (of_nat (length (ic_Capabilities v))) @ caps
          @ putUint32 (ic_TrustRootGeneration v) @ putUint64 (ic_CreatedAtUnixMS v)
          @ putUint64 (ic_ExpiresAtUnixMS v)"
    unfolding EncodeIdentityCertificate_def
    by (auto simp: bindR_Inr_iff put_all_writeNonEmpty simp del: put_all.simps split: if_splits)
  from fields that [OF _ _ _ _ _ _ _ _ _ caps ne] bs show thesis
    by (auto simp: writeString_def split: sum.splits)
qed

lemma decode_encode_certificate:
  assumes valid: "certificate_decodable v" and enc: "EncodeIdentityCertificate v = Inr bs"
  shows "DecodeIdentityCertificate bs = Inr v"
proof -
  let ?caps = "ic_Capabilities v"
  from enc obtain b0 b1 b2 b3 b4 b5 b6 b7 b8 caps where
    w: "writeString CertificateLabel = Inr b0" "writeString (ic_CertificateVersion v) = Inr b1"
    "writeString (ic_HomeID v) = Inr b2" "writeString (ic_IdentityID v) = Inr b3"
    "writeString (ic_IdentityType v) = Inr b4" "writeString (ic_UserID v) = Inr b5"
    "writeString (ic_DeviceID v) = Inr b6" "writeString (ic_AgentID v) = Inr b7"
    "writeField (ic_PublicKeySPKI v) = Inr b8"
    and caps: "put_all writeString ?caps = Inr caps" and ne: "?caps \<noteq> []"
    and bs: "bs = b0 @ b1 @ b2 @ b3 @ b4 @ b5 @ b6 @ b7 @ b8
          @ putUint32 (of_nat (length ?caps)) @ caps
          @ putUint32 (ic_TrustRootGeneration v) @ putUint64 (ic_CreatedAtUnixMS v)
          @ putUint64 (ic_ExpiresAtUnixMS v)"
    by (rule EncodeIdentityCertificateD)
  note reads = w(1-8) [THEN strf.get_put] w(9) [THEN field.get_put]
  have n: "unat (of_nat (length ?caps) :: 32 word) = length ?caps"
    using valid by (simp add: certificate_decodable_def unat_of_nat)
  have bounds: "(of_nat (length ?caps) :: 32 word) \<noteq> 0" "\<not> (of_nat (length ?caps) :: 32 word) > 32"
    using valid ne n by (auto simp: certificate_decodable_def word_less_nat_alt unat_eq_zero)
  have last: "readRaw 8 (putUint64 x) = Inr (putUint64 x, [])" for x
    using readRaw_append [of "putUint64 x" 8 "[]"] by simp
  have same: "\<lparr>ic_CertificateVersion = ic_CertificateVersion v, ic_HomeID = ic_HomeID v,
      ic_IdentityID = ic_IdentityID v, ic_IdentityType = ic_IdentityType v,
      ic_UserID = ic_UserID v, ic_DeviceID = ic_DeviceID v, ic_AgentID = ic_AgentID v,
      ic_PublicKeySPKI = ic_PublicKeySPKI v, ic_Capabilities = ?caps,
      ic_TrustRootGeneration = ic_TrustRootGeneration v,
      ic_CreatedAtUnixMS = ic_CreatedAtUnixMS v, ic_ExpiresAtUnixMS = ic_ExpiresAtUnixMS v\<rparr> = v"
    by simp
  show ?thesis
    unfolding DecodeIdentityCertificate_def bs
    using enc bounds
    by (simp add: reads n Let_def strf.get_many_put_all [OF caps] last same)
qed

lemma EncodeIdentityCertificate_eq:
  assumes "\<exists>bs. EncodeIdentityCertificate v = Inr bs"
    and "writeString CertificateLabel = Inr b0" "writeString (ic_CertificateVersion v) = Inr b1"
    "writeString (ic_HomeID v) = Inr b2" "writeString (ic_IdentityID v) = Inr b3"
    "writeString (ic_IdentityType v) = Inr b4" "writeString (ic_UserID v) = Inr b5"
    "writeString (ic_DeviceID v) = Inr b6" "writeString (ic_AgentID v) = Inr b7"
    "writeField (ic_PublicKeySPKI v) = Inr b8"
    "put_all writeString (ic_Capabilities v) = Inr caps"
  shows "EncodeIdentityCertificate v =
    Inr (b0 @ b1 @ b2 @ b3 @ b4 @ b5 @ b6 @ b7 @ b8
          @ putUint32 (of_nat (length (ic_Capabilities v))) @ caps
          @ putUint32 (ic_TrustRootGeneration v) @ putUint64 (ic_CreatedAtUnixMS v)
          @ putUint64 (ic_ExpiresAtUnixMS v))"
proof -
  from assms(1) obtain bs where "EncodeIdentityCertificate v = Inr bs" by blast
  then show ?thesis
    using assms(2-) by (auto elim!: EncodeIdentityCertificateD)
qed

lemma encode_decode_certificate:
  assumes "DecodeIdentityCertificate bs = Inr v"
  shows "certificate_decodable v \<and> EncodeIdentityCertificate v = Inr bs"
proof -
  from assms obtain r0 r1 r2 r3 r4 r5 r6 r7 r8 cb r9 r10 gb r11 tb r12 eb where
    reads: "readString bs = Inr (CertificateLabel, r0)"
      "readString r0 = Inr (ic_CertificateVersion v, r1)" "readString r1 = Inr (ic_HomeID v, r2)"
      "readString r2 = Inr (ic_IdentityID v, r3)" "readString r3 = Inr (ic_IdentityType v, r4)"
      "readString r4 = Inr (ic_UserID v, r5)" "readString r5 = Inr (ic_DeviceID v, r6)"
      "readString r6 = Inr (ic_AgentID v, r7)"
    and key: "readField r7 = Inr (ic_PublicKeySPKI v, r8)"
    and cnt: "readRaw 4 r8 = Inr (cb, r9)" "\<not> uint32 cb > 32"
    and many: "get_many readString (unat (uint32 cb)) r9 = Inr (ic_Capabilities v, r10)"
    and nums: "readRaw 4 r10 = Inr (gb, r11)" "readRaw 8 r11 = Inr (tb, r12)"
      "readRaw 8 r12 = Inr (eb, [])"
    and vals: "ic_TrustRootGeneration v = uint32 gb" "ic_CreatedAtUnixMS v = uint64 tb"
      "ic_ExpiresAtUnixMS v = uint64 eb"
    and enc: "\<exists>bs. EncodeIdentityCertificate v = Inr bs"
    unfolding DecodeIdentityCertificate_def
    by (clarsimp simp: result_simps)
  obtain b0 b1 b2 b3 b4 b5 b6 b7 b8 where
    w: "writeString CertificateLabel = Inr b0" "writeString (ic_CertificateVersion v) = Inr b1"
      "writeString (ic_HomeID v) = Inr b2" "writeString (ic_IdentityID v) = Inr b3"
      "writeString (ic_IdentityType v) = Inr b4" "writeString (ic_UserID v) = Inr b5"
      "writeString (ic_DeviceID v) = Inr b6" "writeString (ic_AgentID v) = Inr b7"
      "writeField (ic_PublicKeySPKI v) = Inr b8"
    and r: "bs = b0 @ r0" "r0 = b1 @ r1" "r1 = b2 @ r2" "r2 = b3 @ r3" "r3 = b4 @ r4"
      "r4 = b5 @ r5" "r5 = b6 @ r6" "r6 = b7 @ r7" "r7 = b8 @ r8"
    using reads [THEN strf.put_get] key [THEN field.put_get] by blast
  from strf.put_all_get_many [OF many] obtain caps where
    caps: "put_all writeString (ic_Capabilities v) = Inr caps" "r9 = caps @ r10"
    and len: "length (ic_Capabilities v) = unat (uint32 cb)" by blast
  have cb: "putUint32 (of_nat (length (ic_Capabilities v))) = cb" "r8 = cb @ r9"
    using cnt(1) by (auto simp: len readRaw_Inr_iff putUint32_uint32)
  have tail: "r10 = putUint32 (ic_TrustRootGeneration v) @ putUint64 (ic_CreatedAtUnixMS v)
      @ putUint64 (ic_ExpiresAtUnixMS v)"
    using nums by (auto simp: vals readRaw_Inr_iff putUint32_uint32 putUint64_uint64)
  have "EncodeIdentityCertificate v = Inr bs"
    unfolding EncodeIdentityCertificate_eq [OF enc w caps(1)]
    by (simp add: r caps(2) cb tail)
  moreover have "certificate_decodable v"
    using cnt(2) by (simp add: certificate_decodable_def len word_less_nat_alt)
  ultimately show ?thesis by blast
qed

interpretation certificate: codec EncodeIdentityCertificate DecodeIdentityCertificate certificate_decodable
  by unfold_locales (erule (1) decode_encode_certificate, erule encode_decode_certificate)


section \<open>Signed encodings determine their values\<close>

lemma EncodeHandshakeTranscriptD:
  assumes "EncodeHandshakeTranscript v = Inr bs"
  obtains scope perms key where
    "put_all writeString [HandshakeLabel, ht_HomeID v, ht_SessionID v, ht_AgentID v,
       ht_OperatorUserID v, ht_OperatorDeviceID v] = Inr scope"
    "put_all writeString (ht_Permissions v) = Inr perms"
    "writeField (ht_BrowserEphemeralPublicKey v) = Inr key"
    "bs = scope @ putUint32 (of_nat (length (ht_Permissions v))) @ perms @ key
          @ putUint64 (ht_JoinExpiresAtUnixMS v) @ putUint64 (ht_HardExpiresAtUnixMS v)
          @ putUint32 (ht_KeyEpoch v)"
  using assms unfolding EncodeHandshakeTranscript_def
  by (auto simp: bindR_Inr_iff put_all_writeNonEmpty simp del: put_all.simps split: if_splits)

lemma handshake_inject:
  assumes "EncodeHandshakeTranscript v = Inr bs" "EncodeHandshakeTranscript v' = Inr bs"
    and few: "length (ht_Permissions v) < 2 ^ 32" "length (ht_Permissions v') < 2 ^ 32"
  shows "v = v'"
proof -
  from assms(1) obtain sc pm key where
    a: "put_all writeString [HandshakeLabel, ht_HomeID v, ht_SessionID v, ht_AgentID v,
          ht_OperatorUserID v, ht_OperatorDeviceID v] = Inr sc"
      "put_all writeString (ht_Permissions v) = Inr pm"
      "writeField (ht_BrowserEphemeralPublicKey v) = Inr key"
    and bs: "bs = sc @ putUint32 (of_nat (length (ht_Permissions v))) @ pm @ key
          @ putUint64 (ht_JoinExpiresAtUnixMS v) @ putUint64 (ht_HardExpiresAtUnixMS v)
          @ putUint32 (ht_KeyEpoch v)"
    by (rule EncodeHandshakeTranscriptD)
  from assms(2) obtain sc' pm' key' where
    b: "put_all writeString [HandshakeLabel, ht_HomeID v', ht_SessionID v', ht_AgentID v',
          ht_OperatorUserID v', ht_OperatorDeviceID v'] = Inr sc'"
      "put_all writeString (ht_Permissions v') = Inr pm'"
      "writeField (ht_BrowserEphemeralPublicKey v') = Inr key'"
    and bs': "bs = sc' @ putUint32 (of_nat (length (ht_Permissions v'))) @ pm' @ key'
          @ putUint64 (ht_JoinExpiresAtUnixMS v') @ putUint64 (ht_HardExpiresAtUnixMS v')
          @ putUint32 (ht_KeyEpoch v')"
    by (rule EncodeHandshakeTranscriptD)
  note scope = strf.put_all_inject_append [OF a(1) b(1) _ bs [unfolded bs', symmetric]]
  note perms = counted_inject [OF a(2) b(2) few scope [THEN conjunct2]]
  note key = field.put_inject_append [OF a(3) b(3) perms [THEN conjunct2]]
  from scope perms key show ?thesis
    by (cases v; cases v') (simp add: append_eq_append_conv)
qed

text \<open>Every signed encoding starts with its label as a length-prefixed field.\<close>

lemma put_all_label:
  "put_all writeField (bytes_of l # fs) = Inr bs \<Longrightarrow>
     \<exists>b rest. writeString l = Inr b \<and> bs = b @ rest"
  "put_all writeString (l # ss) = Inr bs \<Longrightarrow>
     \<exists>b rest. writeString l = Inr b \<and> bs = b @ rest"
  by (auto simp: put_all_Cons_Inr writeString_def simp del: put_all.simps)

definition labelled :: "string \<Rightarrow> bytes \<Rightarrow> bool" where
  "labelled l bs \<longleftrightarrow> (\<exists>b rest. writeString l = Inr b \<and> bs = b @ rest)"

lemma labelled_unique: "labelled l bs \<Longrightarrow> labelled l' bs \<Longrightarrow> l = l'"
  unfolding labelled_def using strf.put_inject_append by blast

lemma encoders_labelled:
  "EncodeHandshakeTranscript h = Inr bs \<Longrightarrow> labelled HandshakeLabel bs"
  "EncodeIdentityCertificate c = Inr bs \<Longrightarrow> labelled CertificateLabel bs"
  "EncodeRecoveryEnrollmentProof r = Inr bs \<Longrightarrow> labelled RecoveryEnrollmentLabel bs"
  "EncodeRecoveryContext homeID g = Inr bs \<Longrightarrow> labelled RootRecoveryLabel bs"
  "EncodeRootRotationProof t = Inr bs \<Longrightarrow> labelled RootRotationLabel bs"
  unfolding labelled_def EncodeHandshakeTranscript_def EncodeIdentityCertificate_def
    EncodeRecoveryEnrollmentProof_def EncodeRecoveryContext_def EncodeRootRotationProof_def
  by (auto simp: bindR_Inr_iff simp del: put_all.simps split: if_splits dest!: put_all_label)


lemma certificate_inject:
  assumes "EncodeIdentityCertificate v = Inr bs" "EncodeIdentityCertificate v' = Inr bs"
    and few: "length (ic_Capabilities v) < 2 ^ 32" "length (ic_Capabilities v') < 2 ^ 32"
  shows "v = v'"
proof -
  from assms(1) show ?thesis
  proof (rule EncodeIdentityCertificateD)
    fix b0 b1 b2 b3 b4 b5 b6 b7 b8 caps
    assume a: "writeString CertificateLabel = Inr b0" "writeString (ic_CertificateVersion v) = Inr b1"
      "writeString (ic_HomeID v) = Inr b2" "writeString (ic_IdentityID v) = Inr b3"
      "writeString (ic_IdentityType v) = Inr b4" "writeString (ic_UserID v) = Inr b5"
      "writeString (ic_DeviceID v) = Inr b6" "writeString (ic_AgentID v) = Inr b7"
      "writeField (ic_PublicKeySPKI v) = Inr b8" "put_all writeString (ic_Capabilities v) = Inr caps"
      and bs: "bs = b0 @ b1 @ b2 @ b3 @ b4 @ b5 @ b6 @ b7 @ b8
          @ putUint32 (of_nat (length (ic_Capabilities v))) @ caps
          @ putUint32 (ic_TrustRootGeneration v) @ putUint64 (ic_CreatedAtUnixMS v)
          @ putUint64 (ic_ExpiresAtUnixMS v)"
    from assms(2) show ?thesis
    proof (rule EncodeIdentityCertificateD)
      fix c0 c1 c2 c3 c4 c5 c6 c7 c8 caps'
      assume b: "writeString CertificateLabel = Inr c0"
        "writeString (ic_CertificateVersion v') = Inr c1"
        "writeString (ic_HomeID v') = Inr c2" "writeString (ic_IdentityID v') = Inr c3"
        "writeString (ic_IdentityType v') = Inr c4" "writeString (ic_UserID v') = Inr c5"
        "writeString (ic_DeviceID v') = Inr c6" "writeString (ic_AgentID v') = Inr c7"
        "writeField (ic_PublicKeySPKI v') = Inr c8"
        "put_all writeString (ic_Capabilities v') = Inr caps'"
        and bs': "bs = c0 @ c1 @ c2 @ c3 @ c4 @ c5 @ c6 @ c7 @ c8
          @ putUint32 (of_nat (length (ic_Capabilities v'))) @ caps'
          @ putUint32 (ic_TrustRootGeneration v') @ putUint64 (ic_CreatedAtUnixMS v')
          @ putUint64 (ic_ExpiresAtUnixMS v')"
      note e0 = strf.put_inject_append [OF a(1) b(1) bs [unfolded bs', symmetric]]
      note e1 = strf.put_inject_append [OF a(2) b(2) e0 [THEN conjunct2]]
      note e2 = strf.put_inject_append [OF a(3) b(3) e1 [THEN conjunct2]]
      note e3 = strf.put_inject_append [OF a(4) b(4) e2 [THEN conjunct2]]
      note e4 = strf.put_inject_append [OF a(5) b(5) e3 [THEN conjunct2]]
      note e5 = strf.put_inject_append [OF a(6) b(6) e4 [THEN conjunct2]]
      note e6 = strf.put_inject_append [OF a(7) b(7) e5 [THEN conjunct2]]
      note e7 = strf.put_inject_append [OF a(8) b(8) e6 [THEN conjunct2]]
      note e8 = field.put_inject_append [OF a(9) b(9) e7 [THEN conjunct2]]
      note e9 = counted_inject [OF a(10) b(10) few e8 [THEN conjunct2]]
      from e1 e2 e3 e4 e5 e6 e7 e8 e9 show ?thesis
        by (cases v; cases v') (simp add: append_eq_append_conv)
    qed
  qed
qed

lemma recovery_inject:
  assumes "EncodeRecoveryEnrollmentProof v = Inr bs" "EncodeRecoveryEnrollmentProof v' = Inr bs"
  shows "v = v'"
proof -
  let ?scope = "\<lambda>v. [RecoveryEnrollmentLabel, re_Label v, re_HomeID v]"
  let ?op = "\<lambda>v. [bytes_of (re_NewOperatorIdentityID v), bytes_of (re_NewOperatorDeviceID v),
                 re_NewOperatorPublicKeySPKI v]"
  have parts: "\<exists>sc op ch. put_all writeString (?scope v) = Inr sc \<and> put_all writeField (?op v) = Inr op
      \<and> writeField (re_Challenge v) = Inr ch
      \<and> bs = sc @ putUint32 (re_TrustRootGeneration v) @ op @ putUint64 (re_IssuedAtUnixMS v) @ ch @ []"
    if "EncodeRecoveryEnrollmentProof v = Inr bs" for v
    using that unfolding EncodeRecoveryEnrollmentProof_def
    by (auto simp: bindR_Inr_iff simp del: put_all.simps split: if_splits)
  obtain sc op ch where a: "put_all writeString (?scope v) = Inr sc" "put_all writeField (?op v) = Inr op"
      "writeField (re_Challenge v) = Inr ch"
    and bs: "bs = sc @ putUint32 (re_TrustRootGeneration v) @ op @ putUint64 (re_IssuedAtUnixMS v) @ ch @ []"
    using parts [OF assms(1)] by blast
  obtain sc' op' ch' where b: "put_all writeString (?scope v') = Inr sc'"
      "put_all writeField (?op v') = Inr op'" "writeField (re_Challenge v') = Inr ch'"
    and bs': "bs = sc' @ putUint32 (re_TrustRootGeneration v') @ op' @ putUint64 (re_IssuedAtUnixMS v') @ ch' @ []"
    using parts [OF assms(2)] by blast
  note e1 = strf.put_all_inject_append [OF a(1) b(1) _ bs [unfolded bs', symmetric]]
  then have gen: "re_TrustRootGeneration v = re_TrustRootGeneration v'"
    and r1: "op @ putUint64 (re_IssuedAtUnixMS v) @ ch @ []
             = op' @ putUint64 (re_IssuedAtUnixMS v') @ ch' @ []"
    by (simp_all add: append_eq_append_conv)
  note e2 = field.put_all_inject_append [OF a(2) b(2) _ r1]
  then have issued: "re_IssuedAtUnixMS v = re_IssuedAtUnixMS v'" and r2: "ch @ [] = ch' @ []"
    by (simp_all add: append_eq_append_conv)
  note e3 = field.put_inject_append [OF a(3) b(3) r2]
  from e1 gen e2 issued e3 show ?thesis by (cases v; cases v') simp
qed

lemma context_inject:
  assumes "EncodeRecoveryContext h g = Inr bs" "EncodeRecoveryContext h' g' = Inr bs"
  shows "h = h' \<and> g = g'"
proof -
  have parts: "\<exists>sc. put_all writeString [RootRecoveryLabel, h] = Inr sc \<and> bs = sc @ putUint32 g"
    if "EncodeRecoveryContext h g = Inr bs" for h g
    using that unfolding EncodeRecoveryContext_def
    by (auto simp: bindR_Inr_iff simp del: put_all.simps split: if_splits)
  obtain sc sc' where a: "put_all writeString [RootRecoveryLabel, h] = Inr sc"
    and b: "put_all writeString [RootRecoveryLabel, h'] = Inr sc'"
    and eq: "sc @ putUint32 g = sc' @ putUint32 g'"
    using parts [OF assms(1)] parts [OF assms(2)] by auto
  show ?thesis using strf.put_all_inject_append [OF a b _ eq] by simp
qed

lemma rotation_inject:
  assumes "EncodeRootRotationProof v = Inr bs" "EncodeRootRotationProof v' = Inr bs"
  shows "v = v'"
proof -
  let ?scope = "\<lambda>v. [RootRotationLabel, rr_HomeID v]"
  let ?fs = "\<lambda>v. [rr_NewRootPublicKeySPKI v, rr_NewRecoveryEnvelopeHash v,
                 bytes_of (rr_ReplacementOperatorIdentityID v)]"
  have parts: "\<exists>sc fs. put_all writeString (?scope v) = Inr sc \<and> put_all writeField (?fs v) = Inr fs
      \<and> bs = sc @ putUint32 (rr_OldGeneration v) @ putUint32 (rr_NewGeneration v) @ fs
             @ putUint64 (rr_IssuedAtUnixMS v)"
    if "EncodeRootRotationProof v = Inr bs" for v
    using that unfolding EncodeRootRotationProof_def
    by (auto simp: bindR_Inr_iff simp del: put_all.simps split: if_splits)
  obtain sc fs where a: "put_all writeString (?scope v) = Inr sc" "put_all writeField (?fs v) = Inr fs"
    and bs: "bs = sc @ putUint32 (rr_OldGeneration v) @ putUint32 (rr_NewGeneration v) @ fs
             @ putUint64 (rr_IssuedAtUnixMS v)"
    using parts [OF assms(1)] by blast
  obtain sc' fs' where b: "put_all writeString (?scope v') = Inr sc'" "put_all writeField (?fs v') = Inr fs'"
    and bs': "bs = sc' @ putUint32 (rr_OldGeneration v') @ putUint32 (rr_NewGeneration v') @ fs'
             @ putUint64 (rr_IssuedAtUnixMS v')"
    using parts [OF assms(2)] by blast
  note e1 = strf.put_all_inject_append [OF a(1) b(1) _ bs [unfolded bs', symmetric]]
  then have gens: "rr_OldGeneration v = rr_OldGeneration v'" "rr_NewGeneration v = rr_NewGeneration v'"
    and r1: "fs @ putUint64 (rr_IssuedAtUnixMS v) = fs' @ putUint64 (rr_IssuedAtUnixMS v')"
    by (simp_all add: append_eq_append_conv)
  note e2 = field.put_all_inject_append [OF a(2) b(2) _ r1]
  from e1 gens e2 show ?thesis by (cases v; cases v') simp
qed

text \<open>The five signed encodings as one encoder over their disjoint union.\<close>

datatype signed_value =
    SHandshake HandshakeTranscript
  | SCertificate IdentityCertificateClaims
  | SRecovery RecoveryEnrollmentClaims
  | SContext string "32 word"
  | SRotation RootRotationClaims

fun encode_signed :: "signed_value \<Rightarrow> bytes result" where
  "encode_signed (SHandshake v) = EncodeHandshakeTranscript v"
| "encode_signed (SCertificate v) = EncodeIdentityCertificate v"
| "encode_signed (SRecovery v) = EncodeRecoveryEnrollmentProof v"
| "encode_signed (SContext h g) = EncodeRecoveryContext h g"
| "encode_signed (SRotation v) = EncodeRootRotationProof v"

fun signed_label :: "signed_value \<Rightarrow> string" where
  "signed_label (SHandshake v) = HandshakeLabel"
| "signed_label (SCertificate v) = CertificateLabel"
| "signed_label (SRecovery v) = RecoveryEnrollmentLabel"
| "signed_label (SContext h g) = RootRecoveryLabel"
| "signed_label (SRotation v) = RootRotationLabel"

text \<open>The length of the value's counted list, 0 for the kinds that have none.\<close>

fun listed :: "signed_value \<Rightarrow> nat" where
  "listed (SHandshake v) = length (ht_Permissions v)"
| "listed (SCertificate v) = length (ic_Capabilities v)"
| "listed _ = 0"

lemma encode_signed_labelled: "encode_signed v = Inr bs \<Longrightarrow> labelled (signed_label v) bs"
  by (cases v) (auto intro: encoders_labelled)

lemma Nonce_inject:
  "length p = 4 \<Longrightarrow> length p' = 4 \<Longrightarrow> Nonce p n = Nonce p' n' \<Longrightarrow> p = p' \<and> n = n'"
  by (simp add: Nonce_def append_eq_append_conv)

lemma recordHeader_length: "recordHeaderMarshalBinary h = Inr bs \<Longrightarrow> length bs = 18"
  by (auto simp: recordHeaderMarshalBinary_def split: if_splits)

lemma recordHeader_inject:
  "recordHeaderMarshalBinary h = Inr bs \<Longrightarrow> recordHeaderMarshalBinary h' = Inr bs \<Longrightarrow> h = h'"
  by (cases h; cases h')
    (auto simp: recordHeaderMarshalBinary_def append_eq_append_conv split: if_splits)

section \<open>Properties\<close>

definition sample_transcript :: HandshakeTranscript where
  "sample_transcript =
     \<lparr>ht_HomeID = ''h'', ht_SessionID = ''s'', ht_AgentID = ''a'', ht_OperatorUserID = ''u'',
      ht_OperatorDeviceID = ''d'', ht_Permissions = [''desktop.view''],
      ht_BrowserEphemeralPublicKey = [4, 7], ht_JoinExpiresAtUnixMS = 10,
      ht_HardExpiresAtUnixMS = 20, ht_KeyEpoch = 1\<rparr>"

lemma sample_transcript_encodes: "\<exists>bs. EncodeHandshakeTranscript sample_transcript = Inr bs"
  by (simp add: EncodeHandshakeTranscript_def sample_transcript_def HandshakeLabel_def
      writeString_def writeNonEmpty_def writeField_def)

text \<open>C5: the signed encodings determine what was signed. If two values, each a handshake
  transcript, an identity certificate, a recovery enrolment proof, a recovery context or a root
  rotation proof, have the same encoding, they are of the same kind and equal field by field, so
  a signature over one never verifies for another. (Lists have fewer than 2 to the power 32
  entries, the count the 32-bit field carries.)\<close>

theorem signed_encoding_injective:
  assumes "encode_signed a = Inr bs" "encode_signed b = Inr bs"
    and "listed a < 2 ^ 32" "listed b < 2 ^ 32"
  shows "a = b"
proof -
  have "labelled (signed_label a) bs" "labelled (signed_label b) bs"
    using assms(1,2) by (auto intro: encode_signed_labelled)
  then have "signed_label a = signed_label b" by (rule labelled_unique)
  with assms show ?thesis
    by (cases a; cases b)
      (auto simp: label_defs dest: handshake_inject certificate_inject recovery_inject
        context_inject rotation_inject)
qed

theorem signed_encoding_injective_witness:
  "\<exists>bs. encode_signed (SHandshake sample_transcript) = Inr bs
      \<and> (\<forall>v. encode_signed v = Inr bs \<and> listed v < 2 ^ 32 \<longrightarrow> v = SHandshake sample_transcript)"
proof -
  obtain bs where enc: "encode_signed (SHandshake sample_transcript) = Inr bs"
    using sample_transcript_encodes by auto
  have few: "listed (SHandshake sample_transcript) < 2 ^ 32"
    by (simp add: sample_transcript_def)
  show ?thesis
    using enc signed_encoding_injective [OF _ enc _ few] by blast
qed

text \<open>The certificate decoder accepts exactly the canonical encodings of certificates with at
  most 32 capabilities, and returns the certificate that was encoded.\<close>

theorem certificate_decode_iff:
  "DecodeIdentityCertificate bs = Inr v \<longleftrightarrow>
     length (ic_Capabilities v) \<le> 32 \<and> EncodeIdentityCertificate v = Inr bs"
  using certificate.decode_iff [of bs v] by (simp add: certificate_decodable_def)

end
