(* ===== verification/Desktop_Protocol.thy ===== *)
theory Desktop_Protocol
  imports Go_Text
begin

text \<open>
  The desktop control-plane protocol, \<open>internal/protocol/desktop.go\<close>: permissions and their
  validation, the session state machine (\<open>CanTransitionDesktopSession\<close>), the command and event
  vocabularies and the validators of offers, ready and lifecycle messages. A Go string type with
  named constants is a datatype with one constructor per constant and an \<open>Other\<close> constructor for
  every other string. The theorems characterise the permission check, and show what the
  transition table allows: terminal states are final, a session becomes active only after its
  agent was ready, and a live session can always be ended.
\<close>

definition DesktopProtocolVersion :: string where "DesktopProtocolVersion = ''desktop.v1''"

section \<open>Permissions\<close>

datatype DesktopPermission =
    PermissionView
  | PermissionControl
  | PermissionClipboardRead
  | PermissionClipboardWrite
  | PermissionElevate
  | PermissionSecureDesktop
  | PermissionUnattended
  | OtherPermission string

fun permissionString :: "DesktopPermission \<Rightarrow> string" where
  "permissionString PermissionView = ''desktop.view''"
| "permissionString PermissionControl = ''desktop.control''"
| "permissionString PermissionClipboardRead = ''desktop.clipboard.read''"
| "permissionString PermissionClipboardWrite = ''desktop.clipboard.write''"
| "permissionString PermissionElevate = ''desktop.elevate''"
| "permissionString PermissionSecureDesktop = ''desktop.secure_desktop''"
| "permissionString PermissionUnattended = ''desktop.unattended''"
| "permissionString (OtherPermission s) = s"

fun allowedPermission :: "DesktopPermission \<Rightarrow> bool" where
  "allowedPermission (OtherPermission _) = False"
| "allowedPermission _ = True"

fun permissionLoop :: "DesktopPermission list \<Rightarrow> DesktopPermission list \<Rightarrow> DesktopPermission list result" where
  "permissionLoop seen [] = Inr seen"
| "permissionLoop seen (v # vs) =
     (if \<not> allowedPermission v then Inl (ErrMsg ''unsupported desktop permission'')
      else if v \<in> set seen then Inl (ErrMsg ''duplicate desktop permission'')
      else permissionLoop (v # seen) vs)"

definition ValidateDesktopPermissions :: "DesktopPermission list \<Rightarrow> unit result" where
  "ValidateDesktopPermissions values =
     (if values = [] \<or> PermissionView \<notin> set values then Inl (ErrMsg ''desktop.view is required'')
      else bindR (permissionLoop [] values) (\<lambda>seen.
        if (PermissionElevate \<in> set seen \<or> PermissionSecureDesktop \<in> set seen)
           \<and> PermissionControl \<notin> set seen
        then Inl (ErrMsg ''elevated and secure-desktop access require desktop.control'')
        else Inr ()))"

section \<open>Session states\<close>

datatype DesktopSessionState =
    Requested | Offered | AgentReady | Joining | Active | Reconnecting
  | Denied | Failed | Expired | Terminated
  | OtherState string

fun allowedNext :: "DesktopSessionState \<Rightarrow> DesktopSessionState list" where
  "allowedNext Requested = [Offered, Denied, Failed, Expired, Terminated]"
| "allowedNext Offered = [AgentReady, Denied, Failed, Expired, Terminated]"
| "allowedNext AgentReady = [Joining, Active, Denied, Failed, Expired, Terminated]"
| "allowedNext Joining = [Active, Denied, Failed, Expired, Terminated]"
| "allowedNext Active = [Reconnecting, Failed, Expired, Terminated]"
| "allowedNext Reconnecting = [Active, Failed, Expired, Terminated]"
| "allowedNext _ = []"

definition CanTransitionDesktopSession :: "DesktopSessionState \<Rightarrow> DesktopSessionState \<Rightarrow> bool" where
  "CanTransitionDesktopSession from to \<longleftrightarrow> to \<in> set (allowedNext from)"

definition knownDesktopSessionState :: "DesktopSessionState \<Rightarrow> bool" where
  "knownDesktopSessionState s \<longleftrightarrow>
     s \<in> {Requested, Offered, AgentReady, Joining, Active, Reconnecting,
          Denied, Failed, Expired, Terminated}"

definition isTerminalDesktopState :: "DesktopSessionState \<Rightarrow> bool" where
  "isTerminalDesktopState s \<longleftrightarrow> s \<in> {Denied, Failed, Expired, Terminated}"

definition liveStates :: "DesktopSessionState list" where
  "liveStates = [Requested, Offered, AgentReady, Joining, Active, Reconnecting]"

section \<open>Commands and events\<close>

definition desktopCommands :: "string list" where
  "desktopCommands =
     [''desktop.status'', ''desktop.session.offer'', ''desktop.session.activate'',
      ''desktop.session.close'', ''desktop.session.set_control'', ''desktop.session.set_display'',
      ''desktop.session.set_quality'', ''desktop.session.relay_pressure'']"

definition IsDesktopCommand :: "string \<Rightarrow> bool" where
  "IsDesktopCommand command \<longleftrightarrow> command \<in> set desktopCommands"

definition EventDesktopSessionReady :: string where "EventDesktopSessionReady = ''desktop.session.ready''"
definition EventDesktopSessionConnected :: string where "EventDesktopSessionConnected = ''desktop.session.connected''"
definition EventDesktopSessionDisconnected :: string where "EventDesktopSessionDisconnected = ''desktop.session.disconnected''"
definition EventDesktopDisplayChanged :: string where "EventDesktopDisplayChanged = ''desktop.display.changed''"
definition EventDesktopPermissionRequired :: string where "EventDesktopPermissionRequired = ''desktop.permission.required''"
definition EventDesktopSecureDesktopEntered :: string where "EventDesktopSecureDesktopEntered = ''desktop.secure_desktop.entered''"
definition EventDesktopSecureDesktopExited :: string where "EventDesktopSecureDesktopExited = ''desktop.secure_desktop.exited''"
definition EventDesktopSecureDesktopUnavailable :: string where "EventDesktopSecureDesktopUnavailable = ''desktop.secure_desktop.unavailable''"
definition EventDesktopPermissionGranted :: string where "EventDesktopPermissionGranted = ''desktop.permission.granted''"
definition EventDesktopPermissionLost :: string where "EventDesktopPermissionLost = ''desktop.permission.lost''"
definition EventDesktopConsoleLocked :: string where "EventDesktopConsoleLocked = ''desktop.console.locked''"
definition EventDesktopConsoleSwitched :: string where "EventDesktopConsoleSwitched = ''desktop.console.switched''"
definition EventDesktopHelperRestarted :: string where "EventDesktopHelperRestarted = ''desktop.helper.restarted''"
definition EventDesktopHelperFailed :: string where "EventDesktopHelperFailed = ''desktop.helper.failed''"
definition EventDesktopIndicatorLost :: string where "EventDesktopIndicatorLost = ''desktop.indicator.lost''"
definition EventDesktopIndicatorRestored :: string where "EventDesktopIndicatorRestored = ''desktop.indicator.restored''"
definition EventDesktopSessionStats :: string where "EventDesktopSessionStats = ''desktop.session.stats''"
definition EventDesktopSessionError :: string where "EventDesktopSessionError = ''desktop.session.error''"
definition EventDesktopSessionTerminated :: string where "EventDesktopSessionTerminated = ''desktop.session.terminated''"
definition EventDesktopControlChanged :: string where "EventDesktopControlChanged = ''desktop.control.changed''"
definition EventDesktopClipboard :: string where "EventDesktopClipboard = ''desktop.clipboard''"
definition EventDesktopSpecialKey :: string where "EventDesktopSpecialKey = ''desktop.special_key''"

lemmas event_defs =
  EventDesktopSessionReady_def EventDesktopSessionConnected_def EventDesktopSessionDisconnected_def
  EventDesktopDisplayChanged_def EventDesktopPermissionRequired_def
  EventDesktopSecureDesktopEntered_def EventDesktopSecureDesktopExited_def
  EventDesktopSecureDesktopUnavailable_def EventDesktopPermissionGranted_def
  EventDesktopPermissionLost_def EventDesktopConsoleLocked_def EventDesktopConsoleSwitched_def
  EventDesktopHelperRestarted_def EventDesktopHelperFailed_def EventDesktopIndicatorLost_def
  EventDesktopIndicatorRestored_def EventDesktopSessionStats_def EventDesktopSessionError_def
  EventDesktopSessionTerminated_def EventDesktopControlChanged_def EventDesktopClipboard_def
  EventDesktopSpecialKey_def

definition desktopEvents :: "string list" where
  "desktopEvents =
     [EventDesktopSessionReady, EventDesktopSessionConnected, EventDesktopSessionDisconnected,
      EventDesktopDisplayChanged, EventDesktopPermissionRequired, EventDesktopSecureDesktopEntered,
      EventDesktopSecureDesktopExited, EventDesktopSecureDesktopUnavailable,
      EventDesktopPermissionGranted, EventDesktopPermissionLost, EventDesktopConsoleLocked,
      EventDesktopConsoleSwitched, EventDesktopHelperRestarted, EventDesktopHelperFailed,
      EventDesktopIndicatorLost, EventDesktopIndicatorRestored, EventDesktopSessionStats,
      EventDesktopSessionError, EventDesktopSessionTerminated,
      EventDesktopControlChanged, EventDesktopClipboard, EventDesktopSpecialKey]"

definition IsDesktopEvent :: "string \<Rightarrow> bool" where
  "IsDesktopEvent event \<longleftrightarrow> event \<in> set desktopEvents"

section \<open>Messages\<close>

record DesktopHandshakeParty =
  hp_IdentityID :: string
  hp_Certificate :: string
  hp_EphemeralPublicKey :: string
  hp_Signature :: string

record DesktopSessionOffer =
  of_Protocol :: string
  of_SessionID :: string
  of_HomeID :: string
  of_AgentID :: string
  of_OperatorUserID :: string
  of_OperatorDeviceID :: string
  of_Permissions :: "DesktopPermission list"
  of_KeyEpoch :: "32 word"
  of_JoinExpiresAt :: time
  of_HardExpiresAt :: time
  of_AgentJoinCredential :: string
  of_OperatorCertificate :: string
  of_OperatorCertificateFingerprint :: string
  of_TrustRootGeneration :: "32 word"
  of_TrustRootPublicKeySPKI :: string
  of_TrustRootFingerprint :: string
  of_OperatorIdentityStatus :: string
  of_OperatorIdentityCheckedAt :: time

record DesktopSessionReady =
  rd_Protocol :: string
  rd_SessionID :: string
  rd_KeyEpoch :: "32 word"
  rd_EndpointCertificate :: string
  rd_EndpointCertificateFingerprint :: string
  rd_Readiness :: "(string, string) gomap"

record DesktopSessionLifecycleEvent =
  le_Protocol :: string
  le_SessionID :: string
  le_KeyEpoch :: "32 word"
  le_ReasonCode :: string
  le_Metadata :: "(string, string) gomap"

definition validateHandshakeParty :: "DesktopHandshakeParty \<Rightarrow> unit result" where
  "validateHandshakeParty party =
     (if \<not> matches_id_pattern (hp_IdentityID party) then Inl (ErrMsg ''invalid desktop identity id'')
      else if blank (hp_Certificate party) \<or> blank (hp_EphemeralPublicKey party)
              \<or> blank (hp_Signature party)
      then Inl (ErrMsg ''desktop handshake identity material is incomplete'')
      else Inr ())"

definition validateOffer :: "DesktopSessionOffer \<Rightarrow> time \<Rightarrow> unit result" where
  "validateOffer offer now =
     (if of_Protocol offer \<noteq> DesktopProtocolVersion \<or> \<not> matches_id_pattern (of_SessionID offer)
      then Inl (ErrMsg ''invalid desktop offer identity'')
      else if blank (of_HomeID offer) \<or> blank (of_AgentID offer) \<or> blank (of_OperatorUserID offer)
              \<or> blank (of_OperatorDeviceID offer)
      then Inl (ErrMsg ''desktop offer scope is incomplete'')
      else if of_KeyEpoch offer = 0 \<or> blank (of_AgentJoinCredential offer)
              \<or> blank (of_OperatorCertificate offer)
              \<or> blank (of_OperatorCertificateFingerprint offer)
              \<or> of_TrustRootGeneration offer = 0
              \<or> blank (of_TrustRootPublicKeySPKI offer) \<or> blank (of_TrustRootFingerprint offer)
              \<or> of_OperatorIdentityStatus offer \<noteq> ''active''
      then Inl (ErrMsg ''desktop offer credential, certificate, or epoch is invalid'')
      else if isZero (of_OperatorIdentityCheckedAt offer)
              \<or> of_OperatorIdentityCheckedAt offer > now + minutes 1
              \<or> timeSub now (of_OperatorIdentityCheckedAt offer) > minutes 2
      then Inl (ErrMsg ''desktop operator identity status is stale'')
      else if \<not> of_JoinExpiresAt offer > now \<or> \<not> of_HardExpiresAt offer > of_JoinExpiresAt offer
      then Inl (ErrMsg ''desktop offer timestamps are invalid'')
      else ValidateDesktopPermissions (of_Permissions offer))"

definition validateReady :: "DesktopSessionReady \<Rightarrow> unit result" where
  "validateReady ready =
     (if rd_Protocol ready \<noteq> DesktopProtocolVersion \<or> \<not> matches_id_pattern (rd_SessionID ready)
      then Inl (ErrMsg ''invalid desktop ready identity'')
      else if rd_KeyEpoch ready = 0 \<or> blank (rd_EndpointCertificate ready)
              \<or> blank (rd_EndpointCertificateFingerprint ready)
      then Inl (ErrMsg ''desktop ready certificate or epoch is invalid'')
      else if rd_Readiness ready = [] then Inl (ErrMsg ''desktop readiness is required'')
      else Inr ())"

definition validateLifecycleEvent :: "DesktopSessionLifecycleEvent \<Rightarrow> unit result" where
  "validateLifecycleEvent event =
     (if le_Protocol event \<noteq> DesktopProtocolVersion \<or> \<not> matches_id_pattern (le_SessionID event)
      then Inl (ErrMsg ''invalid desktop lifecycle identity'')
      else if le_KeyEpoch event = 0 then Inl (ErrMsg ''desktop lifecycle epoch is invalid'')
      else Inr ())"

section \<open>The permission check\<close>

lemma permissionLoop_Inr_iff:
  "permissionLoop seen vs = Inr out \<longleftrightarrow>
     list_all allowedPermission vs \<and> distinct vs \<and> set vs \<inter> set seen = {} \<and> out = rev vs @ seen"
  by (induction vs arbitrary: seen) auto

lemma ValidateDesktopPermissions_ok_iff:
  "ValidateDesktopPermissions vs = Inr () \<longleftrightarrow>
     PermissionView \<in> set vs \<and> list_all allowedPermission vs \<and> distinct vs
     \<and> (PermissionElevate \<in> set vs \<or> PermissionSecureDesktop \<in> set vs \<longrightarrow> PermissionControl \<in> set vs)"
  by (auto simp: ValidateDesktopPermissions_def bindR_Inr_iff permissionLoop_Inr_iff split: if_splits)

section \<open>The state machine\<close>

lemma terminal_no_next: "isTerminalDesktopState s \<Longrightarrow> \<not> CanTransitionDesktopSession s t"
  by (auto simp: isTerminalDesktopState_def CanTransitionDesktopSession_def)

lemma live_iff: "s \<in> set liveStates \<longleftrightarrow> knownDesktopSessionState s \<and> \<not> isTerminalDesktopState s"
  by (cases s) (simp_all add: liveStates_def knownDesktopSessionState_def isTerminalDesktopState_def)

lemma can_transition_live: "CanTransitionDesktopSession s t \<Longrightarrow> s \<in> set liveStates"
  by (cases s) (simp_all add: CanTransitionDesktopSession_def liveStates_def)

lemma live_can_end:
  "s \<in> set liveStates \<Longrightarrow> CanTransitionDesktopSession s Terminated
     \<and> CanTransitionDesktopSession s Failed \<and> CanTransitionDesktopSession s Expired"
  by (auto simp: liveStates_def CanTransitionDesktopSession_def)

text \<open>A run of the session lifecycle: the states it passes through, in order.\<close>

inductive lifecycle :: "DesktopSessionState list \<Rightarrow> bool" where
  start: "lifecycle [Requested]"
| step: "lifecycle (path @ [s]) \<Longrightarrow> CanTransitionDesktopSession s t \<Longrightarrow> lifecycle (path @ [s, t])"

inductive_cases lifecycle_snoc2E: "lifecycle (path @ [s, t])"

lemma lifecycle_pred:
  assumes "lifecycle p"
  shows "p \<noteq> [] \<and> hd p = Requested \<and> (\<forall>i. Suc i < length p \<longrightarrow> CanTransitionDesktopSession (p ! i) (p ! Suc i))"
  using assms
proof (induction rule: lifecycle.induct)
  case start
  show ?case by simp
next
  case (step path s t)
  show ?case
  proof (intro conjI allI impI)
    show "path @ [s, t] \<noteq> []" by simp
    show "hd (path @ [s, t]) = Requested" using step.IH by (cases path) auto
  next
    fix i
    assume i: "Suc i < length (path @ [s, t])"
    show "CanTransitionDesktopSession ((path @ [s, t]) ! i) ((path @ [s, t]) ! Suc i)"
    proof (cases "Suc i < length (path @ [s])")
      case True
      with step.IH have "CanTransitionDesktopSession ((path @ [s]) ! i) ((path @ [s]) ! Suc i)" by blast
      with True show ?thesis by (simp add: nth_append split: if_splits)
    next
      case False
      with i have "i = length path" by simp
      with step.hyps(2) show ?thesis by (simp add: nth_append)
    qed
  qed
qed

lemma lifecycle_active_ready: "lifecycle p \<Longrightarrow> last p \<in> {Joining, Active, Reconnecting} \<Longrightarrow> AgentReady \<in> set p"
proof (induction rule: lifecycle.induct)
  case start
  then show ?case by simp
next
  case (step path s t)
  then have t: "t \<in> {Joining, Active, Reconnecting}" by simp
  show ?case
  proof (cases "s = AgentReady")
    case True
    then show ?thesis by simp
  next
    case False
    with step.hyps(2) t have "s \<in> {Joining, Active, Reconnecting}"
      by (cases s) (auto simp: CanTransitionDesktopSession_def)
    with step.IH show ?thesis by auto
  qed
qed

section \<open>Properties\<close>

text \<open>The permission check accepts a request exactly when it lists supported permissions
  without repetition, includes \<open>desktop.view\<close>, and asks for \<open>desktop.control\<close> whenever it asks for
  elevation or the secure desktop.\<close>

theorem permission_check_characterised:
  "ValidateDesktopPermissions vs = Inr () \<longleftrightarrow>
     PermissionView \<in> set vs \<and> (\<nexists>s. OtherPermission s \<in> set vs) \<and> distinct vs
     \<and> (PermissionControl \<in> set vs \<or> PermissionElevate \<notin> set vs \<and> PermissionSecureDesktop \<notin> set vs)"
proof -
  have "list_all allowedPermission vs \<longleftrightarrow> (\<nexists>s. OtherPermission s \<in> set vs)"
    by (auto simp: list_all_iff) (metis allowedPermission.elims(3))
  then show ?thesis by (auto simp: ValidateDesktopPermissions_ok_iff)
qed

text \<open>Along every run of the session lifecycle from \<open>requested\<close>, a terminal state is the last
  one, the agent was ready before the session joined, was active or reconnected, and from every
  state that is not terminal the session can be terminated.\<close>

theorem session_lifecycle_sound:
  assumes "lifecycle p"
  shows "(\<forall>i. i < length p \<longrightarrow> isTerminalDesktopState (p ! i) \<longrightarrow> i = length p - 1)
    \<and> (last p \<in> {Joining, Active, Reconnecting} \<longrightarrow> AgentReady \<in> set p)
    \<and> (\<not> isTerminalDesktopState (last p) \<longrightarrow> lifecycle (p @ [Terminated]))"
proof (intro conjI allI impI)
  fix i
  assume "i < length p" "isTerminalDesktopState (p ! i)"
  then show "i = length p - 1"
    using lifecycle_pred [OF assms] terminal_no_next [of "p ! i"] by (cases "Suc i < length p") auto
next
  assume "last p \<in> {Joining, Active, Reconnecting}"
  with assms show "AgentReady \<in> set p" by (rule lifecycle_active_ready)
next
  assume nt: "\<not> isTerminalDesktopState (last p)"
  obtain path s where p: "p = path @ [s]"
    using lifecycle_pred [OF assms] by (metis append_butlast_last_id)
  have "knownDesktopSessionState s"
    using assms unfolding p
  proof (cases rule: lifecycle.cases)
    case start
    then show ?thesis by (simp add: knownDesktopSessionState_def)
  next
    case (step path' s' t)
    then have "s = t" by simp
    with step(3) show ?thesis
      by (cases s') (auto simp: CanTransitionDesktopSession_def knownDesktopSessionState_def)
  qed
  with nt have "CanTransitionDesktopSession s Terminated"
    by (intro live_can_end [THEN conjunct1]) (simp add: live_iff p)
  with assms show "lifecycle (p @ [Terminated])"
    unfolding p by (simp add: lifecycle.step)
qed

lemma sample_lifecycle: "lifecycle [Requested, Offered, AgentReady, Active]"
proof -
  have "lifecycle ([] @ [Requested, Offered])"
    by (rule lifecycle.step) (simp_all add: lifecycle.start CanTransitionDesktopSession_def)
  then have "lifecycle ([Requested] @ [Offered, AgentReady])"
    by (intro lifecycle.step) (simp_all add: CanTransitionDesktopSession_def)
  then have "lifecycle ([Requested, Offered] @ [AgentReady, Active])"
    by (intro lifecycle.step) (simp_all add: CanTransitionDesktopSession_def)
  then show ?thesis by simp
qed

theorem session_lifecycle_sound_witness:
  "lifecycle [Requested, Offered, AgentReady, Active]
   \<and> AgentReady \<in> set [Requested, Offered, AgentReady, Active]
   \<and> lifecycle ([Requested, Offered, AgentReady, Active] @ [Terminated])"
  using sample_lifecycle session_lifecycle_sound [OF sample_lifecycle]
  by (simp add: isTerminalDesktopState_def)

end
