(* ===== verification/Desktop_Db.thy ===== *)
theory Desktop_Db
  imports Desktop_Protocol
begin

text \<open>
  The desktop tables: the row types of \<open>internal/domain/desktop.go\<close> and the constraints the
  migrations \<open>000021\<close> to \<open>000023\<close> put on them. A table is the list of its rows. An \<open>INSERT\<close> checks
  the row's \<open>CHECK\<close> constraints, then the unique indexes, then the foreign keys, and fails
  otherwise; an \<open>UPDATE\<close> changes the rows its \<open>WHERE\<close> clause selects and fails when a changed row
  violates a \<open>CHECK\<close>. A store operation is one transaction: \<open>Inl e\<close> means the error \<open>e\<close> is returned
  and everything is rolled back, \<open>Inr\<close> carries the committed database. Timestamps are taken at the
  database's own precision. A unique violation (SQLSTATE 23505) becomes \<open>ErrConflict\<close> through
  \<open>mapDesktopStoreError\<close>.
\<close>

section \<open>Rows\<close>

datatype Side = Browser | Agent | OtherSide string

datatype DesktopIdentityType = OperatorDevice | Endpoint | OtherIdentityType string

record DesktopTrustRoot =
  tr_HomeID :: string
  tr_Generation :: int
  tr_Algorithm :: string
  tr_PublicKeySPKI :: bytes
  tr_Fingerprint :: string
  tr_RecoveryEnvelope :: bytes
  tr_CreatedAt :: time
  tr_RotatedAt :: "time option"
  tr_AuthorityMode :: string
  tr_EncryptedPrivateKey :: string

text \<open>The challenge columns of \<open>desktop_trust_roots\<close>, which the Go struct does not carry.\<close>

record desktop_trust_roots_row = DesktopTrustRoot +
  recovery_challenge_hash :: "bytes option"
  recovery_challenge_expires_at :: "time option"
  recovery_challenge_consumed_at :: "time option"

record DesktopIdentity =
  id_ID :: string
  id_HomeID :: string
  id_IdentityType :: DesktopIdentityType
  id_UserID :: string
  id_DeviceID :: string
  id_AgentID :: string
  id_PublicKeySPKI :: bytes
  id_Certificate :: bytes
  id_Fingerprint :: string
  id_Capabilities :: "string list"
  id_TrustRootGeneration :: int
  id_CreatedAt :: time
  id_ExpiresAt :: time
  id_RevokedAt :: "time option"
  id_RevocationReason :: string
  id_AuthSessionID :: string

record DesktopPendingEnrollment =
  pn_HomeID :: string
  pn_AgentID :: string
  pn_RequestJSON :: bytes
  pn_Fingerprint :: string
  pn_CreatedAt :: time
  pn_ExpiresAt :: time

record DesktopEnrollmentChallenge =
  ch_ID :: string
  ch_HomeID :: string
  ch_UserID :: string
  ch_SessionID :: string
  ch_Purpose :: string
  ch_InstallationID :: string
  ch_ChallengeHash :: bytes
  ch_ExpiresAt :: time
  ch_ConsumedAt :: "time option"
  ch_CreatedAt :: time

record DesktopSession =
  s_ID :: string
  s_HomeID :: string
  s_AgentID :: string
  s_OperatorUserID :: string
  s_OperatorDeviceIdentityID :: string
  s_RequestedPermissions :: "DesktopPermission list"
  s_EffectivePermissions :: "DesktopPermission list"
  s_State :: DesktopSessionState
  s_KeyEpoch :: "32 word"
  s_RequestedAt :: time
  s_JoinExpiresAt :: time
  s_HardExpiresAt :: time
  s_ActiveAt :: "time option"
  s_ReconnectExpiresAt :: "time option"
  s_TerminatedAt :: "time option"
  s_TerminationReason :: string
  s_SourceIPHash :: string
  s_SourceUserAgentHash :: string
  s_BrowserToAgentBytes :: int
  s_AgentToBrowserBytes :: int

record DesktopJoinCredential =
  c_ID :: string
  c_SessionID :: string
  c_Side :: Side
  c_CredentialHash :: bytes
  c_KeyEpoch :: "32 word"
  c_CreatedAt :: time
  c_ExpiresAt :: time
  c_ConsumedAt :: "time option"
  c_RevokedAt :: "time option"

record DesktopSessionEvent =
  e_SessionID :: string
  e_Sequence :: int
  e_EventType :: string
  e_ActorType :: string
  e_ActorID :: string
  e_OccurredAt :: time
  e_Severity :: string
  e_ReasonCode :: string
  e_MetadataJSON :: string

record desktop_db =
  sessions :: "DesktopSession list"
  credentials :: "DesktopJoinCredential list"
  events :: "DesktopSessionEvent list"
  identities :: "DesktopIdentity list"
  trust_roots :: "desktop_trust_roots_row list"
  pending_enrollments :: "DesktopPendingEnrollment list"
  enrollment_challenges :: "DesktopEnrollmentChallenge list"
  homes :: "string list"
  users :: "string list"
  app_sessions :: "string list"
  agents :: "(string \<times> string) list"
  home_memberships :: "(string \<times> string) list"

section \<open>Errors of the database\<close>

definition errCheck :: error where "errCheck = ErrMsg ''check constraint violated''"
definition errForeign :: error where "errForeign = ErrMsg ''foreign key violated''"
definition errUnique :: error where
  "errUnique = ErrConflict ''concurrent or duplicate desktop state''"

text \<open>
  \<open>UPDATE t SET f WHERE P\<close>: every selected row is replaced, and each replaced row must satisfy
  the table's checks.
\<close>

definition updateWhere :: "('r \<Rightarrow> bool) \<Rightarrow> ('r \<Rightarrow> 'r) \<Rightarrow> ('r \<Rightarrow> bool) \<Rightarrow> 'r list \<Rightarrow> 'r list result" where
  "updateWhere P f ok rows =
     (if list_all (\<lambda>r. P r \<longrightarrow> ok (f r)) rows then Inr (map (\<lambda>r. if P r then f r else r) rows)
      else Inl errCheck)"

lemma updateWhere_Inr_iff:
  "updateWhere P f ok rows = Inr rows' \<longleftrightarrow>
     (\<forall>r \<in> set rows. P r \<longrightarrow> ok (f r)) \<and> rows' = map (\<lambda>r. if P r then f r else r) rows"
  by (auto simp: updateWhere_def list_all_iff)

section \<open>Sessions\<close>

definition live :: "DesktopSession \<Rightarrow> bool" where
  "live s \<longleftrightarrow> s_State s \<in> set liveStates"

text \<open>The \<open>CHECK\<close> constraints of \<open>desktop_sessions\<close>; \<open>key_epoch\<close> is a four-byte signed column.\<close>

definition session_checks :: "DesktopSession \<Rightarrow> bool" where
  "session_checks s \<longleftrightarrow>
     0 < unat (s_KeyEpoch s) \<and> unat (s_KeyEpoch s) < 2 ^ 31
     \<and> 0 \<le> s_BrowserToAgentBytes s \<and> 0 \<le> s_AgentToBrowserBytes s
     \<and> knownDesktopSessionState (s_State s)
     \<and> list_all allowedPermission (s_RequestedPermissions s)
     \<and> set (s_EffectivePermissions s) \<subseteq> set (s_RequestedPermissions s)
     \<and> PermissionView \<in> set (s_RequestedPermissions s)
     \<and> PermissionView \<in> set (s_EffectivePermissions s)
     \<and> s_RequestedAt s < s_JoinExpiresAt s \<and> s_JoinExpiresAt s \<le> s_RequestedAt s + seconds 60
     \<and> s_RequestedAt s < s_HardExpiresAt s \<and> s_HardExpiresAt s \<le> s_RequestedAt s + hours 8
     \<and> (case s_ReconnectExpiresAt s of None \<Rightarrow> True
        | Some r \<Rightarrow> s_RequestedAt s < r \<and> r \<le> s_HardExpiresAt s)
     \<and> (if isTerminalDesktopState (s_State s)
        then s_TerminatedAt s \<noteq> None \<and> s_TerminationReason s \<noteq> []
        else s_TerminatedAt s = None \<and> s_TerminationReason s = [])"

definition session_fks :: "desktop_db \<Rightarrow> DesktopSession \<Rightarrow> bool" where
  "session_fks db s \<longleftrightarrow>
     (s_HomeID s, s_AgentID s) \<in> set (agents db)
     \<and> (s_HomeID s, s_OperatorUserID s) \<in> set (home_memberships db)
     \<and> list_ex (\<lambda>i. id_HomeID i = s_HomeID s \<and> id_UserID i = s_OperatorUserID s
                   \<and> id_ID i = s_OperatorDeviceIdentityID s) (identities db)"

definition insertSessionRow :: "DesktopSession \<Rightarrow> desktop_db \<Rightarrow> desktop_db result" where
  "insertSessionRow s db =
     (if \<not> session_checks s then Inl errCheck
      else if list_ex (\<lambda>r. s_ID r = s_ID s \<or> (live r \<and> live s \<and> s_AgentID r = s_AgentID s)) (sessions db)
      then Inl errUnique
      else if \<not> session_fks db s then Inl errForeign
      else Inr (db\<lparr>sessions := sessions db @ [s]\<rparr>))"

definition updateSessions ::
    "(DesktopSession \<Rightarrow> bool) \<Rightarrow> (DesktopSession \<Rightarrow> DesktopSession) \<Rightarrow> desktop_db \<Rightarrow> desktop_db result" where
  "updateSessions P f db =
     bindR (updateWhere P f session_checks (sessions db)) (\<lambda>rows. Inr (db\<lparr>sessions := rows\<rparr>))"

definition findSession :: "desktop_db \<Rightarrow> string \<Rightarrow> DesktopSession option" where
  "findSession db sid = find (\<lambda>s. s_ID s = sid) (sessions db)"

section \<open>Credentials\<close>

definition open_cred :: "DesktopJoinCredential \<Rightarrow> bool" where
  "open_cred c \<longleftrightarrow> c_ConsumedAt c = None \<and> c_RevokedAt c = None"

definition credential_checks :: "DesktopJoinCredential \<Rightarrow> bool" where
  "credential_checks c \<longleftrightarrow>
     (c_Side c = Browser \<or> c_Side c = Agent)
     \<and> 0 < unat (c_KeyEpoch c) \<and> unat (c_KeyEpoch c) < 2 ^ 31
     \<and> c_CreatedAt c < c_ExpiresAt c
     \<and> (case c_ConsumedAt c of None \<Rightarrow> True | Some t \<Rightarrow> c_CreatedAt c \<le> t)
     \<and> (case c_RevokedAt c of None \<Rightarrow> True | Some t \<Rightarrow> c_CreatedAt c \<le> t)"

definition insertDesktopJoinCredential :: "DesktopJoinCredential \<Rightarrow> desktop_db \<Rightarrow> desktop_db result" where
  "insertDesktopJoinCredential c db =
     (if \<not> credential_checks c then Inl errCheck
      else if list_ex (\<lambda>r. c_ID r = c_ID c \<or> c_CredentialHash r = c_CredentialHash c
                \<or> (c_SessionID r = c_SessionID c \<and> c_Side r = c_Side c \<and> c_KeyEpoch r = c_KeyEpoch c))
              (credentials db)
      then Inl errUnique
      else if findSession db (c_SessionID c) = None then Inl errForeign
      else Inr (db\<lparr>credentials := credentials db @ [c]\<rparr>))"

definition updateCredentials ::
    "(DesktopJoinCredential \<Rightarrow> bool) \<Rightarrow> (DesktopJoinCredential \<Rightarrow> DesktopJoinCredential) \<Rightarrow>
     desktop_db \<Rightarrow> desktop_db result" where
  "updateCredentials P f db =
     bindR (updateWhere P f credential_checks (credentials db)) (\<lambda>rows. Inr (db\<lparr>credentials := rows\<rparr>))"

text \<open>\<open>UPDATE desktop_join_credentials SET revoked_at = ? WHERE ... AND consumed_at IS NULL AND revoked_at IS NULL\<close>\<close>

definition revokeOpenCredentials :: "(string \<Rightarrow> bool) \<Rightarrow> time \<Rightarrow> desktop_db \<Rightarrow> desktop_db result" where
  "revokeOpenCredentials inScope at =
     updateCredentials (\<lambda>c. inScope (c_SessionID c) \<and> open_cred c) (\<lambda>c. c\<lparr>c_RevokedAt := Some at\<rparr>)"

section \<open>Events\<close>

definition actorTypes :: "string list" where
  "actorTypes = [''user'', ''agent'', ''server'', ''browser'']"

definition severities :: "string list" where
  "severities = [''info'', ''warning'', ''error'', ''security'']"

text \<open>\<open>btrim(event_type) <> ''\<close> removes spaces only.\<close>

definition event_checks :: "DesktopSessionEvent \<Rightarrow> bool" where
  "event_checks e \<longleftrightarrow>
     0 < e_Sequence e \<and> \<not> list_all (\<lambda>c. c = CHR 0x20) (e_EventType e)
     \<and> e_ActorType e \<in> set actorTypes \<and> e_Severity e \<in> set severities"

definition nextSequence :: "desktop_db \<Rightarrow> string \<Rightarrow> int" where
  "nextSequence db sid =
     foldr max (map e_Sequence (filter (\<lambda>e. e_SessionID e = sid) (events db))) 0 + 1"

definition appendDesktopSessionEvent :: "DesktopSessionEvent \<Rightarrow> desktop_db \<Rightarrow> desktop_db result" where
  "appendDesktopSessionEvent event db =
     (let row = event\<lparr>e_Sequence := nextSequence db (e_SessionID event)\<rparr> in
      if \<not> event_checks row then Inl errCheck
      else if findSession db (e_SessionID event) = None then Inl errForeign
      else Inr (db\<lparr>events := events db @ [row]\<rparr>))"

section \<open>What the primitive statements keep\<close>

lemma findSession_Some: "findSession db sid = Some s \<Longrightarrow> s \<in> set (sessions db) \<and> s_ID s = sid"
  by (auto simp: findSession_def find_Some_iff)

lemma findSession_unique:
  "distinct (map s_ID (sessions db)) \<Longrightarrow> s \<in> set (sessions db) \<Longrightarrow> findSession db (s_ID s) = Some s"
proof -
  assume d: "distinct (map s_ID (sessions db))" and s: "s \<in> set (sessions db)"
  have "\<exists>r. findSession db (s_ID s) = Some r"
    using s by (auto simp: findSession_def find_None_iff simp flip: not_None_eq)
  then obtain r where r: "findSession db (s_ID s) = Some r" by blast
  then have "r \<in> set (sessions db)" "s_ID r = s_ID s" by (auto dest: findSession_Some)
  with d s have "r = s" by (auto simp: distinct_map inj_on_def)
  with r show ?thesis by simp
qed

lemma foldr_max_ge: "x \<in> set xs \<Longrightarrow> x \<le> foldr max xs (z :: int)"
  by (induction xs) auto

lemma nextSequence_fresh:
  "e \<in> set (events db) \<Longrightarrow> e_SessionID e = sid \<Longrightarrow> e_Sequence e < nextSequence db sid"
proof -
  assume "e \<in> set (events db)" "e_SessionID e = sid"
  then have "e_Sequence e \<in> set (map e_Sequence (filter (\<lambda>e. e_SessionID e = sid) (events db)))"
    by auto
  then have "e_Sequence e \<le> foldr max (map e_Sequence (filter (\<lambda>e. e_SessionID e = sid) (events db))) 0"
    by (rule foldr_max_ge)
  then show ?thesis by (simp add: nextSequence_def)
qed

lemma nextSequence_pos: "0 < nextSequence db sid"
proof -
  have "0 \<le> foldr max xs (0 :: int)" for xs by (induction xs) auto
  then show ?thesis by (simp add: nextSequence_def add_nonneg_pos)
qed

lemma appendEvent_frame:
  assumes "appendDesktopSessionEvent e db = Inr db'"
  shows "sessions db' = sessions db" "credentials db' = credentials db"
    "identities db' = identities db" "trust_roots db' = trust_roots db"
  using assms by (auto simp: appendDesktopSessionEvent_def Let_def split: if_splits)

end
