(* ===== verification/Session_Store.thy ===== *)
theory Session_Store
  imports Desktop_Db
begin

text \<open>
  Desktop sessions in the database, \<open>internal/store/desktop_sessions.go\<close>: creation, state
  transitions, reconnects, transport loss, the consumption of join credentials, byte counters,
  the event log, expiry and pruning, and the listings. \<open>jsonObject\<close> stands for the verdict of
  \<open>encoding/json\<close> on an event's metadata (a JSON object or not). The history listings that only
  format rows (\<open>ListTerminalDesktopSessions\<close>, \<open>ListDesktopAgentReadinessEvents\<close> and the per-platform
  counts) are not modelled. The invariant of every reachable database says that at most one
  session per agent is live, that a credential can be open only for a live session and for its
  current key epoch, and that credential hashes and event sequence numbers are unique.
\<close>

section \<open>Validation\<close>

definition validateDesktopPermissionStrings :: "DesktopPermission list \<Rightarrow> unit result" where
  "validateDesktopPermissionStrings values = ValidateDesktopPermissions values"

definition validateDesktopSession :: "DesktopSession \<Rightarrow> unit result" where
  "validateDesktopSession s =
     (if blank (s_ID s) \<or> blank (s_HomeID s) \<or> blank (s_AgentID s) \<or> blank (s_OperatorUserID s)
         \<or> blank (s_OperatorDeviceIdentityID s) \<or> s_KeyEpoch s = 0 \<or> isZero (s_RequestedAt s)
         \<or> \<not> s_JoinExpiresAt s > s_RequestedAt s
         \<or> s_JoinExpiresAt s > s_RequestedAt s + minutes 1
         \<or> \<not> s_HardExpiresAt s > s_RequestedAt s
         \<or> s_HardExpiresAt s > s_RequestedAt s + hours 8
      then Inl (ErrMsg ''invalid desktop session'')
      else if \<not> knownDesktopSessionState (s_State s)
      then Inl (ErrMsg ''unknown desktop session state'')
      else
        bindR (validateDesktopPermissionStrings (s_RequestedPermissions s)) (\<lambda>_.
        bindR (validateDesktopPermissionStrings (s_EffectivePermissions s)) (\<lambda>_.
        if list_ex (\<lambda>p. p \<notin> set (s_RequestedPermissions s)) (s_EffectivePermissions s)
        then Inl (ErrMsg ''effective desktop permission was not requested'')
        else Inr ())))"

definition validateDesktopJoinCredential :: "DesktopJoinCredential \<Rightarrow> unit result" where
  "validateDesktopJoinCredential c =
     (if blank (c_ID c) \<or> blank (c_SessionID c) \<or> (c_Side c \<noteq> Browser \<and> c_Side c \<noteq> Agent)
         \<or> length (c_CredentialHash c) \<noteq> 32 \<or> c_KeyEpoch c = 0 \<or> isZero (c_CreatedAt c)
         \<or> \<not> c_ExpiresAt c > c_CreatedAt c \<or> c_ConsumedAt c \<noteq> None \<or> c_RevokedAt c \<noteq> None
      then Inl (ErrMsg ''invalid desktop join credential'') else Inr ())"

definition validateDesktopCredentialPair ::
    "DesktopSession \<Rightarrow> DesktopJoinCredential \<Rightarrow> DesktopJoinCredential \<Rightarrow> unit result" where
  "validateDesktopCredentialPair s browser agent =
     bindR (validateDesktopJoinCredential browser) (\<lambda>_.
     bindR (validateDesktopJoinCredential agent) (\<lambda>_.
     if c_Side browser \<noteq> Browser \<or> c_Side agent \<noteq> Agent
        \<or> c_SessionID browser \<noteq> s_ID s \<or> c_SessionID agent \<noteq> s_ID s
        \<or> c_KeyEpoch browser \<noteq> s_KeyEpoch s \<or> c_KeyEpoch agent \<noteq> s_KeyEpoch s
        \<or> c_CreatedAt browser \<noteq> c_CreatedAt agent \<or> c_CreatedAt browser \<noteq> s_RequestedAt s
        \<or> c_ExpiresAt browser \<noteq> c_ExpiresAt agent
        \<or> c_ExpiresAt browser \<noteq> s_JoinExpiresAt s
        \<or> c_CredentialHash browser = c_CredentialHash agent
     then Inl (ErrMsg ''desktop credential pair does not match the session'')
     else Inr ()))"

definition validateDesktopEvent :: "(string \<Rightarrow> bool) \<Rightarrow> DesktopSessionEvent \<Rightarrow> string \<Rightarrow> unit result" where
  "validateDesktopEvent jsonObject event sessionID =
     (if e_SessionID event \<noteq> sessionID \<or> blank (e_EventType event)
         \<or> e_ActorType event \<notin> set actorTypes \<or> isZero (e_OccurredAt event)
         \<or> e_Severity event \<notin> set severities
      then Inl (ErrMsg ''invalid desktop session event'')
      else if \<not> jsonObject (e_MetadataJSON event)
      then Inl (ErrMsg ''desktop event metadata must be a JSON object'')
      else Inr ())"

section \<open>Creation and reads\<close>

definition CreateDesktopSession ::
    "(string \<Rightarrow> bool) \<Rightarrow> DesktopSession \<Rightarrow> DesktopJoinCredential \<Rightarrow> DesktopJoinCredential \<Rightarrow>
     DesktopSessionEvent \<Rightarrow> desktop_db \<Rightarrow> desktop_db result" where
  "CreateDesktopSession jsonObject s browser agent event db =
     bindR (validateDesktopSession s) (\<lambda>_.
     if s_State s \<noteq> Requested \<or> s_KeyEpoch s \<noteq> 1
     then Inl (ErrMsg ''new desktop session must be requested at epoch 1'')
     else
       bindR (validateDesktopCredentialPair s browser agent) (\<lambda>_.
       bindR (validateDesktopEvent jsonObject event (s_ID s)) (\<lambda>_.
       bindR (insertSessionRow s db) (\<lambda>db1.
       bindR (insertDesktopJoinCredential browser db1) (\<lambda>db2.
       bindR (insertDesktopJoinCredential agent db2) (\<lambda>db3.
       appendDesktopSessionEvent event db3))))))"

definition GetDesktopSession :: "string \<Rightarrow> desktop_db \<Rightarrow> DesktopSession result" where
  "GetDesktopSession sessionID db =
     (case findSession db sessionID of None \<Rightarrow> Inl ErrNotFound | Some s \<Rightarrow> Inr s)"

definition GetDesktopSessionForUser :: "string \<Rightarrow> string \<Rightarrow> desktop_db \<Rightarrow> DesktopSession result" where
  "GetDesktopSessionForUser sessionID userID db =
     (case find (\<lambda>s. s_ID s = sessionID \<and> s_OperatorUserID s = userID) (sessions db) of
        None \<Rightarrow> Inl ErrNotFound | Some s \<Rightarrow> Inr s)"

definition getDesktopSessionForUpdate :: "string \<Rightarrow> desktop_db \<Rightarrow> DesktopSession result" where
  "getDesktopSessionForUpdate sessionID db = GetDesktopSession sessionID db"

section \<open>Transitions\<close>

text \<open>The row a transition writes, from the row it read.\<close>

definition transitioned ::
    "DesktopSession \<Rightarrow> DesktopSessionState \<Rightarrow> string \<Rightarrow> time \<Rightarrow> DesktopSession \<Rightarrow> DesktopSession" where
  "transitioned s next reason at row =
     row\<lparr>s_State := next,
         s_ActiveAt := (if next = Active \<and> s_ActiveAt s = None then Some at else s_ActiveAt s),
         s_TerminatedAt := (if isTerminalDesktopState next then Some at else None),
         s_TerminationReason := (if isTerminalDesktopState next then reason else [])\<rparr>"

definition TransitionDesktopSession ::
    "(string \<Rightarrow> bool) \<Rightarrow> string \<Rightarrow> DesktopSessionState list \<Rightarrow> DesktopSessionState \<Rightarrow> string \<Rightarrow> time \<Rightarrow>
     DesktopSessionEvent \<Rightarrow> desktop_db \<Rightarrow> (DesktopSession \<times> desktop_db) result" where
  "TransitionDesktopSession jsonObject sessionID allowedFrom next reason at event db =
     (if blank sessionID \<or> allowedFrom = [] \<or> isZero at
      then Inl (ErrMsg ''invalid desktop session transition'')
      else
        bindR (validateDesktopEvent jsonObject event sessionID) (\<lambda>_.
        if \<not> knownDesktopSessionState next then Inl (ErrMsg ''unknown desktop session state'')
        else if isTerminalDesktopState next \<and> blank reason
        then Inl (ErrMsg ''terminal desktop transition requires a reason'')
        else
          bindR (getDesktopSessionForUpdate sessionID db) (\<lambda>s.
          if s_State s \<notin> set allowedFrom \<or> \<not> CanTransitionDesktopSession (s_State s) next
          then Inl (ErrConflict ''illegal desktop transition'')
          else
            bindR (updateSessions (\<lambda>r. s_ID r = sessionID) (transitioned s next reason at) db) (\<lambda>db1.
            bindR (if isTerminalDesktopState next
                   then revokeOpenCredentials (\<lambda>sid. sid = sessionID) at db1 else Inr db1) (\<lambda>db2.
            bindR (appendDesktopSessionEvent event db2) (\<lambda>db3.
            bindR (GetDesktopSession sessionID db3) (\<lambda>out. Inr (out, db3))))))))"

definition BeginDesktopReconnect ::
    "(string \<Rightarrow> bool) \<Rightarrow> string \<Rightarrow> 32 word \<Rightarrow> time \<Rightarrow> DesktopJoinCredential \<Rightarrow> DesktopJoinCredential \<Rightarrow>
     DesktopSessionEvent \<Rightarrow> desktop_db \<Rightarrow> (DesktopSession \<times> desktop_db) result" where
  "BeginDesktopReconnect jsonObject sessionID expectedEpoch reconnectExpiresAt browser0 agent0 event db =
     (if blank sessionID \<or> expectedEpoch = 0 \<or> isZero reconnectExpiresAt
      then Inl (ErrMsg ''invalid desktop reconnect'')
      else
        bindR (validateDesktopEvent jsonObject event sessionID) (\<lambda>_.
        bindR (getDesktopSessionForUpdate sessionID db) (\<lambda>s.
        if (s_State s \<noteq> Active \<and> s_State s \<noteq> Reconnecting) \<or> s_KeyEpoch s \<noteq> expectedEpoch
           \<or> \<not> reconnectExpiresAt > c_CreatedAt browser0 \<or> reconnectExpiresAt > s_HardExpiresAt s
        then Inl (ErrConflict ''desktop session cannot reconnect'')
        else
          let nextEpoch = expectedEpoch + 1;
              browser = browser0\<lparr>c_SessionID := sessionID\<rparr>;
              agent = agent0\<lparr>c_SessionID := sessionID\<rparr> in
          if c_KeyEpoch browser \<noteq> nextEpoch \<or> c_KeyEpoch agent \<noteq> nextEpoch
             \<or> c_ExpiresAt browser \<noteq> reconnectExpiresAt \<or> c_ExpiresAt agent \<noteq> reconnectExpiresAt
          then Inl (ErrMsg ''reconnect credentials do not match the next epoch'')
          else
            let prospective = s\<lparr>s_KeyEpoch := nextEpoch, s_RequestedAt := c_CreatedAt browser,
                                s_JoinExpiresAt := reconnectExpiresAt\<rparr> in
            bindR (validateDesktopCredentialPair prospective browser agent) (\<lambda>_.
            bindR (updateSessions (\<lambda>r. s_ID r = sessionID)
                     (\<lambda>r. r\<lparr>s_State := Reconnecting, s_KeyEpoch := nextEpoch,
                            s_ReconnectExpiresAt := Some reconnectExpiresAt\<rparr>) db) (\<lambda>db1.
            bindR (revokeOpenCredentials (\<lambda>sid. sid = sessionID) (c_CreatedAt browser) db1) (\<lambda>db2.
            bindR (insertDesktopJoinCredential browser db2) (\<lambda>db3.
            bindR (insertDesktopJoinCredential agent db3) (\<lambda>db4.
            bindR (appendDesktopSessionEvent event db4) (\<lambda>db5.
            bindR (GetDesktopSession sessionID db5) (\<lambda>out. Inr (out, db5)))))))))))"

definition MarkDesktopTransportLost ::
    "(string \<Rightarrow> bool) \<Rightarrow> string \<Rightarrow> 32 word \<Rightarrow> time \<Rightarrow> DesktopSessionEvent \<Rightarrow> desktop_db \<Rightarrow>
     (DesktopSession \<times> desktop_db) result" where
  "MarkDesktopTransportLost jsonObject sessionID expectedEpoch reconnectExpiresAt event db =
     (if blank sessionID \<or> expectedEpoch = 0 \<or> isZero reconnectExpiresAt
         \<or> validateDesktopEvent jsonObject event sessionID \<noteq> Inr ()
      then Inl (ErrMsg ''invalid desktop transport-loss transition'')
      else
        bindR (getDesktopSessionForUpdate sessionID db) (\<lambda>s.
        if s_State s \<noteq> Active \<or> s_KeyEpoch s \<noteq> expectedEpoch
           \<or> \<not> reconnectExpiresAt > e_OccurredAt event \<or> reconnectExpiresAt > s_HardExpiresAt s
        then Inl (ErrConflict ''desktop transport loss is stale'')
        else
          bindR (updateSessions (\<lambda>r. s_ID r = sessionID)
                   (\<lambda>r. r\<lparr>s_State := Reconnecting, s_ReconnectExpiresAt := Some reconnectExpiresAt\<rparr>)
                   db) (\<lambda>db1.
          bindR (appendDesktopSessionEvent event db1) (\<lambda>db2.
          bindR (GetDesktopSession sessionID db2) (\<lambda>out. Inr (out, db2))))))"

section \<open>Join credentials\<close>

definition quote :: string where "quote = [CHR 0x22]"

definition sideName :: "Side \<Rightarrow> string" where
  "sideName side = (case side of Browser \<Rightarrow> ''browser'' | Agent \<Rightarrow> ''agent'' | OtherSide s \<Rightarrow> s)"

text \<open>\<open>json.Marshal(map[string]any{"side": side, "key_epoch": epoch})\<close>, keys sorted.\<close>

definition consumedMetadata :: "Side \<Rightarrow> 32 word \<Rightarrow> string" where
  "consumedMetadata side epoch =
     ''{'' @ quote @ ''key_epoch'' @ quote @ '':'' @ show_nat (unat epoch) @ '',''
     @ quote @ ''side'' @ quote @ '':'' @ quote @ sideName side @ quote @ ''}''"

definition consumable :: "bytes \<Rightarrow> Side \<Rightarrow> string \<Rightarrow> 32 word \<Rightarrow> time \<Rightarrow> DesktopJoinCredential \<Rightarrow> bool" where
  "consumable hash side sessionID epoch now c \<longleftrightarrow>
     c_CredentialHash c = hash \<and> c_Side c = side \<and> c_SessionID c = sessionID
     \<and> c_KeyEpoch c = epoch \<and> c_ConsumedAt c = None \<and> c_RevokedAt c = None \<and> c_ExpiresAt c > now"

definition ConsumeDesktopJoinCredential ::
    "bytes \<Rightarrow> Side \<Rightarrow> string \<Rightarrow> 32 word \<Rightarrow> time \<Rightarrow> desktop_db \<Rightarrow>
     (DesktopJoinCredential \<times> desktop_db) result" where
  "ConsumeDesktopJoinCredential hash side sessionID epoch now db =
     (if hash = [] \<or> (side \<noteq> Browser \<and> side \<noteq> Agent) \<or> blank sessionID \<or> epoch = 0 \<or> isZero now
      then Inl ErrNotFound
      else
        bindR (getDesktopSessionForUpdate sessionID db) (\<lambda>_.
        case filter (consumable hash side sessionID epoch now) (credentials db) of
          [] \<Rightarrow> Inl ErrNotFound
        | c # _ \<Rightarrow>
            bindR (updateCredentials (consumable hash side sessionID epoch now)
                     (\<lambda>c. c\<lparr>c_ConsumedAt := Some now\<rparr>) db) (\<lambda>db1.
            bindR (appendDesktopSessionEvent
                     \<lparr>e_SessionID = sessionID, e_Sequence = 0, e_EventType = ''credential.consumed'',
                      e_ActorType = sideName side, e_ActorID = [], e_OccurredAt = now,
                      e_Severity = ''info'', e_ReasonCode = [],
                      e_MetadataJSON = consumedMetadata side epoch\<rparr> db1) (\<lambda>db2.
            Inr (c\<lparr>c_ConsumedAt := Some now\<rparr>, db2)))))"

section \<open>Counters and events\<close>

definition errRange :: error where "errRange = ErrMsg ''bigint out of range''"

definition AddDesktopRelayBytes :: "string \<Rightarrow> int \<Rightarrow> int \<Rightarrow> desktop_db \<Rightarrow> desktop_db result" where
  "AddDesktopRelayBytes sessionID browserToAgent agentToBrowser db =
     (if blank sessionID \<or> browserToAgent < 0 \<or> agentToBrowser < 0
      then Inl (ErrMsg ''invalid desktop relay byte counters'')
      else if list_ex (\<lambda>s. s_ID s = sessionID
                \<and> (s_BrowserToAgentBytes s + browserToAgent \<ge> 2 ^ 63
                   \<or> s_AgentToBrowserBytes s + agentToBrowser \<ge> 2 ^ 63)) (sessions db)
      then Inl errRange
      else
        bindR (updateSessions (\<lambda>r. s_ID r = sessionID)
                 (\<lambda>r. r\<lparr>s_BrowserToAgentBytes := s_BrowserToAgentBytes r + browserToAgent,
                        s_AgentToBrowserBytes := s_AgentToBrowserBytes r + agentToBrowser\<rparr>) db) (\<lambda>db1.
        if filter (\<lambda>s. s_ID s = sessionID) (sessions db) = [] then Inl ErrNotFound else Inr db1))"

definition AppendDesktopSessionEvent ::
    "(string \<Rightarrow> bool) \<Rightarrow> DesktopSessionEvent \<Rightarrow> desktop_db \<Rightarrow> desktop_db result" where
  "AppendDesktopSessionEvent jsonObject event db =
     bindR (validateDesktopEvent jsonObject event (e_SessionID event)) (\<lambda>_.
     bindR (getDesktopSessionForUpdate (e_SessionID event) db) (\<lambda>_.
     appendDesktopSessionEvent event db))"

definition clampLimit :: "int \<Rightarrow> int \<Rightarrow> int \<Rightarrow> nat" where
  "clampLimit dflt cap limit = nat (min cap (if limit \<le> 0 then dflt else limit))"

definition ListDesktopSessionEvents :: "string \<Rightarrow> int \<Rightarrow> int \<Rightarrow> desktop_db \<Rightarrow> DesktopSessionEvent list" where
  "ListDesktopSessionEvents sessionID afterSequence limit db =
     take (clampLimit 100 500 limit)
       (sort_key e_Sequence
          (filter (\<lambda>e. e_SessionID e = sessionID \<and> e_Sequence e > afterSequence) (events db)))"

definition DesktopSessionStateCounts :: "desktop_db \<Rightarrow> (DesktopSessionState, nat) gomap" where
  "DesktopSessionStateCounts db =
     map (\<lambda>st. (st, length (filter (\<lambda>s. s_State s = st) (sessions db))))
       (remdups (map s_State (sessions db)))"

definition ListLiveDesktopSessionIDs :: "string \<Rightarrow> string \<Rightarrow> string \<Rightarrow> desktop_db \<Rightarrow> string list result" where
  "ListLiveDesktopSessionIDs homeID operatorIdentityID agentID db =
     (if blank homeID then Inl (ErrMsg ''desktop home is required'')
      else Inr (map s_ID (sort_key s_RequestedAt
             (filter (\<lambda>s. s_HomeID s = homeID \<and> live s
                  \<and> (operatorIdentityID = [] \<or> s_OperatorDeviceIdentityID s = operatorIdentityID)
                  \<and> (agentID = [] \<or> s_AgentID s = agentID)) (sessions db)))))"

section \<open>Expiry and pruning\<close>

definition reconnectExpired :: "time \<Rightarrow> DesktopSession \<Rightarrow> bool" where
  "reconnectExpired now s \<longleftrightarrow>
     s_State s = Reconnecting \<and> (case s_ReconnectExpiresAt s of None \<Rightarrow> False | Some r \<Rightarrow> r \<le> now)"

definition expirable :: "time \<Rightarrow> DesktopSession \<Rightarrow> bool" where
  "expirable now s \<longleftrightarrow>
     live s
     \<and> (s_HardExpiresAt s \<le> now
        \<or> (s_State s \<in> {Requested, Offered, AgentReady, Joining} \<and> s_JoinExpiresAt s \<le> now)
        \<or> reconnectExpired now s)"

definition expiryReason :: "time \<Rightarrow> DesktopSession \<Rightarrow> string" where
  "expiryReason now s =
     (if s_HardExpiresAt s \<le> now then ''hard_expired''
      else if reconnectExpired now s then ''reconnect_expired''
      else ''join_expired'')"

text \<open>The row an expiry writes, and the body of the loop over the expired sessions.\<close>

definition expiredRow :: "time \<Rightarrow> string \<Rightarrow> DesktopSession \<Rightarrow> DesktopSession" where
  "expiredRow now reason r = r\<lparr>s_State := Expired, s_TerminatedAt := Some now, s_TerminationReason := reason\<rparr>"

definition expireOne :: "time \<Rightarrow> string \<Rightarrow> string \<Rightarrow> desktop_db \<Rightarrow> desktop_db result" where
  "expireOne now sid reason db =
     bindR (updateSessions (\<lambda>r. s_ID r = sid) (expiredRow now reason) db) (\<lambda>db1.
     bindR (revokeOpenCredentials (\<lambda>s. s = sid) now db1) (\<lambda>db2.
     appendDesktopSessionEvent
       \<lparr>e_SessionID = sid, e_Sequence = 0, e_EventType = ''session.expired'',
        e_ActorType = ''server'', e_ActorID = [], e_OccurredAt = now,
        e_Severity = ''warning'', e_ReasonCode = reason, e_MetadataJSON = ''{}''\<rparr> db2))"

fun expireLoop :: "time \<Rightarrow> (string \<times> string) list \<Rightarrow> desktop_db \<Rightarrow> desktop_db result" where
  "expireLoop now [] db = Inr db"
| "expireLoop now ((sid, reason) # rest) db = bindR (expireOne now sid reason db) (expireLoop now rest)"

definition ExpireDesktopSessions :: "time \<Rightarrow> desktop_db \<Rightarrow> (nat \<times> desktop_db) result" where
  "ExpireDesktopSessions now db =
     (let expirations = map (\<lambda>s. (s_ID s, expiryReason now s)) (filter (expirable now) (sessions db)) in
      bindR (expireLoop now expirations db) (\<lambda>db'. Inr (length expirations, db')))"

text \<open>Deleting a session row cascades to its credentials and events.\<close>

definition prunable :: "time \<Rightarrow> DesktopSession \<Rightarrow> bool" where
  "prunable sessionBefore s \<longleftrightarrow>
     isTerminalDesktopState (s_State s)
     \<and> (case s_TerminatedAt s of None \<Rightarrow> False | Some t \<Rightarrow> t < sessionBefore)"

definition PruneDesktopState ::
    "time \<Rightarrow> time \<Rightarrow> time \<Rightarrow> desktop_db \<Rightarrow> (nat \<times> nat \<times> nat) \<times> desktop_db" where
  "PruneDesktopState credentialBefore eventBefore sessionBefore db =
     (let creds = filter (\<lambda>c. \<not> c_ExpiresAt c < credentialBefore) (credentials db);
          evs = filter (\<lambda>e. \<not> e_OccurredAt e < eventBefore) (events db);
          gone = map s_ID (filter (prunable sessionBefore) (sessions db));
          sess = filter (\<lambda>s. \<not> prunable sessionBefore s) (sessions db)
      in ((length (credentials db) - length creds, length (events db) - length evs,
           length (sessions db) - length sess),
          db\<lparr>sessions := sess,
             credentials := filter (\<lambda>c. c_SessionID c \<notin> set gone) creds,
             events := filter (\<lambda>e. e_SessionID e \<notin> set gone) evs\<rparr>))"


section \<open>The invariant\<close>

text \<open>
  \<open>store_inv X db\<close> is the invariant of the desktop tables, except that open credentials of the
  sessions in \<open>X\<close> may be stale: a transaction updates the session row first and revokes its
  credentials in the next statement. The committed databases satisfy \<open>store_inv {}\<close>.
\<close>

definition sessions_ok :: "DesktopSession list \<Rightarrow> bool" where
  "sessions_ok rows \<longleftrightarrow>
     distinct (map s_ID rows) \<and> (\<forall>s \<in> set rows. session_checks s)
     \<and> (\<forall>s \<in> set rows. \<forall>r \<in> set rows.
          live s \<longrightarrow> live r \<longrightarrow> s_AgentID s = s_AgentID r \<longrightarrow> s_ID s = s_ID r)"

definition has_current :: "DesktopSession list \<Rightarrow> DesktopJoinCredential \<Rightarrow> bool" where
  "has_current rows c \<longleftrightarrow>
     (\<exists>s \<in> set rows. s_ID s = c_SessionID c \<and> live s \<and> s_KeyEpoch s = c_KeyEpoch c)"

definition creds_current :: "string set \<Rightarrow> DesktopSession list \<Rightarrow> DesktopJoinCredential list \<Rightarrow> bool" where
  "creds_current X rows creds \<longleftrightarrow>
     (\<forall>c \<in> set creds. open_cred c \<longrightarrow> c_SessionID c \<notin> X \<longrightarrow> has_current rows c)"

definition events_ok :: "DesktopSessionEvent list \<Rightarrow> bool" where
  "events_ok evs \<longleftrightarrow>
     distinct (map (\<lambda>e. (e_SessionID e, e_Sequence e)) evs) \<and> (\<forall>e \<in> set evs. 0 < e_Sequence e)"

definition store_inv :: "string set \<Rightarrow> desktop_db \<Rightarrow> bool" where
  "store_inv X db \<longleftrightarrow>
     sessions_ok (sessions db) \<and> creds_current X (sessions db) (credentials db)
     \<and> distinct (map c_CredentialHash (credentials db)) \<and> events_ok (events db)"

abbreviation db_inv :: "desktop_db \<Rightarrow> bool" where "db_inv \<equiv> store_inv {}"

named_theorems store_keeps \<open>what a statement keeps of the invariant\<close>

lemma sessions_okD:
  assumes "sessions_ok rows"
  shows "distinct (map s_ID rows)" "s \<in> set rows \<Longrightarrow> session_checks s"
    "s \<in> set rows \<Longrightarrow> r \<in> set rows \<Longrightarrow> live s \<Longrightarrow> live r \<Longrightarrow> s_AgentID s = s_AgentID r \<Longrightarrow> s_ID s = s_ID r"
  using assms unfolding sessions_ok_def by blast+

lemma map_key_cong: "(\<And>r. r \<in> set rows \<Longrightarrow> k (g r) = k r) \<Longrightarrow> map k (map g rows) = map k rows"
  by simp

lemma updateSessions_Inr_iff:
  "updateSessions P f db = Inr db' \<longleftrightarrow>
     (\<forall>r \<in> set (sessions db). P r \<longrightarrow> session_checks (f r))
     \<and> db' = db\<lparr>sessions := map (\<lambda>r. if P r then f r else r) (sessions db)\<rparr>"
  by (auto simp: updateSessions_def bindR_Inr_iff updateWhere_Inr_iff)

lemma updateCredentials_Inr_iff:
  "updateCredentials P f db = Inr db' \<longleftrightarrow>
     (\<forall>r \<in> set (credentials db). P r \<longrightarrow> credential_checks (f r))
     \<and> db' = db\<lparr>credentials := map (\<lambda>r. if P r then f r else r) (credentials db)\<rparr>"
  by (auto simp: updateCredentials_def bindR_Inr_iff updateWhere_Inr_iff)

lemma sessions_ok_map:
  assumes ok: "sessions_ok rows" and checks: "\<And>r. r \<in> set rows \<Longrightarrow> session_checks (g r)"
    and keep: "\<And>r. r \<in> set rows \<Longrightarrow> s_ID (g r) = s_ID r \<and> s_AgentID (g r) = s_AgentID r \<and> (live (g r) \<longrightarrow> live r)"
  shows "sessions_ok (map g rows)"
proof -
  have ids: "map s_ID (map g rows) = map s_ID rows" by (rule map_key_cong) (use keep in blast)
  have uniq: "s_ID (g s) = s_ID (g r)"
    if "s \<in> set rows" "r \<in> set rows" "live (g s)" "live (g r)" "s_AgentID (g s) = s_AgentID (g r)" for s r
  proof -
    have "live s" "live r" "s_AgentID s = s_AgentID r" using that keep by metis+
    then have "s_ID s = s_ID r" using ok that(1,2) unfolding sessions_ok_def by blast
    then show ?thesis using that(1,2) keep by metis
  qed
  show ?thesis
    unfolding sessions_ok_def ids
  proof (intro conjI ballI impI)
    show "distinct (map s_ID rows)" using ok unfolding sessions_ok_def by blast
  qed (use checks uniq in auto)
qed

lemma has_current_map:
  assumes "has_current rows c"
    and "\<And>r. r \<in> set rows \<Longrightarrow> s_ID r = c_SessionID c \<Longrightarrow> live r \<Longrightarrow>
      s_ID (g r) = s_ID r \<and> live (g r) \<and> s_KeyEpoch (g r) = s_KeyEpoch r"
  shows "has_current (map g rows) c"
proof -
  obtain s where s: "s \<in> set rows" "s_ID s = c_SessionID c" "live s" "s_KeyEpoch s = c_KeyEpoch c"
    using assms(1) unfolding has_current_def by blast
  with assms(2) [of s] show ?thesis unfolding has_current_def by (intro bexI [of _ "g s"]) simp_all
qed

lemma updateSessions_inv:
  assumes inv: "store_inv X db" and upd: "updateSessions P f db = Inr db'" and "X \<subseteq> Y"
    and keep: "\<And>r. r \<in> set (sessions db) \<Longrightarrow> P r \<Longrightarrow>
      s_ID (f r) = s_ID r \<and> s_AgentID (f r) = s_AgentID r \<and> (live (f r) \<longrightarrow> live r)"
    and same: "\<And>r. r \<in> set (sessions db) \<Longrightarrow> P r \<Longrightarrow> s_ID r \<notin> Y \<Longrightarrow> live r \<Longrightarrow>
      live (f r) \<and> s_KeyEpoch (f r) = s_KeyEpoch r"
  shows "store_inv Y db'"
proof -
  let ?g = "\<lambda>r. if P r then f r else r"
  have ok: "\<And>r. r \<in> set (sessions db) \<Longrightarrow> P r \<Longrightarrow> session_checks (f r)"
    and db': "db' = db\<lparr>sessions := map ?g (sessions db)\<rparr>"
    using upd by (auto simp: updateSessions_Inr_iff)
  have old: "sessions_ok (sessions db)" and cur: "creds_current X (sessions db) (credentials db)"
    using inv unfolding store_inv_def by blast+
  have "sessions_ok (map ?g (sessions db))"
  proof (rule sessions_ok_map [OF old])
    show "session_checks (?g r)" if "r \<in> set (sessions db)" for r
      using that ok old unfolding sessions_ok_def by simp
  qed (use keep in simp)
  moreover have "creds_current Y (map ?g (sessions db)) (credentials db)"
    unfolding creds_current_def
  proof (intro ballI impI)
    fix c
    assume c: "c \<in> set (credentials db)" "open_cred c" "c_SessionID c \<notin> Y"
    then have "has_current (sessions db) c"
      using cur \<open>X \<subseteq> Y\<close> unfolding creds_current_def by blast
    then show "has_current (map ?g (sessions db)) c"
      by (rule has_current_map) (use keep same c(3) in auto)
  qed
  ultimately show ?thesis using inv unfolding store_inv_def db' by simp
qed

lemma updateCredentials_inv:
  assumes inv: "store_inv X db" and upd: "updateCredentials P f db = Inr db'"
    and keep: "\<And>c. P c \<Longrightarrow> c_CredentialHash (f c) = c_CredentialHash c"
    and closed: "\<And>c. P c \<Longrightarrow> \<not> open_cred (f c)"
    and covered: "\<And>c. open_cred c \<Longrightarrow> c_SessionID c \<in> X \<Longrightarrow> c_SessionID c \<notin> Y \<Longrightarrow> P c"
  shows "store_inv Y db'"
proof -
  let ?g = "\<lambda>c. if P c then f c else c"
  have db': "db' = db\<lparr>credentials := map ?g (credentials db)\<rparr>"
    using upd by (auto simp: updateCredentials_Inr_iff)
  have hashes: "map c_CredentialHash (map ?g (credentials db)) = map c_CredentialHash (credentials db)"
    using keep by (intro map_key_cong) auto
  have "creds_current Y (sessions db) (map ?g (credentials db))"
    unfolding creds_current_def
  proof (intro ballI impI)
    fix c'
    assume c': "c' \<in> set (map ?g (credentials db))" "open_cred c'" "c_SessionID c' \<notin> Y"
    then have "c' \<in> set (credentials db)" "\<not> P c'" using closed by (auto split: if_splits)
    then show "has_current (sessions db) c'"
      using c'(2,3) covered inv unfolding store_inv_def creds_current_def by blast
  qed
  then show ?thesis using inv hashes unfolding store_inv_def db' by (simp del: map_map)
qed

lemma revokeOpen_inv [store_keeps]:
  assumes "store_inv X db" "revokeOpenCredentials inScope at db = Inr db'" "\<And>s. s \<in> X \<Longrightarrow> inScope s"
  shows "db_inv db'"
  using assms(1) assms(2) [unfolded revokeOpenCredentials_def]
  by (rule updateCredentials_inv) (use assms(3) in \<open>auto simp: open_cred_def\<close>)

lemma insertCredential_inv:
  assumes inv: "db_inv db" and ins: "insertDesktopJoinCredential c db = Inr db'"
    and cur: "has_current (sessions db) c"
  shows "db_inv db' \<and> sessions db' = sessions db"
proof -
  have db': "db' = db\<lparr>credentials := credentials db @ [c]\<rparr>"
    and new: "\<forall>r \<in> set (credentials db). c_CredentialHash r \<noteq> c_CredentialHash c"
    using ins by (auto simp: insertDesktopJoinCredential_def list_ex_iff split: if_splits)
  have "creds_current {} (sessions db) (credentials db @ [c])"
    using inv cur unfolding store_inv_def creds_current_def by auto
  moreover have "distinct (map c_CredentialHash (credentials db @ [c]))"
    using inv new unfolding store_inv_def by auto
  ultimately show ?thesis using inv unfolding store_inv_def db' by simp
qed

lemma insertSession_inv:
  assumes inv: "db_inv db" and ins: "insertSessionRow s db = Inr db'"
  shows "db_inv db' \<and> sessions db' = sessions db @ [s]"
proof -
  have db': "db' = db\<lparr>sessions := sessions db @ [s]\<rparr>" and ok: "session_checks s"
    and new: "\<forall>r \<in> set (sessions db). s_ID r \<noteq> s_ID s \<and> \<not> (live r \<and> live s \<and> s_AgentID r = s_AgentID s)"
    using ins by (auto simp: insertSessionRow_def list_ex_iff split: if_splits)
  have old: "sessions_ok (sessions db)" using inv unfolding store_inv_def by blast
  have "sessions_ok (sessions db @ [s])"
    unfolding sessions_ok_def
  proof (intro conjI ballI impI)
    show "distinct (map s_ID (sessions db @ [s]))"
      using sessions_okD(1) [OF old] new by auto
    show "session_checks r" if "r \<in> set (sessions db @ [s])" for r
      using that sessions_okD(2) [OF old] ok by auto
    show "s_ID r = s_ID q" if "r \<in> set (sessions db @ [s])" "q \<in> set (sessions db @ [s])"
        "live r" "live q" "s_AgentID r = s_AgentID q" for r q
    proof (cases "r = s \<or> q = s")
      case True
      then show ?thesis using that new by auto
    next
      case False
      then have "r \<in> set (sessions db)" "q \<in> set (sessions db)" using that(1,2) by auto
      then show ?thesis using that(3-5) old unfolding sessions_ok_def by blast
    qed
  qed
  moreover have "creds_current {} (sessions db @ [s]) (credentials db)"
    using inv unfolding store_inv_def creds_current_def has_current_def by auto
  ultimately show ?thesis using inv unfolding store_inv_def db' by simp
qed

lemma appendEvent_inv [store_keeps]:
  assumes inv: "store_inv X db" and app: "appendDesktopSessionEvent e db = Inr db'"
  shows "store_inv X db'"
proof -
  let ?n = "nextSequence db (e_SessionID e)"
  have ev: "db' = db\<lparr>events := events db @ [e\<lparr>e_Sequence := ?n\<rparr>]\<rparr>"
    using app by (auto simp: appendDesktopSessionEvent_def Let_def split: if_splits)
  have "(e_SessionID e, ?n) \<notin> (\<lambda>e. (e_SessionID e, e_Sequence e)) ` set (events db)"
    using nextSequence_fresh [of _ db "e_SessionID e"] by fastforce
  then have "events_ok (events db @ [e\<lparr>e_Sequence := ?n\<rparr>])"
    using inv nextSequence_pos [of db "e_SessionID e"] unfolding store_inv_def events_ok_def by auto
  then show ?thesis using inv unfolding store_inv_def ev by simp
qed


lemma row_unique:
  "store_inv X db \<Longrightarrow> findSession db sid = Some s \<Longrightarrow> r \<in> set (sessions db) \<Longrightarrow> s_ID r = sid \<Longrightarrow> r = s"
  unfolding store_inv_def
  using findSession_unique sessions_okD(1) by fastforce

lemma GetDesktopSession_Inr_iff [simp]: "GetDesktopSession sid db = Inr s \<longleftrightarrow> findSession db sid = Some s"
  by (auto simp: GetDesktopSession_def split: option.splits)

lemma getForUpdate_Inr_iff [simp]: "getDesktopSessionForUpdate sid db = Inr s \<longleftrightarrow> findSession db sid = Some s"
  by (simp add: getDesktopSessionForUpdate_def)

lemma updateCredentials_sessions:
  "updateCredentials P f db = Inr db' \<Longrightarrow> sessions db' = sessions db \<and> events db' = events db"
  by (auto simp: updateCredentials_Inr_iff)

lemma revokeOpen_sessions:
  "revokeOpenCredentials inScope at db = Inr db' \<Longrightarrow> sessions db' = sessions db \<and> events db' = events db"
  unfolding revokeOpenCredentials_def by (rule updateCredentials_sessions)

lemma revokeOpen_closed:
  "revokeOpenCredentials inScope at db = Inr db' \<Longrightarrow> c \<in> set (credentials db') \<Longrightarrow> inScope (c_SessionID c) \<Longrightarrow>
     \<not> open_cred c"
  by (auto simp: revokeOpenCredentials_def updateCredentials_Inr_iff open_cred_def split: if_splits)

lemma insertCredential_sessions:
  "insertDesktopJoinCredential c db = Inr db' \<Longrightarrow> sessions db' = sessions db"
  by (auto simp: insertDesktopJoinCredential_def split: if_splits)

section \<open>Every operation keeps the invariant\<close>

lemma validatePair_ok:
  "validateDesktopCredentialPair s b a = Inr () \<Longrightarrow>
     c_SessionID b = s_ID s \<and> c_SessionID a = s_ID s \<and> c_KeyEpoch b = s_KeyEpoch s \<and> c_KeyEpoch a = s_KeyEpoch s
     \<and> open_cred b \<and> open_cred a"
  by (auto simp: validateDesktopCredentialPair_def validateDesktopJoinCredential_def open_cred_def
      result_simps split: if_splits)

lemma CreateDesktopSession_inv [store_keeps]:
  assumes inv: "db_inv db" and run: "CreateDesktopSession json s b a e db = Inr db'"
  shows "db_inv db'"
proof -
  obtain db1 db2 db3 where st: "s_State s = Requested" "validateDesktopCredentialPair s b a = Inr ()"
    and 1: "insertSessionRow s db = Inr db1" and 2: "insertDesktopJoinCredential b db1 = Inr db2"
    and 3: "insertDesktopJoinCredential a db2 = Inr db3" and 4: "appendDesktopSessionEvent e db3 = Inr db'"
    using run unfolding CreateDesktopSession_def by (auto simp: result_simps)
  have cur: "has_current (sessions db @ [s]) b" "has_current (sessions db @ [s]) a"
    using validatePair_ok [OF st(2)] st(1) by (auto simp: has_current_def live_def liveStates_def)
  note i1 = insertSession_inv [OF inv 1]
  have i2: "db_inv db2 \<and> sessions db2 = sessions db1"
    by (rule insertCredential_inv [OF i1 [THEN conjunct1] 2]) (use i1 cur in simp)
  have "db_inv db3"
    by (rule insertCredential_inv [OF i2 [THEN conjunct1] 3, THEN conjunct1]) (use i1 i2 cur in simp)
  then show ?thesis using 4 by (rule appendEvent_inv)
qed

lemma transition_steps:
  assumes run: "TransitionDesktopSession json sid froms next reason at e db = Inr (out, db')"
  obtains s db1 db2 where "findSession db sid = Some s" "s_State s \<in> set froms"
    "CanTransitionDesktopSession (s_State s) next" "knownDesktopSessionState next"
    "updateSessions (\<lambda>r. s_ID r = sid) (transitioned s next reason at) db = Inr db1"
    "(if isTerminalDesktopState next then revokeOpenCredentials (\<lambda>x. x = sid) at db1 else Inr db1) = Inr db2"
    "appendDesktopSessionEvent e db2 = Inr db'" "findSession db' sid = Some out"
  using run unfolding TransitionDesktopSession_def by (auto simp: result_simps)

lemma transitioned_fields [simp]:
  "s_ID (transitioned s next reason at r) = s_ID r" "s_AgentID (transitioned s next reason at r) = s_AgentID r"
  "s_State (transitioned s next reason at r) = next" "s_KeyEpoch (transitioned s next reason at r) = s_KeyEpoch r"
  by (simp_all add: transitioned_def)

lemma TransitionDesktopSession_inv [store_keeps]:
  assumes inv: "db_inv db" and run: "TransitionDesktopSession json sid froms next reason at e db = Inr (out, db')"
  shows "db_inv db'"
proof (rule transition_steps [OF run])
  fix s db1 db2
  assume s: "findSession db sid = Some s" "CanTransitionDesktopSession (s_State s) next"
      "knownDesktopSessionState next"
    and upd: "updateSessions (\<lambda>r. s_ID r = sid) (transitioned s next reason at) db = Inr db1"
    and rev: "(if isTerminalDesktopState next then revokeOpenCredentials (\<lambda>x. x = sid) at db1 else Inr db1) = Inr db2"
    and app: "appendDesktopSessionEvent e db2 = Inr db'"
  have lv: "live s" using can_transition_live [OF s(2)] by (simp add: live_def)
  have "store_inv (if isTerminalDesktopState next then {sid} else {}) db1"
    using inv upd
  proof (rule updateSessions_inv)
    fix r
    assume r: "r \<in> set (sessions db)" "s_ID r = sid"
    then have "r = s" by (rule row_unique [OF inv s(1)])
    then show "s_ID (transitioned s next reason at r) = s_ID r \<and> s_AgentID (transitioned s next reason at r) = s_AgentID r
        \<and> (live (transitioned s next reason at r) \<longrightarrow> live r)" using lv by simp
    assume "s_ID r \<notin> (if isTerminalDesktopState next then {sid} else {})" "live r"
    with r(2) s(3) show "live (transitioned s next reason at r) \<and>
        s_KeyEpoch (transitioned s next reason at r) = s_KeyEpoch r"
      by (simp add: live_def live_iff split: if_splits)
  qed simp
  with rev have "db_inv db2"
    by (cases "isTerminalDesktopState next") (auto intro: revokeOpen_inv)
  then show ?thesis using app by (rule appendEvent_inv)
qed

lemma reconnect_steps:
  assumes run: "BeginDesktopReconnect json sid epoch until b a e db = Inr (out, db')"
  obtains s db1 db2 db3 db4 where "findSession db sid = Some s" "s_State s = Active \<or> s_State s = Reconnecting"
    "s_KeyEpoch s = epoch" "until \<le> s_HardExpiresAt s" "c_KeyEpoch b = epoch + 1" "c_KeyEpoch a = epoch + 1"
    "updateSessions (\<lambda>r. s_ID r = sid)
       (\<lambda>r. r\<lparr>s_State := Reconnecting, s_KeyEpoch := epoch + 1, s_ReconnectExpiresAt := Some until\<rparr>) db = Inr db1"
    "revokeOpenCredentials (\<lambda>x. x = sid) (c_CreatedAt b) db1 = Inr db2"
    "insertDesktopJoinCredential (b\<lparr>c_SessionID := sid\<rparr>) db2 = Inr db3"
    "insertDesktopJoinCredential (a\<lparr>c_SessionID := sid\<rparr>) db3 = Inr db4"
    "appendDesktopSessionEvent e db4 = Inr db'" "findSession db' sid = Some out"
  using run unfolding BeginDesktopReconnect_def by (auto simp: result_simps)

lemma findSession_update:
  assumes "findSession db sid = Some s" "updateSessions (\<lambda>r. s_ID r = sid) f db = Inr db1" "s_ID (f s) = sid"
  shows "f s \<in> set (sessions db1)"
  using assms by (auto simp: updateSessions_Inr_iff dest: findSession_Some)

lemma BeginDesktopReconnect_inv [store_keeps]:
  assumes inv: "db_inv db" and run: "BeginDesktopReconnect json sid epoch until b a e db = Inr (out, db')"
  shows "db_inv db'"
proof (rule reconnect_steps [OF run])
  fix s db1 db2 db3 db4
  let ?f = "\<lambda>r. r\<lparr>s_State := Reconnecting, s_KeyEpoch := epoch + 1, s_ReconnectExpiresAt := Some until\<rparr>"
  assume s: "findSession db sid = Some s" "s_State s = Active \<or> s_State s = Reconnecting"
    and ep: "c_KeyEpoch b = epoch + 1" "c_KeyEpoch a = epoch + 1"
    and upd: "updateSessions (\<lambda>r. s_ID r = sid) ?f db = Inr db1"
    and rev: "revokeOpenCredentials (\<lambda>x. x = sid) (c_CreatedAt b) db1 = Inr db2"
    and b: "insertDesktopJoinCredential (b\<lparr>c_SessionID := sid\<rparr>) db2 = Inr db3"
    and a: "insertDesktopJoinCredential (a\<lparr>c_SessionID := sid\<rparr>) db3 = Inr db4"
    and app: "appendDesktopSessionEvent e db4 = Inr db'"
  have lv: "live s" using s(2) by (auto simp: live_def liveStates_def)
  have "store_inv {sid} db1"
    using inv upd
  proof (rule updateSessions_inv)
    fix r
    assume "r \<in> set (sessions db)" "s_ID r = sid"
    then have "r = s" by (rule row_unique [OF inv s(1)])
    then show "s_ID (?f r) = s_ID r \<and> s_AgentID (?f r) = s_AgentID r \<and> (live (?f r) \<longrightarrow> live r)"
      using lv by simp
  qed simp_all
  then have i2: "db_inv db2" using rev by (rule revokeOpen_inv) simp
  have "?f s \<in> set (sessions db1)" using s(1) upd findSession_Some [OF s(1)] by (intro findSession_update) simp_all
  then have cur: "has_current (sessions db1) (b\<lparr>c_SessionID := sid\<rparr>)" "has_current (sessions db1) (a\<lparr>c_SessionID := sid\<rparr>)"
    unfolding has_current_def using ep findSession_Some [OF s(1)]
    by (auto simp: live_def liveStates_def intro!: bexI [of _ "?f s"])
  have same: "sessions db2 = sessions db1" using revokeOpen_sessions [OF rev] by simp
  have i3: "db_inv db3 \<and> sessions db3 = sessions db2"
    by (rule insertCredential_inv [OF i2 b]) (use cur same in simp)
  have "db_inv db4"
    by (rule insertCredential_inv [OF i3 [THEN conjunct1] a, THEN conjunct1]) (use cur same i3 in simp)
  then show ?thesis using app by (rule appendEvent_inv)
qed


lemma MarkDesktopTransportLost_inv [store_keeps]:
  assumes inv: "db_inv db" and run: "MarkDesktopTransportLost json sid epoch until e db = Inr (out, db')"
  shows "db_inv db'"
proof -
  let ?f = "\<lambda>r. r\<lparr>s_State := Reconnecting, s_ReconnectExpiresAt := Some until\<rparr>"
  obtain s db1 where s: "findSession db sid = Some s" "s_State s = Active"
    and upd: "updateSessions (\<lambda>r. s_ID r = sid) ?f db = Inr db1"
    and app: "appendDesktopSessionEvent e db1 = Inr db'"
    using run unfolding MarkDesktopTransportLost_def by (auto simp: result_simps)
  have "db_inv db1"
    using inv upd
  proof (rule updateSessions_inv)
    fix r
    assume "r \<in> set (sessions db)" "s_ID r = sid"
    then have "r = s" by (rule row_unique [OF inv s(1)])
    then show "s_ID (?f r) = s_ID r \<and> s_AgentID (?f r) = s_AgentID r \<and> (live (?f r) \<longrightarrow> live r)"
      using s(2) by (simp add: live_def liveStates_def)
  qed (simp_all add: live_def liveStates_def)
  then show ?thesis using app by (rule appendEvent_inv)
qed

lemma consume_steps:
  assumes run: "ConsumeDesktopJoinCredential hash side sid epoch now db = Inr (c, db')"
  obtains c0 db1 e where "c0 \<in> set (credentials db)" "consumable hash side sid epoch now c0"
    "c = c0\<lparr>c_ConsumedAt := Some now\<rparr>"
    "updateCredentials (consumable hash side sid epoch now) (\<lambda>c. c\<lparr>c_ConsumedAt := Some now\<rparr>) db = Inr db1"
    "appendDesktopSessionEvent e db1 = Inr db'"
proof -
  let ?P = "consumable hash side sid epoch now"
  show ?thesis
  proof (cases "filter ?P (credentials db)")
    case Nil
    then show ?thesis using run unfolding ConsumeDesktopJoinCredential_def by (auto simp: result_simps)
  next
    case (Cons c0 cs)
    then have "c0 \<in> set (filter ?P (credentials db))" by simp
    then have c0: "c0 \<in> set (credentials db)" "?P c0" by simp_all
    show ?thesis
      using run Cons that [OF c0] unfolding ConsumeDesktopJoinCredential_def by (auto simp: result_simps)
  qed
qed

lemma ConsumeDesktopJoinCredential_inv [store_keeps]:
  assumes inv: "db_inv db" and run: "ConsumeDesktopJoinCredential hash side sid epoch now db = Inr (c, db')"
  shows "db_inv db'"
proof (rule consume_steps [OF run])
  fix db1 e
  assume upd: "updateCredentials (consumable hash side sid epoch now) (\<lambda>c. c\<lparr>c_ConsumedAt := Some now\<rparr>) db = Inr db1"
    and app: "appendDesktopSessionEvent e db1 = Inr db'"
  have "db_inv db1"
    using inv upd by (rule updateCredentials_inv) (simp_all add: open_cred_def)
  then show ?thesis using app by (rule appendEvent_inv)
qed

lemma AddDesktopRelayBytes_inv [store_keeps]:
  assumes inv: "db_inv db" and run: "AddDesktopRelayBytes sid n m db = Inr db'"
  shows "db_inv db'"
proof -
  let ?f = "\<lambda>r. r\<lparr>s_BrowserToAgentBytes := s_BrowserToAgentBytes r + n, s_AgentToBrowserBytes := s_AgentToBrowserBytes r + m\<rparr>"
  have "updateSessions (\<lambda>r. s_ID r = sid) ?f db = Inr db'"
    using run unfolding AddDesktopRelayBytes_def by (auto simp: result_simps)
  with inv show ?thesis by (rule updateSessions_inv) (simp_all add: live_def)
qed

lemma AppendDesktopSessionEvent_inv [store_keeps]:
  "db_inv db \<Longrightarrow> AppendDesktopSessionEvent json e db = Inr db' \<Longrightarrow> db_inv db'"
  unfolding AppendDesktopSessionEvent_def by (auto simp: result_simps intro: appendEvent_inv)

lemma expireOne_inv:
  assumes inv: "db_inv db" and run: "expireOne now sid reason db = Inr db'"
  shows "db_inv db'"
proof -
  obtain db1 db2 e where upd: "updateSessions (\<lambda>r. s_ID r = sid) (expiredRow now reason) db = Inr db1"
    and rev: "revokeOpenCredentials (\<lambda>x. x = sid) now db1 = Inr db2"
    and app: "appendDesktopSessionEvent e db2 = Inr db'"
    using run unfolding expireOne_def bindR_Inr_iff by blast
  have "store_inv {sid} db1"
    using inv upd by (rule updateSessions_inv) (simp_all add: expiredRow_def live_def liveStates_def)
  then have "db_inv db2" using rev by (rule revokeOpen_inv) simp
  then show ?thesis using app by (rule appendEvent_inv)
qed

lemma expireOne_effect:
  assumes run: "expireOne now sid reason db = Inr db'"
  shows "sessions db' = map (\<lambda>r. if s_ID r = sid then expiredRow now reason r else r) (sessions db)"
    and "c \<in> set (credentials db') \<Longrightarrow> open_cred c \<Longrightarrow> c \<in> set (credentials db) \<and> c_SessionID c \<noteq> sid"
proof -
  obtain db1 db2 e where upd: "updateSessions (\<lambda>r. s_ID r = sid) (expiredRow now reason) db = Inr db1"
    and rev: "revokeOpenCredentials (\<lambda>x. x = sid) now db1 = Inr db2"
    and app: "appendDesktopSessionEvent e db2 = Inr db'"
    using run unfolding expireOne_def bindR_Inr_iff by blast
  show "sessions db' = map (\<lambda>r. if s_ID r = sid then expiredRow now reason r else r) (sessions db)"
    using upd revokeOpen_sessions [OF rev] appendEvent_frame(1) [OF app] by (simp add: updateSessions_Inr_iff)
  assume c: "c \<in> set (credentials db')" "open_cred c"
  then have c2: "c \<in> set (credentials db2)" using appendEvent_frame(2) [OF app] by simp
  then have "c_SessionID c \<noteq> sid" using revokeOpen_closed [OF rev] c(2) by blast
  moreover have "c \<in> set (credentials db)"
    using upd rev c2 c(2)
    by (auto simp: updateSessions_Inr_iff revokeOpenCredentials_def updateCredentials_Inr_iff open_cred_def
        split: if_splits)
  ultimately show "c \<in> set (credentials db) \<and> c_SessionID c \<noteq> sid" by blast
qed

lemma expireLoop_inv:
  "expireLoop now xs db = Inr db' \<Longrightarrow> db_inv db \<Longrightarrow> db_inv db'"
  by (induction now xs db rule: expireLoop.induct) (auto simp: bindR_Inr_iff intro: expireOne_inv)

lemma expireLoop_sessions:
  "expireLoop now xs db = Inr db' \<Longrightarrow> distinct (map fst xs) \<Longrightarrow>
   sessions db' = map (\<lambda>r. case map_of xs (s_ID r) of None \<Rightarrow> r | Some reason \<Rightarrow> expiredRow now reason r) (sessions db)"
proof (induction now xs db rule: expireLoop.induct)
  case (1 now db)
  then show ?case by simp
next
  case (2 now sid reason rest db)
  from 2(2) obtain db1 where 1: "expireOne now sid reason db = Inr db1" and r: "expireLoop now rest db1 = Inr db'"
    by (auto simp: bindR_Inr_iff)
  have fresh: "map_of rest sid = None" using 2(3) by (auto simp: map_of_eq_None_iff)
  have "s_ID (expiredRow now reason x) = s_ID x" for x by (simp add: expiredRow_def)
  with 2(1) [OF r] 2(3) fresh show ?case by (auto simp: expireOne_effect(1) [OF 1])
qed

lemma expireLoop_credentials:
  "expireLoop now xs db = Inr db' \<Longrightarrow> c \<in> set (credentials db') \<Longrightarrow> open_cred c \<Longrightarrow>
   c \<in> set (credentials db) \<and> c_SessionID c \<notin> fst ` set xs"
proof (induction now xs db rule: expireLoop.induct)
  case (1 now db)
  then show ?case by simp
next
  case (2 now sid reason rest db)
  from 2(2) obtain db1 where 1: "expireOne now sid reason db = Inr db1" and r: "expireLoop now rest db1 = Inr db'"
    by (auto simp: bindR_Inr_iff)
  from 2(1) [OF r 2(3,4)] expireOne_effect(2) [OF 1 _ 2(4)] show ?case by auto
qed

lemma ExpireDesktopSessions_inv [store_keeps]:
  "db_inv db \<Longrightarrow> ExpireDesktopSessions now db = Inr (n, db') \<Longrightarrow> db_inv db'"
  unfolding ExpireDesktopSessions_def by (auto simp: result_simps intro: expireLoop_inv)

lemma prunable_not_live: "prunable before s \<Longrightarrow> \<not> live s"
  by (auto simp: prunable_def live_def live_iff)

lemma distinct_map_filter_key: "distinct (map k xs) \<Longrightarrow> distinct (map k (filter P xs))"
  by (induction xs) auto

lemma sessions_ok_filter: "sessions_ok rows \<Longrightarrow> sessions_ok (filter P rows)"
  unfolding sessions_ok_def by (intro conjI distinct_map_filter_key) (simp_all add: Ball_def)

lemma PruneDesktopState_inv [store_keeps]:
  assumes inv: "db_inv db" and run: "PruneDesktopState cb eb sb db = (n, db')"
  shows "db_inv db'"
proof -
  have sess: "sessions db' = filter (\<lambda>s. \<not> prunable sb s) (sessions db)"
    and cred: "\<exists>P. credentials db' = filter P (credentials db)"
    and ev: "\<exists>P. events db' = filter P (events db)"
    using run unfolding PruneDesktopState_def by (auto simp: Let_def)
  have "has_current (sessions db') c" if "has_current (sessions db) c" for c
    using that prunable_not_live unfolding has_current_def sess by auto
  then have "creds_current {} (sessions db') (credentials db')"
    using inv cred unfolding store_inv_def creds_current_def by auto
  moreover have "sessions_ok (sessions db')"
    using inv unfolding store_inv_def sess by (blast intro: sessions_ok_filter)
  moreover have "distinct (map c_CredentialHash (credentials db'))"
    using inv cred distinct_map_filter_key unfolding store_inv_def by metis
  moreover have "events_ok (events db')"
    using inv ev distinct_map_filter_key unfolding store_inv_def events_ok_def by fastforce
  ultimately show ?thesis unfolding store_inv_def by blast
qed


section \<open>What the operations achieve\<close>

lemma findSession_same: "sessions db = sessions db' \<Longrightarrow> findSession db sid = findSession db' sid"
  by (simp add: findSession_def)

lemma hash_unique:
  "store_inv X db \<Longrightarrow> c \<in> set (credentials db) \<Longrightarrow> d \<in> set (credentials db) \<Longrightarrow>
     c_CredentialHash c = c_CredentialHash d \<Longrightarrow> c = d"
  unfolding store_inv_def distinct_map inj_on_def by blast

lemma no_consumable_Inl:
  assumes "\<forall>c \<in> set (credentials db). \<not> consumable hash side sid epoch now c"
  shows "\<exists>e. ConsumeDesktopJoinCredential hash side sid epoch now db = Inl e"
proof -
  have "filter (consumable hash side sid epoch now) (credentials db) = []" using assms by auto
  then show ?thesis
    by (cases "findSession db sid")
      (simp_all add: ConsumeDesktopJoinCredential_def getDesktopSessionForUpdate_def GetDesktopSession_def)
qed

lemma consume_spends:
  assumes inv: "db_inv db" and run: "ConsumeDesktopJoinCredential hash side sid epoch now db = Inr (c, db')"
  shows "\<forall>d \<in> set (credentials db'). c_CredentialHash d = hash \<longrightarrow> c_ConsumedAt d \<noteq> None"
proof (rule consume_steps [OF run])
  fix c0 db1 e
  assume c0: "c0 \<in> set (credentials db)" "consumable hash side sid epoch now c0"
    and upd: "updateCredentials (consumable hash side sid epoch now) (\<lambda>c. c\<lparr>c_ConsumedAt := Some now\<rparr>) db = Inr db1"
    and app: "appendDesktopSessionEvent e db1 = Inr db'"
  have only: "consumable hash side sid epoch now d"
    if d: "d \<in> set (credentials db)" "c_CredentialHash d = hash" for d
  proof -
    have "d = c0" using hash_unique [OF inv d(1) c0(1)] d(2) c0(2) by (simp add: consumable_def)
    with c0(2) show ?thesis by simp
  qed
  have "credentials db' =
      map (\<lambda>c. if consumable hash side sid epoch now c then c\<lparr>c_ConsumedAt := Some now\<rparr> else c) (credentials db)"
    using upd appendEvent_frame(2) [OF app] by (auto simp: updateCredentials_Inr_iff)
  then show ?thesis using only by (auto split: if_splits)
qed

lemma create_steps:
  assumes "CreateDesktopSession json s b a e db = Inr db'"
  obtains db1 db2 db3 where "s_State s = Requested" "validateDesktopSession s = Inr ()" "validateDesktopCredentialPair s b a = Inr ()"
    "insertSessionRow s db = Inr db1" "insertDesktopJoinCredential b db1 = Inr db2"
    "insertDesktopJoinCredential a db2 = Inr db3" "appendDesktopSessionEvent e db3 = Inr db'"
  using assms unfolding CreateDesktopSession_def by (auto simp: result_simps)

text \<open>A created session can be read back, and both its credentials are stored and open.\<close>

lemma create_effect:
  assumes inv: "db_inv db" and run: "CreateDesktopSession json s b a e db = Inr db'"
  shows "db_inv db'" "findSession db' (s_ID s) = Some s" "b \<in> set (credentials db')" "a \<in> set (credentials db')"
    "\<not> blank (s_ID s)" "credential_checks b" "credential_checks a" "validateDesktopCredentialPair s b a = Inr ()"
proof -
  show i: "db_inv db'" using inv run by (rule CreateDesktopSession_inv)
  obtain db1 db2 db3 where v: "validateDesktopSession s = Inr ()" "validateDesktopCredentialPair s b a = Inr ()"
    and 1: "insertSessionRow s db = Inr db1" and 2: "insertDesktopJoinCredential b db1 = Inr db2"
    and 3: "insertDesktopJoinCredential a db2 = Inr db3" and 4: "appendDesktopSessionEvent e db3 = Inr db'"
    by (rule create_steps [OF run])
  have "sessions db' = sessions db @ [s]"
    using insertSession_inv [OF inv 1] insertCredential_sessions [OF 2] insertCredential_sessions [OF 3] appendEvent_frame(1) [OF 4]
    by simp
  moreover have "sessions_ok (sessions db')" using i by (simp add: store_inv_def)
  ultimately show "findSession db' (s_ID s) = Some s" using findSession_unique sessions_okD(1) by fastforce
  show "b \<in> set (credentials db')" "a \<in> set (credentials db')" "credential_checks b" "credential_checks a"
    using 2 3 appendEvent_frame(2) [OF 4] by (auto simp: insertDesktopJoinCredential_def split: if_splits)
  show "\<not> blank (s_ID s)" using v(1) by (auto simp: validateDesktopSession_def split: if_splits)
  show "validateDesktopCredentialPair s b a = Inr ()" by (rule v(2))
qed

text \<open>An open, stored credential of an existing session is accepted between creation and expiry.\<close>

lemma consume_succeeds:
  assumes inv: "db_inv db" and s: "findSession db sid = Some s" "\<not> blank sid"
    and c: "c \<in> set (credentials db)" "open_cred c" "c_SessionID c = sid" "c_CredentialHash c \<noteq> []" "credential_checks c"
    and t: "c_CreatedAt c \<le> t" "t < c_ExpiresAt c" "t \<noteq> 0"
  shows "\<exists>db'. ConsumeDesktopJoinCredential (c_CredentialHash c) (c_Side c) sid (c_KeyEpoch c) t db = Inr (c\<lparr>c_ConsumedAt := Some t\<rparr>, db')"
proof -
  let ?P = "consumable (c_CredentialHash c) (c_Side c) sid (c_KeyEpoch c) t"
  have P: "?P c" using c t by (simp add: consumable_def open_cred_def)
  have only: "d = c" if "d \<in> set (credentials db)" "?P d" for d
    using hash_unique [OF inv that(1) c(1)] that(2) by (simp add: consumable_def)
  have "set (filter ?P (credentials db)) = {c}" using only P c(1) by auto
  then obtain cs where f: "filter ?P (credentials db) = c # cs"
    by (cases "filter ?P (credentials db)") auto
  have side: "c_Side c = Browser \<or> c_Side c = Agent" and epoch: "c_KeyEpoch c \<noteq> 0"
    using c(5) by (auto simp: credential_checks_def)
  have ok: "credential_checks (c\<lparr>c_ConsumedAt := Some t\<rparr>)" using c(2,5) t by (simp add: credential_checks_def open_cred_def)
  let ?db1 = "db\<lparr>credentials := map (\<lambda>r. if ?P r then r\<lparr>c_ConsumedAt := Some t\<rparr> else r) (credentials db)\<rparr>"
  have upd: "updateCredentials ?P (\<lambda>r. r\<lparr>c_ConsumedAt := Some t\<rparr>) db = Inr ?db1"
    using only ok by (auto simp: updateCredentials_Inr_iff)
  have find1: "findSession ?db1 sid = Some s" using s(1) by (simp add: findSession_def)
  have "\<exists>db'. appendDesktopSessionEvent
      \<lparr>e_SessionID = sid, e_Sequence = 0, e_EventType = ''credential.consumed'', e_ActorType = sideName (c_Side c), e_ActorID = [],
       e_OccurredAt = t, e_Severity = ''info'', e_ReasonCode = [], e_MetadataJSON = consumedMetadata (c_Side c) (c_KeyEpoch c)\<rparr> ?db1 = Inr db'"
    using side nextSequence_pos [of ?db1 sid]
    by (auto simp: appendDesktopSessionEvent_def Let_def event_checks_def actorTypes_def severities_def sideName_def find1)
  then obtain db' where app: "appendDesktopSessionEvent
      \<lparr>e_SessionID = sid, e_Sequence = 0, e_EventType = ''credential.consumed'', e_ActorType = sideName (c_Side c), e_ActorID = [],
       e_OccurredAt = t, e_Severity = ''info'', e_ReasonCode = [], e_MetadataJSON = consumedMetadata (c_Side c) (c_KeyEpoch c)\<rparr> ?db1 = Inr db'"
    by blast
  have get: "getDesktopSessionForUpdate sid db = Inr s" using s(1) by simp
  show ?thesis
    using c(4) side s(2) epoch t(3) by (auto simp: ConsumeDesktopJoinCredential_def get f upd app isZero_def)
qed

text \<open>What a transition and a reconnect return is the row they stored.\<close>

lemma transition_out:
  assumes inv: "db_inv db" and run: "TransitionDesktopSession json sid froms next reason at e db = Inr (out, db')"
  obtains s where "findSession db sid = Some s" "out = transitioned s next reason at s" "findSession db' sid = Some out"
    "sessions db' = map (\<lambda>r. if s_ID r = sid then transitioned s next reason at r else r) (sessions db)"
proof (rule transition_steps [OF run])
  fix s db1 db2
  let ?t = "transitioned s next reason at"
  assume s: "findSession db sid = Some s"
    and upd: "updateSessions (\<lambda>r. s_ID r = sid) ?t db = Inr db1"
    and rev: "(if isTerminalDesktopState next then revokeOpenCredentials (\<lambda>x. x = sid) at db1 else Inr db1) = Inr db2"
    and app: "appendDesktopSessionEvent e db2 = Inr db'" and out: "findSession db' sid = Some out"
  have "sessions db2 = sessions db1"
    using rev revokeOpen_sessions by (cases "isTerminalDesktopState next") auto
  then have sess: "sessions db' = map (\<lambda>r. if s_ID r = sid then ?t r else r) (sessions db)"
    using upd appendEvent_frame(1) [OF app] by (simp add: updateSessions_Inr_iff)
  have sid: "s \<in> set (sessions db)" "s_ID s = sid" using findSession_Some [OF s] by auto
  then have "?t s \<in> set (sessions db')" by (auto simp: sess)
  moreover have "db_inv db'" using inv run by (rule TransitionDesktopSession_inv)
  ultimately have "out = ?t s" using row_unique [OF _ out, of "{}" "?t s"] sid by simp
  with s out sess show thesis by (intro that)
qed

lemma reconnect_out:
  assumes inv: "db_inv db" and run: "BeginDesktopReconnect json sid epoch until b a e db = Inr (out, db')"
  obtains s where "findSession db sid = Some s" "s_KeyEpoch s = epoch" "findSession db' sid = Some out"
    "out = s\<lparr>s_State := Reconnecting, s_KeyEpoch := epoch + 1, s_ReconnectExpiresAt := Some until\<rparr>"
proof (rule reconnect_steps [OF run])
  fix s db1 db2 db3 db4
  let ?f = "\<lambda>r. r\<lparr>s_State := Reconnecting, s_KeyEpoch := epoch + 1, s_ReconnectExpiresAt := Some until\<rparr>"
  assume s: "findSession db sid = Some s" "s_KeyEpoch s = epoch"
    and upd: "updateSessions (\<lambda>r. s_ID r = sid) ?f db = Inr db1"
    and rev: "revokeOpenCredentials (\<lambda>x. x = sid) (c_CreatedAt b) db1 = Inr db2"
    and b: "insertDesktopJoinCredential (b\<lparr>c_SessionID := sid\<rparr>) db2 = Inr db3"
    and a: "insertDesktopJoinCredential (a\<lparr>c_SessionID := sid\<rparr>) db3 = Inr db4"
    and app: "appendDesktopSessionEvent e db4 = Inr db'" and out: "findSession db' sid = Some out"
  have inv': "db_inv db'" using inv run by (rule BeginDesktopReconnect_inv)
  have "sessions db' = sessions db1"
    using revokeOpen_sessions [OF rev] insertCredential_sessions [OF b] insertCredential_sessions [OF a]
      appendEvent_frame(1) [OF app] by simp
  then have "?f s \<in> set (sessions db')"
    using findSession_update [OF s(1) upd] findSession_Some [OF s(1)] by simp
  then have "out = ?f s" using row_unique [OF inv' out] findSession_Some [OF s(1)] by simp
  with s out show thesis by (intro that)
qed

text \<open>No credential opens a session that has ended, nor one of another epoch.\<close>

lemma stale_refused:
  assumes inv: "db_inv db" and s: "findSession db sid = Some s" "\<not> live s \<or> epoch \<noteq> s_KeyEpoch s"
  shows "\<exists>e. ConsumeDesktopJoinCredential hash side sid epoch now db = Inl e"
proof (rule no_consumable_Inl, intro ballI notI)
  fix c
  assume c: "c \<in> set (credentials db)" "consumable hash side sid epoch now c"
  then have "has_current (sessions db) c"
    using inv by (auto simp: store_inv_def creds_current_def consumable_def open_cred_def)
  then obtain r where r: "r \<in> set (sessions db)" "s_ID r = sid" "s_KeyEpoch r = epoch" "live r"
    using c(2) by (auto simp: has_current_def consumable_def)
  with row_unique [OF inv s(1) r(1,2)] s(2) show False by simp
qed

section \<open>Properties\<close>

text \<open>C12: in a database that satisfies the invariant, a join credential is accepted only while its
  session is live and for the session's current key epoch, before it expires, and only once: the
  credential's hash is refused afterwards, whatever side, session, epoch or time is presented. (The
  statement itself does not look at the session's state: the guarantee rests on the invariant.)\<close>

theorem join_credential_single_use:
  assumes "store_inv {} db" "ConsumeDesktopJoinCredential hash side sid epoch now db = Inr (c, db')"
  shows "(\<exists>s \<in> set (sessions db). s_ID s = sid \<and> live s \<and> s_KeyEpoch s = epoch)
    \<and> c_Side c = side \<and> c_SessionID c = sid \<and> c_KeyEpoch c = epoch \<and> now < c_ExpiresAt c
    \<and> (\<forall>side' sid' epoch' now'. \<exists>e. ConsumeDesktopJoinCredential hash side' sid' epoch' now' db' = Inl e)"
proof (rule consume_steps [OF assms(2)])
  fix c0
  assume c0: "c0 \<in> set (credentials db)" "consumable hash side sid epoch now c0" "c = c0\<lparr>c_ConsumedAt := Some now\<rparr>"
  then have "has_current (sessions db) c0"
    using assms(1) by (auto simp: store_inv_def creds_current_def consumable_def open_cred_def)
  moreover have "\<exists>e. ConsumeDesktopJoinCredential hash side' sid' epoch' now' db' = Inl e"
    for side' sid' epoch' now'
    by (rule no_consumable_Inl) (use consume_spends [OF assms] in \<open>auto simp: consumable_def\<close>)
  ultimately show ?thesis using c0 by (auto simp: has_current_def consumable_def)
qed

text \<open>A successful transition follows the state machine from one of the allowed states and
  changes only the named session's row; when it ends the session, no credential of the session
  stays open.\<close>

theorem transition_effect:
  assumes "store_inv {} db"
    and "TransitionDesktopSession jsonObject sid allowedFrom next reason at event db = Inr (out, db')"
  shows "\<exists>s \<in> set (sessions db). s_ID s = sid \<and> s_State s \<in> set allowedFrom
      \<and> CanTransitionDesktopSession (s_State s) next \<and> s_State out = next \<and> s_ID out = sid
      \<and> sessions db' = map (\<lambda>r. if s_ID r = sid then out else r) (sessions db)
      \<and> (isTerminalDesktopState next \<longrightarrow>
           (\<forall>c \<in> set (credentials db'). c_SessionID c = sid \<longrightarrow> \<not> open_cred c))"
proof (rule transition_out [OF assms])
  fix s
  let ?t = "transitioned s next reason at"
  assume s: "findSession db sid = Some s" and o: "out = ?t s"
    and sess: "sessions db' = map (\<lambda>r. if s_ID r = sid then ?t r else r) (sessions db)"
  have sid: "s \<in> set (sessions db)" "s_ID s = sid" using findSession_Some [OF s] by auto
  have "(if s_ID r = sid then ?t r else r) = (if s_ID r = sid then out else r)" if "r \<in> set (sessions db)" for r
    using row_unique [OF assms(1) s that] o by auto
  then have sess': "sessions db' = map (\<lambda>r. if s_ID r = sid then out else r) (sessions db)"
    unfolding sess by simp
  show ?thesis
  proof (rule transition_steps [OF assms(2)])
    fix s' db1 db2
    assume s': "findSession db sid = Some s'" "s_State s' \<in> set allowedFrom" "CanTransitionDesktopSession (s_State s') next"
      and rev: "(if isTerminalDesktopState next then revokeOpenCredentials (\<lambda>x. x = sid) at db1 else Inr db1) = Inr db2"
      and app: "appendDesktopSessionEvent event db2 = Inr db'"
    have "\<not> open_cred c" if "isTerminalDesktopState next" "c \<in> set (credentials db')" "c_SessionID c = sid" for c
      using that rev revokeOpen_closed appendEvent_frame(2) [OF app] by fastforce
    then show ?thesis using s s' sid o sess' by (intro bexI [of _ s]) auto
  qed
qed


text \<open>Expiry is complete and touches nothing else: afterwards no session is due, exactly the due
  sessions became \<open>expired\<close>, their credentials are closed, and the count returned is their number.\<close>

theorem expiry_complete:
  assumes "store_inv {} db" "ExpireDesktopSessions now db = Inr (n, db')"
  shows "list_all (\<lambda>s. \<not> expirable now s) (sessions db')
    \<and> sessions db' = map (\<lambda>s. if expirable now s then expiredRow now (expiryReason now s) s else s) (sessions db)
    \<and> n = length (filter (expirable now) (sessions db))
    \<and> list_all (\<lambda>c. \<not> open_cred c \<or> (\<exists>s \<in> set (sessions db'). s_ID s = c_SessionID c \<and> live s)) (credentials db')"
proof -
  let ?xs = "map (\<lambda>s. (s_ID s, expiryReason now s)) (filter (expirable now) (sessions db))"
  have run: "expireLoop now ?xs db = Inr db'" and n: "n = length (filter (expirable now) (sessions db))"
    using assms(2) unfolding ExpireDesktopSessions_def by (auto simp: result_simps)
  have ids: "distinct (map s_ID (sessions db))"
    using assms(1) unfolding store_inv_def by (blast intro: sessions_okD(1))
  then have d: "distinct (map fst ?xs)" using distinct_map_filter_key [OF ids] by (simp add: comp_def)
  have look: "map_of ?xs (s_ID s) = (if expirable now s then Some (expiryReason now s) else None)"
    if s: "s \<in> set (sessions db)" for s
  proof (cases "expirable now s")
    case True
    then have "(s_ID s, expiryReason now s) \<in> set ?xs" using s by auto
    with d show ?thesis using True by (simp add: map_of_is_SomeI del: map_map)
  next
    case False
    have "inj_on s_ID (set (sessions db))" using ids by (simp add: distinct_map)
    with False s have "s_ID s \<notin> fst ` set ?xs" by (auto dest: inj_onD)
    then show ?thesis using False by (simp add: map_of_eq_None_iff)
  qed
  have sess: "sessions db' = map (\<lambda>s. if expirable now s then expiredRow now (expiryReason now s) s else s) (sessions db)"
    unfolding expireLoop_sessions [OF run d] by (rule map_cong) (simp_all add: look)
  have "\<not> expirable now (expiredRow now reason s)" for reason s
    by (simp add: expirable_def expiredRow_def live_def liveStates_def)
  then have "list_all (\<lambda>s. \<not> expirable now s) (sessions db')" unfolding sess by (auto simp: list_all_iff)
  moreover have "db_inv db'" using assms by (rule ExpireDesktopSessions_inv)
  then have "list_all (\<lambda>c. \<not> open_cred c \<or> (\<exists>s \<in> set (sessions db'). s_ID s = c_SessionID c \<and> live s)) (credentials db')"
    unfolding store_inv_def creds_current_def has_current_def list_all_iff by blast
  ultimately show ?thesis using sess n by blast
qed

text \<open>A reconnect moves the session to the next key epoch without wrapping around, and from then
  on no credential of any other epoch is accepted for it.\<close>

theorem reconnect_advances_epoch:
  assumes "store_inv {} db" "BeginDesktopReconnect jsonObject sid epoch until browser agent event db = Inr (out, db')"
  shows "unat (s_KeyEpoch out) = unat epoch + 1 \<and> s_State out = Reconnecting \<and> s_ID out = sid
    \<and> (\<forall>hash side epoch' now. epoch' \<noteq> s_KeyEpoch out \<longrightarrow>
         (\<exists>e. ConsumeDesktopJoinCredential hash side sid epoch' now db' = Inl e))"
proof (rule reconnect_out [OF assms])
  fix s
  assume s: "findSession db sid = Some s" "s_KeyEpoch s = epoch" and out: "findSession db' sid = Some out"
    and o: "out = s\<lparr>s_State := Reconnecting, s_KeyEpoch := epoch + 1, s_ReconnectExpiresAt := Some until\<rparr>"
  have inv': "db_inv db'" using assms by (rule BeginDesktopReconnect_inv)
  have "sessions_ok (sessions db)" using assms(1) unfolding store_inv_def by blast
  then have "session_checks s" by (rule sessions_okD(2)) (use findSession_Some [OF s(1)] in blast)
  then have "unat epoch < 2 ^ 31" using s(2) by (simp add: session_checks_def)
  then have "unat (epoch + 1) = unat epoch + 1" by (simp add: unat_word_ariths)
  then show ?thesis using o findSession_Some [OF s(1)] stale_refused [OF inv' out] by auto
qed


section \<open>A concrete database\<close>

definition sampleSession :: "DesktopSessionState \<Rightarrow> DesktopSession" where
  "sampleSession st =
     \<lparr>s_ID = ''s1'', s_HomeID = ''h1'', s_AgentID = ''a1'', s_OperatorUserID = ''u1'',
      s_OperatorDeviceIdentityID = ''i1'', s_RequestedPermissions = [PermissionView],
      s_EffectivePermissions = [PermissionView], s_State = st, s_KeyEpoch = 1, s_RequestedAt = 1000,
      s_JoinExpiresAt = 1000 + seconds 30, s_HardExpiresAt = 1000 + hours 1, s_ActiveAt = None,
      s_ReconnectExpiresAt = None, s_TerminatedAt = None, s_TerminationReason = [], s_SourceIPHash = [],
      s_SourceUserAgentHash = [], s_BrowserToAgentBytes = 0, s_AgentToBrowserBytes = 0\<rparr>"

definition sampleCredential :: "string \<Rightarrow> Side \<Rightarrow> byte \<Rightarrow> 32 word \<Rightarrow> time \<Rightarrow> time \<Rightarrow> DesktopJoinCredential" where
  "sampleCredential cid side b epoch created expires =
     \<lparr>c_ID = cid, c_SessionID = ''s1'', c_Side = side, c_CredentialHash = replicate 32 b, c_KeyEpoch = epoch,
      c_CreatedAt = created, c_ExpiresAt = expires, c_ConsumedAt = None, c_RevokedAt = None\<rparr>"

definition sampleEvent :: "string \<Rightarrow> DesktopSessionEvent" where
  "sampleEvent t = \<lparr>e_SessionID = ''s1'', e_Sequence = 0, e_EventType = t, e_ActorType = ''server'',
     e_ActorID = [], e_OccurredAt = 2000, e_Severity = ''info'', e_ReasonCode = [], e_MetadataJSON = ''{}''\<rparr>"

definition sampleIdentity :: DesktopIdentity where
  "sampleIdentity = \<lparr>id_ID = ''i1'', id_HomeID = ''h1'', id_IdentityType = OperatorDevice, id_UserID = ''u1'',
     id_DeviceID = ''d1'', id_AgentID = [], id_PublicKeySPKI = [1], id_Certificate = [2],
     id_Fingerprint = ''f1'', id_Capabilities = [], id_TrustRootGeneration = 1, id_CreatedAt = 500,
     id_ExpiresAt = 1000 + hours 9, id_RevokedAt = None, id_RevocationReason = [], id_AuthSessionID = []\<rparr>"

definition sampleDb :: "DesktopSessionState \<Rightarrow> desktop_db" where
  "sampleDb st =
     \<lparr>sessions = [sampleSession st],
      credentials = [sampleCredential ''c1'' Browser 1 1 1000 (1000 + seconds 30),
                     sampleCredential ''c2'' Agent 2 1 1000 (1000 + seconds 30)],
      events = [], identities = [sampleIdentity], trust_roots = [], pending_enrollments = [],
      enrollment_challenges = [], homes = [''h1''], users = [''u1''], app_sessions = [],
      agents = [(''h1'', ''a1'')], home_memberships = [(''h1'', ''u1'')]\<rparr>"

lemmas sample_defs = sampleDb_def sampleSession_def sampleCredential_def sampleEvent_def sampleIdentity_def

lemma sample_inv: "st \<in> set liveStates \<Longrightarrow> db_inv (sampleDb st)"
  by (auto simp: store_inv_def sessions_ok_def creds_current_def has_current_def events_ok_def sample_defs
      session_checks_def live_def live_iff)

lemmas run_simps = findSession_def getDesktopSessionForUpdate_def GetDesktopSession_def updateSessions_def
  updateCredentials_def updateWhere_def revokeOpenCredentials_def open_cred_def appendDesktopSessionEvent_def
  event_checks_def actorTypes_def severities_def nextSequence_def session_checks_def credential_checks_def
  live_def liveStates_def knownDesktopSessionState_def isTerminalDesktopState_def isZero_def Let_def

lemma sample_consume:
  "\<exists>db'. ConsumeDesktopJoinCredential (replicate 32 1) Browser ''s1'' 1 2000 (sampleDb AgentReady)
    = Inr ((sampleCredential ''c1'' Browser 1 1 1000 (1000 + seconds 30))\<lparr>c_ConsumedAt := Some 2000\<rparr>, db')"
  by (simp add: ConsumeDesktopJoinCredential_def consumable_def sample_defs run_simps literal_simps sideName_def)


theorem join_credential_single_use_witness:
  "\<exists>c db'. ConsumeDesktopJoinCredential (replicate 32 1) Browser ''s1'' 1 2000 (sampleDb AgentReady) = Inr (c, db')
     \<and> (\<exists>e. ConsumeDesktopJoinCredential (replicate 32 1) Browser ''s1'' 1 2000 db' = Inl e)"
proof -
  obtain c db' where run: "ConsumeDesktopJoinCredential (replicate 32 1) Browser ''s1'' 1 2000 (sampleDb AgentReady) = Inr (c, db')"
    using sample_consume by blast
  have "db_inv (sampleDb AgentReady)" by (rule sample_inv) (simp add: liveStates_def)
  from join_credential_single_use [OF this run] run show ?thesis by blast
qed

lemma sample_transition:
  "\<exists>out db'. TransitionDesktopSession (\<lambda>_. True) ''s1'' [Active] Terminated ''done'' 3000 (sampleEvent ''x'') (sampleDb Active)
     = Inr (out, db')"
  by (simp add: TransitionDesktopSession_def validateDesktopEvent_def CanTransitionDesktopSession_def transitioned_def
      sample_defs run_simps literal_simps)

theorem transition_effect_witness:
  "\<exists>out db'. TransitionDesktopSession (\<lambda>_. True) ''s1'' [Active] Terminated ''done'' 3000 (sampleEvent ''x'') (sampleDb Active)
     = Inr (out, db') \<and> s_State out = Terminated
     \<and> (\<forall>c \<in> set (credentials db'). c_SessionID c = ''s1'' \<longrightarrow> \<not> open_cred c)"
proof -
  obtain out db' where run: "TransitionDesktopSession (\<lambda>_. True) ''s1'' [Active] Terminated ''done'' 3000 (sampleEvent ''x'')
      (sampleDb Active) = Inr (out, db')"
    using sample_transition by blast
  have "db_inv (sampleDb Active)" by (rule sample_inv) (simp add: liveStates_def)
  from transition_effect [OF this run] run show ?thesis by (auto simp: isTerminalDesktopState_def)
qed

lemma sample_expire: "\<exists>db'. ExpireDesktopSessions (1000 + seconds 31) (sampleDb Joining) = Inr (1, db')"
  by (simp add: ExpireDesktopSessions_def expirable_def expireOne_def expiredRow_def expiryReason_def
      reconnectExpired_def sample_defs run_simps)

theorem expiry_complete_witness:
  "\<exists>db'. ExpireDesktopSessions (1000 + seconds 31) (sampleDb Joining) = Inr (1, db')
     \<and> list_all (\<lambda>s. \<not> expirable (1000 + seconds 31) s) (sessions db')"
proof -
  obtain db' where run: "ExpireDesktopSessions (1000 + seconds 31) (sampleDb Joining) = Inr (1, db')"
    using sample_expire by blast
  have "db_inv (sampleDb Joining)" by (rule sample_inv) (simp add: liveStates_def)
  from expiry_complete [OF this run] run show ?thesis by blast
qed

lemma sample_reconnect:
  "\<exists>out db'. BeginDesktopReconnect (\<lambda>_. True) ''s1'' 1 9000 (sampleCredential ''c3'' Browser 3 2 3000 9000)
      (sampleCredential ''c4'' Agent 4 2 3000 9000) (sampleEvent ''x'') (sampleDb Active) = Inr (out, db')"
  by (simp add: BeginDesktopReconnect_def validateDesktopEvent_def validateDesktopCredentialPair_def
      validateDesktopJoinCredential_def insertDesktopJoinCredential_def sample_defs run_simps literal_simps)

theorem reconnect_advances_epoch_witness:
  "\<exists>out db'. BeginDesktopReconnect (\<lambda>_. True) ''s1'' 1 9000 (sampleCredential ''c3'' Browser 3 2 3000 9000)
      (sampleCredential ''c4'' Agent 4 2 3000 9000) (sampleEvent ''x'') (sampleDb Active) = Inr (out, db')
     \<and> unat (s_KeyEpoch out) = 2"
proof -
  obtain out db' where run: "BeginDesktopReconnect (\<lambda>_. True) ''s1'' 1 9000 (sampleCredential ''c3'' Browser 3 2 3000 9000)
      (sampleCredential ''c4'' Agent 4 2 3000 9000) (sampleEvent ''x'') (sampleDb Active) = Inr (out, db')"
    using sample_reconnect by blast
  have "db_inv (sampleDb Active)" by (rule sample_inv) (simp add: liveStates_def)
  from reconnect_advances_epoch [OF this run] run show ?thesis by auto
qed

end
