(* ===== verification/Trust_Store.thy ===== *)
theory Trust_Store
  imports Session_Store
begin

text \<open>
  Desktop trust in the database: \<open>internal/store/desktop_trust.go\<close> (trust roots, identities,
  pending enrollments, recovery challenges) and \<open>internal/store/desktop_auto_enrollment.go\<close>
  (enrollment challenges, the server-managed authority). The number of placeholders of a statement
  and the number of arguments passed to it are compared by the database driver, which is not part
  of the repository: \<open>binds p a\<close> is its verdict on \<open>p\<close> placeholders and \<open>a\<close> arguments. Key
  generation, DER parsing, the secret box and the fingerprint function are parameters too.
\<close>

section \<open>Constraints of the identity and trust tables\<close>

definition errBind :: error where "errBind = ErrMsg ''wrong number of statement arguments''"

definition isActiveOperator :: "DesktopIdentity \<Rightarrow> bool" where
  "isActiveOperator i \<longleftrightarrow> id_IdentityType i = OperatorDevice \<and> id_RevokedAt i = None"

definition isActiveEndpoint :: "DesktopIdentity \<Rightarrow> bool" where
  "isActiveEndpoint i \<longleftrightarrow> id_IdentityType i = Endpoint \<and> id_RevokedAt i = None"

text \<open>An empty string in a nullable column stands for \<open>NULL\<close> (\<open>nilIfEmptyString\<close>).\<close>

definition identity_checks :: "DesktopIdentity \<Rightarrow> bool" where
  "identity_checks i \<longleftrightarrow>
     0 < id_TrustRootGeneration i \<and> id_TrustRootGeneration i < 2 ^ 31
     \<and> (case id_IdentityType i of
          OperatorDevice \<Rightarrow> id_UserID i \<noteq> [] \<and> id_DeviceID i \<noteq> [] \<and> id_AgentID i = []
        | Endpoint \<Rightarrow> id_UserID i = [] \<and> id_DeviceID i = [] \<and> id_AgentID i \<noteq> []
        | OtherIdentityType _ \<Rightarrow> False)
     \<and> id_CreatedAt i < id_ExpiresAt i
     \<and> (id_RevokedAt i = None \<longleftrightarrow> id_RevocationReason i = [])
     \<and> (id_RevokedAt i = None \<or> \<not> list_all (\<lambda>c. c = CHR 0x20) (id_RevocationReason i))"

definition identities_unique :: "DesktopIdentity list \<Rightarrow> bool" where
  "identities_unique rows \<longleftrightarrow>
     distinct (map id_ID rows)
     \<and> distinct (map (\<lambda>i. (id_HomeID i, id_Fingerprint i)) rows)
     \<and> distinct (map (\<lambda>i. (id_HomeID i, id_DeviceID i)) (filter isActiveOperator rows))
     \<and> distinct (map (\<lambda>i. (id_HomeID i, id_AgentID i)) (filter isActiveEndpoint rows))"

definition identity_fks :: "desktop_db \<Rightarrow> DesktopIdentity \<Rightarrow> bool" where
  "identity_fks db i \<longleftrightarrow>
     id_HomeID i \<in> set (homes db)
     \<and> (id_UserID i = [] \<or> (id_HomeID i, id_UserID i) \<in> set (home_memberships db))
     \<and> (id_AgentID i = [] \<or> (id_HomeID i, id_AgentID i) \<in> set (agents db))
     \<and> (id_AuthSessionID i = [] \<or> id_AuthSessionID i \<in> set (app_sessions db))"

definition insertIdentityRow :: "DesktopIdentity \<Rightarrow> desktop_db \<Rightarrow> desktop_db result" where
  "insertIdentityRow i db =
     (if \<not> identity_checks i then Inl errCheck
      else if \<not> identities_unique (identities db @ [i]) then Inl errUnique
      else if \<not> identity_fks db i then Inl errForeign
      else Inr (db\<lparr>identities := identities db @ [i]\<rparr>))"

definition session_identity_fk :: "DesktopIdentity list \<Rightarrow> DesktopSession \<Rightarrow> bool" where
  "session_identity_fk rows s \<longleftrightarrow>
     list_ex (\<lambda>i. id_HomeID i = s_HomeID s \<and> id_UserID i = s_OperatorUserID s
                 \<and> id_ID i = s_OperatorDeviceIdentityID s) rows"

definition updateIdentities ::
    "(DesktopIdentity \<Rightarrow> bool) \<Rightarrow> (DesktopIdentity \<Rightarrow> DesktopIdentity) \<Rightarrow> desktop_db \<Rightarrow> desktop_db result" where
  "updateIdentities P f db =
     bindR (updateWhere P f identity_checks (identities db)) (\<lambda>rows.
     if \<not> identities_unique rows then Inl errUnique
     else if \<not> list_all (identity_fks db) rows \<or> \<not> list_all (session_identity_fk rows) (sessions db)
     then Inl errForeign
     else Inr (db\<lparr>identities := rows\<rparr>))"

definition DesktopTrustAlgorithm :: string where "DesktopTrustAlgorithm = ''ECDSA_P256_SHA256''"

definition trust_checks :: "desktop_trust_roots_row \<Rightarrow> bool" where
  "trust_checks r \<longleftrightarrow>
     0 < tr_Generation r \<and> tr_Generation r < 2 ^ 31 \<and> tr_Algorithm r = DesktopTrustAlgorithm
     \<and> (recovery_challenge_hash r = None \<longleftrightarrow> recovery_challenge_expires_at r = None)
     \<and> (recovery_challenge_consumed_at r = None \<or> recovery_challenge_hash r \<noteq> None)
     \<and> tr_AuthorityMode r \<in> {''client_managed'', ''server_managed''}"

definition insertTrustRow :: "desktop_trust_roots_row \<Rightarrow> desktop_db \<Rightarrow> desktop_db result" where
  "insertTrustRow r db =
     (if \<not> trust_checks r then Inl errCheck
      else if list_ex (\<lambda>q. tr_HomeID q = tr_HomeID r) (trust_roots db) then Inl errUnique
      else if tr_HomeID r \<notin> set (homes db) then Inl errForeign
      else Inr (db\<lparr>trust_roots := trust_roots db @ [r]\<rparr>))"

definition updateTrust ::
    "(desktop_trust_roots_row \<Rightarrow> bool) \<Rightarrow> (desktop_trust_roots_row \<Rightarrow> desktop_trust_roots_row) \<Rightarrow>
     desktop_db \<Rightarrow> desktop_db result" where
  "updateTrust P f db =
     bindR (updateWhere P f trust_checks (trust_roots db)) (\<lambda>rows. Inr (db\<lparr>trust_roots := rows\<rparr>))"

definition findTrust :: "desktop_db \<Rightarrow> string \<Rightarrow> desktop_trust_roots_row option" where
  "findTrust db homeID = find (\<lambda>r. tr_HomeID r = homeID) (trust_roots db)"

section \<open>Pending enrollments\<close>

definition errJson :: error where "errJson = ErrMsg ''invalid input syntax for type json''"

definition UpsertDesktopPendingEnrollment ::
    "(bytes \<Rightarrow> bool) \<Rightarrow> DesktopPendingEnrollment \<Rightarrow> desktop_db \<Rightarrow> desktop_db result" where
  "UpsertDesktopPendingEnrollment json v db =
     (if pn_HomeID v = [] \<or> pn_AgentID v = [] \<or> pn_RequestJSON v = [] \<or> pn_Fingerprint v = []
         \<or> isZero (pn_CreatedAt v) \<or> \<not> pn_ExpiresAt v > pn_CreatedAt v
      then Inl (ErrMsg ''invalid desktop pending enrollment'')
      else if \<not> json (pn_RequestJSON v) then Inl errJson
      else if list_ex (\<lambda>r. pn_HomeID r = pn_HomeID v \<and> pn_AgentID r = pn_AgentID v) (pending_enrollments db)
      then Inr (db\<lparr>pending_enrollments :=
             map (\<lambda>r. if pn_HomeID r = pn_HomeID v \<and> pn_AgentID r = pn_AgentID v then v else r)
               (pending_enrollments db)\<rparr>)
      else if (pn_HomeID v, pn_AgentID v) \<notin> set (agents db) then Inl errForeign
      else Inr (db\<lparr>pending_enrollments := pending_enrollments db @ [v]\<rparr>))"

definition GetDesktopPendingEnrollment ::
    "string \<Rightarrow> string \<Rightarrow> time \<Rightarrow> desktop_db \<Rightarrow> DesktopPendingEnrollment result" where
  "GetDesktopPendingEnrollment homeID agentID now db =
     (case find (\<lambda>r. pn_HomeID r = homeID \<and> pn_AgentID r = agentID \<and> pn_ExpiresAt r > now)
        (pending_enrollments db) of None \<Rightarrow> Inl ErrNotFound | Some r \<Rightarrow> Inr r)"

definition DeleteDesktopPendingEnrollment :: "string \<Rightarrow> string \<Rightarrow> desktop_db \<Rightarrow> desktop_db" where
  "DeleteDesktopPendingEnrollment homeID agentID db =
     db\<lparr>pending_enrollments :=
        filter (\<lambda>r. \<not> (pn_HomeID r = homeID \<and> pn_AgentID r = agentID)) (pending_enrollments db)\<rparr>"

definition DeleteDesktopPendingEnrollmentsForHome :: "string \<Rightarrow> desktop_db \<Rightarrow> desktop_db result" where
  "DeleteDesktopPendingEnrollmentsForHome homeID db =
     (if blank homeID then Inl (ErrMsg ''invalid desktop pending enrollment home'')
      else Inr (db\<lparr>pending_enrollments := filter (\<lambda>r. pn_HomeID r \<noteq> homeID) (pending_enrollments db)\<rparr>))"

section \<open>Validation and inserts\<close>

definition validateDesktopTrustRoot :: "('a) DesktopTrustRoot_scheme \<Rightarrow> unit result" where
  "validateDesktopTrustRoot root =
     (if blank (tr_HomeID root) \<or> tr_Generation root \<le> 0 \<or> tr_Algorithm root \<noteq> DesktopTrustAlgorithm
         \<or> tr_PublicKeySPKI root = [] \<or> blank (tr_Fingerprint root) \<or> isZero (tr_CreatedAt root)
         \<or> (tr_AuthorityMode root \<noteq> [] \<and> tr_AuthorityMode root \<noteq> ''client_managed''
            \<and> tr_AuthorityMode root \<noteq> ''server_managed'')
         \<or> (tr_AuthorityMode root = ''server_managed'' \<and> blank (tr_EncryptedPrivateKey root))
         \<or> (tr_AuthorityMode root \<noteq> ''server_managed'' \<and> tr_RecoveryEnvelope root = [])
      then Inl (ErrMsg ''invalid desktop trust root'') else Inr ())"

definition validateDesktopIdentity :: "DesktopIdentity \<Rightarrow> unit result" where
  "validateDesktopIdentity i =
     (if blank (id_ID i) \<or> blank (id_HomeID i) \<or> id_PublicKeySPKI i = [] \<or> id_Certificate i = []
         \<or> blank (id_Fingerprint i) \<or> id_TrustRootGeneration i \<le> 0 \<or> isZero (id_CreatedAt i)
         \<or> \<not> id_ExpiresAt i > id_CreatedAt i
      then Inl (ErrMsg ''invalid desktop identity'')
      else
        bindR (case id_IdentityType i of
            OperatorDevice \<Rightarrow>
              if blank (id_UserID i) \<or> blank (id_DeviceID i) \<or> id_AgentID i \<noteq> []
              then Inl (ErrMsg ''invalid desktop operator-device scope'') else Inr ()
          | Endpoint \<Rightarrow>
              if id_UserID i \<noteq> [] \<or> id_DeviceID i \<noteq> [] \<or> blank (id_AgentID i)
              then Inl (ErrMsg ''invalid desktop endpoint scope'') else Inr ()
          | OtherIdentityType _ \<Rightarrow> Inl (ErrMsg ''unsupported desktop identity type'')) (\<lambda>_.
        if id_RevokedAt i = None \<and> id_RevocationReason i \<noteq> []
        then Inl (ErrMsg ''desktop identity revocation reason requires revoked_at'')
        else if id_RevokedAt i \<noteq> None \<and> blank (id_RevocationReason i)
        then Inl (ErrMsg ''revoked desktop identity requires a reason'')
        else Inr ()))"

text \<open>The values passed for an identity row, in order: sixteen of them.\<close>

datatype sql_arg = ArgText string | ArgNull | ArgBytes bytes | ArgTexts "string list" | ArgInt int | ArgTime "time option"

definition nilIfEmptyString :: "string \<Rightarrow> sql_arg" where
  "nilIfEmptyString s = (if s = [] then ArgNull else ArgText s)"

definition identityTypeName :: "DesktopIdentityType \<Rightarrow> string" where
  "identityTypeName t = (case t of OperatorDevice \<Rightarrow> ''operator_device'' | Endpoint \<Rightarrow> ''endpoint''
     | OtherIdentityType s \<Rightarrow> s)"

definition desktopIdentityArgs :: "DesktopIdentity \<Rightarrow> sql_arg list" where
  "desktopIdentityArgs i =
     [ArgText (id_ID i), ArgText (id_HomeID i), ArgText (identityTypeName (id_IdentityType i)),
      nilIfEmptyString (id_UserID i), nilIfEmptyString (id_DeviceID i), nilIfEmptyString (id_AgentID i),
      ArgBytes (id_PublicKeySPKI i), ArgBytes (id_Certificate i), ArgText (id_Fingerprint i),
      ArgTexts (id_Capabilities i), ArgInt (id_TrustRootGeneration i), ArgTime (Some (id_CreatedAt i)),
      ArgTime (Some (id_ExpiresAt i)), ArgTime (id_RevokedAt i), nilIfEmptyString (id_RevocationReason i),
      nilIfEmptyString (id_AuthSessionID i)]"

text \<open>The statement of \<open>insertDesktopIdentity\<close> names fifteen columns and placeholders.\<close>

definition insertDesktopIdentity ::
    "(nat \<Rightarrow> nat \<Rightarrow> bool) \<Rightarrow> DesktopIdentity \<Rightarrow> desktop_db \<Rightarrow> desktop_db result" where
  "insertDesktopIdentity binds i db =
     (if \<not> binds 15 (length (desktopIdentityArgs i)) then Inl errBind
      else insertIdentityRow (i\<lparr>id_AuthSessionID := []\<rparr>) db)"

definition insertDesktopTrustRoot :: "'a DesktopTrustRoot_scheme \<Rightarrow> desktop_db \<Rightarrow> desktop_db result" where
  "insertDesktopTrustRoot root db =
     insertTrustRow
       \<lparr>tr_HomeID = tr_HomeID root, tr_Generation = tr_Generation root, tr_Algorithm = tr_Algorithm root,
        tr_PublicKeySPKI = tr_PublicKeySPKI root, tr_Fingerprint = tr_Fingerprint root,
        tr_RecoveryEnvelope = tr_RecoveryEnvelope root, tr_CreatedAt = tr_CreatedAt root,
        tr_RotatedAt = tr_RotatedAt root, tr_AuthorityMode = ''client_managed'', tr_EncryptedPrivateKey = [],
        recovery_challenge_hash = None, recovery_challenge_expires_at = None,
        recovery_challenge_consumed_at = None\<rparr> db"

section \<open>Trust roots and identities\<close>

definition BootstrapDesktopTrust ::
    "(nat \<Rightarrow> nat \<Rightarrow> bool) \<Rightarrow> DesktopTrustRoot \<Rightarrow> DesktopIdentity \<Rightarrow> desktop_db \<Rightarrow> desktop_db result" where
  "BootstrapDesktopTrust binds root op db =
     bindR (validateDesktopTrustRoot root) (\<lambda>_.
     if tr_Generation root \<noteq> 1 then Inl (ErrMsg ''desktop trust bootstrap requires generation 1'')
     else
       bindR (validateDesktopIdentity op) (\<lambda>_.
       if id_IdentityType op \<noteq> OperatorDevice \<or> id_HomeID op \<noteq> tr_HomeID root
          \<or> id_TrustRootGeneration op \<noteq> tr_Generation root
       then Inl (ErrMsg ''first desktop operator does not match the trust root'')
       else
         bindR (insertDesktopTrustRoot root db) (\<lambda>db1.
         insertDesktopIdentity binds op db1)))"

definition GetDesktopTrustRoot :: "string \<Rightarrow> desktop_db \<Rightarrow> DesktopTrustRoot result" where
  "GetDesktopTrustRoot homeID db =
     (case findTrust db homeID of None \<Rightarrow> Inl ErrNotFound
      | Some r \<Rightarrow> Inr (DesktopTrustRoot.truncate r))"

definition CreateDesktopIdentity ::
    "(nat \<Rightarrow> nat \<Rightarrow> bool) \<Rightarrow> DesktopIdentity \<Rightarrow> desktop_db \<Rightarrow> desktop_db result" where
  "CreateDesktopIdentity binds i db =
     bindR (validateDesktopIdentity i) (\<lambda>_.
     if \<not> binds 16 (length (desktopIdentityArgs i)) then Inl errBind else insertIdentityRow i db)"

definition scanDesktopIdentity :: "(DesktopIdentity \<Rightarrow> bool) \<Rightarrow> desktop_db \<Rightarrow> DesktopIdentity result" where
  "scanDesktopIdentity P db = (case find P (identities db) of None \<Rightarrow> Inl ErrNotFound | Some i \<Rightarrow> Inr i)"

definition GetActiveDesktopOperatorIdentity ::
    "string \<Rightarrow> string \<Rightarrow> string \<Rightarrow> time \<Rightarrow> desktop_db \<Rightarrow> DesktopIdentity result" where
  "GetActiveDesktopOperatorIdentity homeID userID deviceID now =
     scanDesktopIdentity (\<lambda>i. id_HomeID i = homeID \<and> id_UserID i = userID \<and> id_DeviceID i = deviceID
       \<and> isActiveOperator i \<and> id_ExpiresAt i > now)"

definition GetCurrentDesktopOperatorIdentity :: "string \<Rightarrow> string \<Rightarrow> desktop_db \<Rightarrow> DesktopIdentity result" where
  "GetCurrentDesktopOperatorIdentity homeID deviceID =
     scanDesktopIdentity (\<lambda>i. id_HomeID i = homeID \<and> id_DeviceID i = deviceID \<and> isActiveOperator i)"

definition GetActiveDesktopEndpointIdentity ::
    "string \<Rightarrow> string \<Rightarrow> time \<Rightarrow> desktop_db \<Rightarrow> DesktopIdentity result" where
  "GetActiveDesktopEndpointIdentity homeID agentID now =
     scanDesktopIdentity (\<lambda>i. id_HomeID i = homeID \<and> id_AgentID i = agentID
       \<and> isActiveEndpoint i \<and> id_ExpiresAt i > now)"

definition GetCurrentDesktopEndpointIdentity :: "string \<Rightarrow> string \<Rightarrow> desktop_db \<Rightarrow> DesktopIdentity result" where
  "GetCurrentDesktopEndpointIdentity homeID agentID =
     scanDesktopIdentity (\<lambda>i. id_HomeID i = homeID \<and> id_AgentID i = agentID \<and> isActiveEndpoint i)"

section \<open>Revocation\<close>

definition desktopIdentitySessionScope ::
    "DesktopIdentityType \<Rightarrow> string \<Rightarrow> string \<Rightarrow> (DesktopSession \<Rightarrow> bool) result" where
  "desktopIdentitySessionScope identityType identityID agentID =
     (if identityType \<noteq> Endpoint then Inr (\<lambda>s. s_OperatorDeviceIdentityID s = identityID)
      else if blank agentID then Inl (ErrMsg ''desktop endpoint identity has no agent scope'')
      else Inr (\<lambda>s. s_AgentID s = agentID))"

definition revocationEvent :: "string \<Rightarrow> time \<Rightarrow> string \<Rightarrow> DesktopSessionEvent" where
  "revocationEvent reason at sid =
     \<lparr>e_SessionID = sid, e_Sequence = 0, e_EventType = ''desktop.identity.revoked'',
      e_ActorType = ''server'', e_ActorID = [], e_OccurredAt = at, e_Severity = ''security'',
      e_ReasonCode = reason, e_MetadataJSON = ''{}''\<rparr>"

fun appendEvents :: "DesktopSessionEvent list \<Rightarrow> desktop_db \<Rightarrow> desktop_db result" where
  "appendEvents [] db = Inr db"
| "appendEvents (e # es) db = bindR (appendDesktopSessionEvent e db) (appendEvents es)"

text \<open>
  \<open>UPDATE desktop_sessions SET state = 'terminated' ... WHERE ... AND state IN (live states)\<close>, and
  the credential update joined with \<open>desktop_sessions\<close>, which looks at every session in scope.
\<close>

definition terminatedRow :: "string \<Rightarrow> time \<Rightarrow> DesktopSession \<Rightarrow> DesktopSession" where
  "terminatedRow reason at r = r\<lparr>s_State := Terminated, s_TerminatedAt := Some at, s_TerminationReason := reason\<rparr>"

definition terminateSessions ::
    "(DesktopSession \<Rightarrow> bool) \<Rightarrow> string \<Rightarrow> time \<Rightarrow> desktop_db \<Rightarrow> desktop_db result" where
  "terminateSessions inScope reason at = updateSessions (\<lambda>s. inScope s \<and> live s) (terminatedRow reason at)"

definition revokeCredentialsOf :: "(DesktopSession \<Rightarrow> bool) \<Rightarrow> time \<Rightarrow> desktop_db \<Rightarrow> desktop_db result" where
  "revokeCredentialsOf inScope at db =
     revokeOpenCredentials (\<lambda>sid. list_ex (\<lambda>s. s_ID s = sid \<and> inScope s) (sessions db)) at db"

definition revokeIdentities :: "(DesktopIdentity \<Rightarrow> bool) \<Rightarrow> string \<Rightarrow> time \<Rightarrow> desktop_db \<Rightarrow> desktop_db result" where
  "revokeIdentities P reason at =
     updateIdentities (\<lambda>i. P i \<and> id_RevokedAt i = None)
       (\<lambda>i. i\<lparr>id_RevokedAt := Some at, id_RevocationReason := reason\<rparr>)"

definition revokeDesktopIdentityTx ::
    "string \<Rightarrow> string \<Rightarrow> string \<Rightarrow> time \<Rightarrow> desktop_db \<Rightarrow> (string list \<times> bool \<times> desktop_db) result" where
  "revokeDesktopIdentityTx homeID identityID reason at db =
     (case find (\<lambda>i. id_HomeID i = homeID \<and> id_ID i = identityID \<and> id_RevokedAt i = None) (identities db) of
        None \<Rightarrow> Inr ([], False, db)
      | Some i \<Rightarrow>
          bindR (desktopIdentitySessionScope (id_IdentityType i) identityID (id_AgentID i)) (\<lambda>scope.
          let inScope = (\<lambda>s. s_HomeID s = homeID \<and> scope s);
              sessionIDs = map s_ID (filter (\<lambda>s. inScope s \<and> live s) (sessions db)) in
          bindR (revokeIdentities (\<lambda>i. id_HomeID i = homeID \<and> id_ID i = identityID) reason at db) (\<lambda>db1.
          bindR (appendEvents (map (revocationEvent reason at) sessionIDs) db1) (\<lambda>db2.
          bindR (terminateSessions inScope reason at db2) (\<lambda>db3.
          bindR (revokeCredentialsOf inScope at db3) (\<lambda>db4.
          Inr (sessionIDs, True, db4)))))))"

definition RevokeDesktopIdentity ::
    "string \<Rightarrow> string \<Rightarrow> string \<Rightarrow> time \<Rightarrow> desktop_db \<Rightarrow> (bool \<times> string list \<times> desktop_db) result" where
  "RevokeDesktopIdentity homeID identityID reason at db =
     (if blank homeID \<or> blank identityID \<or> blank reason \<or> isZero at
      then Inl (ErrMsg ''invalid desktop identity revocation'')
      else
        bindR (revokeDesktopIdentityTx homeID identityID reason at db) (\<lambda>(sessionIDs, changed, db').
        if \<not> changed then Inr (changed, sessionIDs, db) else Inr (True, sessionIDs, db')))"

definition ReplaceDesktopIdentity ::
    "(nat \<Rightarrow> nat \<Rightarrow> bool) \<Rightarrow> string \<Rightarrow> DesktopIdentity \<Rightarrow> time \<Rightarrow> string \<Rightarrow> desktop_db \<Rightarrow>
     (string list \<times> desktop_db) result" where
  "ReplaceDesktopIdentity binds previousID replacement at reason db =
     bindR (validateDesktopIdentity replacement) (\<lambda>_.
     if previousID = [] \<or> isZero at \<or> reason = []
     then Inl (ErrMsg ''invalid desktop identity replacement'')
     else
       bindR (revokeDesktopIdentityTx (id_HomeID replacement) previousID reason at db) (\<lambda>(sessionIDs, changed, db1).
       if \<not> changed then Inl ErrNotFound
       else bindR (insertDesktopIdentity binds replacement db1) (\<lambda>db2. Inr (sessionIDs, db2))))"

text \<open>The columns a refresh overwrites.\<close>

definition refreshedRow :: "DesktopIdentity \<Rightarrow> DesktopIdentity \<Rightarrow> DesktopIdentity" where
  "refreshedRow n i =
     i\<lparr>id_UserID := id_UserID n, id_DeviceID := id_DeviceID n, id_AgentID := id_AgentID n,
       id_PublicKeySPKI := id_PublicKeySPKI n, id_Certificate := id_Certificate n,
       id_Fingerprint := id_Fingerprint n, id_Capabilities := id_Capabilities n,
       id_TrustRootGeneration := id_TrustRootGeneration n, id_CreatedAt := id_CreatedAt n,
       id_ExpiresAt := id_ExpiresAt n, id_RevokedAt := None, id_RevocationReason := [],
       id_AuthSessionID := id_AuthSessionID n\<rparr>"

definition RefreshDesktopIdentity ::
    "string \<Rightarrow> DesktopIdentity \<Rightarrow> time \<Rightarrow> string \<Rightarrow> desktop_db \<Rightarrow> (string list \<times> desktop_db) result" where
  "RefreshDesktopIdentity previousID replacement at reason db =
     bindR (validateDesktopIdentity replacement) (\<lambda>_.
     if previousID = [] \<or> id_ID replacement \<noteq> previousID \<or> isZero at \<or> reason = []
     then Inl (ErrMsg ''invalid desktop identity refresh'')
     else
       bindR (revokeDesktopIdentityTx (id_HomeID replacement) previousID reason at db) (\<lambda>(sessionIDs, changed, db1).
       if \<not> changed then Inl ErrNotFound
       else
         bindR (updateIdentities (\<lambda>i. id_HomeID i = id_HomeID replacement \<and> id_ID i = previousID)
                  (refreshedRow replacement) db1) (\<lambda>db2. Inr (sessionIDs, db2))))"

section \<open>Recovery\<close>

definition ReplaceDesktopRecoveryEnvelope ::
    "string \<Rightarrow> int \<Rightarrow> bytes \<Rightarrow> time \<Rightarrow> desktop_db \<Rightarrow> desktop_db result" where
  "ReplaceDesktopRecoveryEnvelope homeID generation envelope rotatedAt db =
     (if blank homeID \<or> generation \<le> 0 \<or> envelope = [] \<or> isZero rotatedAt
      then Inl (ErrMsg ''invalid desktop recovery envelope replacement'')
      else
        let P = (\<lambda>r. tr_HomeID r = homeID \<and> tr_Generation r = generation) in
        bindR (updateTrust P (\<lambda>r. r\<lparr>tr_RecoveryEnvelope := envelope, tr_RotatedAt := Some rotatedAt\<rparr>) db) (\<lambda>db'.
        if filter P (trust_roots db) = [] then Inl (ErrConflict ''desktop trust generation changed'')
        else Inr db'))"

definition IssueDesktopRecoveryChallenge :: "string \<Rightarrow> bytes \<Rightarrow> time \<Rightarrow> desktop_db \<Rightarrow> desktop_db result" where
  "IssueDesktopRecoveryChallenge homeID challengeHash expiresAt db =
     (if blank homeID \<or> challengeHash = [] \<or> isZero expiresAt
      then Inl (ErrMsg ''invalid desktop recovery challenge'')
      else
        let P = (\<lambda>r. tr_HomeID r = homeID) in
        bindR (updateTrust P (\<lambda>r. r\<lparr>recovery_challenge_hash := Some challengeHash,
                 recovery_challenge_expires_at := Some expiresAt, recovery_challenge_consumed_at := None\<rparr>) db) (\<lambda>db'.
        if filter P (trust_roots db) = [] then Inl ErrNotFound else Inr db'))"

definition challengeOpen :: "string \<Rightarrow> int \<Rightarrow> bytes \<Rightarrow> time \<Rightarrow> desktop_trust_roots_row \<Rightarrow> bool" where
  "challengeOpen homeID generation challengeHash now r \<longleftrightarrow>
     tr_HomeID r = homeID \<and> tr_Generation r = generation \<and> recovery_challenge_hash r = Some challengeHash
     \<and> recovery_challenge_consumed_at r = None
     \<and> (case recovery_challenge_expires_at r of None \<Rightarrow> False | Some t \<Rightarrow> t > now)"

definition ConsumeDesktopRecoveryChallengeAndCreateOperator ::
    "(nat \<Rightarrow> nat \<Rightarrow> bool) \<Rightarrow> string \<Rightarrow> int \<Rightarrow> bytes \<Rightarrow> time \<Rightarrow> DesktopIdentity \<Rightarrow> desktop_db \<Rightarrow> desktop_db result" where
  "ConsumeDesktopRecoveryChallengeAndCreateOperator binds homeID generation challengeHash now op db =
     (if blank homeID \<or> generation \<le> 0 \<or> challengeHash = [] \<or> isZero now
      then Inl (ErrMsg ''invalid desktop recovery challenge consumption'')
      else
        bindR (validateDesktopIdentity op) (\<lambda>_.
        if id_IdentityType op \<noteq> OperatorDevice \<or> id_HomeID op \<noteq> homeID \<or> id_TrustRootGeneration op \<noteq> generation
        then Inl (ErrMsg ''recovered operator does not match desktop trust scope'')
        else
          let P = challengeOpen homeID generation challengeHash now in
          bindR (updateTrust P (\<lambda>r. r\<lparr>recovery_challenge_consumed_at := Some now\<rparr>) db) (\<lambda>db1.
          if filter P (trust_roots db) = []
          then Inl (ErrConflict ''recovery challenge is invalid, expired, or consumed'')
          else insertDesktopIdentity binds op db1)))"

section \<open>Replacing the trust root\<close>

definition replacedRoot :: "DesktopTrustRoot \<Rightarrow> time \<Rightarrow> desktop_trust_roots_row \<Rightarrow> desktop_trust_roots_row" where
  "replacedRoot root at r =
     r\<lparr>tr_Generation := tr_Generation root, tr_Algorithm := tr_Algorithm root,
       tr_PublicKeySPKI := tr_PublicKeySPKI root, tr_Fingerprint := tr_Fingerprint root,
       tr_RecoveryEnvelope := tr_RecoveryEnvelope root, recovery_challenge_hash := None,
       recovery_challenge_expires_at := None, recovery_challenge_consumed_at := None,
       tr_RotatedAt := Some at\<rparr>"

definition replaceDesktopTrust ::
    "(nat \<Rightarrow> nat \<Rightarrow> bool) \<Rightarrow> DesktopTrustRoot \<Rightarrow> DesktopIdentity \<Rightarrow> time \<Rightarrow> string \<Rightarrow> desktop_db \<Rightarrow> desktop_db result" where
  "replaceDesktopTrust binds root op at reason db =
     bindR (validateDesktopTrustRoot root) (\<lambda>_.
     bindR (validateDesktopIdentity op) (\<lambda>_.
     if id_IdentityType op \<noteq> OperatorDevice \<or> id_HomeID op \<noteq> tr_HomeID root
        \<or> id_TrustRootGeneration op \<noteq> tr_Generation root \<or> isZero at \<or> blank reason
     then Inl (ErrMsg ''replacement desktop trust scope is invalid'')
     else
       (case findTrust db (tr_HomeID root) of
          None \<Rightarrow> Inl ErrNotFound
        | Some current \<Rightarrow>
            if tr_Generation root \<noteq> tr_Generation current + 1
            then Inl (ErrConflict ''desktop trust generation must advance by one'')
            else
              let inScope = (\<lambda>s. s_HomeID s = tr_HomeID root) in
              bindR (revokeIdentities (\<lambda>i. id_HomeID i = tr_HomeID root) reason at db) (\<lambda>db1.
              bindR (terminateSessions inScope reason at db1) (\<lambda>db2.
              bindR (revokeCredentialsOf inScope at db2) (\<lambda>db3.
              let db4 = db3\<lparr>pending_enrollments := filter (\<lambda>r. pn_HomeID r \<noteq> tr_HomeID root) (pending_enrollments db3)\<rparr> in
              bindR (updateTrust (\<lambda>r. tr_HomeID r = tr_HomeID root) (replacedRoot root at) db4) (\<lambda>db5.
              insertDesktopIdentity binds op db5)))))))"

definition RotateDesktopTrust ::
    "(nat \<Rightarrow> nat \<Rightarrow> bool) \<Rightarrow> DesktopTrustRoot \<Rightarrow> DesktopIdentity \<Rightarrow> time \<Rightarrow> string \<Rightarrow> desktop_db \<Rightarrow> desktop_db result" where
  "RotateDesktopTrust = replaceDesktopTrust"

definition ResetDesktopTrust ::
    "(nat \<Rightarrow> nat \<Rightarrow> bool) \<Rightarrow> DesktopTrustRoot \<Rightarrow> DesktopIdentity \<Rightarrow> time \<Rightarrow> string \<Rightarrow> desktop_db \<Rightarrow> desktop_db result" where
  "ResetDesktopTrust = replaceDesktopTrust"

section \<open>Enrollment challenges and the server-managed authority\<close>

definition CreateDesktopEnrollmentChallenge :: "DesktopEnrollmentChallenge \<Rightarrow> desktop_db \<Rightarrow> desktop_db result" where
  "CreateDesktopEnrollmentChallenge v db =
     (if blank (ch_ID v) \<or> blank (ch_HomeID v) \<or> blank (ch_UserID v) \<or> blank (ch_SessionID v)
         \<or> (ch_Purpose v \<noteq> ''browser_operator'' \<and> ch_Purpose v \<noteq> ''mac_agent'')
         \<or> blank (ch_InstallationID v) \<or> length (ch_ChallengeHash v) \<noteq> 32 \<or> isZero (ch_CreatedAt v)
         \<or> \<not> ch_ExpiresAt v > ch_CreatedAt v
      then Inl (ErrMsg ''invalid desktop enrollment challenge'')
      else if list_ex (\<lambda>r. ch_ID r = ch_ID v \<or> ch_ChallengeHash r = ch_ChallengeHash v) (enrollment_challenges db)
      then Inl errUnique
      else if ch_HomeID v \<notin> set (homes db) \<or> ch_UserID v \<notin> set (users db) \<or> ch_SessionID v \<notin> set (app_sessions db)
      then Inl errForeign
      else Inr (db\<lparr>enrollment_challenges := enrollment_challenges db @ [v\<lparr>ch_ConsumedAt := None\<rparr>]\<rparr>))"

definition enrollmentOpen ::
    "string \<Rightarrow> string \<Rightarrow> string \<Rightarrow> string \<Rightarrow> string \<Rightarrow> string \<Rightarrow> bytes \<Rightarrow> time \<Rightarrow> DesktopEnrollmentChallenge \<Rightarrow> bool" where
  "enrollmentOpen cid homeID userID sessionID purpose installationID challengeHash now r \<longleftrightarrow>
     ch_ID r = cid \<and> ch_HomeID r = homeID \<and> ch_UserID r = userID \<and> ch_SessionID r = sessionID
     \<and> ch_Purpose r = purpose \<and> ch_InstallationID r = installationID \<and> ch_ChallengeHash r = challengeHash
     \<and> ch_ConsumedAt r = None \<and> ch_ExpiresAt r > now"

text \<open>The update is committed by itself, before the number of affected rows is looked at.\<close>

definition ConsumeDesktopEnrollmentChallenge ::
    "string \<Rightarrow> string \<Rightarrow> string \<Rightarrow> string \<Rightarrow> string \<Rightarrow> string \<Rightarrow> bytes \<Rightarrow> time \<Rightarrow> desktop_db \<Rightarrow> unit result \<times> desktop_db" where
  "ConsumeDesktopEnrollmentChallenge cid homeID userID sessionID purpose installationID challengeHash now db =
     (if blank cid \<or> length challengeHash \<noteq> 32
      then (Inl (ErrMsg ''invalid desktop enrollment challenge''), db)
      else
        let P = enrollmentOpen cid homeID userID sessionID purpose installationID challengeHash now;
            db' = db\<lparr>enrollment_challenges :=
                    map (\<lambda>r. if P r then r\<lparr>ch_ConsumedAt := Some now\<rparr> else r) (enrollment_challenges db)\<rparr> in
        (if length (filter P (enrollment_challenges db)) \<noteq> 1 then Inl ErrNotFound else Inr (), db'))"

text \<open>
  What \<open>EnsureServerManagedDesktopTrust\<close> uses of the secret box, of \<open>crypto/x509\<close> and of the random
  source: \<open>generatedKey\<close> is a fresh P-256 key with its public and private encodings, and
  \<open>parseECPrivateKey\<close> gives \<open>None\<close> for anything but an encoded P-256 key.
\<close>

record 'k authority_ops =
  encryptSecret :: "string \<Rightarrow> string result"
  decryptSecret :: "string \<Rightarrow> string result"
  parseECPrivateKey :: "string \<Rightarrow> 'k option"
  generatedKey :: "('k \<times> bytes \<times> string) result"
  fingerprintSPKI :: "bytes \<Rightarrow> string"

definition storedAuthority :: "'k authority_ops \<Rightarrow> DesktopTrustRoot \<Rightarrow> (DesktopTrustRoot \<times> 'k) result" where
  "storedAuthority ops root =
     bindR (decryptSecret ops (tr_EncryptedPrivateKey root)) (\<lambda>encoded.
     case parseECPrivateKey ops encoded of
       None \<Rightarrow> Inl (ErrMsg ''stored desktop authority key is invalid'')
     | Some key \<Rightarrow> Inr (root, key))"

definition authorityRoot :: "'k authority_ops \<Rightarrow> string \<Rightarrow> int \<Rightarrow> bytes \<Rightarrow> string \<Rightarrow> time \<Rightarrow> DesktopTrustRoot" where
  "authorityRoot ops homeID generation spki encrypted now =
     \<lparr>tr_HomeID = homeID, tr_Generation = generation, tr_Algorithm = DesktopTrustAlgorithm,
      tr_PublicKeySPKI = spki, tr_Fingerprint = fingerprintSPKI ops spki, tr_RecoveryEnvelope = [],
      tr_CreatedAt = now, tr_RotatedAt = None, tr_AuthorityMode = ''server_managed'',
      tr_EncryptedPrivateKey = encrypted\<rparr>"

definition migratedRoot :: "DesktopTrustRoot \<Rightarrow> time \<Rightarrow> desktop_trust_roots_row \<Rightarrow> desktop_trust_roots_row" where
  "migratedRoot root now r =
     r\<lparr>tr_Generation := tr_Generation root, tr_Algorithm := tr_Algorithm root,
       tr_PublicKeySPKI := tr_PublicKeySPKI root, tr_Fingerprint := tr_Fingerprint root,
       tr_RecoveryEnvelope := [], recovery_challenge_hash := None, recovery_challenge_expires_at := None,
       recovery_challenge_consumed_at := None, tr_RotatedAt := Some now,
       tr_AuthorityMode := ''server_managed'', tr_EncryptedPrivateKey := tr_EncryptedPrivateKey root\<rparr>"

text \<open>The transaction that migrates a home from client-managed trust.\<close>

definition migrateAuthority :: "DesktopTrustRoot \<Rightarrow> time \<Rightarrow> desktop_db \<Rightarrow> desktop_db result" where
  "migrateAuthority root now db =
     (let homeID = tr_HomeID root;
          liveIDs = map s_ID (filter (\<lambda>s. s_HomeID s = homeID \<and> live s) (sessions db)) in
      bindR (updateCredentials (\<lambda>c. c_RevokedAt c = None \<and> c_SessionID c \<in> set liveIDs)
               (\<lambda>c. c\<lparr>c_RevokedAt := Some now\<rparr>) db) (\<lambda>db1.
      bindR (terminateSessions (\<lambda>s. s_HomeID s = homeID) ''trust_authority_migrated'' now db1) (\<lambda>db2.
      bindR (revokeIdentities (\<lambda>i. id_HomeID i = homeID) ''trust_authority_migrated'' now db2) (\<lambda>db3.
      updateTrust (\<lambda>r. tr_HomeID r = homeID) (migratedRoot root now) db3))))"

text \<open>The part after the optimistic read: key generation and the transaction.\<close>

definition createAuthority ::
    "'k authority_ops \<Rightarrow> string \<Rightarrow> time \<Rightarrow> desktop_db \<Rightarrow> (DesktopTrustRoot \<times> 'k \<times> bool \<times> desktop_db) result" where
  "createAuthority ops homeID now db =
     bindR (generatedKey ops) (\<lambda>(key, spki, privateDER).
     case encryptSecret ops privateDER of
       Inl _ \<Rightarrow> Inl (ErrMsg ''desktop authority encryption is unavailable'')
     | Inr encrypted \<Rightarrow>
         if encrypted = privateDER then Inl (ErrMsg ''desktop authority encryption is unavailable'')
         else
           (case findTrust db homeID of
              None \<Rightarrow>
                let root = authorityRoot ops homeID 1 spki encrypted now in
                bindR (insertTrustRow (DesktopTrustRoot.extend root
                         (desktop_trust_roots_row.fields None None None)) db) (\<lambda>db'.
                Inr (root, key, True, db'))
            | Some r \<Rightarrow>
                if tr_AuthorityMode r = ''server_managed''
                then bindR (storedAuthority ops (DesktopTrustRoot.truncate r)) (\<lambda>(root, k). Inr (root, k, False, db))
                else
                  let root = authorityRoot ops homeID (tr_Generation r + 1) spki encrypted now in
                  bindR (migrateAuthority root now db) (\<lambda>db'. Inr (root, key, True, db'))))"

text \<open>
  \<open>db0\<close> is the database at the optimistic read, \<open>db\<close> the one the transaction runs on: another
  request may have committed in between.
\<close>

definition EnsureServerManagedDesktopTrust ::
    "'k authority_ops \<Rightarrow> string \<Rightarrow> time \<Rightarrow> desktop_db \<Rightarrow> desktop_db \<Rightarrow>
     (DesktopTrustRoot \<times> 'k \<times> bool \<times> desktop_db) result" where
  "EnsureServerManagedDesktopTrust ops homeID now db0 db =
     (if blank homeID then Inl (ErrMsg ''desktop home is required'')
      else
        (case GetDesktopTrustRoot homeID db0 of
           Inr existing \<Rightarrow>
             if tr_AuthorityMode existing = ''server_managed''
             then bindR (storedAuthority ops existing) (\<lambda>(root, k). Inr (root, k, False, db))
             else createAuthority ops homeID now db
         | Inl e \<Rightarrow> if isNotFound e then createAuthority ops homeID now db else Inl e))"

section \<open>The invariant of the desktop tables\<close>

definition trust_inv :: "desktop_db \<Rightarrow> bool" where
  "trust_inv db \<longleftrightarrow>
     store_inv {} db \<and> identities_unique (identities db) \<and> distinct (map tr_HomeID (trust_roots db))"

definition same_sessions :: "desktop_db \<Rightarrow> desktop_db \<Rightarrow> bool" where
  "same_sessions db db' \<longleftrightarrow>
     sessions db' = sessions db \<and> credentials db' = credentials db \<and> events db' = events db"

definition same_trust :: "desktop_db \<Rightarrow> desktop_db \<Rightarrow> bool" where
  "same_trust db db' \<longleftrightarrow> identities db' = identities db \<and> trust_roots db' = trust_roots db"

lemma store_inv_same: "same_sessions db db' \<Longrightarrow> store_inv X db \<Longrightarrow> store_inv X db'"
  by (simp add: store_inv_def same_sessions_def)

lemma updateIdentities_Inr_iff:
  "updateIdentities P f db = Inr db' \<longleftrightarrow>
     (\<forall>r \<in> set (identities db). P r \<longrightarrow> identity_checks (f r))
     \<and> identities_unique (map (\<lambda>r. if P r then f r else r) (identities db))
     \<and> list_all (identity_fks db) (map (\<lambda>r. if P r then f r else r) (identities db))
     \<and> list_all (session_identity_fk (map (\<lambda>r. if P r then f r else r) (identities db))) (sessions db)
     \<and> db' = db\<lparr>identities := map (\<lambda>r. if P r then f r else r) (identities db)\<rparr>"
  unfolding updateIdentities_def by (auto simp: bindR_Inr_iff updateWhere_Inr_iff)

lemma updateIdentities_frame:
  assumes "updateIdentities P f db = Inr db'"
  shows "same_sessions db db'" "trust_roots db' = trust_roots db" "identities_unique (identities db')"
  using assms by (auto simp: updateIdentities_Inr_iff same_sessions_def)

lemma insertIdentityRow_frame:
  assumes "insertIdentityRow i db = Inr db'"
  shows "same_sessions db db'" "trust_roots db' = trust_roots db" "identities_unique (identities db')"
  using assms by (auto simp: insertIdentityRow_def same_sessions_def split: if_splits)

lemma updateTrust_frame:
  assumes "updateTrust P f db = Inr db'" "\<And>r. tr_HomeID (f r) = tr_HomeID r"
  shows "same_sessions db db'" "identities db' = identities db"
    "map tr_HomeID (trust_roots db') = map tr_HomeID (trust_roots db)"
  using assms by (auto simp: updateTrust_def bindR_Inr_iff updateWhere_Inr_iff same_sessions_def)

lemma insertTrustRow_frame:
  assumes "insertTrustRow r db = Inr db'"
  shows "same_sessions db db'" "identities db' = identities db" "trust_roots db' = trust_roots db @ [r]"
    "tr_HomeID r \<notin> tr_HomeID ` set (trust_roots db)"
  using assms by (auto simp: insertTrustRow_def same_sessions_def list_ex_iff split: if_splits)

lemma updateSessions_frame: "updateSessions P f db = Inr db' \<Longrightarrow> same_trust db db'"
  by (auto simp: updateSessions_Inr_iff same_trust_def)

lemma updateCredentials_frame: "updateCredentials P f db = Inr db' \<Longrightarrow> same_trust db db'"
  by (auto simp: updateCredentials_Inr_iff same_trust_def)

lemma appendEvents_frame:
  "appendEvents es db = Inr db' \<Longrightarrow>
     sessions db' = sessions db \<and> credentials db' = credentials db \<and> same_trust db db'"
proof (induction es db rule: appendEvents.induct)
  case (1 db)
  then show ?case by (simp add: same_trust_def)
next
  case (2 e es db)
  then obtain db1 where 1: "appendDesktopSessionEvent e db = Inr db1" and r: "appendEvents es db1 = Inr db'"
    by (auto simp: bindR_Inr_iff)
  with 2(1) [OF r] appendEvent_frame [OF 1] show ?case by (simp add: same_trust_def)
qed

lemma appendEvents_inv: "appendEvents es db = Inr db' \<Longrightarrow> store_inv X db \<Longrightarrow> store_inv X db'"
  by (induction es db rule: appendEvents.induct) (auto simp: bindR_Inr_iff intro: appendEvent_inv)

section \<open>Cutting off a scope\<close>

text \<open>
  A revocation terminates the live sessions in a scope and closes the credentials of every session
  in it. The laws hold for each scope that the termination of a session does not change; the scopes
  of the code are a home, an operator device within a home and an agent within a home.
\<close>

locale session_scope =
  fixes inScope :: "DesktopSession \<Rightarrow> bool"
  assumes scope_stable: "inScope (terminatedRow reason at r) = inScope r"
begin

lemma terminate_sessions:
  assumes "terminateSessions inScope reason at db = Inr db1"
  shows "s \<in> set (sessions db1) \<Longrightarrow> inScope s \<Longrightarrow> \<not> live s"
    and "s \<in> set (sessions db) \<Longrightarrow> \<not> inScope s \<Longrightarrow> s \<in> set (sessions db1)"
  using assms by (auto simp: terminateSessions_def updateSessions_Inr_iff terminatedRow_def live_def liveStates_def
      split: if_splits)

lemma terminate_stale:
  assumes "db_inv db" "terminateSessions inScope reason at db = Inr db1"
  shows "store_inv (s_ID ` {s \<in> set (sessions db). inScope s}) db1"
  using assms(1) assms(2) [unfolded terminateSessions_def]
  by (rule updateSessions_inv) (auto simp: terminatedRow_def live_def liveStates_def)

lemma terminate_ids:
  assumes "terminateSessions inScope reason at db = Inr db1" "s \<in> set (sessions db)" "inScope s"
  shows "list_ex (\<lambda>r. s_ID r = s_ID s \<and> inScope r) (sessions db1)"
proof -
  let ?g = "\<lambda>r. if inScope r \<and> live r then terminatedRow reason at r else r"
  have "?g s \<in> set (sessions db1)"
    using assms(1,2) by (auto simp: terminateSessions_def updateSessions_Inr_iff)
  moreover have "s_ID (?g s) = s_ID s" "inScope (?g s)"
    using assms(3) scope_stable by (auto simp: terminatedRow_def)
  ultimately show ?thesis by (auto simp: list_ex_iff)
qed

lemma cut_off:
  assumes inv: "db_inv db" and ter: "terminateSessions inScope reason at db = Inr db1"
    and rev: "revokeCredentialsOf inScope at db1 = Inr db2"
  shows "db_inv db2" "sessions db2 = sessions db1" "same_trust db db2"
    "s \<in> set (sessions db2) \<Longrightarrow> inScope s \<Longrightarrow> c \<in> set (credentials db2) \<Longrightarrow> c_SessionID c = s_ID s \<Longrightarrow> \<not> open_cred c"
proof -
  show "db_inv db2"
    using terminate_stale [OF inv ter] rev [unfolded revokeCredentialsOf_def]
    by (rule revokeOpen_inv) (use terminate_ids [OF ter] in auto)
  show same: "sessions db2 = sessions db1"
    using revokeOpen_sessions [OF rev [unfolded revokeCredentialsOf_def]] by simp
  show "same_trust db db2"
    using updateSessions_frame [OF ter [unfolded terminateSessions_def]]
      updateCredentials_frame [OF rev [unfolded revokeCredentialsOf_def revokeOpenCredentials_def]]
    by (simp add: same_trust_def)
  assume c: "s \<in> set (sessions db2)" "inScope s" "c \<in> set (credentials db2)" "c_SessionID c = s_ID s"
  show "\<not> open_cred c"
    by (rule revokeOpen_closed [OF rev [unfolded revokeCredentialsOf_def] c(3)])
      (use c same in \<open>auto simp: list_ex_iff\<close>)
qed

end

interpretation home_scope: session_scope "\<lambda>s. s_HomeID s = homeID" for homeID
  by unfold_locales (simp add: terminatedRow_def)

interpretation operator_scope: session_scope
  "\<lambda>s. s_HomeID s = homeID \<and> s_OperatorDeviceIdentityID s = identityID" for homeID identityID
  by unfold_locales (simp add: terminatedRow_def)

interpretation agent_scope: session_scope "\<lambda>s. s_HomeID s = homeID \<and> s_AgentID s = agentID" for homeID agentID
  by unfold_locales (simp add: terminatedRow_def)

lemma scope_of_identity:
  "desktopIdentitySessionScope t identityID agentID = Inr scope \<Longrightarrow>
     session_scope (\<lambda>s. s_HomeID s = homeID \<and> scope s)"
  by (auto simp: desktopIdentitySessionScope_def split: if_splits
      intro: operator_scope.session_scope_axioms agent_scope.session_scope_axioms)

section \<open>Every operation keeps the invariant\<close>

lemma revoke_tx_steps:
  assumes "revokeDesktopIdentityTx homeID identityID reason at db = Inr (ids, True, db')"
  obtains i scope db1 db2 db3 where
    "i \<in> set (identities db)" "id_HomeID i = homeID" "id_ID i = identityID" "id_RevokedAt i = None"
    "desktopIdentitySessionScope (id_IdentityType i) identityID (id_AgentID i) = Inr scope"
    "ids = map s_ID (filter (\<lambda>s. (s_HomeID s = homeID \<and> scope s) \<and> live s) (sessions db))"
    "revokeIdentities (\<lambda>i. id_HomeID i = homeID \<and> id_ID i = identityID) reason at db = Inr db1"
    "appendEvents (map (revocationEvent reason at) ids) db1 = Inr db2"
    "terminateSessions (\<lambda>s. s_HomeID s = homeID \<and> scope s) reason at db2 = Inr db3"
    "revokeCredentialsOf (\<lambda>s. s_HomeID s = homeID \<and> scope s) at db3 = Inr db'"
proof (cases "find (\<lambda>i. id_HomeID i = homeID \<and> id_ID i = identityID \<and> id_RevokedAt i = None) (identities db)")
  case None
  then show ?thesis using assms by (simp add: revokeDesktopIdentityTx_def)
next
  case (Some i)
  then have i: "i \<in> set (identities db)" "id_HomeID i = homeID" "id_ID i = identityID" "id_RevokedAt i = None"
    by (auto simp: find_Some_iff)
  show ?thesis
    using assms Some by (auto simp: revokeDesktopIdentityTx_def result_simps intro!: that [OF i])
qed

lemma revoke_tx_unchanged:
  "revokeDesktopIdentityTx homeID identityID reason at db = Inr (ids, False, db') \<Longrightarrow> db' = db"
  by (auto simp: revokeDesktopIdentityTx_def result_simps split: option.splits)

lemma revoke_tx_inv:
  assumes inv: "trust_inv db" and run: "revokeDesktopIdentityTx homeID identityID reason at db = Inr (ids, True, db')"
  shows "trust_inv db'"
proof (rule revoke_tx_steps [OF run])
  fix i scope db1 db2 db3
  assume sc: "desktopIdentitySessionScope (id_IdentityType i) identityID (id_AgentID i) = Inr scope"
    and 1: "revokeIdentities (\<lambda>i. id_HomeID i = homeID \<and> id_ID i = identityID) reason at db = Inr db1"
    and 2: "appendEvents (map (revocationEvent reason at) ids) db1 = Inr db2"
    and 3: "terminateSessions (\<lambda>s. s_HomeID s = homeID \<and> scope s) reason at db2 = Inr db3"
    and 4: "revokeCredentialsOf (\<lambda>s. s_HomeID s = homeID \<and> scope s) at db3 = Inr db'"
  have "db_inv db" using inv by (simp add: trust_inv_def)
  with updateIdentities_frame(1) [OF 1 [unfolded revokeIdentities_def]] have "db_inv db1" by (rule store_inv_same)
  with 2 have i2: "db_inv db2" by (rule appendEvents_inv)
  note cut = session_scope.cut_off [OF scope_of_identity [OF sc] i2 3 4]
  have "same_trust db1 db'"
    using cut(3) appendEvents_frame [OF 2] by (simp add: same_trust_def)
  then show ?thesis
    using cut(1) updateIdentities_frame(2,3) [OF 1 [unfolded revokeIdentities_def]] inv
    by (simp add: trust_inv_def same_trust_def)
qed

lemma trust_inv_intro:
  "same_sessions db db' \<Longrightarrow> trust_roots db' = trust_roots db \<Longrightarrow> identities_unique (identities db') \<Longrightarrow>
   trust_inv db \<Longrightarrow> trust_inv db'"
  by (auto simp: trust_inv_def intro: store_inv_same)

lemma session_op_trust_inv: "trust_inv db \<Longrightarrow> db_inv db' \<Longrightarrow> same_trust db db' \<Longrightarrow> trust_inv db'"
  by (simp add: trust_inv_def same_trust_def)

lemma insertIdentity_inv: "trust_inv db \<Longrightarrow> insertIdentityRow i db = Inr db' \<Longrightarrow> trust_inv db'"
  by (rule trust_inv_intro [OF insertIdentityRow_frame])

lemma updateIdentities_inv: "trust_inv db \<Longrightarrow> updateIdentities P f db = Inr db' \<Longrightarrow> trust_inv db'"
  by (rule trust_inv_intro [OF updateIdentities_frame])

lemma updateTrust_inv:
  assumes "trust_inv db" "updateTrust P f db = Inr db'" "\<And>r. tr_HomeID (f r) = tr_HomeID r"
  shows "trust_inv db'"
  using assms(1) updateTrust_frame [OF assms(2,3)]
  by (simp add: trust_inv_def store_inv_same)

lemma RevokeDesktopIdentity_inv:
  "trust_inv db \<Longrightarrow> RevokeDesktopIdentity homeID identityID reason at db = Inr (changed, ids, db') \<Longrightarrow> trust_inv db'"
  by (auto simp: RevokeDesktopIdentity_def result_simps split: if_splits intro: revoke_tx_inv)

lemma RefreshDesktopIdentity_inv:
  "trust_inv db \<Longrightarrow> RefreshDesktopIdentity prev n at reason db = Inr (ids, db') \<Longrightarrow> trust_inv db'"
  by (auto simp: RefreshDesktopIdentity_def result_simps split: if_splits
      intro: updateIdentities_inv [OF revoke_tx_inv])

lemma CreateDesktopIdentity_inv: "trust_inv db \<Longrightarrow> CreateDesktopIdentity binds i db = Inr db' \<Longrightarrow> trust_inv db'"
  by (auto simp: CreateDesktopIdentity_def result_simps intro: insertIdentity_inv)

lemma ReplaceDesktopIdentity_inv:
  "trust_inv db \<Longrightarrow> ReplaceDesktopIdentity binds prev n at reason db = Inr (ids, db') \<Longrightarrow> trust_inv db'"
  by (auto simp: ReplaceDesktopIdentity_def insertDesktopIdentity_def result_simps split: if_splits
      intro: insertIdentity_inv [OF revoke_tx_inv])

lemma insertTrust_inv: "trust_inv db \<Longrightarrow> insertTrustRow r db = Inr db' \<Longrightarrow> trust_inv db'"
  using insertTrustRow_frame [of r db db'] by (auto simp: trust_inv_def intro: store_inv_same)

lemma BootstrapDesktopTrust_inv: "trust_inv db \<Longrightarrow> BootstrapDesktopTrust binds root op db = Inr db' \<Longrightarrow> trust_inv db'"
  by (auto simp: BootstrapDesktopTrust_def insertDesktopTrustRoot_def insertDesktopIdentity_def result_simps
      intro: insertIdentity_inv [OF insertTrust_inv])

lemma recovery_inv:
  "trust_inv db \<Longrightarrow> ReplaceDesktopRecoveryEnvelope homeID g env at db = Inr db' \<Longrightarrow> trust_inv db'"
  "trust_inv db \<Longrightarrow> IssueDesktopRecoveryChallenge homeID hash expires db = Inr db' \<Longrightarrow> trust_inv db'"
  "trust_inv db \<Longrightarrow> ConsumeDesktopRecoveryChallengeAndCreateOperator binds homeID g hash now op db = Inr db' \<Longrightarrow> trust_inv db'"
  by (auto simp: ReplaceDesktopRecoveryEnvelope_def IssueDesktopRecoveryChallenge_def
      ConsumeDesktopRecoveryChallengeAndCreateOperator_def insertDesktopIdentity_def result_simps
      intro: updateTrust_inv insertIdentity_inv [OF updateTrust_inv])

lemma replaceDesktopTrust_inv:
  assumes inv: "trust_inv db" and run: "replaceDesktopTrust binds root op at reason db = Inr db'"
  shows "trust_inv db'"
proof -
  let ?in = "\<lambda>s. s_HomeID s = tr_HomeID root"
  obtain db1 db2 db3 db5 where 1: "revokeIdentities (\<lambda>i. id_HomeID i = tr_HomeID root) reason at db = Inr db1"
    and 2: "terminateSessions ?in reason at db1 = Inr db2" and 3: "revokeCredentialsOf ?in at db2 = Inr db3"
    and 4: "updateTrust (\<lambda>r. tr_HomeID r = tr_HomeID root) (replacedRoot root at)
      (db3\<lparr>pending_enrollments := filter (\<lambda>r. pn_HomeID r \<noteq> tr_HomeID root) (pending_enrollments db3)\<rparr>) = Inr db5"
    and 5: "insertIdentityRow (op\<lparr>id_AuthSessionID := []\<rparr>) db5 = Inr db'"
    using run unfolding replaceDesktopTrust_def insertDesktopIdentity_def
    by (auto simp: result_simps split: option.splits if_splits)
  have i1: "trust_inv db1" by (rule updateIdentities_inv [OF inv 1 [unfolded revokeIdentities_def]])
  then have "db_inv db1" by (simp add: trust_inv_def)
  note cut = home_scope.cut_off [OF this 2 3]
  have "trust_inv db3" by (rule session_op_trust_inv [OF i1 cut(1,3)])
  then have "trust_inv (db3\<lparr>pending_enrollments := filter (\<lambda>r. pn_HomeID r \<noteq> tr_HomeID root) (pending_enrollments db3)\<rparr>)"
    by (simp add: trust_inv_def store_inv_def)
  then have "trust_inv db5" using 4 by (rule updateTrust_inv) (simp add: replacedRoot_def)
  then show ?thesis using 5 by (rule insertIdentity_inv)
qed

lemma store_inv_closed:
  "store_inv X db \<Longrightarrow> (\<And>c. c \<in> set (credentials db) \<Longrightarrow> c_SessionID c \<in> X \<Longrightarrow> \<not> open_cred c) \<Longrightarrow> db_inv db"
  unfolding store_inv_def creds_current_def by blast

lemma migrate_steps:
  assumes "migrateAuthority root now db = Inr db'"
  obtains db1 db2 db3 where
    "updateCredentials (\<lambda>c. c_RevokedAt c = None \<and> c_SessionID c \<in> s_ID ` {s \<in> set (sessions db). s_HomeID s = tr_HomeID root \<and> live s})
       (\<lambda>c. c\<lparr>c_RevokedAt := Some now\<rparr>) db = Inr db1"
    "terminateSessions (\<lambda>s. s_HomeID s = tr_HomeID root) ''trust_authority_migrated'' now db1 = Inr db2"
    "revokeIdentities (\<lambda>i. id_HomeID i = tr_HomeID root) ''trust_authority_migrated'' now db2 = Inr db3"
    "updateTrust (\<lambda>r. tr_HomeID r = tr_HomeID root) (migratedRoot root now) db3 = Inr db'"
  using assms unfolding migrateAuthority_def by (auto simp: result_simps)

lemma migrate_sessions:
  assumes inv: "db_inv db"
    and 1: "updateCredentials (\<lambda>c. c_RevokedAt c = None \<and> c_SessionID c \<in> s_ID ` {s \<in> set (sessions db). s_HomeID s = homeID \<and> live s})
       (\<lambda>c. c\<lparr>c_RevokedAt := Some now\<rparr>) db = Inr db1"
    and 2: "terminateSessions (\<lambda>s. s_HomeID s = homeID) reason now db1 = Inr db2"
  shows "db_inv db2 \<and> same_trust db db2 \<and> (\<forall>c \<in> set (credentials db2). \<forall>s \<in> set (sessions db2).
     s_HomeID s = homeID \<longrightarrow> c_SessionID c = s_ID s \<longrightarrow> \<not> open_cred c)"
proof -
  let ?X = "s_ID ` {s \<in> set (sessions db). s_HomeID s = homeID}"
  have i1: "db_inv db1"
    using inv 1 by (rule updateCredentials_inv) (simp_all add: open_cred_def)
  have s1: "sessions db1 = sessions db" using updateCredentials_sessions [OF 1] by simp
  have ids: "distinct (map s_ID (sessions db))"
    using inv sessions_okD(1) unfolding store_inv_def by blast
  have closed: "\<not> open_cred c" if c: "c \<in> set (credentials db1)" "c_SessionID c \<in> ?X" for c
  proof
    assume o: "open_cred c"
    then have "has_current (sessions db) c"
      using i1 c(1) unfolding store_inv_def creds_current_def s1 by blast
    then obtain s where s: "s \<in> set (sessions db)" "s_ID s = c_SessionID c" "live s" unfolding has_current_def by blast
    obtain r where r: "r \<in> set (sessions db)" "s_ID r = c_SessionID c" "s_HomeID r = homeID" using c(2) by auto
    have "inj_on s_ID (set (sessions db))" using ids by (simp add: distinct_map)
    then have "s = r" using s(1,2) r(1,2) by (simp add: inj_on_def)
    then have "c_SessionID c \<in> s_ID ` {s \<in> set (sessions db). s_HomeID s = homeID \<and> live s}"
      using s r by (auto intro: rev_image_eqI)
    with o c(1) 1 show False by (auto simp: updateCredentials_Inr_iff open_cred_def split: if_splits)
  qed
  have c2: "credentials db2 = credentials db1"
    using 2 by (auto simp: terminateSessions_def updateSessions_Inr_iff)
  have "db_inv db2"
    by (rule store_inv_closed [OF home_scope.terminate_stale [OF i1 2]]) (use closed c2 s1 in auto)
  moreover have "same_trust db db2"
    using updateCredentials_frame [OF 1] updateSessions_frame [OF 2 [unfolded terminateSessions_def]]
    by (simp add: same_trust_def)
  moreover have "\<not> open_cred c" if c: "c \<in> set (credentials db2)" and s: "s \<in> set (sessions db2)" "s_HomeID s = homeID" "c_SessionID c = s_ID s"
    for c s
  proof (rule closed)
    show "c \<in> set (credentials db1)" using c c2 by simp
    have "\<exists>r \<in> set (sessions db). s_ID r = s_ID s \<and> s_HomeID r = s_HomeID s"
      using s(1) 2 by (auto simp: terminateSessions_def updateSessions_Inr_iff terminatedRow_def s1 split: if_splits)
    then show "c_SessionID c \<in> ?X" using s(2,3) by (auto intro: rev_image_eqI)
  qed
  ultimately show ?thesis by blast
qed

lemma migrateAuthority_inv:
  assumes inv: "trust_inv db" and run: "migrateAuthority root now db = Inr db'"
  shows "trust_inv db'"
proof (rule migrate_steps [OF run])
  fix db1 db2 db3
  assume 1: "updateCredentials (\<lambda>c. c_RevokedAt c = None \<and> c_SessionID c \<in> s_ID ` {s \<in> set (sessions db). s_HomeID s = tr_HomeID root \<and> live s})
       (\<lambda>c. c\<lparr>c_RevokedAt := Some now\<rparr>) db = Inr db1"
    and 2: "terminateSessions (\<lambda>s. s_HomeID s = tr_HomeID root) ''trust_authority_migrated'' now db1 = Inr db2"
    and 3: "revokeIdentities (\<lambda>i. id_HomeID i = tr_HomeID root) ''trust_authority_migrated'' now db2 = Inr db3"
    and 4: "updateTrust (\<lambda>r. tr_HomeID r = tr_HomeID root) (migratedRoot root now) db3 = Inr db'"
  have "db_inv db" using inv by (simp add: trust_inv_def)
  from migrate_sessions [OF this 1 2] have "trust_inv db2" using session_op_trust_inv [OF inv] by blast
  then have "trust_inv db3" by (rule updateIdentities_inv [OF _ 3 [unfolded revokeIdentities_def]])
  then show ?thesis using 4 by (rule updateTrust_inv) (simp add: migratedRoot_def)
qed

lemma create_cases:
  assumes run: "createAuthority ops homeID now db = Inr (root, key, created, db')"
  shows "(\<not> created \<and> db' = db)
    \<or> (created \<and> findTrust db homeID = None \<and>
       insertTrustRow (DesktopTrustRoot.extend root (desktop_trust_roots_row.fields None None None)) db = Inr db')
    \<or> (created \<and> tr_HomeID root = homeID \<and> migrateAuthority root now db = Inr db' \<and>
       (\<exists>r. findTrust db homeID = Some r \<and> tr_Generation root = tr_Generation r + 1 \<and> tr_AuthorityMode r \<noteq> ''server_managed''))"
proof (cases "findTrust db homeID")
  case None
  then show ?thesis using run unfolding createAuthority_def by (auto simp: result_simps)
next
  case (Some r)
  then show ?thesis using run unfolding createAuthority_def
    by (cases "tr_AuthorityMode r = ''server_managed''") (auto simp: result_simps authorityRoot_def)
qed

lemma ensure_cases:
  assumes run: "EnsureServerManagedDesktopTrust ops homeID now db0 db = Inr (root, key, created, db')"
  shows "(\<not> created \<and> db' = db) \<or> createAuthority ops homeID now db = Inr (root, key, created, db')"
  using run unfolding EnsureServerManagedDesktopTrust_def
  by (cases "GetDesktopTrustRoot homeID db0") (auto simp: bindR_Inr_iff split: if_splits)

lemma EnsureServerManagedDesktopTrust_inv:
  assumes "trust_inv db" "EnsureServerManagedDesktopTrust ops homeID now db0 db = Inr (root, key, created, db')"
  shows "trust_inv db'"
  using ensure_cases [OF assms(2)] create_cases [of ops homeID now db root key created db'] assms(1)
  by (auto intro: insertTrust_inv migrateAuthority_inv)

section \<open>The store as a transition system\<close>

definition empty_store :: "desktop_db \<Rightarrow> bool" where
  "empty_store db \<longleftrightarrow> sessions db = [] \<and> credentials db = [] \<and> events db = [] \<and> identities db = [] \<and> trust_roots db = []"

text \<open>
  One step is one committed operation, in whatever order requests, the expiry timer and the
  pruning job interleave them. The key type of the authority is fixed to strings here.
\<close>

inductive store_step :: "desktop_db \<Rightarrow> desktop_db \<Rightarrow> bool" where
  create: "CreateDesktopSession json s b a e db = Inr db' \<Longrightarrow> store_step db db'"
| transition: "TransitionDesktopSession json sid froms next reason at e db = Inr (out, db') \<Longrightarrow> store_step db db'"
| reconnect: "BeginDesktopReconnect json sid epoch until b a e db = Inr (out, db') \<Longrightarrow> store_step db db'"
| transport_lost: "MarkDesktopTransportLost json sid epoch until e db = Inr (out, db') \<Longrightarrow> store_step db db'"
| consume: "ConsumeDesktopJoinCredential hash side sid epoch now db = Inr (c, db') \<Longrightarrow> store_step db db'"
| add_bytes: "AddDesktopRelayBytes sid n m db = Inr db' \<Longrightarrow> store_step db db'"
| append_event: "AppendDesktopSessionEvent json e db = Inr db' \<Longrightarrow> store_step db db'"
| expire: "ExpireDesktopSessions now db = Inr (k, db') \<Longrightarrow> store_step db db'"
| prune: "PruneDesktopState cb eb sb db = (counts, db') \<Longrightarrow> store_step db db'"
| upsert_pending: "UpsertDesktopPendingEnrollment jsonb v db = Inr db' \<Longrightarrow> store_step db db'"
| delete_pending: "store_step db (DeleteDesktopPendingEnrollment homeID agentID db)"
| delete_pending_home: "DeleteDesktopPendingEnrollmentsForHome homeID db = Inr db' \<Longrightarrow> store_step db db'"
| bootstrap: "BootstrapDesktopTrust binds root op db = Inr db' \<Longrightarrow> store_step db db'"
| create_identity: "CreateDesktopIdentity binds i db = Inr db' \<Longrightarrow> store_step db db'"
| revoke_identity: "RevokeDesktopIdentity homeID identityID reason at db = Inr (changed, ids, db') \<Longrightarrow> store_step db db'"
| replace_identity: "ReplaceDesktopIdentity binds prev i at reason db = Inr (ids, db') \<Longrightarrow> store_step db db'"
| refresh_identity: "RefreshDesktopIdentity prev i at reason db = Inr (ids, db') \<Longrightarrow> store_step db db'"
| replace_envelope: "ReplaceDesktopRecoveryEnvelope homeID g envelope at db = Inr db' \<Longrightarrow> store_step db db'"
| issue_challenge: "IssueDesktopRecoveryChallenge homeID hash expires db = Inr db' \<Longrightarrow> store_step db db'"
| recover: "ConsumeDesktopRecoveryChallengeAndCreateOperator binds homeID g hash now op db = Inr db' \<Longrightarrow> store_step db db'"
| rotate: "RotateDesktopTrust binds root op at reason db = Inr db' \<Longrightarrow> store_step db db'"
| reset: "ResetDesktopTrust binds root op at reason db = Inr db' \<Longrightarrow> store_step db db'"
| create_enrollment: "CreateDesktopEnrollmentChallenge v db = Inr db' \<Longrightarrow> store_step db db'"
| consume_enrollment:
    "ConsumeDesktopEnrollmentChallenge cid homeID userID sessionID purpose inst hash now db = (r, db') \<Longrightarrow> store_step db db'"
| ensure: "EnsureServerManagedDesktopTrust (ops :: string authority_ops) homeID now db0 db = Inr (root, key, created, db') \<Longrightarrow>
    store_step db db'"

lemma statement_frames:
  "insertSessionRow s db = Inr db' \<Longrightarrow> same_trust db db'"
  "insertDesktopJoinCredential c db = Inr db' \<Longrightarrow> same_trust db db'"
  "appendDesktopSessionEvent e db = Inr db' \<Longrightarrow> same_trust db db'"
  "revokeOpenCredentials inScope at db = Inr db' \<Longrightarrow> same_trust db db'"
  by (auto simp: insertSessionRow_def insertDesktopJoinCredential_def same_trust_def appendEvent_frame
      revokeOpenCredentials_def updateCredentials_Inr_iff split: if_splits)

lemma same_trust_refl [simp]: "same_trust db db"
  by (simp add: same_trust_def)

lemma same_trust_trans: "same_trust db db1 \<Longrightarrow> same_trust db1 db2 \<Longrightarrow> same_trust db db2"
  by (simp add: same_trust_def)

lemmas frames = statement_frames updateSessions_frame updateCredentials_frame

lemma create_frame: "CreateDesktopSession json s b a e db = Inr db' \<Longrightarrow> same_trust db db'"
  unfolding CreateDesktopSession_def
  by (clarsimp simp: result_simps) (blast intro: same_trust_trans dest: frames)

lemma transition_frame: "TransitionDesktopSession json sid froms next reason at e db = Inr (out, db') \<Longrightarrow> same_trust db db'"
proof (erule transition_steps)
  fix s db1 db2
  assume 1: "updateSessions (\<lambda>r. s_ID r = sid) (transitioned s next reason at) db = Inr db1"
    and 2: "(if isTerminalDesktopState next then revokeOpenCredentials (\<lambda>x. x = sid) at db1 else Inr db1) = Inr db2"
    and 3: "appendDesktopSessionEvent e db2 = Inr db'"
  have "same_trust db1 db2" using 2 by (auto split: if_splits dest: frames)
  with frames(5) [OF 1] frames(3) [OF 3] show ?thesis by (blast intro: same_trust_trans)
qed

lemma reconnect_frame: "BeginDesktopReconnect json sid epoch until b a e db = Inr (out, db') \<Longrightarrow> same_trust db db'"
proof (erule reconnect_steps)
  fix s db1 db2 db3 db4
  assume 1: "updateSessions (\<lambda>r. s_ID r = sid)
      (\<lambda>r. r\<lparr>s_State := Reconnecting, s_KeyEpoch := epoch + 1, s_ReconnectExpiresAt := Some until\<rparr>) db = Inr db1"
    and 2: "revokeOpenCredentials (\<lambda>x. x = sid) (c_CreatedAt b) db1 = Inr db2"
    and 3: "insertDesktopJoinCredential (b\<lparr>c_SessionID := sid\<rparr>) db2 = Inr db3"
    and 4: "insertDesktopJoinCredential (a\<lparr>c_SessionID := sid\<rparr>) db3 = Inr db4"
    and 5: "appendDesktopSessionEvent e db4 = Inr db'"
  show ?thesis using frames(5) [OF 1] frames(4) [OF 2] frames(2) [OF 3] frames(2) [OF 4] frames(3) [OF 5]
    by (simp add: same_trust_def)
qed

lemma transport_lost_frame: "MarkDesktopTransportLost json sid epoch until e db = Inr (out, db') \<Longrightarrow> same_trust db db'"
  unfolding MarkDesktopTransportLost_def
  by (clarsimp simp: result_simps) (blast intro: same_trust_trans dest: frames)

lemma consume_frame: "ConsumeDesktopJoinCredential hash side sid epoch now db = Inr (c, db') \<Longrightarrow> same_trust db db'"
  by (erule consume_steps) (blast intro: same_trust_trans dest: frames)

lemma small_frames:
  "AddDesktopRelayBytes sid n m db = Inr db' \<Longrightarrow> same_trust db db'"
  "AppendDesktopSessionEvent json e db = Inr db' \<Longrightarrow> same_trust db db'"
  "expireOne now sid reason db = Inr db' \<Longrightarrow> same_trust db db'"
  unfolding AddDesktopRelayBytes_def AppendDesktopSessionEvent_def expireOne_def
  by (clarsimp simp: result_simps, blast intro: same_trust_trans dest: frames)+

lemma expire_frame: "ExpireDesktopSessions now db = Inr (k, db') \<Longrightarrow> same_trust db db'"
proof -
  have "expireLoop now xs db = Inr db' \<Longrightarrow> same_trust db db'" for xs
    by (induction now xs db rule: expireLoop.induct)
      (auto simp: bindR_Inr_iff intro: same_trust_trans dest: small_frames)
  then show "ExpireDesktopSessions now db = Inr (k, db') \<Longrightarrow> same_trust db db'"
    by (auto simp: ExpireDesktopSessions_def result_simps)
qed

lemma prune_frame: "PruneDesktopState cb eb sb db = (counts, db') \<Longrightarrow> same_trust db db'"
  by (auto simp: PruneDesktopState_def Let_def same_trust_def)

lemma enrollment_frames:
  "UpsertDesktopPendingEnrollment jsonb v db = Inr db' \<Longrightarrow> same_sessions db db' \<and> same_trust db db'"
  "DeleteDesktopPendingEnrollmentsForHome homeID db = Inr db' \<Longrightarrow> same_sessions db db' \<and> same_trust db db'"
  "CreateDesktopEnrollmentChallenge v' db = Inr db' \<Longrightarrow> same_sessions db db' \<and> same_trust db db'"
  "ConsumeDesktopEnrollmentChallenge cid homeID userID sessionID purpose inst hash now db = (r, db') \<Longrightarrow>
     same_sessions db db' \<and> same_trust db db'"
  by (auto simp: UpsertDesktopPendingEnrollment_def DeleteDesktopPendingEnrollmentsForHome_def
      CreateDesktopEnrollmentChallenge_def ConsumeDesktopEnrollmentChallenge_def Let_def same_sessions_def
      same_trust_def split: if_splits)

lemma same_all_inv: "trust_inv db \<Longrightarrow> same_sessions db db' \<and> same_trust db db' \<Longrightarrow> trust_inv db'"
  by (auto simp: trust_inv_def same_trust_def intro: store_inv_same)

lemma delete_pending_same:
  "same_sessions db (DeleteDesktopPendingEnrollment homeID agentID db)
   \<and> same_trust db (DeleteDesktopPendingEnrollment homeID agentID db)"
  by (simp add: DeleteDesktopPendingEnrollment_def same_sessions_def same_trust_def)

lemma trust_inv_store: "trust_inv db \<Longrightarrow> db_inv db"
  by (simp add: trust_inv_def)

lemma store_step_inv:
  assumes step: "store_step db db'" and inv: "trust_inv db"
  shows "trust_inv db'"
  using step
proof cases
  case create
  show ?thesis by (rule session_op_trust_inv [OF inv CreateDesktopSession_inv [OF trust_inv_store [OF inv] create] create_frame [OF create]])
next
  case transition
  show ?thesis by (rule session_op_trust_inv [OF inv TransitionDesktopSession_inv [OF trust_inv_store [OF inv] transition] transition_frame [OF transition]])
next
  case reconnect
  show ?thesis by (rule session_op_trust_inv [OF inv BeginDesktopReconnect_inv [OF trust_inv_store [OF inv] reconnect] reconnect_frame [OF reconnect]])
next
  case transport_lost
  show ?thesis by (rule session_op_trust_inv [OF inv MarkDesktopTransportLost_inv [OF trust_inv_store [OF inv] transport_lost] transport_lost_frame [OF transport_lost]])
next
  case consume
  show ?thesis by (rule session_op_trust_inv [OF inv ConsumeDesktopJoinCredential_inv [OF trust_inv_store [OF inv] consume] consume_frame [OF consume]])
next
  case add_bytes
  show ?thesis by (rule session_op_trust_inv [OF inv AddDesktopRelayBytes_inv [OF trust_inv_store [OF inv] add_bytes] small_frames(1) [OF add_bytes]])
next
  case append_event
  show ?thesis by (rule session_op_trust_inv [OF inv AppendDesktopSessionEvent_inv [OF trust_inv_store [OF inv] append_event] small_frames(2) [OF append_event]])
next
  case expire
  show ?thesis by (rule session_op_trust_inv [OF inv ExpireDesktopSessions_inv [OF trust_inv_store [OF inv] expire] expire_frame [OF expire]])
next
  case prune
  show ?thesis by (rule session_op_trust_inv [OF inv PruneDesktopState_inv [OF trust_inv_store [OF inv] prune] prune_frame [OF prune]])
next
  case upsert_pending
  show ?thesis by (rule same_all_inv [OF inv enrollment_frames(1) [OF upsert_pending]])
next
  case delete_pending
  show ?thesis unfolding delete_pending by (rule same_all_inv [OF inv delete_pending_same])
next
  case delete_pending_home
  show ?thesis by (rule same_all_inv [OF inv enrollment_frames(2) [OF delete_pending_home]])
next
  case bootstrap
  show ?thesis by (rule BootstrapDesktopTrust_inv [OF inv bootstrap])
next
  case create_identity
  show ?thesis by (rule CreateDesktopIdentity_inv [OF inv create_identity])
next
  case revoke_identity
  show ?thesis by (rule RevokeDesktopIdentity_inv [OF inv revoke_identity])
next
  case replace_identity
  show ?thesis by (rule ReplaceDesktopIdentity_inv [OF inv replace_identity])
next
  case refresh_identity
  show ?thesis by (rule RefreshDesktopIdentity_inv [OF inv refresh_identity])
next
  case replace_envelope
  show ?thesis by (rule recovery_inv(1) [OF inv replace_envelope])
next
  case issue_challenge
  show ?thesis by (rule recovery_inv(2) [OF inv issue_challenge])
next
  case recover
  show ?thesis by (rule recovery_inv(3) [OF inv recover])
next
  case rotate
  show ?thesis by (rule replaceDesktopTrust_inv [OF inv rotate [unfolded RotateDesktopTrust_def]])
next
  case reset
  show ?thesis by (rule replaceDesktopTrust_inv [OF inv reset [unfolded ResetDesktopTrust_def]])
next
  case create_enrollment
  show ?thesis by (rule same_all_inv [OF inv enrollment_frames(3) [OF create_enrollment]])
next
  case consume_enrollment
  show ?thesis by (rule same_all_inv [OF inv enrollment_frames(4) [OF consume_enrollment]])
next
  case ensure
  show ?thesis by (rule EnsureServerManagedDesktopTrust_inv [OF inv ensure])
qed

interpretation desktop_store: invariant_system empty_store store_step trust_inv
proof unfold_locales
  show "trust_inv db" if "empty_store db" for db
    using that by (simp add: empty_store_def trust_inv_def store_inv_def sessions_ok_def creds_current_def
        events_ok_def identities_unique_def)
  show "trust_inv db'" if "trust_inv db" "store_step db db'" for db db'
    using that by (blast intro: store_step_inv)
qed

section \<open>Properties\<close>

text \<open>C2: in every database the store operations can reach, in any interleaving, an agent has at most
  one live session, a join credential is open only for a live session and its current key epoch, and
  no two events of a session share a sequence number.\<close>

theorem reachable_store_safe:
  assumes "reachable empty_store store_step db"
  shows "(\<forall>s r. s \<in> set (sessions db) \<and> r \<in> set (sessions db) \<and> live s \<and> live r \<and> s_AgentID s = s_AgentID r \<longrightarrow> s = r)
    \<and> (\<forall>c. c \<in> set (credentials db) \<and> open_cred c \<longrightarrow>
         (\<exists>s \<in> set (sessions db). s_ID s = c_SessionID c \<and> live s \<and> s_KeyEpoch s = c_KeyEpoch c))
    \<and> distinct (map (\<lambda>e. (e_SessionID e, e_Sequence e)) (events db))"
proof -
  have inv: "db_inv db" using desktop_store.reachable_inv [OF assms] by (rule trust_inv_store)
  then have ok: "sessions_ok (sessions db)" by (simp add: store_inv_def)
  have "s = r" if "s \<in> set (sessions db)" "r \<in> set (sessions db)" "live s" "live r" "s_AgentID s = s_AgentID r" for s r
  proof -
    have "s_ID s = s_ID r" using that by (rule sessions_okD(3) [OF ok])
    then show ?thesis using sessions_okD(1) [OF ok] that(1,2) by (simp add: distinct_map inj_on_def)
  qed
  then show ?thesis
    using inv by (auto simp: store_inv_def creds_current_def has_current_def events_ok_def)
qed

text \<open>The sessions an identity stands for: those on its agent, or those of its operator device.\<close>

definition bound_to :: "DesktopIdentity \<Rightarrow> DesktopSession \<Rightarrow> bool" where
  "bound_to i s \<longleftrightarrow> s_HomeID s = id_HomeID i
     \<and> (if id_IdentityType i = Endpoint then s_AgentID s = id_AgentID i else s_OperatorDeviceIdentityID s = id_ID i)"

lemma scope_bound_to:
  "desktopIdentitySessionScope (id_IdentityType i) (id_ID i) (id_AgentID i) = Inr scope \<Longrightarrow>
     (s_HomeID s = id_HomeID i \<and> scope s) = bound_to i s"
  by (auto simp: desktopIdentitySessionScope_def bound_to_def split: if_splits)

lemma revokeIdentities_rows:
  "revokeIdentities P reason at db = Inr db1 \<Longrightarrow>
     identities db1 = map (\<lambda>i. if P i \<and> id_RevokedAt i = None
       then i\<lparr>id_RevokedAt := Some at, id_RevocationReason := reason\<rparr> else i) (identities db)"
  by (simp add: revokeIdentities_def updateIdentities_Inr_iff)

lemma revoked_rows:
  assumes "revokeIdentities (\<lambda>i. id_HomeID i = homeID \<and> id_ID i = identityID) reason at db = Inr db1"
    "identities_unique (identities db)" "i \<in> set (identities db)" "id_HomeID i = homeID" "id_ID i = identityID"
    "id_RevokedAt i = None" "j \<in> set (identities db1)" "id_ID j = identityID"
  shows "id_RevokedAt j = Some at"
proof -
  let ?P = "\<lambda>i. (id_HomeID i = homeID \<and> id_ID i = identityID) \<and> id_RevokedAt i = None"
  obtain k where k: "k \<in> set (identities db)"
      "j = (if ?P k then k\<lparr>id_RevokedAt := Some at, id_RevocationReason := reason\<rparr> else k)"
    using assms(7) revokeIdentities_rows [OF assms(1)] by auto
  have "id_ID k = identityID" using k(2) assms(8) by (auto split: if_splits)
  then have "k = i" using assms(2,3,5) k(1) by (simp add: identities_unique_def distinct_map inj_on_def)
  then show ?thesis using k(2) assms(4-6) by simp
qed



text \<open>The server-managed authority is created once: if the transaction finds one, nothing changes,
  whatever the optimistic read saw; if it finds client-managed trust, the generation advances by one,
  every identity of the home is revoked, and no session of the home stays live or joinable.\<close>

theorem ensure_authority_migrates_once:
  assumes "trust_inv db" "EnsureServerManagedDesktopTrust ops homeID now db0 db = Inr (root, key, created, db')"
  shows "(\<forall>r. findTrust db homeID = Some r \<and> tr_AuthorityMode r = ''server_managed'' \<longrightarrow> \<not> created \<and> db' = db)
    \<and> (created \<and> findTrust db homeID \<noteq> None \<longrightarrow>
         (\<exists>r. findTrust db homeID = Some r \<and> tr_Generation root = tr_Generation r + 1)
         \<and> (\<forall>i. i \<in> set (identities db') \<and> id_HomeID i = homeID \<longrightarrow> id_RevokedAt i \<noteq> None)
         \<and> (\<forall>s. s \<in> set (sessions db') \<and> s_HomeID s = homeID \<longrightarrow>
              \<not> live s \<and> (\<forall>c. c \<in> set (credentials db') \<and> c_SessionID c = s_ID s \<longrightarrow> \<not> open_cred c)))"
proof (intro conjI impI)
  show "\<forall>r. findTrust db homeID = Some r \<and> tr_AuthorityMode r = ''server_managed'' \<longrightarrow> \<not> created \<and> db' = db"
    using ensure_cases [OF assms(2)] create_cases [of ops homeID now db root key created db'] by auto
next
  assume c: "created \<and> findTrust db homeID \<noteq> None"
  then obtain r where h: "tr_HomeID root = homeID" and run: "migrateAuthority root now db = Inr db'"
    and r: "findTrust db homeID = Some r" "tr_Generation root = tr_Generation r + 1"
    using ensure_cases [OF assms(2)] create_cases [of ops homeID now db root key created db'] by auto
  show "\<exists>r. findTrust db homeID = Some r \<and> tr_Generation root = tr_Generation r + 1" using r by blast
  have both: "(\<forall>i. i \<in> set (identities db') \<and> id_HomeID i = homeID \<longrightarrow> id_RevokedAt i \<noteq> None)
      \<and> (\<forall>s. s \<in> set (sessions db') \<and> s_HomeID s = homeID \<longrightarrow>
              \<not> live s \<and> (\<forall>c. c \<in> set (credentials db') \<and> c_SessionID c = s_ID s \<longrightarrow> \<not> open_cred c))"
  proof (rule migrate_steps [OF run], unfold h)
    fix db1 db2 db3
    assume 1: "updateCredentials (\<lambda>c. c_RevokedAt c = None \<and> c_SessionID c \<in> s_ID ` {s \<in> set (sessions db). s_HomeID s = homeID \<and> live s})
         (\<lambda>c. c\<lparr>c_RevokedAt := Some now\<rparr>) db = Inr db1"
      and 2: "terminateSessions (\<lambda>s. s_HomeID s = homeID) ''trust_authority_migrated'' now db1 = Inr db2"
      and 3: "revokeIdentities (\<lambda>i. id_HomeID i = homeID) ''trust_authority_migrated'' now db2 = Inr db3"
      and 4: "updateTrust (\<lambda>r. tr_HomeID r = homeID) (migratedRoot root now) db3 = Inr db'"
    have s4: "same_sessions db2 db'" "identities db' = identities db3"
      using updateIdentities_frame(1) [OF 3 [unfolded revokeIdentities_def]]
        updateTrust_frame(1,2) [OF 4] by (simp_all add: same_sessions_def migratedRoot_def)
    have "id_RevokedAt i \<noteq> None" if i: "i \<in> set (identities db3)" and h: "id_HomeID i = homeID" for i
    proof -
      obtain k where "i = (if id_HomeID k = homeID \<and> id_RevokedAt k = None
          then k\<lparr>id_RevokedAt := Some now, id_RevocationReason := ''trust_authority_migrated''\<rparr> else k)"
        using i unfolding revokeIdentities_rows [OF 3] set_map by blast
      then show ?thesis using h by (cases "id_HomeID k = homeID \<and> id_RevokedAt k = None") simp_all
    qed
    moreover have "\<not> live s \<and> (\<forall>c. c \<in> set (credentials db2) \<and> c_SessionID c = s_ID s \<longrightarrow> \<not> open_cred c)"
      if s: "s \<in> set (sessions db2)" "s_HomeID s = homeID" for s
      using migrate_sessions [OF trust_inv_store [OF assms(1)] 1 2] home_scope.terminate_sessions(1) [OF 2 s] s by blast
    ultimately show ?thesis using s4 unfolding same_sessions_def by simp blast
  qed
  then show "\<forall>i. i \<in> set (identities db') \<and> id_HomeID i = homeID \<longrightarrow> id_RevokedAt i \<noteq> None" by blast
  show "\<forall>s. s \<in> set (sessions db') \<and> s_HomeID s = homeID \<longrightarrow>
      \<not> live s \<and> (\<forall>c. c \<in> set (credentials db') \<and> c_SessionID c = s_ID s \<longrightarrow> \<not> open_cred c)"
    using both by blast
qed

text \<open>An enrollment challenge is accepted at most once: after one successful consumption every
  further attempt with the same id or the same hash is refused.\<close>

theorem enrollment_challenge_single_use:
  assumes "distinct (map ch_ID (enrollment_challenges db))" "distinct (map ch_ChallengeHash (enrollment_challenges db))"
    and "ConsumeDesktopEnrollmentChallenge cid homeID userID sessionID purpose inst hash now db = (Inr (), db')"
    and "cid' = cid \<or> hash' = hash"
  shows "\<exists>e. fst (ConsumeDesktopEnrollmentChallenge cid' homeID' userID' sessionID' purpose' inst' hash' now' db') = Inl e"
proof -
  let ?P = "enrollmentOpen cid homeID userID sessionID purpose inst hash now"
  let ?Q = "enrollmentOpen cid' homeID' userID' sessionID' purpose' inst' hash' now'"
  have one: "length (filter ?P (enrollment_challenges db)) = 1"
    and ch: "enrollment_challenges db' =
      map (\<lambda>r. if ?P r then r\<lparr>ch_ConsumedAt := Some now\<rparr> else r) (enrollment_challenges db)"
    using assms(3) by (auto simp: ConsumeDesktopEnrollmentChallenge_def Let_def split: if_splits)
  obtain r where r: "r \<in> set (enrollment_challenges db)" "?P r"
    using one by (metis (mono_tags, lifting) filter_False length_0_conv zero_neq_one)
  have "\<not> ?Q q" if q: "q \<in> set (enrollment_challenges db')" for q
  proof
    assume Q: "?Q q"
    obtain k where k: "k \<in> set (enrollment_challenges db)" "q = (if ?P k then k\<lparr>ch_ConsumedAt := Some now\<rparr> else k)"
      using q unfolding ch by auto
    have "\<not> ?P k" using k(2) Q by (auto simp: enrollmentOpen_def)
    then have "ch_ID k = ch_ID r \<or> ch_ChallengeHash k = ch_ChallengeHash r"
      using k(2) Q r(2) assms(4) by (auto simp: enrollmentOpen_def)
    then have "k = r" using assms(1,2) k(1) r(1) by (auto simp: distinct_map inj_on_def)
    with \<open>\<not> ?P k\<close> r(2) show False by simp
  qed
  then have "filter ?Q (enrollment_challenges db') = []" by auto
  then show ?thesis by (simp add: ConsumeDesktopEnrollmentChallenge_def Let_def)
qed

section \<open>Concrete runs\<close>

definition sampleChallenge :: DesktopEnrollmentChallenge where
  "sampleChallenge = \<lparr>ch_ID = ''e1'', ch_HomeID = ''h1'', ch_UserID = ''u1'', ch_SessionID = ''as1'',
     ch_Purpose = ''mac_agent'', ch_InstallationID = ''in1'', ch_ChallengeHash = replicate 32 7,
     ch_ExpiresAt = 5000, ch_ConsumedAt = None, ch_CreatedAt = 1000\<rparr>"

theorem enrollment_challenge_single_use_witness:
  "let db = (sampleDb Active)\<lparr>enrollment_challenges := [sampleChallenge]\<rparr>;
       db' = snd (ConsumeDesktopEnrollmentChallenge ''e1'' ''h1'' ''u1'' ''as1'' ''mac_agent'' ''in1'' (replicate 32 7) 2000 db)
   in \<exists>e. fst (ConsumeDesktopEnrollmentChallenge ''e1'' ''h1'' ''u1'' ''as1'' ''mac_agent'' ''in1'' (replicate 32 7) 2001 db') = Inl e"
proof -
  let ?db = "(sampleDb Active)\<lparr>enrollment_challenges := [sampleChallenge]\<rparr>"
  have "\<exists>db'. ConsumeDesktopEnrollmentChallenge ''e1'' ''h1'' ''u1'' ''as1'' ''mac_agent'' ''in1'' (replicate 32 7) 2000 ?db = (Inr (), db')"
    by (simp add: ConsumeDesktopEnrollmentChallenge_def enrollmentOpen_def sampleChallenge_def literal_simps)
  then obtain db' where run: "ConsumeDesktopEnrollmentChallenge ''e1'' ''h1'' ''u1'' ''as1'' ''mac_agent'' ''in1'' (replicate 32 7) 2000 ?db
      = (Inr (), db')" by blast
  show ?thesis
    using enrollment_challenge_single_use [OF _ _ run, of "''e1''" "replicate 32 7" "''h1''" "''u1''" "''as1''" "''mac_agent''" "''in1''" 2001]
    by (simp add: run Let_def)
qed

lemma sample_trust_inv: "st \<in> set liveStates \<Longrightarrow> trust_inv (sampleDb st)"
  using sample_inv [of st] by (simp add: trust_inv_def identities_unique_def sampleDb_def)

lemmas trust_run_simps = revokeIdentities_def updateIdentities_def identity_checks_def identities_unique_def identity_fks_def
  session_identity_fk_def isActiveOperator_def isActiveEndpoint_def terminateSessions_def terminatedRow_def revokeCredentialsOf_def

lemma sample_revoke:
  "\<exists>db'. RevokeDesktopIdentity ''h1'' ''i1'' ''lost'' 4000 (sampleDb Active) = Inr (True, [''s1''], db')"
  by (simp add: RevokeDesktopIdentity_def revokeDesktopIdentityTx_def desktopIdentitySessionScope_def revocationEvent_def
      trust_run_simps sample_defs run_simps literal_simps)



definition sampleRoot :: desktop_trust_roots_row where
  "sampleRoot = \<lparr>tr_HomeID = ''h1'', tr_Generation = 3, tr_Algorithm = DesktopTrustAlgorithm, tr_PublicKeySPKI = [1],
     tr_Fingerprint = ''f'', tr_RecoveryEnvelope = [9], tr_CreatedAt = 100, tr_RotatedAt = None,
     tr_AuthorityMode = ''client_managed'', tr_EncryptedPrivateKey = [], recovery_challenge_hash = None,
     recovery_challenge_expires_at = None, recovery_challenge_consumed_at = None\<rparr>"

definition sampleOps :: "string authority_ops" where
  "sampleOps = \<lparr>encryptSecret = (\<lambda>s. Inr (CHR ''x'' # s)), decryptSecret = (\<lambda>s. Inr (tl s)),
     parseECPrivateKey = Some, generatedKey = Inr (''key'', [5], ''key''), fingerprintSPKI = (\<lambda>_. ''fp'')\<rparr>"

lemma sample_ensure:
  "\<exists>root key db'. EnsureServerManagedDesktopTrust sampleOps ''h1'' 4000 (sampleDb Active)
      ((sampleDb Active)\<lparr>trust_roots := [sampleRoot]\<rparr>) = Inr (root, key, True, db')"
  by (simp add: EnsureServerManagedDesktopTrust_def createAuthority_def GetDesktopTrustRoot_def findTrust_def migrateAuthority_def
      authorityRoot_def migratedRoot_def sampleOps_def sampleRoot_def updateTrust_def trust_checks_def
      trust_run_simps sample_defs run_simps literal_simps)

theorem ensure_authority_migrates_once_witness:
  "\<exists>root key db'. EnsureServerManagedDesktopTrust sampleOps ''h1'' 4000 (sampleDb Active)
      ((sampleDb Active)\<lparr>trust_roots := [sampleRoot]\<rparr>) = Inr (root, key, True, db')
    \<and> tr_Generation root = 4 \<and> (\<forall>s. s \<in> set (sessions db') \<and> s_HomeID s = ''h1'' \<longrightarrow> \<not> live s)"
proof -
  obtain root key db' where run: "EnsureServerManagedDesktopTrust sampleOps ''h1'' 4000 (sampleDb Active)
      ((sampleDb Active)\<lparr>trust_roots := [sampleRoot]\<rparr>) = Inr (root, key, True, db')"
    using sample_ensure by blast
  have f: "findTrust ((sampleDb Active)\<lparr>trust_roots := [sampleRoot]\<rparr>) ''h1'' = Some sampleRoot"
    by (simp add: findTrust_def sampleRoot_def)
  have "trust_inv (sampleDb Active)" by (rule sample_trust_inv) (simp add: liveStates_def)
  then have "trust_inv ((sampleDb Active)\<lparr>trust_roots := [sampleRoot]\<rparr>)" by (simp add: trust_inv_def store_inv_def)
  from ensure_authority_migrates_once [OF this run] run f show ?thesis by (auto simp: sampleRoot_def)
qed

definition baseDb :: desktop_db where
  "baseDb = (sampleDb Requested)\<lparr>sessions := [], credentials := [], identities := []\<rparr>"

lemma sample_create_identity:
  "CreateDesktopIdentity (=) sampleIdentity baseDb = Inr (baseDb\<lparr>identities := [sampleIdentity]\<rparr>)"
  by (simp add: CreateDesktopIdentity_def validateDesktopIdentity_def insertIdentityRow_def desktopIdentityArgs_def
      baseDb_def trust_run_simps sample_defs run_simps literal_simps)

lemma sample_create_session:
  "\<exists>db'. CreateDesktopSession (\<lambda>_. True) (sampleSession Requested)
      (sampleCredential ''c1'' Browser 1 1 1000 (1000 + seconds 30)) (sampleCredential ''c2'' Agent 2 1 1000 (1000 + seconds 30))
      (sampleEvent ''requested'') (baseDb\<lparr>identities := [sampleIdentity]\<rparr>) = Inr db'
    \<and> sessions db' = [sampleSession Requested]"
  by (simp add: CreateDesktopSession_def validateDesktopSession_def validateDesktopPermissionStrings_def
      ValidateDesktopPermissions_def validateDesktopCredentialPair_def validateDesktopJoinCredential_def
      validateDesktopEvent_def insertSessionRow_def session_fks_def insertDesktopJoinCredential_def
      baseDb_def sample_defs run_simps literal_simps)

theorem reachable_store_safe_witness:
  "\<exists>db. reachable empty_store store_step db \<and> sessions db = [sampleSession Requested]
     \<and> (\<forall>c. c \<in> set (credentials db) \<and> open_cred c \<longrightarrow> (\<exists>s \<in> set (sessions db). s_ID s = c_SessionID c \<and> live s))"
proof -
  have "reachable empty_store store_step baseDb"
    by (rule reach_init) (simp add: empty_store_def baseDb_def sampleDb_def)
  then have 1: "reachable empty_store store_step (baseDb\<lparr>identities := [sampleIdentity]\<rparr>)"
    using store_step.create_identity [OF sample_create_identity] by (rule reach_step)
  obtain db where run: "CreateDesktopSession (\<lambda>_. True) (sampleSession Requested)
      (sampleCredential ''c1'' Browser 1 1 1000 (1000 + seconds 30)) (sampleCredential ''c2'' Agent 2 1 1000 (1000 + seconds 30))
      (sampleEvent ''requested'') (baseDb\<lparr>identities := [sampleIdentity]\<rparr>) = Inr db"
    and s: "sessions db = [sampleSession Requested]"
    using sample_create_session by blast
  have "reachable empty_store store_step db"
    using 1 store_step.create [OF run] by (rule reach_step)
  with reachable_store_safe [OF this] s show ?thesis by blast
qed

end
