(* ===== verification/Relay_Pipe.thy ===== *)
theory Relay_Pipe
  imports Prelude
begin

text \<open>
  The bounded queue between the two pumps of a relay direction, \<open>desktopRelayPipe\<close> of
  \<open>internal/cloud/desktop_relay.go\<close>. The lock regions of \<open>enqueue\<close>, \<open>next\<close> and \<open>complete\<close> are
  functions on the pipe; the two wake-up channels have a buffer of one, so a channel is a boolean
  token. The step relation interleaves one reading pump (the producer) and one writing pump (the
  consumer), each with a program counter between its lock regions and channel operations.
\<close>

section \<open>The pipe\<close>

record desktopRelayPipe =
  frames :: "bytes list"
  queuedBytes :: int
  available :: bool
  space :: bool

definition newDesktopRelayPipe :: desktopRelayPipe where
  "newDesktopRelayPipe = \<lparr>frames = [], queuedBytes = 0, available = False, space = False\<rparr>"

text \<open>A send on a channel with a full buffer of one falls through to \<open>default\<close>.\<close>

definition notifyDesktopRelay :: "bool \<Rightarrow> bool" where
  "notifyDesktopRelay token = True"

text \<open>The lock region of \<open>enqueue\<close>: \<open>None\<close> means the frame has to wait.\<close>

definition tryEnqueue :: "bytes \<Rightarrow> int \<Rightarrow> desktopRelayPipe \<Rightarrow> desktopRelayPipe option" where
  "tryEnqueue payload limit pipe =
     (if queuedBytes pipe = 0 \<or> queuedBytes pipe + int (length payload) \<le> limit
      then Some (pipe\<lparr>frames := frames pipe @ [payload],
                      queuedBytes := queuedBytes pipe + int (length payload)\<rparr>)
      else None)"

text \<open>The lock region of \<open>next\<close>: the first frame and whether more are queued.\<close>

definition tryNext :: "desktopRelayPipe \<Rightarrow> (bytes \<times> bool \<times> desktopRelayPipe) option" where
  "tryNext pipe =
     (case frames pipe of [] \<Rightarrow> None
      | payload # rest \<Rightarrow> Some (payload, rest \<noteq> [], pipe\<lparr>frames := rest\<rparr>))"

definition complete :: "nat \<Rightarrow> desktopRelayPipe \<Rightarrow> desktopRelayPipe" where
  "complete n pipe =
     (let q = queuedBytes pipe - int n in pipe\<lparr>queuedBytes := (if q < 0 then 0 else q)\<rparr>)"

definition pipeBytes :: "desktopRelayPipe \<Rightarrow> int" where
  "pipeBytes pipe = queuedBytes pipe"

section \<open>The two pumps\<close>

text \<open>
  Where the reading pump is: outside \<open>enqueue\<close>, at its lock (with the \<open>backpressured\<close> flag), between
  the lock region and the notification, in the \<open>select\<close>, or returned with an error. Where the
  writing pump is: at the lock of \<open>next\<close>, in its \<open>select\<close>, before the notification for further
  frames, writing, at the lock of \<open>complete\<close>, before the notification of space, or returned.
\<close>

datatype producer = PIdle | PTry bytes bool | PNotify | PWait bytes | PFailed

datatype consumer = CTry | CWait | CNotifyMore bytes | CWrite bytes | CComplete bytes | CNotifySpace | CStopped

record pump_state =
  pipe :: desktopRelayPipe
  prod :: producer
  cons :: consumer
  accepted :: "bytes list"
  written :: "bytes list"
  backpressure :: nat

definition pump_init :: "int \<Rightarrow> int \<Rightarrow> pump_state \<Rightarrow> bool" where
  "pump_init limit maxFrame s \<longleftrightarrow> 0 \<le> limit \<and> 0 \<le> maxFrame \<and> s = \<lparr>pipe = newDesktopRelayPipe, prod = PIdle, cons = CTry, accepted = [], written = [], backpressure = 0\<rparr>"

inductive pump_step :: "int \<Rightarrow> int \<Rightarrow> pump_state \<Rightarrow> pump_state \<Rightarrow> bool" for limit maxFrame where
  offer: "prod s = PIdle \<Longrightarrow> int (length payload) \<le> maxFrame \<Longrightarrow>
    pump_step limit maxFrame s (s\<lparr>prod := PTry payload False\<rparr>)"
| admit: "prod s = PTry payload b \<Longrightarrow> tryEnqueue payload limit (pipe s) = Some p \<Longrightarrow>
    pump_step limit maxFrame s (s\<lparr>pipe := p, prod := PNotify, accepted := accepted s @ [payload]\<rparr>)"
| block: "prod s = PTry payload b \<Longrightarrow> tryEnqueue payload limit (pipe s) = None \<Longrightarrow>
    pump_step limit maxFrame s (s\<lparr>prod := PWait payload, backpressure := backpressure s + (if b then 0 else 1)\<rparr>)"
| signal: "prod s = PNotify \<Longrightarrow>
    pump_step limit maxFrame s (s\<lparr>pipe := (pipe s)\<lparr>available := notifyDesktopRelay (available (pipe s))\<rparr>, prod := PIdle\<rparr>)"
| wake: "prod s = PWait payload \<Longrightarrow> space (pipe s) \<Longrightarrow>
    pump_step limit maxFrame s (s\<lparr>pipe := (pipe s)\<lparr>space := False\<rparr>, prod := PTry payload True\<rparr>)"
| give_up: "prod s = PWait payload \<Longrightarrow> pump_step limit maxFrame s (s\<lparr>prod := PFailed\<rparr>)"
| take: "cons s = CTry \<Longrightarrow> tryNext (pipe s) = Some (payload, m, p) \<Longrightarrow>
    pump_step limit maxFrame s (s\<lparr>pipe := p, cons := (if m then CNotifyMore payload else CWrite payload)\<rparr>)"
| sleep: "cons s = CTry \<Longrightarrow> tryNext (pipe s) = None \<Longrightarrow> pump_step limit maxFrame s (s\<lparr>cons := CWait\<rparr>)"
| signal_more: "cons s = CNotifyMore payload \<Longrightarrow>
    pump_step limit maxFrame s (s\<lparr>pipe := (pipe s)\<lparr>available := notifyDesktopRelay (available (pipe s))\<rparr>, cons := CWrite payload\<rparr>)"
| resume: "cons s = CWait \<Longrightarrow> available (pipe s) \<Longrightarrow>
    pump_step limit maxFrame s (s\<lparr>pipe := (pipe s)\<lparr>available := False\<rparr>, cons := CTry\<rparr>)"
| wrote: "cons s = CWrite payload \<Longrightarrow>
    pump_step limit maxFrame s (s\<lparr>cons := CComplete payload, written := written s @ [payload]\<rparr>)"
| completed: "cons s = CComplete payload \<Longrightarrow>
    pump_step limit maxFrame s (s\<lparr>pipe := complete (length payload) (pipe s), cons := CNotifySpace\<rparr>)"
| signal_space: "cons s = CNotifySpace \<Longrightarrow>
    pump_step limit maxFrame s (s\<lparr>pipe := (pipe s)\<lparr>space := notifyDesktopRelay (space (pipe s))\<rparr>, cons := (if ok then CTry else CStopped)\<rparr>)"

section \<open>The invariant\<close>

definition totalBytes :: "bytes list \<Rightarrow> int" where "totalBytes fs = int (sum_list (map length fs))"

text \<open>The frame that has left the queue and is still counted, and the frame not yet written.\<close>

fun counted :: "consumer \<Rightarrow> bytes list" where
  "counted (CNotifyMore p) = [p]"
| "counted (CWrite p) = [p]"
| "counted (CComplete p) = [p]"
| "counted _ = []"

fun unwritten :: "consumer \<Rightarrow> bytes list" where
  "unwritten (CNotifyMore p) = [p]"
| "unwritten (CWrite p) = [p]"
| "unwritten _ = []"

fun pending_len :: "producer \<Rightarrow> int" where
  "pending_len (PTry p _) = int (length p)"
| "pending_len (PWait p) = int (length p)"
| "pending_len _ = 0"

definition pump_inv :: "int \<Rightarrow> int \<Rightarrow> pump_state \<Rightarrow> bool" where
  "pump_inv limit maxFrame s \<longleftrightarrow>
     queuedBytes (pipe s) = totalBytes (counted (cons s) @ frames (pipe s))
     \<and> queuedBytes (pipe s) \<le> max limit maxFrame
     \<and> accepted s = written s @ unwritten (cons s) @ frames (pipe s)
     \<and> pending_len (prod s) \<le> maxFrame
     \<and> (cons s = CWait \<and> frames (pipe s) \<noteq> [] \<longrightarrow> available (pipe s) \<or> prod s = PNotify)
     \<and> (\<forall>p. prod s = PWait p \<and> tryEnqueue p limit (pipe s) \<noteq> None \<longrightarrow> space (pipe s) \<or> cons s = CNotifySpace)"

lemma totalBytes_simps [simp]: "totalBytes [] = 0" "totalBytes (f # fs) = int (length f) + totalBytes fs" "totalBytes (fs @ gs) = totalBytes fs + totalBytes gs"
  by (simp_all add: totalBytes_def)

lemma totalBytes_nonneg [simp]: "0 \<le> totalBytes fs" "\<not> totalBytes fs < 0"
  by (simp_all add: totalBytes_def)

lemma pump_inv_init: "pump_init limit maxFrame s \<Longrightarrow> pump_inv limit maxFrame s"
  by (auto simp: pump_init_def pump_inv_def newDesktopRelayPipe_def)

lemma pump_inv_step:
  assumes "pump_step limit maxFrame s t" "pump_inv limit maxFrame s"
  shows "pump_inv limit maxFrame t"
  using assms
proof (cases rule: pump_step.cases)
  case (admit payload b p)
  then show ?thesis using assms(2)
    by (auto simp: pump_inv_def tryEnqueue_def split: if_splits)
next
  case (block payload b)
  then show ?thesis using assms(2) by (auto simp: pump_inv_def)
next
  case (take payload m p)
  then show ?thesis using assms(2)
    by (auto simp: pump_inv_def tryNext_def tryEnqueue_def split: list.splits)
next
  case (sleep)
  then show ?thesis using assms(2)
    by (auto simp: pump_inv_def tryNext_def split: list.splits)
next
  case (completed payload)
  then show ?thesis using assms(2)
    by (auto simp: pump_inv_def complete_def Let_def)
qed (auto simp: pump_inv_def notifyDesktopRelay_def tryEnqueue_def)

interpretation pump: invariant_system "pump_init limit maxFrame" "pump_step limit maxFrame" "pump_inv limit maxFrame"
  for limit maxFrame
  by unfold_locales (auto intro: pump_inv_init pump_inv_step)

section \<open>Properties\<close>

text \<open>C8: in every interleaving of the two pumps frames come out in the order they were accepted, none
  is lost, duplicated or invented, the byte count is exactly that of the frames not yet completed, and
  it never exceeds the larger of the queue limit and one frame.\<close>

theorem relay_pipe_fifo_bounded:
  assumes "reachable (pump_init limit maxFrame) (pump_step limit maxFrame) s"
  shows "accepted s = written s @ unwritten (cons s) @ frames (pipe s)
    \<and> queuedBytes (pipe s) = totalBytes (counted (cons s) @ frames (pipe s))
    \<and> 0 \<le> queuedBytes (pipe s) \<and> queuedBytes (pipe s) \<le> max limit maxFrame"
  using pump.reachable_inv [OF assms] by (auto simp: pump_inv_def)

text \<open>C9: no wake-up is lost: a writing pump asleep while frames are queued has a token waiting or a
  notification under way, and so does a reading pump whose frame now fits; if both pumps are asleep,
  one of them has a token, so the direction never deadlocks.\<close>

theorem relay_pipe_no_lost_wakeup:
  assumes "reachable (pump_init limit maxFrame) (pump_step limit maxFrame) s"
  shows "(cons s = CWait \<and> frames (pipe s) \<noteq> [] \<longrightarrow> available (pipe s) \<or> prod s = PNotify)
    \<and> (\<forall>p. prod s = PWait p \<and> tryEnqueue p limit (pipe s) \<noteq> None \<longrightarrow> space (pipe s) \<or> cons s = CNotifySpace)
    \<and> (\<forall>p. prod s = PWait p \<and> cons s = CWait \<longrightarrow> available (pipe s) \<or> space (pipe s))"
proof -
  have inv: "pump_inv limit maxFrame s" using pump.reachable_inv [OF assms] .
  have "available (pipe s) \<or> space (pipe s)" if w: "prod s = PWait p" "cons s = CWait" for p
  proof (cases "frames (pipe s) = []")
    case True
    then have "queuedBytes (pipe s) = 0" using inv w by (simp add: pump_inv_def)
    then have "tryEnqueue p limit (pipe s) \<noteq> None" by (simp add: tryEnqueue_def)
    then show ?thesis using inv w by (auto simp: pump_inv_def)
  next
    case False
    then show ?thesis using inv w by (auto simp: pump_inv_def)
  qed
  then show ?thesis using inv by (simp add: pump_inv_def)
qed

fun enqueueAll :: "bytes list \<Rightarrow> int \<Rightarrow> desktopRelayPipe \<Rightarrow> desktopRelayPipe option" where
  "enqueueAll [] limit p = Some p"
| "enqueueAll (f # fs) limit p = (case tryEnqueue f limit p of None \<Rightarrow> None | Some p' \<Rightarrow> enqueueAll fs limit p')"

text \<open>Frames without payload are not limited: however small the queue limit, any number of them
  is accepted while the writing pump does nothing, and the byte count stays zero.\<close>

theorem relay_pipe_empty_frames_unlimited:
  "\<exists>p. enqueueAll (replicate n []) limit newDesktopRelayPipe = Some p \<and> length (frames p) = n \<and> queuedBytes p = 0"
proof -
  have "queuedBytes q = 0 \<Longrightarrow> \<exists>p. enqueueAll (replicate n []) limit q = Some p
      \<and> length (frames p) = length (frames q) + n \<and> queuedBytes p = 0" for q
  proof (induction n arbitrary: q)
    case 0
    then show ?case by simp
  next
    case (Suc n)
    from Suc.IH [of "q\<lparr>frames := frames q @ [[]], queuedBytes := 0\<rparr>"] Suc.prems show ?case by (simp add: tryEnqueue_def)
  qed
  from this [of newDesktopRelayPipe] show ?thesis by (simp add: newDesktopRelayPipe_def)
qed

section \<open>A concrete run\<close>

definition samplePump :: pump_state where
  "samplePump = \<lparr>pipe = \<lparr>frames = [[1, 2]], queuedBytes = 2, available = False, space = False\<rparr>, prod = PNotify,
     cons = CWait, accepted = [[1, 2]], written = [], backpressure = 0\<rparr>"

lemma sample_pump_reachable: "reachable (pump_init 10 100) (pump_step 10 100) samplePump"
proof -
  let ?s0 = "\<lparr>pipe = newDesktopRelayPipe, prod = PIdle, cons = CTry, accepted = [], written = [], backpressure = 0\<rparr>"
  have "reachable (pump_init 10 100) (pump_step 10 100) ?s0"
    by (rule reach_init) (simp add: pump_init_def)
  moreover have "pump_step 10 100 ?s0 (?s0\<lparr>cons := CWait\<rparr>)"
    by (rule pump_step.sleep) (simp_all add: tryNext_def newDesktopRelayPipe_def)
  ultimately have "reachable (pump_init 10 100) (pump_step 10 100) (?s0\<lparr>cons := CWait\<rparr>)" by (rule reach_step)
  moreover have "pump_step 10 100 (?s0\<lparr>cons := CWait\<rparr>) (?s0\<lparr>cons := CWait, prod := PTry [1, 2] False\<rparr>)"
    using pump_step.offer [of "?s0\<lparr>cons := CWait\<rparr>" "[1, 2]" 100 10] by simp
  ultimately have "reachable (pump_init 10 100) (pump_step 10 100) (?s0\<lparr>cons := CWait, prod := PTry [1, 2] False\<rparr>)"
    by (rule reach_step)
  moreover have "pump_step 10 100 (?s0\<lparr>cons := CWait, prod := PTry [1, 2] False\<rparr>) samplePump"
    using pump_step.admit [of "?s0\<lparr>cons := CWait, prod := PTry [1, 2] False\<rparr>" "[1, 2]" False 10 "pipe samplePump" 100]
    by (simp add: tryEnqueue_def newDesktopRelayPipe_def samplePump_def)
  ultimately show ?thesis by (rule reach_step)
qed

theorem relay_pipe_fifo_bounded_witness:
  "reachable (pump_init 10 100) (pump_step 10 100) samplePump \<and> queuedBytes (pipe samplePump) \<le> 100"
  using relay_pipe_fifo_bounded [OF sample_pump_reachable] sample_pump_reachable by simp

theorem relay_pipe_no_lost_wakeup_witness:
  "cons samplePump = CWait \<and> frames (pipe samplePump) \<noteq> [] \<and> (available (pipe samplePump) \<or> prod samplePump = PNotify)"
  using relay_pipe_no_lost_wakeup [OF sample_pump_reachable] by (simp add: samplePump_def)

end
