(* ===== verification/Desktop_Wire.thy ===== *)
theory Desktop_Wire
  imports Complex_Main Go_Text Codec
begin

unbundle bit_operations_syntax

text \<open>
  The desktop data plane's wire format, \<open>internal/protocol/desktop_data.go\<close>: the 12-byte outer
  frame header with magic \<open>HDV1\<close>, the 8-byte inner message header, the per-type payload limits,
  the validators of the control payloads and the stream-generation state machine
  (\<open>DesktopStreamState.ApplyConfig\<close>). The theorems are the round trips of both codecs in both
  directions, the payload bounds a decoder guarantees, and that a stream's generation never
  goes back and never changes its description without advancing.
\<close>

section \<open>Constants\<close>

definition DesktopFrameBrowserHandshake :: byte where "DesktopFrameBrowserHandshake = 1"
definition DesktopFrameAgentHandshake :: byte where "DesktopFrameAgentHandshake = 2"
definition DesktopFrameEncryptedRecord :: byte where "DesktopFrameEncryptedRecord = 3"
definition DesktopInnerVersion :: byte where "DesktopInnerVersion = 1"
definition DesktopInnerOptional :: byte where "DesktopInnerOptional = 1"

definition DesktopMaxControlPayload :: nat where "DesktopMaxControlPayload = 256 * 2 ^ 10"
definition DesktopMaxVideoPayload :: nat where "DesktopMaxVideoPayload = 4 * 2 ^ 20"
definition DesktopMaxClipboardWirePayload :: nat where
  "DesktopMaxClipboardWirePayload = 6 * 2 ^ 20 + 128"
definition DesktopMaxEncryptedFramePayload :: nat where
  "DesktopMaxEncryptedFramePayload = DesktopMaxClipboardWirePayload + 64"
definition DesktopMaxQualityQueueBytes :: nat where "DesktopMaxQualityQueueBytes = 64 * 2 ^ 20"

lemmas wire_limits = DesktopMaxControlPayload_def DesktopMaxVideoPayload_def
  DesktopMaxClipboardWirePayload_def DesktopMaxEncryptedFramePayload_def

definition DesktopMessageVideoAccessUnit :: "16 word" where "DesktopMessageVideoAccessUnit = 2"
definition DesktopMessageClipboardText :: "16 word" where "DesktopMessageClipboardText = 13"

definition DesktopInnerMessageNames :: "(16 word \<times> string) list" where
  "DesktopInnerMessageNames =
     [(1, ''codec_config''), (2, ''video_access_unit''), (3, ''pointer_shape''),
      (4, ''display_inventory''), (10, ''keyboard''), (11, ''pointer''),
      (12, ''clipboard_offer''), (13, ''clipboard_text''), (14, ''display_selection''),
      (15, ''special_key''), (20, ''control_mode''), (21, ''quality''), (30, ''ping''),
      (31, ''pong''), (32, ''statistics''), (40, ''secure_state''),
      (41, ''permission_state''), (255, ''terminate'')]"

definition known_inner_type :: "16 word \<Rightarrow> bool" where
  "known_inner_type t \<longleftrightarrow> map_of DesktopInnerMessageNames t \<noteq> None"

datatype wire_error =
    ErrDesktopDataFrameInvalid
  | ErrDesktopInnerBounds
  | ErrDesktopInnerInvalid
  | ErrDesktopRequiredMessageUnknown
  | ErrDesktopDisplayInvalid
  | ErrDesktopStreamGenerationInvalid
  | ErrDesktopPointerInvalid
  | ErrDesktopKeyboardInvalid
  | ErrDesktopClipboardInvalid
  | ErrDesktopControlModeInvalid
  | ErrDesktopDisplaySelectionInvalid
  | ErrDesktopSpecialKeyInvalid
  | ErrDesktopQualityInvalid

section \<open>Outer frames\<close>

definition desktopDataMagic :: bytes where "desktopDataMagic = bytes_of ''HDV1''"

record DesktopDataFrameHeader =
  dfh_Kind :: byte
  dfh_PayloadLength :: "32 word"

record DesktopDataFrame =
  df_Kind :: byte
  df_Payload :: bytes

definition dataHeaderMarshalBinary :: "DesktopDataFrameHeader \<Rightarrow> wire_error + bytes" where
  "dataHeaderMarshalBinary h =
     (if dfh_Kind h < DesktopFrameBrowserHandshake \<or> dfh_Kind h > DesktopFrameEncryptedRecord
         \<or> unat (dfh_PayloadLength h) > DesktopMaxEncryptedFramePayload
      then Inl ErrDesktopDataFrameInvalid
      else Inr (desktopDataMagic @ [dfh_Kind h, 0, 0, 0] @ putUint32 (dfh_PayloadLength h)))"

text \<open>\<open>uint32(len(payload))\<close> truncates, as the Go conversion does.\<close>

definition EncodeDesktopDataFrame :: "byte \<Rightarrow> bytes \<Rightarrow> wire_error + bytes" where
  "EncodeDesktopDataFrame kind payload =
     (case dataHeaderMarshalBinary
             \<lparr>dfh_Kind = kind, dfh_PayloadLength = of_nat (length payload)\<rparr> of
        Inl e \<Rightarrow> Inl e
      | Inr header \<Rightarrow> Inr (header @ payload))"

definition DecodeDesktopDataFrame :: "bytes \<Rightarrow> wire_error + DesktopDataFrame" where
  "DecodeDesktopDataFrame frame =
     (if length frame < 12 \<or> take 4 frame \<noteq> desktopDataMagic
         \<or> frame ! 5 \<noteq> 0 \<or> frame ! 6 \<noteq> 0 \<or> frame ! 7 \<noteq> 0
      then Inl ErrDesktopDataFrameInvalid
      else
        let header = \<lparr>dfh_Kind = frame ! 4, dfh_PayloadLength = uint32 (take 4 (drop 8 frame))\<rparr>
        in case dataHeaderMarshalBinary header of
             Inl e \<Rightarrow> Inl ErrDesktopDataFrameInvalid
           | Inr _ \<Rightarrow>
               if unat (dfh_PayloadLength header) + 12 \<noteq> length frame
               then Inl ErrDesktopDataFrameInvalid
               else Inr \<lparr>df_Kind = dfh_Kind header, df_Payload = drop 12 frame\<rparr>)"

section \<open>Inner messages\<close>

record DesktopInnerHeader =
  ih_Version :: byte
  ih_Flags :: byte
  ih_Type :: "16 word"
  ih_PayloadLength :: "32 word"

record DesktopInnerMessage =
  im_Header :: DesktopInnerHeader
  im_Payload :: bytes
  im_UnknownOptional :: bool

definition innerLimit :: "16 word \<Rightarrow> nat" where
  "innerLimit t =
     (if t = DesktopMessageVideoAccessUnit then DesktopMaxVideoPayload
      else if t = DesktopMessageClipboardText then DesktopMaxClipboardWirePayload
      else DesktopMaxControlPayload)"

definition innerHeaderMarshalBinary :: "DesktopInnerHeader \<Rightarrow> wire_error + bytes" where
  "innerHeaderMarshalBinary h =
     (if ih_Version h \<noteq> DesktopInnerVersion \<or> ih_Flags h AND NOT DesktopInnerOptional \<noteq> 0
      then Inl ErrDesktopInnerInvalid
      else if unat (ih_PayloadLength h) > innerLimit (ih_Type h) then Inl ErrDesktopInnerBounds
      else Inr ([ih_Version h, ih_Flags h] @ putUint16 (ih_Type h) @ putUint32 (ih_PayloadLength h)))"

definition EncodeDesktopInnerMessage :: "16 word \<Rightarrow> byte \<Rightarrow> bytes \<Rightarrow> wire_error + bytes" where
  "EncodeDesktopInnerMessage messageType flags payload =
     (case innerHeaderMarshalBinary
             \<lparr>ih_Version = DesktopInnerVersion, ih_Flags = flags, ih_Type = messageType,
              ih_PayloadLength = of_nat (length payload)\<rparr> of
        Inl e \<Rightarrow> Inl e
      | Inr header \<Rightarrow>
          if \<not> known_inner_type messageType \<and> flags AND DesktopInnerOptional = 0
          then Inl ErrDesktopRequiredMessageUnknown
          else Inr (header @ payload))"

definition DecodeDesktopInnerMessage :: "bytes \<Rightarrow> wire_error + DesktopInnerMessage" where
  "DecodeDesktopInnerMessage encoded =
     (if length encoded < 8 then Inl ErrDesktopInnerInvalid
      else
        let header = \<lparr>ih_Version = encoded ! 0, ih_Flags = encoded ! 1,
                      ih_Type = uint16 (take 2 (drop 2 encoded)),
                      ih_PayloadLength = uint32 (take 4 (drop 4 encoded))\<rparr>
        in case innerHeaderMarshalBinary header of
             Inl e \<Rightarrow> Inl e
           | Inr _ \<Rightarrow>
               if unat (ih_PayloadLength header) + 8 \<noteq> length encoded
               then Inl ErrDesktopInnerBounds
               else if \<not> known_inner_type (ih_Type header)
                       \<and> ih_Flags header AND DesktopInnerOptional = 0
               then Inl ErrDesktopRequiredMessageUnknown
               else Inr \<lparr>im_Header = header, im_Payload = drop 8 encoded,
                         im_UnknownOptional = (\<not> known_inner_type (ih_Type header))\<rparr>)"

section \<open>Control payloads\<close>

text \<open>
  A \<open>float64\<close> is NaN, an infinity or a finite value; finite values are compared as rationals.
  Every comparison with NaN is false.
\<close>

datatype float64 = FNaN | FInf bool | Fin rat

fun flt :: "float64 \<Rightarrow> float64 \<Rightarrow> bool" where
  "flt FNaN _ = False"
| "flt _ FNaN = False"
| "flt (FInf neg) (FInf neg') = (neg \<and> \<not> neg')"
| "flt (FInf neg) (Fin _) = neg"
| "flt (Fin _) (FInf neg) = (\<not> neg)"
| "flt (Fin a) (Fin b) = (a < b)"

fun fle :: "float64 \<Rightarrow> float64 \<Rightarrow> bool" where
  "fle FNaN _ = False"
| "fle _ FNaN = False"
| "fle (FInf neg) (FInf neg') = (neg \<or> \<not> neg')"
| "fle (FInf neg) (Fin _) = neg"
| "fle (Fin _) (FInf neg) = (\<not> neg)"
| "fle (Fin a) (Fin b) = (a \<le> b)"

fun isNaN :: "float64 \<Rightarrow> bool" where "isNaN FNaN = True" | "isNaN _ = False"
fun isInf :: "float64 \<Rightarrow> bool" where "isInf (FInf _) = True" | "isInf _ = False"
fun fabs :: "float64 \<Rightarrow> float64" where
  "fabs FNaN = FNaN" | "fabs (FInf _) = FInf False" | "fabs (Fin a) = Fin \<bar>a\<bar>"

definition DesktopMaxWheelDelta :: float64 where "DesktopMaxWheelDelta = Fin 1000000"

record DesktopCodecConfig =
  cc_Codec :: string
  cc_Generation :: "64 word"
  cc_DisplayID :: string
  cc_Width :: int
  cc_Height :: int
  cc_Description :: string

record DesktopDisplayDescriptor =
  dd_ID :: string
  dd_Name :: string
  dd_X :: int
  dd_Y :: int
  dd_Width :: int
  dd_Height :: int
  dd_Scale :: float64
  dd_Primary :: bool
  dd_Rotation :: int

definition validateDisplayDescriptor :: "DesktopDisplayDescriptor \<Rightarrow> wire_error + unit" where
  "validateDisplayDescriptor display =
     (if dd_ID display = [] \<or> dd_Name display = [] \<or> dd_Width display \<le> 0
         \<or> dd_Height display \<le> 0 \<or> fle (dd_Scale display) (Fin 0)
         \<or> (dd_Rotation display \<noteq> 0 \<and> dd_Rotation display \<noteq> 90
            \<and> dd_Rotation display \<noteq> 180 \<and> dd_Rotation display \<noteq> 270)
      then Inl ErrDesktopDisplayInvalid else Inr ())"

record DesktopStreamState =
  ss_Generation :: "64 word"
  ss_DisplayID :: string
  ss_Codec :: string
  ss_Width :: int
  ss_Height :: int

text \<open>The method mutates its receiver only when it returns no error.\<close>

definition ApplyConfig :: "DesktopStreamState \<Rightarrow> DesktopCodecConfig \<Rightarrow> wire_error + DesktopStreamState" where
  "ApplyConfig state config =
     (if cc_Generation config = 0 \<or> cc_DisplayID config = [] \<or> cc_Width config \<le> 0
         \<or> cc_Height config \<le> 0
      then Inl ErrDesktopStreamGenerationInvalid
      else
        let changed = ss_DisplayID state \<noteq> cc_DisplayID config \<or> ss_Codec state \<noteq> cc_Codec config
                      \<or> ss_Width state \<noteq> cc_Width config \<or> ss_Height state \<noteq> cc_Height config
        in if ss_Generation state > 0
              \<and> (cc_Generation config < ss_Generation state
                 \<or> (cc_Generation config = ss_Generation state \<and> changed))
           then Inl ErrDesktopStreamGenerationInvalid
           else Inr \<lparr>ss_Generation = cc_Generation config, ss_DisplayID = cc_DisplayID config,
                     ss_Codec = cc_Codec config, ss_Width = cc_Width config,
                     ss_Height = cc_Height config\<rparr>)"

record DesktopKeyboardEvent =
  ke_Code :: string
  ke_ScanCode :: "32 word"
  ke_Location :: byte
  ke_Down :: bool
  ke_Repeat :: bool
  ke_Shift :: bool
  ke_Control :: bool
  ke_Alt :: bool
  ke_Meta :: bool
  ke_EventUnixMS :: int

definition validateKeyboardEvent :: "DesktopKeyboardEvent \<Rightarrow> wire_error + unit" where
  "validateKeyboardEvent event =
     (if ke_Code event = [] \<or> length (ke_Code event) > 64 \<or> ke_Location event > 3
         \<or> ke_EventUnixMS event < 0
      then Inl ErrDesktopKeyboardInvalid else Inr ())"

record DesktopPointerEvent =
  pe_DisplayID :: string
  pe_Generation :: "32 word"
  pe_Kind :: string
  pe_X :: float64
  pe_Y :: float64
  pe_Button :: int
  pe_Buttons :: "16 word"
  pe_WheelX :: float64
  pe_WheelY :: float64
  pe_EventUnixMS :: int

definition validatePointerEvent :: "DesktopPointerEvent \<Rightarrow> wire_error + unit" where
  "validatePointerEvent event =
     (if pe_DisplayID event = [] \<or> length (pe_DisplayID event) > 128 \<or> pe_Generation event = 0
         \<or> (pe_Kind event \<noteq> ''move'' \<and> pe_Kind event \<noteq> ''down'' \<and> pe_Kind event \<noteq> ''up''
            \<and> pe_Kind event \<noteq> ''wheel'')
         \<or> isNaN (pe_X event) \<or> isInf (pe_X event) \<or> flt (pe_X event) (Fin 0) \<or> flt (Fin 1) (pe_X event)
         \<or> isNaN (pe_Y event) \<or> isInf (pe_Y event) \<or> flt (pe_Y event) (Fin 0) \<or> flt (Fin 1) (pe_Y event)
         \<or> isNaN (pe_WheelX event) \<or> isInf (pe_WheelX event)
         \<or> flt DesktopMaxWheelDelta (fabs (pe_WheelX event))
         \<or> isNaN (pe_WheelY event) \<or> isInf (pe_WheelY event)
         \<or> flt DesktopMaxWheelDelta (fabs (pe_WheelY event))
         \<or> pe_Button event < -1 \<or> pe_Button event > 4 \<or> pe_Buttons event > 31
         \<or> pe_EventUnixMS event < 0
      then Inl ErrDesktopPointerInvalid else Inr ())"

record DesktopClipboardText =
  ct_Direction :: string
  ct_Text :: string

definition validateClipboardText :: "DesktopClipboardText \<Rightarrow> wire_error + unit" where
  "validateClipboardText value =
     (if (ct_Direction value \<noteq> ''browser_to_agent'' \<and> ct_Direction value \<noteq> ''agent_to_browser'')
         \<or> length (ct_Text value) > 2 ^ 20
      then Inl ErrDesktopClipboardInvalid else Inr ())"

record DesktopControlMode =
  cm_Enabled :: bool
  cm_FocusLease :: "64 word"

definition validateControlMode :: "DesktopControlMode \<Rightarrow> wire_error + unit" where
  "validateControlMode value =
     (if cm_Enabled value \<and> cm_FocusLease value = 0 then Inl ErrDesktopControlModeInvalid
      else Inr ())"

record DesktopDisplaySelection =
  dsel_DisplayID :: string
  dsel_Generation :: "32 word"

definition validateDisplaySelection :: "DesktopDisplaySelection \<Rightarrow> wire_error + unit" where
  "validateDisplaySelection value =
     (if dsel_DisplayID value = [] \<or> length (dsel_DisplayID value) > 128
         \<or> dsel_Generation value = 0
      then Inl ErrDesktopDisplaySelectionInvalid else Inr ())"

definition validateSpecialKey :: "string \<Rightarrow> wire_error + unit" where
  "validateSpecialKey name =
     (if name \<in> {''alt_tab'', ''windows_l'', ''ctrl_alt_delete'', ''command_space'',
                 ''command_option_escape'', ''command_control_q''}
      then Inr () else Inl ErrDesktopSpecialKeyInvalid)"

record DesktopStatistics =
  st_Frames :: "64 word"
  st_Bytes :: "64 word"
  st_RTTMS :: "32 word"
  st_DecoderQueue :: "32 word"
  st_DecodedFrames :: "64 word"
  st_DroppedFrames :: "64 word"
  st_SenderQueueBytes :: "64 word"
  st_RelayBackpressureCount :: "64 word"
  st_EncodedBitrateBPS :: "32 word"
  st_AppliedWidth :: "32 word"
  st_AppliedHeight :: "32 word"

definition validateStatistics :: "DesktopStatistics \<Rightarrow> wire_error + unit" where
  "validateStatistics value =
     (if st_RTTMS value > 300000 \<or> st_DecoderQueue value > 1000000
         \<or> unat (st_SenderQueueBytes value) > DesktopMaxQualityQueueBytes
         \<or> st_EncodedBitrateBPS value > 20000000
         \<or> st_AppliedWidth value > 16384 \<or> st_AppliedHeight value > 16384
      then Inl ErrDesktopQualityInvalid else Inr ())"


section \<open>Outer frames: round trips\<close>

lemma length_desktopDataMagic [simp]: "length desktopDataMagic = 4"
  by (simp add: desktopDataMagic_def)

lemma split_frame12:
  assumes "12 \<le> length f"
  shows "f = take 4 f @ [f ! 4, f ! 5, f ! 6, f ! 7] @ take 4 (drop 8 f) @ drop 12 f"
proof -
  have "drop 4 f = [f ! 4, f ! 5, f ! 6, f ! 7] @ drop 8 f"
    using assms
      Cons_nth_drop_Suc [of 4 f] Cons_nth_drop_Suc [of 5 f]
      Cons_nth_drop_Suc [of 6 f] Cons_nth_drop_Suc [of 7 f]
    by simp
  moreover have "drop 8 f = take 4 (drop 8 f) @ drop 12 f"
    using append_take_drop_id [of 4 "drop 8 f"] by simp
  ultimately show ?thesis
    by (metis append_assoc append_take_drop_id)
qed

definition frame_valid :: "DesktopDataFrame \<Rightarrow> bool" where
  "frame_valid fr \<longleftrightarrow> length (df_Payload fr) < 2 ^ 32"

definition encode_frame :: "DesktopDataFrame \<Rightarrow> wire_error + bytes" where
  "encode_frame fr = EncodeDesktopDataFrame (df_Kind fr) (df_Payload fr)"

lemma decode_encode_frame:
  assumes "frame_valid fr" "encode_frame fr = Inr bs"
  shows "DecodeDesktopDataFrame bs = Inr fr"
proof -
  let ?k = "df_Kind fr" and ?p = "df_Payload fr"
  have len: "unat (of_nat (length ?p) :: 32 word) = length ?p"
    using assms(1) by (simp add: frame_valid_def unat_of_nat)
  have bs: "bs = (desktopDataMagic @ [?k, 0, 0, 0]) @ putUint32 (of_nat (length ?p)) @ ?p"
    and ok: "\<exists>h. dataHeaderMarshalBinary
                 \<lparr>dfh_Kind = ?k, dfh_PayloadLength = of_nat (length ?p)\<rparr> = Inr h"
    using assms(2)
    by (auto simp: encode_frame_def EncodeDesktopDataFrame_def dataHeaderMarshalBinary_def
        split: sum.splits if_splits)
  have pre: "length (desktopDataMagic @ [?k, 0, 0, 0]) = 8" by simp
  have d8: "drop 8 bs = putUint32 (of_nat (length ?p)) @ ?p"
    unfolding bs by (rule drop_append_len [OF pre])
  have d12: "drop 12 bs = ?p"
    using arg_cong [OF d8, of "drop 4"] by simp
  have nth: "bs ! 4 = ?k" "bs ! 5 = 0" "bs ! 6 = 0" "bs ! 7 = 0" "take 4 bs = desktopDataMagic"
    by (simp_all add: bs nth_append)
  have lbs: "length bs = length ?p + 12" by (simp add: bs)
  from ok show ?thesis
    by (auto simp: DecodeDesktopDataFrame_def Let_def d8 d12 nth len lbs)
qed

lemma encode_decode_frame:
  assumes "DecodeDesktopDataFrame bs = Inr fr"
  shows "frame_valid fr \<and> encode_frame fr = Inr bs"
proof -
  let ?n = "uint32 (take 4 (drop 8 bs))"
  have long: "12 \<le> length bs" and magic: "take 4 bs = desktopDataMagic"
    and zeros: "bs ! 5 = 0" "bs ! 6 = 0" "bs ! 7 = 0"
    and hdr: "\<exists>h. dataHeaderMarshalBinary \<lparr>dfh_Kind = bs ! 4, dfh_PayloadLength = ?n\<rparr> = Inr h"
    and len: "unat ?n + 12 = length bs"
    and fr: "fr = \<lparr>df_Kind = bs ! 4, df_Payload = drop 12 bs\<rparr>"
    using assms
    by (auto simp: DecodeDesktopDataFrame_def Let_def split: if_splits sum.splits)
  have plen: "length (drop 12 bs) = unat ?n" using len by simp
  then have n: "(of_nat (length (drop 12 bs)) :: 32 word) = ?n" by simp
  have put: "putUint32 ?n = take 4 (drop 8 bs)"
    using long by (intro putUint32_uint32) simp
  have "unat ?n < 2 ^ 32" using unat_lt2p [of ?n] by simp
  then have "frame_valid fr" by (simp add: fr frame_valid_def plen del: length_drop)
  moreover have "encode_frame fr =
      Inr ((desktopDataMagic @ [bs ! 4, 0, 0, 0] @ putUint32 ?n) @ drop 12 bs)"
    using hdr
    by (auto simp: encode_frame_def EncodeDesktopDataFrame_def fr n dataHeaderMarshalBinary_def
        simp del: length_drop split: if_splits)
  moreover have "(desktopDataMagic @ [bs ! 4, 0, 0, 0] @ putUint32 ?n) @ drop 12 bs = bs"
    using split_frame12 [OF long] by (simp add: put magic zeros)
  ultimately show ?thesis by simp
qed

interpretation frame: codec encode_frame DecodeDesktopDataFrame frame_valid
  by unfold_locales (erule (1) decode_encode_frame, erule encode_decode_frame)

section \<open>Inner messages: round trips\<close>

lemma split_inner8:
  assumes "8 \<le> length f"
  shows "f = [f ! 0, f ! 1] @ take 2 (drop 2 f) @ take 4 (drop 4 f) @ drop 8 f"
proof -
  have "f = [f ! 0, f ! 1] @ drop 2 f"
  proof (cases f)
    case Nil
    with assms show ?thesis by simp
  next
    case (Cons a g)
    with assms show ?thesis by (cases g) auto
  qed
  moreover have "drop 2 f = take 2 (drop 2 f) @ drop 4 f"
    using append_take_drop_id [of 2 "drop 2 f"] by simp
  moreover have "drop 4 f = take 4 (drop 4 f) @ drop 8 f"
    using append_take_drop_id [of 4 "drop 4 f"] by simp
  ultimately show ?thesis by metis
qed

definition inner_valid :: "DesktopInnerMessage \<Rightarrow> bool" where
  "inner_valid m \<longleftrightarrow>
     ih_Version (im_Header m) = DesktopInnerVersion
     \<and> length (im_Payload m) = unat (ih_PayloadLength (im_Header m))
     \<and> im_UnknownOptional m = (\<not> known_inner_type (ih_Type (im_Header m)))"

definition encode_inner :: "DesktopInnerMessage \<Rightarrow> wire_error + bytes" where
  "encode_inner m =
     EncodeDesktopInnerMessage (ih_Type (im_Header m)) (ih_Flags (im_Header m)) (im_Payload m)"

lemma decode_encode_inner:
  assumes "inner_valid m" "encode_inner m = Inr bs"
  shows "DecodeDesktopInnerMessage bs = Inr m"
proof -
  let ?h = "im_Header m" and ?p = "im_Payload m"
  have ver: "ih_Version ?h = DesktopInnerVersion"
    and plen: "length ?p = unat (ih_PayloadLength ?h)"
    and unk: "im_UnknownOptional m = (\<not> known_inner_type (ih_Type ?h))"
    using assms(1) by (auto simp: inner_valid_def)
  have hdr: "\<lparr>ih_Version = DesktopInnerVersion, ih_Flags = ih_Flags ?h, ih_Type = ih_Type ?h,
              ih_PayloadLength = of_nat (length ?p)\<rparr> = ?h"
    using ver plen by (cases ?h) simp
  have bs: "bs = [ih_Version ?h, ih_Flags ?h] @ putUint16 (ih_Type ?h)
                 @ putUint32 (ih_PayloadLength ?h) @ ?p"
    and ok: "\<exists>x. innerHeaderMarshalBinary ?h = Inr x"
    and opt: "known_inner_type (ih_Type ?h) \<or> ih_Flags ?h AND DesktopInnerOptional \<noteq> 0"
    using assms(2) unfolding encode_inner_def EncodeDesktopInnerMessage_def hdr
    by (auto simp: innerHeaderMarshalBinary_def split: sum.splits if_splits)
  have d2: "drop 2 bs = putUint16 (ih_Type ?h) @ putUint32 (ih_PayloadLength ?h) @ ?p"
    by (simp add: bs)
  have d4: "drop 4 bs = putUint32 (ih_PayloadLength ?h) @ ?p"
    using arg_cong [OF d2, of "drop 2"] by simp
  have d8: "drop 8 bs = ?p"
    using arg_cong [OF d4, of "drop 4"] by simp
  have rd: "\<lparr>ih_Version = bs ! 0, ih_Flags = bs ! 1, ih_Type = uint16 (take 2 (drop 2 bs)),
             ih_PayloadLength = uint32 (take 4 (drop 4 bs))\<rparr> = ?h"
    unfolding d2 d4 by (simp add: bs)
  have len: "length bs = unat (ih_PayloadLength ?h) + 8" by (simp add: bs plen)
  show ?thesis
    unfolding DecodeDesktopInnerMessage_def Let_def rd
    using ok opt len unk by (auto simp: d8)
qed

lemma encode_decode_inner:
  assumes "DecodeDesktopInnerMessage bs = Inr m"
  shows "inner_valid m \<and> encode_inner m = Inr bs"
proof -
  define h where "h = \<lparr>ih_Version = bs ! 0, ih_Flags = bs ! 1,
     ih_Type = uint16 (take 2 (drop 2 bs)), ih_PayloadLength = uint32 (take 4 (drop 4 bs))\<rparr>"
  have long: "8 \<le> length bs"
    and ok: "\<exists>x. innerHeaderMarshalBinary h = Inr x"
    and len: "unat (ih_PayloadLength h) + 8 = length bs"
    and opt: "known_inner_type (ih_Type h) \<or> ih_Flags h AND DesktopInnerOptional \<noteq> 0"
    and m: "m = \<lparr>im_Header = h, im_Payload = drop 8 bs,
                 im_UnknownOptional = (\<not> known_inner_type (ih_Type h))\<rparr>"
    using assms unfolding DecodeDesktopInnerMessage_def Let_def h_def [symmetric]
    by (auto split: if_splits sum.splits)
  have ver: "ih_Version h = DesktopInnerVersion"
    using ok by (auto simp: innerHeaderMarshalBinary_def split: if_splits)
  have plen: "length (drop 8 bs) = unat (ih_PayloadLength h)" using len by simp
  have hdr: "\<lparr>ih_Version = DesktopInnerVersion, ih_Flags = ih_Flags h, ih_Type = ih_Type h,
              ih_PayloadLength = of_nat (length (drop 8 bs))\<rparr> = h"
    using ver plen by (cases h) simp
  have put: "putUint16 (ih_Type h) = take 2 (drop 2 bs)"
    "putUint32 (ih_PayloadLength h) = take 4 (drop 4 bs)"
    using long by (simp_all add: h_def putUint16_uint16 putUint32_uint32)
  have "encode_inner m =
      Inr (([ih_Version h, ih_Flags h] @ putUint16 (ih_Type h) @ putUint32 (ih_PayloadLength h))
           @ drop 8 bs)"
    using ok opt unfolding encode_inner_def EncodeDesktopInnerMessage_def m
    by (auto simp: hdr innerHeaderMarshalBinary_def simp del: length_drop split: if_splits)
  moreover have "([ih_Version h, ih_Flags h] @ putUint16 (ih_Type h)
      @ putUint32 (ih_PayloadLength h)) @ drop 8 bs = bs"
    using split_inner8 [OF long] by (simp add: put) (simp add: h_def)
  moreover have "inner_valid m"
    using ver plen by (simp add: inner_valid_def m)
  ultimately show ?thesis by simp
qed

interpretation inner: codec encode_inner DecodeDesktopInnerMessage inner_valid
  by unfold_locales (erule (1) decode_encode_inner, erule encode_decode_inner)

lemma innerLimit_le: "innerLimit t \<le> DesktopMaxClipboardWirePayload"
  by (simp add: innerLimit_def wire_limits)

lemma EncodeDesktopInnerMessage_length:
  assumes "EncodeDesktopInnerMessage t flags p = Inr m" "length p < 2 ^ 32"
  shows "length m = length p + 8 \<and> length p \<le> innerLimit t"
  using assms
  by (auto simp: EncodeDesktopInnerMessage_def innerHeaderMarshalBinary_def unat_of_nat
      split: sum.splits if_splits)

section \<open>Stream generations\<close>

fun apply_configs :: "DesktopStreamState \<Rightarrow> DesktopCodecConfig list \<Rightarrow> DesktopStreamState" where
  "apply_configs s [] = s"
| "apply_configs s (c # cs) =
     (case ApplyConfig s c of Inl _ \<Rightarrow> apply_configs s cs | Inr s' \<Rightarrow> apply_configs s' cs)"

lemma ApplyConfig_generation:
  "ApplyConfig s c = Inr s' \<Longrightarrow> ss_Generation s \<le> ss_Generation s' \<and> ss_Generation s' > 0"
  by (auto simp: ApplyConfig_def Let_def word_gt_0 split: if_splits)

lemma ApplyConfig_same_generation:
  "ApplyConfig s c = Inr s' \<Longrightarrow> ss_Generation s > 0 \<Longrightarrow> ss_Generation s' = ss_Generation s \<Longrightarrow> s' = s"
  by (cases s) (auto simp: ApplyConfig_def Let_def split: if_splits)

lemma apply_configs_mono: "ss_Generation s \<le> ss_Generation (apply_configs s cs)"
proof (induction cs arbitrary: s)
  case Nil
  show ?case by simp
next
  case (Cons c cs)
  show ?case
  proof (cases "ApplyConfig s c")
    case (Inl e)
    with Cons.IH show ?thesis by simp
  next
    case (Inr s')
    with ApplyConfig_generation [OF Inr] Cons.IH [of s'] show ?thesis by auto
  qed
qed

lemma apply_configs_same_generation:
  "ss_Generation s > 0 \<Longrightarrow> ss_Generation (apply_configs s cs) = ss_Generation s \<Longrightarrow>
     apply_configs s cs = s"
proof (induction cs arbitrary: s)
  case Nil
  show ?case by simp
next
  case (Cons c cs)
  show ?case
  proof (cases "ApplyConfig s c")
    case (Inl e)
    with Cons show ?thesis by simp
  next
    case (Inr s')
    have "ss_Generation s \<le> ss_Generation s'" and pos: "ss_Generation s' > 0"
      using ApplyConfig_generation [OF Inr] by auto
    moreover have "ss_Generation s' \<le> ss_Generation s"
      using apply_configs_mono [of s' cs] Cons.prems(2) Inr by simp
    ultimately have "ss_Generation s' = ss_Generation s" by simp
    with ApplyConfig_same_generation [OF Inr Cons.prems(1)] have "s' = s" by simp
    with Cons Inr show ?thesis by simp
  qed
qed


section \<open>Properties\<close>

text \<open>C27: the outer frame codec is exact. A byte string decodes to a frame if and only if it is the
  encoding of that frame (whose payload length fits the 32-bit field).\<close>

theorem data_frame_codec_exact:
  "DecodeDesktopDataFrame bs = Inr fr \<longleftrightarrow>
     length (df_Payload fr) < 2 ^ 32 \<and> EncodeDesktopDataFrame (df_Kind fr) (df_Payload fr) = Inr bs"
  using frame.decode_iff [of bs fr] by (simp add: frame_valid_def encode_frame_def)

text \<open>The inner message codec is exact. A byte string decodes to a message if and only if
  encoding the message's type, flags and payload gives that string, and then the message's
  version, length field and unknown-optional mark are the ones the payload and type determine.\<close>

theorem inner_message_codec_exact:
  "DecodeDesktopInnerMessage bs = Inr m \<longleftrightarrow>
     ih_Version (im_Header m) = DesktopInnerVersion
     \<and> length (im_Payload m) = unat (ih_PayloadLength (im_Header m))
     \<and> im_UnknownOptional m = (\<not> known_inner_type (ih_Type (im_Header m)))
     \<and> EncodeDesktopInnerMessage (ih_Type (im_Header m)) (ih_Flags (im_Header m)) (im_Payload m)
         = Inr bs"
  using inner.decode_iff [of bs m] by (simp add: inner_valid_def encode_inner_def conj_assoc)

text \<open>No sequence of codec configurations, accepted or refused, takes a stream's generation
  back, and as long as a started stream's generation stays the same its display, codec and size
  are unchanged.\<close>

theorem stream_generation_monotone:
  "ss_Generation s \<le> ss_Generation (apply_configs s cs)
   \<and> (ss_Generation s > 0 \<and> ss_Generation (apply_configs s cs) = ss_Generation s
      \<longrightarrow> apply_configs s cs = s)"
  using apply_configs_mono [of s cs] apply_configs_same_generation [of s cs] by blast

definition sample_stream :: DesktopStreamState where
  "sample_stream = \<lparr>ss_Generation = 3, ss_DisplayID = ''d1'', ss_Codec = ''avc'',
                    ss_Width = 800, ss_Height = 600\<rparr>"

definition sample_config :: "64 word \<Rightarrow> int \<Rightarrow> DesktopCodecConfig" where
  "sample_config g w = \<lparr>cc_Codec = ''avc'', cc_Generation = g, cc_DisplayID = ''d1'',
                        cc_Width = w, cc_Height = 600, cc_Description = []\<rparr>"

theorem stream_generation_monotone_witness:
  "apply_configs sample_stream [sample_config 2 800, sample_config 3 640] = sample_stream
   \<and> ss_Generation sample_stream > 0
   \<and> ss_Generation (apply_configs sample_stream [sample_config 4 640]) = 4"
proof -
  have gen: "ss_Generation (apply_configs sample_stream [sample_config 2 800, sample_config 3 640])
      = ss_Generation sample_stream"
    by (simp add: ApplyConfig_def sample_stream_def sample_config_def)
  have pos: "ss_Generation sample_stream > 0"
    by (simp add: sample_stream_def)
  have adv: "ss_Generation (apply_configs sample_stream [sample_config 4 640]) = 4"
    by (simp add: ApplyConfig_def sample_stream_def sample_config_def)
  show ?thesis
    using stream_generation_monotone [of sample_stream "[sample_config 2 800, sample_config 3 640]"]
      gen pos adv by blast
qed

end
