(* ===== verification/Relay.thy ===== *)
theory Relay
  imports Relay_Pipe Desktop_Wire
begin

text \<open>
  The in-process desktop relay, \<open>internal/cloud/desktop_relay.go\<close>: claims and limits, reservations,
  joins, pairing, the rate windows, failure and revocation. A relay session is a heap object: pumps,
  timers and join handlers keep a pointer to it after it has left the \<open>sessions\<close> map, and a new
  object may take its place there. The model keeps all objects in a list (an address is an index) and
  the map from session ids to addresses. Every lock region is one function on this state; endpoints
  are numbers, and the calls to the lifecycle sink and to \<open>endpoint.Close\<close> are recorded in order.
  \<open>close(session.done)\<close> panics when it is called twice: \<open>doneClosed\<close> counts the calls.
\<close>

section \<open>Limits and claims\<close>

record desktopRelayLimits =
  JoinTimeout :: duration
  ReconnectTimeout :: duration
  IdleTimeout :: duration
  MaxDuration :: duration
  SlowConsumerGrace :: duration
  MaxFrameBytes :: int
  MaxBytesPerSecond :: int
  MaxQueueBytes :: int
  MaxSessions :: int
  MaxSessionsPerHome :: int
  MaxSessionsPerAgent :: int

definition defaultDesktopRelayLimits :: desktopRelayLimits where
  "defaultDesktopRelayLimits =
     \<lparr>JoinTimeout = seconds 60, ReconnectTimeout = seconds 90, IdleTimeout = seconds 30,
      MaxDuration = hours 8, SlowConsumerGrace = seconds 4,
      MaxFrameBytes = int DesktopMaxEncryptedFramePayload + 12, MaxBytesPerSecond = 50 * 2 ^ 20,
      MaxQueueBytes = 512 * 2 ^ 10, MaxSessions = 32, MaxSessionsPerHome = 4, MaxSessionsPerAgent = 1\<rparr>"

definition validateLimits :: "desktopRelayLimits \<Rightarrow> unit result" where
  "validateLimits l =
     (if JoinTimeout l \<le> 0 \<or> ReconnectTimeout l \<le> 0 \<or> ReconnectTimeout l > seconds 90 \<or> IdleTimeout l \<le> 0
         \<or> MaxDuration l \<le> 0 \<or> MaxDuration l > hours 8 \<or> SlowConsumerGrace l \<le> 0
         \<or> SlowConsumerGrace l > seconds 10
         \<or> MaxFrameBytes l \<le> 0 \<or> MaxFrameBytes l > int DesktopMaxEncryptedFramePayload + 12
         \<or> MaxBytesPerSecond l \<le> 0 \<or> MaxBytesPerSecond l > 50 * 2 ^ 20
         \<or> MaxQueueBytes l \<le> 0 \<or> MaxQueueBytes l > 16 * 2 ^ 20 \<or> MaxSessions l \<le> 0 \<or> MaxSessions l > 32
         \<or> MaxSessionsPerHome l \<le> 0 \<or> MaxSessionsPerHome l > 4
         \<or> MaxSessionsPerAgent l \<le> 0 \<or> MaxSessionsPerAgent l > 1
      then Inl (ErrMsg ''desktop relay limits exceed the production boundary'') else Inr ())"

datatype desktopRelaySide = RelayBrowser | RelayAgent | RelayOther string

record desktopRelayJoinClaim =
  cl_SessionID :: string
  cl_HomeID :: string
  cl_Side :: desktopRelaySide
  cl_KeyEpoch :: "32 word"
  cl_AgentID :: string
  cl_HardExpiresAt :: time
  cl_Reconnect :: bool
  cl_ReconnectExpiresAt :: time

text \<open>
  \<open>wide\<close> is the verdict of \<open>unicode.IsLetter\<close> or \<open>unicode.IsDigit\<close> on runes from 128 on; on ASCII
  these are the letters and digits.
\<close>

definition validDesktopResourceID :: "(nat \<Rightarrow> bool) \<Rightarrow> string \<Rightarrow> bool" where
  "validDesktopResourceID wide v \<longleftrightarrow>
     \<not> (length v < 8 \<or> length v > 128)
     \<and> list_all (\<lambda>r. (if r < 128 then ascii_alnum r else wide r) \<or> r = 95 \<or> r = 45) (runes v)"

definition validateClaim :: "(nat \<Rightarrow> bool) \<Rightarrow> desktopRelayJoinClaim \<Rightarrow> time \<Rightarrow> unit result" where
  "validateClaim wide claim now =
     (if \<not> validDesktopResourceID wide (cl_SessionID claim) \<or> \<not> validDesktopResourceID wide (cl_HomeID claim)
         \<or> (cl_Side claim \<noteq> RelayBrowser \<and> cl_Side claim \<noteq> RelayAgent) \<or> cl_KeyEpoch claim = 0
         \<or> \<not> validDesktopResourceID wide (cl_AgentID claim) \<or> \<not> cl_HardExpiresAt claim > now
         \<or> (cl_Reconnect claim \<and> (\<not> cl_ReconnectExpiresAt claim > now
                                  \<or> cl_ReconnectExpiresAt claim > cl_HardExpiresAt claim))
         \<or> (\<not> cl_Reconnect claim \<and> \<not> isZero (cl_ReconnectExpiresAt claim))
      then Inl (ErrMsg ''invalid desktop relay join claim'') else Inr ())"

definition desktopRelayTimestampEqual :: "time \<Rightarrow> time \<Rightarrow> bool" where
  "desktopRelayTimestampEqual left right =
     (if isZero left \<or> isZero right then isZero left \<and> isZero right
      else unixMicro left = unixMicro right)"

section \<open>State\<close>

definition errDesktopRelayDuplicateSide :: error where
  "errDesktopRelayDuplicateSide = ErrMsg ''desktop relay side already connected''"

definition errDesktopRelayLimit :: error where
  "errDesktopRelayLimit = ErrMsg ''desktop relay limit exceeded''"

definition errDesktopRelayClaimMismatch :: error where
  "errDesktopRelayClaimMismatch = ErrMsg ''desktop relay claim mismatch''"

record desktopRelayLifecycleEvent =
  ev_SessionID :: string
  ev_KeyEpoch :: "32 word"
  ev_Kind :: string
  ev_Reason :: string
  ev_BrowserToAgentBytes :: int
  ev_AgentToBrowserBytes :: int

record desktopRelaySnapshot =
  sn_SessionID :: string
  sn_KeyEpoch :: "32 word"
  sn_BrowserConnected :: bool
  sn_AgentConnected :: bool
  sn_BrowserToAgentBytes :: int
  sn_AgentToBrowserBytes :: int
  sn_BrowserToAgentQueuedBytes :: int
  sn_AgentToBrowserQueuedBytes :: int
  sn_StartedAt :: time

record desktopRelayRateWindow =
  startedAt :: time
  windowBytes :: int

record inProcessDesktopSession =
  claim :: desktopRelayJoinClaim
  browser :: "nat option"
  agent :: "nat option"
  cancelled :: bool
  doneClosed :: nat
  started :: bool
  finished :: bool
  sessErr :: "error option"
  snapshot :: desktopRelaySnapshot
  browserRate :: desktopRelayRateWindow
  agentRate :: desktopRelayRateWindow
  browserReserved :: bool
  agentReserved :: bool
  browserToAgent :: desktopRelayPipe
  agentToBrowser :: desktopRelayPipe

record inProcessDesktopRelay =
  limits :: desktopRelayLimits
  objs :: "inProcessDesktopSession list"
  sessionsMap :: "(string, nat) gomap"
  sink :: "desktopRelayLifecycleEvent list"
  closedEndpoints :: "(nat \<times> string) list"

definition emptySnapshot :: "string \<Rightarrow> 32 word \<Rightarrow> desktopRelaySnapshot" where
  "emptySnapshot sid epoch =
     \<lparr>sn_SessionID = sid, sn_KeyEpoch = epoch, sn_BrowserConnected = False, sn_AgentConnected = False,
      sn_BrowserToAgentBytes = 0, sn_AgentToBrowserBytes = 0, sn_BrowserToAgentQueuedBytes = 0,
      sn_AgentToBrowserQueuedBytes = 0, sn_StartedAt = 0\<rparr>"

definition newSession :: "desktopRelayJoinClaim \<Rightarrow> inProcessDesktopSession" where
  "newSession c =
     \<lparr>claim = c, browser = None, agent = None, cancelled = False, doneClosed = 0, started = False,
      finished = False, sessErr = None, snapshot = emptySnapshot (cl_SessionID c) (cl_KeyEpoch c),
      browserRate = \<lparr>startedAt = 0, windowBytes = 0\<rparr>, agentRate = \<lparr>startedAt = 0, windowBytes = 0\<rparr>,
      browserReserved = False, agentReserved = False, browserToAgent = newDesktopRelayPipe,
      agentToBrowser = newDesktopRelayPipe\<rparr>"

text \<open>Constructing a relay with invalid limits panics, modelled as an error.\<close>

definition newInProcessDesktopRelay :: "desktopRelayLimits \<Rightarrow> inProcessDesktopRelay result" where
  "newInProcessDesktopRelay l =
     bindR (validateLimits l) (\<lambda>_.
     Inr \<lparr>limits = l, objs = [], sessionsMap = [], sink = [], closedEndpoints = []\<rparr>)"

definition updateObj ::
    "nat \<Rightarrow> (inProcessDesktopSession \<Rightarrow> inProcessDesktopSession) \<Rightarrow> inProcessDesktopRelay \<Rightarrow> inProcessDesktopRelay" where
  "updateObj a f r = r\<lparr>objs := (objs r)[a := f (objs r ! a)]\<rparr>"

section \<open>Admission\<close>

definition mapObjs :: "inProcessDesktopRelay \<Rightarrow> inProcessDesktopSession list" where
  "mapObjs r = map (\<lambda>kv. objs r ! snd kv) (sessionsMap r)"

definition countWhere :: "(inProcessDesktopSession \<Rightarrow> bool) \<Rightarrow> inProcessDesktopRelay \<Rightarrow> int" where
  "countWhere P r = int (length (filter P (mapObjs r)))"

definition sessionForJoinLocked ::
    "desktopRelayJoinClaim \<Rightarrow> inProcessDesktopRelay \<Rightarrow> (nat \<times> inProcessDesktopRelay) result" where
  "sessionForJoinLocked c r =
     (case mget (sessionsMap r) (cl_SessionID c) of
        None \<Rightarrow>
          if int (length (sessionsMap r)) \<ge> MaxSessions (limits r)
             \<or> countWhere (\<lambda>s. cl_HomeID (claim s) = cl_HomeID c) r \<ge> MaxSessionsPerHome (limits r)
             \<or> countWhere (\<lambda>s. cl_AgentID (claim s) = cl_AgentID c) r \<ge> MaxSessionsPerAgent (limits r)
          then Inl errDesktopRelayLimit
          else Inr (length (objs r),
                 r\<lparr>objs := objs r @ [newSession c],
                   sessionsMap := mput (cl_SessionID c) (length (objs r)) (sessionsMap r)\<rparr>)
      | Some a \<Rightarrow>
          let k = claim (objs r ! a) in
          if cl_KeyEpoch k \<noteq> cl_KeyEpoch c \<or> cl_HomeID k \<noteq> cl_HomeID c \<or> cl_AgentID k \<noteq> cl_AgentID c
             \<or> cl_Reconnect k \<noteq> cl_Reconnect c
             \<or> \<not> desktopRelayTimestampEqual (cl_ReconnectExpiresAt k) (cl_ReconnectExpiresAt c)
             \<or> \<not> desktopRelayTimestampEqual (cl_HardExpiresAt k) (cl_HardExpiresAt c)
          then Inl errDesktopRelayClaimMismatch
          else Inr (a, r))"

definition Reserve ::
    "(nat \<Rightarrow> bool) \<Rightarrow> desktopRelayJoinClaim \<Rightarrow> time \<Rightarrow> inProcessDesktopRelay \<Rightarrow> unit result \<times> inProcessDesktopRelay" where
  "Reserve wide c now r =
     (if validateClaim wide c now \<noteq> Inr () then (Inl errDesktopRelayClaimMismatch, r)
      else
        (case sessionForJoinLocked c r of
           Inl e \<Rightarrow> (Inl e, r)
         | Inr (a, r1) \<Rightarrow>
             let s = objs r1 ! a in
             if cl_Side c = RelayBrowser
             then (if browser s \<noteq> None then (Inl errDesktopRelayDuplicateSide, r1)
                   else if browserReserved s then (Inr (), r1)
                   else (Inr (), updateObj a (\<lambda>s. s\<lparr>browserReserved := True\<rparr>) r1))
             else (if agent s \<noteq> None then (Inl errDesktopRelayDuplicateSide, r1)
                   else if agentReserved s then (Inr (), r1)
                   else (Inr (), updateObj a (\<lambda>s. s\<lparr>agentReserved := True\<rparr>) r1))))"

definition CancelReservation :: "desktopRelayJoinClaim \<Rightarrow> inProcessDesktopRelay \<Rightarrow> inProcessDesktopRelay" where
  "CancelReservation c r =
     (case mget (sessionsMap r) (cl_SessionID c) of
        None \<Rightarrow> r
      | Some a \<Rightarrow>
          if cl_KeyEpoch (claim (objs r ! a)) \<noteq> cl_KeyEpoch c then r
          else
            let r1 = updateObj a (\<lambda>s. if cl_Side c = RelayBrowser then s\<lparr>browserReserved := False\<rparr>
                                      else s\<lparr>agentReserved := False\<rparr>) r;
                s = objs r1 ! a in
            if browser s = None \<and> agent s = None \<and> \<not> browserReserved s \<and> \<not> agentReserved s
               \<and> \<not> started s \<and> \<not> finished s
            then (updateObj a (\<lambda>s. s\<lparr>finished := True, cancelled := True, doneClosed := doneClosed s + 1\<rparr>) r1)
                   \<lparr>sessionsMap := mdel (cl_SessionID c) (sessionsMap r1)\<rparr>
            else r1)"

section \<open>Joining\<close>

definition lifecycleEvent :: "desktopRelayJoinClaim \<Rightarrow> string \<Rightarrow> string \<Rightarrow> desktopRelayLifecycleEvent" where
  "lifecycleEvent c kind reason =
     \<lparr>ev_SessionID = cl_SessionID c, ev_KeyEpoch = cl_KeyEpoch c, ev_Kind = kind, ev_Reason = reason,
      ev_BrowserToAgentBytes = 0, ev_AgentToBrowserBytes = 0\<rparr>"

definition relaySideName :: "desktopRelaySide \<Rightarrow> string" where
  "relaySideName s = (case s of RelayBrowser \<Rightarrow> ''browser'' | RelayAgent \<Rightarrow> ''agent'' | RelayOther t \<Rightarrow> t)"

definition joinRefused :: "desktopRelayJoinClaim \<Rightarrow> inProcessDesktopSession \<Rightarrow> bool" where
  "joinRefused c s \<longleftrightarrow>
     (cl_Side c = RelayBrowser \<and> (browser s \<noteq> None \<or> (\<not> browserReserved s \<and> started s)))
     \<or> (cl_Side c = RelayAgent \<and> (agent s \<noteq> None \<or> (\<not> agentReserved s \<and> started s)))"

definition attach :: "desktopRelayJoinClaim \<Rightarrow> nat option \<Rightarrow> inProcessDesktopSession \<Rightarrow> inProcessDesktopSession" where
  "attach c endpoint s =
     (if cl_Side c = RelayBrowser
      then s\<lparr>browserReserved := False, browser := endpoint,
             snapshot := (snapshot s)\<lparr>sn_BrowserConnected := True\<rparr>\<rparr>
      else s\<lparr>agentReserved := False, agent := endpoint,
             snapshot := (snapshot s)\<lparr>sn_AgentConnected := True\<rparr>\<rparr>)"

definition canStart :: "inProcessDesktopSession \<Rightarrow> bool" where
  "canStart s \<longleftrightarrow> browser s \<noteq> None \<and> agent s \<noteq> None \<and> \<not> started s"

definition startIfPaired :: "time \<Rightarrow> inProcessDesktopSession \<Rightarrow> inProcessDesktopSession" where
  "startIfPaired now s =
     (if canStart s then s\<lparr>started := True, snapshot := (snapshot s)\<lparr>sn_StartedAt := now\<rparr>\<rparr> else s)"

text \<open>
  \<open>Join\<close> up to its \<open>select\<close>: on success the address of the session the caller then waits on, with
  whether this join paired the two sides. An endpoint is \<open>None\<close> where the caller passed \<open>nil\<close>.
\<close>

definition Join ::
    "(nat \<Rightarrow> bool) \<Rightarrow> desktopRelayJoinClaim \<Rightarrow> nat option \<Rightarrow> time \<Rightarrow> inProcessDesktopRelay \<Rightarrow>
     (nat \<times> bool) result \<times> inProcessDesktopRelay" where
  "Join wide c endpoint now r =
     (if validateClaim wide c now \<noteq> Inr () \<or> endpoint = None then (Inl errDesktopRelayClaimMismatch, r)
      else
        (case sessionForJoinLocked c r of
           Inl e \<Rightarrow> (Inl e, r)
         | Inr (a, r1) \<Rightarrow>
             if joinRefused c (objs r1 ! a) then (Inl errDesktopRelayDuplicateSide, r1)
             else
               let paired = canStart (attach c endpoint (objs r1 ! a));
                   r2 = updateObj a (\<lambda>s. startIfPaired now (attach c endpoint s)) r1
               in (Inr (a, paired),
                   r2\<lparr>sink := sink r2 @ [lifecycleEvent c ''side_joined'' (relaySideName (cl_Side c))]
                        @ (if paired then [lifecycleEvent c ''paired'' []] else [])\<rparr>)))"

section \<open>Failure and revocation\<close>

definition fail :: "nat \<Rightarrow> string \<Rightarrow> error \<Rightarrow> inProcessDesktopRelay \<Rightarrow> inProcessDesktopRelay" where
  "fail a reason err r =
     (let s = objs r ! a in
      if finished s then r
      else
        let s1 = s\<lparr>finished := True, sessErr := Some err,
                   snapshot := (snapshot s)\<lparr>sn_BrowserConnected := False, sn_AgentConnected := False\<rparr>,
                   cancelled := True, doneClosed := doneClosed s + 1\<rparr> in
        r\<lparr>objs := (objs r)[a := s1],
          sessionsMap := mdel (cl_SessionID (claim s)) (sessionsMap r),
          closedEndpoints := closedEndpoints r
            @ (case browser s of None \<Rightarrow> [] | Some e \<Rightarrow> [(e, reason)])
            @ (case agent s of None \<Rightarrow> [] | Some e \<Rightarrow> [(e, reason)]),
          sink := sink r @ [\<lparr>ev_SessionID = sn_SessionID (snapshot s1), ev_KeyEpoch = sn_KeyEpoch (snapshot s1),
                             ev_Kind = ''closed'', ev_Reason = reason,
                             ev_BrowserToAgentBytes = sn_BrowserToAgentBytes (snapshot s1),
                             ev_AgentToBrowserBytes = sn_AgentToBrowserBytes (snapshot s1)\<rparr>]\<rparr>)"

text \<open>The check of \<open>failUnpaired\<close> is a lock region of its own, before the one of \<open>fail\<close>.\<close>

definition unpaired :: "nat \<Rightarrow> inProcessDesktopRelay \<Rightarrow> bool" where
  "unpaired a r \<longleftrightarrow> \<not> started (objs r ! a) \<and> \<not> finished (objs r ! a)"

definition failUnpaired :: "nat \<Rightarrow> string \<Rightarrow> inProcessDesktopRelay \<Rightarrow> inProcessDesktopRelay" where
  "failUnpaired a reason r = (if unpaired a r then fail a reason errDesktopRelayLimit r else r)"

definition Revoke :: "string \<Rightarrow> string \<Rightarrow> inProcessDesktopRelay \<Rightarrow> inProcessDesktopRelay" where
  "Revoke sessionID reason r =
     (case mget (sessionsMap r) sessionID of None \<Rightarrow> r | Some a \<Rightarrow> fail a reason (ErrMsg reason) r)"

definition Snapshot :: "string \<Rightarrow> inProcessDesktopRelay \<Rightarrow> desktopRelaySnapshot" where
  "Snapshot sessionID r =
     (case mget (sessionsMap r) sessionID of
        None \<Rightarrow> emptySnapshot sessionID 0
      | Some a \<Rightarrow>
          let s = objs r ! a in
          (snapshot s)\<lparr>sn_BrowserToAgentQueuedBytes := pipeBytes (browserToAgent s),
                       sn_AgentToBrowserQueuedBytes := pipeBytes (agentToBrowser s)\<rparr>)"

section \<open>The pumps\<close>

definition allowWindow :: "desktopRelayLimits \<Rightarrow> time \<Rightarrow> int \<Rightarrow> desktopRelayRateWindow \<Rightarrow> bool \<times> desktopRelayRateWindow" where
  "allowWindow l now count w =
     (let w1 = (if isZero (startedAt w) \<or> timeSub now (startedAt w) \<ge> seconds 1
                then \<lparr>startedAt = now, windowBytes = 0\<rparr> else w);
          w2 = w1\<lparr>windowBytes := windowBytes w1 + count\<rparr>
      in (windowBytes w2 \<le> MaxBytesPerSecond l, w2))"

definition allowBytes ::
    "nat \<Rightarrow> desktopRelaySide \<Rightarrow> int \<Rightarrow> time \<Rightarrow> inProcessDesktopRelay \<Rightarrow> bool \<times> inProcessDesktopRelay" where
  "allowBytes a side count now r =
     (let s = objs r ! a in
      if side = RelayAgent
      then (let (ok, w) = allowWindow (limits r) now count (agentRate s)
            in (ok, updateObj a (\<lambda>s. s\<lparr>agentRate := w\<rparr>) r))
      else (let (ok, w) = allowWindow (limits r) now count (browserRate s)
            in (ok, updateObj a (\<lambda>s. s\<lparr>browserRate := w\<rparr>) r)))"

text \<open>
  One iteration of \<open>readPump\<close> after its \<open>Read\<close>: \<open>Inl\<close> the read error (a cancelled context, an expired
  deadline, or another error) or the payload. The result says whether the frame goes on to \<open>enqueue\<close>. A read error while the session's
  context is cancelled ends the pump without failing the session.
\<close>

datatype read_error = ReadCanceled | ReadDeadline | ReadOther error

definition readErr :: "read_error \<Rightarrow> error" where
  "readErr e = (case e of ReadCanceled \<Rightarrow> ErrMsg ''context canceled'' | ReadDeadline \<Rightarrow> ErrMsg ''context deadline exceeded''
     | ReadOther err \<Rightarrow> err)"

definition readPump ::
    "nat \<Rightarrow> desktopRelaySide \<Rightarrow> (read_error, bytes) sum \<Rightarrow> time \<Rightarrow> inProcessDesktopRelay \<Rightarrow> bool \<times> inProcessDesktopRelay" where
  "readPump a side input now r =
     (case input of
        Inl e \<Rightarrow>
          if e = ReadCanceled \<and> cancelled (objs r ! a) then (False, r)
          else (False, fail a (if e = ReadDeadline then ''idle_timeout'' else ''transport_closed'') (readErr e) r)
      | Inr payload \<Rightarrow>
          if int (length payload) > MaxFrameBytes (limits r)
          then (False, fail a ''frame_limit'' errDesktopRelayLimit r)
          else
            (case allowBytes a side (int (length payload)) now r of
               (ok, r1) \<Rightarrow> if ok then (True, r1) else (False, fail a ''rate_limit'' errDesktopRelayLimit r1)))"

text \<open>What \<open>readPump\<close> does when \<open>enqueue\<close> returned an error, and the backpressure callback.\<close>

definition slowConsumer :: "nat \<Rightarrow> inProcessDesktopRelay \<Rightarrow> inProcessDesktopRelay" where
  "slowConsumer a r = (if cancelled (objs r ! a) then r else fail a ''slow_consumer'' errDesktopRelayLimit r)"

definition onBackpressure :: "nat \<Rightarrow> desktopRelaySide \<Rightarrow> inProcessDesktopRelay \<Rightarrow> inProcessDesktopRelay" where
  "onBackpressure a side r =
     r\<lparr>sink := sink r @ [lifecycleEvent (claim (objs r ! a)) ''backpressure'' (relaySideName side)]\<rparr>"

text \<open>\<open>writePump\<close> after its \<open>Write\<close> and \<open>complete\<close>: a failed write, or the byte counters.\<close>

definition writePump :: "nat \<Rightarrow> desktopRelaySide \<Rightarrow> unit result \<Rightarrow> bytes \<Rightarrow> inProcessDesktopRelay \<Rightarrow> inProcessDesktopRelay" where
  "writePump a side outcome payload r =
     (case outcome of
        Inl err \<Rightarrow> (if cancelled (objs r ! a) then r else fail a ''transport_closed'' err r)
      | Inr _ \<Rightarrow>
        updateObj a (\<lambda>s. if side = RelayBrowser
          then s\<lparr>snapshot := (snapshot s)\<lparr>sn_BrowserToAgentBytes := sn_BrowserToAgentBytes (snapshot s) + int (length payload)\<rparr>\<rparr>
          else s\<lparr>snapshot := (snapshot s)\<lparr>sn_AgentToBrowserBytes := sn_AgentToBrowserBytes (snapshot s) + int (length payload)\<rparr>\<rparr>) r)"

section \<open>Timers\<close>

text \<open>When the join timer of a session fires and with which reason, and the hard deadline.\<close>

definition expireJoin :: "desktopRelayLimits \<Rightarrow> desktopRelayJoinClaim \<Rightarrow> time \<Rightarrow> duration \<times> string" where
  "expireJoin l c now =
     (if cl_Reconnect c then (timeSub (cl_ReconnectExpiresAt c) now, ''reconnect_timeout'')
      else (JoinTimeout l, ''join_timeout''))"

definition expireHard :: "desktopRelayLimits \<Rightarrow> desktopRelayJoinClaim \<Rightarrow> time \<Rightarrow> time" where
  "expireHard l c now =
     (let deadline = cl_HardExpiresAt c; mx = now + MaxDuration l in if mx < deadline then mx else deadline)"

section \<open>The relay as a transition system\<close>

text \<open>
  Requests, pumps, timers and revocations interleave at their lock regions. A goroutine may fail any
  object it ever obtained, at any later time, so \<open>failed\<close> ranges over all objects.
\<close>

definition relay_init :: "inProcessDesktopRelay \<Rightarrow> bool" where
  "relay_init r \<longleftrightarrow> (\<exists>l. newInProcessDesktopRelay l = Inr r)"

inductive relay_step :: "inProcessDesktopRelay \<Rightarrow> inProcessDesktopRelay \<Rightarrow> bool" where
  reserved: "relay_step r (snd (Reserve wide c now r))"
| cancelled: "relay_step r (CancelReservation c r)"
| joined: "relay_step r (snd (Join wide c e now r))"
| revoked: "relay_step r (Revoke sid reason r)"
| failed: "a < length (objs r) \<Longrightarrow> relay_step r (fail a reason err r)"
| unpaired: "a < length (objs r) \<Longrightarrow> relay_step r (failUnpaired a reason r)"
| read: "a < length (objs r) \<Longrightarrow> relay_step r (snd (readPump a side input now r))"
| slow: "a < length (objs r) \<Longrightarrow> relay_step r (slowConsumer a r)"
| backpressured: "relay_step r (onBackpressure a side r)"
| wrote: "a < length (objs r) \<Longrightarrow> relay_step r (writePump a side ok payload r)"

section \<open>The invariant\<close>

definition session_ok :: "inProcessDesktopSession \<Rightarrow> bool" where
  "session_ok s \<longleftrightarrow>
     (started s \<longrightarrow> browser s \<noteq> None \<and> agent s \<noteq> None)
     \<and> doneClosed s = (if finished s then 1 else 0) \<and> cancelled s = finished s
     \<and> sn_BrowserConnected (snapshot s) = (\<not> finished s \<and> browser s \<noteq> None)
     \<and> sn_AgentConnected (snapshot s) = (\<not> finished s \<and> agent s \<noteq> None)"

definition claims :: "inProcessDesktopRelay \<Rightarrow> desktopRelayJoinClaim list" where
  "claims r = map (\<lambda>kv. claim (objs r ! snd kv)) (sessionsMap r)"

definition within_limits :: "inProcessDesktopRelay \<Rightarrow> bool" where
  "within_limits r \<longleftrightarrow>
     int (length (claims r)) \<le> MaxSessions (limits r)
     \<and> (\<forall>h. int (length (filter (\<lambda>c. cl_HomeID c = h) (claims r))) \<le> MaxSessionsPerHome (limits r))
     \<and> (\<forall>a. int (length (filter (\<lambda>c. cl_AgentID c = a) (claims r))) \<le> MaxSessionsPerAgent (limits r))"

definition indexed :: "inProcessDesktopRelay \<Rightarrow> bool" where
  "indexed r \<longleftrightarrow>
     mwf (sessionsMap r)
     \<and> (\<forall>k a. mget (sessionsMap r) k = Some a \<longleftrightarrow>
          a < length (objs r) \<and> \<not> finished (objs r ! a) \<and> cl_SessionID (claim (objs r ! a)) = k)"

definition relay_inv :: "inProcessDesktopRelay \<Rightarrow> bool" where
  "relay_inv r \<longleftrightarrow>
     validateLimits (limits r) = Inr () \<and> indexed r \<and> within_limits r \<and> (\<forall>s \<in> set (objs r). session_ok s)"

lemma relay_inv_log [simp]:
  "relay_inv (r\<lparr>sink := l\<rparr>) = relay_inv r" "relay_inv (r\<lparr>closedEndpoints := e\<rparr>) = relay_inv r"
  by (simp_all add: relay_inv_def indexed_def within_limits_def claims_def)

lemma mget_in: "mwf m \<Longrightarrow> (k, v) \<in> set m \<longleftrightarrow> mget m k = Some v"
  unfolding mwf_def by simp

lemma nth_update_field: "g (f (xs ! a)) = g (xs ! a) \<Longrightarrow> g (xs[a := f (xs ! a)] ! i) = g (xs ! i)"
  by (cases "i = a"; cases "a < length xs") (simp_all add: list_update_beyond)

lemma claims_update: "claim (f (objs r ! a)) = claim (objs r ! a) \<Longrightarrow> claims (updateObj a f r) = claims r"
  by (simp add: claims_def updateObj_def nth_update_field)

lemma indexed_unique:
  "indexed r \<Longrightarrow> a < length (objs r) \<Longrightarrow> b < length (objs r) \<Longrightarrow> \<not> finished (objs r ! a) \<Longrightarrow> \<not> finished (objs r ! b) \<Longrightarrow>
   cl_SessionID (claim (objs r ! a)) = cl_SessionID (claim (objs r ! b)) \<Longrightarrow> a = b"
  unfolding indexed_def by (metis option.inject)

lemma updateObj_inv:
  assumes inv: "relay_inv r" and a: "a < length (objs r)"
    and keep: "claim (f (objs r ! a)) = claim (objs r ! a)" "finished (f (objs r ! a)) = finished (objs r ! a)"
    and ok: "session_ok (objs r ! a) \<Longrightarrow> session_ok (f (objs r ! a))"
  shows "relay_inv (updateObj a f r)"
proof -
  have "indexed (updateObj a f r)"
    using inv nth_update_field [of claim f "objs r" a, OF keep(1)] nth_update_field [of finished f "objs r" a, OF keep(2)]
    unfolding relay_inv_def indexed_def updateObj_def by simp
  moreover have "within_limits (updateObj a f r)"
    using inv claims_update [of f r a] keep(1) unfolding relay_inv_def within_limits_def by (simp add: updateObj_def)
  moreover have "\<forall>s \<in> set (objs (updateObj a f r)). session_ok s"
    using inv ok a unfolding relay_inv_def updateObj_def by (auto dest!: set_update_subset_insert [THEN subsetD])
  ultimately show ?thesis using inv unfolding relay_inv_def by (simp add: updateObj_def)
qed

lemma claims_sublist: "length (filter P (map g (mdel k m))) \<le> length (filter P (map g m))"
  by (induction m) auto

lemma within_limits_shrink:
  assumes "within_limits r" "limits r' = limits r"
    and le: "\<And>P. length (filter P (claims r')) \<le> length (filter P (claims r))"
  shows "within_limits r'"
proof -
  have leI: "int (length (filter P (claims r'))) \<le> b" if "int (length (filter P (claims r))) \<le> b" for P b
    using le [of P] that by linarith
  have "int (length (claims r')) \<le> MaxSessions (limits r)"
    using leI [of "\<lambda>_. True"] assms(1) by (simp add: within_limits_def)
  then show ?thesis
    using assms(1,2) leI unfolding within_limits_def by simp
qed

lemma finish_inv:
  assumes inv: "relay_inv r" and a: "a < length (objs r)" and nf: "\<not> finished (objs r ! a)"
    and s1: "claim s1 = claim (objs r ! a)" "finished s1" "session_ok s1"
  shows "relay_inv (r\<lparr>objs := (objs r)[a := s1], sessionsMap := mdel (cl_SessionID (claim (objs r ! a))) (sessionsMap r)\<rparr>)"
    (is "relay_inv ?r'")
proof -
  let ?k = "cl_SessionID (claim (objs r ! a))"
  have ix: "indexed r" using inv by (simp add: relay_inv_def)
  then have at: "mget (sessionsMap r) ?k = Some a" using a nf unfolding indexed_def by blast
  have "indexed ?r'"
    unfolding indexed_def
  proof (intro conjI allI)
    show "mwf (sessionsMap ?r')" using ix by (simp add: indexed_def)
    fix k b
    show "mget (sessionsMap ?r') k = Some b \<longleftrightarrow>
        b < length (objs ?r') \<and> \<not> finished (objs ?r' ! b) \<and> cl_SessionID (claim (objs ?r' ! b)) = k"
    proof (cases "b = a")
      case True
      then show ?thesis using ix a nf s1(2) unfolding indexed_def by auto
    next
      case False
      then have "k = ?k \<Longrightarrow> \<not> (b < length (objs r) \<and> \<not> finished (objs r ! b) \<and> cl_SessionID (claim (objs r ! b)) = k)"
        using indexed_unique [OF ix, of a b] a nf by auto
      then show ?thesis using False ix unfolding indexed_def by auto
    qed
  qed
  moreover have "within_limits ?r'"
  proof -
    have same: "claims ?r' = map (\<lambda>kv. claim (objs r ! snd kv)) (mdel ?k (sessionsMap r))"
      using s1(1) a by (auto simp: claims_def nth_list_update)
    have "length (filter P (claims ?r')) \<le> length (filter P (claims r))" for P
      unfolding same claims_def [of r] by (rule claims_sublist)
    then show ?thesis using inv within_limits_shrink [of r ?r'] unfolding relay_inv_def by simp
  qed
  moreover have "\<forall>s \<in> set (objs ?r'). session_ok s"
    using inv s1(3) unfolding relay_inv_def by (auto dest!: set_update_subset_insert [THEN subsetD])
  ultimately show ?thesis using inv unfolding relay_inv_def by simp
qed

lemma countWhere_claims: "countWhere (\<lambda>s. P (claim s)) r = int (length (filter P (claims r)))"
  by (simp add: countWhere_def mapObjs_def claims_def filter_map comp_def)

lemma claims_new:
  assumes "indexed r" "mget (sessionsMap r) (cl_SessionID c) = None"
  shows "claims (r\<lparr>objs := objs r @ [newSession c], sessionsMap := mput (cl_SessionID c) (length (objs r)) (sessionsMap r)\<rparr>)
    = claims r @ [c]"
proof -
  have "snd kv < length (objs r)" if "kv \<in> set (sessionsMap r)" for kv
  proof -
    obtain k a where kv: "kv = (k, a)" by (cases kv)
    have "mget (sessionsMap r) k = Some a"
      using that assms(1) mget_in [of "sessionsMap r" k a] unfolding kv indexed_def by blast
    then show ?thesis using assms(1) unfolding kv indexed_def by simp
  qed
  then have "map (\<lambda>kv. claim ((objs r @ [newSession c]) ! snd kv)) (sessionsMap r) = claims r"
    by (auto simp: claims_def nth_append)
  then show ?thesis using mput_new [OF assms(2)] by (simp add: claims_def newSession_def)
qed

lemma indexed_new:
  assumes ix: "indexed r" and new: "mget (sessionsMap r) (cl_SessionID c) = None"
  shows "indexed (r\<lparr>objs := objs r @ [newSession c], sessionsMap := mput (cl_SessionID c) (length (objs r)) (sessionsMap r)\<rparr>)"
    (is "indexed ?r'")
  unfolding indexed_def
proof (intro conjI allI)
  show "mwf (sessionsMap ?r')" using ix by (simp add: indexed_def)
  fix k a
  have none: "\<not> (a < length (objs r) \<and> \<not> finished (objs r ! a) \<and> cl_SessionID (claim (objs r ! a)) = cl_SessionID c)"
    using ix new unfolding indexed_def by (metis option.distinct(1))
  have old: "mget (sessionsMap r) k = Some a \<longleftrightarrow> a < length (objs r) \<and> \<not> finished (objs r ! a) \<and> cl_SessionID (claim (objs r ! a)) = k"
    using ix unfolding indexed_def by blast
  show "mget (sessionsMap ?r') k = Some a \<longleftrightarrow>
      a < length (objs ?r') \<and> \<not> finished (objs ?r' ! a) \<and> cl_SessionID (claim (objs ?r' ! a)) = k"
    using none old by (cases "a = length (objs r)") (auto simp: nth_append newSession_def)
qed

lemma session_ok_new: "session_ok (newSession c)"
  by (simp add: session_ok_def newSession_def emptySnapshot_def)

lemma mapped:
  "relay_inv r \<Longrightarrow> mget (sessionsMap r) k = Some a \<Longrightarrow>
     a < length (objs r) \<and> \<not> finished (objs r ! a) \<and> cl_SessionID (claim (objs r ! a)) = k"
  unfolding relay_inv_def indexed_def by blast

lemma sessionForJoin_inv:
  assumes inv: "relay_inv r" and run: "sessionForJoinLocked c r = Inr (a, r1)"
  shows "relay_inv r1 \<and> a < length (objs r1) \<and> \<not> finished (objs r1 ! a)
    \<and> mget (sessionsMap r1) (cl_SessionID c) = Some a
    \<and> cl_KeyEpoch (claim (objs r1 ! a)) = cl_KeyEpoch c \<and> cl_HomeID (claim (objs r1 ! a)) = cl_HomeID c
    \<and> cl_AgentID (claim (objs r1 ! a)) = cl_AgentID c"
proof (cases "mget (sessionsMap r) (cl_SessionID c)")
  case (Some b)
  then have "a = b" "r1 = r" "cl_KeyEpoch (claim (objs r ! b)) = cl_KeyEpoch c"
      "cl_HomeID (claim (objs r ! b)) = cl_HomeID c" "cl_AgentID (claim (objs r ! b)) = cl_AgentID c"
    using run unfolding sessionForJoinLocked_def by (simp_all add: Let_def split: if_splits)
  then show ?thesis using mapped [OF inv Some] inv Some by simp
next
  case None
  let ?r' = "r\<lparr>objs := objs r @ [newSession c], sessionsMap := mput (cl_SessionID c) (length (objs r)) (sessionsMap r)\<rparr>"
  have lim: "int (length (sessionsMap r)) < MaxSessions (limits r)"
      "countWhere (\<lambda>s. cl_HomeID (claim s) = cl_HomeID c) r < MaxSessionsPerHome (limits r)"
      "countWhere (\<lambda>s. cl_AgentID (claim s) = cl_AgentID c) r < MaxSessionsPerAgent (limits r)"
    and r1: "a = length (objs r)" "r1 = ?r'"
    using run None unfolding sessionForJoinLocked_def by (auto split: if_splits)
  have ix: "indexed r" using inv by (simp add: relay_inv_def)
  have len: "length (sessionsMap r) = length (claims r)" by (simp add: claims_def)
  have "within_limits r1"
    unfolding within_limits_def r1(2) claims_new [OF ix None]
    using lim inv [unfolded relay_inv_def within_limits_def]
    by (auto simp: len countWhere_claims [of "\<lambda>k. cl_HomeID k = cl_HomeID c"] countWhere_claims [of "\<lambda>k. cl_AgentID k = cl_AgentID c"])
  moreover have "\<forall>s \<in> set (objs r1). session_ok s"
    using inv session_ok_new unfolding relay_inv_def r1(2) by auto
  ultimately have "relay_inv r1" using inv indexed_new [OF ix None] unfolding relay_inv_def r1(2) by simp
  then show ?thesis using r1 by (simp add: newSession_def)
qed

lemma Reserve_inv: "relay_inv r \<Longrightarrow> relay_inv (snd (Reserve wide c now r))"
  using sessionForJoin_inv [of r c]
  by (auto simp: Reserve_def Let_def split: sum.splits intro!: updateObj_inv) (simp_all add: session_ok_def)

lemma CancelReservation_inv:
  assumes inv: "relay_inv r"
  shows "relay_inv (CancelReservation c r)"
proof (cases "mget (sessionsMap r) (cl_SessionID c)")
  case None
  then show ?thesis using inv by (simp add: CancelReservation_def)
next
  case (Some a)
  let ?f = "\<lambda>s. if cl_Side c = RelayBrowser then s\<lparr>browserReserved := False\<rparr> else s\<lparr>agentReserved := False\<rparr>"
  let ?r1 = "updateObj a ?f r"
  have a: "a < length (objs r)" "\<not> finished (objs r ! a)" "cl_SessionID (claim (objs r ! a)) = cl_SessionID c"
    using inv Some unfolding relay_inv_def indexed_def by blast+
  have i1: "relay_inv ?r1" by (rule updateObj_inv [OF inv a(1)]) (simp_all add: session_ok_def)
  have at: "objs ?r1 ! a = ?f (objs r ! a)" "a < length (objs ?r1)" using a(1) by (simp_all add: updateObj_def)
  have same: "cl_SessionID (claim (objs ?r1 ! a)) = cl_SessionID c" using at a(3) by simp
  have ok: "session_ok (objs ?r1 ! a)" using i1 at(2) by (simp add: relay_inv_def)
  have "relay_inv (?r1\<lparr>objs := (objs ?r1)[a := (objs ?r1 ! a)\<lparr>finished := True, cancelled := True, doneClosed := doneClosed (objs ?r1 ! a) + 1\<rparr>],
      sessionsMap := mdel (cl_SessionID c) (sessionsMap ?r1)\<rparr>)"
    if "browser (objs ?r1 ! a) = None" "agent (objs ?r1 ! a) = None" "\<not> finished (objs ?r1 ! a)"
    unfolding same [symmetric]
    by (rule finish_inv [OF i1 at(2) that(3)]) (use ok that in \<open>simp_all add: session_ok_def\<close>)
  then show ?thesis
    using i1 Some inv by (auto simp: CancelReservation_def Let_def updateObj_def)
qed

lemma fail_inv: "relay_inv r \<Longrightarrow> a < length (objs r) \<Longrightarrow> relay_inv (fail a reason err r)"
  unfolding fail_def Let_def
  by (simp, intro impI finish_inv) (auto simp: session_ok_def relay_inv_def)

lemma Revoke_inv: "relay_inv r \<Longrightarrow> relay_inv (Revoke sid reason r)"
  using mapped [of r sid] by (cases "mget (sessionsMap r) sid") (auto simp: Revoke_def intro: fail_inv)

lemma join_fields [simp]:
  "claim (startIfPaired now (attach c e s)) = claim s" "finished (startIfPaired now (attach c e s)) = finished s"
  "browser (startIfPaired now (attach c e s)) = (if cl_Side c = RelayBrowser then e else browser s)"
  "agent (startIfPaired now (attach c e s)) = (if cl_Side c = RelayBrowser then agent s else e)"
  by (simp_all add: startIfPaired_def attach_def)

lemma attach_ok:
  "session_ok s \<Longrightarrow> \<not> finished s \<Longrightarrow> session_ok (startIfPaired now (attach c (Some e) s))"
  by (auto simp: session_ok_def startIfPaired_def canStart_def attach_def)

lemma Join_inv:
  assumes inv: "relay_inv r"
  shows "relay_inv (snd (Join wide c e now r))"
proof (cases "sessionForJoinLocked c r")
  case (Inl err)
  then show ?thesis using inv by (simp add: Join_def)
next
  case (Inr ar)
  obtain a r1 where ar: "ar = (a, r1)" by (cases ar)
  from sessionForJoin_inv [OF inv Inr [unfolded ar]]
  have 1: "relay_inv r1" "a < length (objs r1)" "\<not> finished (objs r1 ! a)" by blast+
  have "relay_inv (updateObj a (\<lambda>s. startIfPaired now (attach c (Some x) s)) r1)" for x
    by (rule updateObj_inv [OF 1(1,2)]) (simp_all add: attach_ok 1(3))
  then show ?thesis using inv 1(1) Inr by (cases e) (auto simp: Join_def ar Let_def)
qed

lemma readPump_inv: "relay_inv r \<Longrightarrow> a < length (objs r) \<Longrightarrow> relay_inv (snd (readPump a side input now r))"
proof -
  assume inv: "relay_inv r" "a < length (objs r)"
  have len: "length (objs (updateObj a f q)) = length (objs q)" for f q by (simp add: updateObj_def)
  have "relay_inv (snd (allowBytes a side n now r)) \<and> a < length (objs (snd (allowBytes a side n now r)))" for n
    using inv by (auto simp: allowBytes_def Let_def len session_ok_def split: prod.splits intro!: updateObj_inv)
  then have allow: "allowBytes a side n now r = (ok, r1) \<Longrightarrow> relay_inv r1 \<and> a < length (objs r1)" for n ok r1
    by (metis snd_conv)
  show "relay_inv (snd (readPump a side input now r))"
    using inv by (auto simp: readPump_def split: sum.splits prod.splits intro!: fail_inv dest: allow)
qed

lemma writePump_inv: "relay_inv r \<Longrightarrow> a < length (objs r) \<Longrightarrow> relay_inv (writePump a side ok payload r)"
  by (cases ok; cases "side = RelayBrowser") (auto simp: writePump_def session_ok_def intro!: fail_inv updateObj_inv)

lemma relay_step_inv:
  assumes "relay_step r r'" "relay_inv r"
  shows "relay_inv r'"
  using assms
  by (cases rule: relay_step.cases)
    (auto intro: Reserve_inv CancelReservation_inv Join_inv Revoke_inv fail_inv readPump_inv writePump_inv
      simp: failUnpaired_def slowConsumer_def onBackpressure_def)

interpretation relay: invariant_system relay_init relay_step relay_inv
proof unfold_locales
  show "relay_inv r" if "relay_init r" for r
    using that by (auto simp: relay_init_def newInProcessDesktopRelay_def result_simps relay_inv_def indexed_def
        within_limits_def claims_def validateLimits_def split: if_splits)
  show "relay_inv r'" if "relay_inv r" "relay_step r r'" for r r'
    using that by (blast intro: relay_step_inv)
qed

section \<open>Properties\<close>

lemma filter_le_one_unique:
  assumes "length (filter P xs) \<le> 1" "i < length xs" "j < length xs" "P (xs ! i)" "P (xs ! j)"
  shows "i = j"
proof (rule ccontr)
  assume "i \<noteq> j"
  then have "card {i, j} = 2" by simp
  moreover have "{i, j} \<subseteq> {k. k < length xs \<and> P (xs ! k)}" using assms by auto
  then have "card {i, j} \<le> card {k. k < length xs \<and> P (xs ! k)}" by (rule card_mono [rotated]) simp
  ultimately show False using assms(1) by (simp add: length_filter_conv_card)
qed

lemma agent_unique:
  assumes inv: "relay_inv r" and ab: "a < length (objs r)" "b < length (objs r)"
    and nf: "\<not> finished (objs r ! a)" "\<not> finished (objs r ! b)"
    and same: "cl_AgentID (claim (objs r ! a)) = cl_AgentID (claim (objs r ! b))"
  shows "a = b"
proof -
  let ?m = "sessionsMap r"
  have ix: "indexed r" using inv by (simp add: relay_inv_def)
  have "mget ?m (cl_SessionID (claim (objs r ! x))) = Some x" if "x < length (objs r)" "\<not> finished (objs r ! x)" for x
    using ix that unfolding indexed_def by blast
  then have "(cl_SessionID (claim (objs r ! a)), a) \<in> set ?m" "(cl_SessionID (claim (objs r ! b)), b) \<in> set ?m"
    using ab nf by (auto dest: map_of_SomeD)
  then obtain i j where i: "i < length ?m" "?m ! i = (cl_SessionID (claim (objs r ! a)), a)"
    and j: "j < length ?m" "?m ! j = (cl_SessionID (claim (objs r ! b)), b)"
    by (meson in_set_conv_nth)
  have lim: "MaxSessionsPerAgent (limits r) \<le> 1"
    using inv by (auto simp: relay_inv_def validateLimits_def split: if_splits)
  have "length (filter (\<lambda>c. cl_AgentID c = cl_AgentID (claim (objs r ! a))) (claims r)) \<le> 1"
    using inv lim unfolding relay_inv_def within_limits_def by (metis of_nat_1 of_nat_le_iff order_trans)
  moreover have "claims r ! i = claim (objs r ! a)" "claims r ! j = claim (objs r ! b)" "length (claims r) = length ?m"
    using i j by (simp_all add: claims_def)
  ultimately have "i = j"
    using filter_le_one_unique [of "\<lambda>c. cl_AgentID c = cl_AgentID (claim (objs r ! a))" "claims r" i j] i(1) j(1) same
    by simp
  then show ?thesis using i(2) j(2) by simp
qed

text \<open>C3: in every state the relay can reach, whatever the interleaving of requests, pumps, timers and
  revocations: it carries at most 32 sessions, at most four per home and at most one unfinished
  session per agent and per session id; a session that runs has both sides connected; and no
  session's \<open>done\<close> channel is closed twice (which would panic) or left open after the session ended.\<close>

theorem relay_reachable_safe:
  assumes "reachable relay_init relay_step r"
  shows "length (claims r) \<le> 32 \<and> (\<forall>h. length (filter (\<lambda>c. cl_HomeID c = h) (claims r)) \<le> 4)
    \<and> (\<forall>a b. a < length (objs r) \<and> b < length (objs r) \<and> \<not> finished (objs r ! a) \<and> \<not> finished (objs r ! b)
         \<and> (cl_AgentID (claim (objs r ! a)) = cl_AgentID (claim (objs r ! b))
            \<or> cl_SessionID (claim (objs r ! a)) = cl_SessionID (claim (objs r ! b))) \<longrightarrow> a = b)
    \<and> list_all (\<lambda>s. doneClosed s = (if finished s then 1 else 0) \<and> (started s \<longrightarrow> browser s \<noteq> None \<and> agent s \<noteq> None)) (objs r)"
proof -
  have inv: "relay_inv r" using relay.reachable_inv [OF assms] .
  then have lim: "MaxSessions (limits r) \<le> 32" "MaxSessionsPerHome (limits r) \<le> 4"
    by (auto simp: relay_inv_def validateLimits_def split: if_splits)
  have w: "int (length (claims r)) \<le> MaxSessions (limits r)"
      "int (length (filter (\<lambda>c. cl_HomeID c = h) (claims r))) \<le> MaxSessionsPerHome (limits r)" for h
    using inv by (simp_all add: relay_inv_def within_limits_def)
  have "length (claims r) \<le> 32" using w(1) lim(1) by linarith
  moreover have "length (filter (\<lambda>c. cl_HomeID c = h) (claims r)) \<le> 4" for h using w(2) [of h] lim(2) by linarith
  moreover have "list_all (\<lambda>s. doneClosed s = (if finished s then 1 else 0) \<and> (started s \<longrightarrow> browser s \<noteq> None \<and> agent s \<noteq> None)) (objs r)"
    using inv by (simp add: relay_inv_def session_ok_def list_all_iff)
  moreover have "indexed r" using inv by (simp add: relay_inv_def)
  ultimately show ?thesis using agent_unique [OF inv] indexed_unique [of r] by blast
qed

lemma join_out:
  assumes inv: "relay_inv r" and run: "Join wide c (Some e) now r = (Inr (a, paired), r')"
  obtains r1 where "relay_inv r1" "a < length (objs r1)" "sessionForJoinLocked c r = Inr (a, r1)"
    "\<not> finished (objs r1 ! a)" "mget (sessionsMap r1) (cl_SessionID c) = Some a"
    "cl_KeyEpoch (claim (objs r1 ! a)) = cl_KeyEpoch c" "cl_HomeID (claim (objs r1 ! a)) = cl_HomeID c"
    "cl_AgentID (claim (objs r1 ! a)) = cl_AgentID c" "cl_SessionID (claim (objs r1 ! a)) = cl_SessionID c"
    "cl_Side c = RelayBrowser \<and> browser (objs r1 ! a) = None \<or> cl_Side c = RelayAgent \<and> agent (objs r1 ! a) = None"
    "objs r' = (objs r1)[a := startIfPaired now (attach c (Some e) (objs r1 ! a))]" "sessionsMap r' = sessionsMap r1"
    "paired = canStart (attach c (Some e) (objs r1 ! a))"
proof (cases "sessionForJoinLocked c r")
  case (Inl err)
  then show ?thesis using run by (simp add: Join_def split: if_splits)
next
  case (Inr ar)
  obtain b r1 where ar: "ar = (b, r1)" by (cases ar)
  have ok: "validateClaim wide c now = Inr ()" and nr: "\<not> joinRefused c (objs r1 ! b)" and ab: "b = a"
    and out: "paired = canStart (attach c (Some e) (objs r1 ! b))"
      "objs r' = (objs r1)[b := startIfPaired now (attach c (Some e) (objs r1 ! b))]" "sessionsMap r' = sessionsMap r1"
    using run Inr unfolding Join_def ar by (auto simp: Let_def updateObj_def split: if_splits)
  note run1 = Inr [unfolded ar ab]
  from sessionForJoin_inv [OF inv run1] have 1: "relay_inv r1" "a < length (objs r1)" "\<not> finished (objs r1 ! a)"
      "mget (sessionsMap r1) (cl_SessionID c) = Some a" "cl_KeyEpoch (claim (objs r1 ! a)) = cl_KeyEpoch c"
      "cl_HomeID (claim (objs r1 ! a)) = cl_HomeID c" "cl_AgentID (claim (objs r1 ! a)) = cl_AgentID c"
    by blast+
  have sid: "cl_SessionID (claim (objs r1 ! a)) = cl_SessionID c" using mapped [OF 1(1,4)] by blast
  have "cl_Side c = RelayBrowser \<or> cl_Side c = RelayAgent"
    using ok by (auto simp: validateClaim_def split: if_splits)
  then have "cl_Side c = RelayBrowser \<and> browser (objs r1 ! a) = None \<or> cl_Side c = RelayAgent \<and> agent (objs r1 ! a) = None"
    using nr unfolding joinRefused_def ab by auto
  with 1 sid show ?thesis using out unfolding ab by (intro that [OF 1(1,2) run1]) simp_all
qed

text \<open>A successful join attaches the endpoint to the one unfinished session of its id, whose epoch,
  home and agent are the claim's, on a side that was free; the session is started by this join exactly when
  both sides are now there, and no endpoint that was connected, in this or any other session, is ever
  replaced.\<close>

theorem relay_join_exact:
  assumes "relay_inv r" "Join wide c (Some e) now r = (Inr (a, paired), r')"
  shows "a < length (objs r') \<and> \<not> finished (objs r' ! a) \<and> mget (sessionsMap r') (cl_SessionID c) = Some a
    \<and> cl_SessionID (claim (objs r' ! a)) = cl_SessionID c \<and> cl_KeyEpoch (claim (objs r' ! a)) = cl_KeyEpoch c
    \<and> cl_HomeID (claim (objs r' ! a)) = cl_HomeID c \<and> cl_AgentID (claim (objs r' ! a)) = cl_AgentID c
    \<and> (if cl_Side c = RelayBrowser then browser (objs r' ! a) = Some e else agent (objs r' ! a) = Some e)
    \<and> (started (objs r' ! a) \<longleftrightarrow> browser (objs r' ! a) \<noteq> None \<and> agent (objs r' ! a) \<noteq> None)
    \<and> paired = started (objs r' ! a)
    \<and> (\<forall>b. b < length (objs r) \<longrightarrow> (browser (objs r ! b) = None \<or> browser (objs r' ! b) = browser (objs r ! b))
                                 \<and> (agent (objs r ! b) = None \<or> agent (objs r' ! b) = agent (objs r ! b)))"
proof (rule join_out [OF assms])
  fix r1 :: inProcessDesktopRelay
  let ?s = "objs r1 ! a"
  assume 1: "relay_inv r1" "a < length (objs r1)" "\<not> finished ?s" "mget (sessionsMap r1) (cl_SessionID c) = Some a"
      "cl_KeyEpoch (claim ?s) = cl_KeyEpoch c" "cl_HomeID (claim ?s) = cl_HomeID c" "cl_AgentID (claim ?s) = cl_AgentID c"
      "cl_SessionID (claim ?s) = cl_SessionID c" "sessionsMap r' = sessionsMap r1"
    and run1: "sessionForJoinLocked c r = Inr (a, r1)"
    and free: "cl_Side c = RelayBrowser \<and> browser ?s = None \<or> cl_Side c = RelayAgent \<and> agent ?s = None"
    and r': "objs r' = (objs r1)[a := startIfPaired now (attach c (Some e) ?s)]"
    and paired: "paired = canStart (attach c (Some e) ?s)"
  have old: "length (objs r) \<le> length (objs r1)" "i < length (objs r) \<Longrightarrow> objs r1 ! i = objs r ! i" for i
    using run1 unfolding sessionForJoinLocked_def by (auto simp: Let_def nth_append split: option.splits if_splits)
  have keep: "(browser (objs r ! i) = None \<or> browser (objs r' ! i) = browser (objs r ! i))
      \<and> (agent (objs r ! i) = None \<or> agent (objs r' ! i) = agent (objs r ! i))" if i: "i < length (objs r)" for i
    using free old(2) [OF i] old(1) i unfolding r' by (cases "i = a") auto
  have "session_ok ?s" using 1(1,2) by (simp add: relay_inv_def)
  then have "\<not> started ?s" using free by (auto simp: session_ok_def)
  then have "started (startIfPaired now (attach c (Some e) ?s)) = paired"
      "paired = (if cl_Side c = RelayBrowser then agent ?s \<noteq> None else browser ?s \<noteq> None)"
    unfolding paired by (auto simp: startIfPaired_def canStart_def attach_def)
  moreover have "objs r' ! a = startIfPaired now (attach c (Some e) ?s)" "a < length (objs r')" using r' 1(2) by simp_all
  ultimately show ?thesis using 1 keep by auto
qed

lemma revoke_gone:
  assumes "relay_inv r"
  shows "mget (sessionsMap (Revoke sid reason r)) k = (if k = sid then None else mget (sessionsMap r) k)"
  using mapped [OF assms, of sid] by (cases "mget (sessionsMap r) sid") (auto simp: Revoke_def fail_def Let_def)

text \<open>Revoking a session removes it from the relay and closes whichever sides were connected with
  the given reason; its snapshot no longer shows a connection, no other session is affected, and
  revoking again changes nothing.\<close>

theorem relay_revoke_closes:
  assumes "relay_inv r"
  shows "mget (sessionsMap (Revoke sid reason r)) sid = None
    \<and> \<not> sn_BrowserConnected (Snapshot sid (Revoke sid reason r)) \<and> \<not> sn_AgentConnected (Snapshot sid (Revoke sid reason r))
    \<and> (\<forall>a. mget (sessionsMap r) sid = Some a \<longrightarrow>
         (\<forall>e. browser (objs r ! a) = Some e \<or> agent (objs r ! a) = Some e \<longrightarrow> (e, reason) \<in> set (closedEndpoints (Revoke sid reason r))))
    \<and> (\<forall>k. k \<noteq> sid \<longrightarrow> mget (sessionsMap (Revoke sid reason r)) k = mget (sessionsMap r) k)
    \<and> Revoke sid reason' (Revoke sid reason r) = Revoke sid reason r"
proof (cases "mget (sessionsMap r) sid")
  case None
  then show ?thesis by (simp add: Revoke_def Snapshot_def emptySnapshot_def)
next
  case (Some a)
  then have a: "\<not> finished (objs r ! a)" "cl_SessionID (claim (objs r ! a)) = sid" using mapped [OF assms Some] by simp_all
  note gone = revoke_gone [OF assms, of sid reason]
  have "closedEndpoints (Revoke sid reason r) = closedEndpoints r
      @ (case browser (objs r ! a) of None \<Rightarrow> [] | Some e \<Rightarrow> [(e, reason)])
      @ (case agent (objs r ! a) of None \<Rightarrow> [] | Some e \<Rightarrow> [(e, reason)])"
    using Some a by (simp add: Revoke_def fail_def Let_def)
  then have closed: "(e, reason) \<in> set (closedEndpoints (Revoke sid reason r))"
    if "browser (objs r ! a) = Some e \<or> agent (objs r ! a) = Some e" for e
    using that by auto
  have "Snapshot sid (Revoke sid reason r) = emptySnapshot sid 0" using gone [of sid] by (simp add: Snapshot_def)
  moreover have "Revoke sid reason' (Revoke sid reason r) = Revoke sid reason r"
    using gone [of sid] by (simp add: Revoke_def [of sid reason' "Revoke sid reason r"])
  ultimately show ?thesis using gone closed Some by (auto simp: emptySnapshot_def)
qed

text \<open>A run of the rate window: the frames it is asked about, with their times, all allowed.\<close>

fun allowAll :: "desktopRelayLimits \<Rightarrow> (time \<times> int) list \<Rightarrow> desktopRelayRateWindow \<Rightarrow> bool" where
  "allowAll l [] w = True"
| "allowAll l ((now, count) # rest) w = (let (ok, w') = allowWindow l now count w in ok \<and> allowAll l rest w')"

lemma allowAll_sum:
  assumes "allowAll l fs w" "\<not> isZero (startedAt w)" "list_all (\<lambda>f. fst f - startedAt w < seconds 1 \<and> 0 \<le> snd f) fs"
    "windowBytes w \<le> MaxBytesPerSecond l"
  shows "windowBytes w + sum_list (map snd fs) \<le> MaxBytesPerSecond l"
  using assms
proof (induction fs arbitrary: w)
  case Nil
  then show ?case by simp
next
  case (Cons f fs)
  obtain now count where f: "f = (now, count)" by (cases f)
  have "\<not> timeSub now (startedAt w) \<ge> seconds 1"
    using Cons.prems(3) f by (simp add: timeSub_less maxDuration_def minDuration_def not_le)
  then have w': "allowWindow l now count w = (windowBytes w + count \<le> MaxBytesPerSecond l, w\<lparr>windowBytes := windowBytes w + count\<rparr>)"
    using Cons.prems(2) by (simp add: allowWindow_def)
  have "windowBytes (w\<lparr>windowBytes := windowBytes w + count\<rparr>) + sum_list (map snd fs) \<le> MaxBytesPerSecond l"
    by (rule Cons.IH) (use Cons.prems f w' in auto)
  then show ?case by (simp add: f)
qed

text \<open>Frames allowed within one second of the first frame of a rate window never add up to more
  than the configured bytes per second.\<close>

theorem relay_rate_window_bound:
  assumes "allowAll l ((t0, n0) # fs) \<lparr>startedAt = 0, windowBytes = 0\<rparr>" "t0 \<noteq> 0"
    and "list_all (\<lambda>f. fst f - t0 < seconds 1 \<and> 0 \<le> snd f) fs"
  shows "n0 + sum_list (map snd fs) \<le> MaxBytesPerSecond l"
proof -
  have w: "allowWindow l t0 n0 \<lparr>startedAt = 0, windowBytes = 0\<rparr> = (n0 \<le> MaxBytesPerSecond l, \<lparr>startedAt = t0, windowBytes = n0\<rparr>)"
    by (simp add: allowWindow_def isZero_def)
  then have "allowAll l fs \<lparr>startedAt = t0, windowBytes = n0\<rparr>" "n0 \<le> MaxBytesPerSecond l" using assms(1) by simp_all
  from allowAll_sum [OF this(1)] this(2) assms(2,3) show ?thesis by (simp add: isZero_def)
qed

theorem relay_rate_window_bound_witness:
  "(100 :: int) + sum_list (map snd [(1500, 200 :: int)]) \<le> MaxBytesPerSecond defaultDesktopRelayLimits"
  using relay_rate_window_bound [of defaultDesktopRelayLimits 1000 100 "[(1500, 200)]"]
  by (simp add: allowWindow_def defaultDesktopRelayLimits_def isZero_def timeSub_def maxDuration_def minDuration_def)

section \<open>A concrete run\<close>

definition sampleClaim :: "desktopRelaySide \<Rightarrow> desktopRelayJoinClaim" where
  "sampleClaim side = \<lparr>cl_SessionID = ''session1'', cl_HomeID = ''homehome'', cl_Side = side, cl_KeyEpoch = 1,
     cl_AgentID = ''agent001'', cl_HardExpiresAt = 9000, cl_Reconnect = False, cl_ReconnectExpiresAt = 0\<rparr>"

definition sampleRelay :: inProcessDesktopRelay where
  "sampleRelay = \<lparr>limits = defaultDesktopRelayLimits, objs = [], sessionsMap = [], sink = [], closedEndpoints = []\<rparr>"

lemma sampleClaim_valid: "side = RelayBrowser \<or> side = RelayAgent \<Longrightarrow> validateClaim (\<lambda>_. False) (sampleClaim side) 1000 = Inr ()"
  by (auto simp: validateClaim_def sampleClaim_def validDesktopResourceID_def runes_def runes_of_ascii ascii_alnum_def isZero_def)

lemma sampleRelay_init: "relay_init sampleRelay"
  unfolding relay_init_def
  by (rule exI [of _ defaultDesktopRelayLimits])
    (simp add: newInProcessDesktopRelay_def validateLimits_def defaultDesktopRelayLimits_def sampleRelay_def DesktopMaxEncryptedFramePayload_def
      DesktopMaxClipboardWirePayload_def)

lemma sample_join: "fst (Join (\<lambda>_. False) (sampleClaim RelayBrowser) (Some 7) 1000 sampleRelay) = Inr (0, False)"
  using sampleClaim_valid [of RelayBrowser]
  by (simp add: Join_def sessionForJoinLocked_def sampleRelay_def countWhere_def mapObjs_def defaultDesktopRelayLimits_def
      joinRefused_def newSession_def sampleClaim_def canStart_def attach_def Let_def)

definition sampleJoined :: inProcessDesktopRelay where
  "sampleJoined = snd (Join (\<lambda>_. False) (sampleClaim RelayBrowser) (Some 7) 1000 sampleRelay)"

lemma sample_join_pair: "Join (\<lambda>_. False) (sampleClaim RelayBrowser) (Some 7) 1000 sampleRelay = (Inr (0, False), sampleJoined)"
  using sample_join by (simp add: sampleJoined_def prod_eq_iff)

theorem relay_join_exact_witness:
  "\<not> finished (objs sampleJoined ! 0) \<and> browser (objs sampleJoined ! 0) = Some 7"
proof -
  have "relay_inv sampleRelay" using relay.inv_init sampleRelay_init .
  from relay_join_exact [OF this sample_join_pair] show ?thesis by (simp add: sampleClaim_def)
qed

theorem relay_reachable_safe_witness: "reachable relay_init relay_step sampleJoined \<and> length (claims sampleJoined) \<le> 32"
proof -
  have "reachable relay_init relay_step sampleRelay" using sampleRelay_init by (rule reach_init)
  moreover have "relay_step sampleRelay sampleJoined" unfolding sampleJoined_def by (rule relay_step.joined)
  ultimately have r: "reachable relay_init relay_step sampleJoined" by (rule reach_step)
  from relay_reachable_safe [OF this] r show ?thesis by blast
qed

lemma sample_joined_map: "mget (sessionsMap sampleJoined) ''session1'' = Some 0 \<and> browser (objs sampleJoined ! 0) = Some 7"
  using sampleClaim_valid [of RelayBrowser]
  by (simp add: sampleJoined_def Join_def sessionForJoinLocked_def sampleRelay_def countWhere_def mapObjs_def defaultDesktopRelayLimits_def
      joinRefused_def newSession_def sampleClaim_def canStart_def attach_def startIfPaired_def updateObj_def Let_def)

theorem relay_revoke_closes_witness:
  "mget (sessionsMap (Revoke ''session1'' ''bye'' sampleJoined)) ''session1'' = None
   \<and> (7, ''bye'') \<in> set (closedEndpoints (Revoke ''session1'' ''bye'' sampleJoined))"
proof -
  have "relay_inv sampleJoined" unfolding sampleJoined_def by (rule Join_inv [OF relay.inv_init [OF sampleRelay_init]])
  from relay_revoke_closes [OF this, of "''session1''" "''bye''"] sample_joined_map show ?thesis by blast
qed

end
