(* ===== verification/Desktop_Service.thy ===== *)
theory Desktop_Service
  imports Trust_Store Relay
begin

text \<open>
  The desktop session service, \<open>internal/cloud/desktop_service.go\<close>: creating, reconnecting and
  terminating a session across the store and the relay. As in the code, the service is written
  against an interface \<open>desktopStore\<close>, here a record of operations on some database type; \<open>pgStore\<close>
  is the record of the store's own operations. The locale \<open>desktop_store_contract\<close> states what the
  service relies on, and is interpreted on \<open>pgStore\<close>. The agent resolver, the clock, the random
  identifiers and tokens and SHA-256 are arguments.
\<close>

section \<open>Interfaces\<close>

record 'db desktopStore =
  storeOperatorIdentity :: "string \<Rightarrow> string \<Rightarrow> string \<Rightarrow> time \<Rightarrow> 'db \<Rightarrow> DesktopIdentity result"
  storeEndpointIdentity :: "string \<Rightarrow> string \<Rightarrow> time \<Rightarrow> 'db \<Rightarrow> DesktopIdentity result"
  storeCreate :: "DesktopSession \<Rightarrow> DesktopJoinCredential \<Rightarrow> DesktopJoinCredential \<Rightarrow> DesktopSessionEvent \<Rightarrow> 'db \<Rightarrow> 'db result"
  storeGet :: "string \<Rightarrow> 'db \<Rightarrow> DesktopSession result"
  storeTransition :: "string \<Rightarrow> DesktopSessionState list \<Rightarrow> DesktopSessionState \<Rightarrow> string \<Rightarrow> time \<Rightarrow> DesktopSessionEvent \<Rightarrow>
    'db \<Rightarrow> (DesktopSession \<times> 'db) result"
  storeReconnect :: "string \<Rightarrow> 32 word \<Rightarrow> time \<Rightarrow> DesktopJoinCredential \<Rightarrow> DesktopJoinCredential \<Rightarrow> DesktopSessionEvent \<Rightarrow>
    'db \<Rightarrow> (DesktopSession \<times> 'db) result"

record desktopAgentPresence =
  pr_HomeID :: string
  pr_AgentID :: string
  pr_Capabilities :: "string list"

record desktopCreateInput =
  in_HomeID :: string
  in_AgentID :: string
  in_OperatorUserID :: string
  in_OperatorDeviceID :: string
  in_OperatorSessionID :: string
  in_SourceIPHash :: string
  in_SourceUserAgentHash :: string
  in_Permissions :: "DesktopPermission list"

record desktopCreateResult =
  cr_Session :: DesktopSession
  cr_BrowserCredential :: string
  cr_AgentCredential :: string
  cr_OperatorIdentity :: DesktopIdentity
  cr_EndpointIdentity :: DesktopIdentity

record desktopReconnectResult =
  rr_Session :: DesktopSession
  rr_BrowserCredential :: string
  rr_AgentCredential :: string

text \<open>What one call draws from outside: the clock, the relay's clock, fresh ids, tokens, the hash.\<close>

record service_env =
  svcNow :: time
  relayNow1 :: time
  relayNow2 :: time
  freshSessionID :: string
  freshCredentialID1 :: string
  freshCredentialID2 :: string
  token1 :: string
  token2 :: string
  sha256 :: "bytes \<Rightarrow> bytes"
  wideRune :: "nat \<Rightarrow> bool"

text \<open>The state the service works on; \<open>admission\<close> is \<open>None\<close> where the code has a nil relay.\<close>

record 'db service_state =
  database :: 'db
  admission :: "inProcessDesktopRelay option"

definition errDesktopAgentOffline :: error where "errDesktopAgentOffline = ErrMsg ''desktop agent is offline''"
definition errDesktopCapabilityMissing :: error where "errDesktopCapabilityMissing = ErrMsg ''desktop capability is unavailable''"
definition errDesktopIdentityUntrusted :: error where "errDesktopIdentityUntrusted = ErrMsg ''desktop identity is not trusted''"
definition errDesktopSessionConflict :: error where "errDesktopSessionConflict = ErrMsg ''desktop session already exists for agent''"
definition errDesktopSessionExpired :: error where "errDesktopSessionExpired = ErrMsg ''desktop session expired''"

definition desktopInitialJoinTTL :: duration where "desktopInitialJoinTTL = seconds 60"
definition desktopReconnectTTL :: duration where "desktopReconnectTTL = seconds 90"
definition desktopHardTTL :: duration where "desktopHardTTL = hours 8"

definition hasCapabilities :: "string list \<Rightarrow> string list \<Rightarrow> bool" where
  "hasCapabilities capabilities required = list_all (\<lambda>c. c \<in> set capabilities) required"

section \<open>Credentials\<close>

definition newCredentialPair :: "service_env \<Rightarrow> (string \<times> string) result" where
  "newCredentialPair env =
     (let b = trimSpace (token1 env); a = trimSpace (token2 env) in
      if b = [] \<or> a = [] \<or> b = a then Inl errDesktopSessionConflict else Inr (b, a))"

definition desktopCredentialHash :: "service_env \<Rightarrow> string \<Rightarrow> bytes" where
  "desktopCredentialHash env raw = sha256 env (bytes_of raw)"

definition newDesktopCredential ::
    "service_env \<Rightarrow> string \<Rightarrow> string \<Rightarrow> Side \<Rightarrow> 32 word \<Rightarrow> string \<Rightarrow> time \<Rightarrow> time \<Rightarrow> DesktopJoinCredential" where
  "newDesktopCredential env freshID sessionID side epoch raw createdAt expiresAt =
     \<lparr>c_ID = freshID, c_SessionID = sessionID, c_Side = side, c_CredentialHash = desktopCredentialHash env raw,
      c_KeyEpoch = epoch, c_CreatedAt = createdAt, c_ExpiresAt = expiresAt, c_ConsumedAt = None, c_RevokedAt = None\<rparr>"

section \<open>Admission\<close>

definition admissionClaim :: "DesktopSession \<Rightarrow> desktopRelaySide \<Rightarrow> desktopRelayJoinClaim" where
  "admissionClaim s side =
     \<lparr>cl_SessionID = s_ID s, cl_HomeID = s_HomeID s, cl_Side = side, cl_KeyEpoch = s_KeyEpoch s,
      cl_AgentID = s_AgentID s, cl_HardExpiresAt = s_HardExpiresAt s, cl_Reconnect = False, cl_ReconnectExpiresAt = 0\<rparr>"

definition reserveAdmission ::
    "service_env \<Rightarrow> DesktopSession \<Rightarrow> inProcessDesktopRelay option \<Rightarrow> unit result \<times> inProcessDesktopRelay option" where
  "reserveAdmission env s adm =
     (case adm of
        None \<Rightarrow> (Inr (), None)
      | Some r \<Rightarrow>
          (case Reserve (wideRune env) (admissionClaim s RelayBrowser) (relayNow1 env) r of
             (Inl e, r1) \<Rightarrow> (Inl e, Some r1)
           | (Inr _, r1) \<Rightarrow>
               (case Reserve (wideRune env) (admissionClaim s RelayAgent) (relayNow2 env) r1 of
                  (Inl e, r2) \<Rightarrow> (Inl e, Some (CancelReservation (admissionClaim s RelayBrowser) r2))
                | (Inr _, r2) \<Rightarrow> (Inr (), Some r2))))"

definition releaseAdmission :: "DesktopSession \<Rightarrow> inProcessDesktopRelay option \<Rightarrow> inProcessDesktopRelay option" where
  "releaseAdmission s =
     map_option (\<lambda>r. CancelReservation (admissionClaim s RelayBrowser) (CancelReservation (admissionClaim s RelayAgent) r))"

section \<open>Create\<close>

definition requestedSession :: "service_env \<Rightarrow> desktopCreateInput \<Rightarrow> DesktopIdentity \<Rightarrow> DesktopSession" where
  "requestedSession env inp operator =
     \<lparr>s_ID = freshSessionID env, s_HomeID = in_HomeID inp, s_AgentID = in_AgentID inp,
      s_OperatorUserID = in_OperatorUserID inp, s_OperatorDeviceIdentityID = id_ID operator,
      s_RequestedPermissions = in_Permissions inp, s_EffectivePermissions = in_Permissions inp,
      s_State = Requested, s_KeyEpoch = 1, s_RequestedAt = svcNow env,
      s_JoinExpiresAt = svcNow env + desktopInitialJoinTTL, s_HardExpiresAt = svcNow env + desktopHardTTL,
      s_ActiveAt = None, s_ReconnectExpiresAt = None, s_TerminatedAt = None, s_TerminationReason = [],
      s_SourceIPHash = in_SourceIPHash inp, s_SourceUserAgentHash = in_SourceUserAgentHash inp,
      s_BrowserToAgentBytes = 0, s_AgentToBrowserBytes = 0\<rparr>"

text \<open>The checks before anything is reserved: scope, permissions, presence, the two identities.\<close>

definition trustedParties ::
    "'db desktopStore \<Rightarrow> (string \<Rightarrow> string \<Rightarrow> desktopAgentPresence option) \<Rightarrow> service_env \<Rightarrow> desktopCreateInput \<Rightarrow> 'db \<Rightarrow>
     (DesktopIdentity \<times> DesktopIdentity) result" where
  "trustedParties st resolve env inp db =
     (if blank (in_HomeID inp) \<or> blank (in_AgentID inp) \<or> blank (in_OperatorUserID inp) \<or> blank (in_OperatorDeviceID inp)
      then Inl errDesktopIdentityUntrusted
      else
        bindR (ValidateDesktopPermissions (in_Permissions inp)) (\<lambda>_.
        case resolve (in_HomeID inp) (in_AgentID inp) of
          None \<Rightarrow> Inl errDesktopAgentOffline
        | Some p \<Rightarrow>
            if pr_HomeID p \<noteq> in_HomeID inp \<or> pr_AgentID p \<noteq> in_AgentID inp then Inl errDesktopAgentOffline
            else if \<not> hasCapabilities (pr_Capabilities p) (''desktop.session.open'' # map permissionString (in_Permissions inp))
            then Inl errDesktopCapabilityMissing
            else
              (case storeOperatorIdentity st (in_HomeID inp) (in_OperatorUserID inp) (in_OperatorDeviceID inp) (svcNow env) db of
                 Inl e \<Rightarrow> Inl (if isNotFound e then errDesktopIdentityUntrusted else e)
               | Inr operator \<Rightarrow>
                   if id_AuthSessionID operator \<noteq> [] \<and> id_AuthSessionID operator \<noteq> in_OperatorSessionID inp
                   then Inl errDesktopIdentityUntrusted
                   else if id_HomeID operator \<noteq> in_HomeID inp \<or> id_UserID operator \<noteq> in_OperatorUserID inp
                      \<or> id_DeviceID operator \<noteq> in_OperatorDeviceID inp \<or> id_IdentityType operator \<noteq> OperatorDevice
                   then Inl errDesktopIdentityUntrusted
                   else
                     (case storeEndpointIdentity st (in_HomeID inp) (in_AgentID inp) (svcNow env) db of
                        Inl e \<Rightarrow> Inl (if isNotFound e then errDesktopIdentityUntrusted else e)
                      | Inr endpoint \<Rightarrow>
                          if id_HomeID endpoint \<noteq> in_HomeID inp \<or> id_AgentID endpoint \<noteq> in_AgentID inp
                             \<or> id_IdentityType endpoint \<noteq> Endpoint
                          then Inl errDesktopIdentityUntrusted
                          else Inr (operator, endpoint)))))"

text \<open>From the reservation to the commit, with the deferred release on every error.\<close>

definition admitSession ::
    "'db desktopStore \<Rightarrow> service_env \<Rightarrow> DesktopSession \<Rightarrow> 'db service_state \<Rightarrow>
     (string \<times> string) result \<times> 'db service_state" where
  "admitSession st env s w =
     (case reserveAdmission env s (admission w) of
        (Inl e, adm) \<Rightarrow> (Inl e, w\<lparr>admission := adm\<rparr>)
      | (Inr _, adm) \<Rightarrow>
          (case newCredentialPair env of
             Inl e \<Rightarrow> (Inl e, w\<lparr>admission := releaseAdmission s adm\<rparr>)
           | Inr (b, a) \<Rightarrow>
               (case storeCreate st s
                    (newDesktopCredential env (freshCredentialID1 env) (s_ID s) Browser 1 b (svcNow env) (s_JoinExpiresAt s))
                    (newDesktopCredential env (freshCredentialID2 env) (s_ID s) Agent 1 a (svcNow env) (s_JoinExpiresAt s))
                    \<lparr>e_SessionID = s_ID s, e_Sequence = 0, e_EventType = ''session.requested'', e_ActorType = ''user'',
                     e_ActorID = s_OperatorUserID s, e_OccurredAt = svcNow env, e_Severity = ''info'', e_ReasonCode = [],
                     e_MetadataJSON = ''{}''\<rparr> (database w) of
                  Inl e \<Rightarrow> (Inl (if isConflict e then errDesktopSessionConflict else e), w\<lparr>admission := releaseAdmission s adm\<rparr>)
                | Inr db' \<Rightarrow> (Inr (b, a), w\<lparr>database := db', admission := adm\<rparr>))))"

definition Create ::
    "'db desktopStore \<Rightarrow> (string \<Rightarrow> string \<Rightarrow> desktopAgentPresence option) \<Rightarrow> service_env \<Rightarrow> desktopCreateInput \<Rightarrow>
     'db service_state \<Rightarrow> desktopCreateResult result \<times> 'db service_state" where
  "Create st resolve env inp w =
     (case trustedParties st resolve env inp (database w) of
        Inl e \<Rightarrow> (Inl e, w)
      | Inr (operator, endpoint) \<Rightarrow>
          let s = requestedSession env inp operator in
          (case admitSession st env s w of
             (Inl e, w') \<Rightarrow> (Inl e, w')
           | (Inr (b, a), w') \<Rightarrow>
               (Inr \<lparr>cr_Session = s, cr_BrowserCredential = b, cr_AgentCredential = a,
                     cr_OperatorIdentity = operator, cr_EndpointIdentity = endpoint\<rparr>, w')))"

section \<open>Reconnect and terminate\<close>

definition Reconnect ::
    "'db desktopStore \<Rightarrow> service_env \<Rightarrow> string \<Rightarrow> string \<Rightarrow> 'db service_state \<Rightarrow> (desktopReconnectResult \<times> 'db service_state) result" where
  "Reconnect st env sessionID userID w =
     bindR (storeGet st sessionID (database w)) (\<lambda>s.
     if s_OperatorUserID s \<noteq> userID then Inl errDesktopIdentityUntrusted
     else if \<not> s_HardExpiresAt s > svcNow env then Inl errDesktopSessionExpired
     else if s_State s \<noteq> Active \<and> s_State s \<noteq> Reconnecting then Inl errDesktopSessionConflict
     else
       bindR (newCredentialPair env) (\<lambda>(b, a).
       let expires0 = svcNow env + desktopReconnectTTL;
           expiresAt = (if expires0 > s_HardExpiresAt s then s_HardExpiresAt s else expires0);
           nextEpoch = s_KeyEpoch s + 1 in
       (case storeReconnect st (s_ID s) (s_KeyEpoch s) expiresAt
            (newDesktopCredential env (freshCredentialID1 env) (s_ID s) Browser nextEpoch b (svcNow env) expiresAt)
            (newDesktopCredential env (freshCredentialID2 env) (s_ID s) Agent nextEpoch a (svcNow env) expiresAt)
            \<lparr>e_SessionID = s_ID s, e_Sequence = 0, e_EventType = ''session.reconnecting'', e_ActorType = ''browser'',
             e_ActorID = userID, e_OccurredAt = svcNow env, e_Severity = ''info'', e_ReasonCode = [],
             e_MetadataJSON = ''{}''\<rparr> (database w) of
          Inl e \<Rightarrow> Inl (if isConflict e then errDesktopSessionConflict else e)
        | Inr (updated, db') \<Rightarrow>
            Inr (\<lparr>rr_Session = updated, rr_BrowserCredential = b, rr_AgentCredential = a\<rparr>, w\<lparr>database := db'\<rparr>))))"

definition Terminate ::
    "'db desktopStore \<Rightarrow> service_env \<Rightarrow> string \<Rightarrow> string \<Rightarrow> string \<Rightarrow> 'db service_state \<Rightarrow> (DesktopSession \<times> 'db service_state) result" where
  "Terminate st env sessionID userID reason0 w =
     bindR (storeGet st sessionID (database w)) (\<lambda>s.
     if s_OperatorUserID s \<noteq> userID then Inl errDesktopIdentityUntrusted
     else if s_State s \<in> {Denied, Failed, Expired, Terminated} then Inr (s, w)
     else
       let reason = (if blank reason0 then ''user_ended'' else reason0) in
       (case storeTransition st (s_ID s) [Requested, Offered, AgentReady, Joining, Active, Reconnecting] Terminated reason (svcNow env)
            \<lparr>e_SessionID = s_ID s, e_Sequence = 0, e_EventType = ''session.terminated'', e_ActorType = ''user'',
             e_ActorID = userID, e_OccurredAt = svcNow env, e_Severity = ''info'', e_ReasonCode = reason,
             e_MetadataJSON = ''{}''\<rparr> (database w) of
          Inl e \<Rightarrow> Inl (if isConflict e then errDesktopSessionConflict else e)
        | Inr (updated, db') \<Rightarrow>
            Inr (updated, w\<lparr>database := db', admission := map_option (Revoke (s_ID s) reason) (admission w)\<rparr>)))"

text \<open>The store behind the interface.\<close>

definition pgStore :: "(string \<Rightarrow> bool) \<Rightarrow> desktop_db desktopStore" where
  "pgStore jsonObject =
     \<lparr>storeOperatorIdentity = GetActiveDesktopOperatorIdentity, storeEndpointIdentity = GetActiveDesktopEndpointIdentity,
      storeCreate = CreateDesktopSession jsonObject, storeGet = GetDesktopSession,
      storeTransition = TransitionDesktopSession jsonObject, storeReconnect = BeginDesktopReconnect jsonObject\<rparr>"

section \<open>Reservations come and go without a trace\<close>

text \<open>A relay with one more session, for a fresh id, that holds only reservations.\<close>

definition admitted ::
    "inProcessDesktopRelay \<Rightarrow> desktopRelayJoinClaim \<Rightarrow> bool \<Rightarrow> bool \<Rightarrow> inProcessDesktopRelay" where
  "admitted r c b a =
     r\<lparr>objs := objs r @ [(newSession c)\<lparr>browserReserved := b, agentReserved := a\<rparr>],
       sessionsMap := mput (cl_SessionID c) (length (objs r)) (sessionsMap r)\<rparr>"

lemma admissionClaim_fields [simp]:
  "cl_SessionID (admissionClaim s side) = s_ID s" "cl_HomeID (admissionClaim s side) = s_HomeID s"
  "cl_Side (admissionClaim s side) = side" "cl_KeyEpoch (admissionClaim s side) = s_KeyEpoch s"
  "cl_AgentID (admissionClaim s side) = s_AgentID s" "cl_HardExpiresAt (admissionClaim s side) = s_HardExpiresAt s"
  "cl_Reconnect (admissionClaim s side) = False" "cl_ReconnectExpiresAt (admissionClaim s side) = 0"
  by (simp_all add: admissionClaim_def)

lemma mdel_mput_new: "mget m k = None \<Longrightarrow> mdel k (mput k v m) = m"
  by (induction m) (auto split: if_splits)

lemma admitted_fields:
  "mget (sessionsMap (admitted r c b a)) (cl_SessionID c) = Some (length (objs r))"
  "objs (admitted r c b a) ! length (objs r) = (newSession c)\<lparr>browserReserved := b, agentReserved := a\<rparr>"
  by (simp_all add: admitted_def)

lemma admitted_update:
  "updateObj (length (objs r)) (\<lambda>s. s\<lparr>browserReserved := b'\<rparr>) (admitted r c b a) = admitted r c b' a"
  "updateObj (length (objs r)) (\<lambda>s. s\<lparr>agentReserved := a'\<rparr>) (admitted r c b a) = admitted r c b a'"
  by (simp_all add: updateObj_def admitted_def)

lemma reserve_browser:
  assumes "mget (sessionsMap r) (s_ID s) = None"
  shows "Reserve wide (admissionClaim s RelayBrowser) now r = (Inr (), admitted r (admissionClaim s RelayBrowser) True False)
    \<or> (\<exists>e. Reserve wide (admissionClaim s RelayBrowser) now r = (Inl e, r))"
  using assms
  by (simp add: Reserve_def sessionForJoinLocked_def newSession_def admitted_def updateObj_def Let_def)

lemma reserve_agent:
  fixes r s
  defines "r1 \<equiv> admitted r (admissionClaim s RelayBrowser) True False"
  shows "Reserve wide (admissionClaim s RelayAgent) now r1 = (Inr (), admitted r (admissionClaim s RelayBrowser) True True)
    \<or> (\<exists>e. Reserve wide (admissionClaim s RelayAgent) now r1 = (Inl e, r1))"
proof -
  have same: "sessionForJoinLocked (admissionClaim s RelayAgent) r1 = Inr (length (objs r), r1)"
    using admitted_fields [of r "admissionClaim s RelayBrowser" True False]
    by (simp add: r1_def sessionForJoinLocked_def Let_def newSession_def desktopRelayTimestampEqual_def)
  show ?thesis
    using admitted_fields(2) [of r "admissionClaim s RelayBrowser" True False]
    by (simp add: Reserve_def same Let_def) (simp add: r1_def admitted_update newSession_def)
qed

lemma cancel_agent:
  "CancelReservation (admissionClaim s RelayAgent) (admitted r (admissionClaim s RelayBrowser) True a)
     = admitted r (admissionClaim s RelayBrowser) True False"
  using admitted_fields [of r "admissionClaim s RelayBrowser" True a]
    admitted_fields(2) [of r "admissionClaim s RelayBrowser" True False]
  by (simp add: CancelReservation_def newSession_def Let_def admitted_update)

lemma cancel_browser:
  assumes "mget (sessionsMap r) (s_ID s) = None"
  shows "sessionsMap (CancelReservation (admissionClaim s RelayBrowser) (admitted r (admissionClaim s RelayBrowser) b False))
     = sessionsMap r"
proof -
  have "sessionsMap (admitted r (admissionClaim s RelayBrowser) b' False) = mput (s_ID s) (length (objs r)) (sessionsMap r)" for b'
    by (simp add: admitted_def)
  then show ?thesis
    using admitted_fields [of r "admissionClaim s RelayBrowser" b False]
      admitted_fields(2) [of r "admissionClaim s RelayBrowser" False False] mdel_mput_new [OF assms]
    by (simp add: CancelReservation_def newSession_def Let_def admitted_update)
qed

text \<open>The reservation either holds both sides or leaves the set of relay sessions as it was.\<close>

lemma reserveAdmission_cases:
  assumes fresh: "\<And>r. adm = Some r \<Longrightarrow> mget (sessionsMap r) (s_ID s) = None" and run: "reserveAdmission env s adm = (res, adm')"
  shows "case res of Inl e \<Rightarrow> map_option sessionsMap adm' = map_option sessionsMap adm
    | Inr _ \<Rightarrow> adm' = map_option (\<lambda>r. admitted r (admissionClaim s RelayBrowser) True True) adm"
proof (cases adm)
  case None
  then show ?thesis using run by (simp add: reserveAdmission_def split: sum.splits)
next
  case (Some r)
  note f = fresh [OF Some]
  let ?c = "admissionClaim s RelayBrowser"
  consider e where "Reserve (wideRune env) ?c (relayNow1 env) r = (Inl e, r)"
    | "Reserve (wideRune env) ?c (relayNow1 env) r = (Inr (), admitted r ?c True False)"
    using reserve_browser [OF f] by blast
  then show ?thesis
  proof cases
    case 1
    then show ?thesis using run Some by (auto simp: reserveAdmission_def)
  next
    case 2
    from reserve_agent [of "wideRune env" s "relayNow2 env" r] show ?thesis
      using 2 run Some cancel_browser [OF f, of True] by (auto simp: reserveAdmission_def)
  qed
qed

lemma releaseAdmission_restores:
  assumes "\<And>r. adm = Some r \<Longrightarrow> mget (sessionsMap r) (s_ID s) = None"
  shows "map_option sessionsMap (releaseAdmission s (map_option (\<lambda>r. admitted r (admissionClaim s RelayBrowser) True True) adm))
    = map_option sessionsMap adm"
  using assms cancel_browser [of _ s True] by (cases adm) (simp_all add: releaseAdmission_def cancel_agent)

section \<open>What the service relies on\<close>

locale desktop_store_contract =
  fixes st :: "'db desktopStore"
    and inv :: "'db \<Rightarrow> bool"
  assumes get_law: "storeGet st sid db = Inr s \<Longrightarrow> s_ID s = sid"
    and create_law: "inv db \<Longrightarrow> storeCreate st s b a e db = Inr db' \<Longrightarrow> inv db' \<and> storeGet st (s_ID s) db' = Inr s"
    and transition_law: "inv db \<Longrightarrow> storeTransition st sid froms next reason tm e db = Inr (out, db') \<Longrightarrow>
      inv db' \<and> storeGet st sid db' = Inr out \<and> s_State out = next"
    and reconnect_law: "inv db \<Longrightarrow> storeReconnect st sid epoch until b a e db = Inr (out, db') \<Longrightarrow>
      inv db' \<and> storeGet st sid db' = Inr out \<and> s_KeyEpoch out = epoch + 1 \<and> s_State out = Reconnecting"
begin

lemma admit_cases:
  assumes fresh: "\<And>r. admission w = Some r \<Longrightarrow> mget (sessionsMap r) (s_ID s) = None"
    and run: "admitSession st env s w = (res, w')"
  shows "case res of
      Inl e \<Rightarrow> database w' = database w \<and> map_option sessionsMap (admission w') = map_option sessionsMap (admission w)
    | Inr (b, a) \<Rightarrow> newCredentialPair env = Inr (b, a)
        \<and> admission w' = map_option (\<lambda>r. admitted r (admissionClaim s RelayBrowser) True True) (admission w)
        \<and> (\<exists>e. storeCreate st s
             (newDesktopCredential env (freshCredentialID1 env) (s_ID s) Browser 1 b (svcNow env) (s_JoinExpiresAt s))
             (newDesktopCredential env (freshCredentialID2 env) (s_ID s) Agent 1 a (svcNow env) (s_JoinExpiresAt s))
             e (database w) = Inr (database w'))"
proof -
  obtain r1 adm where 1: "reserveAdmission env s (admission w) = (r1, adm)" by fastforce
  note cases1 = reserveAdmission_cases [OF fresh 1]
  show ?thesis
  proof (cases r1)
    case (Inl e)
    then show ?thesis using run 1 cases1 by (auto simp: admitSession_def)
  next
    case (Inr u)
    then have adm: "adm = map_option (\<lambda>r. admitted r (admissionClaim s RelayBrowser) True True) (admission w)"
      using cases1 by simp
    have rel: "map_option sessionsMap (releaseAdmission s adm) = map_option sessionsMap (admission w)"
      unfolding adm using fresh by (rule releaseAdmission_restores)
    show ?thesis
    proof (cases "newCredentialPair env")
      case (Inl e)
      then have "res = Inl e" "w' = w\<lparr>admission := releaseAdmission s adm\<rparr>"
        using run 1 Inr by (simp_all add: admitSession_def)
      then show ?thesis using rel by simp
    next
      case (Inr ba)
      obtain b a where ba: "ba = (b, a)" by (cases ba)
      show ?thesis
        using run 1 \<open>r1 = Inr u\<close> Inr rel adm unfolding ba
        by (auto simp: admitSession_def split: sum.splits)
    qed
  qed
qed

lemma create_session:
  assumes inv: "inv (database w)" and fresh: "\<And>r. admission w = Some r \<Longrightarrow> mget (sessionsMap r) (freshSessionID env) = None"
    and run: "Create st resolve env inp w = (res, w')"
  shows "case res of
      Inl e \<Rightarrow> database w' = database w \<and> map_option sessionsMap (admission w') = map_option sessionsMap (admission w)
    | Inr ok \<Rightarrow> inv (database w') \<and> storeGet st (freshSessionID env) (database w') = Inr (cr_Session ok)
        \<and> (\<forall>r'. admission w' = Some r' \<longrightarrow> (\<exists>x. mget (sessionsMap r') (freshSessionID env) = Some x
              \<and> browserReserved (objs r' ! x) \<and> agentReserved (objs r' ! x)))"
proof (cases "trustedParties st resolve env inp (database w)")
  case (Inl e)
  then show ?thesis using run by (auto simp: Create_def)
next
  case (Inr oe)
  obtain operator endpoint where oe: "oe = (operator, endpoint)" by (cases oe)
  let ?s = "requestedSession env inp operator"
  have sid: "s_ID ?s = freshSessionID env" by (simp add: requestedSession_def)
  obtain r1 w1 where 1: "admitSession st env ?s w = (r1, w1)" by fastforce
  note c = admit_cases [OF fresh [folded sid] 1]
  show ?thesis
  proof (cases r1)
    case (Inl e)
    then show ?thesis using c run Inr 1 by (auto simp: Create_def oe)
  next
    case (Inr ba)
    obtain b a where ba: "ba = (b, a)" by (cases ba)
    have ok: "inv (database w1) \<and> storeGet st (s_ID ?s) (database w1) = Inr ?s"
      using c create_law [OF inv] unfolding Inr ba by auto
    have adm: "admission w1 = map_option (\<lambda>r. admitted r (admissionClaim ?s RelayBrowser) True True) (admission w)"
      using c unfolding Inr ba by simp
    have "\<exists>x. mget (sessionsMap r') (s_ID ?s) = Some x \<and> browserReserved (objs r' ! x) \<and> agentReserved (objs r' ! x)"
      if "admission w1 = Some r'" for r'
      using that adm admitted_fields [of _ "admissionClaim ?s RelayBrowser" True True] by auto
    then show ?thesis
      using ok run \<open>trustedParties st resolve env inp (database w) = Inr oe\<close> 1 Inr
      by (auto simp: Create_def oe ba sid Let_def)
  qed
qed

lemma terminate_session:
  assumes inv: "inv (database w)" and run: "Terminate st env sid uid reason w = Inr (out, w')"
  shows "inv (database w') \<and> storeGet st sid (database w') = Inr out \<and> isTerminalDesktopState (s_State out)
    \<and> (w' = w \<or> (s_State out = Terminated \<and> (\<exists>why. admission w' = map_option (Revoke sid why) (admission w))))"
proof -
  obtain s where s: "storeGet st sid (database w) = Inr s"
    using run unfolding Terminate_def by (auto simp: bindR_Inr_iff)
  have sid: "s_ID s = sid" using get_law [OF s] .
  show ?thesis
  proof (cases "s_State s \<in> {Denied, Failed, Expired, Terminated}")
    case True
    then show ?thesis using run s inv unfolding Terminate_def
      by (auto simp: isTerminalDesktopState_def split: if_splits)
  next
    case False
    then show ?thesis
      using run s sid transition_law [OF inv] unfolding Terminate_def
      by (auto simp: Let_def isTerminalDesktopState_def split: if_splits sum.splits)
  qed
qed

lemma reconnect_session:
  assumes inv: "inv (database w)" and run: "Reconnect st env sid uid w = Inr (out, w')"
  shows "inv (database w') \<and> storeGet st sid (database w') = Inr (rr_Session out)
    \<and> (\<exists>s. storeGet st sid (database w) = Inr s \<and> s_OperatorUserID s = uid \<and> s_KeyEpoch (rr_Session out) = s_KeyEpoch s + 1)"
proof -
  obtain s where s: "storeGet st sid (database w) = Inr s"
    using run unfolding Reconnect_def by (auto simp: bindR_Inr_iff)
  have sid: "s_ID s = sid" using get_law [OF s] .
  obtain b a until e db' where "storeReconnect st (s_ID s) (s_KeyEpoch s) until b a e (database w) = Inr (rr_Session out, db')"
      "w' = w\<lparr>database := db'\<rparr>" "s_OperatorUserID s = uid"
    using run s unfolding Reconnect_def Let_def
    by (simp only: bindR_simps if_Inl_Inr_iff bindR_Inr_iff)
       (elim exE conjE, auto simp: case_sum_Inr_iff split: prod.split_asm)
  then show ?thesis using reconnect_law [OF inv] s sid by auto
qed

end

section \<open>The store meets the contract\<close>

interpretation pg: desktop_store_contract "pgStore json" trust_inv for json
proof unfold_locales
  show "s_ID s = sid" if "storeGet (pgStore json) sid db = Inr s" for sid db s
    using that findSession_Some by (fastforce simp: pgStore_def)
  show "trust_inv db' \<and> storeGet (pgStore json) (s_ID s) db' = Inr s"
    if "trust_inv db" "storeCreate (pgStore json) s b a e db = Inr db'" for db s b a e db'
  proof -
    have run: "CreateDesktopSession json s b a e db = Inr db'" using that(2) by (simp add: pgStore_def)
    note eff = create_effect [OF trust_inv_store [OF that(1)] run]
    show ?thesis using session_op_trust_inv [OF that(1) eff(1) create_frame [OF run]] eff(2) by (simp add: pgStore_def)
  qed
  show "trust_inv db' \<and> storeGet (pgStore json) sid db' = Inr out \<and> s_State out = next"
    if "trust_inv db" "storeTransition (pgStore json) sid froms next reason tm e db = Inr (out, db')"
    for db sid froms "next" reason tm e out db'
  proof -
    have run: "TransitionDesktopSession json sid froms next reason tm e db = Inr (out, db')" using that(2) by (simp add: pgStore_def)
    note inv = trust_inv_store [OF that(1)]
    show ?thesis
      using session_op_trust_inv [OF that(1) TransitionDesktopSession_inv [OF inv run] transition_frame [OF run]]
        transition_out [OF inv run] by (fastforce simp: pgStore_def)
  qed
  show "trust_inv db' \<and> storeGet (pgStore json) sid db' = Inr out \<and> s_KeyEpoch out = epoch + 1 \<and> s_State out = Reconnecting"
    if "trust_inv db" "storeReconnect (pgStore json) sid epoch until b a e db = Inr (out, db')"
    for db sid epoch until b a e out db'
  proof -
    have run: "BeginDesktopReconnect json sid epoch until b a e db = Inr (out, db')" using that(2) by (simp add: pgStore_def)
    note inv = trust_inv_store [OF that(1)]
    show ?thesis
      using session_op_trust_inv [OF that(1) BeginDesktopReconnect_inv [OF inv run] reconnect_frame [OF run]]
        reconnect_out [OF inv run] by (fastforce simp: pgStore_def)
  qed
qed

lemma scanned_identity: "scanDesktopIdentity P db = Inr i \<Longrightarrow> i \<in> set (identities db) \<and> P i"
  by (auto simp: scanDesktopIdentity_def find_Some_iff split: option.splits)

text \<open>What the checks before the reservation have established.\<close>

lemma trustedParties_Inr:
  assumes "trustedParties (pgStore json) resolve env inp db = Inr (operator, endpoint)"
  shows "\<exists>p. resolve (in_HomeID inp) (in_AgentID inp) = Some p \<and> pr_HomeID p = in_HomeID inp \<and> pr_AgentID p = in_AgentID inp
      \<and> set (''desktop.session.open'' # map permissionString (in_Permissions inp)) \<subseteq> set (pr_Capabilities p)"
    and "GetActiveDesktopOperatorIdentity (in_HomeID inp) (in_OperatorUserID inp) (in_OperatorDeviceID inp) (svcNow env) db = Inr operator"
    and "GetActiveDesktopEndpointIdentity (in_HomeID inp) (in_AgentID inp) (svcNow env) db = Inr endpoint"
    and "id_AuthSessionID operator = [] \<or> id_AuthSessionID operator = in_OperatorSessionID inp"
  using assms unfolding trustedParties_def pgStore_def
  by (auto simp: bindR_Inr_iff hasCapabilities_def list_all_iff split: if_split_asm option.split_asm sum.split_asm)

text \<open>A successful creation has committed the session with its two credentials.\<close>

lemma create_committed:
  assumes "Create st resolve env inp w = (Inr ok, w')"
  obtains e where "trustedParties st resolve env inp (database w) = Inr (cr_OperatorIdentity ok, cr_EndpointIdentity ok)"
    "cr_Session ok = requestedSession env inp (cr_OperatorIdentity ok)"
    "storeCreate st (cr_Session ok)
       (newDesktopCredential env (freshCredentialID1 env) (freshSessionID env) Browser 1 (cr_BrowserCredential ok) (svcNow env)
          (svcNow env + desktopInitialJoinTTL))
       (newDesktopCredential env (freshCredentialID2 env) (freshSessionID env) Agent 1 (cr_AgentCredential ok) (svcNow env)
          (svcNow env + desktopInitialJoinTTL)) e (database w) = Inr (database w')"
proof -
  obtain operator endpoint where t: "trustedParties st resolve env inp (database w) = Inr (operator, endpoint)"
    using assms by (cases "trustedParties st resolve env inp (database w)") (auto simp: Create_def)
  let ?s = "requestedSession env inp operator"
  obtain b a where adm: "admitSession st env ?s w = (Inr (b, a), w')"
    and ok: "ok = \<lparr>cr_Session = ?s, cr_BrowserCredential = b, cr_AgentCredential = a,
      cr_OperatorIdentity = operator, cr_EndpointIdentity = endpoint\<rparr>"
    using assms t by (auto simp: Create_def Let_def split: prod.split_asm sum.split_asm)
  have fields: "s_ID ?s = freshSessionID env" "s_JoinExpiresAt ?s = svcNow env + desktopInitialJoinTTL"
    by (simp_all add: requestedSession_def)
  from adm have "\<exists>e. storeCreate st ?s
       (newDesktopCredential env (freshCredentialID1 env) (s_ID ?s) Browser 1 b (svcNow env) (s_JoinExpiresAt ?s))
       (newDesktopCredential env (freshCredentialID2 env) (s_ID ?s) Agent 1 a (svcNow env) (s_JoinExpiresAt ?s)) e (database w)
     = Inr (database w')"
    unfolding admitSession_def by (auto split: prod.split_asm sum.split_asm)
  then show thesis using t ok that by (auto simp: fields)
qed

section \<open>Properties\<close>

text \<open>C4: creating a session is all or nothing across the store and the relay: on any error the
  database and the relay's set of sessions are as before, and on success the session is stored and
  both relay sides are reserved for it.\<close>

theorem service_create_all_or_nothing:
  assumes "trust_inv (database w)"
    and "\<And>r. admission w = Some r \<Longrightarrow> mget (sessionsMap r) (freshSessionID env) = None"
    and "Create (pgStore jsonObject) resolve env inp w = (res, w')"
  shows "case res of
      Inl e \<Rightarrow> database w' = database w \<and> map_option sessionsMap (admission w') = map_option sessionsMap (admission w)
    | Inr ok \<Rightarrow> trust_inv (database w') \<and> GetDesktopSession (freshSessionID env) (database w') = Inr (cr_Session ok)
        \<and> (\<forall>r'. admission w' = Some r' \<longrightarrow> (\<exists>x. mget (sessionsMap r') (freshSessionID env) = Some x
              \<and> browserReserved (objs r' ! x) \<and> agentReserved (objs r' ! x)))"
  using pg.create_session [OF assms] by (auto simp: pgStore_def split: sum.splits)

text \<open>A session is created only for an online agent that advertises the requested permissions,
  between an operator device and an endpoint whose identities are stored, unrevoked, unexpired and
  bound to the caller's home, user, device, login session and agent; the stored session grants
  exactly the validated permissions, for at most 60 seconds of joining and eight hours in all.\<close>

theorem service_create_requires_trust:
  assumes "Create (pgStore jsonObject) resolve env inp w = (Inr ok, w')"
  shows "(\<exists>p. resolve (in_HomeID inp) (in_AgentID inp) = Some p \<and> pr_HomeID p = in_HomeID inp \<and> pr_AgentID p = in_AgentID inp
        \<and> set (''desktop.session.open'' # map permissionString (in_Permissions inp)) \<subseteq> set (pr_Capabilities p))
    \<and> (\<exists>i \<in> set (identities (database w)). i = cr_OperatorIdentity ok \<and> id_IdentityType i = OperatorDevice
        \<and> id_RevokedAt i = None \<and> svcNow env < id_ExpiresAt i \<and> id_HomeID i = in_HomeID inp
        \<and> id_UserID i = in_OperatorUserID inp \<and> id_DeviceID i = in_OperatorDeviceID inp
        \<and> (id_AuthSessionID i = [] \<or> id_AuthSessionID i = in_OperatorSessionID inp))
    \<and> (\<exists>i \<in> set (identities (database w)). i = cr_EndpointIdentity ok \<and> id_IdentityType i = Endpoint
        \<and> id_RevokedAt i = None \<and> svcNow env < id_ExpiresAt i \<and> id_HomeID i = in_HomeID inp \<and> id_AgentID i = in_AgentID inp)
    \<and> s_EffectivePermissions (cr_Session ok) = in_Permissions inp \<and> s_KeyEpoch (cr_Session ok) = 1
    \<and> s_JoinExpiresAt (cr_Session ok) = svcNow env + seconds 60 \<and> s_HardExpiresAt (cr_Session ok) = svcNow env + hours 8"
proof (rule create_committed [OF assms])
  assume t: "trustedParties (pgStore jsonObject) resolve env inp (database w) = Inr (cr_OperatorIdentity ok, cr_EndpointIdentity ok)"
    and s: "cr_Session ok = requestedSession env inp (cr_OperatorIdentity ok)"
  note p = trustedParties_Inr [OF t]
  have o: "cr_OperatorIdentity ok \<in> set (identities (database w))" "isActiveOperator (cr_OperatorIdentity ok)"
      "svcNow env < id_ExpiresAt (cr_OperatorIdentity ok)" "id_HomeID (cr_OperatorIdentity ok) = in_HomeID inp"
      "id_UserID (cr_OperatorIdentity ok) = in_OperatorUserID inp" "id_DeviceID (cr_OperatorIdentity ok) = in_OperatorDeviceID inp"
    using scanned_identity [OF p(2) [unfolded GetActiveDesktopOperatorIdentity_def]] by auto
  have e: "cr_EndpointIdentity ok \<in> set (identities (database w))" "isActiveEndpoint (cr_EndpointIdentity ok)"
      "svcNow env < id_ExpiresAt (cr_EndpointIdentity ok)" "id_HomeID (cr_EndpointIdentity ok) = in_HomeID inp"
      "id_AgentID (cr_EndpointIdentity ok) = in_AgentID inp"
    using scanned_identity [OF p(3) [unfolded GetActiveDesktopEndpointIdentity_def]] by auto
  show ?thesis
    using p(1,4) o e by (simp add: s requestedSession_def isActiveOperator_def isActiveEndpoint_def
        desktopInitialJoinTTL_def desktopHardTTL_def)
qed

text \<open>The credentials a creation returns work: until the join deadline (at any time but the zero
  instant) each side's token, hashed as
  the service hashes it, is accepted for its own side of the new session.\<close>

theorem service_credentials_usable:
  assumes "trust_inv (database w)" "Create (pgStore jsonObject) resolve env inp w = (Inr ok, w')"
    and "svcNow env \<le> t" "t < svcNow env + desktopInitialJoinTTL" "\<not> isZero t"
  shows "(\<exists>c db'. ConsumeDesktopJoinCredential (desktopCredentialHash env (cr_BrowserCredential ok)) Browser (s_ID (cr_Session ok)) 1 t
        (database w') = Inr (c, db'))
    \<and> (\<exists>c db'. ConsumeDesktopJoinCredential (desktopCredentialHash env (cr_AgentCredential ok)) Agent (s_ID (cr_Session ok)) 1 t
        (database w') = Inr (c, db'))"
proof (rule create_committed [OF assms(2)])
  fix e
  let ?b = "newDesktopCredential env (freshCredentialID1 env) (freshSessionID env) Browser 1 (cr_BrowserCredential ok) (svcNow env)
          (svcNow env + desktopInitialJoinTTL)"
  let ?a = "newDesktopCredential env (freshCredentialID2 env) (freshSessionID env) Agent 1 (cr_AgentCredential ok) (svcNow env)
          (svcNow env + desktopInitialJoinTTL)"
  assume s: "cr_Session ok = requestedSession env inp (cr_OperatorIdentity ok)"
    and run: "storeCreate (pgStore jsonObject) (cr_Session ok) ?b ?a e (database w) = Inr (database w')"
  have sid: "s_ID (cr_Session ok) = freshSessionID env" by (simp add: s requestedSession_def)
  note eff = create_effect [OF trust_inv_store [OF assms(1)] run [unfolded pgStore_def, simplified]]
  have valid: "validateDesktopJoinCredential ?b = Inr ()" "validateDesktopJoinCredential ?a = Inr ()"
    using eff(8) by (auto simp: validateDesktopCredentialPair_def bindR_Inr_iff)
  have t: "t \<noteq> 0" using assms(5) by (simp add: isZero_def)
  have hash: "c_CredentialHash ?b \<noteq> []" "c_CredentialHash ?a \<noteq> []"
    using valid by (auto simp: validateDesktopJoinCredential_def split: if_splits)
  show ?thesis
    using consume_succeeds [OF eff(1,2,5,3) _ _ hash(1) eff(6), of t] consume_succeeds [OF eff(1,2,5,4) _ _ hash(2) eff(7), of t]
      assms(3,4) t
    by (auto simp: newDesktopCredential_def open_cred_def sid)
qed


text \<open>A reconnect that the service grants belongs to the session's operator and moves the session to
  the next key epoch: credentials of every other epoch are refused from then on.\<close>

theorem service_reconnect_rotates:
  assumes "trust_inv (database w)" "Reconnect (pgStore jsonObject) env sid uid w = Inr (out, w')"
  shows "\<exists>s. GetDesktopSession sid (database w) = Inr s \<and> s_OperatorUserID s = uid
    \<and> GetDesktopSession sid (database w') = Inr (rr_Session out) \<and> s_KeyEpoch (rr_Session out) = s_KeyEpoch s + 1
    \<and> trust_inv (database w')
    \<and> (\<forall>hash side epoch t. epoch \<noteq> s_KeyEpoch s + 1 \<longrightarrow>
          (\<exists>e. ConsumeDesktopJoinCredential hash side sid epoch t (database w') = Inl e))"
proof -
  from pg.reconnect_session [OF assms] obtain s where
    inv: "trust_inv (database w')" and new: "findSession (database w') sid = Some (rr_Session out)"
    and s: "findSession (database w) sid = Some s" "s_OperatorUserID s = uid" "s_KeyEpoch (rr_Session out) = s_KeyEpoch s + 1"
    by (auto simp: pgStore_def)
  show ?thesis using inv new s stale_refused [OF trust_inv_store [OF inv] new] by auto
qed

section \<open>A concrete run\<close>

definition sampleOperator :: DesktopIdentity where
  "sampleOperator = sampleIdentity\<lparr>id_HomeID := ''home-001''\<rparr>"

definition sampleEndpoint :: DesktopIdentity where
  "sampleEndpoint = sampleOperator\<lparr>id_ID := ''i2'', id_IdentityType := Endpoint, id_UserID := [], id_DeviceID := [],
     id_AgentID := ''agent-01'', id_Fingerprint := ''f2''\<rparr>"

definition sampleEnv :: service_env where
  "sampleEnv = \<lparr>svcNow = 1000, relayNow1 = 1001, relayNow2 = 1002, freshSessionID = ''session1'', freshCredentialID1 = ''c8'',
     freshCredentialID2 = ''c9'', token1 = ''tokA'', token2 = ''tokB'', sha256 = (\<lambda>bs. take 32 (bs @ replicate 32 0)),
     wideRune = (\<lambda>_. False)\<rparr>"

definition sampleInput :: desktopCreateInput where
  "sampleInput = \<lparr>in_HomeID = ''home-001'', in_AgentID = ''agent-01'', in_OperatorUserID = ''u1'', in_OperatorDeviceID = ''d1'',
     in_OperatorSessionID = ''login'', in_SourceIPHash = [], in_SourceUserAgentHash = [], in_Permissions = [PermissionView]\<rparr>"

definition sampleResolve :: "string \<Rightarrow> string \<Rightarrow> desktopAgentPresence option" where
  "sampleResolve h a = Some \<lparr>pr_HomeID = h, pr_AgentID = a,
     pr_Capabilities = [''desktop.session.open'', permissionString PermissionView]\<rparr>"

definition sampleWorld :: "desktop_db service_state" where
  "sampleWorld = \<lparr>database = baseDb\<lparr>identities := [sampleOperator, sampleEndpoint], homes := [''home-001''],
       agents := [(''home-001'', ''agent-01'')], home_memberships := [(''home-001'', ''u1'')]\<rparr>,
     admission = Some sampleRelay\<rparr>"

abbreviation "sampleCreated \<equiv> requestedSession sampleEnv sampleInput sampleOperator"

lemmas world_defs = sampleWorld_def sampleOperator_def sampleEndpoint_def baseDb_def sampleEnv_def sampleInput_def
  requestedSession_def desktopInitialJoinTTL_def desktopHardTTL_def

lemma sampleWorld_inv: "trust_inv (database sampleWorld)"
  by (auto simp: trust_inv_def store_inv_def sessions_ok_def creds_current_def events_ok_def identities_unique_def
      world_defs sample_defs)

lemma sampleParties: "trustedParties (pgStore (\<lambda>_. True)) sampleResolve sampleEnv sampleInput (database sampleWorld)
    = Inr (sampleOperator, sampleEndpoint)"
  by (simp add: trustedParties_def pgStore_def GetActiveDesktopOperatorIdentity_def GetActiveDesktopEndpointIdentity_def
      scanDesktopIdentity_def isActiveOperator_def isActiveEndpoint_def sampleResolve_def
      world_defs sample_defs hasCapabilities_def ValidateDesktopPermissions_def literal_simps)

lemma sampleAdmission_valid:
  "side = RelayBrowser \<or> side = RelayAgent \<Longrightarrow> now = 1001 \<or> now = 1002 \<Longrightarrow>
     validateClaim (wideRune sampleEnv) (admissionClaim sampleCreated side) now = Inr ()"
  by (auto simp: validateClaim_def validDesktopResourceID_def runes_def runes_of_ascii ascii_alnum_def isZero_def world_defs)

lemma sampleReserve: "\<exists>adm. reserveAdmission sampleEnv sampleCreated (admission sampleWorld) = (Inr (), adm)"
proof -
  let ?c = "admissionClaim sampleCreated RelayBrowser"
  have times: "relayNow1 sampleEnv = 1001" "relayNow2 sampleEnv = 1002" by (simp_all add: sampleEnv_def)
  have 1: "Reserve (wideRune sampleEnv) ?c 1001 sampleRelay = (Inr (), admitted sampleRelay ?c True False)"
    using sampleAdmission_valid [of RelayBrowser 1001]
    by (simp add: Reserve_def sessionForJoinLocked_def newSession_def admitted_def updateObj_def Let_def sampleRelay_def
        countWhere_def mapObjs_def defaultDesktopRelayLimits_def)
  have 2: "fst (Reserve (wideRune sampleEnv) (admissionClaim sampleCreated RelayAgent) 1002 (admitted sampleRelay ?c True False)) = Inr ()"
    using sampleAdmission_valid [of RelayAgent 1002] admitted_fields [of sampleRelay ?c True False]
    by (simp add: Reserve_def sessionForJoinLocked_def newSession_def Let_def desktopRelayTimestampEqual_def)
  obtain r2 where "Reserve (wideRune sampleEnv) (admissionClaim sampleCreated RelayAgent) 1002 (admitted sampleRelay ?c True False)
      = (Inr (), r2)" using 2 by (metis prod.collapse)
  then show ?thesis using 1 by (simp add: reserveAdmission_def times sampleWorld_def)
qed

lemma sampleStored:
  "\<exists>db'. storeCreate (pgStore (\<lambda>_. True)) sampleCreated
      (newDesktopCredential sampleEnv ''c8'' (s_ID sampleCreated) Browser 1 ''tokA'' 1000 (s_JoinExpiresAt sampleCreated))
      (newDesktopCredential sampleEnv ''c9'' (s_ID sampleCreated) Agent 1 ''tokB'' 1000 (s_JoinExpiresAt sampleCreated))
      \<lparr>e_SessionID = s_ID sampleCreated, e_Sequence = 0, e_EventType = ''session.requested'', e_ActorType = ''user'',
       e_ActorID = s_OperatorUserID sampleCreated, e_OccurredAt = 1000, e_Severity = ''info'', e_ReasonCode = [],
       e_MetadataJSON = ''{}''\<rparr> (database sampleWorld) = Inr db'"
  by (simp add: pgStore_def CreateDesktopSession_def validateDesktopSession_def validateDesktopPermissionStrings_def
      ValidateDesktopPermissions_def validateDesktopCredentialPair_def validateDesktopJoinCredential_def
      validateDesktopEvent_def insertSessionRow_def session_fks_def insertDesktopJoinCredential_def
      newDesktopCredential_def desktopCredentialHash_def bytes_of_def world_defs sample_defs run_simps literal_simps)

lemma sampleCreate: "\<exists>ok w'. Create (pgStore (\<lambda>_. True)) sampleResolve sampleEnv sampleInput sampleWorld = (Inr ok, w')"
proof -
  obtain adm where 1: "reserveAdmission sampleEnv sampleCreated (admission sampleWorld) = (Inr (), adm)" using sampleReserve by blast
  have 2: "newCredentialPair sampleEnv = Inr (''tokA'', ''tokB'')"
    by (simp add: newCredentialPair_def sampleEnv_def literal_simps)
  obtain db' where 3: "storeCreate (pgStore (\<lambda>_. True)) sampleCreated
      (newDesktopCredential sampleEnv ''c8'' (s_ID sampleCreated) Browser 1 ''tokA'' 1000 (s_JoinExpiresAt sampleCreated))
      (newDesktopCredential sampleEnv ''c9'' (s_ID sampleCreated) Agent 1 ''tokB'' 1000 (s_JoinExpiresAt sampleCreated))
      \<lparr>e_SessionID = s_ID sampleCreated, e_Sequence = 0, e_EventType = ''session.requested'', e_ActorType = ''user'',
       e_ActorID = s_OperatorUserID sampleCreated, e_OccurredAt = 1000, e_Severity = ''info'', e_ReasonCode = [],
       e_MetadataJSON = ''{}''\<rparr> (database sampleWorld) = Inr db'"
    using sampleStored by blast
  have env: "svcNow sampleEnv = 1000" "freshCredentialID1 sampleEnv = ''c8''" "freshCredentialID2 sampleEnv = ''c9''"
    by (simp_all add: sampleEnv_def)
  have "\<exists>w'. admitSession (pgStore (\<lambda>_. True)) sampleEnv sampleCreated sampleWorld = (Inr (''tokA'', ''tokB''), w')"
    unfolding admitSession_def 1 2 env by (simp add: 3)
  then show ?thesis by (auto simp: Create_def sampleParties Let_def)
qed

lemma sampleWorld_fresh: "admission sampleWorld = Some r \<Longrightarrow> mget (sessionsMap r) (freshSessionID sampleEnv) = None"
  by (auto simp: sampleWorld_def sampleRelay_def)

theorem service_create_all_or_nothing_witness:
  "\<exists>ok w'. Create (pgStore (\<lambda>_. True)) sampleResolve sampleEnv sampleInput sampleWorld = (Inr ok, w')
     \<and> GetDesktopSession ''session1'' (database w') = Inr (cr_Session ok)"
proof -
  obtain ok w' where run: "Create (pgStore (\<lambda>_. True)) sampleResolve sampleEnv sampleInput sampleWorld = (Inr ok, w')"
    using sampleCreate by blast
  with service_create_all_or_nothing [OF sampleWorld_inv sampleWorld_fresh run] show ?thesis
    by (auto simp: sampleEnv_def simp del: GetDesktopSession_Inr_iff)
qed

theorem service_create_requires_trust_witness:
  "\<exists>ok w'. Create (pgStore (\<lambda>_. True)) sampleResolve sampleEnv sampleInput sampleWorld = (Inr ok, w')
     \<and> s_EffectivePermissions (cr_Session ok) = [PermissionView]"
proof -
  obtain ok w' where run: "Create (pgStore (\<lambda>_. True)) sampleResolve sampleEnv sampleInput sampleWorld = (Inr ok, w')"
    using sampleCreate by blast
  from service_create_requires_trust [OF run] run show ?thesis by (auto simp: sampleInput_def)
qed

theorem service_credentials_usable_witness:
  "\<exists>ok w' c db'. Create (pgStore (\<lambda>_. True)) sampleResolve sampleEnv sampleInput sampleWorld = (Inr ok, w')
     \<and> ConsumeDesktopJoinCredential (desktopCredentialHash sampleEnv (cr_BrowserCredential ok)) Browser (s_ID (cr_Session ok)) 1 1500
        (database w') = Inr (c, db')"
proof -
  obtain ok w' where run: "Create (pgStore (\<lambda>_. True)) sampleResolve sampleEnv sampleInput sampleWorld = (Inr ok, w')"
    using sampleCreate by blast
  have "svcNow sampleEnv \<le> 1500" "1500 < svcNow sampleEnv + desktopInitialJoinTTL" "\<not> isZero 1500"
    by (simp_all add: sampleEnv_def desktopInitialJoinTTL_def isZero_def)
  from service_credentials_usable [OF sampleWorld_inv run this] run show ?thesis by blast
qed

definition activeWorld :: "desktop_db service_state" where
  "activeWorld = \<lparr>database = sampleDb Active, admission = Some sampleRelay\<rparr>"

lemma activeWorld_inv: "trust_inv (database activeWorld)"
  using sample_trust_inv [of Active] by (simp add: activeWorld_def liveStates_def)

lemma sampleTerminate: "\<exists>out w'. Terminate (pgStore (\<lambda>_. True)) sampleEnv ''s1'' ''u1'' [] activeWorld = Inr (out, w')"
  by (simp add: Terminate_def pgStore_def TransitionDesktopSession_def validateDesktopEvent_def CanTransitionDesktopSession_def
      transitioned_def activeWorld_def sampleEnv_def sample_defs run_simps literal_simps)


lemma sampleReconnect: "\<exists>out w'. Reconnect (pgStore (\<lambda>_. True)) sampleEnv ''s1'' ''u1'' activeWorld = Inr (out, w')"
  by (simp add: Reconnect_def pgStore_def BeginDesktopReconnect_def validateDesktopEvent_def validateDesktopCredentialPair_def
      validateDesktopJoinCredential_def insertDesktopJoinCredential_def newCredentialPair_def newDesktopCredential_def
      desktopCredentialHash_def bytes_of_def desktopReconnectTTL_def activeWorld_def sampleEnv_def sample_defs run_simps literal_simps)
    (simp add: numeral_eq_Suc)

theorem service_reconnect_rotates_witness:
  "\<exists>out w' e. Reconnect (pgStore (\<lambda>_. True)) sampleEnv ''s1'' ''u1'' activeWorld = Inr (out, w')
     \<and> ConsumeDesktopJoinCredential (replicate 32 1) Browser ''s1'' 1 2000 (database w') = Inl e"
proof -
  obtain out w' where run: "Reconnect (pgStore (\<lambda>_. True)) sampleEnv ''s1'' ''u1'' activeWorld = Inr (out, w')"
    using sampleReconnect by blast
  from service_reconnect_rotates [OF activeWorld_inv run] obtain s where
    s: "findSession (sampleDb Active) ''s1'' = Some s"
    and stale: "\<And>hash side epoch t. epoch \<noteq> s_KeyEpoch s + 1 \<Longrightarrow> \<exists>e. ConsumeDesktopJoinCredential hash side ''s1'' epoch t (database w') = Inl e"
    by (auto simp: activeWorld_def)
  have "s_KeyEpoch s + 1 \<noteq> 1" using s by (auto simp: findSession_def sample_defs)
  with stale run show ?thesis by metis
qed

end
