(* ===== verification/Router.thy ===== *)
theory Router
  imports Go_Text
begin

text \<open>
  The command router, \<open>internal/cloud/router.go\<close>: which agents are connected for a home and which of
  them is primary, the connected apps with their in-flight budget and subscriptions, and the pending
  requests. An app connection is a heap object that pending requests keep a pointer to after the app
  has gone, so apps live in a list and a pointer is an index; agent connections are only reached
  through their map. Peers are numbers and \<open>peer.Close\<close> calls are recorded. Fresh connection ids and the
  clock are arguments.
\<close>

section \<open>Agent types\<close>

definition AgentTypePrimary :: string where "AgentTypePrimary = ''primary''"
definition AgentTypeWorker :: string where "AgentTypeWorker = ''worker''"

definition normalizeAgentType :: "string \<Rightarrow> string option" where
  "normalizeAgentType value =
     (let v = trimSpace value in
      if v = [] \<or> v = ''home-agent'' \<or> v = AgentTypePrimary then Some AgentTypePrimary
      else if v = AgentTypeWorker then Some AgentTypeWorker
      else None)"

text \<open>\<open>quoted\<close> is the rendering of a string by the verb \<open>%q\<close>.\<close>

definition registeredAgentType :: "(string \<Rightarrow> string) \<Rightarrow> string \<Rightarrow> string \<Rightarrow> string result" where
  "registeredAgentType quoted stored claimed =
     (case normalizeAgentType stored of
        None \<Rightarrow> Inl (ErrMsg (''stored agent type '' @ quoted stored @ '' is invalid''))
      | Some storedType \<Rightarrow>
          if blank claimed then Inr storedType
          else
            (case normalizeAgentType claimed of
               None \<Rightarrow> Inl (ErrMsg (''claimed agent type '' @ quoted claimed @ '' is invalid''))
             | Some claimedType \<Rightarrow>
                 if claimedType \<noteq> storedType
                 then Inl (ErrMsg (''claimed agent type '' @ quoted claimedType @ '' does not match enrolled type '' @ quoted storedType))
                 else Inr storedType))"

section \<open>State\<close>

record Agent =
  ag_ID :: string
  ag_HomeID :: string
  ag_Name :: string
  ag_Status :: string
  ag_AgentType :: string
  ag_InstallationID :: string
  ag_EnrolledByUserID :: string
  ag_LastSeenAt :: "time option"
  ag_CreatedAt :: time
  ag_UpdatedAt :: time

record agentConnection =
  ac_connectionID :: string
  ac_agent :: Agent
  ac_homeID :: string
  ac_agentType :: string
  ac_peer :: "nat option"
  ac_capabilities :: "string list"
  ac_metadata :: "(string, string) gomap"
  ac_metrics :: string

record appConnection =
  ap_connectionID :: string
  ap_sessionID :: string
  ap_userID :: string
  ap_peer :: nat
  inFlight :: int
  subscriptions :: "(string, unit) gomap"

record pendingRequest =
  pe_requestID :: string
  pe_homeID :: string
  pe_command :: string
  pe_shellSessionID :: string
  pe_fileJobID :: string
  pe_app :: nat
  pe_startedAt :: time

record AgentSnapshot =
  as_AgentID :: string
  as_HomeID :: string
  as_HomeName :: string
  as_AgentType :: string
  as_Status :: string
  as_Capabilities :: "string list"
  as_LastSeenAt :: "time option"
  as_Metadata :: "(string, string) gomap"
  as_Metrics :: string

record Router =
  agentsByHomeID :: "(string, (string, agentConnection) gomap) gomap"
  primaryAgentByHomeID :: "(string, string) gomap"
  appsByConnectionID :: "(string, nat) gomap"
  pendingByID :: "(string, pendingRequest) gomap"
  appObjs :: "appConnection list"
  closedPeers :: "(nat \<times> string) list"

definition NewRouter :: Router where
  "NewRouter = \<lparr>agentsByHomeID = [], primaryAgentByHomeID = [], appsByConnectionID = [], pendingByID = [], appObjs = [], closedPeers = []\<rparr>"

text \<open>\<open>r.agentsByHomeID[homeID]\<close>: indexing a missing key gives the nil map.\<close>

definition agentsOf :: "Router \<Rightarrow> string \<Rightarrow> (string, agentConnection) gomap" where
  "agentsOf r homeID = (case mget (agentsByHomeID r) homeID of None \<Rightarrow> [] | Some m \<Rightarrow> m)"

section \<open>Agents\<close>

definition isPrimary :: "agentConnection \<Rightarrow> bool" where
  "isPrimary c \<longleftrightarrow> normalizeAgentType (ac_agentType c) = Some AgentTypePrimary"

definition registeredConnection ::
    "string \<Rightarrow> string \<Rightarrow> Agent \<Rightarrow> nat option \<Rightarrow> string list \<Rightarrow> string \<Rightarrow> (string, string) gomap \<Rightarrow> agentConnection" where
  "registeredConnection connectionID homeID agent peer capabilities agentType metadata =
     \<lparr>ac_connectionID = connectionID, ac_agent = agent, ac_homeID = homeID,
      ac_agentType = (case normalizeAgentType agentType of Some t \<Rightarrow> t | None \<Rightarrow> agentType),
      ac_peer = peer, ac_capabilities = capabilities, ac_metadata = metadata, ac_metrics = []\<rparr>"

definition RegisterAgent ::
    "string \<Rightarrow> string \<Rightarrow> Agent \<Rightarrow> nat option \<Rightarrow> string list \<Rightarrow> string \<Rightarrow> (string, string) gomap \<Rightarrow> Router \<Rightarrow> string \<times> Router" where
  "RegisterAgent connectionID homeID agent peer capabilities agentType metadata r =
     (let connection = registeredConnection connectionID homeID agent peer capabilities agentType metadata;
          r1 = r\<lparr>agentsByHomeID := mput homeID (mput (ag_ID agent) connection (agentsOf r homeID)) (agentsByHomeID r)\<rparr> in
      (connectionID,
       if isPrimary connection
       then r1\<lparr>primaryAgentByHomeID := mput homeID (ag_ID agent) (primaryAgentByHomeID r1)\<rparr> else r1))"

definition updateConnection :: "string \<Rightarrow> string \<Rightarrow> (agentConnection \<Rightarrow> agentConnection) \<Rightarrow> Router \<Rightarrow> Router" where
  "updateConnection homeID agentID f r =
     (case mget (agentsOf r homeID) agentID of
        None \<Rightarrow> r
      | Some c \<Rightarrow> r\<lparr>agentsByHomeID := mput homeID (mput agentID (f c) (agentsOf r homeID)) (agentsByHomeID r)\<rparr>)"

definition UpdateAgentCapabilities :: "string \<Rightarrow> string \<Rightarrow> string list \<Rightarrow> Router \<Rightarrow> Router" where
  "UpdateAgentCapabilities homeID agentID capabilities = updateConnection homeID agentID (\<lambda>c. c\<lparr>ac_capabilities := capabilities\<rparr>)"

definition UpdateAgentMetrics :: "string \<Rightarrow> string \<Rightarrow> string \<Rightarrow> Router \<Rightarrow> Router" where
  "UpdateAgentMetrics homeID agentID metrics r =
     (if metrics = [] then r else updateConnection homeID agentID (\<lambda>c. c\<lparr>ac_metrics := metrics\<rparr>) r)"

text \<open>The removal shared by \<open>UnregisterAgent\<close> and \<open>DisconnectAgent\<close>.\<close>

definition removeAgent :: "string \<Rightarrow> string \<Rightarrow> Router \<Rightarrow> Router" where
  "removeAgent homeID agentID r =
     (let agents = mdel agentID (agentsOf r homeID) in
      r\<lparr>agentsByHomeID := (if agents = [] then mdel homeID (agentsByHomeID r) else mput homeID agents (agentsByHomeID r)),
        primaryAgentByHomeID := (if mget (primaryAgentByHomeID r) homeID = Some agentID
                                 then mdel homeID (primaryAgentByHomeID r) else primaryAgentByHomeID r)\<rparr>)"

definition UnregisterAgent :: "string \<Rightarrow> string \<Rightarrow> string \<Rightarrow> Router \<Rightarrow> Router" where
  "UnregisterAgent homeID agentID connectionID r =
     (case mget (agentsOf r homeID) agentID of
        None \<Rightarrow> r
      | Some current \<Rightarrow>
          if connectionID \<noteq> [] \<and> ac_connectionID current \<noteq> connectionID then r
          else removeAgent homeID agentID r)"

definition DisconnectAgent :: "string \<Rightarrow> string \<Rightarrow> string \<Rightarrow> Router \<Rightarrow> bool \<times> Router" where
  "DisconnectAgent homeID agentID reason r =
     (case mget (agentsOf r homeID) agentID of
        None \<Rightarrow> (False, r)
      | Some connection \<Rightarrow>
          let r1 = removeAgent homeID agentID r in
          (True, r1\<lparr>closedPeers := closedPeers r1 @ (case ac_peer connection of None \<Rightarrow> [] | Some p \<Rightarrow> [(p, reason)])\<rparr>))"

definition GetAgent :: "string \<Rightarrow> Router \<Rightarrow> agentConnection option" where
  "GetAgent homeID r =
     (case mget (primaryAgentByHomeID r) homeID of None \<Rightarrow> None | Some primaryID \<Rightarrow> mget (agentsOf r homeID) primaryID)"

definition ResolveAgent :: "string \<Rightarrow> string \<Rightarrow> Router \<Rightarrow> agentConnection option" where
  "ResolveAgent homeID agentID r = (if agentID = [] then GetAgent homeID r else mget (agentsOf r homeID) agentID)"

definition agentConnectionStatus :: "bool \<Rightarrow> string" where
  "agentConnectionStatus liveConn = (if liveConn then ''online'' else ''offline'')"

text \<open>The snapshots come in the order of a map iteration; the model lists them in the order of its map.\<close>

definition AgentsForHome :: "string \<Rightarrow> Router \<Rightarrow> AgentSnapshot list" where
  "AgentsForHome homeID r =
     map (\<lambda>(_, c).
       \<lparr>as_AgentID = ag_ID (ac_agent c), as_HomeID = homeID, as_HomeName = [],
        as_AgentType = (case normalizeAgentType (ac_agentType c) of None \<Rightarrow> [] | Some t \<Rightarrow> t),
        as_Status = ''online'', as_Capabilities = ac_capabilities c, as_LastSeenAt = ag_LastSeenAt (ac_agent c),
        as_Metadata = ac_metadata c, as_Metrics = ac_metrics c\<rparr>) (agentsOf r homeID)"

definition Snapshots :: "(string, string) gomap \<Rightarrow> (string, Agent) gomap \<Rightarrow> Router \<Rightarrow> AgentSnapshot list" where
  "Snapshots homeNames agents r =
     concat (map (\<lambda>(homeID, connections).
       map (\<lambda>(_, c).
         \<lparr>as_AgentID = ag_ID (ac_agent c), as_HomeID = homeID,
          as_HomeName = (case mget homeNames homeID of None \<Rightarrow> [] | Some n \<Rightarrow> n),
          as_AgentType = ac_agentType c,
          as_Status = (case mget agents (ag_ID (ac_agent c)) of None \<Rightarrow> [] | Some a \<Rightarrow> ag_Status a),
          as_Capabilities = ac_capabilities c,
          as_LastSeenAt = (case mget agents (ag_ID (ac_agent c)) of None \<Rightarrow> None | Some a \<Rightarrow> ag_LastSeenAt a),
          as_Metadata = [], as_Metrics = []\<rparr>) connections) (agentsByHomeID r))"

definition AgentCount :: "Router \<Rightarrow> nat" where
  "AgentCount r = sum_list (map (\<lambda>(_, agents). length agents) (agentsByHomeID r))"

section \<open>Apps and pending requests\<close>

definition updateApp :: "nat \<Rightarrow> (appConnection \<Rightarrow> appConnection) \<Rightarrow> Router \<Rightarrow> Router" where
  "updateApp a f r = r\<lparr>appObjs := (appObjs r)[a := f (appObjs r ! a)]\<rparr>"

definition RegisterApp :: "string \<Rightarrow> string \<Rightarrow> string \<Rightarrow> nat \<Rightarrow> Router \<Rightarrow> nat \<times> Router" where
  "RegisterApp connectionID sessionID userID peer r =
     (length (appObjs r),
      r\<lparr>appObjs := appObjs r @ [\<lparr>ap_connectionID = connectionID, ap_sessionID = sessionID, ap_userID = userID,
                                 ap_peer = peer, inFlight = 0, subscriptions = []\<rparr>],
        appsByConnectionID := mput connectionID (length (appObjs r)) (appsByConnectionID r)\<rparr>)"

definition UnregisterApp :: "string \<Rightarrow> Router \<Rightarrow> Router" where
  "UnregisterApp connectionID r = r\<lparr>appsByConnectionID := mdel connectionID (appsByConnectionID r)\<rparr>"

text \<open>
  \<open>subscribe\<close> and \<open>unsubscribe\<close> return the topics the app is then subscribed to, the
  \<open>subscriptionListLocked\<close> of the updated connection.
\<close>

definition subscriptionListLocked :: "appConnection \<Rightarrow> string list" where
  "subscriptionListLocked c = map fst (subscriptions c)"

definition subscribe :: "string list \<Rightarrow> appConnection \<Rightarrow> appConnection" where
  "subscribe topics c =
     c\<lparr>subscriptions := fold (\<lambda>topic m. if topic \<noteq> [] then mput topic () m else m) topics (subscriptions c)\<rparr>"

definition unsubscribe :: "string list \<Rightarrow> appConnection \<Rightarrow> appConnection" where
  "unsubscribe topics c = c\<lparr>subscriptions := fold mdel topics (subscriptions c)\<rparr>"

definition isSubscribed :: "string \<Rightarrow> appConnection \<Rightarrow> bool" where
  "isSubscribed topic c \<longleftrightarrow> mget (subscriptions c) topic \<noteq> None"

definition AppsForTopic :: "string \<Rightarrow> Router \<Rightarrow> nat list" where
  "AppsForTopic topic r = filter (\<lambda>a. isSubscribed topic (appObjs r ! a)) (map snd (appsByConnectionID r))"

definition acquire :: "nat \<Rightarrow> Router \<Rightarrow> bool \<times> Router" where
  "acquire a r =
     (if inFlight (appObjs r ! a) \<ge> 32 then (False, r)
      else (True, updateApp a (\<lambda>c. c\<lparr>inFlight := inFlight c + 1\<rparr>) r))"

definition release :: "nat \<Rightarrow> Router \<Rightarrow> Router" where
  "release a r = updateApp a (\<lambda>c. if inFlight c > 0 then c\<lparr>inFlight := inFlight c - 1\<rparr> else c) r"

definition ErrTooManyInFlight :: error where "ErrTooManyInFlight = ErrMsg ''too many in-flight requests''"

text \<open>
  The critical section of \<open>AddPending\<close> and the one of its timer. The timer's closure captures the
  request id only, so it takes whatever request is pending under that id when it runs.
\<close>

definition insertPending :: "pendingRequest \<Rightarrow> Router \<Rightarrow> unit result \<times> Router" where
  "insertPending p r =
     (if mget (pendingByID r) (pe_requestID p) \<noteq> None then (Inl (ErrMsg ''duplicate request_id''), r)
      else (Inr (), r\<lparr>pendingByID := mput (pe_requestID p) p (pendingByID r)\<rparr>))"

definition takePending :: "string \<Rightarrow> Router \<Rightarrow> pendingRequest option \<times> Router" where
  "takePending requestID r =
     (case mget (pendingByID r) requestID of
        None \<Rightarrow> (None, r)
      | Some p \<Rightarrow> (Some p, r\<lparr>pendingByID := mdel requestID (pendingByID r)\<rparr>))"

definition AddPending :: "pendingRequest \<Rightarrow> Router \<Rightarrow> pendingRequest result \<times> Router" where
  "AddPending p r =
     (case acquire (pe_app p) r of
        (False, r1) \<Rightarrow> (Inl ErrTooManyInFlight, r1)
      | (True, r1) \<Rightarrow>
          (case insertPending p r1 of
             (Inl e, r2) \<Rightarrow> (Inl e, release (pe_app p) r2)
           | (Inr _, r2) \<Rightarrow> (Inr p, r2)))"

definition pendingTimeout :: "string \<Rightarrow> Router \<Rightarrow> pendingRequest option \<times> Router" where
  "pendingTimeout requestID r =
     (case takePending requestID r of
        (None, r1) \<Rightarrow> (None, r1)
      | (Some p, r1) \<Rightarrow> (Some p, release (pe_app p) r1))"

definition ResolvePending :: "string \<Rightarrow> Router \<Rightarrow> pendingRequest option \<times> Router" where
  "ResolvePending requestID r =
     (case takePending requestID r of
        (None, r1) \<Rightarrow> (None, r1)
      | (Some p, r1) \<Rightarrow> (Some p, release (pe_app p) r1))"

definition PendingCount :: "Router \<Rightarrow> nat" where "PendingCount r = length (pendingByID r)"
definition AppCount :: "Router \<Rightarrow> nat" where "AppCount r = length (appsByConnectionID r)"

section \<open>The route table\<close>

text \<open>
  The specification of the agent side: a table from home and agent to the connection that serves it.
  Registering puts an entry, unregistering and disconnecting drop one.
\<close>

type_synonym route_table = "string \<times> string \<rightharpoonup> agentConnection"

definition routes :: "Router \<Rightarrow> route_table" where
  "routes r = (\<lambda>(homeID, agentID). mget (agentsOf r homeID) agentID)"

definition spec_unregister :: "string \<Rightarrow> string \<Rightarrow> string \<Rightarrow> route_table \<Rightarrow> route_table" where
  "spec_unregister homeID agentID connectionID t =
     (case t (homeID, agentID) of
        None \<Rightarrow> t
      | Some c \<Rightarrow> if connectionID = [] \<or> ac_connectionID c = connectionID then t((homeID, agentID) := None) else t)"

lemma agentsOf_mput [simp]:
  "agentsOf (r\<lparr>agentsByHomeID := mput h m (agentsByHomeID r)\<rparr>) h' = (if h' = h then m else agentsOf r h')"
  by (simp add: agentsOf_def)

lemma agentsOf_frame [simp]:
  "agentsOf (r\<lparr>primaryAgentByHomeID := x\<rparr>) h = agentsOf r h" "agentsOf (r\<lparr>closedPeers := y\<rparr>) h = agentsOf r h"
  "agentsOf (r\<lparr>appObjs := z\<rparr>) h = agentsOf r h" "agentsOf (r\<lparr>pendingByID := p\<rparr>) h = agentsOf r h"
  "agentsOf (r\<lparr>appsByConnectionID := q\<rparr>) h = agentsOf r h"
  by (simp_all add: agentsOf_def)

lemma agentsOf_remove [simp]:
  "agentsOf (removeAgent h a r) h' = (if h' = h then mdel a (agentsOf r h) else agentsOf r h')"
  by (simp add: removeAgent_def Let_def agentsOf_def)

lemma routes_register:
  "routes (snd (RegisterAgent cid h ag peer caps ty md r)) = (routes r)((h, ag_ID ag) \<mapsto> registeredConnection cid h ag peer caps ty md)"
  by (auto simp: routes_def RegisterAgent_def Let_def fun_eq_iff)

lemma routes_remove: "routes (removeAgent h a r) = (routes r)((h, a) := None)"
  by (auto simp: routes_def fun_eq_iff)

lemma routes_unregister: "routes (UnregisterAgent h a cid r) = spec_unregister h a cid (routes r)"
  by (auto simp: UnregisterAgent_def spec_unregister_def routes_remove split: option.split) (simp_all add: routes_def)

lemma routes_disconnect: "routes (snd (DisconnectAgent h a reason r)) = (routes r)((h, a) := None)"
proof (cases "mget (agentsOf r h) a")
  case None
  then show ?thesis by (auto simp: DisconnectAgent_def routes_def fun_eq_iff)
next
  case (Some c)
  have "routes (x\<lparr>closedPeers := y\<rparr>) = routes x" for x y by (simp add: routes_def)
  with Some show ?thesis by (simp add: DisconnectAgent_def Let_def routes_remove)
qed

lemma routes_update: "routes (updateConnection h a f r) = (routes r)((h, a) := map_option f (routes r (h, a)))"
  by (auto simp: updateConnection_def routes_def fun_eq_iff split: option.split)

section \<open>The agent invariant\<close>

text \<open>
  Every connection is filed under its own home and agent id, no home keeps an empty map, and a
  recorded primary is connected.
\<close>

definition agents_inv :: "Router \<Rightarrow> bool" where
  "agents_inv r \<longleftrightarrow>
     mwf (agentsByHomeID r) \<and> (\<forall>h m. mget (agentsByHomeID r) h = Some m \<longrightarrow> mwf m \<and> m \<noteq> [])
     \<and> (\<forall>h a c. routes r (h, a) = Some c \<longrightarrow> ag_ID (ac_agent c) = a \<and> ac_homeID c = h)
     \<and> (\<forall>h p. mget (primaryAgentByHomeID r) h = Some p \<longrightarrow> routes r (h, p) \<noteq> None)"

lemma agents_inv_homes:
  assumes "agents_inv r"
  shows "mwf (agentsOf r h)"
  using assms by (auto simp: agents_inv_def agentsOf_def split: option.split)

lemma mput_nonempty [simp]: "mput k v m \<noteq> []"
  by (cases m) auto

lemma register_inv:
  assumes "agents_inv r"
  shows "agents_inv (snd (RegisterAgent cid h ag peer caps ty md r))"
proof -
  let ?r = "snd (RegisterAgent cid h ag peer caps ty md r)"
  have maps: "agentsByHomeID ?r = mput h (mput (ag_ID ag) (registeredConnection cid h ag peer caps ty md) (agentsOf r h)) (agentsByHomeID r)"
    by (simp add: RegisterAgent_def Let_def)
  have prim: "mget (primaryAgentByHomeID ?r) h' = Some p \<Longrightarrow> (h' = h \<and> p = ag_ID ag) \<or> mget (primaryAgentByHomeID r) h' = Some p" for h' p
    by (auto simp: RegisterAgent_def Let_def split: if_splits)
  have "ag_ID (ac_agent c) = a \<and> ac_homeID c = h'" if "routes ?r (h', a) = Some c" for h' a c
    using that assms unfolding routes_register agents_inv_def
    by (auto simp: registeredConnection_def split: if_splits)
  moreover have "routes ?r (h', p) \<noteq> None" if "mget (primaryAgentByHomeID ?r) h' = Some p" for h' p
    using prim [OF that] assms unfolding routes_register agents_inv_def by auto
  moreover have "mwf m \<and> m \<noteq> []" if "mget (agentsByHomeID ?r) h' = Some m" for h' m
    using that assms agents_inv_homes [OF assms, of h] unfolding maps agents_inv_def by (auto split: if_splits)
  moreover have "mwf (agentsByHomeID ?r)" using assms unfolding maps agents_inv_def by simp
  ultimately show ?thesis unfolding agents_inv_def by blast
qed

lemma remove_inv:
  assumes "agents_inv r"
  shows "agents_inv (removeAgent h a r)"
proof -
  let ?r = "removeAgent h a r"
  have "ag_ID (ac_agent c) = b \<and> ac_homeID c = h'" if "routes ?r (h', b) = Some c" for h' b c
    using that assms unfolding routes_remove agents_inv_def by (auto split: if_splits)
  moreover have "routes ?r (h', p) \<noteq> None" if "mget (primaryAgentByHomeID ?r) h' = Some p" for h' p
    using that assms unfolding routes_remove agents_inv_def
    by (auto simp: removeAgent_def Let_def split: if_splits)
  moreover have "mwf m \<and> m \<noteq> []" if "mget (agentsByHomeID ?r) h' = Some m" for h' m
    using that assms agents_inv_homes [OF assms, of h] unfolding agents_inv_def
    by (auto simp: removeAgent_def Let_def split: if_splits)
  moreover have "mwf (agentsByHomeID ?r)" using assms by (simp add: removeAgent_def Let_def agents_inv_def)
  ultimately show ?thesis unfolding agents_inv_def by blast
qed

lemma update_inv:
  assumes "agents_inv r" "\<And>c. ac_agent (f c) = ac_agent c \<and> ac_homeID (f c) = ac_homeID c"
  shows "agents_inv (updateConnection h a f r)"
proof (cases "mget (agentsOf r h) a")
  case None
  then show ?thesis using assms(1) by (simp add: updateConnection_def)
next
  case (Some c)
  let ?r = "updateConnection h a f r"
  have maps: "agentsByHomeID ?r = mput h (mput a (f c) (agentsOf r h)) (agentsByHomeID r)" "primaryAgentByHomeID ?r = primaryAgentByHomeID r"
    using Some by (simp_all add: updateConnection_def)
  have "ag_ID (ac_agent d) = b \<and> ac_homeID d = h'" if "routes ?r (h', b) = Some d" for h' b d
    using that assms unfolding routes_update agents_inv_def by (auto split: if_splits)
  moreover have "routes ?r (h', p) \<noteq> None" if "mget (primaryAgentByHomeID r) h' = Some p" for h' p
    using that assms(1) unfolding routes_update agents_inv_def by auto
  moreover have "mwf m \<and> m \<noteq> []" if "mget (agentsByHomeID ?r) h' = Some m" for h' m
    using that assms(1) agents_inv_homes [OF assms(1), of h] unfolding maps agents_inv_def by (auto split: if_splits)
  moreover have "mwf (agentsByHomeID ?r)" using assms(1) unfolding maps agents_inv_def by simp
  ultimately show ?thesis unfolding agents_inv_def maps(2) by blast
qed

lemma agents_inv_frame: "agents_inv r \<Longrightarrow> agentsByHomeID r' = agentsByHomeID r \<Longrightarrow> primaryAgentByHomeID r' = primaryAgentByHomeID r \<Longrightarrow> agents_inv r'"
  by (simp add: agents_inv_def routes_def agentsOf_def)

section \<open>In-flight slots\<close>

text \<open>
  \<open>AddPending\<close> takes a slot of its app before it takes the router's lock, and a timer gives one back
  after it has released that lock. \<open>held\<close> lists the apps whose slot some goroutine holds in between.
\<close>

definition slot_ok :: "Router \<Rightarrow> nat list \<Rightarrow> nat \<Rightarrow> bool" where
  "slot_ok r held a \<longleftrightarrow>
     inFlight (appObjs r ! a) = int (mcount (\<lambda>p. pe_app p = a) (pendingByID r) + count_list held a)
     \<and> mcount (\<lambda>p. pe_app p = a) (pendingByID r) + count_list held a \<le> 32"

definition slots_inv :: "Router \<Rightarrow> nat list \<Rightarrow> bool" where
  "slots_inv r held \<longleftrightarrow>
     mwf (pendingByID r)
     \<and> (\<forall>k p. mget (pendingByID r) k = Some p \<longrightarrow> pe_app p < length (appObjs r))
     \<and> set held \<subseteq> {..<length (appObjs r)}
     \<and> (\<forall>a < length (appObjs r). slot_ok r held a)"

lemma slots_invD:
  assumes "slots_inv r held"
  shows "mwf (pendingByID r)" "mget (pendingByID r) k = Some p \<Longrightarrow> pe_app p < length (appObjs r)"
    "a \<in> set held \<Longrightarrow> a < length (appObjs r)" "a < length (appObjs r) \<Longrightarrow> slot_ok r held a"
  using assms by (auto simp: slots_inv_def)

lemma slots_invI:
  assumes "mwf (pendingByID r)" "\<And>k p. mget (pendingByID r) k = Some p \<Longrightarrow> pe_app p < length (appObjs r)"
    "\<And>a. a \<in> set held \<Longrightarrow> a < length (appObjs r)" "\<And>a. a < length (appObjs r) \<Longrightarrow> slot_ok r held a"
  shows "slots_inv r held"
  using assms by (auto simp: slots_inv_def)

lemma count_list_split: "a \<in> set xs \<Longrightarrow> count_list xs b = (if b = a then Suc (count_list (remove1 a xs) b) else count_list (remove1 a xs) b)"
  by (induction xs) auto

lemma set_remove1_in: "b \<in> set (remove1 a xs) \<Longrightarrow> b \<in> set xs"
  using set_remove1_subset by fast

lemma updateApp_simps [simp]:
  "pendingByID (updateApp a f r) = pendingByID r" "length (appObjs (updateApp a f r)) = length (appObjs r)"
  "b < length (appObjs r) \<Longrightarrow> appObjs (updateApp a f r) ! b = (if b = a then f (appObjs r ! a) else appObjs r ! b)"
  by (simp_all add: updateApp_def nth_list_update)

lemma acquire_slots:
  assumes inv: "slots_inv r held" and run: "acquire a r = (True, r')" and a: "a < length (appObjs r)"
  shows "slots_inv r' (a # held)"
proof (rule slots_invI)
  have r': "r' = updateApp a (\<lambda>c. c\<lparr>inFlight := inFlight c + 1\<rparr>) r" and room: "inFlight (appObjs r ! a) < 32"
    using run by (auto simp: acquire_def split: if_splits)
  show "slot_ok r' (a # held) b" if "b < length (appObjs r')" for b
    using that room slots_invD(4) [OF inv, of b] by (cases "b = a") (simp_all add: r' slot_ok_def)
qed (use run a slots_invD [OF inv] in \<open>auto simp: acquire_def split: if_splits\<close>)

lemma release_slots:
  assumes inv: "slots_inv r held" and a: "a \<in> set held"
  shows "slots_inv (release a r) (remove1 a held)"
proof (rule slots_invI)
  have len: "a < length (appObjs r)" using slots_invD(3) [OF inv a] .
  note count = count_list_split [OF a]
  have pos: "0 < inFlight (appObjs r ! a)" using slots_invD(4) [OF inv len] unfolding slot_ok_def count [of a] by simp
  show "slot_ok (release a r) (remove1 a held) b" if "b < length (appObjs (release a r))" for b
  proof -
    have "b < length (appObjs r)" using that by (simp add: release_def)
    with slots_invD(4) [OF inv, of b] pos show ?thesis
      unfolding slot_ok_def count [of b] by (cases "b = a") (simp_all add: release_def del: count_list_remove1)
  qed
qed (use slots_invD [OF inv] in \<open>auto simp: release_def dest: set_remove1_in\<close>)

lemma insert_slots:
  assumes inv: "slots_inv r held" and a: "pe_app p \<in> set held" and run: "insertPending p r = (Inr (), r')"
  shows "slots_inv r' (remove1 (pe_app p) held)"
proof (rule slots_invI)
  have free: "mget (pendingByID r) (pe_requestID p) = None" and r': "r' = r\<lparr>pendingByID := mput (pe_requestID p) p (pendingByID r)\<rparr>"
    using run by (auto simp: insertPending_def split: if_splits)
  show "mwf (pendingByID r')" using slots_invD(1) [OF inv] by (simp add: r')
  show "pe_app q < length (appObjs r')" if "mget (pendingByID r') k = Some q" for k q
    using that slots_invD(2) [OF inv, of k q] slots_invD(3) [OF inv a] by (auto simp: r' split: if_splits)
  show "b < length (appObjs r')" if "b \<in> set (remove1 (pe_app p) held)" for b
    using slots_invD(3) [OF inv set_remove1_in [OF that]] by (simp add: r')
  show "slot_ok r' (remove1 (pe_app p) held) b" if "b < length (appObjs r')" for b
    using that slots_invD(4) [OF inv, of b] unfolding slot_ok_def count_list_split [OF a, of b] r'
    by (cases "b = pe_app p") (simp_all add: mcount_mput_new [OF free] del: count_list_remove1)
qed

lemma take_slots:
  assumes inv: "slots_inv r held" and run: "takePending k r = (Some p, r')"
  shows "slots_inv r' (pe_app p # held)"
proof (rule slots_invI)
  have p: "mget (pendingByID r) k = Some p" and r': "r' = r\<lparr>pendingByID := mdel k (pendingByID r)\<rparr>"
    using run by (auto simp: takePending_def split: option.splits)
  show "mwf (pendingByID r')" using slots_invD(1) [OF inv] by (simp add: r')
  show "pe_app q < length (appObjs r')" if "mget (pendingByID r') j = Some q" for j q
    using that slots_invD(2) [OF inv, of j q] by (auto simp: r' split: if_splits)
  show "b < length (appObjs r')" if "b \<in> set (pe_app p # held)" for b
    using that slots_invD(3) [OF inv, of b] slots_invD(2) [OF inv p] by (auto simp: r')
  show "slot_ok r' (pe_app p # held) b" if "b < length (appObjs r')" for b
    using that slots_invD(4) [OF inv, of b] mcount_mdel [OF slots_invD(1) [OF inv] p, of "\<lambda>q. pe_app q = b"]
    by (simp add: r' slot_ok_def split: if_splits)
qed

lemma resolve_slots:
  assumes "slots_inv r held" "ResolvePending k r = (res, r')"
  shows "slots_inv r' held"
proof (cases "takePending k r")
  case (Pair q r1)
  show ?thesis
  proof (cases q)
    case None
    then show ?thesis using assms Pair by (auto simp: ResolvePending_def takePending_def split: option.splits)
  next
    case (Some p)
    then have "slots_inv (release (pe_app p) r1) (remove1 (pe_app p) (pe_app p # held))"
      using take_slots [OF assms(1)] Pair by (intro release_slots) auto
    then show ?thesis using assms(2) Pair Some by (simp add: ResolvePending_def)
  qed
qed

lemma register_app_slots:
  assumes inv: "slots_inv r held"
  shows "slots_inv (snd (RegisterApp cid sid uid peer r)) held"
proof (rule slots_invI)
  let ?r = "snd (RegisterApp cid sid uid peer r)" and ?n = "length (appObjs r)"
  have n: "length (appObjs ?r) = Suc ?n" "pendingByID ?r = pendingByID r" by (simp_all add: RegisterApp_def)
  show "mwf (pendingByID ?r)" using slots_invD(1) [OF inv] n by simp
  show "pe_app q < length (appObjs ?r)" if "mget (pendingByID ?r) k = Some q" for k q
    using that slots_invD(2) [OF inv, of k q] n by simp
  show "b < length (appObjs ?r)" if "b \<in> set held" for b using slots_invD(3) [OF inv that] n by simp
  have unused: "mcount (\<lambda>p. pe_app p = ?n) (pendingByID r) = 0"
  proof -
    have "pe_app (snd kv) \<noteq> ?n" if "kv \<in> set (pendingByID r)" for kv
    proof -
      have "mget (pendingByID r) (fst kv) = Some (snd kv)"
        using slots_invD(1) [OF inv] that by (simp add: mwf_def)
      then show ?thesis using slots_invD(2) [OF inv] by fastforce
    qed
    then show ?thesis by (simp add: mcount_def)
  qed
  have free: "count_list held ?n = 0" using slots_invD(3) [OF inv, of ?n] by (auto intro: count_notin)
  show "slot_ok ?r held b" if "b < length (appObjs ?r)" for b
  proof (cases "b = ?n")
    case True
    then show ?thesis using unused free by (simp add: slot_ok_def RegisterApp_def)
  next
    case False
    then have "b < ?n" using that n by simp
    then show ?thesis using slots_invD(4) [OF inv, of b] by (simp add: slot_ok_def RegisterApp_def nth_append)
  qed
qed

section \<open>The router as a transition system\<close>

inductive router_step :: "Router \<times> nat list \<Rightarrow> Router \<times> nat list \<Rightarrow> bool" where
  register: "router_step (r, held) (snd (RegisterAgent cid h ag peer caps ty md r), held)"
| capabilities: "router_step (r, held) (UpdateAgentCapabilities h a caps r, held)"
| metrics: "router_step (r, held) (UpdateAgentMetrics h a m r, held)"
| unregister: "router_step (r, held) (UnregisterAgent h a cid r, held)"
| disconnect: "router_step (r, held) (snd (DisconnectAgent h a reason r), held)"
| register_app: "router_step (r, held) (snd (RegisterApp cid sid uid peer r), held)"
| unregister_app: "router_step (r, held) (UnregisterApp cid r, held)"
| subscribe: "router_step (r, held) (updateApp a (subscribe topics) r, held)"
| unsubscribe: "router_step (r, held) (updateApp a (unsubscribe topics) r, held)"
| acquire: "a < length (appObjs r) \<Longrightarrow> acquire a r = (True, r') \<Longrightarrow> router_step (r, held) (r', a # held)"
| insert: "pe_app p \<in> set held \<Longrightarrow> insertPending p r = (Inr (), r') \<Longrightarrow> router_step (r, held) (r', remove1 (pe_app p) held)"
| release: "a \<in> set held \<Longrightarrow> router_step (r, held) (release a r, remove1 a held)"
| timer: "takePending k r = (Some p, r') \<Longrightarrow> router_step (r, held) (r', pe_app p # held)"
| resolve: "ResolvePending k r = (res, r') \<Longrightarrow> router_step (r, held) (r', held)"

definition router_init :: "Router \<times> nat list \<Rightarrow> bool" where
  "router_init s \<longleftrightarrow> s = (NewRouter, [])"

definition router_inv :: "Router \<times> nat list \<Rightarrow> bool" where
  "router_inv s \<longleftrightarrow> agents_inv (fst s) \<and> slots_inv (fst s) (snd s)"

lemma slots_inv_frame:
  "slots_inv r held \<Longrightarrow> pendingByID r' = pendingByID r \<Longrightarrow> appObjs r' = appObjs r \<Longrightarrow> slots_inv r' held"
  by (simp add: slots_inv_def slot_ok_def)

lemma slots_inv_update:
  assumes "slots_inv r held" "\<And>c. inFlight (f c) = inFlight c"
  shows "slots_inv (updateApp a f r) held"
  by (rule slots_invI) (use slots_invD [OF assms(1)] assms(2) in \<open>auto simp: slot_ok_def\<close>)

lemma agent_ops_frame [simp]:
  "pendingByID (snd (RegisterAgent cid h ag peer caps ty md r)) = pendingByID r" "appObjs (snd (RegisterAgent cid h ag peer caps ty md r)) = appObjs r"
  "pendingByID (updateConnection h a f r) = pendingByID r" "appObjs (updateConnection h a f r) = appObjs r"
  "pendingByID (removeAgent h a r) = pendingByID r" "appObjs (removeAgent h a r) = appObjs r"
  by (simp_all add: RegisterAgent_def updateConnection_def removeAgent_def Let_def split: option.split)

lemma app_ops_frame [simp]:
  "agentsByHomeID (updateApp a f r) = agentsByHomeID r" "primaryAgentByHomeID (updateApp a f r) = primaryAgentByHomeID r"
  "agentsByHomeID (release a r) = agentsByHomeID r" "primaryAgentByHomeID (release a r) = primaryAgentByHomeID r"
  by (simp_all add: updateApp_def release_def)

lemma pending_ops_frame:
  "acquire a r = (b, r') \<Longrightarrow> agentsByHomeID r' = agentsByHomeID r \<and> primaryAgentByHomeID r' = primaryAgentByHomeID r"
  "insertPending p r = (u, r') \<Longrightarrow> agentsByHomeID r' = agentsByHomeID r \<and> primaryAgentByHomeID r' = primaryAgentByHomeID r"
  "takePending k r = (q, r') \<Longrightarrow> agentsByHomeID r' = agentsByHomeID r \<and> primaryAgentByHomeID r' = primaryAgentByHomeID r"
  "ResolvePending k r = (q, r') \<Longrightarrow> agentsByHomeID r' = agentsByHomeID r \<and> primaryAgentByHomeID r' = primaryAgentByHomeID r"
  by (auto simp: acquire_def insertPending_def takePending_def ResolvePending_def split: if_splits option.splits prod.splits)

lemma unregister_inv:
  assumes "agents_inv r" "slots_inv r held"
  shows "agents_inv (UnregisterAgent h a cid r) \<and> slots_inv (UnregisterAgent h a cid r) held"
  using assms remove_inv [OF assms(1)] slots_inv_frame [OF assms(2), of "removeAgent h a r"]
  by (auto simp: UnregisterAgent_def split: option.split)

lemma disconnect_inv:
  assumes "agents_inv r" "slots_inv r held"
  shows "agents_inv (snd (DisconnectAgent h a reason r)) \<and> slots_inv (snd (DisconnectAgent h a reason r)) held"
proof (cases "mget (agentsOf r h) a")
  case None
  then show ?thesis using assms by (simp add: DisconnectAgent_def)
next
  case (Some c)
  have "agents_inv ((removeAgent h a r)\<lparr>closedPeers := x\<rparr>)" for x
    by (rule agents_inv_frame [OF remove_inv [OF assms(1)]]) simp_all
  moreover have "slots_inv ((removeAgent h a r)\<lparr>closedPeers := x\<rparr>) held" for x
    by (rule slots_inv_frame [OF assms(2)]) simp_all
  ultimately show ?thesis using Some by (simp add: DisconnectAgent_def Let_def)
qed

lemma router_step_inv:
  assumes "router_step s t" "router_inv s"
  shows "router_inv t"
  using assms
proof (induction rule: router_step.induct)
  case (register r held cid h ag peer caps ty md)
  then show ?case by (auto simp: router_inv_def intro: register_inv slots_inv_frame)
next
  case (capabilities r held h a caps)
  then show ?case by (auto simp: router_inv_def UpdateAgentCapabilities_def intro!: update_inv intro: slots_inv_frame)
next
  case (metrics r held h a m)
  then show ?case by (auto simp: router_inv_def UpdateAgentMetrics_def intro!: update_inv intro: slots_inv_frame)
next
  case (unregister r held h a cid)
  then show ?case using unregister_inv [of r held] by (simp add: router_inv_def)
next
  case (disconnect r held h a reason)
  then show ?case using disconnect_inv [of r held] by (simp add: router_inv_def)
next
  case (register_app r held cid sid uid peer)
  then show ?case by (auto simp: router_inv_def register_app_slots intro: agents_inv_frame) (auto simp: RegisterApp_def intro: agents_inv_frame)
next
  case (unregister_app r held cid)
  then show ?case by (auto simp: router_inv_def UnregisterApp_def intro: agents_inv_frame slots_inv_frame)
next
  case (subscribe r held a topics)
  then show ?case by (auto simp: router_inv_def Router.subscribe_def intro!: slots_inv_update intro: agents_inv_frame)
next
  case (unsubscribe r held a topics)
  then show ?case by (auto simp: router_inv_def Router.unsubscribe_def intro!: slots_inv_update intro: agents_inv_frame)
next
  case (acquire a r r' held)
  then show ?case using pending_ops_frame(1) [OF acquire(2)] by (auto simp: router_inv_def intro: agents_inv_frame acquire_slots)
next
  case (insert p held r r')
  then show ?case using pending_ops_frame(2) [OF insert(2)] by (auto simp: router_inv_def intro: agents_inv_frame insert_slots)
next
  case (release a held r)
  then show ?case by (auto simp: router_inv_def intro: agents_inv_frame release_slots)
next
  case (timer k r p r' held)
  then show ?case using pending_ops_frame(3) [OF timer(1)] by (auto simp: router_inv_def intro: agents_inv_frame take_slots)
next
  case (resolve k r res r' held)
  then show ?case using pending_ops_frame(4) [OF resolve(1)] by (auto simp: router_inv_def intro: agents_inv_frame resolve_slots)
qed

interpretation router: invariant_system router_init router_step router_inv
proof unfold_locales
  show "router_inv s" if "router_init s" for s
    using that by (simp add: router_init_def router_inv_def agents_inv_def slots_inv_def NewRouter_def routes_def agentsOf_def)
qed (rule router_step_inv)

section \<open>Properties\<close>

text \<open>C30: registration gives an agent one of the two known types, and it is the enrolled one: a claim is
  only accepted when it names the stored type, and normalising the result again changes nothing.\<close>

theorem registered_agent_type_sound:
  assumes "registeredAgentType quoted stored claimed = Inr t"
  shows "(t = AgentTypePrimary \<or> t = AgentTypeWorker) \<and> normalizeAgentType stored = Some t
    \<and> (blank claimed \<or> normalizeAgentType claimed = Some t) \<and> normalizeAgentType t = Some t"
proof -
  have stored: "normalizeAgentType stored = Some t" and "blank claimed \<or> normalizeAgentType claimed = Some t"
    using assms by (auto simp: registeredAgentType_def split: option.splits if_splits)
  moreover have "t = AgentTypePrimary \<or> t = AgentTypeWorker"
    using stored by (auto simp: normalizeAgentType_def Let_def split: if_splits)
  moreover from this have "normalizeAgentType t = Some t"
    by (auto simp: normalizeAgentType_def AgentTypePrimary_def AgentTypeWorker_def literal_simps)
  ultimately show ?thesis by blast
qed

text \<open>C29: the router's nested maps implement a flat route table: registering binds exactly the pair of
  home and agent to the new connection, unregistering drops the pair only for the connection that is
  registered there (or for an empty connection id), disconnecting drops it and reports whether it was
  there, a capability update stays within the entry, and a targeted lookup reads the table.\<close>

theorem router_refines_route_table:
  "routes (snd (RegisterAgent cid h ag peer caps ty md r)) = (routes r)((h, ag_ID ag) \<mapsto> registeredConnection cid h ag peer caps ty md)
   \<and> routes (UnregisterAgent h a cid r) = spec_unregister h a cid (routes r)
   \<and> routes (snd (DisconnectAgent h a reason r)) = (routes r)((h, a) := None)
   \<and> fst (DisconnectAgent h a reason r) = (routes r (h, a) \<noteq> None)
   \<and> routes (UpdateAgentCapabilities h a caps r) = (routes r)((h, a) := map_option (\<lambda>c. c\<lparr>ac_capabilities := caps\<rparr>) (routes r (h, a)))
   \<and> (a \<noteq> [] \<longrightarrow> ResolveAgent h a r = routes r (h, a))"
proof -
  have "fst (DisconnectAgent h a reason r) = (routes r (h, a) \<noteq> None)"
    by (auto simp: DisconnectAgent_def routes_def Let_def split: option.split)
  moreover have "a \<noteq> [] \<longrightarrow> ResolveAgent h a r = routes r (h, a)" by (simp add: ResolveAgent_def routes_def)
  ultimately show ?thesis
    by (simp add: routes_register routes_unregister routes_disconnect UpdateAgentCapabilities_def routes_update)
qed

text \<open>C13: in every state the router can reach, whatever the interleaving of registrations, requests,
  responses, timers and disconnects: a recorded primary is connected and is the agent \<open>GetAgent\<close> returns,
  filed under its own home and id; and every app's in-flight counter is exactly the number of its
  pending requests and of slots held by calls under way, never more than 32.\<close>

theorem router_reachable_safe:
  assumes "reachable router_init router_step (r, held)"
  shows "(\<forall>h p. mget (primaryAgentByHomeID r) h = Some p \<longrightarrow>
        (\<exists>c. GetAgent h r = Some c \<and> ResolveAgent h [] r = Some c \<and> ag_ID (ac_agent c) = p \<and> ac_homeID c = h))
    \<and> (\<forall>a < length (appObjs r). inFlight (appObjs r ! a) = int (mcount (\<lambda>p. pe_app p = a) (pendingByID r) + count_list held a)
        \<and> mcount (\<lambda>p. pe_app p = a) (pendingByID r) + count_list held a \<le> 32)"
proof -
  have inv: "agents_inv r" "slots_inv r held" using router.reachable_inv [OF assms] by (simp_all add: router_inv_def)
  have "\<exists>c. GetAgent h r = Some c \<and> ResolveAgent h [] r = Some c \<and> ag_ID (ac_agent c) = p \<and> ac_homeID c = h"
    if p: "mget (primaryAgentByHomeID r) h = Some p" for h p
  proof -
    have "routes r (h, p) \<noteq> None" using inv(1) p unfolding agents_inv_def by blast
    then obtain c where c: "routes r (h, p) = Some c" by blast
    with inv(1) have "ag_ID (ac_agent c) = p \<and> ac_homeID c = h" unfolding agents_inv_def by blast
    with c p show ?thesis by (simp add: GetAgent_def ResolveAgent_def routes_def)
  qed
  then show ?thesis using slots_invD(4) [OF inv(2)] by (auto simp: slot_ok_def)
qed

text \<open>
  Two consequences of what the critical sections look at. A timer that fires late, after its request
  was resolved and the id used again, takes the newer request; and a websocket that closes before it
  registered anything, which unregisters with an empty connection id, drops the agent's live
  connection.
\<close>

theorem late_timer_takes_newer_request:
  assumes "mget (pendingByID r) (pe_requestID p) = None"
  shows "fst (takePending (pe_requestID p) (snd (insertPending p r))) = Some p"
  using assms by (simp add: takePending_def insertPending_def)

theorem unregistered_close_evicts:
  assumes "routes r (h, a) = Some c"
  shows "routes (UnregisterAgent h a [] r) (h, a) = None"
  using assms by (simp add: routes_unregister spec_unregister_def)

section \<open>Witnesses\<close>

definition sampleAgent :: Agent where
  "sampleAgent = \<lparr>ag_ID = ''a1'', ag_HomeID = ''h1'', ag_Name = ''pc'', ag_Status = ''online'', ag_AgentType = ''primary'',
     ag_InstallationID = [], ag_EnrolledByUserID = [], ag_LastSeenAt = None, ag_CreatedAt = 1, ag_UpdatedAt = 2\<rparr>"

theorem registered_agent_type_sound_witness:
  "registeredAgentType id ''home-agent'' ''primary'' = Inr ''primary'' \<and> normalizeAgentType ''home-agent'' = Some ''primary''"
proof -
  have run: "registeredAgentType id ''home-agent'' ''primary'' = Inr ''primary''"
    by (simp add: registeredAgentType_def normalizeAgentType_def AgentTypePrimary_def AgentTypeWorker_def literal_simps)
  with registered_agent_type_sound [OF run] show ?thesis by simp
qed

theorem router_refines_route_table_witness:
  "ResolveAgent ''h1'' ''a1'' (snd (RegisterAgent ''conn1'' ''h1'' sampleAgent (Some 3) [] ''primary'' [] NewRouter))
     = Some (registeredConnection ''conn1'' ''h1'' sampleAgent (Some 3) [] ''primary'' [])"
proof -
  let ?r = "snd (RegisterAgent ''conn1'' ''h1'' sampleAgent (Some 3) [] ''primary'' [] NewRouter)"
  have "routes ?r (''h1'', ''a1'') = Some (registeredConnection ''conn1'' ''h1'' sampleAgent (Some 3) [] ''primary'' [])"
    using router_refines_route_table [of "''conn1''" "''h1''" sampleAgent "Some 3" "[]" "''primary''" "[]" NewRouter]
    by (simp add: sampleAgent_def)
  then show ?thesis
    using router_refines_route_table [of _ "''h1''" _ _ _ _ _ ?r "''a1''"] by simp
qed

theorem router_reachable_safe_witness:
  "\<exists>r c. reachable router_init router_step (r, []) \<and> GetAgent ''h1'' r = Some c \<and> ag_ID (ac_agent c) = ''a1''"
proof -
  let ?r = "snd (RegisterAgent ''conn1'' ''h1'' sampleAgent (Some 3) [] ''primary'' [] NewRouter)"
  have "reachable router_init router_step (NewRouter, [])" by (rule reach_init) (simp add: router_init_def)
  then have r: "reachable router_init router_step (?r, [])" by (rule reach_step) (rule router_step.register)
  have "mget (primaryAgentByHomeID ?r) ''h1'' = Some ''a1''"
    by (simp add: RegisterAgent_def Let_def isPrimary_def registeredConnection_def sampleAgent_def normalizeAgentType_def
        AgentTypePrimary_def AgentTypeWorker_def literal_simps)
  with router_reachable_safe [OF r] r show ?thesis by blast
qed

end
