(* ===== verification/Desktop_Websocket.thy ===== *)
theory Desktop_Websocket
  imports Desktop_Service Router
begin

text \<open>
  The data connections of a desktop session, \<open>internal/cloud/desktop_websocket.go\<close>: how a request of the
  browser or the agent is authorised against the store and joined to the relay, and what the events of
  the relay change in the store. The parsed \<open>Origin\<close>, the outcome of \<open>websocket.Accept\<close>, SHA-256, the clock
  and random ids are arguments. The handler is modelled up to the point where \<open>Join\<close> waits for the
  session to end, and from there on as \<open>joinReturned\<close>.
\<close>

section \<open>Authorisation\<close>

definition errDesktopRelayUnauthorized :: error where
  "errDesktopRelayUnauthorized = ErrMsg ''desktop relay unauthorized''"

definition desktopRelayJoinableState :: "desktopRelaySide \<Rightarrow> DesktopSessionState \<Rightarrow> bool" where
  "desktopRelayJoinableState side st \<longleftrightarrow> st \<in> {Offered, AgentReady, Joining, Reconnecting}"

definition PrepareDesktopRelay ::
    "(nat \<Rightarrow> bool) \<Rightarrow> desktopRelaySide \<Rightarrow> string \<Rightarrow> string \<Rightarrow> string \<Rightarrow> time \<Rightarrow> desktop_db \<Rightarrow> desktopRelayJoinClaim result" where
  "PrepareDesktopRelay wide side sessionID credential agentID now db =
     (if \<not> validDesktopResourceID wide sessionID \<or> blank credential then Inl errDesktopRelayUnauthorized
      else
        (case GetDesktopSession sessionID db of
           Inl _ \<Rightarrow> Inl errDesktopRelayUnauthorized
         | Inr s \<Rightarrow>
             if \<not> s_HardExpiresAt s > now \<or> s_KeyEpoch s = 0 \<or> \<not> desktopRelayJoinableState side (s_State s)
             then Inl errDesktopRelayUnauthorized
             else if side = RelayAgent \<and> (blank agentID \<or> s_AgentID s \<noteq> agentID)
             then Inl errDesktopRelayUnauthorized
             else
               let c = \<lparr>cl_SessionID = s_ID s, cl_HomeID = s_HomeID s, cl_Side = side, cl_KeyEpoch = s_KeyEpoch s,
                        cl_AgentID = s_AgentID s, cl_HardExpiresAt = s_HardExpiresAt s,
                        cl_Reconnect = (s_State s = Reconnecting), cl_ReconnectExpiresAt = 0\<rparr> in
               if cl_Reconnect c
               then (case s_ReconnectExpiresAt s of
                       None \<Rightarrow> Inl errDesktopRelayUnauthorized
                     | Some t \<Rightarrow> Inr (c\<lparr>cl_ReconnectExpiresAt := t\<rparr>))
               else Inr c))"

definition storeSide :: "desktopRelaySide \<Rightarrow> Side" where
  "storeSide side = (case side of RelayBrowser \<Rightarrow> Browser | RelayAgent \<Rightarrow> Agent | RelayOther t \<Rightarrow> OtherSide t)"

definition ConsumeDesktopRelayCredential ::
    "service_env \<Rightarrow> desktopRelayJoinClaim \<Rightarrow> string \<Rightarrow> time \<Rightarrow> desktop_db \<Rightarrow> desktop_db result" where
  "ConsumeDesktopRelayCredential env c credential now db =
     (if validateClaim (wideRune env) c now \<noteq> Inr () \<or> blank credential then Inl errDesktopRelayUnauthorized
      else
        (case ConsumeDesktopJoinCredential (desktopCredentialHash env credential) (storeSide (cl_Side c)) (cl_SessionID c)
                (cl_KeyEpoch c) now db of
           Inl _ \<Rightarrow> Inl errDesktopRelayUnauthorized
         | Inr (_, db') \<Rightarrow> Inr db'))"

section \<open>The connection handler\<close>

text \<open>What the caller of the handler sees: the HTTP error, or the relay session it waits on.\<close>

datatype ws_outcome =
    WsUnauthorized
  | WsCapacityUnavailable
  | WsAcceptFailed
  | WsJoinFailed error
  | WsJoined nat bool

record ws_env =
  wsService :: service_env
  wsIsGet :: bool
  wsNow :: time
  wsReserveNow :: time
  wsJoinNow :: time
  wsAccepted :: "nat option"

record ws_state =
  wsDb :: desktop_db
  wsRelay :: "inProcessDesktopRelay option"
  joinMetrics :: "(string \<times> string) list"
  cookieCleared :: bool
  wsClosed :: "(nat \<times> string) list"

definition incJoin :: "desktopRelaySide \<Rightarrow> string \<Rightarrow> ws_state \<Rightarrow> ws_state" where
  "incJoin side outcome w = w\<lparr>joinMetrics := joinMetrics w @ [(relaySideName side, outcome)]\<rparr>"

text \<open>
  \<open>desktopWebSocketEndpoint.Close\<close> closes the socket with the first 120 bytes of the reason, and its
  \<open>Read\<close> accepts binary messages only.
\<close>

definition endpointClose :: "nat \<Rightarrow> string \<Rightarrow> ws_state \<Rightarrow> ws_state" where
  "endpointClose e reason w = w\<lparr>wsClosed := wsClosed w @ [(e, take 120 reason)]\<rparr>"

definition endpointRead :: "(error, bool \<times> bytes) sum \<Rightarrow> bytes result" where
  "endpointRead message =
     (case message of Inl e \<Rightarrow> Inl e
      | Inr (isBinary, payload) \<Rightarrow>
          if \<not> isBinary then Inl (ErrMsg ''desktop relay accepts binary messages only'') else Inr payload)"

text \<open>The handler once the socket is accepted: the join, and its refusal.\<close>

definition joinEndpoint ::
    "ws_env \<Rightarrow> desktopRelayJoinClaim \<Rightarrow> nat \<Rightarrow> inProcessDesktopRelay \<Rightarrow> ws_state \<Rightarrow> ws_outcome \<times> ws_state" where
  "joinEndpoint env c e r w =
     (case Join (wideRune (wsService env)) c (Some e) (wsJoinNow env) r of
        (Inl err, r1) \<Rightarrow>
          (WsJoinFailed err,
           endpointClose e ''relay_closed'' (incJoin (cl_Side c) ''failed'' (w\<lparr>wsRelay := Some (CancelReservation c r1)\<rparr>)))
      | (Inr (a, paired), r1) \<Rightarrow> (WsJoined a paired, w\<lparr>wsRelay := Some r1\<rparr>))"

definition handleDesktopDataWebSocket ::
    "ws_env \<Rightarrow> desktopRelaySide \<Rightarrow> string \<Rightarrow> string \<Rightarrow> string \<Rightarrow> ws_state \<Rightarrow> ws_outcome \<times> ws_state" where
  "handleDesktopDataWebSocket env side sessionID credential agentID w =
     (case wsRelay w of
        None \<Rightarrow> (WsUnauthorized, w)
      | Some r \<Rightarrow>
          if \<not> wsIsGet env then (WsUnauthorized, w)
          else
            (case PrepareDesktopRelay (wideRune (wsService env)) side sessionID credential agentID (wsNow env) (wsDb w) of
               Inl _ \<Rightarrow> (WsUnauthorized, incJoin side ''failed'' w)
             | Inr c \<Rightarrow>
                 (case Reserve (wideRune (wsService env)) c (wsReserveNow env) r of
                    (Inl _, r1) \<Rightarrow> (WsCapacityUnavailable, incJoin side ''failed'' (w\<lparr>wsRelay := Some r1\<rparr>))
                  | (Inr _, r1) \<Rightarrow>
                      (case ConsumeDesktopRelayCredential (wsService env) c credential (wsNow env) (wsDb w) of
                         Inl _ \<Rightarrow> (WsUnauthorized, incJoin side ''replayed'' (w\<lparr>wsRelay := Some r1\<rparr>))
                       | Inr db \<Rightarrow>
                           let w1 = w\<lparr>wsDb := db, wsRelay := Some r1, cookieCleared := cookieCleared w \<or> side = RelayBrowser\<rparr> in
                           (case wsAccepted env of
                              None \<Rightarrow> (WsAcceptFailed, w1\<lparr>wsRelay := Some (CancelReservation c r1)\<rparr>)
                            | Some e \<Rightarrow> joinEndpoint env c e r1 w1)))))"

text \<open>What follows when \<open>Join\<close> returns at the end of the session with the error of the session, if it has one.\<close>

definition joinReturned :: "desktopRelayJoinClaim \<Rightarrow> nat \<Rightarrow> error option \<Rightarrow> ws_state \<Rightarrow> ws_state" where
  "joinReturned c e sessionErr w =
     (case sessionErr of
        Some _ \<Rightarrow>
          endpointClose e ''relay_closed'' (incJoin (cl_Side c) ''failed'' (w\<lparr>wsRelay := map_option (CancelReservation c) (wsRelay w)\<rparr>))
      | None \<Rightarrow> w\<lparr>wsClosed := wsClosed w @ [(e, ''desktop session closed'')]\<rparr>)"

definition errDesktopRelayNotReady :: error where
  "errDesktopRelayNotReady = ErrMsg ''desktop relay is not available before milestone 2''"

definition desktopRelayAdmissionReason :: "error \<Rightarrow> string" where
  "desktopRelayAdmissionReason err =
     (if err = errDesktopRelayLimit then ''capacity''
      else if err = errDesktopRelayDuplicateSide then ''duplicate_side''
      else if err = errDesktopRelayClaimMismatch then ''claim_mismatch''
      else if err = errDesktopRelayNotReady then ''unavailable''
      else ''rejected'')"

section \<open>The two entry points\<close>

text \<open>The parts of the request they read; a header that is missing is the empty string.\<close>

record ws_request =
  rq_Path :: string
  rq_Host :: string
  rq_Origin :: string
  rq_TLS :: bool
  rq_ForwardedProto :: string
  rq_JoinCookie :: "string option"
  rq_Authorization :: string
  rq_AgentID :: string

definition hasPrefix :: "string \<Rightarrow> string \<Rightarrow> bool" where
  "hasPrefix s p \<longleftrightarrow> take (length p) s = p"

definition trimPrefix :: "string \<Rightarrow> string \<Rightarrow> string" where
  "trimPrefix s p = (if hasPrefix s p then drop (length p) s else s)"

text \<open>
  \<open>strings.EqualFold\<close> against an ASCII word: upper case letters, the long s (U+017F) and the Kelvin sign
  (U+212A) are the runes whose simple folding is another, lower case ASCII letter.
\<close>

definition foldRune :: "nat \<Rightarrow> nat" where
  "foldRune r = (if 65 \<le> r \<and> r \<le> 90 then r + 32 else if r = 383 then 115 else if r = 8490 then 107 else r)"

definition equalFoldASCII :: "string \<Rightarrow> string \<Rightarrow> bool" where
  "equalFoldASCII s word \<longleftrightarrow> map foldRune (runes s) = map of_char word"

text \<open>\<open>parseURL\<close> gives the scheme and host \<open>url.Parse\<close> finds, or nothing.\<close>

definition desktopSameOrigin :: "(string \<Rightarrow> (string \<times> string) option) \<Rightarrow> ws_request \<Rightarrow> bool" where
  "desktopSameOrigin parseURL rq =
     (let origin = trimSpace (rq_Origin rq) in
      if origin = [] then False
      else
        (case parseURL origin of
           None \<Rightarrow> False
         | Some (scheme, host) \<Rightarrow>
             if host \<noteq> rq_Host rq then False
             else scheme = (if rq_TLS rq \<or> equalFoldASCII (trimSpace (rq_ForwardedProto rq)) ''https'' then ''https'' else ''http'')))"

definition bearerToken :: "string \<Rightarrow> string result" where
  "bearerToken header0 =
     (let header = trimSpace header0 in
      if header = [] then Inl (ErrMsg ''missing authorization header'')
      else if \<not> hasPrefix header ''Bearer '' then Inl (ErrMsg ''authorization header must use Bearer token'')
      else
        let token = trimSpace (trimPrefix header ''Bearer '') in
        if token = [] then Inl (ErrMsg ''bearer token is empty'') else Inr token)"

definition handleDesktopBrowserWebSocket ::
    "(string \<Rightarrow> (string \<times> string) option) \<Rightarrow> ws_env \<Rightarrow> ws_request \<Rightarrow> ws_state \<Rightarrow> ws_outcome \<times> ws_state" where
  "handleDesktopBrowserWebSocket parseURL env rq w =
     (if \<not> desktopSameOrigin parseURL rq then (WsUnauthorized, w)
      else
        (case rq_JoinCookie rq of
           None \<Rightarrow> (WsUnauthorized, w)
         | Some v \<Rightarrow> handleDesktopDataWebSocket env RelayBrowser (trimPrefix (rq_Path rq) ''/ws/desktop/browser/'') v [] w))"

definition handleDesktopAgentWebSocket :: "ws_env \<Rightarrow> ws_request \<Rightarrow> ws_state \<Rightarrow> ws_outcome \<times> ws_state" where
  "handleDesktopAgentWebSocket env rq w =
     (case bearerToken (rq_Authorization rq) of
        Inl _ \<Rightarrow> (WsUnauthorized, w)
      | Inr credential \<Rightarrow>
          handleDesktopDataWebSocket env RelayAgent (trimPrefix (rq_Path rq) ''/ws/desktop/agent/'') credential
            (trimSpace (rq_AgentID rq)) w)"

section \<open>Events of the relay\<close>

datatype relay_metric =
    JoinMetric string string
  | BackpressureMetric string
  | BytesMetric string int
  | TerminatedMetric string

definition relayDirection :: "desktopRelayLifecycleEvent \<Rightarrow> string" where
  "relayDirection event = (if ev_Reason event = ''agent'' then ''agent_to_browser'' else ''browser_to_agent'')"

definition relayMetrics :: "desktopRelayLifecycleEvent \<Rightarrow> relay_metric list" where
  "relayMetrics event =
     (if ev_Kind event = ''side_joined'' then [JoinMetric (ev_Reason event) ''success'']
      else if ev_Kind event = ''backpressure'' then [BackpressureMetric (relayDirection event)]
      else if ev_Kind event = ''closed''
      then [BytesMetric ''browser_to_agent'' (ev_BrowserToAgentBytes event),
            BytesMetric ''agent_to_browser'' (ev_AgentToBrowserBytes event), TerminatedMetric (ev_Reason event)]
      else [])"

text \<open>\<open>json.Marshal\<close> of the three counters, keys sorted.\<close>

definition relayMetadata :: "desktopRelayLifecycleEvent \<Rightarrow> string" where
  "relayMetadata event =
     ''{'' @ quote @ ''agent_to_browser_bytes'' @ quote @ '':'' @ show_int (ev_AgentToBrowserBytes event) @ '',''
     @ quote @ ''browser_to_agent_bytes'' @ quote @ '':'' @ show_int (ev_BrowserToAgentBytes event) @ '',''
     @ quote @ ''key_epoch'' @ quote @ '':'' @ show_nat (unat (ev_KeyEpoch event)) @ ''}''"

definition orKeep :: "desktop_db \<Rightarrow> desktop_db result \<Rightarrow> desktop_db" where
  "orKeep db r = (case r of Inl _ \<Rightarrow> db | Inr db' \<Rightarrow> db')"

definition relayAudit :: "time \<Rightarrow> desktopRelayLifecycleEvent \<Rightarrow> DesktopSessionEvent" where
  "relayAudit now event =
     \<lparr>e_SessionID = ev_SessionID event, e_Sequence = 0, e_EventType = ''relay.'' @ ev_Kind event, e_ActorType = ''server'',
      e_ActorID = [], e_OccurredAt = now, e_Severity = ''info'', e_ReasonCode = ev_Reason event,
      e_MetadataJSON = relayMetadata event\<rparr>"

text \<open>The byte counters of a session that carried data are added when it closes; an error is dropped.\<close>

definition bytesAdded :: "desktopRelayLifecycleEvent \<Rightarrow> desktop_db \<Rightarrow> desktop_db" where
  "bytesAdded event db =
     (if ev_Kind event = ''closed'' \<and> (ev_BrowserToAgentBytes event > 0 \<or> ev_AgentToBrowserBytes event > 0)
      then orKeep db (AddDesktopRelayBytes (ev_SessionID event) (ev_BrowserToAgentBytes event) (ev_AgentToBrowserBytes event) db)
      else db)"

text \<open>
  The database after an event of the relay. Errors of the three statements are dropped, as the code
  does.
\<close>

definition recordRelayEvent ::
    "(string \<Rightarrow> bool) \<Rightarrow> time \<Rightarrow> desktopRelayLifecycleEvent \<Rightarrow> desktop_db \<Rightarrow> desktop_db" where
  "recordRelayEvent jsonObject now event db0 =
     (if ev_SessionID event = [] then db0
      else
        let db = bytesAdded event db0;
            audit = relayAudit now event;
            append = orKeep db (AppendDesktopSessionEvent jsonObject audit db) in
        if ev_Kind event = ''closed'' \<and> ev_Reason event = ''transport_closed''
        then
          (case GetDesktopSession (ev_SessionID event) db of
             Inl _ \<Rightarrow> append
           | Inr s \<Rightarrow>
               if s_State s = Active \<and> s_KeyEpoch s = ev_KeyEpoch event
               then
                 let expires0 = now + desktopReconnectTTL;
                     expires = (if expires0 > s_HardExpiresAt s then s_HardExpiresAt s else expires0);
                     lost = audit\<lparr>e_EventType := ''relay.transport_lost'', e_Severity := ''warning''\<rparr> in
                 (case MarkDesktopTransportLost jsonObject (s_ID s) (ev_KeyEpoch event) expires lost db of
                    Inl _ \<Rightarrow> db | Inr (_, db') \<Rightarrow> db')
               else append)
        else append)"

text \<open>
  The whole callback: the metrics, the back-pressure message it sends from a goroutine of its own
  (session, epoch and direction, for \<open>sendDesktopRelayPressure\<close>), and the database.
\<close>

definition recordDesktopRelayLifecycle ::
    "(string \<Rightarrow> bool) \<Rightarrow> time \<Rightarrow> desktopRelayLifecycleEvent \<Rightarrow> desktop_db \<Rightarrow>
     relay_metric list \<times> (string \<times> 32 word \<times> string) option \<times> desktop_db" where
  "recordDesktopRelayLifecycle jsonObject now event db =
     (relayMetrics event,
      if ev_Kind event = ''backpressure'' then Some (ev_SessionID event, ev_KeyEpoch event, relayDirection event) else None,
      recordRelayEvent jsonObject now event db)"

text \<open>The command sent to an agent whose connection falls behind.\<close>

record pressure_command =
  pc_SessionID :: string
  pc_KeyEpoch :: "32 word"
  pc_Direction :: string
  pc_AgentID :: string
  pc_HomeID :: string

definition desktopRelayPressureEnvelope :: "DesktopSession \<Rightarrow> 32 word \<Rightarrow> string \<Rightarrow> pressure_command result" where
  "desktopRelayPressureEnvelope s epoch direction =
     (if s_State s \<noteq> Active \<or> s_KeyEpoch s \<noteq> epoch \<or> (direction \<noteq> ''browser_to_agent'' \<and> direction \<noteq> ''agent_to_browser'')
      then Inl (ErrMsg ''invalid desktop relay pressure scope'')
      else Inr \<lparr>pc_SessionID = s_ID s, pc_KeyEpoch = epoch, pc_Direction = direction, pc_AgentID = s_AgentID s, pc_HomeID = s_HomeID s\<rparr>)"

definition sendDesktopRelayPressure ::
    "(nat \<Rightarrow> bool) \<Rightarrow> string \<Rightarrow> 32 word \<Rightarrow> string \<Rightarrow> Router \<Rightarrow> desktop_db \<Rightarrow> (agentConnection \<times> pressure_command) option" where
  "sendDesktopRelayPressure wide sessionID epoch direction router db =
     (if \<not> validDesktopResourceID wide sessionID \<or> epoch = 0 then None
      else
        (case GetDesktopSession sessionID db of
           Inl _ \<Rightarrow> None
         | Inr s \<Rightarrow>
             if s_KeyEpoch s \<noteq> epoch \<or> s_State s \<noteq> Active then None
             else
               (case ResolveAgent (s_HomeID s) (s_AgentID s) router of
                  None \<Rightarrow> None
                | Some connection \<Rightarrow>
                    (case desktopRelayPressureEnvelope s epoch direction of
                       Inl _ \<Rightarrow> None | Inr cmd \<Rightarrow> Some (connection, cmd)))))"

section \<open>Only a fresh credential joins\<close>

lemma prepare_claim:
  assumes "PrepareDesktopRelay wide side sid credential agentID now db = Inr c"
  obtains s where "findSession db sid = Some s" "s_ID s = sid" "now < s_HardExpiresAt s" "desktopRelayJoinableState side (s_State s)"
    "side = RelayAgent \<Longrightarrow> s_AgentID s = agentID" "cl_SessionID c = sid" "cl_Side c = side" "cl_KeyEpoch c = s_KeyEpoch s"
    "cl_HomeID c = s_HomeID s" "cl_AgentID c = s_AgentID s"
proof (cases "findSession db sid")
  case None
  then show ?thesis using assms by (simp add: PrepareDesktopRelay_def GetDesktopSession_def split: if_splits)
next
  case (Some s)
  then have "s_ID s = sid" using findSession_Some by blast
  then show ?thesis using assms Some
    by (intro that [of s])
      (auto simp: PrepareDesktopRelay_def GetDesktopSession_def Let_def split: if_splits option.splits)
qed

lemma joinable_live: "desktopRelayJoinableState side (s_State s) \<Longrightarrow> live s"
  by (auto simp: desktopRelayJoinableState_def live_def liveStates_def)

lemma consume_relay_steps:
  assumes "ConsumeDesktopRelayCredential env c credential now db = Inr db'"
  obtains d where "ConsumeDesktopJoinCredential (desktopCredentialHash env credential) (storeSide (cl_Side c)) (cl_SessionID c)
    (cl_KeyEpoch c) now db = Inr (d, db')"
  using assms by (auto simp: ConsumeDesktopRelayCredential_def split: if_splits sum.splits)

lemma joined_steps:
  assumes "handleDesktopDataWebSocket env side sid credential agentID w = (WsJoined a paired, w')"
  obtains r c r1 db e r2 where "wsRelay w = Some r"
    "PrepareDesktopRelay (wideRune (wsService env)) side sid credential agentID (wsNow env) (wsDb w) = Inr c"
    "Reserve (wideRune (wsService env)) c (wsReserveNow env) r = (Inr (), r1)"
    "ConsumeDesktopRelayCredential (wsService env) c credential (wsNow env) (wsDb w) = Inr db"
    "wsAccepted env = Some e" "Join (wideRune (wsService env)) c (Some e) (wsJoinNow env) r1 = (Inr (a, paired), r2)"
    "wsDb w' = db" "wsRelay w' = Some r2"
  using assms unfolding handleDesktopDataWebSocket_def joinEndpoint_def Let_def
  by (auto split: option.splits if_splits sum.splits prod.splits)

text \<open>C1: a data connection joins the relay only with a credential that was still unused: the session is
  live and unexpired, an agent presents its own id, the credential's hash is stored for this side and
  the current epoch of the session, and the endpoint is attached to this side of the relay session with the same home,
  agent and epoch. Afterwards the same credential joins no connection any more, of either side and
  whatever session it is presented for.\<close>

theorem websocket_join_authorised:
  assumes inv: "trust_inv (wsDb w)" and relay: "\<And>r. wsRelay w = Some r \<Longrightarrow> relay_inv r"
    and run: "handleDesktopDataWebSocket env side sid credential agentID w = (WsJoined a paired, w')"
  shows "\<exists>s r'. findSession (wsDb w) sid = Some s \<and> live s \<and> wsNow env < s_HardExpiresAt s
    \<and> (side = RelayAgent \<longrightarrow> s_AgentID s = agentID)
    \<and> (\<exists>c \<in> set (credentials (wsDb w)). consumable (desktopCredentialHash (wsService env) credential) (storeSide side) sid
          (s_KeyEpoch s) (wsNow env) c)
    \<and> wsRelay w' = Some r' \<and> mget (sessionsMap r') sid = Some a \<and> cl_KeyEpoch (claim (objs r' ! a)) = s_KeyEpoch s
    \<and> cl_HomeID (claim (objs r' ! a)) = s_HomeID s \<and> cl_AgentID (claim (objs r' ! a)) = s_AgentID s
    \<and> (if side = RelayBrowser then browser (objs r' ! a) else agent (objs r' ! a)) = wsAccepted env
    \<and> (\<forall>env' side' sid' agentID' w'' a' p'. wsService env' = wsService env \<and> wsDb w'' = wsDb w' \<longrightarrow>
          fst (handleDesktopDataWebSocket env' side' sid' credential agentID' w'') \<noteq> WsJoined a' p')"
proof (rule joined_steps [OF run])
  fix r c r1 db e r2
  let ?hash = "desktopCredentialHash (wsService env) credential"
  assume r: "wsRelay w = Some r" and prep: "PrepareDesktopRelay (wideRune (wsService env)) side sid credential agentID (wsNow env) (wsDb w) = Inr c"
    and res: "Reserve (wideRune (wsService env)) c (wsReserveNow env) r = (Inr (), r1)"
    and con: "ConsumeDesktopRelayCredential (wsService env) c credential (wsNow env) (wsDb w) = Inr db"
    and e: "wsAccepted env = Some e" and join: "Join (wideRune (wsService env)) c (Some e) (wsJoinNow env) r1 = (Inr (a, paired), r2)"
    and w': "wsDb w' = db" "wsRelay w' = Some r2"
  obtain s where s: "findSession (wsDb w) sid = Some s" "wsNow env < s_HardExpiresAt s" "desktopRelayJoinableState side (s_State s)"
      "side = RelayAgent \<Longrightarrow> s_AgentID s = agentID"
    and c: "cl_SessionID c = sid" "cl_Side c = side" "cl_KeyEpoch c = s_KeyEpoch s" "cl_HomeID c = s_HomeID s" "cl_AgentID c = s_AgentID s"
    by (rule prepare_claim [OF prep]) blast
  obtain d where d: "ConsumeDesktopJoinCredential ?hash (storeSide side) sid (s_KeyEpoch s) (wsNow env) (wsDb w) = Inr (d, db)"
    using consume_relay_steps [OF con] c by metis
  have fresh: "\<exists>k \<in> set (credentials (wsDb w)). consumable ?hash (storeSide side) sid (s_KeyEpoch s) (wsNow env) k"
    using consume_steps [OF d] by metis
  have spent: "\<exists>err. ConsumeDesktopJoinCredential ?hash side' sid' epoch' t db = Inl err" for side' sid' epoch' t
    by (rule no_consumable_Inl) (use consume_spends [OF trust_inv_store [OF inv] d] in \<open>auto simp: consumable_def\<close>)
  have once: "fst (handleDesktopDataWebSocket env' side' sid' credential agentID' w'') \<noteq> WsJoined a' p'"
    if same: "wsService env' = wsService env" "wsDb w'' = wsDb w'" for env' side' sid' agentID' w'' a' p'
  proof
    assume "fst (handleDesktopDataWebSocket env' side' sid' credential agentID' w'') = WsJoined a' p'"
    then obtain w3 where "handleDesktopDataWebSocket env' side' sid' credential agentID' w'' = (WsJoined a' p', w3)"
      by (metis prod.collapse)
    then obtain c' db3 where "ConsumeDesktopRelayCredential (wsService env) c' credential (wsNow env') db = Inr db3"
      using joined_steps same w'(1) by metis
    then show False using consume_relay_steps spent by (metis Inl_Inr_False)
  qed
  have "relay_inv r1" using Reserve_inv [OF relay [OF r], of "wideRune (wsService env)" c "wsReserveNow env"] res by simp
  then have "mget (sessionsMap r2) sid = Some a" "cl_KeyEpoch (claim (objs r2 ! a)) = s_KeyEpoch s"
      "cl_HomeID (claim (objs r2 ! a)) = s_HomeID s" "cl_AgentID (claim (objs r2 ! a)) = s_AgentID s"
      "(if side = RelayBrowser then browser (objs r2 ! a) else agent (objs r2 ! a)) = Some e"
    using join_out [OF _ join] c by (fastforce simp: nth_list_update)+
  then show ?thesis using s joinable_live fresh w'(2) e once by auto
qed

section \<open>What the relay's events change\<close>

lemma findSession_map:
  assumes "sessions db' = map f (sessions db)" "\<And>s. s_ID (f s) = s_ID s"
  shows "findSession db' sid = map_option f (findSession db sid)"
proof -
  have "find (\<lambda>s. s_ID s = sid) (map f xs) = map_option f (find (\<lambda>s. s_ID s = sid) xs)" for xs
    by (induction xs) (simp_all add: assms(2))
  then show ?thesis by (simp add: findSession_def assms(1))
qed

lemma add_bytes_rows:
  assumes inv: "trust_inv db" and sid: "findSession db sid = Some s"
  shows "trust_inv (orKeep db (AddDesktopRelayBytes k n m db))
    \<and> (\<exists>s1. findSession (orKeep db (AddDesktopRelayBytes k n m db)) sid = Some s1 \<and> s_ID s1 = s_ID s \<and> s_State s1 = s_State s
         \<and> s_KeyEpoch s1 = s_KeyEpoch s \<and> s_ReconnectExpiresAt s1 = s_ReconnectExpiresAt s
         \<and> s_HardExpiresAt s1 = s_HardExpiresAt s \<and> s_RequestedAt s1 = s_RequestedAt s)"
proof (cases "AddDesktopRelayBytes k n m db")
  case (Inl e)
  then show ?thesis using inv sid by (simp add: orKeep_def)
next
  case (Inr db')
  have "trust_inv db'"
    by (rule session_op_trust_inv [OF inv AddDesktopRelayBytes_inv [OF trust_inv_store [OF inv] Inr] small_frames(1) [OF Inr]])
  moreover have rows: "sessions db' = map (\<lambda>r. if s_ID r = k then r\<lparr>s_BrowserToAgentBytes := s_BrowserToAgentBytes r + n,
      s_AgentToBrowserBytes := s_AgentToBrowserBytes r + m\<rparr> else r) (sessions db)"
    using Inr unfolding AddDesktopRelayBytes_def by (auto simp: result_simps updateSessions_Inr_iff split: if_splits)
  ultimately show ?thesis using sid findSession_map [OF rows, of sid] Inr by (simp add: orKeep_def)
qed

lemma append_rows:
  assumes inv: "trust_inv db"
  shows "trust_inv (orKeep db (AppendDesktopSessionEvent json e db))
    \<and> findSession (orKeep db (AppendDesktopSessionEvent json e db)) sid = findSession db sid"
proof (cases "AppendDesktopSessionEvent json e db")
  case (Inl err)
  then show ?thesis using inv by (simp add: orKeep_def)
next
  case (Inr db')
  have "trust_inv db'"
    by (rule session_op_trust_inv [OF inv AppendDesktopSessionEvent_inv [OF trust_inv_store [OF inv] Inr] small_frames(2) [OF Inr]])
  moreover have "sessions db' = sessions db"
    using Inr unfolding AppendDesktopSessionEvent_def by (auto simp: result_simps dest: appendEvent_frame(1))
  ultimately show ?thesis using Inr by (simp add: orKeep_def findSession_def)
qed

definition reconnectDeadline :: "time \<Rightarrow> DesktopSession \<Rightarrow> time" where
  "reconnectDeadline now s = min (now + desktopReconnectTTL) (s_HardExpiresAt s)"

lemma lost_rows:
  assumes inv: "trust_inv db" and run: "MarkDesktopTransportLost json k epoch until e db = Inr (out, db')"
  shows "trust_inv db' \<and> findSession db' sid
    = map_option (\<lambda>r. if s_ID r = k then r\<lparr>s_State := Reconnecting, s_ReconnectExpiresAt := Some until\<rparr> else r) (findSession db sid)"
proof -
  have "trust_inv db'"
    by (rule session_op_trust_inv [OF inv MarkDesktopTransportLost_inv [OF trust_inv_store [OF inv] run] transport_lost_frame [OF run]])
  moreover obtain db1 where "updateSessions (\<lambda>r. s_ID r = k) (\<lambda>r. r\<lparr>s_State := Reconnecting, s_ReconnectExpiresAt := Some until\<rparr>) db = Inr db1"
      "appendDesktopSessionEvent e db1 = Inr db'"
    using run unfolding MarkDesktopTransportLost_def by (auto simp: result_simps)
  then have "sessions db' = map (\<lambda>r. if s_ID r = k then r\<lparr>s_State := Reconnecting, s_ReconnectExpiresAt := Some until\<rparr> else r) (sessions db)"
    by (simp add: updateSessions_Inr_iff appendEvent_frame(1))
  ultimately show ?thesis using findSession_map by auto
qed

text \<open>The loss of the transport of an active session is recorded whenever it lies between the request and the hard deadline.\<close>

lemma lost_succeeds:
  assumes inv: "trust_inv db" and s: "findSession db sid = Some s" "s_State s = Active" "\<not> blank sid"
    and now: "now \<noteq> 0" "s_RequestedAt s \<le> now" "now < until" "until \<le> s_HardExpiresAt s" "until \<noteq> 0"
    and e: "validateDesktopEvent json e sid = Inr ()" "e_OccurredAt e = now" "e_EventType e = ''relay.transport_lost''"
  shows "\<exists>out db'. MarkDesktopTransportLost json sid (s_KeyEpoch s) until e db = Inr (out, db')"
proof -
  let ?f = "\<lambda>r. r\<lparr>s_State := Reconnecting, s_ReconnectExpiresAt := Some until\<rparr>"
  have "sessions_ok (sessions db)" using inv unfolding trust_inv_def store_inv_def by blast
  then have chk: "session_checks s" by (rule sessions_okD(2)) (use findSession_Some [OF s(1)] in blast)
  then have chk': "session_checks (?f s)" and epoch: "s_KeyEpoch s \<noteq> 0"
    using s(2) now by (auto simp: session_checks_def isTerminalDesktopState_def knownDesktopSessionState_def)
  have rows: "\<forall>r \<in> set (sessions db). s_ID r = sid \<longrightarrow> session_checks (?f r)"
    using row_unique [OF trust_inv_store [OF inv] s(1)] chk' by blast
  obtain db1 where upd: "updateSessions (\<lambda>r. s_ID r = sid) ?f db = Inr db1"
    using rows by (auto simp: updateSessions_Inr_iff)
  then have found: "findSession db1 sid = Some (?f s)"
    using findSession_map [of db1 "\<lambda>r. if s_ID r = sid then ?f r else r" db sid] s(1) findSession_Some [OF s(1)]
    by (simp add: updateSessions_Inr_iff)
  have "e_SessionID e = sid" "e_ActorType e \<in> set actorTypes" "e_Severity e \<in> set severities"
    using e(1) by (auto simp: validateDesktopEvent_def split: if_splits)
  moreover have "0 < nextSequence db1 sid" by (rule nextSequence_pos)
  ultimately obtain db' where app: "appendDesktopSessionEvent e db1 = Inr db'"
    using found e(3) by (auto simp: appendDesktopSessionEvent_def event_checks_def Let_def)
  have "findSession db' sid = Some (?f s)"
    using found appendEvent_frame(1) [OF app] by (simp add: findSession_def)
  then show ?thesis
    using s now e epoch upd app
    by (simp add: MarkDesktopTransportLost_def isZero_def bindR_def getDesktopSessionForUpdate_def GetDesktopSession_def)
qed

definition isLoss :: "desktopRelayLifecycleEvent \<Rightarrow> DesktopSession \<Rightarrow> bool" where
  "isLoss event s \<longleftrightarrow> ev_SessionID event = s_ID s \<and> ev_Kind event = ''closed'' \<and> ev_Reason event = ''transport_closed''
     \<and> s_State s = Active \<and> s_KeyEpoch s = ev_KeyEpoch event"

abbreviation "lossAudit now event \<equiv>
  (relayAudit now event)\<lparr>e_EventType := ''relay.transport_lost'', e_Severity := ''warning''\<rparr>"

text \<open>The two ways a relay event ends: it is logged, or it marks the loss of the transport.\<close>

lemma record_cases:
  assumes "ev_SessionID event \<noteq> []"
  shows "recordRelayEvent json now event db =
    (case findSession (bytesAdded event db) (ev_SessionID event) of
       Some s \<Rightarrow>
         if isLoss event s
         then (case MarkDesktopTransportLost json (s_ID s) (ev_KeyEpoch event) (reconnectDeadline now s) (lossAudit now event) (bytesAdded event db) of
                 Inl _ \<Rightarrow> bytesAdded event db | Inr (_, db') \<Rightarrow> db')
         else orKeep (bytesAdded event db) (AppendDesktopSessionEvent json (relayAudit now event) (bytesAdded event db))
     | None \<Rightarrow> orKeep (bytesAdded event db) (AppendDesktopSessionEvent json (relayAudit now event) (bytesAdded event db)))"
proof (cases "findSession (bytesAdded event db) (ev_SessionID event)")
  case None
  then show ?thesis using assms
    by (simp add: recordRelayEvent_def Let_def GetDesktopSession_def del: GetDesktopSession_Inr_iff)
next
  case (Some s)
  then have "s_ID s = ev_SessionID event" using findSession_Some by blast
  then show ?thesis using assms Some
    by (simp add: recordRelayEvent_def Let_def GetDesktopSession_def isLoss_def reconnectDeadline_def min_def
        not_less [symmetric] del: GetDesktopSession_Inr_iff)
qed

lemma bytesAdded_rows:
  assumes "trust_inv db" "findSession db sid = Some s"
  obtains s1 where "trust_inv (bytesAdded event db)" "findSession (bytesAdded event db) sid = Some s1" "s_ID s1 = sid" "s_State s1 = s_State s"
    "s_KeyEpoch s1 = s_KeyEpoch s" "s_ReconnectExpiresAt s1 = s_ReconnectExpiresAt s" "s_RequestedAt s1 = s_RequestedAt s"
    "reconnectDeadline now s1 = reconnectDeadline now s" "isLoss event s1 = isLoss event s" "s_HardExpiresAt s1 = s_HardExpiresAt s"
proof -
  let ?add = "orKeep db (AddDesktopRelayBytes (ev_SessionID event) (ev_BrowserToAgentBytes event) (ev_AgentToBrowserBytes event) db)"
  have sid: "s_ID s = sid" using findSession_Some [OF assms(2)] by blast
  consider "bytesAdded event db = db" | "bytesAdded event db = ?add" unfolding bytesAdded_def by argo
  then obtain s1 where "trust_inv (bytesAdded event db)" "findSession (bytesAdded event db) sid = Some s1" "s_ID s1 = sid"
    "s_State s1 = s_State s" "s_KeyEpoch s1 = s_KeyEpoch s" "s_ReconnectExpiresAt s1 = s_ReconnectExpiresAt s"
    "s_RequestedAt s1 = s_RequestedAt s" "s_HardExpiresAt s1 = s_HardExpiresAt s"
  proof cases
    case 1
    then show ?thesis using assms sid that by simp
  next
    case 2
    then show ?thesis
      using that add_bytes_rows [OF assms, of "ev_SessionID event" "ev_BrowserToAgentBytes event" "ev_AgentToBrowserBytes event"] sid
      by auto
  qed
  then show ?thesis using sid by (intro that [of s1]) (auto simp: reconnectDeadline_def isLoss_def)
qed

lemma loss_audit_valid:
  "json (relayMetadata event) \<Longrightarrow> now \<noteq> 0 \<Longrightarrow> validateDesktopEvent json (lossAudit now event) (ev_SessionID event) = Inr ()"
  by (simp add: validateDesktopEvent_def relayAudit_def actorTypes_def severities_def isZero_def literal_simps)

lemma relay_event_rows:
  assumes inv: "trust_inv db" and s: "findSession db sid = Some s"
  shows "trust_inv (recordRelayEvent json now event db)
    \<and> (\<exists>out. findSession (recordRelayEvent json now event db) sid = Some out \<and> s_KeyEpoch out = s_KeyEpoch s
      \<and> (s_State out = s_State s \<and> s_ReconnectExpiresAt out = s_ReconnectExpiresAt s
          \<or> isLoss event s \<and> s_State out = Reconnecting \<and> s_ReconnectExpiresAt out = Some (min (now + seconds 90) (s_HardExpiresAt s)))
      \<and> (isLoss event s \<and> json (relayMetadata event) \<and> \<not> blank sid \<and> 0 < now \<and> s_RequestedAt s \<le> now \<and> now < s_HardExpiresAt s \<longrightarrow>
           s_State out = Reconnecting \<and> s_ReconnectExpiresAt out = Some (min (now + seconds 90) (s_HardExpiresAt s))))"
proof (cases "ev_SessionID event = []")
  case True
  then have "isLoss event s \<Longrightarrow> blank sid" using findSession_Some [OF s] by (auto simp: isLoss_def blank_def)
  then show ?thesis using True inv s by (auto simp: recordRelayEvent_def)
next
  case False
  let ?db = "bytesAdded event db"
  note cases = record_cases [OF False, of json now db]
  have ttl: "reconnectDeadline now s = min (now + seconds 90) (s_HardExpiresAt s)"
    by (simp add: reconnectDeadline_def desktopReconnectTTL_def)
  obtain s1 where s1: "trust_inv ?db" "findSession ?db sid = Some s1" "s_ID s1 = sid" "s_State s1 = s_State s"
    "s_KeyEpoch s1 = s_KeyEpoch s" "s_ReconnectExpiresAt s1 = s_ReconnectExpiresAt s" "s_RequestedAt s1 = s_RequestedAt s"
    "reconnectDeadline now s1 = reconnectDeadline now s" "isLoss event s1 = isLoss event s" "s_HardExpiresAt s1 = s_HardExpiresAt s"
    by (rule bytesAdded_rows [OF inv s])
  show ?thesis
  proof (cases "\<exists>t out db'. findSession ?db (ev_SessionID event) = Some t \<and> isLoss event t \<and>
      MarkDesktopTransportLost json (s_ID t) (ev_KeyEpoch event) (reconnectDeadline now t) (lossAudit now event) ?db = Inr (out, db')")
    case True
    then obtain t out db' where t: "findSession ?db (ev_SessionID event) = Some t" "isLoss event t"
      and run: "MarkDesktopTransportLost json (s_ID t) (ev_KeyEpoch event) (reconnectDeadline now t) (lossAudit now event) ?db = Inr (out, db')"
      by blast
    have db': "recordRelayEvent json now event db = db'" using cases t run by simp
    have tid: "s_ID t = ev_SessionID event" using findSession_Some [OF t(1)] by blast
    then have "sid = s_ID t \<Longrightarrow> t = s1" using t(1) s1(2) by simp
    moreover have "isLoss event s \<Longrightarrow> sid = s_ID t" using findSession_Some [OF s] tid by (auto simp: isLoss_def)
    ultimately show ?thesis using lost_rows [OF s1(1) run, of sid] s1 t(2) ttl unfolding db' by auto
  next
    case False
    then have keep: "trust_inv (recordRelayEvent json now event db)
        \<and> findSession (recordRelayEvent json now event db) sid = Some s1"
      using append_rows [OF s1(1)] s1(1,2) unfolding cases by (auto split: option.splits sum.splits)
    have "\<not> (isLoss event s \<and> json (relayMetadata event) \<and> \<not> blank sid \<and> 0 < now \<and> s_RequestedAt s \<le> now \<and> now < s_HardExpiresAt s)"
    proof
      assume ok: "isLoss event s \<and> json (relayMetadata event) \<and> \<not> blank sid \<and> 0 < now \<and> s_RequestedAt s \<le> now \<and> now < s_HardExpiresAt s"
      then have ev: "ev_SessionID event = sid" "s_State s = Active" "s_KeyEpoch s = ev_KeyEpoch event"
        using findSession_Some [OF s] by (auto simp: isLoss_def)
      have "\<exists>out db'. MarkDesktopTransportLost json sid (s_KeyEpoch s1) (reconnectDeadline now s1) (lossAudit now event) ?db = Inr (out, db')"
        by (rule lost_succeeds [OF s1(1,2), where now = now])
          (use ok ev s1 loss_audit_valid [of json event now] in \<open>auto simp: ttl relayAudit_def\<close>)
      then show False using False s1 ev ok by auto
    qed
    then show ?thesis using keep s1 by auto
  qed
qed

text \<open>An event of the relay keeps the store's invariant and never moves a stored session to another
  state, epoch or deadline, with one exception: when the transport of an active session is lost in
  its current epoch, the session becomes reconnecting with a deadline 90 seconds later, cut at its
  hard deadline. This is always recorded when the loss lies between the request and the hard deadline (and the
  event's metadata is a JSON object for the store).\<close>

theorem relay_loss_opens_reconnect:
  assumes inv: "trust_inv db" and s: "findSession db sid = Some s"
    and run: "recordDesktopRelayLifecycle json now event db = (metrics, pressure, db')"
  shows "trust_inv db'
    \<and> (\<exists>out. findSession db' sid = Some out \<and> s_KeyEpoch out = s_KeyEpoch s
      \<and> (s_State out = s_State s \<and> s_ReconnectExpiresAt out = s_ReconnectExpiresAt s
          \<or> isLoss event s \<and> s_State out = Reconnecting \<and> s_ReconnectExpiresAt out = Some (min (now + seconds 90) (s_HardExpiresAt s)))
      \<and> (isLoss event s \<and> json (relayMetadata event) \<and> \<not> blank sid \<and> 0 < now \<and> s_RequestedAt s \<le> now \<and> now < s_HardExpiresAt s \<longrightarrow>
           s_State out = Reconnecting \<and> s_ReconnectExpiresAt out = Some (min (now + seconds 90) (s_HardExpiresAt s))))"
  using relay_event_rows [OF inv s, of json now event] run by (auto simp: recordDesktopRelayLifecycle_def)

section \<open>A concrete connection\<close>

definition sampleWsEnv :: ws_env where
  "sampleWsEnv = \<lparr>wsService = sampleEnv\<lparr>sha256 := (\<lambda>_. replicate 32 1)\<rparr>, wsIsGet = True, wsNow = 2000, wsReserveNow = 2001,
     wsJoinNow = 2002, wsAccepted = Some 7\<rparr>"

definition wsSession :: "DesktopSessionState \<Rightarrow> DesktopSession" where
  "wsSession st = (sampleSession st)\<lparr>s_ID := ''session1'', s_HomeID := ''home-001'', s_AgentID := ''agent-01''\<rparr>"

definition sampleWs :: "DesktopSessionState \<Rightarrow> ws_state" where
  "sampleWs st = \<lparr>wsDb = (sampleDb st)\<lparr>sessions := [wsSession st],
       credentials := [(sampleCredential ''c1'' Browser 1 1 1000 (1000 + seconds 30))\<lparr>c_SessionID := ''session1''\<rparr>]\<rparr>,
     wsRelay = Some sampleRelay, joinMetrics = [], cookieCleared = False, wsClosed = []\<rparr>"

lemmas ws_defs = sampleWs_def wsSession_def sampleWsEnv_def sampleEnv_def sample_defs

lemma sampleWs_inv: "st \<in> set liveStates \<Longrightarrow> trust_inv (wsDb (sampleWs st))"
  by (auto simp: trust_inv_def store_inv_def sessions_ok_def creds_current_def has_current_def events_ok_def identities_unique_def
      sampleWs_def wsSession_def sample_defs session_checks_def live_def live_iff isTerminalDesktopState_def knownDesktopSessionState_def)

definition wsClaim :: desktopRelayJoinClaim where
  "wsClaim = \<lparr>cl_SessionID = ''session1'', cl_HomeID = ''home-001'', cl_Side = RelayBrowser, cl_KeyEpoch = 1, cl_AgentID = ''agent-01'',
     cl_HardExpiresAt = 1000 + hours 1, cl_Reconnect = False, cl_ReconnectExpiresAt = 0\<rparr>"

lemma wsClaim_valid: "now < 1000 + hours 1 \<Longrightarrow> validateClaim (\<lambda>_. False) wsClaim now = Inr ()"
  by (simp add: validateClaim_def wsClaim_def validDesktopResourceID_def runes_def runes_of_ascii ascii_alnum_def isZero_def)

lemma sampleWs_prepare:
  "PrepareDesktopRelay (\<lambda>_. False) RelayBrowser ''session1'' ''tok'' [] 2000 (wsDb (sampleWs AgentReady)) = Inr wsClaim"
  by (simp add: PrepareDesktopRelay_def desktopRelayJoinableState_def validDesktopResourceID_def runes_def runes_of_ascii ascii_alnum_def
      wsClaim_def GetDesktopSession_def findSession_def ws_defs literal_simps del: GetDesktopSession_Inr_iff)

lemma sampleWs_consume:
  "\<exists>db. ConsumeDesktopRelayCredential (wsService sampleWsEnv) wsClaim ''tok'' 2000 (wsDb (sampleWs AgentReady)) = Inr db"
proof -
  have "wideRune (wsService sampleWsEnv) = (\<lambda>_. False)" by (simp add: sampleWsEnv_def sampleEnv_def)
  moreover have "\<exists>c db. ConsumeDesktopJoinCredential (desktopCredentialHash (wsService sampleWsEnv) ''tok'') Browser ''session1'' 1 2000
      (wsDb (sampleWs AgentReady)) = Inr (c, db)"
    by (simp add: ConsumeDesktopJoinCredential_def consumable_def desktopCredentialHash_def ws_defs run_simps literal_simps sideName_def)
  moreover have "storeSide (cl_Side wsClaim) = Browser" "cl_SessionID wsClaim = ''session1''" "cl_KeyEpoch wsClaim = 1"
    by (simp_all add: wsClaim_def storeSide_def)
  ultimately show ?thesis using wsClaim_valid [of 2000] by (auto simp: ConsumeDesktopRelayCredential_def literal_simps)
qed

definition wsReserved :: inProcessDesktopRelay where
  "wsReserved = snd (Reserve (\<lambda>_. False) wsClaim 2001 sampleRelay)"

lemma sampleWs_reserve: "Reserve (\<lambda>_. False) wsClaim 2001 sampleRelay = (Inr (), wsReserved)"
  using wsClaim_valid [of 2001]
  by (simp add: wsReserved_def Reserve_def sessionForJoinLocked_def sampleRelay_def countWhere_def mapObjs_def
      defaultDesktopRelayLimits_def newSession_def wsClaim_def Let_def)

lemma sampleWs_join: "\<exists>r. Join (\<lambda>_. False) wsClaim (Some 7) 2002 wsReserved = (Inr (0, False), r)"
  using wsClaim_valid [of 2001] wsClaim_valid [of 2002]
  by (simp add: wsReserved_def Join_def Reserve_def sessionForJoinLocked_def sampleRelay_def countWhere_def mapObjs_def
      defaultDesktopRelayLimits_def newSession_def wsClaim_def Let_def updateObj_def joinRefused_def canStart_def attach_def
      desktopRelayTimestampEqual_def)

lemma sampleWs_joined:
  "\<exists>w'. handleDesktopDataWebSocket sampleWsEnv RelayBrowser ''session1'' ''tok'' [] (sampleWs AgentReady) = (WsJoined 0 False, w')"
proof -
  have env: "wideRune (wsService sampleWsEnv) = (\<lambda>_. False)" "wsIsGet sampleWsEnv" "wsNow sampleWsEnv = 2000"
      "wsReserveNow sampleWsEnv = 2001" "wsJoinNow sampleWsEnv = 2002" "wsAccepted sampleWsEnv = Some 7"
    by (simp_all add: sampleWsEnv_def sampleEnv_def)
  have "wsRelay (sampleWs AgentReady) = Some sampleRelay" by (simp add: sampleWs_def)
  then show ?thesis
    using sampleWs_consume sampleWs_join
    by (auto simp: handleDesktopDataWebSocket_def joinEndpoint_def env sampleWs_prepare sampleWs_reserve Let_def)
qed

theorem websocket_join_authorised_witness:
  "\<exists>w'. handleDesktopDataWebSocket sampleWsEnv RelayBrowser ''session1'' ''tok'' [] (sampleWs AgentReady) = (WsJoined 0 False, w')
     \<and> fst (handleDesktopDataWebSocket sampleWsEnv RelayBrowser ''session1'' ''tok'' [] w') \<noteq> WsJoined 0 False"
proof -
  obtain w' where run: "handleDesktopDataWebSocket sampleWsEnv RelayBrowser ''session1'' ''tok'' [] (sampleWs AgentReady) = (WsJoined 0 False, w')"
    using sampleWs_joined by blast
  have inv: "trust_inv (wsDb (sampleWs AgentReady))" by (rule sampleWs_inv) (simp add: liveStates_def)
  have relay: "wsRelay (sampleWs AgentReady) = Some r \<Longrightarrow> relay_inv r" for r
    using relay.inv_init [OF sampleRelay_init] by (auto simp: sampleWs_def)
  from websocket_join_authorised [OF inv relay run] run show ?thesis by blast
qed

definition lossEvent :: desktopRelayLifecycleEvent where
  "lossEvent = \<lparr>ev_SessionID = ''session1'', ev_KeyEpoch = 1, ev_Kind = ''closed'', ev_Reason = ''transport_closed'',
     ev_BrowserToAgentBytes = 0, ev_AgentToBrowserBytes = 0\<rparr>"

theorem relay_loss_opens_reconnect_witness:
  "\<exists>metrics pressure db' out. recordDesktopRelayLifecycle (\<lambda>_. True) 2000 lossEvent (wsDb (sampleWs Active)) = (metrics, pressure, db')
     \<and> findSession db' ''session1'' = Some out \<and> s_State out = Reconnecting"
proof -
  have inv: "trust_inv (wsDb (sampleWs Active))" by (rule sampleWs_inv) (simp add: liveStates_def)
  have s: "findSession (wsDb (sampleWs Active)) ''session1'' = Some (wsSession Active)"
    by (simp add: findSession_def sampleWs_def wsSession_def)
  have "isLoss lossEvent (wsSession Active) \<and> \<not> blank ''session1'' \<and> (0 :: int) < 2000 \<and> s_RequestedAt (wsSession Active) \<le> 2000
      \<and> 2000 < s_HardExpiresAt (wsSession Active)"
    by (simp add: isLoss_def lossEvent_def wsSession_def sampleSession_def literal_simps)
  moreover obtain metrics pressure db' where
    run: "recordDesktopRelayLifecycle (\<lambda>_. True) 2000 lossEvent (wsDb (sampleWs Active)) = (metrics, pressure, db')"
    by (simp add: recordDesktopRelayLifecycle_def)
  ultimately show ?thesis using relay_loss_opens_reconnect [OF inv s run] run by blast
qed

end
