(* ===== verification/Desktop_Control.thy ===== *)
theory Desktop_Control
  imports Trust_Store Relay
begin

text \<open>
  Events from desktop agents, \<open>internal/cloud/desktop_control.go\<close>: which events are accepted, how their
  metadata is checked, and what they do to the stored session, the relay, the subscribed apps and the
  readiness metrics. Decoding and encoding JSON, base64 and the clock are arguments; broadcasts and
  metric updates are recorded in order.
\<close>

section \<open>Tables\<close>

definition desktopEventTransitions :: "string \<Rightarrow> (DesktopSessionState list \<times> DesktopSessionState) option" where
  "desktopEventTransitions event =
     (if event = EventDesktopSessionReady then Some ([Offered], AgentReady)
      else if event = EventDesktopSessionConnected then Some ([AgentReady, Joining, Reconnecting], Active)
      else if event = EventDesktopSessionDisconnected then Some ([Active], Reconnecting)
      else if event = EventDesktopSessionError
      then Some ([Requested, Offered, AgentReady, Joining, Active, Reconnecting], Failed)
      else if event = EventDesktopSessionTerminated
      then Some ([Requested, Offered, AgentReady, Joining, Active, Reconnecting], Terminated)
      else None)"

definition desktopAgentMetadataKeys :: "string list" where
  "desktopAgentMetadataKeys =
     [''status'', ''reason'', ''code'', ''display_id'', ''display_count'', ''width'', ''height'', ''scale'', ''fps'', ''codec'',
      ''bitrate_kbps'', ''capture_backend'', ''permission'', ''control_available'', ''secure_desktop'', ''browser_connected'',
      ''agent_connected'', ''indicator'', ''data_plane'', ''service'', ''daemon'', ''host'', ''capture'', ''control'', ''identity'',
      ''certificate'', ''platform'', ''state'', ''session'', ''epoch'', ''duration_ms'', ''enabled'', ''direction'', ''success'', ''name'']"

definition desktopSessionTopic :: "string \<Rightarrow> string" where
  "desktopSessionTopic sessionID = ''desktop.session:'' @ trimSpace sessionID"

text \<open>\<open>m[key]\<close> of a map of strings: the empty string for a missing key.\<close>

definition mstr :: "(string, string) gomap \<Rightarrow> string \<Rightarrow> string" where
  "mstr m key = (case mget m key of None \<Rightarrow> [] | Some v \<Rightarrow> v)"

section \<open>Metadata\<close>

definition validDesktopReasonCode :: "string \<Rightarrow> bool" where
  "validDesktopReasonCode value \<longleftrightarrow>
     \<not> (length value = 0 \<or> length value > 128)
     \<and> list_all (\<lambda>c. (97 \<le> c \<and> c \<le> 122) \<or> (48 \<le> c \<and> c \<le> 57) \<or> c = 95 \<or> c = 45 \<or> c = 46) (runes value)"

definition sanitizeDesktopAgentMetadata :: "(string, string) gomap \<Rightarrow> (string, string) gomap result" where
  "sanitizeDesktopAgentMetadata metadata =
     (if length metadata > 32 then Inl (ErrMsg ''too many desktop metadata values'')
      else
        (case find (\<lambda>(key, value). key \<notin> set desktopAgentMetadataKeys \<or> length value > 256) metadata of
           Some (key, _) \<Rightarrow> Inl (ErrMsg (''unsupported desktop metadata key or value: '' @ key))
         | None \<Rightarrow> Inr metadata))"

text \<open>\<open>strconv.ParseUint(s, 10, bits)\<close> succeeds on a non-empty string of digits below \<open>2 ^ bits\<close>.\<close>

definition digit :: "char \<Rightarrow> bool" where "digit c \<longleftrightarrow> 48 \<le> (of_char c :: nat) \<and> (of_char c :: nat) \<le> 57"

definition parseUint :: "nat \<Rightarrow> string \<Rightarrow> nat option" where
  "parseUint bits s =
     (if s = [] \<or> \<not> list_all digit s then None
      else let v = foldl (\<lambda>n c. 10 * n + (of_char c - 48)) 0 s in if v < 2 ^ bits then Some v else None)"

definition validPrivilegedMetadata :: "(string, string) gomap \<Rightarrow> string \<Rightarrow> string \<Rightarrow> bool" where
  "validPrivilegedMetadata metadata family expectedState =
     (if mstr metadata ''platform'' \<noteq> ''windows'' \<and> mstr metadata ''platform'' \<noteq> ''macos'' then False
      else if mstr metadata ''state'' \<noteq> expectedState \<or> blank (mstr metadata ''session'') then False
      else if parseUint 32 (mstr metadata ''epoch'') = None \<or> mstr metadata ''epoch'' = ''0'' then False
      else if mstr metadata ''duration_ms'' \<noteq> [] \<and> parseUint 64 (mstr metadata ''duration_ms'') = None then False
      else if mstr metadata ''reason'' \<noteq> [] \<and> \<not> validDesktopReasonCode (mstr metadata ''reason'') then False
      else if family = ''permission''
      then mstr metadata ''permission'' = ''screen_recording'' \<or> mstr metadata ''permission'' = ''accessibility''
      else mstr metadata ''permission'' = [])"

definition privilegedKeys :: "string list" where
  "privilegedKeys = [''platform'', ''state'', ''reason'', ''session'', ''epoch'', ''duration_ms'']"

definition validateDesktopControlAuditMetadata :: "string \<Rightarrow> (string, string) gomap \<Rightarrow> unit result" where
  "validateDesktopControlAuditMetadata event metadata =
     (let boolean = (\<lambda>key. mstr metadata key = ''true'' \<or> mstr metadata key = ''false'');
          validReason = (mstr metadata ''reason'' = [] \<or> validDesktopReasonCode (mstr metadata ''reason''));
          only = (\<lambda>keys. list_all (\<lambda>kv. fst kv \<in> set keys) metadata);
          privileged = (\<lambda>extra family expected what.
             if \<not> only (extra @ privilegedKeys) \<or> \<not> validPrivilegedMetadata metadata family expected
             then Inl (ErrMsg (''invalid desktop '' @ what @ '' audit metadata'')) else Inr ()) in
      if event = EventDesktopControlChanged
      then (if \<not> only [''enabled'', ''success'', ''reason''] \<or> \<not> boolean ''enabled'' \<or> \<not> boolean ''success'' \<or> \<not> validReason
            then Inl (ErrMsg ''invalid desktop control audit metadata'') else Inr ())
      else if event = EventDesktopDisplayChanged
      then (if \<not> only [''display_id'', ''success'', ''reason''] \<or> blank (mstr metadata ''display_id'') \<or> \<not> boolean ''success'' \<or> \<not> validReason
            then Inl (ErrMsg ''invalid desktop display audit metadata'') else Inr ())
      else if event = EventDesktopClipboard
      then (if \<not> only [''direction'', ''success'', ''reason'']
               \<or> (mstr metadata ''direction'' \<noteq> ''browser_to_agent'' \<and> mstr metadata ''direction'' \<noteq> ''agent_to_browser'')
               \<or> \<not> boolean ''success'' \<or> \<not> validReason
            then Inl (ErrMsg ''invalid desktop clipboard audit metadata'') else Inr ())
      else if event = EventDesktopSpecialKey
      then (if \<not> only [''name'', ''success'', ''reason''] \<or> validateSpecialKey (mstr metadata ''name'') \<noteq> Inr ()
               \<or> \<not> boolean ''success'' \<or> \<not> validReason
            then Inl (ErrMsg ''invalid desktop special-key audit metadata'') else Inr ())
      else if event = EventDesktopSecureDesktopEntered then privileged [] ''secure'' ''entered'' ''secure-desktop''
      else if event = EventDesktopSecureDesktopExited then privileged [] ''secure'' ''exited'' ''secure-desktop''
      else if event = EventDesktopSecureDesktopUnavailable then privileged [] ''secure'' ''unavailable'' ''secure-desktop''
      else if event = EventDesktopPermissionRequired then privileged [''permission''] ''permission'' ''required'' ''permission''
      else if event = EventDesktopPermissionGranted then privileged [''permission''] ''permission'' ''granted'' ''permission''
      else if event = EventDesktopPermissionLost then privileged [''permission''] ''permission'' ''lost'' ''permission''
      else if event = EventDesktopConsoleLocked then privileged [] ''console'' ''locked'' ''console''
      else if event = EventDesktopConsoleSwitched then privileged [] ''console'' ''switched'' ''console''
      else if event = EventDesktopHelperRestarted then privileged [] ''helper'' ''restarted'' ''helper''
      else if event = EventDesktopHelperFailed then privileged [] ''helper'' ''failed'' ''helper''
      else if event = EventDesktopIndicatorLost then privileged [] ''indicator'' ''lost'' ''indicator''
      else if event = EventDesktopIndicatorRestored then privileged [] ''indicator'' ''restored'' ''indicator''
      else Inr ())"

definition isDesktopPrivilegedEvent :: "string \<Rightarrow> bool" where
  "isDesktopPrivilegedEvent event \<longleftrightarrow>
     event \<in> {EventDesktopSecureDesktopEntered, EventDesktopSecureDesktopExited, EventDesktopSecureDesktopUnavailable,
       EventDesktopPermissionRequired, EventDesktopPermissionGranted, EventDesktopPermissionLost,
       EventDesktopConsoleLocked, EventDesktopConsoleSwitched, EventDesktopHelperRestarted,
       EventDesktopHelperFailed, EventDesktopIndicatorLost, EventDesktopIndicatorRestored}"

definition isIdempotentLateDesktopTerminalEvent :: "DesktopSessionState \<Rightarrow> string \<Rightarrow> bool" where
  "isIdempotentLateDesktopTerminalEvent st event \<longleftrightarrow>
     (event = EventDesktopSessionTerminated \<or> event = EventDesktopSessionError)
     \<and> st \<in> {Denied, Failed, Expired, Terminated}"

definition desktopTerminalRelayReason :: "string \<Rightarrow> string \<Rightarrow> string" where
  "desktopTerminalRelayReason event reason =
     (if validDesktopReasonCode reason \<and> reason \<noteq> [] then reason
      else if event = EventDesktopSessionError then ''agent_error'' else ''agent_ended'')"

definition validateDesktopAgentScope :: "DesktopSession \<Rightarrow> string \<Rightarrow> string \<Rightarrow> string \<Rightarrow> 32 word \<Rightarrow> time \<Rightarrow> unit result" where
  "validateDesktopAgentScope s homeID agentID sessionID epoch now =
     (if s_ID s \<noteq> sessionID \<or> s_HomeID s \<noteq> homeID \<or> s_AgentID s \<noteq> agentID \<or> s_KeyEpoch s \<noteq> epoch \<or> \<not> s_HardExpiresAt s > now
      then Inl (ErrMsg ''desktop event scope mismatch'') else Inr ())"

section \<open>Readiness metrics\<close>

definition readyValue :: "string \<Rightarrow> bool" where
  "readyValue v \<longleftrightarrow> v \<in> {''ready'', ''true'', ''available'', ''visible'', ''granted'', ''restarted'', ''restored''}"

text \<open>The calls to \<open>metrics.SetDesktopReadiness\<close>: platform, check and value, in order.\<close>

definition recordDesktopReadinessMetrics :: "string \<Rightarrow> (string, string) gomap \<Rightarrow> (string \<times> string \<times> bool) list" where
  "recordDesktopReadinessMetrics event metadata =
     (let platform = mstr metadata ''platform''; capture = (mstr metadata ''permission'' = ''screen_recording'') in
      if platform \<noteq> ''windows'' \<and> platform \<noteq> ''macos'' then []
      else if event = EventDesktopSessionReady
      then concat (map (\<lambda>check. case mget metadata check of None \<Rightarrow> [] | Some v \<Rightarrow> [(platform, check, readyValue v)])
             [''service'', ''daemon'', ''host'', ''indicator'', ''capture'', ''control'', ''identity'', ''certificate''])
         @ (let v = mstr metadata ''capture_backend'' in if v \<noteq> [] then [(platform, ''capture'', v \<noteq> ''unavailable'')] else [])
         @ (let v = mstr metadata ''control_available'' in if v \<noteq> [] then [(platform, ''control'', v = ''true'')] else [])
         @ (let v = mstr metadata ''data_plane'' in if v \<noteq> [] then [(platform, ''host'', readyValue v)] else [])
         @ [(platform, ''identity'', True), (platform, ''certificate'', True)]
      else if event = EventDesktopPermissionRequired \<or> event = EventDesktopPermissionLost
      then [(platform, if capture then ''capture'' else ''control'', False)]
      else if event = EventDesktopPermissionGranted then [(platform, if capture then ''capture'' else ''control'', True)]
      else if event = EventDesktopIndicatorLost then [(platform, ''indicator'', False)]
      else if event = EventDesktopIndicatorRestored then [(platform, ''indicator'', True)]
      else if event = EventDesktopHelperFailed then [(platform, ''host'', False)]
      else if event = EventDesktopHelperRestarted then [(platform, ''host'', True)]
      else if event = EventDesktopSecureDesktopUnavailable then [(platform, ''capture'', False)]
      else [])"

section \<open>Handling an event\<close>

text \<open>\<open>base64.RawURLEncoding.EncodeToString\<close>: groups of three bytes, no padding.\<close>

definition base64URLAlphabet :: string where
  "base64URLAlphabet = ''ABCDEFGHIJKLMNOPQRSTUVWXYZabcdefghijklmnopqrstuvwxyz0123456789-_''"

definition sextets :: "nat \<Rightarrow> nat \<Rightarrow> string" where
  "sextets k n = map (\<lambda>i. base64URLAlphabet ! (n div 64 ^ i mod 64)) (rev [4 - k..<4])"

fun encodeDesktopCertificate :: "bytes \<Rightarrow> string" where
  "encodeDesktopCertificate [] = []"
| "encodeDesktopCertificate [a] = sextets 2 (unat a * 65536)"
| "encodeDesktopCertificate [a, b] = sextets 3 (unat a * 65536 + unat b * 256)"
| "encodeDesktopCertificate (a # b # c # rest) =
     sextets 4 (unat a * 65536 + unat b * 256 + unat c) @ encodeDesktopCertificate rest"

text \<open>
  What the handler takes from its surroundings: \<open>json.Unmarshal\<close> into the two event types, \<open>json.Marshal\<close>
  of the metadata, the store's test for a JSON object, and the readings of the clock in program order.
\<close>

record control_env =
  decodeReady :: "string \<Rightarrow> DesktopSessionReady option"
  decodeLifecycle :: "string \<Rightarrow> DesktopSessionLifecycleEvent option"
  marshalMetadata :: "(string, string) gomap \<Rightarrow> string"
  isJSONObject :: "string \<Rightarrow> bool"
  readyScopeNow :: time
  endpointNow :: time
  scopeNow :: time
  occurredNow :: time

record control_state =
  ctlDb :: desktop_db
  ctlRelay :: "inProcessDesktopRelay option"
  broadcasts :: "(string \<times> string \<times> DesktopSessionLifecycleEvent) list"
  readiness :: "(string \<times> string \<times> bool) list"

text \<open>The event's session, epoch, reason and metadata, with the checks that belong to its format.\<close>

definition readAgentEvent ::
    "control_env \<Rightarrow> string \<Rightarrow> string \<Rightarrow> string \<Rightarrow> string \<Rightarrow> desktop_db \<Rightarrow>
     (string \<times> 32 word \<times> string \<times> (string, string) gomap) result" where
  "readAgentEvent env homeID agentID event body db =
     (if event = EventDesktopSessionReady
      then
        (case decodeReady env body of
           None \<Rightarrow> Inl (ErrMsg ''invalid desktop ready event'')
         | Some ready \<Rightarrow>
             if validateReady ready \<noteq> Inr () then Inl (ErrMsg ''invalid desktop ready event'')
             else
               bindR (GetDesktopSession (rd_SessionID ready) db) (\<lambda>s.
               bindR (validateDesktopAgentScope s homeID agentID (rd_SessionID ready) (rd_KeyEpoch ready) (readyScopeNow env)) (\<lambda>_.
               case GetActiveDesktopEndpointIdentity homeID agentID (endpointNow env) db of
                 Inl _ \<Rightarrow> Inl (ErrMsg ''desktop ready endpoint certificate mismatch'')
               | Inr endpoint \<Rightarrow>
                   if rd_EndpointCertificateFingerprint ready \<noteq> id_Fingerprint endpoint
                      \<or> rd_EndpointCertificate ready \<noteq> encodeDesktopCertificate (id_Certificate endpoint)
                   then Inl (ErrMsg ''desktop ready endpoint certificate mismatch'')
                   else Inr (rd_SessionID ready, rd_KeyEpoch ready, [], rd_Readiness ready))))
      else
        (case decodeLifecycle env body of
           None \<Rightarrow> Inl (ErrMsg ''invalid desktop lifecycle event'')
         | Some ev \<Rightarrow>
             if validateLifecycleEvent ev \<noteq> Inr () then Inl (ErrMsg ''invalid desktop lifecycle event'')
             else
               let reason = trimSpace (le_ReasonCode ev) in
               if reason \<noteq> [] \<and> \<not> validDesktopReasonCode reason
               then Inl (ErrMsg ''invalid desktop lifecycle reason code'')
               else Inr (le_SessionID ev, le_KeyEpoch ev, reason, le_Metadata ev)))"

definition revokeRelay :: "string \<Rightarrow> string \<Rightarrow> control_state \<Rightarrow> control_state" where
  "revokeRelay sessionID reason w = w\<lparr>ctlRelay := map_option (Revoke sessionID reason) (ctlRelay w)\<rparr>"

text \<open>The defaults of reason and severity for an event that fails or ends the session.\<close>

definition defaultReason :: "DesktopSessionState \<Rightarrow> string \<Rightarrow> DesktopSessionEvent \<Rightarrow> string \<times> DesktopSessionEvent" where
  "defaultReason to reason e =
     (let (reason1, e1) =
            (if to = Failed \<and> reason = []
             then (''agent_error'', e\<lparr>e_ReasonCode := ''agent_error'', e_Severity := ''error''\<rparr>) else (reason, e))
      in if to = Terminated \<and> reason1 = [] then (''agent_terminated'', e1\<lparr>e_ReasonCode := ''agent_terminated''\<rparr>)
         else (reason1, e1))"

text \<open>The effect of the event on the stored session and the relay, with the event as it was stored.\<close>

definition storeAgentEvent ::
    "control_env \<Rightarrow> string \<Rightarrow> string \<Rightarrow> string \<Rightarrow> DesktopSessionEvent \<Rightarrow> control_state \<Rightarrow>
     (DesktopSessionEvent \<times> control_state) result" where
  "storeAgentEvent env event sessionID reason0 e0 w =
     (case desktopEventTransitions event of
        Some (from, to) \<Rightarrow>
          let (reason, e) = defaultReason to reason0 e0 in
          bindR (TransitionDesktopSession (isJSONObject env) sessionID from to reason (e_OccurredAt e) e (ctlDb w)) (\<lambda>(_, db).
          let w1 = w\<lparr>ctlDb := db\<rparr> in
          Inr (e, if to = Failed \<or> to = Terminated
                  then revokeRelay sessionID (desktopTerminalRelayReason event reason) w1 else w1))
      | None \<Rightarrow>
          bindR (AppendDesktopSessionEvent (isJSONObject env) e0 (ctlDb w)) (\<lambda>db. Inr (e0, w\<lparr>ctlDb := db\<rparr>)))"

text \<open>
  The handler from the construction of the event on. The session is the row the scope check has just
  accepted, so its id and epoch are those of the event.
\<close>

definition applyAgentEvent ::
    "control_env \<Rightarrow> string \<Rightarrow> string \<Rightarrow> DesktopSession \<Rightarrow> string \<Rightarrow> (string, string) gomap \<Rightarrow> control_state \<Rightarrow> control_state result" where
  "applyAgentEvent env agentID event session reason sanitized w =
     (let sessionID = s_ID session;
          e = \<lparr>e_SessionID = sessionID, e_Sequence = 0, e_EventType = event, e_ActorType = ''agent'', e_ActorID = agentID,
               e_OccurredAt = occurredNow env, e_Severity = ''info'', e_ReasonCode = reason,
               e_MetadataJSON = marshalMetadata env sanitized\<rparr> in
      if isIdempotentLateDesktopTerminalEvent (s_State session) event
      then Inr (revokeRelay sessionID (desktopTerminalRelayReason event reason) w)
      else
        bindR (storeAgentEvent env event sessionID reason e w) (\<lambda>(stored, w1).
        let public = \<lparr>le_Protocol = DesktopProtocolVersion, le_SessionID = sessionID, le_KeyEpoch = s_KeyEpoch session,
                      le_ReasonCode = e_ReasonCode stored, le_Metadata = sanitized\<rparr> in
        Inr (w1\<lparr>broadcasts := broadcasts w1 @ [(desktopSessionTopic sessionID, event, public)],
                readiness := readiness w1 @ recordDesktopReadinessMetrics event sanitized\<rparr>)))"

definition handleDesktopAgentEvent ::
    "control_env \<Rightarrow> string \<Rightarrow> string \<Rightarrow> string \<Rightarrow> string \<Rightarrow> control_state \<Rightarrow> control_state result" where
  "handleDesktopAgentEvent env homeID agentID event body w =
     (if \<not> IsDesktopEvent event then Inl (ErrMsg ''unsupported desktop agent event'')
      else
        bindR (readAgentEvent env homeID agentID event body (ctlDb w)) (\<lambda>(sessionID, epoch, reason, metadata).
        bindR (sanitizeDesktopAgentMetadata metadata) (\<lambda>sanitized.
        bindR (validateDesktopControlAuditMetadata event sanitized) (\<lambda>_.
        if isDesktopPrivilegedEvent event
           \<and> (mstr sanitized ''session'' \<noteq> sessionID \<or> mstr sanitized ''epoch'' \<noteq> show_nat (unat epoch))
        then Inl (ErrMsg ''desktop privileged audit scope mismatch'')
        else
          bindR (GetDesktopSession sessionID (ctlDb w)) (\<lambda>session.
          bindR (validateDesktopAgentScope session homeID agentID sessionID epoch (scopeNow env)) (\<lambda>_.
          applyAgentEvent env agentID event session reason sanitized w))))))"

section \<open>What an accepted event does\<close>

lemma event_transition_cases:
  "desktopEventTransitions event = Some (froms, to) \<Longrightarrow>
     (event \<in> {EventDesktopSessionError, EventDesktopSessionTerminated}) = (to = Failed \<or> to = Terminated)
     \<and> (isTerminalDesktopState to \<longrightarrow> to = Failed \<or> to = Terminated)"
  unfolding desktopEventTransitions_def
  by (auto simp: event_defs isTerminalDesktopState_def split: if_splits)

lemma terminal_event_transition:
  "event \<in> {EventDesktopSessionError, EventDesktopSessionTerminated} \<Longrightarrow> desktopEventTransitions event \<noteq> None"
  by (auto simp: desktopEventTransitions_def event_defs)

lemma closed_when_not_live:
  assumes inv: "db_inv db" and out: "out \<in> set (sessions db)" "\<not> live out"
    and c: "c \<in> set (credentials db)" "c_SessionID c = s_ID out"
  shows "\<not> open_cred c"
proof
  assume "open_cred c"
  then have "has_current (sessions db) c"
    using inv c(1) unfolding store_inv_def creds_current_def by blast
  then obtain s where s: "s \<in> set (sessions db)" "s_ID s = s_ID out" "live s" using c(2) by (auto simp: has_current_def)
  have "distinct (map s_ID (sessions db))" using inv unfolding store_inv_def by (blast intro: sessions_okD(1))
  then have "s = out" using s(1,2) out(1) by (auto simp: distinct_map dest: inj_onD)
  with s(3) out(2) show False by simp
qed

lemma scope_Inr_iff [simp]:
  "validateDesktopAgentScope s homeID agentID sid epoch now = Inr u \<longleftrightarrow>
     s_ID s = sid \<and> s_HomeID s = homeID \<and> s_AgentID s = agentID \<and> s_KeyEpoch s = epoch \<and> now < s_HardExpiresAt s"
  by (auto simp: validateDesktopAgentScope_def)

lemma store_event_out:
  assumes inv: "trust_inv (ctlDb w)" and s: "findSession (ctlDb w) (s_ID s) = Some s"
    and run: "storeAgentEvent env event (s_ID s) reason e w = Inr (e', w1)"
  obtains out where "trust_inv (ctlDb w1)" "broadcasts w1 = broadcasts w"
    "sessions (ctlDb w1) = map (\<lambda>r. if s_ID r = s_ID s then out else r) (sessions (ctlDb w))" "s_ID out = s_ID s"
    "s_State out = s_State s \<or> CanTransitionDesktopSession (s_State s) (s_State out)"
    "event \<in> {EventDesktopSessionError, EventDesktopSessionTerminated} \<Longrightarrow>
       \<not> live out \<and> (\<exists>why. ctlRelay w1 = map_option (Revoke (s_ID s) why) (ctlRelay w))"
proof (cases "desktopEventTransitions event")
  case None
  then obtain db where app: "AppendDesktopSessionEvent (isJSONObject env) e (ctlDb w) = Inr db" and w1: "w1 = w\<lparr>ctlDb := db\<rparr>"
    using run by (auto simp: storeAgentEvent_def bindR_Inr_iff)
  have "trust_inv db" by (rule session_op_trust_inv [OF inv AppendDesktopSessionEvent_inv [OF trust_inv_store [OF inv] app] small_frames(2) [OF app]])
  moreover have "sessions db = sessions (ctlDb w)"
    using app unfolding AppendDesktopSessionEvent_def by (auto simp: bindR_Inr_iff dest: appendEvent_frame(1))
  moreover have "map (\<lambda>r. if s_ID r = s_ID s then s else r) (sessions (ctlDb w)) = sessions (ctlDb w)"
    by (rule map_idI) (use row_unique [OF trust_inv_store [OF inv] s] in auto)
  moreover have "event \<notin> {EventDesktopSessionError, EventDesktopSessionTerminated}"
    using None terminal_event_transition by blast
  ultimately show ?thesis by (intro that [of s]) (simp_all add: w1)
next
  case (Some ft)
  obtain froms to where ft: "ft = (froms, to)" by (cases ft)
  obtain why e1 where d: "defaultReason to reason e = (why, e1)" by (cases "defaultReason to reason e")
  from run Some ft d obtain out db where
    tr: "TransitionDesktopSession (isJSONObject env) (s_ID s) froms to why (e_OccurredAt e1) e1 (ctlDb w) = Inr (out, db)"
    and w1: "w1 = (if to = Failed \<or> to = Terminated
       then revokeRelay (s_ID s) (desktopTerminalRelayReason event why) (w\<lparr>ctlDb := db\<rparr>) else w\<lparr>ctlDb := db\<rparr>)"
    by (auto simp: storeAgentEvent_def bindR_Inr_iff Let_def)
  have db: "ctlDb w1 = db" "broadcasts w1 = broadcasts w" by (simp_all add: w1 revokeRelay_def)
  have "trust_inv db"
    by (rule session_op_trust_inv [OF inv TransitionDesktopSession_inv [OF trust_inv_store [OF inv] tr] transition_frame [OF tr]])
  moreover have "CanTransitionDesktopSession (s_State s) to" using transition_steps [OF tr] s by fastforce
  moreover have o: "out = transitioned s to why (e_OccurredAt e1) s"
      "sessions db = map (\<lambda>r. if s_ID r = s_ID s then transitioned s to why (e_OccurredAt e1) r else r) (sessions (ctlDb w))"
    using transition_out [OF trust_inv_store [OF inv] tr] s by fastforce+
  moreover have "sessions db = map (\<lambda>r. if s_ID r = s_ID s then out else r) (sessions (ctlDb w))"
    unfolding o(2) by (rule map_cong) (use row_unique [OF trust_inv_store [OF inv] s] o(1) in auto)
  moreover have "\<not> live out \<and> (\<exists>why. ctlRelay w1 = map_option (Revoke (s_ID s) why) (ctlRelay w))"
    if "event \<in> {EventDesktopSessionError, EventDesktopSessionTerminated}"
    using event_transition_cases [of event froms to] Some ft that o(1)
    by (auto simp: w1 revokeRelay_def live_def liveStates_def)
  ultimately show ?thesis by (intro that [of out]) (simp_all add: db)
qed

lemma handle_steps:
  assumes "handleDesktopAgentEvent env homeID agentID event body w = Inr w'"
  obtains s reason metadata where "findSession (ctlDb w) (s_ID s) = Some s" "s_HomeID s = homeID" "s_AgentID s = agentID"
    "scopeNow env < s_HardExpiresAt s" "readAgentEvent env homeID agentID event body (ctlDb w) = Inr (s_ID s, s_KeyEpoch s, reason, metadata)"
    "applyAgentEvent env agentID event s reason metadata w = Inr w'"
proof -
  obtain p sanitized s u where
    s: "readAgentEvent env homeID agentID event body (ctlDb w) = Inr p"
    "sanitizeDesktopAgentMetadata (snd (snd (snd p))) = Inr sanitized" "GetDesktopSession (fst p) (ctlDb w) = Inr s"
    "validateDesktopAgentScope s homeID agentID (fst p) (fst (snd p)) (scopeNow env) = Inr u"
    "applyAgentEvent env agentID event s (fst (snd (snd p))) sanitized w = Inr w'"
    using assms unfolding handleDesktopAgentEvent_def bindR_Inr_iff if_Inl_Inr_iff prod.case_eq_if by blast
  moreover have "sanitized = snd (snd (snd p))"
    using s(2) by (auto simp: sanitizeDesktopAgentMetadata_def split: if_splits option.splits)
  ultimately show ?thesis by (intro that [of s]) (auto simp: prod_eq_iff)
qed

lemma apply_event_out:
  assumes inv: "trust_inv (ctlDb w)" and s: "findSession (ctlDb w) (s_ID s) = Some s"
    and run: "applyAgentEvent env agentID event s reason metadata w = Inr w'"
  obtains out where "trust_inv (ctlDb w')"
    "sessions (ctlDb w') = map (\<lambda>r. if s_ID r = s_ID s then out else r) (sessions (ctlDb w))" "s_ID out = s_ID s"
    "s_State out = s_State s \<or> CanTransitionDesktopSession (s_State s) (s_State out)"
    "event \<in> {EventDesktopSessionError, EventDesktopSessionTerminated} \<Longrightarrow>
       \<not> live out \<and> (\<exists>why. ctlRelay w' = map_option (Revoke (s_ID s) why) (ctlRelay w))"
    "broadcasts w' = broadcasts w \<or>
       (\<exists>ev. broadcasts w' = broadcasts w @ [(desktopSessionTopic (s_ID s), event, ev)] \<and> le_KeyEpoch ev = s_KeyEpoch s)"
proof (cases "isIdempotentLateDesktopTerminalEvent (s_State s) event")
  case True
  then have "w' = revokeRelay (s_ID s) (desktopTerminalRelayReason event reason) w"
    using run by (simp add: applyAgentEvent_def Let_def)
  then have w': "ctlDb w' = ctlDb w" "broadcasts w' = broadcasts w" "\<exists>why. ctlRelay w' = map_option (Revoke (s_ID s) why) (ctlRelay w)"
    by (auto simp: revokeRelay_def)
  have "map (\<lambda>r. if s_ID r = s_ID s then s else r) (sessions (ctlDb w)) = sessions (ctlDb w)"
    by (rule map_idI) (use row_unique [OF trust_inv_store [OF inv] s] in auto)
  moreover have "\<not> live s" using True by (auto simp: isIdempotentLateDesktopTerminalEvent_def live_def liveStates_def)
  ultimately show ?thesis using inv w' by (intro that [of s]) simp_all
next
  case False
  then obtain stored w1 e where st: "storeAgentEvent env event (s_ID s) reason e w = Inr (stored, w1)"
    and w': "ctlDb w' = ctlDb w1" "ctlRelay w' = ctlRelay w1"
      "\<exists>ev. broadcasts w' = broadcasts w1 @ [(desktopSessionTopic (s_ID s), event, ev)] \<and> le_KeyEpoch ev = s_KeyEpoch s"
    using run by (auto simp: applyAgentEvent_def Let_def bindR_Inr_iff)
  show ?thesis
    by (rule store_event_out [OF inv s st]) (rule that, use w' in auto)
qed


text \<open>
  A \<open>desktop.session.disconnected\<close> event moves the session to \<open>reconnecting\<close> without a reconnect deadline: the
  stored deadline is the one the session had before. A session that never reconnected has none, so
  nothing expires it before its hard deadline, and the transport loss the relay reports later, which
  would set the deadline, is refused because the session is no longer active.
\<close>

theorem disconnect_event_sets_no_deadline:
  assumes inv: "trust_inv (ctlDb w)"
    and run: "handleDesktopAgentEvent env homeID agentID EventDesktopSessionDisconnected body w = Inr w'"
  shows "\<exists>s out. findSession (ctlDb w) (s_ID s) = Some s \<and> findSession (ctlDb w') (s_ID s) = Some out
    \<and> s_State out = Reconnecting \<and> s_ReconnectExpiresAt out = s_ReconnectExpiresAt s
    \<and> (s_ReconnectExpiresAt s = None \<longrightarrow> (\<forall>now. now < s_HardExpiresAt out \<longrightarrow> \<not> expirable now out))
    \<and> (\<forall>json epoch until e. \<exists>err. MarkDesktopTransportLost json (s_ID s) epoch until e (ctlDb w') = Inl err)"
proof (rule handle_steps [OF run])
  fix s reason metadata
  assume s: "findSession (ctlDb w) (s_ID s) = Some s"
    and app: "applyAgentEvent env agentID EventDesktopSessionDisconnected s reason metadata w = Inr w'"
  have tr: "desktopEventTransitions EventDesktopSessionDisconnected = Some ([Active], Reconnecting)"
    by (simp add: desktopEventTransitions_def event_defs)
  have "\<not> isIdempotentLateDesktopTerminalEvent (s_State s) EventDesktopSessionDisconnected"
    by (simp add: isIdempotentLateDesktopTerminalEvent_def event_defs)
  then obtain tm e out where
    "TransitionDesktopSession (isJSONObject env) (s_ID s) [Active] Reconnecting reason tm e (ctlDb w) = Inr (out, ctlDb w')"
    using app by (auto simp: applyAgentEvent_def storeAgentEvent_def tr defaultReason_def Let_def bindR_Inr_iff)
  note out = transition_out [OF trust_inv_store [OF inv] this]
  then have o: "findSession (ctlDb w') (s_ID s) = Some out" "out = transitioned s Reconnecting reason tm s"
    using s by fastforce+
  have "\<exists>err. MarkDesktopTransportLost json (s_ID s) epoch until ev (ctlDb w') = Inl err" for json epoch until ev
    using o by (auto simp: MarkDesktopTransportLost_def bindR_def getDesktopSessionForUpdate_def GetDesktopSession_def)
  moreover have "\<not> expirable now out" if "s_ReconnectExpiresAt s = None" "now < s_HardExpiresAt out" for now
    using that o(2) by (auto simp: expirable_def reconnectExpired_def transitioned_def)
  moreover have "s_ReconnectExpiresAt out = s_ReconnectExpiresAt s" "s_State out = Reconnecting"
    by (simp_all add: o(2) transitioned_def)
  ultimately show ?thesis using s o(1) by blast
qed

section \<open>A concrete event\<close>

definition sampleControlEnv :: control_env where
  "sampleControlEnv = \<lparr>decodeReady = (\<lambda>_. None),
     decodeLifecycle = (\<lambda>_. Some \<lparr>le_Protocol = DesktopProtocolVersion, le_SessionID = ''session-1'', le_KeyEpoch = 1,
        le_ReasonCode = [], le_Metadata = [(''status'', ''closing'')]\<rparr>),
     marshalMetadata = (\<lambda>_. ''{}''), isJSONObject = (\<lambda>s. s = ''{}''), readyScopeNow = 2000, endpointNow = 2000,
     scopeNow = 2000, occurredNow = 2001\<rparr>"

definition sampleControl :: "DesktopSessionState \<Rightarrow> control_state" where
  "sampleControl st = \<lparr>ctlDb = (sampleDb st)\<lparr>sessions := [(sampleSession st)\<lparr>s_ID := ''session-1''\<rparr>], credentials := []\<rparr>,
     ctlRelay = None, broadcasts = [], readiness = []\<rparr>"

lemma sampleControl_inv: "trust_inv (ctlDb (sampleControl Active))"
  by (auto simp: trust_inv_def store_inv_def sessions_ok_def creds_current_def events_ok_def identities_unique_def
      sampleControl_def sample_defs session_checks_def live_def live_iff isTerminalDesktopState_def knownDesktopSessionState_def)

lemma sampleControl_terminated:
  "\<exists>w'. handleDesktopAgentEvent sampleControlEnv ''h1'' ''a1'' EventDesktopSessionTerminated ''body'' (sampleControl Active) = Inr w'"
  by (simp add: handleDesktopAgentEvent_def readAgentEvent_def applyAgentEvent_def storeAgentEvent_def IsDesktopEvent_def desktopEvents_def
      sanitizeDesktopAgentMetadata_def desktopAgentMetadataKeys_def validateDesktopControlAuditMetadata_def isDesktopPrivilegedEvent_def
      isIdempotentLateDesktopTerminalEvent_def desktopEventTransitions_def defaultReason_def validateDesktopAgentScope_def
      TransitionDesktopSession_def validateDesktopEvent_def CanTransitionDesktopSession_def transitioned_def
      validateLifecycleEvent_def matches_id_pattern_def id_code_def ascii_alnum_def sampleControlEnv_def sampleControl_def sample_defs run_simps literal_simps event_defs)


end
