(* ===== verification/Registries.thy ===== *)
theory Registries
  imports Go_Text
begin

text \<open>
  The in-memory registries of package \<open>cloud\<close>: single-use websocket tickets (\<open>app_tickets.go\<close>) and
  admin action tokens (\<open>admin_action_tokens.go\<close>), the sliding-window rate limiter (\<open>ratelimit.go\<close>)
  and the login backoff (\<open>login_backoff.go\<close>) with its durable counterpart in
  \<open>store/production_state.go\<close>. The clock, the token generator, the hash of a token and the Unicode
  case mapping are arguments; each method is one critical section of its mutex.
\<close>

section \<open>Single-use registries\<close>

text \<open>
  What makes a registry single-use: consuming a key removes it, a key that is absent cannot be
  consumed, and no step other than issuing the key brings it back.
\<close>

locale single_use_registry =
  fixes has :: "'s \<Rightarrow> 'k \<Rightarrow> bool"
    and consume :: "'k \<Rightarrow> 'x \<Rightarrow> 's \<Rightarrow> 'v result \<times> 's"
    and step :: "'k \<Rightarrow> 's \<Rightarrow> 's \<Rightarrow> bool"
  assumes consume_removes: "\<not> has (snd (consume k x s)) k"
    and consume_absent: "\<not> has s k \<Longrightarrow> \<exists>e. fst (consume k x s) = Inl e"
    and step_absent: "\<not> has s k \<Longrightarrow> step k s t \<Longrightarrow> \<not> has t k"
begin

lemma stays_absent: "reachable (\<lambda>u. u = s) (step k) t \<Longrightarrow> \<not> has s k \<Longrightarrow> \<not> has t k"
  by (induction rule: reachable.induct) (auto dest: step_absent)

lemma consumed_once:
  assumes "consume k x s = (res, s')" "reachable (\<lambda>u. u = s') (step k) t"
  shows "\<exists>e. fst (consume k y t) = Inl e"
  using stays_absent [OF assms(2)] consume_removes [of k x s] consume_absent assms(1) by simp

end

section \<open>Websocket tickets\<close>

definition errAppTicketNotFound :: error where
  "errAppTicketNotFound = ErrMsg ''app websocket ticket not found''"

record appWebSocketTicket =
  tk_SessionID :: string
  tk_UserID :: string
  tk_ExpiresAt :: time

type_synonym appWebSocketTicketRegistry = "(string, appWebSocketTicket) gomap"

definition pruneExpiredLocked :: "time \<Rightarrow> appWebSocketTicketRegistry \<Rightarrow> appWebSocketTicketRegistry" where
  "pruneExpiredLocked now tickets = filter (\<lambda>(key, ticket). tk_ExpiresAt ticket > now) tickets"

definition ticketIssue ::
    "(string \<Rightarrow> string) \<Rightarrow> string \<Rightarrow> time \<Rightarrow> string \<Rightarrow> string \<Rightarrow> duration \<Rightarrow> appWebSocketTicketRegistry \<Rightarrow>
     (string \<times> time) \<times> appWebSocketTicketRegistry" where
  "ticketIssue hashToken rawToken now sessionID userID ttl tickets =
     (let expiresAt = now + ttl in
      ((rawToken, expiresAt),
       mput (hashToken rawToken) \<lparr>tk_SessionID = sessionID, tk_UserID = userID, tk_ExpiresAt = expiresAt\<rparr>
         (pruneExpiredLocked now tickets)))"

definition ticketConsume ::
    "(string \<Rightarrow> string) \<Rightarrow> string \<Rightarrow> time \<Rightarrow> appWebSocketTicketRegistry \<Rightarrow> appWebSocketTicket result \<times> appWebSocketTicketRegistry" where
  "ticketConsume hashToken rawToken now tickets =
     (let pruned = pruneExpiredLocked now tickets; key = hashToken rawToken in
      case mget pruned key of
        None \<Rightarrow> (Inl errAppTicketNotFound, pruned)
      | Some ticket \<Rightarrow> (Inr ticket, mdel key pruned))"

text \<open>What may happen to a registry without the token \<open>raw\<close> being issued again.\<close>

inductive ticket_step :: "(string \<Rightarrow> string) \<Rightarrow> string \<Rightarrow> appWebSocketTicketRegistry \<Rightarrow> appWebSocketTicketRegistry \<Rightarrow> bool"
  for hashToken raw where
  issued: "hashToken other \<noteq> hashToken raw \<Longrightarrow>
    ticket_step hashToken raw r (snd (ticketIssue hashToken other now sessionID userID ttl r))"
| consumed: "ticket_step hashToken raw r (snd (ticketConsume hashToken other now r))"

lemma prune_absent: "mget tickets k = None \<Longrightarrow> mget (pruneExpiredLocked now tickets) k = None"
  unfolding pruneExpiredLocked_def map_of_eq_None_iff by auto

lemma mwf_prune: "mwf tickets \<Longrightarrow> mwf (pruneExpiredLocked now tickets)"
  by (simp add: pruneExpiredLocked_def case_prod_beta')

lemma mget_prune:
  "mwf tickets \<Longrightarrow> mget (pruneExpiredLocked now tickets) k =
     (case mget tickets k of None \<Rightarrow> None | Some t \<Rightarrow> if tk_ExpiresAt t > now then Some t else None)"
  using mget_filter [of tickets "\<lambda>key ticket. tk_ExpiresAt ticket > now" k]
  by (simp add: pruneExpiredLocked_def case_prod_beta')

lemma ticketConsume_absent:
  "mget tickets (hashToken raw) = None \<Longrightarrow> ticketConsume hashToken raw now tickets = (Inl errAppTicketNotFound, pruneExpiredLocked now tickets)"
  using prune_absent [of tickets "hashToken raw" now] by (simp add: ticketConsume_def Let_def)

lemma ticketConsume_removes: "mget (snd (ticketConsume hashToken raw now tickets)) (hashToken raw) = None"
  by (auto simp: ticketConsume_def Let_def split: option.split)

lemma ticketConsume_keeps_absent:
  "mget tickets k = None \<Longrightarrow> mget (snd (ticketConsume hashToken raw now tickets)) k = None"
  using prune_absent [of tickets k now] by (auto simp: ticketConsume_def Let_def split: option.split)

interpretation ticket: single_use_registry
  "\<lambda>r raw. mget r (hashToken raw) \<noteq> None" "\<lambda>raw now. ticketConsume hashToken raw now" "ticket_step hashToken"
  for hashToken
proof unfold_locales
  show "\<not> mget (snd (ticketConsume hashToken k x s)) (hashToken k) \<noteq> None" for k x s
    by (simp add: ticketConsume_removes)
  show "\<exists>e. fst (ticketConsume hashToken k x s) = Inl e" if "\<not> mget s (hashToken k) \<noteq> None" for s k x
    using that by (simp add: ticketConsume_absent)
  show "\<not> mget t (hashToken k) \<noteq> None" if "\<not> mget s (hashToken k) \<noteq> None" "ticket_step hashToken k s t" for s k t
    using that(2,1) by cases (auto simp: ticketIssue_def Let_def prune_absent ticketConsume_keeps_absent)
qed

section \<open>Admin action tokens\<close>

record adminActionToken =
  at_UserID :: string
  at_Action :: string
  at_ExpiresAt :: time

type_synonym adminActionTokenRegistry = "(string, adminActionToken) gomap"

definition actionIssue ::
    "(string \<Rightarrow> string) \<Rightarrow> string \<Rightarrow> time \<Rightarrow> string \<Rightarrow> string \<Rightarrow> duration \<Rightarrow> adminActionTokenRegistry \<Rightarrow>
     (string \<times> time) \<times> adminActionTokenRegistry" where
  "actionIssue hashToken raw now userID action ttl tokens =
     (let expiresAt = now + ttl in
      ((raw, expiresAt),
       mput (hashToken raw) \<lparr>at_UserID = userID, at_Action = action, at_ExpiresAt = expiresAt\<rparr> tokens))"

definition actionConsume ::
    "(string \<Rightarrow> string) \<Rightarrow> string \<Rightarrow> string \<Rightarrow> string \<Rightarrow> time \<Rightarrow> adminActionTokenRegistry \<Rightarrow> unit result \<times> adminActionTokenRegistry" where
  "actionConsume hashToken raw userID action now tokens =
     (let key = hashToken raw in
      case mget tokens key of
        None \<Rightarrow> (Inl (ErrMsg ''admin action token not found''), tokens)
      | Some token \<Rightarrow>
          (if at_UserID token \<noteq> userID \<or> at_Action token \<noteq> action \<or> now > at_ExpiresAt token
           then Inl (ErrMsg ''admin action token invalid'') else Inr (),
           mdel key tokens))"

inductive action_step :: "(string \<Rightarrow> string) \<Rightarrow> string \<Rightarrow> adminActionTokenRegistry \<Rightarrow> adminActionTokenRegistry \<Rightarrow> bool"
  for hashToken raw where
  issued: "hashToken other \<noteq> hashToken raw \<Longrightarrow>
    action_step hashToken raw r (snd (actionIssue hashToken other now userID action ttl r))"
| consumed: "action_step hashToken raw r (snd (actionConsume hashToken other userID action now r))"

interpretation action_token: single_use_registry
  "\<lambda>r raw. mget r (hashToken raw) \<noteq> None"
  "\<lambda>raw x. actionConsume hashToken raw (fst x) (fst (snd x)) (snd (snd x))" "action_step hashToken"
  for hashToken
proof unfold_locales
  show "\<not> mget (snd (actionConsume hashToken k (fst x) (fst (snd x)) (snd (snd x)) s)) (hashToken k) \<noteq> None"
    for k s and x :: "string \<times> string \<times> time" by (auto simp: actionConsume_def Let_def split: option.split)
  show "\<exists>e. fst (actionConsume hashToken k (fst x) (fst (snd x)) (snd (snd x)) s) = Inl e"
    if "\<not> mget s (hashToken k) \<noteq> None" for s k and x :: "string \<times> string \<times> time"
    using that by (auto simp: actionConsume_def Let_def)
  show "\<not> mget t (hashToken k) \<noteq> None" if "\<not> mget s (hashToken k) \<noteq> None" "action_step hashToken k s t" for s k t
    using that(2,1) by cases (auto simp: actionIssue_def actionConsume_def Let_def split: option.split)
qed

section \<open>The rate limiter\<close>

text \<open>
  \<open>Allow\<close> compacts the slice of a key in place: \<open>existing\<close> shares the backing array of
  \<open>l.hits[key]\<close>, and the loop writes to it while the \<open>range\<close> still reads from it. \<open>compact\<close> is that
  loop on the array: \<open>i\<close> is the index of the \<open>range\<close>, \<open>w\<close> the length of \<open>existing\<close>.
\<close>

function compact :: "time \<Rightarrow> duration \<Rightarrow> time list \<Rightarrow> nat \<Rightarrow> nat \<Rightarrow> time list \<times> nat" where
  "compact now window arr i w =
     (if i < length arr
      then (let hit = arr ! i in
            if timeSub now hit < window then compact now window (arr[w := hit]) (i + 1) (w + 1)
            else compact now window arr (i + 1) w)
      else (arr, w))"
  by pat_completeness auto
termination
  by (relation "measure (\<lambda>(now, window, arr, i, w). length arr - i)") auto

declare compact.simps [simp del]

type_synonym rateLimiter = "(string, time list) gomap"

definition hitsOf :: "rateLimiter \<Rightarrow> string \<Rightarrow> time list" where
  "hitsOf hits key = (case mget hits key of None \<Rightarrow> [] | Some hs \<Rightarrow> hs)"

definition Allow :: "string \<Rightarrow> int \<Rightarrow> duration \<Rightarrow> time \<Rightarrow> rateLimiter \<Rightarrow> bool \<times> rateLimiter" where
  "Allow key limit window now hits =
     (let (arr, w) = compact now window (hitsOf hits key) 0 0; existing = take w arr in
      if int (length existing) \<ge> limit then (False, mput key existing hits)
      else (True, mput key (existing @ [now]) hits))"

lemma compact_spec:
  assumes "w \<le> i" "i \<le> length arr"
  shows "case compact now window arr i w of (arr', w') \<Rightarrow>
     take w' arr' = take w arr @ filter (\<lambda>hit. timeSub now hit < window) (drop i arr)"
  using assms
proof (induction now window arr i w rule: compact.induct)
  case (1 now window arr i w)
  show ?case
  proof (cases "i < length arr")
    case False
    then show ?thesis using 1 by (subst compact.simps) simp
  next
    case True
    then have split: "drop i arr = arr ! i # drop (i + 1) arr" by (simp add: Cons_nth_drop_Suc)
    show ?thesis
    proof (cases "timeSub now (arr ! i) < window")
      case keep: True
      have "take (w + 1) (arr[w := arr ! i]) = take w arr @ [arr ! i]"
        using 1(3) True by (simp add: take_Suc_conv_app_nth)
      moreover have "drop (i + 1) (arr[w := arr ! i]) = drop (i + 1) arr"
        using 1(3) by simp
      ultimately show ?thesis
        using 1(1) [OF True refl keep] 1(3) True keep by (subst compact.simps) (simp add: split Let_def)
    next
      case False
      then show ?thesis
        using 1(2) [OF True refl False] 1(3) True by (subst compact.simps) (simp add: split Let_def)
    qed
  qed
qed

text \<open>The in-place loop keeps exactly the hits inside the window, in order.\<close>

lemma compact_filter: "compact now window hs 0 0 = (arr, w) \<Longrightarrow> take w arr = filter (\<lambda>hit. timeSub now hit < window) hs"
  using compact_spec [of 0 0 hs now window] by simp

text \<open>The reference: filter, then compare.\<close>

definition allowSpec :: "string \<Rightarrow> int \<Rightarrow> duration \<Rightarrow> time \<Rightarrow> rateLimiter \<Rightarrow> bool \<times> rateLimiter" where
  "allowSpec key limit window now hits =
     (let recent = filter (\<lambda>hit. timeSub now hit < window) (hitsOf hits key) in
      if limit \<le> int (length recent) then (False, mput key recent hits) else (True, mput key (recent @ [now]) hits))"

lemma Allow_spec: "Allow key limit window now hits = allowSpec key limit window now hits"
proof -
  obtain arr w where c: "compact now window (hitsOf hits key) 0 0 = (arr, w)" by fastforce
  show ?thesis using compact_filter [OF c] by (simp add: Allow_def allowSpec_def c Let_def del: length_take)
qed

text \<open>A sequence of calls (key, limit, window, time) in the order of the mutex, and the hits it admits.\<close>

fun allowRun :: "(string \<times> int \<times> duration \<times> time) list \<Rightarrow> rateLimiter \<Rightarrow> (string \<times> time) list" where
  "allowRun [] hits = []"
| "allowRun ((key, limit, window, now) # calls) hits =
     (case Allow key limit window now hits of
        (ok, hits') \<Rightarrow> (if ok then [(key, now)] else []) @ allowRun calls hits')"

text \<open>
  The admitted hits so far, \<open>g\<close>: they lie in the past, the stored slice agrees with them on every
  window that is still to come, and no window of the past holds more than the limit.
\<close>

definition rate_inv :: "string \<Rightarrow> nat \<Rightarrow> duration \<Rightarrow> time \<Rightarrow> time list \<Rightarrow> rateLimiter \<Rightarrow> bool" where
  "rate_inv key limit window now g hits \<longleftrightarrow>
     (\<forall>x \<in> set g. x \<le> now)
     \<and> (\<forall>t \<ge> now. filter (\<lambda>x. t - x < window) (hitsOf hits key) = filter (\<lambda>x. t - x < window) g)
     \<and> (\<forall>t. length (filter (\<lambda>x. t - window < x \<and> x \<le> t) g) \<le> limit)"

lemma length_filter_mono: "(\<And>x. x \<in> set xs \<Longrightarrow> P x \<Longrightarrow> Q x) \<Longrightarrow> length (filter P xs) \<le> length (filter Q xs)"
  by (induction xs) auto

lemma rate_inv_later: "rate_inv key limit window now g hits \<Longrightarrow> now \<le> now' \<Longrightarrow> rate_inv key limit window now' g hits"
  unfolding rate_inv_def by fastforce

lemma hitsOf_mput [simp]: "hitsOf (mput k v hits) key = (if key = k then v else hitsOf hits key)"
  by (simp add: hitsOf_def)

lemma rate_inv_step:
  assumes inv: "rate_inv key limit window now g hits" and w: "0 < window" "window \<le> maxDuration"
    and run: "Allow key (int limit) window now hits = (ok, hits')"
  shows "rate_inv key limit window now (g @ (if ok then [now] else [])) hits'"
proof -
  let ?recent = "filter (\<lambda>x. now - x < window) g"
  have less: "timeSub now hit < window \<longleftrightarrow> now - hit < window" for hit
    using w by (intro timeSub_less) (simp_all add: minDuration_def)
  have agree: "filter (\<lambda>x. t - x < window) (hitsOf hits key) = filter (\<lambda>x. t - x < window) g" if "now \<le> t" for t
    using inv that by (simp add: rate_inv_def)
  have ok: "ok \<longleftrightarrow> length ?recent < limit" and kept: "hitsOf hits' key = ?recent @ (if ok then [now] else [])"
    using run agree [of now] by (auto simp: Allow_spec allowSpec_def less Let_def split: if_splits)
  have past: "x \<le> now" if "x \<in> set g" for x using inv that by (simp add: rate_inv_def)
  have drop: "filter (\<lambda>x. t - x < window) ?recent = filter (\<lambda>x. t - x < window) g" if "now \<le> t" for t
    using that by (auto simp: filter_filter intro: filter_cong)
  have count: "length (filter (\<lambda>x. t - window < x \<and> x \<le> t) (g @ [now])) \<le> limit" if grant: ok for t
  proof (cases "now \<le> t \<and> t - window < now")
    case True
    then have "length (filter (\<lambda>x. t - window < x \<and> x \<le> t) g) \<le> length ?recent"
      by (intro length_filter_mono) auto
    then show ?thesis using True grant ok by simp
  next
    case False
    then have "filter (\<lambda>x. t - window < x \<and> x \<le> t) (g @ [now]) = filter (\<lambda>x. t - window < x \<and> x \<le> t) g" by auto
    then show ?thesis using inv by (simp add: rate_inv_def)
  qed
  show ?thesis
    unfolding rate_inv_def kept using past drop count inv by (auto simp: rate_inv_def)
qed

lemma Allow_other: "Allow k l w now hits = (ok, hits') \<Longrightarrow> k \<noteq> key \<Longrightarrow> hitsOf hits' key = hitsOf hits key"
  by (auto simp: Allow_spec allowSpec_def Let_def split: if_splits)

lemma allowRun_inv:
  assumes "0 < window" "window \<le> maxDuration"
    and "\<And>k l w t. (k, l, w, t) \<in> set calls \<Longrightarrow> k = key \<Longrightarrow> l = int limit \<and> w = window"
    and "rate_inv key limit window now g hits" "sorted (now # map (\<lambda>c. snd (snd (snd c))) calls)"
  shows "length (filter (\<lambda>x. t - window < x \<and> x \<le> t) (g @ map snd (filter (\<lambda>c. fst c = key) (allowRun calls hits)))) \<le> limit"
  using assms(3-5)
proof (induction calls arbitrary: now g hits)
  case Nil
  then show ?case by (simp add: rate_inv_def)
next
  case (Cons c calls)
  obtain k l w n where c: "c = (k, l, w, n)" by (cases c)
  obtain ok hits' where run: "Allow k l w n hits = (ok, hits')" by fastforce
  have later: "rate_inv key limit window n g hits"
    using Cons.prems(2) by (rule rate_inv_later) (use Cons.prems(3) c in simp)
  let ?g = "g @ (if ok \<and> k = key then [n] else [])"
  have inv: "rate_inv key limit window n ?g hits'"
  proof (cases "k = key")
    case True
    then have "l = int limit" "w = window" using Cons.prems(1) [of k l w n] c by simp_all
    with rate_inv_step [OF later assms(1,2)] run True show ?thesis by fastforce
  next
    case False
    then show ?thesis using later Allow_other [OF run False] by (simp add: rate_inv_def)
  qed
  have later: "sorted (n # map (\<lambda>c. snd (snd (snd c))) calls)" using Cons.prems(3) c by simp
  have calls: "l' = int limit \<and> w' = window" if "(k', l', w', t') \<in> set calls" "k' = key" for k' l' w' t'
    by (rule Cons.prems(1) [of k' l' w' t']) (use that in simp_all)
  have eq: "g @ map snd (filter (\<lambda>c. fst c = key) (allowRun (c # calls) hits))
      = ?g @ map snd (filter (\<lambda>c. fst c = key) (allowRun calls hits'))"
    by (simp add: c run)
  show ?case unfolding eq using calls inv later by (rule Cons.IH)
qed

section \<open>Login backoff\<close>

record loginBackoffEntry =
  failures :: int
  blocked :: time

type_synonym loginBackoffRegistry = "(string, loginBackoffEntry) gomap"

definition loginBackoffKey :: "(string \<Rightarrow> string) \<Rightarrow> string \<Rightarrow> string" where
  "loginBackoffKey wideLower email = trimSpace (toLower wideLower email)"

definition entryOf :: "loginBackoffRegistry \<Rightarrow> string \<Rightarrow> loginBackoffEntry" where
  "entryOf entries key = (case mget entries key of None \<Rightarrow> \<lparr>failures = 0, blocked = 0\<rparr> | Some e \<Rightarrow> e)"

definition Blocked ::
    "(string \<Rightarrow> string) \<Rightarrow> string \<Rightarrow> time \<Rightarrow> time \<Rightarrow> loginBackoffRegistry \<Rightarrow> (duration \<times> bool) \<times> loginBackoffRegistry" where
  "Blocked wideLower email now now2 entries =
     (let key = loginBackoffKey wideLower email in
      if key = [] then ((0, False), entries)
      else
        let entry = entryOf entries key in
        if isZero (blocked entry) then ((0, False), entries)
        else if \<not> now < blocked entry then ((0, False), mdel key entries)
        else ((timeSub (blocked entry) now2, True), entries))"

definition failureDelay :: "int \<Rightarrow> duration" where
  "failureDelay n = minutes (2 ^ nat (min n 10 - 5))"

definition RecordFailure :: "(string \<Rightarrow> string) \<Rightarrow> string \<Rightarrow> time \<Rightarrow> loginBackoffRegistry \<Rightarrow> loginBackoffRegistry" where
  "RecordFailure wideLower email now entries =
     (let key = loginBackoffKey wideLower email in
      if key = [] then entries
      else
        let entry = entryOf entries key; n = failures entry + 1 in
        mput key (if n \<ge> 5 then \<lparr>failures = n, blocked = now + failureDelay n\<rparr> else entry\<lparr>failures := n\<rparr>) entries)"

definition RecordSuccess :: "(string \<Rightarrow> string) \<Rightarrow> string \<Rightarrow> loginBackoffRegistry \<Rightarrow> loginBackoffRegistry" where
  "RecordSuccess wideLower email entries =
     (let key = loginBackoffKey wideLower email in if key = [] then entries else mdel key entries)"

text \<open>
  The durable counterpart: rows of \<open>login_backoff\<close> by the hash of the (already normalised) email;
  \<open>blocked_until\<close> is \<open>None\<close> for \<open>NULL\<close>.
\<close>

record login_backoff_row =
  row_failures :: int
  row_blocked_until :: "time option"
  row_updated_at :: time

type_synonym login_backoff_table = "(string, login_backoff_row) gomap"

definition LoginBackoffBlocked :: "(string \<Rightarrow> string) \<Rightarrow> string \<Rightarrow> time \<Rightarrow> time \<Rightarrow> login_backoff_table \<Rightarrow> duration \<times> bool" where
  "LoginBackoffBlocked stableHash email now now2 rows =
     (case mget rows (stableHash email) of
        None \<Rightarrow> (0, False)
      | Some row \<Rightarrow>
          (case row_blocked_until row of
             None \<Rightarrow> (0, False)
           | Some t \<Rightarrow> if \<not> now < t then (0, False) else (timeSub t now2, True)))"

definition RecordLoginFailure :: "(string \<Rightarrow> string) \<Rightarrow> string \<Rightarrow> time \<Rightarrow> login_backoff_table \<Rightarrow> login_backoff_table" where
  "RecordLoginFailure stableHash email now rows =
     (let key = stableHash email in
      case mget rows key of
        None \<Rightarrow> mput key \<lparr>row_failures = 1, row_blocked_until = None, row_updated_at = now\<rparr> rows
      | Some row \<Rightarrow>
          let n = row_failures row + 1;
              exponent = (if n - 5 > 5 then 5 else n - 5) in
          mput key \<lparr>row_failures = n,
                    row_blocked_until = (if n \<ge> 5 then Some (now + minutes (2 ^ nat exponent)) else None),
                    row_updated_at = now\<rparr> rows)"

definition RecordLoginSuccess :: "(string \<Rightarrow> string) \<Rightarrow> string \<Rightarrow> login_backoff_table \<Rightarrow> login_backoff_table" where
  "RecordLoginSuccess stableHash email rows = mdel (stableHash email) rows"

lemma failureDelay_stored: "5 \<le> n \<Longrightarrow> failureDelay n = minutes (2 ^ nat (if n - 5 > 5 then 5 else n - 5))"
  by (simp add: failureDelay_def min_def)

lemma failureDelay_bounds: "5 \<le> n \<Longrightarrow> minutes 1 \<le> failureDelay n \<and> failureDelay n \<le> minutes 32"
proof -
  assume "5 \<le> n"
  have "nat (min n 10 - 5) \<le> 5" by (simp add: nat_le_iff)
  then have "(2 :: int) ^ nat (min n 10 - 5) \<le> 2 ^ 5" by (rule power_increasing) simp
  moreover have "(1 :: int) \<le> 2 ^ nat (min n 10 - 5)" by simp
  ultimately show ?thesis by (simp add: failureDelay_def)
qed

text \<open>The failures of one account since its last success, recorded in memory and in the table.\<close>

definition memoryFailures :: "(string \<Rightarrow> string) \<Rightarrow> string \<Rightarrow> time list \<Rightarrow> loginBackoffRegistry \<Rightarrow> loginBackoffRegistry" where
  "memoryFailures wideLower email ts entries = foldl (\<lambda>r t. RecordFailure wideLower email t r) entries ts"

definition storedFailures :: "(string \<Rightarrow> string) \<Rightarrow> string \<Rightarrow> time list \<Rightarrow> login_backoff_table \<Rightarrow> login_backoff_table" where
  "storedFailures stableHash email ts rows = foldl (\<lambda>r t. RecordLoginFailure stableHash email t r) rows ts"

lemma memoryFailures_entry:
  assumes "loginBackoffKey wl email \<noteq> []" "mget entries (loginBackoffKey wl email) = None"
  shows "entryOf (memoryFailures wl email ts entries) (loginBackoffKey wl email) =
    \<lparr>failures = int (length ts), blocked = (if length ts \<ge> 5 then last ts + failureDelay (int (length ts)) else 0)\<rparr>"
proof (induction ts rule: rev_induct)
  case Nil
  then show ?case using assms by (simp add: memoryFailures_def entryOf_def)
next
  case (snoc t ts)
  have "memoryFailures wl email (ts @ [t]) entries = RecordFailure wl email t (memoryFailures wl email ts entries)"
    by (simp add: memoryFailures_def)
  moreover have "entryOf (mput k e r) k = e" for k e r by (simp add: entryOf_def)
  ultimately show ?case using snoc assms(1) by (auto simp: RecordFailure_def Let_def add.commute)
qed

lemma storedFailures_row:
  assumes "mget rows (h email) = None"
  shows "mget (storedFailures h email ts rows) (h email) = (if ts = [] then None else
    Some \<lparr>row_failures = int (length ts),
      row_blocked_until = (if length ts \<ge> 5 then Some (last ts + failureDelay (int (length ts))) else None),
      row_updated_at = last ts\<rparr>)"
proof (induction ts rule: rev_induct)
  case Nil
  then show ?case using assms by (simp add: storedFailures_def)
next
  case (snoc t ts)
  have step: "storedFailures h email (ts @ [t]) rows = RecordLoginFailure h email t (storedFailures h email ts rows)"
    by (simp add: storedFailures_def)
  show ?case
  proof (cases "ts = []")
    case True
    then show ?thesis using snoc step by (simp add: RecordLoginFailure_def Let_def)
  next
    case False
    then show ?thesis using snoc
      by (auto simp: step RecordLoginFailure_def Let_def failureDelay_stored add.commute)
  qed
qed

lemma unblocked_entry: "blocked (entryOf r (loginBackoffKey wl email)) = 0 \<Longrightarrow> \<not> snd (fst (Blocked wl email now now2 r))"
  by (simp add: Blocked_def Let_def isZero_def)

section \<open>Properties\<close>

text \<open>A websocket ticket is accepted at most once: once a consume presented it (whatever came of
  it), it is refused after any sequence of other issues and consumes, until the same token is issued
  again; and an accepted ticket is one that was stored for this token and has not expired.\<close>

theorem app_ticket_single_use:
  assumes "ticketConsume hashToken raw now r = (res, r')" "mwf r"
    and "reachable (\<lambda>u. u = r') (ticket_step hashToken raw) t"
  shows "(\<exists>e. fst (ticketConsume hashToken raw later t) = Inl e)
    \<and> (\<forall>ticket. res = Inr ticket \<longrightarrow> mget r (hashToken raw) = Some ticket \<and> now < tk_ExpiresAt ticket)"
  using ticket.consumed_once [of hashToken raw now r res r' t later] assms mget_prune [OF assms(2), of now "hashToken raw"]
  by (auto simp: ticketConsume_def Let_def split: option.splits if_splits)

text \<open>An admin action token authorises one attempt: it is accepted only for the user and the action
  it was issued for and before it expires, and any attempt, successful or not, uses it up.\<close>

theorem admin_action_token_single_use:
  assumes "actionConsume hashToken raw userID action now r = (res, r')"
    and "reachable (\<lambda>u. u = r') (action_step hashToken raw) t"
  shows "(\<exists>e. fst (actionConsume hashToken raw userID' action' later t) = Inl e)
    \<and> (res = Inr () \<longrightarrow> (\<exists>token. mget r (hashToken raw) = Some token \<and> at_UserID token = userID
          \<and> at_Action token = action \<and> now \<le> at_ExpiresAt token))"
  using action_token.consumed_once [of hashToken raw "(userID, action, now)" r res r' t "(userID', action', later)"] assms
  by (auto simp: actionConsume_def Let_def split: option.splits if_splits)

text \<open>C31: the rate limiter's loop, which compacts a slice in place while it ranges over it, computes the
  filter of the hits inside the window, and \<open>Allow\<close> admits a hit exactly when fewer than \<open>limit\<close> of
  them are left.\<close>

theorem rate_limiter_in_place_correct: "Allow key limit window now hits = allowSpec key limit window now hits"
  by (rule Allow_spec)

text \<open>The rate limiter never admits more than its limit: over any sequence of calls on any keys at
  non-decreasing times, every interval of one window length contains at most \<open>limit\<close> admitted hits of
  a key.\<close>

theorem rate_limiter_window_bound:
  assumes "0 < window" "window \<le> maxDuration" "hitsOf hits key = []"
    and "\<And>k l w t. (k, l, w, t) \<in> set calls \<Longrightarrow> k = key \<Longrightarrow> l = int limit \<and> w = window"
    and "sorted (map (\<lambda>c. snd (snd (snd c))) calls)"
  shows "length (filter (\<lambda>(k, x). k = key \<and> t - window < x \<and> x \<le> t) (allowRun calls hits)) \<le> limit"
proof (cases calls)
  case Nil
  then show ?thesis by simp
next
  case (Cons c cs)
  let ?start = "snd (snd (snd c))"
  have inv: "rate_inv key limit window ?start [] hits" using assms(3) by (simp add: rate_inv_def)
  have "sorted (?start # map (\<lambda>c. snd (snd (snd c))) calls)" using assms(5) Cons by simp
  from allowRun_inv [OF assms(1,2,4) inv this, where t = t] show ?thesis
    by (simp add: filter_map o_def case_prod_beta' conj_ac)
qed

text \<open>For an account with any number of failures since its last success, the in-memory backoff and
  the stored one give the same answer at every time, and both block for one minute after the fifth
  failure, doubling with each further failure up to 32 minutes.\<close>

theorem login_backoff_agrees:
  assumes "loginBackoffKey wideLower email \<noteq> []" "mget entries (loginBackoffKey wideLower email) = None"
    and "mget rows (stableHash email) = None" "list_all (\<lambda>t. 0 \<le> t) ts"
  shows "fst (Blocked wideLower email now now2 (memoryFailures wideLower email ts entries))
      = LoginBackoffBlocked stableHash email now now2 (storedFailures stableHash email ts rows)
    \<and> (snd (LoginBackoffBlocked stableHash email now now2 (storedFailures stableHash email ts rows)) \<longleftrightarrow>
         5 \<le> length ts \<and> now < last ts + minutes (2 ^ min (length ts - 5) 5))"
proof -
  let ?n = "int (length ts)"
  have delay: "failureDelay ?n = minutes (2 ^ min (length ts - 5) 5)" if "5 \<le> length ts"
  proof -
    have "nat (min ?n 10 - 5) = min (length ts - 5) 5" using that by (simp add: min_def nat_diff_distrib) linarith
    then show ?thesis by (simp add: failureDelay_def)
  qed
  have pos: "last ts + failureDelay ?n \<noteq> 0" if "5 \<le> length ts"
  proof -
    have "last ts \<in> set ts" using that by (intro last_in_set) auto
    then have "0 \<le> last ts" using assms(4) by (simp add: list_all_iff)
    then show ?thesis using failureDelay_bounds [of ?n] that by simp
  qed
  show ?thesis
    using delay pos by (auto simp: Blocked_def LoginBackoffBlocked_def Let_def memoryFailures_entry [OF assms(1,2)]
        storedFailures_row [of rows stableHash email ts, OF assms(3)] isZero_def assms(1))
qed

text \<open>
  The in-memory backoff forgets where the stored one escalates: asking whether an account is blocked
  after its block has run out deletes its entry, so the sixth failure is counted as a first one.
\<close>

theorem login_backoff_memory_forgets:
  assumes key: "loginBackoffKey wideLower email \<noteq> []" "mget entries (loginBackoffKey wideLower email) = None"
    and row: "mget rows (stableHash email) = None" and ts: "list_all (\<lambda>t. 0 \<le> t) ts" "length ts = 5"
    and now: "last ts + minutes 1 \<le> now"
  shows "\<not> snd (fst (Blocked wideLower email later later2 (RecordFailure wideLower email next
        (snd (Blocked wideLower email now now2 (memoryFailures wideLower email ts entries))))))
    \<and> (snd (LoginBackoffBlocked stableHash email later later2 (storedFailures stableHash email (ts @ [next]) rows))
        \<longleftrightarrow> later < next + minutes 2)"
proof -
  let ?k = "loginBackoffKey wideLower email" and ?r = "memoryFailures wideLower email ts entries"
  have "last ts \<in> set ts" using ts(2) by (intro last_in_set) auto
  then have "0 \<le> last ts" using ts(1) by (simp add: list_all_iff)
  then have "\<not> isZero (blocked (entryOf ?r ?k))" "\<not> now < blocked (entryOf ?r ?k)"
    using now ts(2) by (auto simp: memoryFailures_entry [OF key] failureDelay_def isZero_def)
  then have gone: "mget (snd (Blocked wideLower email now now2 ?r)) ?k = None"
    using key(1) by (simp add: Blocked_def Let_def)
  have "entryOf (RecordFailure wideLower email next (snd (Blocked wideLower email now now2 ?r))) ?k = \<lparr>failures = 1, blocked = 0\<rparr>"
    using memoryFailures_entry [OF key(1) gone, of "[next]"] by (simp add: memoryFailures_def)
  moreover have "snd (LoginBackoffBlocked stableHash email later later2 (storedFailures stableHash email (ts @ [next]) rows))
      \<longleftrightarrow> later < next + minutes 2"
    using storedFailures_row [of rows stableHash email "ts @ [next]", OF row] ts(2)
    by (simp add: LoginBackoffBlocked_def failureDelay_def)
  ultimately show ?thesis by (simp add: unblocked_entry)
qed

section \<open>Witnesses\<close>

abbreviation "sampleTicket \<equiv> \<lparr>tk_SessionID = ''s1'', tk_UserID = ''u1'', tk_ExpiresAt = 100\<rparr>"

lemma sample_ticket: "ticketConsume id ''tok'' 50 [(''tok'', sampleTicket)] = (Inr sampleTicket, [])"
  by (simp add: ticketConsume_def pruneExpiredLocked_def)

theorem app_ticket_single_use_witness:
  "ticketConsume id ''tok'' 50 [(''tok'', sampleTicket)] = (Inr sampleTicket, [])
   \<and> (\<exists>e. fst (ticketConsume id ''tok'' 60 (snd (ticketIssue id ''other'' 55 ''s2'' ''u2'' 90 []))) = Inl e)"
proof -
  have "reachable (\<lambda>u. u = []) (ticket_step id ''tok'') (snd (ticketIssue id ''other'' 55 ''s2'' ''u2'' 90 []))"
    by (rule reach_step [OF reach_init]) (auto intro: ticket_step.issued)
  from app_ticket_single_use [OF sample_ticket _ this, of 60] sample_ticket show ?thesis by (simp add: mwf_def)
qed

abbreviation "sampleAction \<equiv> \<lparr>at_UserID = ''u1'', at_Action = ''restart'', at_ExpiresAt = 100\<rparr>"

theorem admin_action_token_single_use_witness:
  "\<exists>e. fst (actionConsume id ''tok'' ''u1'' ''restart'' 60 []) = Inl e"
proof -
  have run: "actionConsume id ''tok'' ''u1'' ''restart'' 50 [(''tok'', sampleAction)] = (Inr (), [])"
    by (simp add: actionConsume_def)
  have "reachable (\<lambda>u. u = []) (action_step id ''tok'') []" by (rule reach_init) simp
  from admin_action_token_single_use [OF run this, of "''u1''" "''restart''" 60] show ?thesis by blast
qed

theorem rate_limiter_window_bound_witness:
  "length (filter (\<lambda>(k, x). k = ''ip'' \<and> 103 - 10 < x \<and> x \<le> 103)
     (allowRun [(''ip'', 2, 10, 100), (''ip'', 2, 10, 101), (''other'', 5, 7, 102), (''ip'', 2, 10, 103)] [])) \<le> 2"
  by (rule rate_limiter_window_bound) (auto simp: hitsOf_def maxDuration_def)

theorem login_backoff_agrees_witness:
  "fst (Blocked id ''a@b'' 60 60 (memoryFailures id ''a@b'' [1, 2, 3, 4, 5] []))
     = LoginBackoffBlocked id ''a@b'' 60 60 (storedFailures id ''a@b'' [1, 2, 3, 4, 5] [])
   \<and> snd (LoginBackoffBlocked id ''a@b'' 60 60 (storedFailures id ''a@b'' [1, 2, 3, 4, 5] []))"
proof -
  have "loginBackoffKey id ''a@b'' = ''a@b''"
    by (simp add: loginBackoffKey_def toLower_def is_ascii_def ascii_lower_def literal_simps)
  then show ?thesis
    using login_backoff_agrees [of id "''a@b''" "[]" "[]" id "[1, 2, 3, 4, 5]" 60 60] by simp
qed

end
