(* ===== verification/Shell_Sessions.thy ===== *)
theory Shell_Sessions
  imports Go_Text
begin

text \<open>
  Interactive shell sessions at the cloud: the request validators of \<open>protocol/messages.go\<close> and the
  ownership registry of \<open>internal/cloud/shell_sessions.go\<close>. The registry's clock is an argument of
  each critical section (a method reads it up to twice); \<open>json.Unmarshal\<close> into the request structs is
  an argument of the command authorisation.
\<close>

section \<open>Requests\<close>

record ShellSessionOpenRequest =
  op_SessionID :: string
  op_Columns :: "16 word"
  op_Rows :: "16 word"

record ShellSessionInputRequest =
  inr_SessionID :: string
  inr_Data :: string

record ShellSessionResizeRequest =
  rz_SessionID :: string
  rz_Columns :: "16 word"
  rz_Rows :: "16 word"

record ShellSessionAttachRequest =
  atr_SessionID :: string
  atr_AfterCursor :: "64 word"

record ShellSessionCloseRequest =
  clr_SessionID :: string

definition MaxShellInputBytes :: nat where "MaxShellInputBytes = 64 * 1024"

definition validateTerminalSize :: "16 word \<Rightarrow> 16 word \<Rightarrow> unit result" where
  "validateTerminalSize columns rows =
     (if columns < 20 \<or> columns > 500 \<or> rows < 5 \<or> rows > 500
      then Inl (ErrMsg ''terminal size is outside supported range'') else Inr ())"

definition validateShellID :: "string \<Rightarrow> unit result" where
  "validateShellID sid = (if \<not> matches_id_pattern sid then Inl (ErrMsg ''invalid shell session id'') else Inr ())"

definition validateShellOpen :: "ShellSessionOpenRequest \<Rightarrow> unit result" where
  "validateShellOpen q = bindR (validateShellID (op_SessionID q)) (\<lambda>_. validateTerminalSize (op_Columns q) (op_Rows q))"

definition validateShellInput :: "ShellSessionInputRequest \<Rightarrow> unit result" where
  "validateShellInput q =
     bindR (validateShellID (inr_SessionID q)) (\<lambda>_.
     if inr_Data q = [] \<or> length (inr_Data q) > MaxShellInputBytes
     then Inl (ErrMsg (''shell input must be between 1 and '' @ show_nat MaxShellInputBytes @ '' bytes'')) else Inr ())"

definition validateShellResize :: "ShellSessionResizeRequest \<Rightarrow> unit result" where
  "validateShellResize q = bindR (validateShellID (rz_SessionID q)) (\<lambda>_. validateTerminalSize (rz_Columns q) (rz_Rows q))"

definition validateShellAttach :: "ShellSessionAttachRequest \<Rightarrow> unit result" where
  "validateShellAttach q = validateShellID (atr_SessionID q)"

definition validateShellClose :: "ShellSessionCloseRequest \<Rightarrow> unit result" where
  "validateShellClose q = validateShellID (clr_SessionID q)"

section \<open>The registry\<close>

record cloudShellSession =
  sh_homeID :: string
  sh_userID :: string
  sh_agentID :: string
  touchedAt :: time

record shellSessionRegistry =
  shells :: "(string, cloudShellSession) gomap"
  maxPerUser :: int
  maxPerAgent :: int
  grace :: duration

definition newShellSessionRegistry :: "int \<Rightarrow> int \<Rightarrow> duration \<Rightarrow> shellSessionRegistry" where
  "newShellSessionRegistry mu ma g = \<lparr>shells = [], maxPerUser = mu, maxPerAgent = ma, grace = g\<rparr>"

definition pruneLocked :: "time \<Rightarrow> shellSessionRegistry \<Rightarrow> shellSessionRegistry" where
  "pruneLocked now r =
     (let cutoff = now + (- grace r) in
      r\<lparr>shells := filter (\<lambda>kv. \<not> touchedAt (snd kv) < cutoff) (shells r)\<rparr>)"

definition shellOpen ::
    "time \<Rightarrow> time \<Rightarrow> string \<Rightarrow> string \<Rightarrow> string \<Rightarrow> string \<Rightarrow> shellSessionRegistry \<Rightarrow> unit result \<times> shellSessionRegistry" where
  "shellOpen now now2 sid homeID userID agentID r0 =
     (let r = pruneLocked now r0 in
      if mget (shells r) sid \<noteq> None then (Inl (ErrMsg ''shell session already exists''), r)
      else
        let userCount = mcount (\<lambda>s. sh_homeID s = homeID \<and> sh_userID s = userID) (shells r);
            agentCount = mcount (\<lambda>s. sh_homeID s = homeID \<and> sh_agentID s = agentID) (shells r) in
        if int userCount \<ge> maxPerUser r then (Inl (ErrMsg ''shell session user limit reached''), r)
        else if int agentCount \<ge> maxPerAgent r then (Inl (ErrMsg ''shell session agent limit reached''), r)
        else (Inr (), r\<lparr>shells := mput sid
               \<lparr>sh_homeID = homeID, sh_userID = userID, sh_agentID = agentID, touchedAt = now2\<rparr> (shells r)\<rparr>))"

definition authorize ::
    "time \<Rightarrow> time \<Rightarrow> string \<Rightarrow> string \<Rightarrow> string \<Rightarrow> string \<Rightarrow> shellSessionRegistry \<Rightarrow> unit result \<times> shellSessionRegistry" where
  "authorize now now2 sid homeID userID agentID r0 =
     (let r = pruneLocked now r0 in
      case mget (shells r) sid of
        None \<Rightarrow> (Inl (ErrMsg ''shell session not found''), r)
      | Some s \<Rightarrow>
          if sh_homeID s \<noteq> homeID \<or> sh_userID s \<noteq> userID \<or> sh_agentID s \<noteq> agentID
          then (Inl (ErrMsg ''shell session not found''), r)
          else (Inr (), r\<lparr>shells := mput sid (s\<lparr>touchedAt := now2\<rparr>) (shells r)\<rparr>))"

definition shellClose :: "string \<Rightarrow> shellSessionRegistry \<Rightarrow> shellSessionRegistry" where
  "shellClose sid r = r\<lparr>shells := mdel sid (shells r)\<rparr>"

definition shellComplete :: "string \<Rightarrow> string \<Rightarrow> bool \<Rightarrow> shellSessionRegistry \<Rightarrow> shellSessionRegistry" where
  "shellComplete command sid success r =
     (if sid = [] then r
      else if command = ''shell.session.open'' \<and> \<not> success \<or> command = ''shell.session.close'' \<and> success
      then shellClose sid r else r)"

definition shellSessionTopicPrefix :: string where "shellSessionTopicPrefix = ''shell.session:''"

definition ownsTopic :: "time \<Rightarrow> string \<Rightarrow> string \<Rightarrow> string \<Rightarrow> shellSessionRegistry \<Rightarrow> bool \<times> shellSessionRegistry" where
  "ownsTopic now topic homeID userID r0 =
     (let sid = trimPrefix topic shellSessionTopicPrefix in
      if sid = topic then (False, r0)
      else
        let r = pruneLocked now r0 in
        (case mget (shells r) sid of None \<Rightarrow> False | Some s \<Rightarrow> sh_homeID s = homeID \<and> sh_userID s = userID, r))"

definition allowsAgentEvent :: "time \<Rightarrow> string \<Rightarrow> string \<Rightarrow> string \<Rightarrow> shellSessionRegistry \<Rightarrow> bool \<times> shellSessionRegistry" where
  "allowsAgentEvent now topic homeID agentID r0 =
     (let sid = trimPrefix topic shellSessionTopicPrefix in
      if sid = topic then (False, r0)
      else
        let r = pruneLocked now r0 in
        (case mget (shells r) sid of None \<Rightarrow> False | Some s \<Rightarrow> sh_homeID s = homeID \<and> sh_agentID s = agentID, r))"

section \<open>Authorising a command\<close>

record shell_json =
  jsonOpen :: "string \<Rightarrow> ShellSessionOpenRequest result"
  jsonInput :: "string \<Rightarrow> ShellSessionInputRequest result"
  jsonResize :: "string \<Rightarrow> ShellSessionResizeRequest result"
  jsonAttach :: "string \<Rightarrow> ShellSessionAttachRequest result"
  jsonClose :: "string \<Rightarrow> ShellSessionCloseRequest result"

definition decodeShell :: "(string \<Rightarrow> 'q result) \<Rightarrow> ('q \<Rightarrow> unit result) \<Rightarrow> string \<Rightarrow> 'q result" where
  "decodeShell unmarshal validate body = bindR (unmarshal body) (\<lambda>q. bindR (validate q) (\<lambda>_. Inr q))"

text \<open>The session id the code returns with an error is not used by its caller and is left out.\<close>

definition authorizeShellSessionCommand ::
    "shell_json \<Rightarrow> time \<Rightarrow> time \<Rightarrow> string \<Rightarrow> string \<Rightarrow> string \<Rightarrow> string \<Rightarrow> string \<Rightarrow> shellSessionRegistry \<Rightarrow>
     string result \<times> shellSessionRegistry" where
  "authorizeShellSessionCommand json now now2 command body homeID userID agentID r =
     (let grant = (\<lambda>f sid. case f sid of (Inl e, r') \<Rightarrow> (Inl e, r') | (Inr _, r') \<Rightarrow> (Inr sid, r'));
          opening = grant (\<lambda>sid. shellOpen now now2 sid homeID userID agentID r);
          using_it = grant (\<lambda>sid. authorize now now2 sid homeID userID agentID r) in
      if command = ''shell.session.open''
      then (case decodeShell (jsonOpen json) validateShellOpen body of Inl e \<Rightarrow> (Inl e, r) | Inr q \<Rightarrow> opening (op_SessionID q))
      else if command = ''shell.session.input''
      then (case decodeShell (jsonInput json) validateShellInput body of Inl e \<Rightarrow> (Inl e, r) | Inr q \<Rightarrow> using_it (inr_SessionID q))
      else if command = ''shell.session.resize''
      then (case decodeShell (jsonResize json) validateShellResize body of Inl e \<Rightarrow> (Inl e, r) | Inr q \<Rightarrow> using_it (rz_SessionID q))
      else if command = ''shell.session.attach''
      then (case decodeShell (jsonAttach json) validateShellAttach body of Inl e \<Rightarrow> (Inl e, r) | Inr q \<Rightarrow> using_it (atr_SessionID q))
      else if command = ''shell.session.close''
      then (case decodeShell (jsonClose json) validateShellClose body of Inl e \<Rightarrow> (Inl e, r) | Inr q \<Rightarrow> using_it (clr_SessionID q))
      else (Inl (ErrMsg ''unsupported shell session operation''), r))"

section \<open>The registry as a transition system\<close>

definition shell_init :: "shellSessionRegistry \<Rightarrow> bool" where
  "shell_init r \<longleftrightarrow> (\<exists>mu ma g. 0 \<le> mu \<and> 0 \<le> ma \<and> r = newShellSessionRegistry mu ma g)"

inductive shell_step :: "shellSessionRegistry \<Rightarrow> shellSessionRegistry \<Rightarrow> bool" where
  opened: "shell_step r (snd (shellOpen now now2 sid homeID userID agentID r))"
| authorized: "shell_step r (snd (authorize now now2 sid homeID userID agentID r))"
| completed: "shell_step r (shellComplete command sid success r)"
| topic_checked: "shell_step r (snd (ownsTopic now topic homeID userID r))"
| event_checked: "shell_step r (snd (allowsAgentEvent now topic homeID agentID r))"
| pruned: "shell_step r (pruneLocked now r)"

definition user_count :: "string \<Rightarrow> string \<Rightarrow> shellSessionRegistry \<Rightarrow> nat" where
  "user_count h u r = mcount (\<lambda>s. sh_homeID s = h \<and> sh_userID s = u) (shells r)"

definition agent_count :: "string \<Rightarrow> string \<Rightarrow> shellSessionRegistry \<Rightarrow> nat" where
  "agent_count h a r = mcount (\<lambda>s. sh_homeID s = h \<and> sh_agentID s = a) (shells r)"

definition shell_inv :: "shellSessionRegistry \<Rightarrow> bool" where
  "shell_inv r \<longleftrightarrow> mwf (shells r) \<and> (\<forall>h u. int (user_count h u r) \<le> maxPerUser r) \<and> (\<forall>h a. int (agent_count h a r) \<le> maxPerAgent r)"

lemma shell_inv_shrink:
  assumes "shell_inv r" "mwf m" "\<And>P. mcount P m \<le> mcount P (shells r)"
  shows "shell_inv (r\<lparr>shells := m\<rparr>)"
proof -
  have le: "int (mcount P m) \<le> int (mcount P (shells r))" for P using assms(3) by simp
  show ?thesis
    using assms(1,2) le unfolding shell_inv_def user_count_def agent_count_def
    by (simp, blast intro: order_trans)
qed

lemma pruneLocked_inv: "shell_inv r \<Longrightarrow> shell_inv (pruneLocked now r)"
  unfolding pruneLocked_def Let_def by (rule shell_inv_shrink) (auto simp: mcount_filter_le shell_inv_def)

lemma pruneLocked_fields [simp]:
  "maxPerUser (pruneLocked now r) = maxPerUser r" "maxPerAgent (pruneLocked now r) = maxPerAgent r" "grace (pruneLocked now r) = grace r"
  by (simp_all add: pruneLocked_def Let_def)

lemma shellClose_inv: "shell_inv r \<Longrightarrow> shell_inv (shellClose sid r)"
  unfolding shellClose_def by (rule shell_inv_shrink) (auto simp: mcount_mdel_le shell_inv_def)

lemma mget_pruneLocked:
  "mwf (shells r) \<Longrightarrow> mget (shells (pruneLocked now r)) sid =
     (case mget (shells r) sid of None \<Rightarrow> None | Some s \<Rightarrow> if touchedAt s < now - grace r then None else Some s)"
  using mget_filter [of "shells r" "\<lambda>k s. \<not> touchedAt s < now - grace r" sid]
  by (auto simp: pruneLocked_def Let_def split: option.split)

lemma shellOpen_inv:
  assumes "shell_inv r"
  shows "shell_inv (snd (shellOpen now now2 sid homeID userID agentID r))"
proof -
  note p = pruneLocked_inv [OF assms, of now]
  let ?r = "pruneLocked now r" and ?s = "\<lparr>sh_homeID = homeID, sh_userID = userID, sh_agentID = agentID, touchedAt = now2\<rparr>"
  have "shell_inv (?r\<lparr>shells := mput sid ?s (shells ?r)\<rparr>)"
    if free: "mget (shells ?r) sid = None"
      and room: "int (user_count homeID userID ?r) < maxPerUser r" "int (agent_count homeID agentID ?r) < maxPerAgent r"
    using p room unfolding shell_inv_def user_count_def agent_count_def
    by (auto simp: mcount_mput_new [OF free])
  with p show ?thesis by (auto simp: shellOpen_def Let_def user_count_def agent_count_def)
qed

lemma authorize_inv:
  assumes "shell_inv r"
  shows "shell_inv (snd (authorize now now2 sid homeID userID agentID r))"
proof -
  note p = pruneLocked_inv [OF assms, of now]
  let ?r = "pruneLocked now r"
  have "shell_inv (?r\<lparr>shells := mput sid (s\<lparr>touchedAt := now2\<rparr>) (shells ?r)\<rparr>)" if "mget (shells ?r) sid = Some s" for s
    using p that unfolding shell_inv_def user_count_def agent_count_def
    by (auto simp: mcount_mput_same [OF _ that])
  with p show ?thesis by (auto simp: authorize_def Let_def split: option.split)
qed

lemma shell_step_inv: "shell_step r t \<Longrightarrow> shell_inv r \<Longrightarrow> shell_inv t"
  by (induction rule: shell_step.induct)
    (auto simp: shellComplete_def ownsTopic_def allowsAgentEvent_def Let_def
      intro: shellOpen_inv authorize_inv shellClose_inv pruneLocked_inv)

lemma shell_init_inv: "shell_init r \<Longrightarrow> shell_inv r"
  by (auto simp: shell_init_def shell_inv_def newShellSessionRegistry_def user_count_def agent_count_def mcount_def)

interpretation shell: invariant_system shell_init shell_step shell_inv
  by unfold_locales (auto intro: shell_init_inv shell_step_inv)

section \<open>Properties\<close>

text \<open>In every reachable registry no user and no agent of a home has more sessions than the
  configured limits, and a command on a session is authorised exactly for the user, home and agent
  that opened it and while it was touched within the grace period.\<close>

theorem shell_registry_safe:
  assumes "reachable shell_init shell_step r"
  shows "(\<forall>h u. int (user_count h u r) \<le> maxPerUser r) \<and> (\<forall>h a. int (agent_count h a r) \<le> maxPerAgent r)
    \<and> (\<forall>sid h u a now now2. fst (authorize now now2 sid h u a r) = Inr () \<longleftrightarrow>
         (\<exists>s. mget (shells r) sid = Some s \<and> sh_homeID s = h \<and> sh_userID s = u \<and> sh_agentID s = a
            \<and> now - grace r \<le> touchedAt s))"
proof -
  have inv: "shell_inv r" using assms by (rule shell.reachable_inv)
  then have wf: "mwf (shells r)" by (simp add: shell_inv_def)
  have "fst (authorize now now2 sid h u a r) = Inr () \<longleftrightarrow>
      (\<exists>s. mget (shells r) sid = Some s \<and> sh_homeID s = h \<and> sh_userID s = u \<and> sh_agentID s = a \<and> now - grace r \<le> touchedAt s)"
    for sid h u a now now2
    by (auto simp: authorize_def Let_def mget_pruneLocked [OF wf] split: option.split)
  then show ?thesis using inv by (simp add: shell_inv_def)
qed

definition sampleShells :: shellSessionRegistry where
  "sampleShells = snd (shellOpen 100 101 ''term_0001'' ''h1'' ''u1'' ''a1'' (newShellSessionRegistry 4 8 (minutes 5)))"

theorem shell_registry_safe_witness:
  "reachable shell_init shell_step sampleShells
   \<and> fst (authorize 200 201 ''term_0001'' ''h1'' ''u1'' ''a1'' sampleShells) = Inr ()
   \<and> fst (authorize 200 201 ''term_0001'' ''h1'' ''u2'' ''a1'' sampleShells) \<noteq> Inr ()"
proof -
  have "reachable shell_init shell_step (newShellSessionRegistry 4 8 (minutes 5))"
    unfolding shell_init_def by (rule reach_init) (intro exI conjI refl, simp_all)
  then have r: "reachable shell_init shell_step sampleShells"
    unfolding sampleShells_def by (rule reach_step) (rule shell_step.opened)
  have "mget (shells sampleShells) ''term_0001'' = Some \<lparr>sh_homeID = ''h1'', sh_userID = ''u1'', sh_agentID = ''a1'', touchedAt = 101\<rparr>"
      "grace sampleShells = minutes 5"
    by (simp_all add: sampleShells_def shellOpen_def newShellSessionRegistry_def pruneLocked_def mcount_def Let_def)
  with shell_registry_safe [OF r] r show ?thesis by simp
qed

end
