(* ===== verification/Sql_Rebind.thy ===== *)
theory Sql_Rebind
  imports Go_Text
begin

text \<open>
  The placeholder rewriting every statement of the store goes through, \<open>internal/store/sql_driver.go\<close>:
  \<open>?\<close> becomes \<open>$1\<close>, \<open>$2\<close>, ... outside of literals, quoted identifiers, comments and dollar-quoted text. The scanner
  walks over byte positions as the code does; its specification is a lexer on the rest of the query.
\<close>

section \<open>The scanner\<close>

definition sq :: char where "sq = CHR 0x27"
definition dq :: char where "dq = CHR 0x22"

text \<open>
  Every copying loop gives the bytes it writes and the position it returns. The loops of \<open>copySingleQuotedSQL\<close> and
  \<open>copyDelimitedSQL\<close> differ in the delimiter only.
\<close>

function copyDelimitedLoop :: "char \<Rightarrow> string \<Rightarrow> nat \<Rightarrow> string \<times> nat" where
  "copyDelimitedLoop d q i =
     (if i < length q
      then
        (if q ! i = d
         then (if i + 1 < length q \<and> q ! (i + 1) = d
               then (let (w, j) = copyDelimitedLoop d q (i + 2) in (q ! i # q ! (i + 1) # w, j))
               else ([q ! i], i))
         else (let (w, j) = copyDelimitedLoop d q (i + 1) in (q ! i # w, j)))
      else ([], length q - 1))"
  by pat_completeness auto
termination by (relation "measure (\<lambda>(d, q, i). length q - i)") auto

definition copySingleQuotedSQL :: "string \<Rightarrow> nat \<Rightarrow> string \<times> nat" where
  "copySingleQuotedSQL q start = (let (w, j) = copyDelimitedLoop sq q (start + 1) in (q ! start # w, j))"

definition copyDelimitedSQL :: "string \<Rightarrow> nat \<Rightarrow> char \<Rightarrow> string \<times> nat" where
  "copyDelimitedSQL q start d = (let (w, j) = copyDelimitedLoop d q (start + 1) in (q ! start # w, j))"

function copyLineCommentSQL :: "string \<Rightarrow> nat \<Rightarrow> string \<times> nat" where
  "copyLineCommentSQL q i =
     (if i < length q
      then (if q ! i = CHR 0x0A then ([q ! i], i) else (let (w, j) = copyLineCommentSQL q (i + 1) in (q ! i # w, j)))
      else ([], length q - 1))"
  by pat_completeness auto
termination by (relation "measure (\<lambda>(q, i). length q - i)") auto

function copyBlockLoop :: "string \<Rightarrow> nat \<Rightarrow> string \<times> nat" where
  "copyBlockLoop q i =
     (if i < length q
      then (if q ! i = CHR ''*'' \<and> i + 1 < length q \<and> q ! (i + 1) = CHR ''/'' then ([q ! i, q ! (i + 1)], i + 1)
            else (let (w, j) = copyBlockLoop q (i + 1) in (q ! i # w, j)))
      else ([], length q - 1))"
  by pat_completeness auto
termination by (relation "measure (\<lambda>(q, i). length q - i)") auto

definition copyBlockCommentSQL :: "string \<Rightarrow> nat \<Rightarrow> string \<times> nat" where
  "copyBlockCommentSQL q start = (let (w, j) = copyBlockLoop q (start + 2) in (''/*'' @ w, j))"

definition copyDollarQuotedSQL :: "string \<Rightarrow> nat \<Rightarrow> string \<Rightarrow> string \<times> nat" where
  "copyDollarQuotedSQL q start tag =
     (case stringsIndex (drop (start + length tag) q) tag of
        None \<Rightarrow> (tag @ drop (start + length tag) q, length q - 1)
      | Some off \<Rightarrow>
          let contentEnd = start + length tag + off in
          (tag @ take (contentEnd + length tag - (start + length tag)) (drop (start + length tag) q), contentEnd + length tag - 1))"

text \<open>\<open>rune(query[end])\<close> reads one byte as a rune, so letters are those of Latin-1.\<close>

definition latin1Letter :: "nat \<Rightarrow> bool" where
  "latin1Letter r \<longleftrightarrow> (65 \<le> r \<and> r \<le> 90) \<or> (97 \<le> r \<and> r \<le> 122) \<or> r = 170 \<or> r = 181 \<or> r = 186
     \<or> (192 \<le> r \<and> r \<le> 255 \<and> r \<noteq> 215 \<and> r \<noteq> 247)"

definition tagByte :: "char \<Rightarrow> bool" where
  "tagByte c \<longleftrightarrow> c = CHR ''_'' \<or> latin1Letter (of_char c) \<or> (48 \<le> (of_char c :: nat) \<and> (of_char c :: nat) \<le> 57)"

function dollarTagLoop :: "string \<Rightarrow> nat \<Rightarrow> nat \<Rightarrow> string option" where
  "dollarTagLoop q start end' =
     (if end' < length q \<and> q ! end' \<noteq> CHR ''$''
      then (if \<not> tagByte (q ! end') then None else dollarTagLoop q start (end' + 1))
      else if end' \<ge> length q \<or> q ! end' \<noteq> CHR ''$'' then None
      else Some (take (end' + 1 - start) (drop start q)))"
  by pat_completeness auto
termination by (relation "measure (\<lambda>(q, start, e). length q - e)") auto

definition sqlDollarQuoteTag :: "string \<Rightarrow> nat \<Rightarrow> string option" where
  "sqlDollarQuoteTag q start = dollarTagLoop q start (start + 1)"

declare copyDelimitedLoop.simps [simp del] copyLineCommentSQL.simps [simp del] copyBlockLoop.simps [simp del]
  dollarTagLoop.simps [simp del]

text \<open>The cases of the switch that copy a segment and continue after it.\<close>

definition copySegment :: "string \<Rightarrow> nat \<Rightarrow> (string \<times> nat) option" where
  "copySegment q i =
     (let c = q ! i in
      if c = sq then Some (copySingleQuotedSQL q i)
      else if c = dq then Some (copyDelimitedSQL q i dq)
      else if c = CHR ''-'' \<and> i + 1 < length q \<and> q ! (i + 1) = CHR ''-'' then Some (copyLineCommentSQL q i)
      else if c = CHR ''/'' \<and> i + 1 < length q \<and> q ! (i + 1) = CHR ''*'' then Some (copyBlockCommentSQL q i)
      else if c = CHR ''$'' then map_option (copyDollarQuotedSQL q i) (sqlDollarQuoteTag q i)
      else None)"

section \<open>The specification\<close>

text \<open>
  A lexer on the rest of the query. \<open>quotedRest\<close> is what remains of a quoted text after its opening
  delimiter, up to the closing one or the end; a doubled delimiter belongs to the text.
\<close>

fun quotedRest :: "char \<Rightarrow> string \<Rightarrow> string" where
  "quotedRest d [] = []"
| "quotedRest d [c] = [c]"
| "quotedRest d (c # c2 # cs) =
     (if c = d then (if c2 = d then c # c2 # quotedRest d cs else [c]) else c # quotedRest d (c2 # cs))"

fun lineRest :: "string \<Rightarrow> string" where
  "lineRest [] = []"
| "lineRest (c # cs) = (if c = CHR 0x0A then [c] else c # lineRest cs)"

fun blockRest :: "string \<Rightarrow> string" where
  "blockRest [] = []"
| "blockRest [c] = [c]"
| "blockRest (c # c2 # cs) = (if c = CHR ''*'' \<and> c2 = CHR ''/'' then [c, c2] else c # blockRest (c2 # cs))"

fun tagOf :: "string \<Rightarrow> string option" where
  "tagOf [] = None"
| "tagOf (c # cs) = (if c = CHR ''$'' then Some [c] else if tagByte c then map_option (Cons c) (tagOf cs) else None)"

definition dollarSegment :: "string \<Rightarrow> string \<Rightarrow> string" where
  "dollarSegment tag rest = tag @ (case stringsIndex rest tag of None \<Rightarrow> rest | Some off \<Rightarrow> take (off + length tag) rest)"

fun segment :: "string \<Rightarrow> string option" where
  "segment [] = None"
| "segment (c # cs) =
     (if c = sq then Some (c # quotedRest sq cs)
      else if c = dq then Some (c # quotedRest dq cs)
      else if c = CHR ''-'' \<and> cs \<noteq> [] \<and> hd cs = CHR ''-'' then Some (c # lineRest cs)
      else if c = CHR ''/'' \<and> cs \<noteq> [] \<and> hd cs = CHR ''*'' then Some (c # hd cs # blockRest (tl cs))
      else if c = CHR ''$''
      then (case tagOf cs of None \<Rightarrow> None | Some t \<Rightarrow> Some (dollarSegment (c # t) (drop (length t) cs)))
      else None)"

section \<open>The scanner follows the lexer\<close>

lemma drop_step: "i < length q \<Longrightarrow> drop i q = q ! i # drop (Suc i) q"
  by (simp add: Cons_nth_drop_Suc)

lemma copyDelimitedLoop_spec:
  "i \<le> length q \<Longrightarrow> copyDelimitedLoop d q i = (quotedRest d (drop i q), i + length (quotedRest d (drop i q)) - 1)"
proof (induction d q i rule: copyDelimitedLoop.induct)
  case (1 d q i)
  show ?case
  proof (cases "i + 1 < length q")
    case True
    then have "drop i q = q ! i # q ! (i + 1) # drop (i + 2) q" by (simp add: drop_step)
    with True 1 show ?thesis
      by (subst copyDelimitedLoop.simps) (auto simp: Let_def drop_step [of "Suc i"])
  next
    case False
    then consider "i = length q" | "i + 1 = length q" using 1(3) by linarith
    then show ?thesis
    proof cases
      case 1
      then show ?thesis by (subst copyDelimitedLoop.simps) simp
    next
      case 2
      then have "copyDelimitedLoop d q (i + 1) = ([], length q - 1)" by (subst copyDelimitedLoop.simps) simp
      with 2 show ?thesis by (subst copyDelimitedLoop.simps) (auto simp: drop_step [of i])
    qed
  qed
qed

lemma copyLine_spec:
  "i \<le> length q \<Longrightarrow> copyLineCommentSQL q i = (lineRest (drop i q), i + length (lineRest (drop i q)) - 1)"
proof (induction q i rule: copyLineCommentSQL.induct)
  case (1 q i)
  show ?case
  proof (cases "i < length q")
    case True
    then show ?thesis using 1 by (subst copyLineCommentSQL.simps) (auto simp: Let_def drop_step [of i])
  next
    case False
    then show ?thesis using 1(2) by (subst copyLineCommentSQL.simps) simp
  qed
qed

lemma copyBlockLoop_spec:
  "i \<le> length q \<Longrightarrow> copyBlockLoop q i = (blockRest (drop i q), i + length (blockRest (drop i q)) - 1)"
proof (induction q i rule: copyBlockLoop.induct)
  case (1 q i)
  show ?case
  proof (cases "i + 1 < length q")
    case True
    then have "drop i q = q ! i # q ! (i + 1) # drop (i + 2) q" by (simp add: drop_step)
    with True 1 show ?thesis
      by (subst copyBlockLoop.simps) (auto simp: Let_def drop_step [of "Suc i"])
  next
    case False
    then consider "i = length q" | "i + 1 = length q" using 1(2) by linarith
    then show ?thesis
    proof cases
      case 1
      then show ?thesis by (subst copyBlockLoop.simps) simp
    next
      case 2
      then have "copyBlockLoop q (i + 1) = ([], length q - 1)" by (subst copyBlockLoop.simps) simp
      with 2 show ?thesis by (subst copyBlockLoop.simps) (simp add: drop_step [of i])
    qed
  qed
qed

lemma dollarTagLoop_spec:
  "start < e \<Longrightarrow> e \<le> length q \<Longrightarrow>
     dollarTagLoop q start e = map_option (\<lambda>t. take (e - start) (drop start q) @ t) (tagOf (drop e q))"
proof (induction q start e rule: dollarTagLoop.induct)
  case (1 q start e)
  show ?case
  proof (cases "e < length q")
    case True
    have ext: "take (Suc e - start) (drop start q) = take (e - start) (drop start q) @ [q ! e]"
      using True 1(2) by (simp add: take_Suc_conv_app_nth Suc_diff_le)
    show ?thesis using True 1 ext
      by (subst dollarTagLoop.simps) (auto simp: drop_step [of e] option.map_comp comp_def)
  next
    case False
    then show ?thesis using 1(3) by (subst dollarTagLoop.simps) simp
  qed
qed

lemma tagOf_take: "tagOf s = Some t \<Longrightarrow> take (length t) s = t \<and> t \<noteq> []"
  by (induction s arbitrary: t) (auto split: if_splits)

lemma copyDollar_spec:
  assumes i: "i < length q" "q ! i = CHR ''$''"
  shows "map_option (copyDollarQuotedSQL q i) (sqlDollarQuoteTag q i)
    = map_option (\<lambda>w. (w, i + length w - 1))
        (case tagOf (drop (Suc i) q) of None \<Rightarrow> None
         | Some t \<Rightarrow> Some (dollarSegment (q ! i # t) (drop (length t) (drop (Suc i) q))))"
proof -
  have tag: "sqlDollarQuoteTag q i = map_option (Cons (CHR ''$'')) (tagOf (drop (i + 1) q))"
    using dollarTagLoop_spec [of i "i + 1" q] i by (simp add: sqlDollarQuoteTag_def drop_step [of i])
  show ?thesis
  proof (cases "tagOf (drop (i + 1) q)")
    case None
    then show ?thesis by (simp add: tag)
  next
    case (Some t)
    have "length t \<le> length (drop (i + 1) q)" using tagOf_take [OF Some] by (metis length_take min.cobounded1)
    then have len: "i + 1 + length t \<le> length q" using i by simp
    let ?rest = "drop (Suc (i + length t)) q"
    show ?thesis
    proof (cases "stringsIndex ?rest (CHR ''$'' # t)")
      case None
      then show ?thesis using Some len by (simp add: tag copyDollarQuotedSQL_def dollarSegment_def i(2) add.commute)
    next
      case (Some off)
      then show ?thesis using stringsIndex_bound [OF Some] \<open>tagOf (drop (i + 1) q) = Some t\<close> len
        by (simp add: tag copyDollarQuotedSQL_def dollarSegment_def Let_def i(2) add.commute add.left_commute)
    qed
  qed
qed

lemma copySegment_spec:
  assumes i: "i < length q"
  shows "copySegment q i = map_option (\<lambda>w. (w, i + length w - 1)) (segment (drop i q))"
proof -
  have next': "Suc i < length q \<longleftrightarrow> drop (Suc i) q \<noteq> []" "drop (Suc i) q \<noteq> [] \<Longrightarrow> hd (drop (Suc i) q) = q ! Suc i"
    by (auto simp: hd_drop_conv_nth)
  have line: "copyLineCommentSQL q i = (q ! i # lineRest (drop (Suc i) q), i + length (lineRest (drop (Suc i) q)))"
    if "q ! i = CHR ''-''" using copyLine_spec [of i q] i that by (simp add: drop_step [of i])
  have block: "copyBlockCommentSQL q i = (''/*'' @ blockRest (tl (drop (Suc i) q)), i + 1 + length (blockRest (tl (drop (Suc i) q))))"
    if "Suc i < length q" using copyBlockLoop_spec [of "i + 2" q] that
    by (simp add: copyBlockCommentSQL_def drop_step [of "Suc i"])
  show ?thesis
    unfolding drop_step [OF i] segment.simps copySegment_def Let_def
    using copyDollar_spec [OF i] i copyDelimitedLoop_spec [of "i + 1" q] line block next'
    by (auto simp: copySingleQuotedSQL_def copyDelimitedSQL_def simp del: drop_drop)
qed

section \<open>The loop\<close>

lemma copySegment_advances:
  assumes "i < length q" "copySegment q i = Some (w, j)"
  shows "i \<le> j"
proof -
  have "w \<noteq> []" if "segment s = Some w" for s w
    using that by (cases s) (auto simp: dollarSegment_def split: if_splits option.splits)
  then show ?thesis using assms copySegment_spec [OF assms(1)] by (cases w) auto
qed

text \<open>\<open>rebindPlaceholders\<close> from position \<open>i\<close> on, with the number of the next placeholder.\<close>

function rebindLoop :: "string \<Rightarrow> nat \<Rightarrow> nat \<Rightarrow> string" where
  "rebindLoop q i index =
     (if i < length q
      then
        (case copySegment q i of
           Some (w, j) \<Rightarrow> w @ rebindLoop q (j + 1) index
         | None \<Rightarrow>
             if q ! i = CHR ''?'' then ''$'' @ show_nat index @ rebindLoop q (i + 1) (index + 1)
             else q ! i # rebindLoop q (i + 1) index)
      else [])"
  by pat_completeness auto
termination
proof (relation "measure (\<lambda>(q, i, n). length q - i)")
  fix q i index x w j
  assume "i < length q" "copySegment q i = Some x" "(w, j) = x"
  then show "((q, j + 1, index), q, i, index) \<in> measure (\<lambda>(q, i, n). length q - i)"
    using copySegment_advances [of i q w j] by auto
qed auto

definition rebindPlaceholders :: "string \<Rightarrow> string" where
  "rebindPlaceholders q = (if CHR ''?'' \<notin> set q then q else rebindLoop q 0 1)"

text \<open>The specification: the query as tokens, printed with the placeholders numbered.\<close>

datatype sql_token = Verbatim string | Placeholder

lemma segment_take: "segment s = Some w \<Longrightarrow> take (length w) s = w \<and> w \<noteq> []"
proof -
  have q: "take (length (quotedRest d s)) s = quotedRest d s" for d s by (induction d s rule: quotedRest.induct) auto
  have l: "take (length (lineRest s)) s = lineRest s" for s by (induction s) auto
  have b: "take (length (blockRest s)) s = blockRest s" for s by (induction s rule: blockRest.induct) auto
  have d: "take (length (dollarSegment (c # t) (drop (length t) cs))) (c # cs) = dollarSegment (c # t) (drop (length t) cs)"
    if "tagOf cs = Some t" for c t cs
  proof -
    have "cs = t @ drop (length t) cs" using tagOf_take [OF that] by (metis append_take_drop_id)
    then obtain rest where cs: "cs = t @ rest" by blast
    show ?thesis by (auto simp: dollarSegment_def cs min_def split: option.split)
  qed
  have n: "dollarSegment (c # t) r \<noteq> []" for c t r by (simp add: dollarSegment_def)
  assume w: "segment s = Some w"
  then obtain c cs where s: "s = c # cs" by (cases s) auto
  show "take (length w) s = w \<and> w \<noteq> []"
    using w q [of _ cs] l [of cs] b [of "tl cs"] d [of cs _ c] n
    unfolding s by (cases cs) (auto split: if_splits option.splits)
qed

function lexSql :: "string \<Rightarrow> sql_token list" where
  "lexSql s =
     (case s of
        [] \<Rightarrow> []
      | c # cs \<Rightarrow>
          (case segment s of
             Some w \<Rightarrow> Verbatim w # lexSql (drop (length w) s)
           | None \<Rightarrow> (if c = CHR ''?'' then Placeholder else Verbatim [c]) # lexSql cs))"
  by pat_completeness auto
termination
proof (relation "measure length")
  fix s c cs w
  assume "s = c # cs" "segment s = Some w"
  then show "(drop (length w) s, s) \<in> measure length" using segment_take [of s w] by (cases w) auto
qed auto

fun tokenText :: "sql_token \<Rightarrow> string" where
  "tokenText (Verbatim w) = w"
| "tokenText Placeholder = ''?''"

fun printNumbered :: "nat \<Rightarrow> sql_token list \<Rightarrow> string" where
  "printNumbered n [] = []"
| "printNumbered n (Verbatim w # ts) = w @ printNumbered n ts"
| "printNumbered n (Placeholder # ts) = ''$'' @ show_nat n @ printNumbered (n + 1) ts"

declare rebindLoop.simps [simp del] lexSql.simps [simp del]

lemma lexSql_Nil [simp]: "lexSql [] = []"
  by (simp add: lexSql.simps)

lemma lexSql_plain:
  "segment (c # cs) = None \<Longrightarrow> lexSql (c # cs) = (if c = CHR ''?'' then Placeholder else Verbatim [c]) # lexSql cs"
  by (simp add: lexSql.simps [of "c # cs"])

lemma lexSql_segment: "segment (c # cs) = Some w \<Longrightarrow> lexSql (c # cs) = Verbatim w # lexSql (drop (length w) (c # cs))"
  by (simp add: lexSql.simps [of "c # cs"])

declare segment.simps [simp del]

lemma lexSql_text: "concat (map tokenText (lexSql s)) = s"
proof (induction s rule: lexSql.induct)
  case (1 s)
  show ?case
  proof (cases s)
    case Nil
    then show ?thesis by (simp add: lexSql.simps [of s])
  next
    case (Cons c cs)
    show ?thesis
    proof (cases "segment s")
      case None
      then show ?thesis using 1(1) [OF Cons None] Cons by (simp add: lexSql_plain)
    next
      case (Some w)
      have "w @ drop (length w) s = s" using segment_take [OF Some] by (metis append_take_drop_id)
      then show ?thesis using 1(2) [OF Cons Some] Cons Some by (simp add: lexSql_segment)
    qed
  qed
qed

lemma rebindLoop_spec: "i \<le> length q \<Longrightarrow> rebindLoop q i n = printNumbered n (lexSql (drop i q))"
proof (induction q i n rule: rebindLoop.induct)
  case (1 q i n)
  show ?case
  proof (cases "i < length q")
    case False
    then show ?thesis by (simp add: rebindLoop.simps [of q i] lexSql.simps [of "drop i q"])
  next
    case True
    note step = copySegment_spec [OF True]
    show ?thesis
    proof (cases "segment (drop i q)")
      case None
      then have "copySegment q i = None" "segment (q ! i # drop (Suc i) q) = None" using step by (simp_all add: drop_step [OF True])
      then show ?thesis using True "1.IH"
        by (simp add: rebindLoop.simps [of q i] lexSql_plain drop_step [OF True])
    next
      case (Some w)
      note w = segment_take [OF Some]
      have "length w \<le> length (drop i q)" using w by (metis length_take min.cobounded1)
      moreover have "0 < length w" using w by simp
      ultimately have "i + length w - 1 + 1 = i + length w" "i + length w \<le> length q" using True by auto
      moreover have "drop (length w) (drop i q) = drop (i + length w) q" by (simp add: add.commute)
      moreover have "lexSql (drop i q) = Verbatim w # lexSql (drop (length w) (drop i q))"
        using lexSql_segment Some by (simp add: drop_step [OF True] del: drop_drop)
      moreover have "copySegment q i = Some (w, i + length w - 1)" using step Some by simp
      moreover from this have "rebindLoop q (i + length w - 1 + 1) n = printNumbered n (lexSql (drop (i + length w - 1 + 1) q))"
        by (rule "1.IH"(3) [OF True _ refl]) (use calculation in simp)
      ultimately show ?thesis using True by (simp add: rebindLoop.simps [of q i])
    qed
  qed
qed

lemma printNumbered_plain: "Placeholder \<notin> set ts \<Longrightarrow> printNumbered n ts = concat (map tokenText ts)"
  by (induction n ts rule: printNumbered.induct) auto

text \<open>C33: rebinding a statement for PostgreSQL keeps every byte of it but the placeholders: the statement is a
  sequence of tokens whose texts are the statement itself, literals, quoted identifiers, comments and
  dollar-quoted texts each being one token, and the result is these tokens with the placeholders outside
  of them printed as \<open>$1\<close>, \<open>$2\<close>, ... in order. In particular the position scanner always ends.\<close>

theorem rebind_numbers_placeholders:
  "rebindPlaceholders q = printNumbered 1 (lexSql q) \<and> concat (map tokenText (lexSql q)) = q"
proof -
  have "Placeholder \<notin> set (lexSql q)" if "CHR ''?'' \<notin> set q"
  proof
    assume "Placeholder \<in> set (lexSql q)"
    then have "CHR ''?'' \<in> set (concat (map tokenText (lexSql q)))" by force
    with that show False by (simp add: lexSql_text)
  qed
  then show ?thesis
    using rebindLoop_spec [of 0 q 1] printNumbered_plain [of "lexSql q" 1]
    by (auto simp: rebindPlaceholders_def lexSql_text)
qed

end
