(* ===== verification/File_Policy.thy ===== *)
theory File_Policy
  imports Go_Text "HOL-Library.Sublist"
begin

text \<open>
  The file source policy of a home, \<open>internal/cloud/file_policy.go\<close>: which checks a file command needs, how large
  its upload is, and which paths the policy admits. Decoding JSON is an argument, as is the lookup of
  the stored profile. \<open>filepath.Clean\<close> is modelled for rooted paths on Unix, where it resolves \<open>.\<close>, \<open>..\<close> and repeated
  slashes component by component.
\<close>

section \<open>Paths\<close>

abbreviation "slash \<equiv> CHR 0x2F"

fun splitSlash :: "string \<Rightarrow> string list" where
  "splitSlash [] = [[]]"
| "splitSlash (c # cs) =
     (if c = slash then [] # splitSlash cs
      else (case splitSlash cs of [] \<Rightarrow> [[c]] | w # ws \<Rightarrow> (c # w) # ws))"

text \<open>The components of a cleaned rooted path; \<open>..\<close> at the root stays at the root.\<close>

fun cleanComponents :: "string list \<Rightarrow> string list \<Rightarrow> string list" where
  "cleanComponents acc [] = rev acc"
| "cleanComponents acc (w # ws) =
     (if w = [] \<or> w = ''.'' then cleanComponents acc ws
      else if w = ''..'' then cleanComponents (tl acc) ws
      else cleanComponents (w # acc) ws)"

definition rooted :: "string list \<Rightarrow> string" where
  "rooted ws = concat (map (Cons slash) ws)"

definition filepathClean :: "string \<Rightarrow> string" where
  "filepathClean s = (let ws = cleanComponents [] (splitSlash s) in if ws = [] then [slash] else rooted ws)"

definition trimSuffix :: "string \<Rightarrow> string \<Rightarrow> string" where
  "trimSuffix s suf = (if suffix suf s then take (length s - length suf) s else s)"

definition cleanPolicyPath :: "string \<Rightarrow> string" where
  "cleanPolicyPath value = trimSuffix (filepathClean (slash # trimSpace value)) [slash]"

definition pathHasPolicyPrefix :: "string \<Rightarrow> string \<Rightarrow> bool" where
  "pathHasPolicyPrefix path pre =
     (let p = cleanPolicyPath pre in path = p \<or> prefix (p @ [slash]) path)"

section \<open>The policy\<close>

record fileAccessPolicy =
  po_Read :: "bool option"
  po_Write :: "bool option"
  po_Delete :: "bool option"
  AllowedPrefixes :: "string list"
  BlockedPrefixes :: "string list"
  MaxUploadBytes :: int

definition deny :: "string \<Rightarrow> unit result" where
  "deny what = Inl (ErrMsg (''file source policy '' @ what))"

definition allow :: "fileAccessPolicy \<Rightarrow> string \<Rightarrow> string \<Rightarrow> unit result" where
  "allow p action rawPath =
     (if action = ''read'' \<and> po_Read p = Some False then deny ''denies read''
      else if action = ''write'' \<and> po_Write p = Some False then deny ''denies write''
      else if action = ''delete'' \<and> po_Delete p = Some False then deny ''denies delete''
      else
        let path = cleanPolicyPath rawPath in
        if list_ex (pathHasPolicyPrefix path) (BlockedPrefixes p) then deny ''blocks this path''
        else if AllowedPrefixes p \<noteq> []
        then (if list_ex (pathHasPolicyPrefix path) (AllowedPrefixes p) then Inr () else deny ''does not allow this path'')
        else Inr ())"

text \<open>
  \<open>json.Unmarshal\<close> into the wrapper and into the policy: whether it reports an error, and the value it
  leaves, which keeps the fields decoded before an error.
\<close>

record policy_json =
  unmarshalWrapper :: "string \<Rightarrow> bool \<times> fileAccessPolicy"
  unmarshalPolicy :: "string \<Rightarrow> fileAccessPolicy"

definition parseFileAccessPolicy :: "policy_json \<Rightarrow> string \<Rightarrow> fileAccessPolicy" where
  "parseFileAccessPolicy json raw =
     (case unmarshalWrapper json raw of
        (ok, p) \<Rightarrow>
          if ok \<and> (po_Read p \<noteq> None \<or> po_Write p \<noteq> None \<or> po_Delete p \<noteq> None \<or> AllowedPrefixes p \<noteq> [] \<or> BlockedPrefixes p \<noteq> [])
          then p else unmarshalPolicy json raw)"

section \<open>Commands\<close>

record filePolicyCheck =
  ck_action :: string
  ck_path :: string

text \<open>The fields \<open>json.Unmarshal\<close> leaves in the request of a command; a field that is missing or malformed is empty.\<close>

record file_request =
  fr_Path :: string
  fr_From :: string
  fr_To :: string
  fr_ContentBase64 :: string

function dropPadding :: "nat \<Rightarrow> string \<Rightarrow> nat" where
  "dropPadding sz value =
     (if suffix ''='' value \<and> sz > 0 then dropPadding (sz - 1) (trimSuffix value ''='') else sz)"
  by pat_completeness auto
termination by (relation "measure fst") auto

definition decodedBase64Size :: "string \<Rightarrow> nat" where
  "decodedBase64Size value0 =
     (let value = trimSpace value0 in
      if value = [] then 0 else dropPadding (length value div 4 * 3) value)"

definition checkOf :: "string \<Rightarrow> string \<Rightarrow> filePolicyCheck" where
  "checkOf action path = \<lparr>ck_action = action, ck_path = path\<rparr>"

definition fileCommandPolicyChecks :: "(string \<Rightarrow> file_request) \<Rightarrow> string \<Rightarrow> string \<Rightarrow> filePolicyCheck list \<times> nat" where
  "fileCommandPolicyChecks decode command body =
     (let rq = decode body in
      if command \<in> {''files.list'', ''files.stat'', ''files.download'', ''files.search''} then ([checkOf ''read'' (fr_Path rq)], 0)
      else if command \<in> {''files.upload'', ''files.create_directory''}
      then ([checkOf ''write'' (fr_Path rq)], decodedBase64Size (fr_ContentBase64 rq))
      else if command = ''files.rename'' then ([checkOf ''write'' (fr_From rq), checkOf ''write'' (fr_To rq)], 0)
      else if command = ''files.move'' then ([checkOf ''delete'' (fr_From rq), checkOf ''write'' (fr_To rq)], 0)
      else if command = ''files.move_rollback'' then ([checkOf ''delete'' (fr_To rq)], 0)
      else if command = ''files.delete'' then ([checkOf ''delete'' (fr_Path rq)], 0)
      else ([], 0))"

fun allowAllChecks :: "fileAccessPolicy \<Rightarrow> filePolicyCheck list \<Rightarrow> unit result" where
  "allowAllChecks p [] = Inr ()"
| "allowAllChecks p (c # cs) = bindR (allow p (ck_action c) (ck_path c)) (\<lambda>_. allowAllChecks p cs)"

text \<open>\<open>profile\<close> is the outcome of \<open>GetHomeServiceProfile\<close>: the stored configuration or an error.\<close>

definition authorizeFileCommandPolicy ::
    "policy_json \<Rightarrow> (string \<Rightarrow> file_request) \<Rightarrow> string result \<Rightarrow> string \<Rightarrow> string \<Rightarrow> unit result" where
  "authorizeFileCommandPolicy json decode profile command body =
     (case fileCommandPolicyChecks decode command body of
        (checks, uploadBytes) \<Rightarrow>
          if checks = [] then Inr ()
          else
            (case profile of
               Inl e \<Rightarrow> if isNotFound e then Inr () else Inl e
             | Inr config \<Rightarrow>
                 let policy = parseFileAccessPolicy json config in
                 if uploadBytes > 0 \<and> MaxUploadBytes policy > 0 \<and> int uploadBytes > MaxUploadBytes policy
                 then deny ''upload size limit exceeded''
                 else allowAllChecks policy checks))"

definition maxFileUploadBytes :: "policy_json \<Rightarrow> string result \<Rightarrow> int result" where
  "maxFileUploadBytes json profile =
     (case profile of
        Inl e \<Rightarrow> if isNotFound e then Inr 0 else Inl e
      | Inr config \<Rightarrow> Inr (MaxUploadBytes (parseFileAccessPolicy json config)))"

section \<open>Prefixes are prefixes of components\<close>

definition components :: "string \<Rightarrow> string list" where
  "components value = cleanComponents [] (splitSlash (slash # trimSpace value))"

definition component :: "string \<Rightarrow> bool" where
  "component w \<longleftrightarrow> w \<noteq> [] \<and> slash \<notin> set w \<and> w \<noteq> ''.'' \<and> w \<noteq> ''..''"

lemma splitSlash_no_slash: "w \<in> set (splitSlash s) \<Longrightarrow> slash \<notin> set w"
  by (induction s arbitrary: w) (auto split: if_splits list.splits)

lemma cleanComponents_ok:
  "list_all (\<lambda>w. slash \<notin> set w) ws \<Longrightarrow> list_all component acc \<Longrightarrow> list_all component (cleanComponents acc ws)"
proof (induction acc ws rule: cleanComponents.induct)
  case (2 acc w ws)
  have tl: "list_all component (tl acc)" using 2(5) by (cases acc) auto
  have w: "w \<noteq> [] \<Longrightarrow> w \<noteq> ''.'' \<Longrightarrow> w \<noteq> ''..'' \<Longrightarrow> component w" using 2(4) by (simp add: component_def)
  show ?case using 2 tl w by simp
qed (simp add: list_all_iff)

lemma components_ok: "list_all component (components value)"
  unfolding components_def by (rule cleanComponents_ok) (auto simp: list_all_iff dest: splitSlash_no_slash)

lemma rooted_simps [simp]: "rooted [] = []" "rooted (w # ws) = slash # w @ rooted ws" "rooted (us @ ws) = rooted us @ rooted ws"
  by (simp_all add: rooted_def)

lemma cleanPolicyPath_rooted: "cleanPolicyPath value = rooted (components value)"
proof (cases "components value" rule: rev_cases)
  case Nil
  then show ?thesis by (simp add: cleanPolicyPath_def filepathClean_def components_def trimSuffix_def)
next
  case (snoc ws w)
  then have w: "component w" using components_ok [of "value"] by (simp add: list_all_iff)
  then have "last w \<noteq> slash" using last_in_set by (metis component_def)
  then have "rooted (components value) \<noteq> []" "last (rooted (components value)) \<noteq> slash"
    using snoc w by (auto simp: component_def)
  moreover have "last (u @ [slash]) = slash" for u by simp
  ultimately have "\<not> suffix [slash] (rooted (components value))" unfolding suffix_def by metis
  with snoc show ?thesis by (simp add: cleanPolicyPath_def filepathClean_def components_def trimSuffix_def Let_def)
qed

lemma first_component:
  assumes "slash \<notin> set w" "slash \<notin> set v" "w @ x = v @ y" "x = [] \<or> hd x = slash" "y = [] \<or> hd y = slash"
  shows "w = v \<and> x = y"
proof -
  have "takeWhile (\<lambda>c. c \<noteq> slash) (u @ z) = u" if "slash \<notin> set u" "z = [] \<or> hd z = slash" for u z
    using that by (induction u) (cases z; auto)+
  from this [of w x] this [of v y] assms show ?thesis by simp
qed

lemma rooted_hd: "rooted ws = [] \<or> hd (rooted ws) = slash"
  by (cases ws) simp_all

lemma rooted_prefix:
  assumes "list_all component ws" "list_all component vs" "rooted ws @ t = rooted vs" "t = [] \<or> hd t = slash"
  shows "prefix ws vs"
  using assms
proof (induction ws arbitrary: vs)
  case (Cons w ws)
  then obtain v vs' where vs: "vs = v # vs'" by (cases vs) auto
  have eq: "w @ (rooted ws @ t) = v @ rooted vs'" using Cons.prems(3) by (simp add: vs)
  have "w = v \<and> rooted ws @ t = rooted vs'"
  proof (rule first_component [OF _ _ eq])
    show "rooted ws @ t = [] \<or> hd (rooted ws @ t) = slash" using rooted_hd [of ws] Cons.prems(4) by (cases ws) auto
  qed (use Cons.prems rooted_hd vs in \<open>auto simp: component_def\<close>)
  then show ?case using Cons.IH [of vs'] Cons.prems by (simp add: vs)
qed simp

lemma policy_prefix_components:
  "pathHasPolicyPrefix (cleanPolicyPath value) pre \<longleftrightarrow> prefix (components pre) (components value)"
proof
  assume "pathHasPolicyPrefix (cleanPolicyPath value) pre"
  then obtain t where "rooted (components pre) @ t = rooted (components value)" "t = [] \<or> hd t = slash"
    unfolding pathHasPolicyPrefix_def cleanPolicyPath_rooted Let_def prefix_def
    by (metis append.assoc append.right_neutral append_Cons append_Nil list.sel(1))
  then show "prefix (components pre) (components value)" by (rule rooted_prefix [OF components_ok components_ok])
next
  assume "prefix (components pre) (components value)"
  then obtain us where us: "components value = components pre @ us" by (auto simp: prefix_def)
  then show "pathHasPolicyPrefix (cleanPolicyPath value) pre"
    by (cases us) (auto simp: pathHasPolicyPrefix_def cleanPolicyPath_rooted prefix_def)
qed

section \<open>Properties\<close>

text \<open>What a policy permits, on the components of the cleaned path.\<close>

definition permits :: "fileAccessPolicy \<Rightarrow> string \<Rightarrow> string list \<Rightarrow> bool" where
  "permits p action ws \<longleftrightarrow>
     (action = ''read'' \<longrightarrow> po_Read p \<noteq> Some False) \<and> (action = ''write'' \<longrightarrow> po_Write p \<noteq> Some False)
     \<and> (action = ''delete'' \<longrightarrow> po_Delete p \<noteq> Some False)
     \<and> list_all (\<lambda>b. \<not> prefix (components b) ws) (BlockedPrefixes p)
     \<and> (AllowedPrefixes p = [] \<or> list_ex (\<lambda>a. prefix (components a) ws) (AllowedPrefixes p))"

lemma allow_iff: "allow p action path = Inr u \<longleftrightarrow> permits p action (components path)"
  by (auto simp: allow_def permits_def deny_def Let_def policy_prefix_components list_ex_iff list_all_iff)

lemma allowAllChecks_iff:
  "allowAllChecks p cs = Inr u \<longleftrightarrow> list_all (\<lambda>c. permits p (ck_action c) (components (ck_path c))) cs"
  by (induction cs) (auto simp: bindR_Inr_iff allow_iff)


text \<open>
  A wrapped policy that sets only an upload limit is not recognised as a policy: the limit is ignored
  and the configuration is decoded without the wrapper.
\<close>

theorem wrapped_upload_limit_ignored:
  assumes "unmarshalWrapper json raw
    = (True, \<lparr>po_Read = None, po_Write = None, po_Delete = None, AllowedPrefixes = [], BlockedPrefixes = [], MaxUploadBytes = n\<rparr>)"
  shows "parseFileAccessPolicy json raw = unmarshalPolicy json raw"
  using assms by (simp add: parseFileAccessPolicy_def)

section \<open>A concrete policy\<close>

definition samplePolicy :: fileAccessPolicy where
  "samplePolicy = \<lparr>po_Read = Some True, po_Write = None, po_Delete = Some False, AllowedPrefixes = [''/Media''],
     BlockedPrefixes = [''Media/private''], MaxUploadBytes = 4\<rparr>"

definition samplePolicyJson :: policy_json where
  "samplePolicyJson = \<lparr>unmarshalWrapper = (\<lambda>_. (True, samplePolicy)), unmarshalPolicy = (\<lambda>_. samplePolicy)\<rparr>"

definition sampleRequest :: "string \<Rightarrow> file_request" where
  "sampleRequest body = \<lparr>fr_Path = body, fr_From = [], fr_To = [], fr_ContentBase64 = []\<rparr>"

lemma sample_components:
  "components ''/Media/./films//a'' = [''Media'', ''films'', ''a'']" "components ''/Media/../etc'' = [''etc'']"
  "components ''/Media'' = [''Media'']" "components ''Media/private'' = [''Media'', ''private'']" "components ''/Media2'' = [''Media2'']"
  by (simp_all add: components_def literal_simps)


end
