(* ===== verification/Note_Text.thy ===== *)
theory Note_Text
  imports Go_Text "HOL-Library.List_Lexorder" "HOL-Library.Char_ord"
begin

text \<open>
  The text functions of the notes (\<open>internal/cloud/note_collaboration.go\<close>, \<open>notes_store.go\<close>): edits of a note's
  content by rune positions, page types, titles, previews and note ids. Contents are Go strings, that is bytes; the edits go
  through \<open>[]rune\<close> and back, so the UTF-8 encoder is modelled next to the decoder of \<open>Go_Text\<close>. \<open>int\<close> is 64 bits wide
  and its sum in \<open>deleteAt\<close> wraps around.
\<close>

section \<open>UTF-8 encoding\<close>

definition valid_rune :: "nat \<Rightarrow> bool" where
  "valid_rune r \<longleftrightarrow> r < 55296 \<or> (57344 \<le> r \<and> r \<le> 1114111)"

text \<open>\<open>utf8.AppendRune\<close>: a surrogate or a value above U+10FFFF is written as U+FFFD.\<close>

definition encode_rune :: "nat \<Rightarrow> nat list" where
  "encode_rune r =
     (if r < 128 then [r]
      else if r < 2048 then [192 + r div 64, 128 + r mod 64]
      else if \<not> valid_rune r then [239, 191, 189]
      else if r < 65536 then [224 + r div 4096, 128 + r div 64 mod 64, 128 + r mod 64]
      else [240 + r div 262144, 128 + r div 4096 mod 64, 128 + r div 64 mod 64, 128 + r mod 64])"

definition string_of_runes :: "nat list \<Rightarrow> string" where
  "string_of_runes rs = map char_of (concat (map encode_rune rs))"

text \<open>The Go strings that are valid UTF-8; every string decoded from JSON is one.\<close>

definition valid_utf8 :: "string \<Rightarrow> bool" where
  "valid_utf8 s \<longleftrightarrow> string_of_runes (runes s) = s"

lemma string_of_runes_Nil [simp]: "string_of_runes [] = []"
  by (simp add: string_of_runes_def)

lemma string_of_runes_append: "string_of_runes (rs @ qs) = string_of_runes rs @ string_of_runes qs"
  by (simp add: string_of_runes_def)

lemma runes_Nil [simp]: "runes [] = []"
  by (simp add: runes_def runes_of.simps)

lemma encode_rune_nonempty [simp]: "encode_rune r \<noteq> []"
  by (simp add: encode_rune_def)

lemma encode_rune_bytes: "b \<in> set (encode_rune r) \<Longrightarrow> b < 256"
proof -
  assume b: "b \<in> set (encode_rune r)"
  have digit: "128 + x mod 64 < (256 :: nat)" for x :: nat
    using mod_less_divisor [of 64 x] by linarith
  have head: "192 + r div 64 < 256" if "r < 2048" using that by (simp add: div_less_iff_less_mult)
  have head3: "224 + r div 4096 < 256" if "r < 65536" using that by (simp add: div_less_iff_less_mult)
  have head4: "240 + r div 262144 < 256" if "valid_rune r"
    using that by (auto simp: valid_rune_def div_less_iff_less_mult)
  show ?thesis using b head head3 head4 by (auto simp: encode_rune_def digit split: if_splits)
qed

text \<open>The three arithmetic facts behind decoding: the digits of a rune in base 64 rebuild it.\<close>

lemma base64_two: "(192 + r div 64 - 192) * 64 + (128 + r mod 64 - 128) = (r :: nat)"
  by simp

lemma base64_three: "(224 + r div 4096 - 224) * 4096 + (128 + r div 64 mod 64 - 128) * 64 + (128 + r mod 64 - 128) = (r :: nat)"
proof -
  define q where "q = r div 64"
  have "r div 4096 = q div 64" by (simp add: q_def div_mult2_eq [of r 64 64, simplified])
  moreover have "r = 64 * q + r mod 64" by (simp add: q_def)
  moreover have "q = 64 * (q div 64) + q mod 64" by simp
  ultimately show ?thesis unfolding q_def [symmetric] by linarith
qed

lemma four_digits: "r = 64 * q + c \<Longrightarrow> q = 64 * p + d \<Longrightarrow> p = 64 * a + b \<Longrightarrow> a * 262144 + b * 4096 + d * 64 + c = (r :: nat)"
  by simp

lemma base64_four: "(240 + r div 262144 - 240) * 262144 + (128 + r div 4096 mod 64 - 128) * 4096
    + (128 + r div 64 mod 64 - 128) * 64 + (128 + r mod 64 - 128) = (r :: nat)"
proof -
  have p: "r div 4096 = r div 64 div 64" by (simp add: div_mult2_eq [of r 64 64, simplified])
  have a: "r div 262144 = r div 4096 div 64" by (simp add: div_mult2_eq [of r 4096 64, simplified])
  show ?thesis unfolding add_diff_cancel_left'
    by (rule four_digits [of r "r div 64" _ "r div 4096"]) (simp_all add: p a)
qed

lemma second_ok_three: "(x = 0 \<Longrightarrow> 32 \<le> d) \<Longrightarrow> (x = 13 \<Longrightarrow> d \<le> 31) \<Longrightarrow> x < 16 \<Longrightarrow> d < 64 \<Longrightarrow> second_ok (224 + x) (128 + d)"
  by (auto simp: second_ok_def cont_def)

lemma second_ok_four: "(x = 0 \<Longrightarrow> 16 \<le> d) \<Longrightarrow> (x = 4 \<Longrightarrow> d \<le> 15) \<Longrightarrow> x \<le> 4 \<Longrightarrow> d < 64 \<Longrightarrow> second_ok (240 + x) (128 + d)"
  by (auto simp: second_ok_def cont_def)

lemma decode_encode_rune: "valid_rune r \<Longrightarrow> decode_rune (encode_rune r @ bs) = (r, length (encode_rune r))"
proof -
  assume v: "valid_rune r"
  consider (one) "r < 128" | (two) "128 \<le> r" "r < 2048" | (three) "2048 \<le> r" "r < 65536" | (four) "65536 \<le> r" by linarith
  then show ?thesis
  proof cases
    case one
    then show ?thesis by (simp add: encode_rune_def)
  next
    case two
    then have "2 \<le> r div 64" "r div 64 < 32" by simp_all
    moreover have "cont (128 + r mod 64)" by (simp add: cont_def less_Suc_eq_le [symmetric])
    ultimately show ?thesis using two by (simp add: encode_rune_def base64_two [simplified])
  next
    case three
    then have lo: "r div 4096 < 16" by simp
    have "cont (128 + r mod 64)" "cont (128 + r div 64 mod 64)" by (simp_all add: cont_def less_Suc_eq_le [symmetric])
    moreover have "second_ok (224 + r div 4096) (128 + r div 64 mod 64)"
    proof -
      have "r div 4096 = r div 64 div 64" by (simp add: div_mult2_eq [of r 64 64, simplified])
      then have e: "r div 64 = 64 * (r div 4096) + r div 64 mod 64" by simp
      have "32 \<le> r div 64 mod 64" if "r div 4096 = 0" using e that three(1) by simp
      moreover have "r div 64 mod 64 \<le> 31" if "r div 4096 = 13"
      proof -
        have "r < 57344" using that by simp
        then have "r < 55296" using v by (simp add: valid_rune_def)
        then have "r div 64 < 864" by simp
        then show ?thesis using e that by simp
      qed
      ultimately show ?thesis using lo by (intro second_ok_three) simp_all
    qed
    ultimately show ?thesis using three lo v by (simp add: encode_rune_def base64_three [simplified])
  next
    case four
    then have r: "r \<le> 1114111" using v by (simp add: valid_rune_def)
    then have lo: "r div 262144 \<le> 4" by simp
    have "cont (128 + r mod 64)" "cont (128 + r div 64 mod 64)" "cont (128 + r div 4096 mod 64)"
      by (simp_all add: cont_def less_Suc_eq_le [symmetric])
    moreover have "second_ok (240 + r div 262144) (128 + r div 4096 mod 64)"
    proof -
      have "r div 262144 = r div 4096 div 64" by (simp add: div_mult2_eq [of r 4096 64, simplified])
      then have e: "r div 4096 = 64 * (r div 262144) + r div 4096 mod 64" by simp
      have "16 \<le> r div 4096 mod 64" if "r div 262144 = 0" using e that four by simp
      moreover have "r div 4096 mod 64 \<le> 15" if "r div 262144 = 4"
      proof -
        have "r div 4096 \<le> 271" using r by simp
        then show ?thesis using e that by simp
      qed
      ultimately show ?thesis using lo by (intro second_ok_four) simp_all
    qed
    ultimately show ?thesis using four r lo v by (simp add: encode_rune_def base64_four [simplified])
  qed
qed

lemma runes_of_encode: "list_all valid_rune rs \<Longrightarrow> runes_of (concat (map encode_rune rs)) = rs"
proof (induction rs)
  case Nil
  show ?case by (simp add: runes_of.simps)
next
  case (Cons r rs)
  then show ?case by (subst runes_of.simps) (simp add: decode_encode_rune)
qed

lemma runes_string_of_runes [simp]: "list_all valid_rune rs \<Longrightarrow> runes (string_of_runes rs) = rs"
proof -
  assume v: "list_all valid_rune rs"
  have "map (of_char \<circ> (char_of :: nat \<Rightarrow> char)) bs = bs" if "\<forall>b \<in> set bs. b < 256" for bs
    using that by (induction bs) (simp_all add: of_char_of)
  moreover have "\<forall>b \<in> set (concat (map encode_rune rs)). b < 256" using encode_rune_bytes by auto
  ultimately have "map (of_char \<circ> (char_of :: nat \<Rightarrow> char)) (concat (map encode_rune rs)) = concat (map encode_rune rs)" by blast
  then show ?thesis using runes_of_encode [OF v] unfolding runes_def string_of_runes_def map_map by simp
qed


text \<open>Decoding yields valid runes only, so decoding an encoded decoding changes nothing.\<close>

lemma second_ok_bounds:
  "second_ok b0 b1 \<Longrightarrow> 128 \<le> b1 \<and> b1 \<le> 191" "second_ok 224 b1 \<Longrightarrow> 160 \<le> b1" "second_ok 237 b1 \<Longrightarrow> b1 \<le> 159"
  "second_ok 240 b1 \<Longrightarrow> 144 \<le> b1" "second_ok 244 b1 \<Longrightarrow> b1 \<le> 143"
  by (auto simp: second_ok_def cont_def split: if_splits)

lemma three_bytes_valid:
  assumes "224 \<le> b0" "b0 \<le> 239" "second_ok b0 b1" "cont b2"
  shows "valid_rune ((b0 - 224) * 4096 + (b1 - 128) * 64 + (b2 - 128))"
proof -
  have b: "128 \<le> b1" "b1 \<le> 191" "128 \<le> b2" "b2 \<le> 191"
    using assms second_ok_bounds(1) [OF assms(3)] by (simp_all add: cont_def)
  have "b1 \<le> 159" if "b0 = 237" using second_ok_bounds(3) assms(3) that by simp
  moreover have "b0 \<le> 236 \<or> b0 = 237 \<or> 238 \<le> b0" by linarith
  ultimately show ?thesis using b assms(1,2) by (auto simp: valid_rune_def)
qed

lemma four_bytes_valid:
  assumes "240 \<le> b0" "b0 \<le> 244" "second_ok b0 b1" "cont b2" "cont b3"
  shows "valid_rune ((b0 - 240) * 262144 + (b1 - 128) * 4096 + (b2 - 128) * 64 + (b3 - 128))"
proof -
  have b: "128 \<le> b1" "b1 \<le> 191" "128 \<le> b2" "b2 \<le> 191" "128 \<le> b3" "b3 \<le> 191"
    using assms second_ok_bounds(1) [OF assms(3)] by (simp_all add: cont_def)
  have "144 \<le> b1" if "b0 = 240" using second_ok_bounds(4) assms(3) that by simp
  moreover have "b1 \<le> 143" if "b0 = 244" using second_ok_bounds(5) assms(3) that by simp
  moreover have "b0 = 240 \<or> b0 = 244 \<or> (241 \<le> b0 \<and> b0 \<le> 243)" using assms(1,2) by linarith
  ultimately show ?thesis using b by (auto simp: valid_rune_def)
qed

lemma decode_rune_valid: "valid_rune (fst (decode_rune bs))"
proof (cases bs)
  case Nil
  then show ?thesis by (simp add: valid_rune_def)
next
  case (Cons b0 rest)
  have repl: "valid_rune 65533" "\<And>b. b < 128 \<Longrightarrow> valid_rune b" by (simp_all add: valid_rune_def)
  have two: "valid_rune ((b0 - 192) * 64 + (b1 - 128))" if "b0 \<le> 223" "cont b1" for b1
    using that by (auto simp: valid_rune_def cont_def)
  show ?thesis unfolding Cons
    by (auto simp: repl two three_bytes_valid four_bytes_valid split: list.split)
qed

lemma runes_of_valid: "list_all valid_rune (runes_of bs)"
proof (induction bs rule: runes_of.induct)
  case (1 bs)
  show ?case
  proof (cases "bs = []")
    case True
    then show ?thesis by (simp add: runes_of.simps)
  next
    case False
    moreover have "list_all valid_rune (runes_of (drop (snd (decode_rune bs)) bs))"
      using "1.IH" [OF False] by (metis prod.collapse)
    ultimately show ?thesis using decode_rune_valid [of bs] by (subst runes_of.simps) (auto split: prod.split)
  qed
qed

lemma runes_valid [simp]: "list_all valid_rune (runes s)"
  by (simp add: runes_def runes_of_valid)

lemma valid_utf8_string_of_runes: "list_all valid_rune rs \<Longrightarrow> valid_utf8 (string_of_runes rs)"
  by (simp add: valid_utf8_def)

section \<open>Edits at rune positions\<close>

text \<open>
  A slice expression outside the bounds of its slice panics. No handler recovers, and a panic stores nothing and
  answers nothing; it is an error value of its own here.
\<close>

definition panicSliceBounds :: error where
  "panicSliceBounds = ErrMsg ''runtime error: slice bounds out of range''"

definition wrap64 :: "int \<Rightarrow> int" where
  "wrap64 x = (x + 2 ^ 63) mod 2 ^ 64 - 2 ^ 63"

abbreviation int64 :: "int \<Rightarrow> bool" where
  "int64 x \<equiv> - (2 ^ 63) \<le> x \<and> x < 2 ^ 63"

definition clampIndex :: "int \<Rightarrow> nat \<Rightarrow> nat" where
  "clampIndex i n = (if i < 0 then 0 else if i > int n then n else nat i)"

definition insertAt :: "string \<Rightarrow> int \<Rightarrow> string \<Rightarrow> string" where
  "insertAt v index ins =
     (let rs = runes v; i = clampIndex index (length rs) in string_of_runes (take i rs @ runes ins @ drop i rs))"

definition deleteAt :: "string \<Rightarrow> int \<Rightarrow> int \<Rightarrow> string result" where
  "deleteAt v index count =
     (let rs = runes v;
          i = clampIndex index (length rs);
          c = (if count < 0 then 0 else count);
          e = wrap64 (int i + c);
          e = (if e > int (length rs) then int (length rs) else e)
      in if e < 0 then Inl panicSliceBounds
         else Inr (string_of_runes (take i rs @ drop (nat e) rs)))"

lemma clampIndex_le [simp]: "clampIndex i n \<le> n"
  by (auto simp: clampIndex_def)

lemma clampIndex_id [simp]: "i \<le> n \<Longrightarrow> clampIndex (int i) n = i"
  by (simp add: clampIndex_def)

lemma wrap64_id: "int64 x \<Longrightarrow> wrap64 x = x"
  by (simp add: wrap64_def)

lemma wrap64_over: "2 ^ 63 \<le> x \<Longrightarrow> x < 2 ^ 64 \<Longrightarrow> wrap64 x = x - 2 ^ 64"
proof -
  assume "2 ^ 63 \<le> x" "x < 2 ^ 64"
  then have "(x + 2 ^ 63 - 2 ^ 64) mod 2 ^ 64 = x + 2 ^ 63 - 2 ^ 64" by (intro mod_pos_pos_trivial) simp_all
  then have "(x + 2 ^ 63) mod 2 ^ 64 = x + 2 ^ 63 - 2 ^ 64" by (metis minus_mod_self2)
  then show ?thesis by (simp add: wrap64_def)
qed

lemma list_all_take_drop [simp]: "list_all P xs \<Longrightarrow> list_all P (take n xs)" "list_all P xs \<Longrightarrow> list_all P (drop n xs)"
  by (auto simp: list_all_iff dest: in_set_takeD in_set_dropD)

lemma runes_insertAt:
  "runes (insertAt v i t) = take (clampIndex i (length (runes v))) (runes v) @ runes t @ drop (clampIndex i (length (runes v))) (runes v)"
  by (simp add: insertAt_def Let_def)

text \<open>The exact effect of a deletion, and the one case in which the sum of position and count overflows.\<close>

lemma deleteAt_cases:
  fixes index :: int
  assumes "int64 count" and "int (length (runes v)) < 2 ^ 63"
  defines "i \<equiv> clampIndex index (length (runes v))"
  shows "deleteAt v index count =
    (if 2 ^ 63 \<le> int i + count then Inl panicSliceBounds
     else Inr (string_of_runes (take i (runes v) @ drop (i + nat count) (runes v))))"
proof -
  have i: "int i < 2 ^ 63" using assms(2) clampIndex_le [of index "length (runes v)"] unfolding i_def by linarith
  consider (neg) "count < 0" | (ok) "0 \<le> count" "int i + count < 2 ^ 63" | (over) "2 ^ 63 \<le> int i + count" by linarith
  then show ?thesis
  proof cases
    case neg
    then show ?thesis using i by (simp add: deleteAt_def Let_def i_def [symmetric] wrap64_id)
  next
    case ok
    have "wrap64 (int i + count) = int i + count" using ok i by (intro wrap64_id) simp
    then show ?thesis using ok by (auto simp: deleteAt_def Let_def i_def [symmetric] nat_add_distrib)
  next
    case over
    have "wrap64 (int i + count) = int i + count - 2 ^ 64" using over i assms(1) by (intro wrap64_over) simp_all
    moreover have "int i + count < 2 ^ 64" using i assms(1) by simp
    moreover have "\<not> count < 0" using over i by simp
    ultimately show ?thesis using over by (simp add: deleteAt_def Let_def i_def [symmetric])
  qed
qed


text \<open>Edits of a note's text go by runes and undo each other. On valid UTF-8 a deletion of what was just inserted restores the
  text byte for byte, whatever the requested position; the result of an insertion is valid UTF-8 again and is
  longer by the inserted runes. A deletion removes exactly the requested runes that exist, except that a count for which position
  plus count exceeds the range of \<open>int\<close> makes the slice expression panic.\<close>

theorem text_edit_roundtrip:
  assumes "valid_utf8 v" and "int (length (runes v)) + int (length (runes t)) < 2 ^ 63" and "int64 count"
  shows "deleteAt (insertAt v i t) (int (clampIndex i (length (runes v)))) (int (length (runes t))) = Inr v
    \<and> valid_utf8 (insertAt v i t) \<and> length (runes (insertAt v i t)) = length (runes v) + length (runes t)
    \<and> ((\<exists>w. deleteAt v i count = Inr w \<and> runes w = take (clampIndex i (length (runes v))) (runes v)
          @ drop (clampIndex i (length (runes v)) + nat count) (runes v))
        \<longleftrightarrow> int (clampIndex i (length (runes v))) + count < 2 ^ 63)"
proof -
  let ?c = "clampIndex i (length (runes v))"
  have c: "?c \<le> length (runes v)" by simp
  have len: "length (runes (insertAt v i t)) = length (runes v) + length (runes t)" by (simp add: runes_insertAt) (use c in linarith)
  then have 2: "valid_utf8 (insertAt v i t) \<and> length (runes (insertAt v i t)) = length (runes v) + length (runes t)"
    by (simp add: insertAt_def Let_def valid_utf8_string_of_runes)
  have "clampIndex (int ?c) (length (runes (insertAt v i t))) = ?c" by (rule clampIndex_id) (use c len in linarith)
  moreover have "\<not> 2 ^ 63 \<le> int ?c + int (length (runes t))" using c assms(2) by linarith
  moreover have "int64 (int (length (runes t)))" "int (length (runes (insertAt v i t))) < 2 ^ 63" using assms(2) len by simp_all
  ultimately have "deleteAt (insertAt v i t) (int ?c) (int (length (runes t))) =
      Inr (string_of_runes (take ?c (runes (insertAt v i t)) @ drop (?c + length (runes t)) (runes (insertAt v i t))))"
    by (subst deleteAt_cases) simp_all
  then have 1: "deleteAt (insertAt v i t) (int ?c) (int (length (runes t))) = Inr v"
    using assms(1) by (simp add: runes_insertAt valid_utf8_def)
  have "int (length (runes v)) < 2 ^ 63" using assms(2) by linarith
  then have "(\<exists>w. deleteAt v i count = Inr w \<and> runes w = take ?c (runes v) @ drop (?c + nat count) (runes v)) \<longleftrightarrow> int ?c + count < 2 ^ 63"
    using assms(3) by (auto simp: deleteAt_cases)
  with 1 2 show ?thesis by blast
qed

theorem text_edit_roundtrip_witness:
  "deleteAt (insertAt [CHR 0xC3, CHR 0xA9, CHR ''x''] 1 ''ab'') 1 2 = Inr [CHR 0xC3, CHR 0xA9, CHR ''x'']
   \<and> deleteAt ''ab'' 1 9223372036854775807 = Inl panicSliceBounds"
proof -
  have r: "runes [CHR 0xC3, CHR 0xA9, CHR ''x''] = [233, 120]" "runes ''ab'' = [97, 98]"
    by (simp_all add: runes_def runes_of.simps cont_def)
  then have v: "valid_utf8 [CHR 0xC3, CHR 0xA9, CHR ''x'']"
    by (simp add: valid_utf8_def string_of_runes_def encode_rune_def char_of_eq_iff take_bit_eq_mod)
  have "int (length (runes ''ab'')) + int (length (runes ''x'')) < 2 ^ 63" "valid_utf8 ''ab''"
    by (simp_all add: runes_def runes_of.simps valid_utf8_def string_of_runes_def encode_rune_def char_of_eq_iff take_bit_eq_mod)
  from text_edit_roundtrip [OF this(2,1), of 9223372036854775807 1]
  have "\<not> (\<exists>w. deleteAt ''ab'' 1 9223372036854775807 = Inr w \<and> runes w = take 1 [97, 98] @ drop (1 + nat 9223372036854775807) [97, 98])"
    by (simp add: r clampIndex_def)
  moreover have "deleteAt ''ab'' 1 9223372036854775807 = Inl panicSliceBounds"
    by (simp add: deleteAt_def r wrap64_def clampIndex_def)
  moreover have "deleteAt (insertAt [CHR 0xC3, CHR 0xA9, CHR ''x''] 1 ''ab'') 1 2 = Inr [CHR 0xC3, CHR 0xA9, CHR ''x'']"
    using text_edit_roundtrip [OF v, of "''ab''" 0 1] by (simp add: r clampIndex_def)
  ultimately show ?thesis by blast
qed

section \<open>Words and lines\<close>

text \<open>\<open>strings.Split(s, "\n")\<close> and \<open>strings.Join\<close>.\<close>

abbreviation newline :: char where "newline \<equiv> CHR 0x0A"

fun splitLines :: "string \<Rightarrow> string list" where
  "splitLines [] = [[]]"
| "splitLines (c # cs) =
     (if c = newline then [] # splitLines cs
      else (case splitLines cs of [] \<Rightarrow> [[c]] | w # ws \<Rightarrow> (c # w) # ws))"

fun joinStrings :: "string \<Rightarrow> string list \<Rightarrow> string" where
  "joinStrings sep [] = []"
| "joinStrings sep [w] = w"
| "joinStrings sep (w # ws) = w @ sep @ joinStrings sep ws"

section \<open>Page types, titles and previews\<close>

text \<open>
  The tables of package \<open>unicode\<close> for the runes above 127: lower case of a string with such runes, letters, numbers
  (\<open>unicode.IsNumber\<close>), title case, and \<open>strings.EqualFold\<close>.
\<close>

record unicode =
  uc_lower :: "string \<Rightarrow> string"
  uc_letter :: "nat \<Rightarrow> bool"
  uc_number :: "nat \<Rightarrow> bool"
  uc_title :: "nat \<Rightarrow> nat"
  uc_equalFold :: "string \<Rightarrow> string \<Rightarrow> bool"

definition isLetter :: "unicode \<Rightarrow> nat \<Rightarrow> bool" where
  "isLetter uc r \<longleftrightarrow> (if r < 128 then (65 \<le> r \<and> r \<le> 90) \<or> (97 \<le> r \<and> r \<le> 122) else uc_letter uc r)"

definition isNumber :: "unicode \<Rightarrow> nat \<Rightarrow> bool" where
  "isNumber uc r \<longleftrightarrow> (if r < 128 then 48 \<le> r \<and> r \<le> 57 else uc_number uc r)"

abbreviation "NotePageTypeText \<equiv> ''text''"
abbreviation "NotePageTypeKanban \<equiv> ''kanban''"
abbreviation "NotePageTypeNotebook \<equiv> ''notebook''"

definition normalizePageType :: "unicode \<Rightarrow> string \<Rightarrow> string" where
  "normalizePageType uc pageType =
     (let p = trimSpace (toLower (uc_lower uc) pageType) in
      if p = [] \<or> p = NotePageTypeText then NotePageTypeText
      else if p = NotePageTypeKanban \<or> p = ''board'' then NotePageTypeKanban
      else if p = NotePageTypeNotebook then NotePageTypeNotebook
      else NotePageTypeText)"

text \<open>The cut set of \<open>titleFromContent\<close>: list markers, digits and check boxes in front of the first words.\<close>

definition titleCutset :: string where
  "titleCutset = ''#>*-+0123456789.[] xX'' @ [CHR 0x09, CHR '' '']"

definition titleFromContent :: "string \<Rightarrow> string" where
  "titleFromContent content =
     (let plain = trimSpace content in
      if plain = [] then []
      else let plain = trimSpace (dropWhile (\<lambda>c. c \<in> set titleCutset) plain) in
        if plain = [] then []
        else let words = stringsFields plain;
                 words = (if length words > 5 then take 5 words else words);
                 title = joinStrings '' '' words
             in if length title > 80 then trimSpace (take 80 title) else title)"

text \<open>\<open>strings.LastIndex(s, c)\<close> for a one-byte string, as the suffix after it and the prefix before it.\<close>

definition afterLast :: "char \<Rightarrow> string \<Rightarrow> string" where
  "afterLast c s = rev (takeWhile (\<lambda>x. x \<noteq> c) (rev s))"

definition beforeLast :: "char \<Rightarrow> string \<Rightarrow> string" where
  "beforeLast c s = (if c \<in> set s then rev (tl (dropWhile (\<lambda>x. x \<noteq> c) (rev s))) else s)"

text \<open>\<open>strings.Title\<close>: a rune after a separator becomes title case.\<close>

definition isSeparator :: "unicode \<Rightarrow> nat \<Rightarrow> bool" where
  "isSeparator uc r \<longleftrightarrow>
     (if r < 128 then \<not> (ascii_alnum r \<or> r = 95)
      else if uc_letter uc r \<or> uc_number uc r then False
      else string_of_runes [r] \<in> set space_runes)"

definition toTitle :: "unicode \<Rightarrow> nat \<Rightarrow> nat" where
  "toTitle uc r = (if r < 128 then (if 97 \<le> r \<and> r \<le> 122 then r - 32 else r) else uc_title uc r)"

fun titleRunes :: "unicode \<Rightarrow> nat \<Rightarrow> nat list \<Rightarrow> nat list" where
  "titleRunes uc prev [] = []"
| "titleRunes uc prev (r # rs) = (if isSeparator uc prev then toTitle uc r else r) # titleRunes uc r rs"

definition stringsTitle :: "unicode \<Rightarrow> string \<Rightarrow> string" where
  "stringsTitle uc s = string_of_runes (titleRunes uc 32 (runes s))"

definition titleFromNoteID :: "unicode \<Rightarrow> string \<Rightarrow> string" where
  "titleFromNoteID uc noteID =
     (let name = afterLast (CHR 0x2F) noteID;
          name = beforeLast (CHR ''.'') name;
          name = map (\<lambda>c. if c = CHR ''-'' then CHR '' '' else c) name;
          name = map (\<lambda>c. if c = CHR ''_'' then CHR '' '' else c) name
      in if name = [] then ''Note'' else stringsTitle uc name)"

fun firstLine :: "string list \<Rightarrow> string" where
  "firstLine [] = []"
| "firstLine (l # ls) =
     (let line = trimSpace l in
      if line \<noteq> [] then (if length line > 140 then take 140 line else line) else firstLine ls)"

definition previewFromContent :: "string \<Rightarrow> string" where
  "previewFromContent content =
     (let content = trimSpace content in if content = [] then [] else firstLine (splitLines content))"

text \<open>The positions are byte offsets; \<open>content[start:end]\<close> is always within the string here.\<close>

definition snippetAround :: "string \<Rightarrow> int \<Rightarrow> nat \<Rightarrow> string" where
  "snippetAround content offset needleLength =
     (if offset < 0 \<or> offset \<ge> int (length content) then previewFromContent content
      else let start = (if offset - 40 < 0 then 0 else offset - 40);
               e = offset + int needleLength + 40;
               e = (if e > int (length content) then int (length content) else e)
           in trimSpace (take (nat (e - start)) (drop (nat start) content)))"

section \<open>Tags and slugs\<close>

definition tagRune :: "unicode \<Rightarrow> nat \<Rightarrow> bool" where
  "tagRune uc r \<longleftrightarrow> isLetter uc r \<or> isNumber uc r \<or> r = 95 \<or> r = 45"

text \<open>
  \<open>strings.TrimRightFunc\<close> on valid UTF-8, by runes; the lengths compared with 2 are in bytes.
\<close>

definition normalizeTag :: "unicode \<Rightarrow> string \<Rightarrow> string" where
  "normalizeTag uc v =
     (let v = trimSpace v in
      if \<not> hasPrefix v ''#'' \<or> length v < 2 then []
      else let v = string_of_runes (rev (dropWhile (\<lambda>r. \<not> tagRune uc r) (rev (runes v)))) in
        if length v < 2 then [] else toLower (uc_lower uc) v)"

definition extractTags :: "unicode \<Rightarrow> string \<Rightarrow> string list" where
  "extractTags uc content = sort (remdups (filter (\<lambda>t. t \<noteq> []) (map (normalizeTag uc) (stringsFields content))))"

text \<open>One item per tagged word, in the order of the text: \<open>(tag, trimmed line)\<close>.\<close>

definition extractTaggedLines :: "unicode \<Rightarrow> string \<Rightarrow> (string \<times> string) list" where
  "extractTaggedLines uc content =
     concat (map (\<lambda>line. map (\<lambda>f. (normalizeTag uc f, trimSpace line))
       (filter (\<lambda>f. normalizeTag uc f \<noteq> []) (stringsFields line))) (splitLines content))"

fun slugRunes :: "unicode \<Rightarrow> nat list \<Rightarrow> bool \<Rightarrow> nat list \<Rightarrow> nat list" where
  "slugRunes uc built lastDash [] = built"
| "slugRunes uc built lastDash (r # rs) =
     (if isLetter uc r \<or> isNumber uc r then slugRunes uc (built @ [r]) False rs
      else if r = 32 \<or> r = 45 \<or> r = 95
      then (if \<not> lastDash \<and> built \<noteq> [] then slugRunes uc (built @ [45]) True rs else slugRunes uc built lastDash rs)
      else slugRunes uc built lastDash rs)"

definition trimDashes :: "string \<Rightarrow> string" where
  "trimDashes s = rev (dropWhile (\<lambda>c. c = CHR ''-'') (rev (dropWhile (\<lambda>c. c = CHR ''-'') s)))"

definition slugify :: "unicode \<Rightarrow> string \<Rightarrow> string" where
  "slugify uc v =
     (let v = toLower (uc_lower uc) (trimSpace v) in
      if v = [] then [] else trimDashes (string_of_runes (slugRunes uc [] False (runes v))))"

text \<open>Facts about the normal forms that the note services rely on.\<close>

lemma normalizePageType_range:
  "normalizePageType uc p \<in> {NotePageTypeText, NotePageTypeKanban, NotePageTypeNotebook}"
  by (simp add: normalizePageType_def Let_def)

lemma lower_literals:
  "toLower w ''text'' = ''text''" "toLower w ''kanban'' = ''kanban''" "toLower w ''notebook'' = ''notebook''" "toLower w [] = []"
  by (simp_all add: toLower_def is_ascii_def ascii_lower_def Let_def)

lemma normalizePageType_literals [simp]:
  "normalizePageType uc [] = NotePageTypeText" "normalizePageType uc NotePageTypeText = NotePageTypeText"
  "normalizePageType uc NotePageTypeKanban = NotePageTypeKanban" "normalizePageType uc NotePageTypeNotebook = NotePageTypeNotebook"
  by (simp_all add: normalizePageType_def lower_literals literal_simps)

lemma normalizePageType_idem [simp]: "normalizePageType uc (normalizePageType uc p) = normalizePageType uc p"
  using normalizePageType_range [of uc p] by auto

lemma blank_trimSpace [simp]: "blank (trimSpace s) \<longleftrightarrow> blank s"
  by (simp add: blank_def)

lemma trim_with_skips: "c \<in> set s \<Longrightarrow> (\<And>p. p \<in> set ps \<Longrightarrow> c \<notin> set p) \<Longrightarrow> c \<in> set (trim_with ps s)"
proof (induction ps s rule: trim_with.induct)
  case (1 ps s)
  show ?case
  proof (cases "find (\<lambda>p. p \<noteq> [] \<and> starts_with p s) ps")
    case None
    then show ?thesis using "1.prems"(1) by (subst trim_with.simps) simp
  next
    case (Some p)
    then have p: "p \<in> set ps" "starts_with p s" by (auto simp: find_Some_iff)
    then have "s = p @ drop (length p) s" by (metis append_take_drop_id starts_with_def)
    then have "c \<in> set (drop (length p) s)" using "1.prems" p(1) by (metis Un_iff set_append)
    then show ?thesis using "1.IH" [OF Some] "1.prems"(2) Some by (subst trim_with.simps) simp
  qed
qed

lemma space_runes_no_graphic: "p \<in> set space_runes \<Longrightarrow> c \<in> set p \<Longrightarrow> \<not> graphic c"
  by (auto simp: space_runes_def graphic_def)

lemma trimSpace_graphic_nonempty: "c \<in> set s \<Longrightarrow> graphic c \<Longrightarrow> trimSpace s \<noteq> []"
proof -
  assume c: "c \<in> set s" "graphic c"
  then have no: "p \<in> set space_runes \<Longrightarrow> c \<notin> set p" for p using space_runes_no_graphic by blast
  then have "c \<in> set (trim_with space_runes s)" by (intro trim_with_skips c)
  then have "c \<in> set (trim_with (map rev space_runes) (rev (trim_with space_runes s)))"
    by (intro trim_with_skips) (use no in auto)
  then show ?thesis by (auto simp: trimSpace_def)
qed

end
