(* ===== verification/Note_Board.thy ===== *)
theory Note_Board
  imports Note_Text "HOL-Library.Multiset"
begin

text \<open>
  Kanban boards: the structures of \<open>internal/protocol/notes.go\<close> and the board edits of
  \<open>internal/cloud/note_collaboration.go\<close>. The Go code edits slices in place; every edit replaces the slice it changed, and no
  slice is shared between columns, so the lists below are what the slices hold. The loops that stop at the first column or
  card with an id are the generic edits \<open>upsertBy\<close>, \<open>removeFirst\<close> and \<open>mapFirst\<close>.
\<close>

section \<open>Boards\<close>

record KanbanCard =
  cd_ID :: string
  cd_Text :: string
  cd_SortOrder :: int
  cd_Color :: string
  cd_DueDate :: string
  cd_Tags :: "string list"
  cd_CreatedAt :: time
  cd_UpdatedAt :: time

record KanbanColumn =
  col_ID :: string
  col_Title :: string
  col_Role :: string
  col_SortOrder :: int
  col_Cards :: "KanbanCard list"
  col_CreatedAt :: time
  col_UpdatedAt :: time

record KanbanBoard =
  bd_IntakeColumnID :: string
  bd_Columns :: "KanbanColumn list"
  bd_CreatedAt :: time
  bd_UpdatedAt :: time

definition emptyBoard :: KanbanBoard where
  "emptyBoard = \<lparr>bd_IntakeColumnID = [], bd_Columns = [], bd_CreatedAt = 0, bd_UpdatedAt = 0\<rparr>"

section \<open>Edits of a slice\<close>

fun upsertBy :: "('a \<Rightarrow> 'k) \<Rightarrow> 'a \<Rightarrow> 'a list \<Rightarrow> 'a list" where
  "upsertBy key x [] = [x]"
| "upsertBy key x (y # ys) = (if key y = key x then x # ys else y # upsertBy key x ys)"

fun removeFirst :: "('a \<Rightarrow> bool) \<Rightarrow> 'a list \<Rightarrow> 'a list" where
  "removeFirst P [] = []"
| "removeFirst P (y # ys) = (if P y then ys else y # removeFirst P ys)"

fun mapFirst :: "('a \<Rightarrow> bool) \<Rightarrow> ('a \<Rightarrow> 'a) \<Rightarrow> 'a list \<Rightarrow> 'a list" where
  "mapFirst P f [] = []"
| "mapFirst P f (y # ys) = (if P y then f y # ys else y # mapFirst P f ys)"

definition insertIndex :: "nat \<Rightarrow> 'a \<Rightarrow> 'a list \<Rightarrow> 'a list" where
  "insertIndex i x xs = take i xs @ x # drop i xs"

section \<open>Edits of a board\<close>

definition editCards :: "(KanbanCard list \<Rightarrow> KanbanCard list) \<Rightarrow> KanbanColumn \<Rightarrow> KanbanColumn" where
  "editCards f c = c\<lparr>col_Cards := f (col_Cards c)\<rparr>"

definition hasCard :: "string \<Rightarrow> KanbanColumn \<Rightarrow> bool" where
  "hasCard cardID c \<longleftrightarrow> list_ex (\<lambda>x. cd_ID x = cardID) (col_Cards c)"

definition upsertColumn :: "KanbanColumn \<Rightarrow> KanbanBoard \<Rightarrow> KanbanBoard" where
  "upsertColumn column b = b\<lparr>bd_Columns := upsertBy col_ID column (bd_Columns b)\<rparr>"

definition deleteColumn :: "string \<Rightarrow> KanbanBoard \<Rightarrow> KanbanBoard" where
  "deleteColumn columnID b = b\<lparr>bd_Columns := removeFirst (\<lambda>c. col_ID c = columnID) (bd_Columns b)\<rparr>"

definition moveColumn :: "string \<Rightarrow> int \<Rightarrow> KanbanBoard \<Rightarrow> KanbanBoard" where
  "moveColumn columnID toIndex b =
     (case find (\<lambda>c. col_ID c = columnID) (bd_Columns b) of
        None \<Rightarrow> b
      | Some column \<Rightarrow>
          let rest = removeFirst (\<lambda>c. col_ID c = columnID) (bd_Columns b) in
          b\<lparr>bd_Columns := insertIndex (clampIndex toIndex (length rest)) column rest\<rparr>)"

definition upsertCard :: "string \<Rightarrow> KanbanCard \<Rightarrow> KanbanBoard \<Rightarrow> KanbanBoard" where
  "upsertCard columnID kc b =
     b\<lparr>bd_Columns := mapFirst (\<lambda>c. col_ID c = columnID) (editCards (upsertBy cd_ID kc)) (bd_Columns b)\<rparr>"

definition deleteCard :: "string \<Rightarrow> string \<Rightarrow> KanbanBoard \<Rightarrow> KanbanBoard" where
  "deleteCard columnID cardID b =
     b\<lparr>bd_Columns := mapFirst (\<lambda>c. (columnID = [] \<or> col_ID c = columnID) \<and> hasCard cardID c)
        (editCards (removeFirst (\<lambda>x. cd_ID x = cardID))) (bd_Columns b)\<rparr>"

text \<open>
  \<open>moveCard\<close> first takes the card out of every column that has it; the inner \<open>break\<close> leaves only the loop over
  the cards of one column, so the card that is put back is the last one found.
\<close>

fun takenCard :: "string \<Rightarrow> KanbanCard option \<Rightarrow> KanbanColumn list \<Rightarrow> KanbanCard option" where
  "takenCard cardID kc [] = kc"
| "takenCard cardID kc (c # cs) =
     takenCard cardID (case find (\<lambda>x. cd_ID x = cardID) (col_Cards c) of None \<Rightarrow> kc | Some x \<Rightarrow> Some x) cs"

definition moveCard :: "string \<Rightarrow> string \<Rightarrow> int \<Rightarrow> KanbanBoard \<Rightarrow> KanbanBoard" where
  "moveCard cardID targetColumnID toIndex b =
     (let cols = map (editCards (removeFirst (\<lambda>x. cd_ID x = cardID))) (bd_Columns b) in
      case takenCard cardID None (bd_Columns b) of
        None \<Rightarrow> b\<lparr>bd_Columns := cols\<rparr>
      | Some kc \<Rightarrow>
          b\<lparr>bd_Columns := mapFirst (\<lambda>c. col_ID c = targetColumnID)
             (editCards (\<lambda>cards. insertIndex (clampIndex toIndex (length cards)) kc cards)) cols\<rparr>)"

section \<open>The Markdown projection\<close>

fun columnMarkdown :: "KanbanColumn \<Rightarrow> string list" where
  "columnMarkdown c =
     (''## '' @ trimSpace (col_Title c)) #
     (if col_Cards c = [] then [''-''] else map (\<lambda>kc. ''- '' @ trimSpace (cd_Text kc)) (col_Cards c) @ [[]])"

definition kanbanMarkdown :: "string \<Rightarrow> KanbanBoard \<Rightarrow> string" where
  "kanbanMarkdown title b =
     (let title = (if blank title then ''Board'' else title) in
      trimSpace (joinStrings [newline] ([''# '' @ title, []] @ concat (map columnMarkdown (bd_Columns b)))))"

section \<open>Edits and ids\<close>

lemma keys_upsertBy:
  "map key (upsertBy key x ys) = (if key x \<in> key ` set ys then map key ys else map key ys @ [key x])"
  by (induction ys) auto

lemma distinct_upsertBy [simp]: "distinct (map key (upsertBy key x ys)) \<longleftrightarrow> distinct (map key ys)"
  by (simp add: keys_upsertBy)

lemma find_upsertBy: "find (\<lambda>y. key y = k) (upsertBy key x ys) = (if k = key x then Some x else find (\<lambda>y. key y = k) ys)"
  by (induction ys) auto

lemma mset_removeFirst: "find P xs = Some x \<Longrightarrow> mset xs = add_mset x (mset (removeFirst P xs))"
  by (induction xs) (auto split: if_splits)

lemma removeFirst_id: "find P xs = None \<Longrightarrow> removeFirst P xs = xs"
  by (induction xs) (auto split: if_splits)

lemma set_removeFirst: "set (removeFirst P xs) \<subseteq> set xs"
  by (induction xs) auto

lemma distinct_removeFirst: "distinct (map f xs) \<Longrightarrow> distinct (map f (removeFirst P xs))"
  using set_removeFirst by (induction xs) fastforce+

lemma removeFirst_filter: "distinct (map key xs) \<Longrightarrow> removeFirst (\<lambda>x. key x = k) xs = filter (\<lambda>x. key x \<noteq> k) xs"
proof (induction xs)
  case (Cons x xs)
  then have "key y \<noteq> key x" if "y \<in> set xs" for y using that by (auto simp: image_iff)
  with Cons show ?case by (auto intro!: filter_True [symmetric])
qed simp

lemma map_mapFirst: "(\<And>x. g (f x) = g x) \<Longrightarrow> map g (mapFirst P f xs) = map g xs"
  by (induction xs) auto

lemma mset_insertIndex [simp]: "mset (insertIndex i x xs) = add_mset x (mset xs)"
  using arg_cong [OF append_take_drop_id [of i xs], of mset] by (simp add: insertIndex_def del: append_take_drop_id)

lemma nth_insertIndex: "i \<le> length xs \<Longrightarrow> insertIndex i x xs ! i = x"
  by (simp add: insertIndex_def nth_append)

lemma filter_insertIndex: "\<not> P x \<Longrightarrow> filter P (insertIndex i x xs) = filter P xs"
  using arg_cong [OF append_take_drop_id [of i xs], of "filter P"] by (simp add: insertIndex_def del: append_take_drop_id)

lemma length_insertIndex [simp]: "length (insertIndex i x xs) = Suc (length xs)"
  by (simp add: insertIndex_def)

lemma col_ID_editCards [simp]: "col_ID (editCards f c) = col_ID c" and col_Cards_editCards [simp]: "col_Cards (editCards f c) = f (col_Cards c)"
  by (simp_all add: editCards_def)

lemma hasCard_find: "hasCard k c \<longleftrightarrow> (\<exists>x. find (\<lambda>x. cd_ID x = k) (col_Cards c) = Some x)"
  unfolding hasCard_def by (metis (mono_tags, lifting) find_None_iff list_ex_iff not_Some_eq)

definition columnIDs :: "KanbanBoard \<Rightarrow> string list" where
  "columnIDs b = map col_ID (bd_Columns b)"

definition cardsOf :: "KanbanBoard \<Rightarrow> string \<Rightarrow> KanbanCard list" where
  "cardsOf b columnID = (case find (\<lambda>c. col_ID c = columnID) (bd_Columns b) of None \<Rightarrow> [] | Some c \<Rightarrow> col_Cards c)"

definition allCards :: "KanbanBoard \<Rightarrow> KanbanCard list" where
  "allCards b = concat (map col_Cards (bd_Columns b))"

lemma columnIDs_edits:
  "columnIDs (upsertColumn column b) = (if col_ID column \<in> set (columnIDs b) then columnIDs b else columnIDs b @ [col_ID column])"
  "columnIDs (deleteColumn k b) = removeFirst (\<lambda>i. i = k) (columnIDs b)"
  "columnIDs (upsertCard k kc b) = columnIDs b"
  "columnIDs (deleteCard k cid b) = columnIDs b"
  "columnIDs (moveCard cid k i b) = columnIDs b"
proof -
  have r: "map col_ID (removeFirst (\<lambda>c. col_ID c = k) cs) = removeFirst (\<lambda>i. i = k) (map col_ID cs)" for cs
    by (induction cs) auto
  show "columnIDs (upsertColumn column b) = (if col_ID column \<in> set (columnIDs b) then columnIDs b else columnIDs b @ [col_ID column])"
    by (simp add: columnIDs_def upsertColumn_def keys_upsertBy)
  show "columnIDs (deleteColumn k b) = removeFirst (\<lambda>i. i = k) (columnIDs b)"
    by (simp add: columnIDs_def deleteColumn_def r)
  show "columnIDs (upsertCard k kc b) = columnIDs b" "columnIDs (deleteCard k cid b) = columnIDs b"
    by (simp_all add: columnIDs_def upsertCard_def deleteCard_def map_mapFirst)
  show "columnIDs (moveCard cid k i b) = columnIDs b"
    by (simp add: columnIDs_def moveCard_def map_mapFirst Let_def split: option.split)
qed

lemma mset_moveColumn: "mset (bd_Columns (moveColumn k i b)) = mset (bd_Columns b)"
  by (auto simp: moveColumn_def Let_def dest: mset_removeFirst split: option.split)

section \<open>Moving a card\<close>

lemma takenCard_none: "k \<notin> cd_ID ` set (concat (map col_Cards cs)) \<Longrightarrow> takenCard k acc cs = acc"
proof (induction cs arbitrary: acc)
  case (Cons c cs)
  then have "find (\<lambda>x. cd_ID x = k) (col_Cards c) = None" "k \<notin> cd_ID ` set (concat (map col_Cards cs))"
    by (auto simp: find_None_iff)
  with Cons.IH show ?case by simp
qed simp

lemma takenCard_found:
  "k \<in> cd_ID ` set (concat (map col_Cards cs)) \<Longrightarrow> \<exists>y \<in> set (concat (map col_Cards cs)). cd_ID y = k \<and> takenCard k acc cs = Some y"
proof (induction cs arbitrary: acc)
  case (Cons c cs)
  show ?case
  proof (cases "k \<in> cd_ID ` set (concat (map col_Cards cs))")
    case True
    from Cons.IH [OF this] obtain y where "y \<in> set (concat (map col_Cards cs))" "cd_ID y = k"
        "takenCard k (case find (\<lambda>x. cd_ID x = k) (col_Cards c) of None \<Rightarrow> acc | Some x \<Rightarrow> Some x) cs = Some y" by blast
    then show ?thesis by auto
  next
    case False
    with Cons.prems have "\<exists>x \<in> set (col_Cards c). cd_ID x = k" by auto
    then obtain y where y: "find (\<lambda>x. cd_ID x = k) (col_Cards c) = Some y"
      by (metis (mono_tags, lifting) find_None_iff not_Some_eq)
    then have "y \<in> set (col_Cards c)" "cd_ID y = k" by (auto simp: find_Some_iff)
    with y False show ?thesis by (auto simp: takenCard_none)
  qed
qed simp

lemma find_mapFirst:
  assumes "\<And>c. key (f c) = key c"
  shows "find (\<lambda>c. key c = j) (mapFirst (\<lambda>c. key c = t) f cs) =
     (if j = t then map_option f (find (\<lambda>c. key c = j) cs) else find (\<lambda>c. key c = j) cs)"
  by (induction cs) (auto simp: assms)

lemma find_map_key: "(\<And>c. key (f c) = key c) \<Longrightarrow> find (\<lambda>c. key c = j) (map f cs) = map_option f (find (\<lambda>c. key c = j) cs)"
  by (induction cs) auto

lemma find_columnIDs: "(\<exists>c. find (\<lambda>c. col_ID c = t) (bd_Columns b) = Some c) \<longleftrightarrow> t \<in> set (columnIDs b)"
proof -
  have "find (\<lambda>c. col_ID c = t) (bd_Columns b) \<noteq> None \<longleftrightarrow> t \<in> set (columnIDs b)"
    by (auto simp: columnIDs_def find_None_iff)
  then show ?thesis by (metis not_Some_eq)
qed

lemma mset_mapFirst_insert:
  "t \<in> col_ID ` set cs \<Longrightarrow> mset (concat (map col_Cards (mapFirst (\<lambda>c. col_ID c = t) (editCards (\<lambda>xs. insertIndex (i xs) x xs)) cs)))
     = add_mset x (mset (concat (map col_Cards cs)))"
  by (induction cs) auto

lemma mapFirst_id: "t \<notin> col_ID ` set cs \<Longrightarrow> mapFirst (\<lambda>c. col_ID c = t) f cs = cs"
  by (induction cs) auto

lemma editCards_removeFirst:
  assumes "distinct (map cd_ID (concat (map col_Cards cs)))"
  shows "map (editCards (removeFirst (\<lambda>x. cd_ID x = k))) cs = map (editCards (filter (\<lambda>x. cd_ID x \<noteq> k))) cs"
  using assms by (induction cs) (auto simp: editCards_def removeFirst_filter)

lemma concat_editCards_filter: "concat (map col_Cards (map (editCards (filter P)) cs)) = filter P (concat (map col_Cards cs))"
  by (induction cs) auto

lemma mset_filter_out:
  assumes "distinct (map key xs)" "x \<in> set xs"
  shows "mset xs = add_mset x (mset (filter (\<lambda>y. key y \<noteq> key x) xs))"
proof -
  have "find (\<lambda>y. key y = key x) xs = Some x" using assms by (induction xs) (auto dest: imageI [of _ _ key])
  then show ?thesis using mset_removeFirst removeFirst_filter [OF assms(1), of "key x"] by metis
qed

text \<open>Moving a card on a board whose column and card ids are unique. The columns stay, the other cards keep their
  column and order, and when the target column exists the card stands in it at the requested position, cut to the
  column's range, and no card is lost or duplicated. When no column has the target id the card is taken out all the same
  and is lost from the board.\<close>

theorem move_card_effect:
  assumes ids: "distinct (columnIDs b)" "distinct (map cd_ID (allCards b))" and x: "x \<in> set (allCards b)"
  shows "let b' = moveCard (cd_ID x) t i b; others = filter (\<lambda>y. cd_ID y \<noteq> cd_ID x) in
    columnIDs b' = columnIDs b \<and> (\<forall>j. others (cardsOf b' j) = others (cardsOf b j))
    \<and> (if t \<in> set (columnIDs b)
       then mset (allCards b') = mset (allCards b) \<and> cardsOf b' t ! clampIndex i (length (others (cardsOf b t))) = x
       else allCards b' = others (allCards b))"
proof -
  define b' where "b' = moveCard (cd_ID x) t i b"
  define others :: "KanbanCard list \<Rightarrow> KanbanCard list" where "others = filter (\<lambda>y. cd_ID y \<noteq> cd_ID x)"
  let ?k = "cd_ID x"
  let ?cols = "map (editCards others) (bd_Columns b)"
  let ?put = "editCards (\<lambda>cards. insertIndex (clampIndex i (length cards)) x cards)"
  obtain y where "y \<in> set (allCards b)" "cd_ID y = ?k" "takenCard ?k None (bd_Columns b) = Some y"
    using takenCard_found [of ?k "bd_Columns b" None] x unfolding allCards_def by blast
  then have "takenCard ?k None (bd_Columns b) = Some x" using ids(2) x by (auto simp: distinct_map inj_on_def)
  then have cols: "bd_Columns b' = mapFirst (\<lambda>c. col_ID c = t) ?put ?cols"
    using ids(2) by (simp add: b'_def moveCard_def others_def allCards_def editCards_removeFirst del: map_eq_conv)
  have find': "find (\<lambda>c. col_ID c = j) (bd_Columns b') =
      (if j = t then map_option (?put \<circ> editCards others) (find (\<lambda>c. col_ID c = j) (bd_Columns b))
       else map_option (editCards others) (find (\<lambda>c. col_ID c = j) (bd_Columns b)))" for j
    by (simp add: cols find_mapFirst find_map_key option.map_comp)
  have 1: "others (cardsOf b' j) = others (cardsOf b j)" for j
  proof -
    have put: "others (insertIndex n x xs) = others xs" for n xs by (simp add: others_def filter_insertIndex)
    have twice: "others (others xs) = others xs" for xs by (simp add: others_def)
    show ?thesis
      by (cases "find (\<lambda>c. col_ID c = j) (bd_Columns b)"; cases "j = t") (simp_all add: cardsOf_def find' put twice)
  qed
  have "mset (allCards b') = mset (allCards b) \<and> cardsOf b' t ! clampIndex i (length (others (cardsOf b t))) = x"
    if t: "t \<in> set (columnIDs b)"
  proof
    have "t \<in> col_ID ` set ?cols" using t by (simp add: columnIDs_def image_image)
    then have "mset (allCards b') = add_mset x (mset (concat (map col_Cards ?cols)))"
      unfolding allCards_def cols by (rule mset_mapFirst_insert)
    moreover have "concat (map col_Cards ?cols) = others (allCards b)"
      unfolding allCards_def others_def by (rule concat_editCards_filter)
    ultimately have "mset (allCards b') = add_mset x (mset (others (allCards b)))" by (simp only:)
    then show "mset (allCards b') = mset (allCards b)" unfolding others_def by (rule trans [OF _ mset_filter_out [OF ids(2) x, symmetric]])
    from t obtain c where "find (\<lambda>c. col_ID c = t) (bd_Columns b) = Some c" using find_columnIDs by blast
    then show "cardsOf b' t ! clampIndex i (length (others (cardsOf b t))) = x" by (simp add: cardsOf_def find' nth_insertIndex)
  qed
  moreover have "allCards b' = others (allCards b)" if "t \<notin> set (columnIDs b)"
  proof -
    have "t \<notin> col_ID ` set ?cols" using that by (simp add: columnIDs_def image_image)
    then have "bd_Columns b' = ?cols" by (simp only: cols mapFirst_id not_False_eq_True)
    then show ?thesis unfolding allCards_def others_def by (simp only: concat_editCards_filter)
  qed
  moreover have "columnIDs b' = columnIDs b" by (simp add: b'_def columnIDs_edits)
  ultimately show ?thesis using 1 unfolding Let_def b'_def others_def by simp
qed

definition sampleCard :: "string \<Rightarrow> KanbanCard" where
  "sampleCard k = \<lparr>cd_ID = k, cd_Text = ''task'', cd_SortOrder = 0, cd_Color = [], cd_DueDate = [], cd_Tags = [], cd_CreatedAt = 1, cd_UpdatedAt = 1\<rparr>"

definition sampleColumn :: "string \<Rightarrow> string list \<Rightarrow> KanbanColumn" where
  "sampleColumn k cs = \<lparr>col_ID = k, col_Title = k, col_Role = [], col_SortOrder = 0, col_Cards = map sampleCard cs, col_CreatedAt = 1, col_UpdatedAt = 1\<rparr>"

definition sampleBoard :: KanbanBoard where
  "sampleBoard = emptyBoard\<lparr>bd_Columns := [sampleColumn ''todo'' [''a'', ''b''], sampleColumn ''done'' [''c'']]\<rparr>"

lemma sampleBoard_simps:
  "columnIDs sampleBoard = [''todo'', ''done'']" "allCards sampleBoard = [sampleCard ''a'', sampleCard ''b'', sampleCard ''c'']"
  by (simp_all add: sampleBoard_def sampleColumn_def columnIDs_def allCards_def)

lemma cd_ID_sample [simp]: "cd_ID (sampleCard k) = k"
  by (simp add: sampleCard_def)

lemma cards_done: "cardsOf sampleBoard ''done'' = [sampleCard ''c'']"
  by (simp add: cardsOf_def sampleBoard_def sampleColumn_def)

theorem move_card_effect_witness:
  "cardsOf (moveCard ''a'' ''done'' 7 sampleBoard) ''done'' ! 1 = sampleCard ''a''
   \<and> mset (allCards (moveCard ''a'' ''done'' 7 sampleBoard)) = mset (allCards sampleBoard)
   \<and> allCards (moveCard ''a'' ''nowhere'' 0 sampleBoard) = [sampleCard ''b'', sampleCard ''c'']"
  using move_card_effect [of sampleBoard "sampleCard ''a''" "''done''" 7] move_card_effect [of sampleBoard "sampleCard ''a''" "''nowhere''" 0]
  by (simp add: sampleBoard_simps Let_def cd_ID_sample cards_done clampIndex_def)

lemma set_upsertBy: "distinct (map key ys) \<Longrightarrow> set (upsertBy key x ys) = insert x {y \<in> set ys. key y \<noteq> key x}"
proof (induction ys)
  case (Cons y ys)
  then have "key z \<noteq> key y" if "z \<in> set ys" for z using that by (auto simp: image_iff)
  with Cons show ?case by auto
qed simp

end
