(* ===== verification/Note_State.thy ===== *)
theory Note_State
  imports Note_Board
begin

text \<open>
  The collaboration state of a note (\<open>internal/cloud/notes_store.go\<close>, \<open>note_collaboration.go\<close>): operations of collaborators,
  the state they act on, and the row that is materialised from it (\<open>internal/domain/notes.go\<close>). A text column
  that holds JSON is modelled by what \<open>encoding/json\<close> makes of it: nothing, a document with its value, or text that does not
  parse. The decoders of operation values, the Unicode tables and SHA-256 over the marshalled payloads are arguments. A
  version counts edits of one note and stays far below the range of \<open>int64\<close>.
\<close>

section \<open>Data\<close>

datatype 'a jtext = NoText | Doc 'a | Garbled

record collabScalar =
  cs_Value :: string
  cs_Version :: int
  cs_UserID :: string

record collabState =
  st_Title :: collabScalar
  st_PageType :: collabScalar
  st_ParentID :: collabScalar
  st_Pinned :: bool
  st_SortOrder :: int
  st_Content :: string
  st_Board :: "KanbanBoard option"
  st_CollabVersion :: int

record NoteCollaborationOperation =
  op_OpID :: string
  op_Type :: string
  op_Field :: string
  op_Value :: string
  op_Index :: int
  op_DeleteCount :: int
  op_Text :: string
  op_ID :: string
  op_ParentID :: string
  op_ToIndex :: int

record UserNote =
  un_ID :: string
  un_NoteID :: string
  un_OwnerUserID :: string
  un_HomeID :: string
  un_ParentID :: string
  un_MCPExcluded :: bool
  un_Pinned :: bool
  un_SortOrder :: int
  un_Title :: string
  un_Content :: string
  un_BodyMarkdown :: string
  un_BodyFormat :: string
  un_PageType :: string
  un_BoardJSON :: "KanbanBoard jtext"
  un_Revision :: string
  un_Checksum :: string
  un_CRDTStateJSON :: "collabState jtext"
  un_CollabVersion :: int
  un_DeletedAt :: "time option"
  un_CreatedAt :: time
  un_UpdatedAt :: time
  un_UpdatedBy :: string

text \<open>
  The JSON of a logged operation: an operation of a collaborator, the snapshot map of
  \<open>materializeNoteFromState\<close>, or the map of \<open>deleteNote\<close>.
\<close>

datatype opDoc =
    CollabDoc NoteCollaborationOperation
  | SnapshotDoc (sd_title: string) (sd_content: string) (sd_page_type: string) (sd_parent_id: string)
      (sd_pinned: bool) (sd_sort_order: int) (sd_board: "KanbanBoard option")
  | DeleteDoc

text \<open>What is hashed: the revision payload, the bytes of a content, and the payload of a deletion.\<close>

datatype hashed =
    RevisionPayload string string "KanbanBoard jtext" string string bool int
  | ContentBytes string
  | DeletePayload

record decoders =
  dec_string :: "string \<Rightarrow> string result"
  dec_int :: "string \<Rightarrow> int result"
  dec_bool :: "string \<Rightarrow> bool result"
  dec_board :: "string \<Rightarrow> KanbanBoard result"
  dec_column :: "string \<Rightarrow> KanbanColumn result"
  dec_card :: "string \<Rightarrow> KanbanCard result"

record noteEnv =
  ne_unicode :: unicode
  ne_json :: decoders
  ne_sha :: "hashed \<Rightarrow> string"

abbreviation pageTypeOf :: "noteEnv \<Rightarrow> string \<Rightarrow> string" where
  "pageTypeOf E \<equiv> normalizePageType (ne_unicode E)"

section \<open>Applying an operation\<close>

definition boardOf :: "collabState \<Rightarrow> KanbanBoard" where
  "boardOf st = (case st_Board st of None \<Rightarrow> emptyBoard | Some b \<Rightarrow> b)"

definition setField :: "noteEnv \<Rightarrow> collabState \<Rightarrow> string \<Rightarrow> NoteCollaborationOperation \<Rightarrow> collabState result" where
  "setField E st userID p =
     (let nextVersion = st_CollabVersion st + 1;
          scalar = (\<lambda>v. \<lparr>cs_Value = v, cs_Version = nextVersion, cs_UserID = userID\<rparr>);
          js = ne_json E
      in if op_Field p = ''title'' then bindR (dec_string js (op_Value p)) (\<lambda>v. Inr (st\<lparr>st_Title := scalar v\<rparr>))
         else if op_Field p = ''page_type'' then bindR (dec_string js (op_Value p)) (\<lambda>v. Inr (st\<lparr>st_PageType := scalar (pageTypeOf E v)\<rparr>))
         else if op_Field p = ''parent_id'' then bindR (dec_string js (op_Value p)) (\<lambda>v. Inr (st\<lparr>st_ParentID := scalar (trimSpace v)\<rparr>))
         else if op_Field p = ''sort_order'' then bindR (dec_int js (op_Value p)) (\<lambda>v. Inr (st\<lparr>st_SortOrder := v\<rparr>))
         else if op_Field p = ''pinned'' then bindR (dec_bool js (op_Value p)) (\<lambda>v. Inr (st\<lparr>st_Pinned := v\<rparr>))
         else if op_Field p = ''content'' then bindR (dec_string js (op_Value p)) (\<lambda>v. Inr (st\<lparr>st_Content := v\<rparr>))
         else Inl (ErrMsg ''unsupported field''))"

definition applyEdit :: "noteEnv \<Rightarrow> collabState \<Rightarrow> string \<Rightarrow> NoteCollaborationOperation \<Rightarrow> collabState result" where
  "applyEdit E st userID p =
     (let js = ne_json E; onBoard = (\<lambda>f. st\<lparr>st_Board := map_option f (st_Board st)\<rparr>) in
      if op_Type p = ''set_field'' then setField E st userID p
      else if op_Type p = ''text_insert'' then Inr (st\<lparr>st_Content := insertAt (st_Content st) (op_Index p) (op_Text p)\<rparr>)
      else if op_Type p = ''text_delete''
      then bindR (deleteAt (st_Content st) (op_Index p) (op_DeleteCount p)) (\<lambda>c. Inr (st\<lparr>st_Content := c\<rparr>))
      else if op_Type p = ''text_replace'' then Inr (st\<lparr>st_Content := op_Text p\<rparr>)
      else if op_Type p = ''board_replace'' then bindR (dec_board js (op_Value p)) (\<lambda>b. Inr (st\<lparr>st_Board := Some b\<rparr>))
      else if op_Type p = ''kanban_column_upsert''
      then bindR (dec_column js (op_Value p)) (\<lambda>c. Inr (st\<lparr>st_Board := Some (upsertColumn c (boardOf st))\<rparr>))
      else if op_Type p = ''kanban_column_delete'' then Inr (onBoard (deleteColumn (op_ID p)))
      else if op_Type p = ''kanban_column_move'' then Inr (onBoard (moveColumn (op_ID p) (op_ToIndex p)))
      else if op_Type p = ''kanban_card_upsert''
      then bindR (dec_card js (op_Value p)) (\<lambda>c. Inr (st\<lparr>st_Board := Some (upsertCard (op_ParentID p) c (boardOf st))\<rparr>))
      else if op_Type p = ''kanban_card_delete'' then Inr (onBoard (deleteCard (op_ParentID p) (op_ID p)))
      else if op_Type p = ''kanban_card_move'' then Inr (onBoard (moveCard (op_ID p) (op_ParentID p) (op_ToIndex p)))
      else Inl (ErrMsg ''unsupported collaboration op''))"

definition applyCollaborationOperation ::
    "noteEnv \<Rightarrow> collabState \<Rightarrow> string \<Rightarrow> NoteCollaborationOperation \<Rightarrow> collabState result" where
  "applyCollaborationOperation E st userID p =
     bindR (applyEdit E st userID p) (\<lambda>st'. Inr (st'\<lparr>st_CollabVersion := st_CollabVersion st + 1\<rparr>))"

section \<open>From rows to states and back\<close>

definition noteBodyText :: "UserNote \<Rightarrow> string" where
  "noteBodyText n = (if un_BodyMarkdown n \<noteq> [] then un_BodyMarkdown n else un_Content n)"

definition noteBodyFormat :: "UserNote \<Rightarrow> string" where
  "noteBodyFormat n = (if \<not> blank (un_BodyFormat n) then un_BodyFormat n else ''markdown'')"

fun boardDoc :: "KanbanBoard jtext \<Rightarrow> KanbanBoard option" where
  "boardDoc (Doc b) = Some b"
| "boardDoc _ = None"

definition fillScalar :: "collabScalar \<Rightarrow> string \<Rightarrow> collabScalar" where
  "fillScalar s v = (if cs_Value s = [] then s\<lparr>cs_Value := v\<rparr> else s)"

definition decodeCollabState :: "noteEnv \<Rightarrow> UserNote \<Rightarrow> collabState" where
  "decodeCollabState E n =
     (case un_CRDTStateJSON n of
        Doc st \<Rightarrow> st\<lparr>
          st_PageType := fillScalar (st_PageType st) (pageTypeOf E (un_PageType n)),
          st_ParentID := fillScalar (st_ParentID st) (un_ParentID n),
          st_Title := fillScalar (st_Title st) (un_Title n),
          st_Content := (if st_Content st = [] then noteBodyText n else st_Content st),
          st_SortOrder := (if st_SortOrder st = 0 then un_SortOrder n else st_SortOrder st),
          st_Pinned := (if st_Pinned st then True else un_Pinned n),
          st_Board := (case st_Board st of None \<Rightarrow> boardDoc (un_BoardJSON n) | Some b \<Rightarrow> Some b),
          st_CollabVersion := (if st_CollabVersion st < un_CollabVersion n then un_CollabVersion n else st_CollabVersion st)\<rparr>
      | _ \<Rightarrow>
        (let scalar = (\<lambda>v. \<lparr>cs_Value = v, cs_Version = un_CollabVersion n, cs_UserID = []\<rparr>) in
         \<lparr>st_Title = scalar (un_Title n), st_PageType = scalar (pageTypeOf E (un_PageType n)), st_ParentID = scalar (un_ParentID n),
          st_Pinned = un_Pinned n, st_SortOrder = un_SortOrder n, st_Content = noteBodyText n,
          st_Board = boardDoc (un_BoardJSON n), st_CollabVersion = un_CollabVersion n\<rparr>))"

definition encodeBoard :: "string \<Rightarrow> KanbanBoard option \<Rightarrow> KanbanBoard jtext \<times> KanbanBoard option" where
  "encodeBoard pageType board =
     (if pageType \<noteq> NotePageTypeKanban then (NoText, None)
      else let v = (case board of None \<Rightarrow> emptyBoard | Some b \<Rightarrow> b) in (Doc v, Some v))"

definition materializedContent :: "string \<Rightarrow> collabState \<Rightarrow> KanbanBoard option \<Rightarrow> string" where
  "materializedContent pageType st board =
     (if pageType = NotePageTypeNotebook then []
      else case board of
        Some b \<Rightarrow> if pageType = NotePageTypeKanban \<and> st_Content st = [] then kanbanMarkdown (cs_Value (st_Title st)) b else st_Content st
      | None \<Rightarrow> st_Content st)"

definition settledState :: "noteEnv \<Rightarrow> collabState \<Rightarrow> collabState" where
  "settledState E st =
     (if blank (cs_Value (st_ParentID st)) \<or> pageTypeOf E (cs_Value (st_PageType st)) = NotePageTypeNotebook
      then st\<lparr>st_Pinned := False\<rparr> else st)"

definition materializeNoteFromState :: "noteEnv \<Rightarrow> UserNote \<Rightarrow> collabState \<Rightarrow> string \<Rightarrow> time \<Rightarrow> UserNote \<times> opDoc" where
  "materializeNoteFromState E base st0 updatedBy updatedAt =
     (let pageType = pageTypeOf E (cs_Value (st_PageType st0));
          (boardJSON, board) = encodeBoard pageType (st_Board st0);
          st = settledState E st0;
          content = materializedContent pageType st board;
          title = trimSpace (cs_Value (st_Title st));
          parent = trimSpace (cs_Value (st_ParentID st));
          note = base\<lparr>
            un_Title := (if title = [] then titleFromNoteID (ne_unicode E) (un_NoteID base) else title),
            un_ParentID := parent, un_Pinned := st_Pinned st, un_SortOrder := st_SortOrder st,
            un_Content := content, un_BodyMarkdown := content, un_BodyFormat := ''markdown'', un_PageType := pageType,
            un_BoardJSON := boardJSON,
            un_Revision := ne_sha E (RevisionPayload content pageType boardJSON title parent (st_Pinned st) (st_SortOrder st)),
            un_Checksum := ne_sha E (ContentBytes content),
            un_CRDTStateJSON := Doc st, un_CollabVersion := st_CollabVersion st,
            un_CreatedAt := (if isZero (un_CreatedAt base) then updatedAt else un_CreatedAt base),
            un_UpdatedAt := updatedAt, un_UpdatedBy := updatedBy\<rparr>
      in (note, SnapshotDoc (un_Title note) content pageType parent (st_Pinned st) (st_SortOrder st) (st_Board st)))"

section \<open>Facts about operations\<close>

lemma apply_version: "applyCollaborationOperation E st u p = Inr st' \<Longrightarrow> st_CollabVersion st' = st_CollabVersion st + 1"
  by (auto simp: applyCollaborationOperation_def bindR_Inr_iff)

lemma settled_simps [simp]:
  "st_Title (settledState E st) = st_Title st" "st_PageType (settledState E st) = st_PageType st"
  "st_ParentID (settledState E st) = st_ParentID st" "st_SortOrder (settledState E st) = st_SortOrder st"
  "st_Content (settledState E st) = st_Content st" "st_Board (settledState E st) = st_Board st"
  "st_CollabVersion (settledState E st) = st_CollabVersion st"
  by (simp_all add: settledState_def)

lemma settledState_idem [simp]: "settledState E (settledState E st) = settledState E st"
  by (simp add: settledState_def)

lemma materializedContent_settled [simp]: "materializedContent pt (settledState E st) b = materializedContent pt st b"
  by (cases b) (simp_all add: materializedContent_def)

lemmas materialize_defs = materializeNoteFromState_def Let_def case_prod_unfold

lemma materialize_simps:
  fixes E base st u t
  defines "n \<equiv> fst (materializeNoteFromState E base st u t)" and "pt \<equiv> pageTypeOf E (cs_Value (st_PageType st))"
  shows "un_ID n = un_ID base" "un_NoteID n = un_NoteID base" "un_OwnerUserID n = un_OwnerUserID base" "un_HomeID n = un_HomeID base"
    "un_MCPExcluded n = un_MCPExcluded base" "un_DeletedAt n = un_DeletedAt base" "un_PageType n = pt"
    "un_ParentID n = trimSpace (cs_Value (st_ParentID st))" "un_CollabVersion n = st_CollabVersion st" "un_UpdatedAt n = t" "un_UpdatedBy n = u"
    "un_CRDTStateJSON n = Doc (settledState E st)" "un_BoardJSON n = fst (encodeBoard pt (st_Board st))"
    "un_BodyMarkdown n = un_Content n" "un_Content n = materializedContent pt st (snd (encodeBoard pt (st_Board st)))"
    "un_SortOrder n = st_SortOrder st" "un_Pinned n = st_Pinned (settledState E st)"
    "un_BodyFormat n = ''markdown''"
    "un_Title n = (if blank (cs_Value (st_Title st)) then titleFromNoteID (ne_unicode E) (un_NoteID base) else trimSpace (cs_Value (st_Title st)))"
  by (simp_all add: n_def pt_def materialize_defs blank_def)

lemma encodeBoard_simps [simp]:
  "encodeBoard NotePageTypeText b = (NoText, None)" "encodeBoard NotePageTypeNotebook b = (NoText, None)"
  "encodeBoard NotePageTypeKanban (Some v) = (Doc v, Some v)" "encodeBoard NotePageTypeKanban None = (Doc emptyBoard, Some emptyBoard)"
  by (simp_all add: encodeBoard_def)

lemma kanbanMarkdown_nonempty [simp]: "kanbanMarkdown title b \<noteq> []"
proof -
  have "CHR ''#'' \<in> set (joinStrings sep ([''# '' @ v, []] @ ws))" for v sep ws
    by (cases ws) simp_all
  then show ?thesis unfolding kanbanMarkdown_def Let_def by (rule trimSpace_graphic_nonempty) (simp add: graphic_def)
qed

text \<open>Reading a materialised row gives the state back, when the state is one that an edit produces.\<close>

definition normalState :: "noteEnv \<Rightarrow> collabState \<Rightarrow> bool" where
  "normalState E st \<longleftrightarrow> cs_Value (st_Title st) \<noteq> [] \<and> pageTypeOf E (cs_Value (st_PageType st)) = cs_Value (st_PageType st)
     \<and> (cs_Value (st_PageType st) = NotePageTypeKanban \<longrightarrow> st_Content st \<noteq> [] \<and> st_Board st \<noteq> None)"

lemma fillScalar_nonempty [simp]: "cs_Value s \<noteq> [] \<Longrightarrow> fillScalar s v = s"
  by (simp add: fillScalar_def)

lemma fillScalar_empty: "fillScalar s (trimSpace (cs_Value s)) = s"
  by (cases "cs_Value s = []") (simp_all add: fillScalar_def)

lemma decode_materialize:
  assumes "normalState E st"
  shows "decodeCollabState E (fst (materializeNoteFromState E base st u t)) = settledState E st"
proof -
  have pt: "cs_Value (st_PageType st) \<in> {NotePageTypeText, NotePageTypeKanban, NotePageTypeNotebook}"
    using assms normalizePageType_range [of "ne_unicode E" "cs_Value (st_PageType st)"] by (simp add: normalState_def)
  then have nz: "cs_Value (st_PageType st) \<noteq> []" by auto
  have c: "st_Content st = [] \<Longrightarrow> materializedContent (cs_Value (st_PageType st)) st (snd (encodeBoard (cs_Value (st_PageType st)) (st_Board st))) = []"
    using pt assms by (auto simp: normalState_def materializedContent_def)
  have b: "st_Board st = None \<Longrightarrow> boardDoc (fst (encodeBoard (cs_Value (st_PageType st)) (st_Board st))) = None"
    using pt assms by (auto simp: normalState_def)
  show ?thesis
    using assms nz c b by (simp add: decodeCollabState_def materialize_simps noteBodyText_def normalState_def fillScalar_empty split: option.split)
qed

section \<open>The body of a board goes stale\<close>

definition boardOps :: "string set" where
  "boardOps = {''board_replace'', ''kanban_column_upsert'', ''kanban_column_delete'', ''kanban_column_move'',
     ''kanban_card_upsert'', ''kanban_card_delete'', ''kanban_card_move''}"

lemma board_op_keeps:
  assumes "applyCollaborationOperation E st u p = Inr st'" "op_Type p \<in> boardOps"
  shows "st_Content st' = st_Content st" "st_PageType st' = st_PageType st"
  using assms by (auto simp: applyCollaborationOperation_def applyEdit_def boardOps_def bindR_Inr_iff Let_def)

text \<open>
  The body of a board is a projection of the board, written when the content is empty. It is not written to the
  state, so the next edit reads it back as content and no later edit of the board renews it.
\<close>

theorem kanban_body_frozen:
  assumes kanban: "pageTypeOf E (cs_Value (st_PageType st)) = NotePageTypeKanban" "cs_Value (st_PageType st) \<noteq> []"
    and empty: "st_Content st = []" and board: "st_Board st = Some b"
    and n: "n = fst (materializeNoteFromState E base st u t)"
    and edit: "applyCollaborationOperation E (decodeCollabState E n) u' p = Inr st'" "op_Type p \<in> boardOps"
  shows "un_BodyMarkdown n = kanbanMarkdown (cs_Value (st_Title st)) b
    \<and> un_BodyMarkdown (fst (materializeNoteFromState E n st' u' t')) = kanbanMarkdown (cs_Value (st_Title st)) b"
proof -
  have body: "un_BodyMarkdown n = kanbanMarkdown (cs_Value (st_Title st)) b" "un_PageType n = NotePageTypeKanban"
    using kanban empty board by (simp_all add: n materialize_simps materializedContent_def)
  have "st_Content (decodeCollabState E n) = un_BodyMarkdown n" "st_PageType (decodeCollabState E n) = st_PageType st"
    using empty kanban(2) body(1) by (simp_all add: n decodeCollabState_def materialize_simps noteBodyText_def)
  then have s: "st_Content st' = un_BodyMarkdown n" "st_PageType st' = st_PageType st" using board_op_keeps [OF edit] by simp_all
  then have "st_Content st' \<noteq> []" using body(1) by simp
  then show ?thesis using s body(1) kanban(1)
    by (cases "st_Board st'") (simp_all add: materialize_simps materializedContent_def)
qed

end
