(* ===== verification/Note_Store.thy ===== *)
theory Note_Store
  imports Note_State "HOL-Library.Product_Lexorder"
begin

text \<open>
  The notes tables (\<open>internal/store/user_notes.go\<close>) with their constraints and triggers from the migrations
  \<open>000001\<close>, \<open>000026\<close> and \<open>000027\<close>. A row is kept in the form in which \<open>scanUserNote\<close> reads it back. A statement that violates a
  constraint fails and its transaction leaves the tables as they were. Notifications of listeners are left out.
\<close>

section \<open>Tables\<close>

record NoteShare =
  sh_NoteID :: string
  sh_HomeID :: string
  sh_TargetUserID :: string
  sh_SharedBy :: string
  sh_CreatedAt :: time
  sh_UpdatedAt :: time

record NoteOperation =
  no_NoteID :: string
  no_OpID :: string
  no_ActorUserID :: string
  no_SessionID :: string
  no_BaseVersion :: int
  no_AppliedVersion :: int
  no_OpJSON :: opDoc
  no_CreatedAt :: time

text \<open>Users with their addresses, homes, home members \<open>(home, user)\<close> and app sessions are tables of other components.\<close>

record notesDb =
  nd_users :: "(string, string) gomap"
  nd_homes :: "string list"
  nd_members :: "(string \<times> string) list"
  nd_sessions :: "string list"
  nd_notes :: "UserNote list"
  nd_shares :: "NoteShare list"
  nd_ops :: "NoteOperation list"

abbreviation userExists :: "notesDb \<Rightarrow> string \<Rightarrow> bool" where
  "userExists db u \<equiv> mget (nd_users db) u \<noteq> None"

definition errConstraint :: error where
  "errConstraint = ErrMsg ''constraint violation''"

section \<open>Reads\<close>

definition noteRow :: "(UserNote \<Rightarrow> bool) \<Rightarrow> notesDb \<Rightarrow> UserNote result" where
  "noteRow P db = (case find P (nd_notes db) of None \<Rightarrow> Inl ErrNotFound | Some n \<Rightarrow> Inr n)"

definition sharedWith :: "notesDb \<Rightarrow> string \<Rightarrow> string \<Rightarrow> bool" where
  "sharedWith db nid userID \<longleftrightarrow> list_ex (\<lambda>s. sh_NoteID s = nid \<and> sh_TargetUserID s = userID) (nd_shares db)"

definition GetUserNoteByID :: "notesDb \<Rightarrow> string \<Rightarrow> UserNote result" where
  "GetUserNoteByID db nid = noteRow (\<lambda>n. un_ID n = nid) db"

definition GetProfileNote :: "notesDb \<Rightarrow> string \<Rightarrow> string \<Rightarrow> UserNote result" where
  "GetProfileNote db ownerUserID noteKey = noteRow (\<lambda>n. un_OwnerUserID n = ownerUserID \<and> un_NoteID n = noteKey) db"

text \<open>A home id of the empty string never matches: the column is NULL then.\<close>

definition inHome :: "string \<Rightarrow> UserNote \<Rightarrow> bool" where
  "inHome homeID n \<longleftrightarrow> un_HomeID n \<noteq> [] \<and> un_HomeID n = homeID"

definition GetHomeNoteVisibleToUser :: "notesDb \<Rightarrow> string \<Rightarrow> string \<Rightarrow> string \<Rightarrow> UserNote result" where
  "GetHomeNoteVisibleToUser db homeID userID noteKey =
     noteRow (\<lambda>n. inHome homeID n \<and> un_NoteID n = noteKey \<and> (un_OwnerUserID n = userID \<or> sharedWith db (un_ID n) userID)) db"

definition GetHomeNoteByKey :: "notesDb \<Rightarrow> string \<Rightarrow> string \<Rightarrow> UserNote result" where
  "GetHomeNoteByKey db homeID noteKey = noteRow (\<lambda>n. inHome homeID n \<and> un_NoteID n = noteKey) db"

definition GetOwnedHomeNote :: "notesDb \<Rightarrow> string \<Rightarrow> string \<Rightarrow> string \<Rightarrow> UserNote result" where
  "GetOwnedHomeNote db homeID ownerUserID noteKey =
     noteRow (\<lambda>n. inHome homeID n \<and> un_OwnerUserID n = ownerUserID \<and> un_NoteID n = noteKey) db"

text \<open>Rows of a list query by \<open>updated_at DESC\<close>; rows with equal times may come in any order and keep their own here.\<close>

definition newestFirst :: "UserNote list \<Rightarrow> UserNote list" where
  "newestFirst = sort_key (\<lambda>n. - un_UpdatedAt n)"

definition ListProfileNotes :: "notesDb \<Rightarrow> string \<Rightarrow> bool \<Rightarrow> UserNote list" where
  "ListProfileNotes db ownerUserID includeDeleted =
     newestFirst (filter (\<lambda>n. un_OwnerUserID n = ownerUserID \<and> (includeDeleted \<or> un_DeletedAt n = None)) (nd_notes db))"

definition ListVisibleHomeNotes :: "notesDb \<Rightarrow> string \<Rightarrow> string \<Rightarrow> bool \<Rightarrow> UserNote list" where
  "ListVisibleHomeNotes db homeID userID includeDeleted =
     newestFirst (filter (\<lambda>n. inHome homeID n \<and> (un_OwnerUserID n = userID \<or> sharedWith db (un_ID n) userID)
       \<and> (includeDeleted \<or> un_DeletedAt n = None)) (nd_notes db))"

definition ListSyncedHomeNotes :: "notesDb \<Rightarrow> string \<Rightarrow> bool \<Rightarrow> UserNote list" where
  "ListSyncedHomeNotes db homeID includeDeleted =
     newestFirst (filter (\<lambda>n. inHome homeID n \<and> list_ex (\<lambda>s. sh_NoteID s = un_ID n) (nd_shares db)
       \<and> (includeDeleted \<or> un_DeletedAt n = None)) (nd_notes db))"

definition ListNoteShares :: "notesDb \<Rightarrow> string \<Rightarrow> (NoteShare \<times> string) list" where
  "ListNoteShares db nid =
     concat (map (\<lambda>s. case mget (nd_users db) (sh_TargetUserID s) of None \<Rightarrow> [] | Some email \<Rightarrow> [(s, email)])
       (sort_key sh_CreatedAt (filter (\<lambda>s. sh_NoteID s = nid) (nd_shares db))))"

definition CountNoteShares :: "notesDb \<Rightarrow> string \<Rightarrow> nat" where
  "CountNoteShares db nid = length (filter (\<lambda>s. sh_NoteID s = nid) (nd_shares db))"

definition opsOf :: "notesDb \<Rightarrow> string \<Rightarrow> NoteOperation list" where
  "opsOf db nid = filter (\<lambda>p. no_NoteID p = nid) (nd_ops db)"

definition ListNoteOperationsSince :: "notesDb \<Rightarrow> string \<Rightarrow> int \<Rightarrow> int \<Rightarrow> NoteOperation list" where
  "ListNoteOperationsSince db nid appliedVersion limit =
     (let limit = (if limit \<le> 0 then 500 else limit) in
      take (nat limit) (sort_key no_AppliedVersion (filter (\<lambda>p. no_AppliedVersion p > appliedVersion) (opsOf db nid))))"

definition GetOldestNoteOperationVersion :: "notesDb \<Rightarrow> string \<Rightarrow> int" where
  "GetOldestNoteOperationVersion db nid = (case opsOf db nid of [] \<Rightarrow> 0 | p # ps \<Rightarrow> fold (\<lambda>q m. min m (no_AppliedVersion q)) ps (no_AppliedVersion p))"

definition HasNoteOperation :: "notesDb \<Rightarrow> string \<Rightarrow> string \<Rightarrow> bool" where
  "HasNoteOperation db nid opID \<longleftrightarrow> list_ex (\<lambda>p. no_NoteID p = nid \<and> no_OpID p = opID) (nd_ops db)"

section \<open>Writes\<close>

text \<open>The row that reading back a written note gives: \<open>nullableText\<close>, \<open>noteBodyMarkdown\<close>, \<open>noteBodyFormat\<close>, \<open>scanUserNote\<close>.\<close>

definition storedNote :: "UserNote \<Rightarrow> UserNote" where
  "storedNote n = n\<lparr>un_HomeID := trimSpace (un_HomeID n), un_ParentID := trimSpace (un_ParentID n),
     un_BodyMarkdown := noteBodyText n, un_Content := noteBodyText n, un_BodyFormat := noteBodyFormat n\<rparr>"

definition sameKey :: "UserNote \<Rightarrow> UserNote \<Rightarrow> bool" where
  "sameKey a b \<longleftrightarrow> un_OwnerUserID a = un_OwnerUserID b \<and> un_NoteID a = un_NoteID b"

definition childOf :: "UserNote \<Rightarrow> UserNote \<Rightarrow> bool" where
  "childOf c p \<longleftrightarrow> un_ParentID c \<noteq> [] \<and> un_OwnerUserID c = un_OwnerUserID p \<and> un_ParentID c = un_NoteID p"

definition active :: "UserNote \<Rightarrow> bool" where
  "active n \<longleftrightarrow> un_DeletedAt n = None"

text \<open>The trigger \<open>validate_user_note_parent\<close> on the table before the statement.\<close>

definition parentValid :: "UserNote list \<Rightarrow> UserNote \<Rightarrow> bool" where
  "parentValid rows r \<longleftrightarrow> \<not> active r \<or> un_ParentID r = [] \<or>
     (un_ParentID r \<noteq> un_NoteID r \<and> list_ex (\<lambda>p. childOf r p \<and> active p \<and> un_PageType p = NotePageTypeNotebook) rows)"

text \<open>The trigger \<open>protect_user_note_notebook_parent\<close> and the restricted foreign key, for an update of \<open>old\<close>.\<close>

definition parentProtected :: "UserNote list \<Rightarrow> UserNote \<Rightarrow> UserNote \<Rightarrow> bool" where
  "parentProtected rows old r \<longleftrightarrow>
     \<not> (active old \<and> un_PageType old = NotePageTypeNotebook \<and> (\<not> active r \<or> un_PageType r \<noteq> NotePageTypeNotebook)
        \<and> list_ex (\<lambda>c. childOf c old \<and> active c) rows)
     \<and> (sameKey old r \<or> \<not> list_ex (\<lambda>c. childOf c old) rows)"

definition replaceRow :: "UserNote \<Rightarrow> UserNote list \<Rightarrow> UserNote list" where
  "replaceRow r rows = upsertBy un_ID r rows"

definition rowAdmissible :: "notesDb \<Rightarrow> UserNote \<Rightarrow> bool" where
  "rowAdmissible db r \<longleftrightarrow>
     userExists db (un_OwnerUserID r) \<and> userExists db (un_UpdatedBy r) \<and> (un_HomeID r = [] \<or> un_HomeID r \<in> set (nd_homes db))
     \<and> list_all (\<lambda>m. un_ID m = un_ID r \<or> \<not> sameKey m r \<and> \<not> (inHome (un_HomeID r) m \<and> un_NoteID m = un_NoteID r)) (nd_notes db)
     \<and> (un_Pinned r \<longrightarrow> un_ParentID r \<noteq> [] \<and> un_PageType r \<noteq> NotePageTypeNotebook)
     \<and> (un_ParentID r = [] \<or> list_ex (childOf r) (replaceRow r (nd_notes db)))
     \<and> parentValid (nd_notes db) r
     \<and> (case find (\<lambda>m. un_ID m = un_ID r) (nd_notes db) of None \<Rightarrow> True | Some old \<Rightarrow> parentProtected (nd_notes db) old r)"

definition UpsertUserNote :: "UserNote \<Rightarrow> notesDb \<Rightarrow> notesDb result" where
  "UpsertUserNote n db =
     (let created = (case find (\<lambda>m. un_ID m = un_ID n) (nd_notes db) of None \<Rightarrow> un_CreatedAt n | Some old \<Rightarrow> un_CreatedAt old);
          r = (storedNote n)\<lparr>un_CreatedAt := created\<rparr>
      in if rowAdmissible db r then Inr (db\<lparr>nd_notes := replaceRow r (nd_notes db)\<rparr>) else Inl errConstraint)"

definition nullableExistingSessionID :: "notesDb \<Rightarrow> string \<Rightarrow> string" where
  "nullableExistingSessionID db sessionID = (let s = trimSpace sessionID in if s \<in> set (nd_sessions db) then s else [])"

definition insertOperation :: "NoteOperation \<Rightarrow> notesDb \<Rightarrow> notesDb result" where
  "insertOperation p db =
     (if HasNoteOperation db (no_NoteID p) (no_OpID p) then Inr db
      else if \<not> list_ex (\<lambda>n. un_ID n = no_NoteID p) (nd_notes db) \<or> \<not> userExists db (no_ActorUserID p) then Inl errConstraint
      else Inr (db\<lparr>nd_ops := nd_ops db @ [p\<lparr>no_SessionID := nullableExistingSessionID db (no_SessionID p)\<rparr>]\<rparr>))"

fun insertOperations :: "NoteOperation list \<Rightarrow> notesDb \<Rightarrow> notesDb result" where
  "insertOperations [] db = Inr db"
| "insertOperations (p # ps) db = bindR (insertOperation p db) (insertOperations ps)"

definition saveUserNoteWithOperations :: "UserNote \<Rightarrow> NoteOperation list \<Rightarrow> notesDb \<Rightarrow> notesDb result" where
  "saveUserNoteWithOperations n ops db = bindR (UpsertUserNote n db) (insertOperations ops)"

definition sharePK :: "NoteShare \<Rightarrow> string \<times> string" where
  "sharePK s = (sh_NoteID s, sh_TargetUserID s)"

definition AddNoteShare :: "NoteShare \<Rightarrow> notesDb \<Rightarrow> notesDb result" where
  "AddNoteShare s db =
     (if list_ex (\<lambda>n. un_ID n = sh_NoteID s) (nd_notes db) \<and> sh_HomeID s \<in> set (nd_homes db)
         \<and> userExists db (sh_TargetUserID s) \<and> userExists db (sh_SharedBy s)
      then (case find (\<lambda>m. sharePK m = sharePK s) (nd_shares db) of
              None \<Rightarrow> Inr (db\<lparr>nd_shares := nd_shares db @ [s]\<rparr>)
            | Some old \<Rightarrow> Inr (db\<lparr>nd_shares := upsertBy sharePK (s\<lparr>sh_CreatedAt := sh_CreatedAt old\<rparr>) (nd_shares db)\<rparr>))
      else Inl errConstraint)"

definition RemoveNoteShare :: "string \<Rightarrow> string \<Rightarrow> notesDb \<Rightarrow> notesDb result" where
  "RemoveNoteShare nid targetUserID db =
     (if sharedWith db nid targetUserID
      then Inr (db\<lparr>nd_shares := filter (\<lambda>s. sharePK s \<noteq> (nid, targetUserID)) (nd_shares db)\<rparr>)
      else Inl ErrNotFound)"

definition RemoveNoteSharesForHomeUser :: "string \<Rightarrow> string \<Rightarrow> notesDb \<Rightarrow> notesDb" where
  "RemoveNoteSharesForHomeUser homeID userID db =
     db\<lparr>nd_shares := filter (\<lambda>s. \<not> (sh_HomeID s = homeID \<and> sh_TargetUserID s = userID)) (nd_shares db)\<rparr>"

section \<open>The invariant of the tables\<close>

definition keys_ok :: "UserNote list \<Rightarrow> bool" where
  "keys_ok rows \<longleftrightarrow> distinct (map un_ID rows) \<and>
     (\<forall>m \<in> set rows. \<forall>n \<in> set rows. sameKey m n \<or> inHome (un_HomeID n) m \<and> un_NoteID m = un_NoteID n \<longrightarrow> m = n)"

definition tree_ok :: "UserNote list \<Rightarrow> bool" where
  "tree_ok rows \<longleftrightarrow> (\<forall>n \<in> set rows. active n \<and> un_ParentID n \<noteq> [] \<longrightarrow>
     un_ParentID n \<noteq> un_NoteID n \<and> (\<exists>p \<in> set rows. childOf n p \<and> active p \<and> un_PageType p = NotePageTypeNotebook))"

definition pins_ok :: "UserNote list \<Rightarrow> bool" where
  "pins_ok rows \<longleftrightarrow> (\<forall>n \<in> set rows. un_Pinned n \<longrightarrow> un_ParentID n \<noteq> [] \<and> un_PageType n \<noteq> NotePageTypeNotebook)"

definition opPK :: "NoteOperation \<Rightarrow> string \<times> string" where
  "opPK p = (no_NoteID p, no_OpID p)"

definition log_ok :: "notesDb \<Rightarrow> bool" where
  "log_ok db \<longleftrightarrow> distinct (map opPK (nd_ops db)) \<and> (\<forall>p \<in> set (nd_ops db). no_NoteID p \<in> un_ID ` set (nd_notes db))"

definition shares_ok :: "notesDb \<Rightarrow> bool" where
  "shares_ok db \<longleftrightarrow> distinct (map sharePK (nd_shares db)) \<and> (\<forall>s \<in> set (nd_shares db). sh_NoteID s \<in> un_ID ` set (nd_notes db))"

definition tables_ok :: "notesDb \<Rightarrow> bool" where
  "tables_ok db \<longleftrightarrow> keys_ok (nd_notes db) \<and> tree_ok (nd_notes db) \<and> pins_ok (nd_notes db) \<and> log_ok db \<and> shares_ok db
     \<and> (\<forall>n \<in> set (nd_notes db). storedNote n = n)"

lemma storedNote_idem: "storedNote ((storedNote n)\<lparr>un_CreatedAt := c\<rparr>) = (storedNote n)\<lparr>un_CreatedAt := c\<rparr>"
  by (simp add: storedNote_def noteBodyText_def noteBodyFormat_def)

lemma keys_ok_ids: "keys_ok rows \<Longrightarrow> distinct (map un_ID rows)"
  by (simp add: keys_ok_def)

lemma set_replaceRow: "keys_ok rows \<Longrightarrow> set (replaceRow r rows) = insert r {m \<in> set rows. un_ID m \<noteq> un_ID r}"
  by (simp add: replaceRow_def set_upsertBy keys_ok_ids)

lemma ids_replaceRow: "un_ID ` set (replaceRow r rows) = insert (un_ID r) (un_ID ` set rows)"
  by (induction rows) (auto simp: replaceRow_def)

lemma find_id: "keys_ok rows \<Longrightarrow> n \<in> set rows \<Longrightarrow> find (\<lambda>m. un_ID m = un_ID n) rows = Some n"
proof (induction rows)
  case (Cons m rows)
  then have "keys_ok rows" by (auto simp: keys_ok_def)
  with Cons show ?case by (auto simp: keys_ok_def image_iff)
qed simp

lemma childOf_key: "childOf c p \<Longrightarrow> sameKey p q \<Longrightarrow> childOf c q"
  by (auto simp: childOf_def sameKey_def)

lemma childOf_unique: "childOf c p \<Longrightarrow> childOf c q \<Longrightarrow> sameKey p q"
  by (simp add: childOf_def sameKey_def)

lemma sameKey_sym: "sameKey p q \<longleftrightarrow> sameKey q p"
  by (auto simp: sameKey_def)

lemma keys_replaceRow:
  assumes "keys_ok rows" "\<forall>m \<in> set rows. un_ID m = un_ID r \<or> \<not> sameKey m r \<and> \<not> (inHome (un_HomeID r) m \<and> un_NoteID m = un_NoteID r)"
  shows "keys_ok (replaceRow r rows)"
proof -
  have "m = n" if m: "m \<in> set (replaceRow r rows)" and n: "n \<in> set (replaceRow r rows)"
    and clash: "sameKey m n \<or> inHome (un_HomeID n) m \<and> un_NoteID m = un_NoteID n" for m n
  proof (rule ccontr)
    assume ne: "m \<noteq> n"
    have r: "m = r \<or> n = r"
    proof (rule ccontr)
      assume "\<not> (m = r \<or> n = r)"
      then have "m \<in> set rows" "n \<in> set rows" using m n set_replaceRow [OF assms(1)] by auto
      with assms(1) clash ne show False unfolding keys_ok_def by blast
    qed
    have "inHome (un_HomeID n) m \<Longrightarrow> inHome (un_HomeID m) n" by (auto simp: inHome_def)
    with clash have clash': "sameKey n m \<or> inHome (un_HomeID m) n \<and> un_NoteID n = un_NoteID m" using sameKey_sym by auto
    from r show False
    proof
      assume "m = r"
      then have "n \<in> set rows" "un_ID n \<noteq> un_ID r" using ne n set_replaceRow [OF assms(1)] by auto
      with assms(2) clash' \<open>m = r\<close> show False by blast
    next
      assume "n = r"
      then have "m \<in> set rows" "un_ID m \<noteq> un_ID r" using ne m set_replaceRow [OF assms(1)] by auto
      with assms(2) clash \<open>n = r\<close> show False by blast
    qed
  qed
  moreover have "distinct (map un_ID (replaceRow r rows))" using assms(1) by (simp add: replaceRow_def keys_ok_ids)
  ultimately show ?thesis unfolding keys_ok_def by blast
qed

lemma tree_replaceRow:
  assumes keys: "keys_ok rows" and tree: "tree_ok rows" and keys': "keys_ok (replaceRow r rows)"
    and valid: "parentValid rows r" and fk: "un_ParentID r = [] \<or> list_ex (childOf r) (replaceRow r rows)"
    and prot: "\<And>old. old \<in> set rows \<Longrightarrow> un_ID old = un_ID r \<Longrightarrow> parentProtected rows old r"
  shows "tree_ok (replaceRow r rows)"
  unfolding tree_ok_def
proof (intro ballI impI)
  fix n
  assume n: "n \<in> set (replaceRow r rows)" and a: "active n \<and> un_ParentID n \<noteq> []"
  show "un_ParentID n \<noteq> un_NoteID n \<and> (\<exists>p \<in> set (replaceRow r rows). childOf n p \<and> active p \<and> un_PageType p = NotePageTypeNotebook)"
  proof (cases "n = r")
    case True
    with a valid obtain p where p: "un_ParentID r \<noteq> un_NoteID r" "p \<in> set rows" "childOf r p" "active p" "un_PageType p = NotePageTypeNotebook"
      by (auto simp: parentValid_def list_ex_iff)
    from fk a True obtain q where q: "q \<in> set (replaceRow r rows)" "childOf r q" by (auto simp: list_ex_iff)
    have "q \<noteq> r" using q(2) p(1) by (auto simp: childOf_def)
    then have "q \<in> set rows" using q(1) set_replaceRow [OF keys] by auto
    then have "p = q" using keys p(2) childOf_unique [OF p(3) q(2)] unfolding keys_ok_def by blast
    with p q True show ?thesis by blast
  next
    case False
    then have old: "n \<in> set rows" using n set_replaceRow [OF keys] by auto
    then obtain p where p: "un_ParentID n \<noteq> un_NoteID n" "p \<in> set rows" "childOf n p" "active p" "un_PageType p = NotePageTypeNotebook"
      using tree a unfolding tree_ok_def by blast
    show ?thesis
    proof (cases "un_ID p = un_ID r")
      case True
      then have pr: "parentProtected rows p r" using prot p(2) by blast
      have "sameKey p r \<and> active r \<and> un_PageType r = NotePageTypeNotebook"
        using pr p a old unfolding parentProtected_def list_ex_iff by blast
      moreover have "r \<in> set (replaceRow r rows)" using set_replaceRow [OF keys] by simp
      ultimately show ?thesis using childOf_key [OF p(3)] p(1) by blast
    next
      case False
      then have "p \<in> set (replaceRow r rows)" using p(2) set_replaceRow [OF keys] by simp
      with p show ?thesis by blast
    qed
  qed
qed

lemma UpsertUserNote_Inr:
  assumes "UpsertUserNote n db = Inr db'"
  obtains r where "rowAdmissible db r" "db' = db\<lparr>nd_notes := replaceRow r (nd_notes db)\<rparr>"
    "r = (storedNote n)\<lparr>un_CreatedAt := un_CreatedAt r\<rparr>"
  using assms by (auto simp: UpsertUserNote_def Let_def split: if_splits)

lemma UpsertUserNote_ok:
  assumes "tables_ok db" "UpsertUserNote n db = Inr db'"
  shows "tables_ok db'"
proof -
  obtain r where r: "rowAdmissible db r" "db' = db\<lparr>nd_notes := replaceRow r (nd_notes db)\<rparr>" "r = (storedNote n)\<lparr>un_CreatedAt := un_CreatedAt r\<rparr>"
    using assms(2) by (rule UpsertUserNote_Inr)
  have stored: "storedNote r = r" using storedNote_idem r(3) by metis
  have keys: "keys_ok (nd_notes db)" using assms(1) by (simp add: tables_ok_def)
  then have keys': "keys_ok (replaceRow r (nd_notes db))"
    by (rule keys_replaceRow) (use r(1) in \<open>simp add: rowAdmissible_def list_all_iff\<close>)
  have "parentProtected (nd_notes db) old r" if "old \<in> set (nd_notes db)" "un_ID old = un_ID r" for old
    using r(1) find_id [OF keys that(1)] that(2) by (simp add: rowAdmissible_def)
  then have "tree_ok (replaceRow r (nd_notes db))"
    using r(1) assms(1) by (intro tree_replaceRow keys keys') (simp_all add: rowAdmissible_def tables_ok_def)
  moreover have "pins_ok (replaceRow r (nd_notes db))"
    using r(1) assms(1) set_replaceRow [OF keys] by (auto simp: pins_ok_def tables_ok_def rowAdmissible_def)
  moreover have "\<forall>m \<in> set (replaceRow r (nd_notes db)). storedNote m = m"
    using assms(1) set_replaceRow [OF keys] stored by (auto simp: tables_ok_def)
  ultimately show ?thesis using assms(1) keys' by (simp add: r(2) tables_ok_def log_ok_def shares_ok_def ids_replaceRow)
qed

lemma HasNoteOperation_iff: "HasNoteOperation db nid opID \<longleftrightarrow> (nid, opID) \<in> opPK ` set (nd_ops db)"
  by (auto simp: HasNoteOperation_def opPK_def list_ex_iff)

lemma note_exists_iff: "list_ex (\<lambda>n. un_ID n = nid) rows \<longleftrightarrow> nid \<in> un_ID ` set rows"
  by (auto simp: list_ex_iff)

lemma insertOperation_Inr:
  assumes "insertOperation p db = Inr db'"
  shows "db' = (if HasNoteOperation db (no_NoteID p) (no_OpID p) then db
      else db\<lparr>nd_ops := nd_ops db @ [p\<lparr>no_SessionID := nullableExistingSessionID db (no_SessionID p)\<rparr>]\<rparr>)"
    and "HasNoteOperation db (no_NoteID p) (no_OpID p) \<or> no_NoteID p \<in> un_ID ` set (nd_notes db)"
  using assms by (auto simp: insertOperation_def note_exists_iff split: if_splits)

lemma insertOperation_ok: "tables_ok db \<Longrightarrow> insertOperation p db = Inr db' \<Longrightarrow> tables_ok db'"
  using insertOperation_Inr [of p db db']
  by (simp add: tables_ok_def log_ok_def shares_ok_def HasNoteOperation_iff opPK_def split: if_splits)

lemma insertOperations_ok: "tables_ok db \<Longrightarrow> insertOperations ps db = Inr db' \<Longrightarrow> tables_ok db'"
  by (induction ps arbitrary: db) (auto simp: bindR_Inr_iff dest: insertOperation_ok)

lemma saveUserNote_ok: "tables_ok db \<Longrightarrow> saveUserNoteWithOperations n ps db = Inr db' \<Longrightarrow> tables_ok db'"
  by (auto simp: saveUserNoteWithOperations_def bindR_Inr_iff dest: UpsertUserNote_ok insertOperations_ok)

lemma AddNoteShare_ok: "tables_ok db \<Longrightarrow> AddNoteShare s db = Inr db' \<Longrightarrow> tables_ok db'"
proof -
  assume ok: "tables_ok db" and add: "AddNoteShare s db = Inr db'"
  have n: "sh_NoteID s \<in> un_ID ` set (nd_notes db)" using add by (simp add: AddNoteShare_def note_exists_iff split: if_splits)
  obtain c where "nd_shares db' = upsertBy sharePK (s\<lparr>sh_CreatedAt := c\<rparr>) (nd_shares db)" and same: "db' = db\<lparr>nd_shares := nd_shares db'\<rparr>"
  proof (cases "find (\<lambda>m. sharePK m = sharePK s) (nd_shares db)")
    case None
    then have "upsertBy sharePK s xs = xs @ [s]" if "find (\<lambda>m. sharePK m = sharePK s) xs = None" for xs
      using that by (induction xs) (auto split: if_splits)
    then have "nd_shares db' = upsertBy sharePK (s\<lparr>sh_CreatedAt := sh_CreatedAt s\<rparr>) (nd_shares db)" "db' = db\<lparr>nd_shares := nd_shares db'\<rparr>"
      using add None by (auto simp: AddNoteShare_def split: if_splits)
    then show ?thesis using that by blast
  next
    case (Some old)
    then show ?thesis using add that by (auto simp: AddNoteShare_def split: if_splits)
  qed
  moreover have "sharePK (s\<lparr>sh_CreatedAt := c\<rparr>) = sharePK s" by (simp add: sharePK_def)
  ultimately have "shares_ok db'" using ok n set_upsertBy [of sharePK "nd_shares db" "s\<lparr>sh_CreatedAt := c\<rparr>"]
    by (auto simp: tables_ok_def shares_ok_def)
  then show ?thesis using ok by (subst same, subst (asm) same) (simp add: tables_ok_def log_ok_def shares_ok_def)
qed

lemma RemoveNoteShare_ok: "tables_ok db \<Longrightarrow> RemoveNoteShare nid u db = Inr db' \<Longrightarrow> tables_ok db'"
  by (clarsimp simp: RemoveNoteShare_def tables_ok_def log_ok_def shares_ok_def split: if_splits) (rule distinct_map_filter)

lemma RemoveNoteSharesForHomeUser_ok: "tables_ok db \<Longrightarrow> tables_ok (RemoveNoteSharesForHomeUser h u db)"
  by (simp add: RemoveNoteSharesForHomeUser_def tables_ok_def log_ok_def shares_ok_def distinct_map_filter)

section \<open>What a write leaves\<close>

lemma insertOperations_frame:
  "insertOperations ps db = Inr db' \<Longrightarrow> db' = db\<lparr>nd_ops := nd_ops db'\<rparr> \<and> set (nd_ops db) \<subseteq> set (nd_ops db')"
proof (induction ps arbitrary: db)
  case (Cons p ps)
  then obtain db1 where s: "insertOperation p db = Inr db1" "insertOperations ps db1 = Inr db'" by (auto simp: bindR_Inr_iff)
  have "db1 = db\<lparr>nd_ops := nd_ops db1\<rparr> \<and> set (nd_ops db) \<subseteq> set (nd_ops db1)" using insertOperation_Inr(1) [OF s(1)] by auto
  then show ?case using Cons.IH [OF s(2)] by (metis (no_types, lifting) notesDb.surjective notesDb.update_convs(7) subset_trans)
qed simp

lemma save_rows:
  assumes "saveUserNoteWithOperations n ps db = Inr db'"
  obtains r where "rowAdmissible db r" "db' = db\<lparr>nd_notes := replaceRow r (nd_notes db), nd_ops := nd_ops db'\<rparr>"
    "r = (storedNote n)\<lparr>un_CreatedAt := un_CreatedAt r\<rparr>" "set (nd_ops db) \<subseteq> set (nd_ops db')"
proof -
  obtain db1 where s: "UpsertUserNote n db = Inr db1" "insertOperations ps db1 = Inr db'"
    using assms by (auto simp: saveUserNoteWithOperations_def bindR_Inr_iff)
  obtain r where "rowAdmissible db r" "db1 = db\<lparr>nd_notes := replaceRow r (nd_notes db)\<rparr>" "r = (storedNote n)\<lparr>un_CreatedAt := un_CreatedAt r\<rparr>"
    using s(1) by (rule UpsertUserNote_Inr)
  with insertOperations_frame [OF s(2)] that show ?thesis by simp
qed

lemma stored_simps [simp]:
  "un_ID (storedNote n) = un_ID n" "un_NoteID (storedNote n) = un_NoteID n" "un_OwnerUserID (storedNote n) = un_OwnerUserID n"
  "un_DeletedAt (storedNote n) = un_DeletedAt n" "un_PageType (storedNote n) = un_PageType n" "un_BoardJSON (storedNote n) = un_BoardJSON n"
  "un_Revision (storedNote n) = un_Revision n" "un_CRDTStateJSON (storedNote n) = un_CRDTStateJSON n"
  "un_CollabVersion (storedNote n) = un_CollabVersion n" "un_Title (storedNote n) = un_Title n" "un_Pinned (storedNote n) = un_Pinned n"
  "un_ParentID (storedNote n) = trimSpace (un_ParentID n)" "un_HomeID (storedNote n) = trimSpace (un_HomeID n)"
  "noteBodyText (storedNote n) = noteBodyText n" "un_UpdatedAt (storedNote n) = un_UpdatedAt n" "un_SortOrder (storedNote n) = un_SortOrder n"
  by (simp_all add: storedNote_def noteBodyText_def)

lemma find_unique:
  assumes "r \<in> set rows" "P r" "\<And>m. m \<in> set rows \<Longrightarrow> P m \<Longrightarrow> m = r"
  shows "find P rows = Some r"
proof (cases "find P rows")
  case None
  then show ?thesis using assms(1,2) by (auto simp: find_None_iff)
next
  case (Some m)
  then have "m \<in> set rows" "P m" by (auto simp: find_Some_iff)
  then show ?thesis using assms(3) Some by simp
qed

lemma profile_lookup:
  assumes "keys_ok (nd_notes db)" "r \<in> set (nd_notes db)"
  shows "GetProfileNote db (un_OwnerUserID r) (un_NoteID r) = Inr r"
proof -
  have "find (\<lambda>n. un_OwnerUserID n = un_OwnerUserID r \<and> un_NoteID n = un_NoteID r) (nd_notes db) = Some r"
    using assms by (intro find_unique) (auto simp: keys_ok_def sameKey_def)
  then show ?thesis by (simp add: GetProfileNote_def noteRow_def)
qed

section \<open>Any interleaving of statements\<close>

text \<open>
  The transactions on the notes tables, with any arguments and so with whatever a request read before, interleaved in
  any order with changes of the users, homes, members and sessions by other components.
\<close>

inductive table_step :: "notesDb \<Rightarrow> notesDb \<Rightarrow> bool" where
  upsert: "UpsertUserNote n db = Inr db' \<Longrightarrow> table_step db db'"
| save_ops: "saveUserNoteWithOperations n ps db = Inr db' \<Longrightarrow> table_step db db'"
| add_share: "AddNoteShare s db = Inr db' \<Longrightarrow> table_step db db'"
| remove_share: "RemoveNoteShare nid u db = Inr db' \<Longrightarrow> table_step db db'"
| remove_member: "table_step db (RemoveNoteSharesForHomeUser h u db)"
| other_tables: "table_step db (db\<lparr>nd_users := us, nd_homes := hs, nd_members := ms, nd_sessions := ss\<rparr>)"

definition no_notes :: "notesDb \<Rightarrow> bool" where
  "no_notes db \<longleftrightarrow> nd_notes db = [] \<and> nd_shares db = [] \<and> nd_ops db = []"

interpretation note_tables: invariant_system no_notes table_step tables_ok
proof
  show "tables_ok s" if "no_notes s" for s
    using that by (simp add: no_notes_def tables_ok_def keys_ok_def tree_ok_def pins_ok_def log_ok_def shares_ok_def)
  show "tables_ok t" if "tables_ok s" "table_step s t" for s t
    using that(2,1)
  proof cases
    case other_tables
    then show ?thesis using that(1) by (simp add: tables_ok_def log_ok_def shares_ok_def)
  qed (auto intro: UpsertUserNote_ok saveUserNote_ok AddNoteShare_ok RemoveNoteShare_ok RemoveNoteSharesForHomeUser_ok)
qed

text \<open>C35: the notes tables stay consistent under every interleaving of transactions, whatever stale data they write. A note id
  names at most one note of an owner and of a home; an active note with a parent lies in an active notebook of the same owner
  that is another note; only such notes are pinned; an operation is logged at most once; and log entries and
  shares belong to notes that exist.\<close>

theorem notes_tables_safe:
  assumes "reachable no_notes table_step db"
  shows "(\<forall>m \<in> set (nd_notes db). \<forall>n \<in> set (nd_notes db). un_NoteID m = un_NoteID n
        \<and> (un_OwnerUserID m = un_OwnerUserID n \<or> un_HomeID m \<noteq> [] \<and> un_HomeID m = un_HomeID n) \<longrightarrow> m = n)
    \<and> (\<forall>n \<in> set (nd_notes db). active n \<and> un_ParentID n \<noteq> [] \<longrightarrow> (\<exists>p \<in> set (nd_notes db). p \<noteq> n \<and> un_NoteID p = un_ParentID n
        \<and> un_OwnerUserID p = un_OwnerUserID n \<and> active p \<and> un_PageType p = NotePageTypeNotebook))
    \<and> (\<forall>n \<in> set (nd_notes db). un_Pinned n \<longrightarrow> un_ParentID n \<noteq> [] \<and> un_PageType n \<noteq> NotePageTypeNotebook)
    \<and> distinct (map (\<lambda>p. (no_NoteID p, no_OpID p)) (nd_ops db)) \<and> distinct (map (\<lambda>s. (sh_NoteID s, sh_TargetUserID s)) (nd_shares db))
    \<and> no_NoteID ` set (nd_ops db) \<union> sh_NoteID ` set (nd_shares db) \<subseteq> un_ID ` set (nd_notes db)"
proof -
  have ok: "tables_ok db" using assms by (rule note_tables.reachable_inv)
  have "\<forall>m \<in> set (nd_notes db). \<forall>n \<in> set (nd_notes db). un_NoteID m = un_NoteID n
        \<and> (un_OwnerUserID m = un_OwnerUserID n \<or> un_HomeID m \<noteq> [] \<and> un_HomeID m = un_HomeID n) \<longrightarrow> m = n"
    using ok unfolding tables_ok_def keys_ok_def sameKey_def inHome_def by blast
  moreover have "\<forall>n \<in> set (nd_notes db). active n \<and> un_ParentID n \<noteq> [] \<longrightarrow> (\<exists>p \<in> set (nd_notes db). p \<noteq> n \<and> un_NoteID p = un_ParentID n
        \<and> un_OwnerUserID p = un_OwnerUserID n \<and> active p \<and> un_PageType p = NotePageTypeNotebook)"
    using ok unfolding tables_ok_def tree_ok_def childOf_def by metis
  moreover have "(\<lambda>p. (no_NoteID p, no_OpID p)) = opPK" "(\<lambda>s. (sh_NoteID s, sh_TargetUserID s)) = sharePK"
    by (auto simp: opPK_def sharePK_def)
  ultimately show ?thesis using ok by (simp add: tables_ok_def pins_ok_def log_ok_def shares_ok_def image_subset_iff)
qed

end
