(* ===== verification/Notes_Service.thy ===== *)
theory Notes_Service
  imports Note_Store
begin

text \<open>
  The notes service, \<open>cloudNotesService\<close> of \<open>internal/cloud/notes_store.go\<close>, over the tables of \<open>Note_Store\<close>: saving with
  optimistic concurrency, appending, renaming, deleting, sharing, note ids, and the read-only lists, searches and tags. The
  clock and the random ids are arguments. Each operation reads and then writes in a transaction of its own, as the code does.
\<close>

section \<open>Requests and responses\<close>

record NotesSaveRequest =
  sr_NoteID :: string
  sr_Title :: string
  sr_Content :: string
  sr_BodyMarkdown :: string
  sr_BodyFormat :: string
  sr_ExpectedRevision :: string
  sr_PageType :: string
  sr_ParentID :: "string option"
  sr_MCPExcluded :: "bool option"
  sr_Pinned :: "bool option"
  sr_SortOrder :: "int option"
  sr_Board :: "KanbanBoard option"

record NotesSaveResponse =
  rp_NoteID :: string
  rp_Revision :: string
  rp_UpdatedAt :: time
  rp_PageType :: string

record NotesAppendRequest =
  ar_Content :: string
  ar_BodyMarkdown :: string
  ar_Separator :: "string option"
  ar_ExpectedRevision :: string

record NotesFetchResponse =
  nf_NoteID :: string
  nf_Title :: string
  nf_Content :: string
  nf_BodyMarkdown :: string
  nf_BodyFormat :: string
  nf_Revision :: string
  nf_UpdatedAt :: time
  nf_PageType :: string
  nf_ParentID :: string
  nf_MCPExcluded :: bool
  nf_Pinned :: bool
  nf_SortOrder :: int
  nf_OwnerUserID :: string
  nf_Shared :: bool
  nf_Preview :: string
  nf_Tags :: "string list"
  nf_Board :: "KanbanBoard option"

text \<open>A save fails with an error or with a \<open>noteConflictError\<close> that carries the current note.\<close>

datatype saveError = SaveFailed error | NoteConflict NotesFetchResponse

definition errBoardJSON :: error where "errBoardJSON = ErrMsg ''invalid board JSON''"
definition errNoteAppendContentRequired :: error where "errNoteAppendContentRequired = ErrMsg ''append content is required''"
definition errNoteAppendUnsupportedPageType :: error where
  "errNoteAppendUnsupportedPageType = ErrMsg ''append is only supported for text notes''"
definition errNotebookCannotHaveParent :: error where
  "errNotebookCannotHaveParent = ErrMsg ''notebooks cannot be placed inside another notebook''"
definition errInvalidNotebookParent :: error where
  "errInvalidNotebookParent = ErrMsg ''parent_id must refer to a notebook owned by the same user''"
definition errNoteID :: error where "errNoteID = ErrMsg ''unable to allocate note id''"
definition errShareOwner :: error where "errShareOwner = ErrMsg ''cannot share to the owner''"
definition errNoteInHome :: error where "errNoteInHome = ErrMsg ''note already exists in home''"
definition errOtherHome :: error where "errOtherHome = ErrMsg ''note is already bound to a different home''"

definition noteFetch :: "noteEnv \<Rightarrow> UserNote \<Rightarrow> NotesFetchResponse result" where
  "noteFetch E n =
     (if un_BoardJSON n = Garbled then Inl errBoardJSON
      else Inr \<lparr>nf_NoteID = un_NoteID n, nf_Title = un_Title n, nf_Content = noteBodyText n, nf_BodyMarkdown = noteBodyText n,
        nf_BodyFormat = noteBodyFormat n, nf_Revision = un_Revision n, nf_UpdatedAt = un_UpdatedAt n, nf_PageType = un_PageType n,
        nf_ParentID = un_ParentID n, nf_MCPExcluded = un_MCPExcluded n, nf_Pinned = un_Pinned n, nf_SortOrder = un_SortOrder n,
        nf_OwnerUserID = un_OwnerUserID n, nf_Shared = (un_HomeID n \<noteq> []), nf_Preview = previewFromContent (noteBodyText n),
        nf_Tags = extractTags (ne_unicode E) (noteBodyText n), nf_Board = boardDoc (un_BoardJSON n)\<rparr>)"

definition ifActive :: "UserNote result \<Rightarrow> UserNote result" where
  "ifActive r = bindR r (\<lambda>n. if active n then Inr n else Inl ErrNotFound)"

definition FetchProfile :: "noteEnv \<Rightarrow> notesDb \<Rightarrow> string \<Rightarrow> string \<Rightarrow> NotesFetchResponse result" where
  "FetchProfile E db userID noteID = bindR (ifActive (GetProfileNote db userID noteID)) (noteFetch E)"

definition FetchHome :: "noteEnv \<Rightarrow> notesDb \<Rightarrow> string \<Rightarrow> string \<Rightarrow> string \<Rightarrow> NotesFetchResponse result" where
  "FetchHome E db homeID userID noteID = bindR (ifActive (GetHomeNoteVisibleToUser db homeID userID noteID)) (noteFetch E)"

section \<open>Note ids\<close>

definition noteIDTaken :: "notesDb \<Rightarrow> string \<Rightarrow> string \<Rightarrow> string \<Rightarrow> bool" where
  "noteIDTaken db ownerUserID homeID key \<longleftrightarrow>
     \<not> isl (GetProfileNote db ownerUserID key) \<or> homeID \<noteq> [] \<and> \<not> isl (GetHomeNoteByKey db homeID key)"

definition noteIDCandidate :: "noteEnv \<Rightarrow> string \<Rightarrow> string \<Rightarrow> string" where
  "noteIDCandidate E requested title =
     (let c = trimSpace requested in
      if c \<noteq> [] then c
      else let s = slugify (ne_unicode E) title in (if s = [] then ''note'' else s) @ ''.md'')"

definition noteIDAttempt :: "string \<Rightarrow> nat \<Rightarrow> string" where
  "noteIDAttempt candidate attempt =
     (let ext = (if CHR ''.'' \<in> set candidate then [] else ''.md'');
          base = trimSuffix candidate ext;
          base = (if base = [] then ''note'' else base)
      in if attempt > 0 then base @ ''-'' @ show_nat attempt @ ext else candidate)"

fun noteIDLoop :: "(string \<Rightarrow> bool) \<Rightarrow> string \<Rightarrow> nat \<Rightarrow> nat \<Rightarrow> string option" where
  "noteIDLoop taken candidate attempt 0 = None"
| "noteIDLoop taken candidate attempt (Suc left) =
     (if taken (noteIDAttempt candidate attempt) then noteIDLoop taken candidate (attempt + 1) left
      else Some (noteIDAttempt candidate attempt))"

definition generateNoteID :: "noteEnv \<Rightarrow> notesDb \<Rightarrow> string \<Rightarrow> string \<Rightarrow> string \<Rightarrow> string \<Rightarrow> string result" where
  "generateNoteID E db ownerUserID homeID requested title =
     (case noteIDLoop (noteIDTaken db ownerUserID homeID) (noteIDCandidate E requested title) 0 1000 of
        None \<Rightarrow> Inl errNoteID | Some nid \<Rightarrow> Inr nid)"

section \<open>Saving\<close>

text \<open>The check of a parent; the collaboration hub has a copy that chooses the lookup by the scope.\<close>

definition validateNotebookParent ::
    "noteEnv \<Rightarrow> notesDb \<Rightarrow> bool \<Rightarrow> string \<Rightarrow> string \<Rightarrow> UserNote \<Rightarrow> string \<Rightarrow> string \<Rightarrow> unit result" where
  "validateNotebookParent E db inHomeScope homeID actorUserID n pageType parentID =
     (if parentID = [] then Inr ()
      else if pageType = NotePageTypeNotebook then Inl errNotebookCannotHaveParent
      else if parentID = un_NoteID n then Inl errInvalidNotebookParent
      else bindR (if inHomeScope then GetHomeNoteVisibleToUser db homeID actorUserID parentID
                  else GetProfileNote db (un_OwnerUserID n) parentID)
        (\<lambda>parent. if \<not> active parent then Inl ErrNotFound
          else if un_OwnerUserID parent \<noteq> un_OwnerUserID n \<or> pageTypeOf E (un_PageType parent) \<noteq> NotePageTypeNotebook
          then Inl errInvalidNotebookParent else Inr ()))"

definition newNote :: "string \<Rightarrow> string \<Rightarrow> string \<Rightarrow> string \<Rightarrow> time \<Rightarrow> UserNote" where
  "newNote newID noteID ownerUserID homeID now =
     \<lparr>un_ID = newID, un_NoteID = noteID, un_OwnerUserID = ownerUserID, un_HomeID = homeID, un_ParentID = [], un_MCPExcluded = False,
      un_Pinned = False, un_SortOrder = 0, un_Title = [], un_Content = [], un_BodyMarkdown = [], un_BodyFormat = [], un_PageType = [],
      un_BoardJSON = NoText, un_Revision = [], un_Checksum = [], un_CRDTStateJSON = NoText, un_CollabVersion = 0, un_DeletedAt = None,
      un_CreatedAt = now, un_UpdatedAt = 0, un_UpdatedBy = []\<rparr>"

definition saveTarget ::
    "noteEnv \<Rightarrow> string \<Rightarrow> time \<Rightarrow> notesDb \<Rightarrow> string \<Rightarrow> string \<Rightarrow> string \<Rightarrow> string \<Rightarrow> NotesSaveRequest \<Rightarrow> saveError + UserNote" where
  "saveTarget E newID now db homeID actorUserID ownerUserID noteID req =
     (let found = (if noteID \<noteq> [] \<and> homeID \<noteq> [] then GetHomeNoteVisibleToUser db homeID actorUserID noteID
                   else if noteID \<noteq> [] then GetProfileNote db ownerUserID noteID
                   else Inl ErrNotFound)
      in case found of
        Inr existing \<Rightarrow>
          if active existing \<and> sr_ExpectedRevision req \<noteq> [] \<and> sr_ExpectedRevision req \<noteq> un_Revision existing
          then (case noteFetch E existing of Inl e \<Rightarrow> Inl (SaveFailed e) | Inr current \<Rightarrow> Inl (NoteConflict current))
          else if un_OwnerUserID existing \<noteq> actorUserID \<and> homeID = [] then Inl (SaveFailed ErrNotFound)
          else Inr existing
      | Inl e \<Rightarrow>
          if \<not> isNotFound e then Inl (SaveFailed e)
          else (case generateNoteID E db ownerUserID homeID (trimSpace noteID) (sr_Title req) of
                  Inl e \<Rightarrow> Inl (SaveFailed e)
                | Inr nid \<Rightarrow> Inr (newNote newID nid ownerUserID homeID now)))"

definition savePageType :: "noteEnv \<Rightarrow> UserNote \<Rightarrow> NotesSaveRequest \<Rightarrow> string" where
  "savePageType E existing req =
     (let pageType = pageTypeOf E (sr_PageType req);
          pageType = (if pageType = [] \<and> un_PageType existing \<noteq> [] then un_PageType existing else pageType)
      in if pageType = [] then NotePageTypeText else pageType)"

definition saveParentID :: "UserNote \<Rightarrow> NotesSaveRequest \<Rightarrow> string" where
  "saveParentID existing req = (case sr_ParentID req of None \<Rightarrow> un_ParentID existing | Some p \<Rightarrow> trimSpace p)"

definition saveContent :: "string \<Rightarrow> NotesSaveRequest \<Rightarrow> string" where
  "saveContent pageType req =
     (let content = (if sr_BodyMarkdown req \<noteq> [] then sr_BodyMarkdown req else sr_Content req);
          content = (if pageType = NotePageTypeNotebook then [] else content)
      in case snd (encodeBoard pageType (sr_Board req)) of
           Some board \<Rightarrow> if pageType = NotePageTypeKanban \<and> content = [] then kanbanMarkdown (sr_Title req) board else content
         | None \<Rightarrow> content)"

definition saveTitle :: "noteEnv \<Rightarrow> UserNote \<Rightarrow> string \<Rightarrow> NotesSaveRequest \<Rightarrow> string" where
  "saveTitle E existing content req =
     (let title = trimSpace (sr_Title req) in
      if title \<noteq> [] then title
      else if titleFromContent content \<noteq> [] then titleFromContent content
      else if un_Title existing \<noteq> [] then un_Title existing
      else titleFromNoteID (ne_unicode E) (un_NoteID existing))"

definition saveState :: "noteEnv \<Rightarrow> UserNote \<Rightarrow> string \<Rightarrow> NotesSaveRequest \<Rightarrow> collabState" where
  "saveState E existing actorUserID req =
     (let pageType = savePageType E existing req;
          parentID = saveParentID existing req;
          content = saveContent pageType req;
          version = un_CollabVersion existing + 1;
          scalar = (\<lambda>v ver. \<lparr>cs_Value = v, cs_Version = ver, cs_UserID = actorUserID\<rparr>);
          pinned = (case sr_Pinned req of None \<Rightarrow> un_Pinned existing | Some b \<Rightarrow> b)
      in \<lparr>st_Title = scalar (saveTitle E existing content req) version, st_PageType = scalar pageType version,
          st_ParentID = scalar parentID (if sr_ParentID req = None then un_CollabVersion existing else version),
          st_Pinned = (if parentID = [] \<or> pageType = NotePageTypeNotebook then False else pinned),
          st_SortOrder = (case sr_SortOrder req of None \<Rightarrow> un_SortOrder existing | Some i \<Rightarrow> i),
          st_Content = content, st_Board = snd (encodeBoard pageType (sr_Board req)), st_CollabVersion = version\<rparr>)"

definition savedNote :: "noteEnv \<Rightarrow> time \<Rightarrow> UserNote \<Rightarrow> string \<Rightarrow> NotesSaveRequest \<Rightarrow> UserNote \<times> opDoc" where
  "savedNote E now existing actorUserID req =
     (let (updated, doc) = materializeNoteFromState E existing (saveState E existing actorUserID req) actorUserID now
      in (updated\<lparr>un_MCPExcluded := (case sr_MCPExcluded req of None \<Rightarrow> un_MCPExcluded existing | Some b \<Rightarrow> b)\<rparr>, doc))"

definition httpOperation :: "string \<Rightarrow> UserNote \<Rightarrow> string \<Rightarrow> int \<Rightarrow> opDoc \<Rightarrow> time \<Rightarrow> NoteOperation" where
  "httpOperation opID updated userID base doc now =
     \<lparr>no_NoteID = un_ID updated, no_OpID = opID, no_ActorUserID = userID, no_SessionID = ''http'', no_BaseVersion = base,
      no_AppliedVersion = un_CollabVersion updated, no_OpJSON = doc, no_CreatedAt = now\<rparr>"

definition storeSave ::
    "noteEnv \<Rightarrow> time \<Rightarrow> notesDb \<Rightarrow> string \<Rightarrow> string \<Rightarrow> UserNote \<Rightarrow> NotesSaveRequest \<Rightarrow> (NotesSaveResponse \<times> notesDb) result" where
  "storeSave E now db homeID actorUserID existing req =
     bindR (validateNotebookParent E db (homeID \<noteq> []) homeID actorUserID existing (savePageType E existing req) (saveParentID existing req)) (\<lambda>_.
       let (updated, doc) = savedNote E now existing actorUserID req in
       bindR (saveUserNoteWithOperations updated
           [httpOperation (''http-save:'' @ un_Revision updated) updated actorUserID (un_CollabVersion existing) doc now] db) (\<lambda>db'.
         Inr (\<lparr>rp_NoteID = un_NoteID updated, rp_Revision = un_Revision updated, rp_UpdatedAt = un_UpdatedAt updated,
               rp_PageType = un_PageType updated\<rparr>, db')))"

definition save ::
    "noteEnv \<Rightarrow> string \<Rightarrow> time \<Rightarrow> string \<Rightarrow> string \<Rightarrow> string \<Rightarrow> string \<Rightarrow> NotesSaveRequest \<Rightarrow> notesDb
      \<Rightarrow> saveError + NotesSaveResponse \<times> notesDb" where
  "save E newID now homeID actorUserID ownerUserID noteID req db =
     (case saveTarget E newID now db homeID actorUserID ownerUserID noteID req of
        Inl e \<Rightarrow> Inl e
      | Inr existing \<Rightarrow>
          (case storeSave E now db homeID actorUserID existing req of Inl e \<Rightarrow> Inl (SaveFailed e) | Inr r \<Rightarrow> Inr r))"

definition SaveProfile where
  "SaveProfile E newID now userID noteID req db = save E newID now [] userID userID noteID req db"

definition SaveHome where
  "SaveHome E newID now homeID userID noteID req db = save E newID now homeID userID userID noteID req db"

section \<open>Appending, renaming, deleting\<close>

definition appendNoteContent :: "string \<Rightarrow> NotesAppendRequest \<Rightarrow> string result" where
  "appendNoteContent existing req =
     (let addition = (if ar_BodyMarkdown req = [] then ar_Content req else ar_BodyMarkdown req) in
      if addition = [] then Inl errNoteAppendContentRequired
      else let separator = (case ar_Separator req of None \<Rightarrow> [newline] | Some s \<Rightarrow> s);
               separator = (if existing = [] then [] else separator)
           in Inr (existing @ separator @ addition))"

definition appendRequestForNote :: "noteEnv \<Rightarrow> UserNote \<Rightarrow> NotesAppendRequest \<Rightarrow> NotesSaveRequest result" where
  "appendRequestForNote E n req =
     (if pageTypeOf E (un_PageType n) \<noteq> NotePageTypeText then Inl errNoteAppendUnsupportedPageType
      else bindR (appendNoteContent (noteBodyText n) req) (\<lambda>content.
        Inr \<lparr>sr_NoteID = un_NoteID n, sr_Title = un_Title n, sr_Content = content, sr_BodyMarkdown = content,
          sr_BodyFormat = noteBodyFormat n, sr_ExpectedRevision = ar_ExpectedRevision req, sr_PageType = NotePageTypeText,
          sr_ParentID = None, sr_MCPExcluded = Some (un_MCPExcluded n), sr_Pinned = Some (un_Pinned n), sr_SortOrder = None,
          sr_Board = None\<rparr>))"

definition AppendProfile where
  "AppendProfile E newID now userID noteID req db =
     (case bindR (ifActive (GetProfileNote db userID noteID)) (\<lambda>n. appendRequestForNote E n req) of
        Inl e \<Rightarrow> Inl (SaveFailed e) | Inr r \<Rightarrow> SaveProfile E newID now userID noteID r db)"

definition AppendHome where
  "AppendHome E newID now homeID userID noteID req db =
     (case bindR (ifActive (GetHomeNoteVisibleToUser db homeID userID noteID)) (\<lambda>n. appendRequestForNote E n req) of
        Inl e \<Rightarrow> Inl (SaveFailed e) | Inr r \<Rightarrow> SaveHome E newID now homeID userID noteID r db)"

definition saveTitleOnly :: "noteEnv \<Rightarrow> time \<Rightarrow> UserNote \<Rightarrow> string \<Rightarrow> string \<Rightarrow> notesDb \<Rightarrow> notesDb result" where
  "saveTitleOnly E now n userID title db =
     (let st = decodeCollabState E n;
          st = st\<lparr>st_Title := \<lparr>cs_Value = trimSpace title, cs_Version = un_CollabVersion n + 1, cs_UserID = userID\<rparr>,
                  st_CollabVersion := st_CollabVersion st + 1\<rparr>;
          (updated, doc) = materializeNoteFromState E n st userID now
      in saveUserNoteWithOperations updated
           [httpOperation (''http-rename:'' @ un_Revision updated) updated userID (un_CollabVersion n) doc now] db)"

definition RenameHome where
  "RenameHome E now homeID userID noteID title db =
     bindR (GetHomeNoteVisibleToUser db homeID userID noteID) (\<lambda>n. saveTitleOnly E now n userID title db)"

definition RenameProfile where
  "RenameProfile E now userID noteID title db =
     bindR (GetProfileNote db userID noteID) (\<lambda>n. saveTitleOnly E now n userID title db)"

definition deletedNote :: "noteEnv \<Rightarrow> time \<Rightarrow> UserNote \<Rightarrow> string \<Rightarrow> UserNote" where
  "deletedNote E now n userID =
     (let st = decodeCollabState E n; st = st\<lparr>st_CollabVersion := st_CollabVersion st + 1\<rparr> in
      n\<lparr>un_Content := [], un_BodyMarkdown := [], un_BodyFormat := ''markdown'', un_BoardJSON := NoText,
        un_Revision := ne_sha E DeletePayload, un_Checksum := [], un_CRDTStateJSON := Doc st, un_CollabVersion := st_CollabVersion st,
        un_PageType := NotePageTypeText, un_UpdatedAt := now, un_UpdatedBy := userID, un_DeletedAt := Some now\<rparr>)"

definition deleteNote :: "noteEnv \<Rightarrow> time \<Rightarrow> UserNote \<Rightarrow> string \<Rightarrow> notesDb \<Rightarrow> notesDb result" where
  "deleteNote E now n userID db =
     (let note = deletedNote E now n userID in
      saveUserNoteWithOperations note
        [httpOperation (''http-delete:'' @ un_Revision note) note userID (un_CollabVersion note - 1) DeleteDoc now] db)"

definition DeleteProfile where
  "DeleteProfile E now userID noteID db = bindR (GetProfileNote db userID noteID) (\<lambda>n. deleteNote E now n userID db)"

definition DeleteHome where
  "DeleteHome E now homeID userID noteID db =
     bindR (GetHomeNoteVisibleToUser db homeID userID noteID) (\<lambda>n. deleteNote E now n userID db)"

section \<open>Sharing\<close>

definition findSharableNote :: "notesDb \<Rightarrow> string \<Rightarrow> string \<Rightarrow> string \<Rightarrow> UserNote result" where
  "findSharableNote db homeID ownerUserID noteID =
     (case GetOwnedHomeNote db homeID ownerUserID noteID of
        Inr n \<Rightarrow> Inr n
      | Inl e \<Rightarrow>
          if \<not> isNotFound e then Inl e
          else bindR (GetProfileNote db ownerUserID noteID) (\<lambda>n.
            if un_HomeID n \<noteq> [] \<and> un_HomeID n \<noteq> homeID then Inl errOtherHome else Inr n))"

definition bindToHome :: "time \<Rightarrow> string \<Rightarrow> string \<Rightarrow> UserNote \<Rightarrow> notesDb \<Rightarrow> (UserNote \<times> bool \<times> notesDb) result" where
  "bindToHome now homeID ownerUserID n db =
     (if un_HomeID n = []
      then (case GetHomeNoteByKey db homeID (un_NoteID n) of
              Inr _ \<Rightarrow> Inl errNoteInHome
            | Inl e \<Rightarrow>
                if \<not> isNotFound e then Inl e
                else let n' = n\<lparr>un_HomeID := homeID, un_UpdatedAt := now, un_UpdatedBy := ownerUserID\<rparr> in
                  bindR (UpsertUserNote n' db) (\<lambda>db'. Inr (n', True, db')))
      else Inr (n, False, db))"

text \<open>
  \<open>GrantShare\<close> binds a private note to the home before it adds the share, in a transaction of its own: when adding fails, the
  note stays in the home. The second component is the database that is left in either case.
\<close>

definition GrantShare :: "time \<Rightarrow> string \<Rightarrow> string \<Rightarrow> string \<Rightarrow> string \<Rightarrow> notesDb \<Rightarrow> (UserNote \<times> bool) result \<times> notesDb" where
  "GrantShare now homeID noteID ownerUserID targetUserID db =
     (case bindR (findSharableNote db homeID ownerUserID noteID) (\<lambda>n.
             if targetUserID = ownerUserID then Inl errShareOwner
             else if (homeID, targetUserID) \<notin> set (nd_members db) then Inl ErrNotFound
             else bindToHome now homeID ownerUserID n db) of
        Inl e \<Rightarrow> (Inl e, db)
      | Inr (n, firstShare, db1) \<Rightarrow>
          if un_HomeID n \<noteq> homeID then (Inl errOtherHome, db1)
          else (case AddNoteShare \<lparr>sh_NoteID = un_ID n, sh_HomeID = homeID, sh_TargetUserID = targetUserID, sh_SharedBy = ownerUserID,
                       sh_CreatedAt = now, sh_UpdatedAt = now\<rparr> db1 of
                  Inl e \<Rightarrow> (Inl e, db1)
                | Inr db2 \<Rightarrow> (Inr (n, firstShare), db2)))"

definition RevokeShare :: "string \<Rightarrow> string \<Rightarrow> string \<Rightarrow> string \<Rightarrow> notesDb \<Rightarrow> ((UserNote \<times> bool) \<times> notesDb) result" where
  "RevokeShare homeID noteID ownerUserID targetUserID db =
     bindR (findSharableNote db homeID ownerUserID noteID) (\<lambda>n.
       bindR (RemoveNoteShare (un_ID n) targetUserID db) (\<lambda>db'. Inr ((n, CountNoteShares db' (un_ID n) = 0), db')))"

definition ListShares :: "notesDb \<Rightarrow> string \<Rightarrow> string \<Rightarrow> string \<Rightarrow> (NoteShare \<times> string) list result" where
  "ListShares db homeID noteID ownerUserID =
     bindR (findSharableNote db homeID ownerUserID noteID) (\<lambda>n. Inr (ListNoteShares db (un_ID n)))"

section \<open>Lists, searches and tags\<close>

record NoteSummary =
  sm_ID :: string
  sm_Title :: string
  sm_UpdatedAt :: time
  sm_Revision :: string
  sm_Size :: nat
  sm_StorageKey :: string
  sm_PageType :: string
  sm_ParentID :: string
  sm_MCPExcluded :: bool
  sm_Pinned :: bool
  sm_SortOrder :: int
  sm_BodyFormat :: string
  sm_OwnerUserID :: string
  sm_Shared :: bool
  sm_Preview :: string
  sm_Tags :: "string list"

definition noteSummary :: "noteEnv \<Rightarrow> UserNote \<Rightarrow> NoteSummary" where
  "noteSummary E n =
     \<lparr>sm_ID = un_NoteID n, sm_Title = un_Title n, sm_UpdatedAt = un_UpdatedAt n, sm_Revision = un_Revision n,
      sm_Size = length (noteBodyText n), sm_StorageKey = un_NoteID n, sm_PageType = un_PageType n, sm_ParentID = un_ParentID n,
      sm_MCPExcluded = un_MCPExcluded n, sm_Pinned = un_Pinned n, sm_SortOrder = un_SortOrder n, sm_BodyFormat = noteBodyFormat n,
      sm_OwnerUserID = un_OwnerUserID n, sm_Shared = (un_HomeID n \<noteq> []), sm_Preview = previewFromContent (noteBodyText n),
      sm_Tags = extractTags (ne_unicode E) (noteBodyText n)\<rparr>"

text \<open>\<open>sort.Slice\<close> may exchange summaries with equal time and title; they keep their order here.\<close>

definition noteSummaries :: "noteEnv \<Rightarrow> UserNote list \<Rightarrow> NoteSummary list" where
  "noteSummaries E notes =
     sort_key (\<lambda>s. (- sm_UpdatedAt s, toLower (uc_lower (ne_unicode E)) (sm_Title s))) (map (noteSummary E) (filter active notes))"

definition ListProfile where "ListProfile E db userID = noteSummaries E (ListProfileNotes db userID False)"
definition ListHome where "ListHome E db homeID userID = noteSummaries E (ListVisibleHomeNotes db homeID userID False)"
definition Sync where "Sync E db homeID = noteSummaries E (ListSyncedHomeNotes db homeID False)"

record NoteSearchResult =
  sx_NoteID :: string
  sx_Title :: string
  sx_PageType :: string
  sx_ParentID :: string
  sx_Preview :: string
  sx_MatchLocation :: nat
  sx_LineIndex :: nat

definition countNewlines :: "string \<Rightarrow> nat" where
  "countNewlines s = length (filter (\<lambda>c. c = newline) s)"

text \<open>
  The match is found in the lower-case body and its offset is used in the body itself; the prefix \<open>body[:bodyMatch]\<close> panics when
  lower case made the body longer and the offset lies beyond it.
\<close>

definition searchNote :: "noteEnv \<Rightarrow> string \<Rightarrow> UserNote \<Rightarrow> NoteSearchResult option result" where
  "searchNote E needle n =
     (let low = toLower (uc_lower (ne_unicode E));
          titleMatch = stringsIndex (low (un_Title n)) (low needle);
          body = noteBodyText n;
          bodyMatch = (if pageTypeOf E (un_PageType n) \<noteq> NotePageTypeNotebook then stringsIndex (low body) (low needle) else None);
          result = (\<lambda>preview loc line. Inr (Some \<lparr>sx_NoteID = un_NoteID n, sx_Title = un_Title n, sx_PageType = un_PageType n,
            sx_ParentID = un_ParentID n, sx_Preview = preview, sx_MatchLocation = loc, sx_LineIndex = line\<rparr>))
      in case bodyMatch of
        None \<Rightarrow> (if titleMatch = None then Inr None else result (un_Title n) 0 0)
      | Some off \<Rightarrow>
          if length body < off then Inl panicSliceBounds
          else result (snippetAround body (int off) (length needle)) off (countNewlines (take off body)))"

fun collectSearch :: "noteEnv \<Rightarrow> string \<Rightarrow> UserNote list \<Rightarrow> NoteSearchResult list result" where
  "collectSearch E needle [] = Inr []"
| "collectSearch E needle (n # ns) =
     bindR (searchNote E needle n) (\<lambda>r. bindR (collectSearch E needle ns) (\<lambda>rs.
       Inr (case r of None \<Rightarrow> rs | Some x \<Rightarrow> x # rs)))"

definition searchNotes :: "noteEnv \<Rightarrow> UserNote list \<Rightarrow> string \<Rightarrow> int \<Rightarrow> string \<Rightarrow> NoteSearchResult list result" where
  "searchNotes E notes query limit parentID =
     (let needle = trimSpace query; limit = (if limit \<le> 0 then 50 else limit); parentID = trimSpace parentID in
      if needle = [] then Inr []
      else bindR (collectSearch E needle (filter (\<lambda>n. parentID = [] \<or> un_ParentID n = parentID) notes)) (\<lambda>results.
        Inr (if int (length results) > limit then take (nat limit) results else results)))"

definition SearchProfile where
  "SearchProfile E db userID query limit parentID = searchNotes E (ListProfileNotes db userID False) query limit parentID"
definition SearchHome where
  "SearchHome E db homeID userID query limit parentID = searchNotes E (ListVisibleHomeNotes db homeID userID False) query limit parentID"

definition tagOccurrences :: "noteEnv \<Rightarrow> UserNote list \<Rightarrow> string list" where
  "tagOccurrences E notes =
     concat (map (\<lambda>n. extractTags (ne_unicode E) (un_Content n)) (filter (\<lambda>n. un_PageType n = NotePageTypeText) notes))"

definition noteTags :: "noteEnv \<Rightarrow> UserNote list \<Rightarrow> (string \<times> nat) list" where
  "noteTags E notes =
     (let occ = tagOccurrences E notes in
      sort_key (\<lambda>(tag, n). (- int n, tag)) (map (\<lambda>tag. (tag, count_list occ tag)) (remdups occ)))"

definition TagsProfile where "TagsProfile E db userID = noteTags E (ListProfileNotes db userID False)"
definition TagsHome where "TagsHome E db homeID userID = noteTags E (ListVisibleHomeNotes db homeID userID False)"

record TaggedLineRollupItem =
  tl_NoteID :: string
  tl_NoteTitle :: string
  tl_PageType :: string
  tl_Tag :: string
  tl_LineText :: string
  tl_LineIndex :: nat

text \<open>The items of \<open>noteTagRollup\<close> before they are sorted.\<close>

definition rollupItems :: "noteEnv \<Rightarrow> UserNote list \<Rightarrow> string \<Rightarrow> TaggedLineRollupItem list" where
  "rollupItems E notes tag =
     (let normalizedTag = normalizeTag (ne_unicode E) tag in
      if normalizedTag = [] then []
      else concat (map (\<lambda>n.
        map (\<lambda>(index, (t, text)). \<lparr>tl_NoteID = un_NoteID n, tl_NoteTitle = un_Title n, tl_PageType = un_PageType n, tl_Tag = t,
              tl_LineText = text, tl_LineIndex = index\<rparr>)
          (filter (\<lambda>(index, (t, text)). uc_equalFold (ne_unicode E) t normalizedTag)
            (enumerate 0 (extractTaggedLines (ne_unicode E) (un_Content n)))))
        (filter (\<lambda>n. un_PageType n = NotePageTypeText) notes)))"

text \<open>The \<open>line_index\<close> of a rollup item counts tagged words, not lines: a tag in the third line of a note is reported as line 0.\<close>

lemma rollup_index_counts_words:
  assumes "uc_equalFold (ne_unicode E) ''#t'' ''#t''" "un_PageType n = NotePageTypeText"
    and "un_Content n = [CHR ''a'', newline, CHR ''b'', newline, CHR ''#'', CHR ''t'']"
  shows "map tl_LineIndex (rollupItems E [n] ''#t'') = [0]"
proof -
  have sp: "spaceLen (c # s) = 0" if "graphic c" for c s
  proof -
    have "\<not> starts_with p (c # s)" if "p \<in> set space_runes" for p
      using that space_runes_not_graphic(1) \<open>graphic c\<close> by (auto simp: starts_with_iff) (metis append_is_Nil_conv hd_append2 list.sel(1))
    then have "find (\<lambda>p. starts_with p (c # s)) space_runes = None" by (simp add: find_None_iff)
    then show ?thesis by (simp add: spaceLen_def)
  qed
  have "stringsFields ''a'' = [''a'']" "stringsFields ''b'' = [''b'']" "stringsFields ''#t'' = [''#t'']"
    by (simp_all add: stringsFields_def fieldsFrom.simps sp graphic_def)
  moreover have "runes ''#t'' = [35, 116]" by (simp add: runes_def runes_of.simps)
  then have "normalizeTag uc ''#t'' = ''#t''" for uc
    by (simp add: normalizeTag_def literal_simps hasPrefix_def tagRune_def isLetter_def string_of_runes_def encode_rune_def
      char_of_eq_iff take_bit_eq_mod toLower_def is_ascii_def ascii_lower_def)
  moreover have "normalizeTag uc ''a'' = []" "normalizeTag uc ''b'' = []" for uc
    by (simp_all add: normalizeTag_def literal_simps hasPrefix_def)
  ultimately show ?thesis using assms by (simp add: rollupItems_def extractTaggedLines_def Let_def)
qed

section \<open>Allocating a note id\<close>

lemma noteIDLoop_Some:
  "noteIDLoop taken c a k = Some x \<Longrightarrow> \<not> taken x"
  by (induction k arbitrary: a) (auto split: if_splits)

lemma noteIDLoop_None: "noteIDLoop taken c a k = None \<Longrightarrow> a \<le> j \<Longrightarrow> j < a + k \<Longrightarrow> taken (noteIDAttempt c j)"
proof (induction k arbitrary: a)
  case (Suc k)
  then have t: "taken (noteIDAttempt c a)" "noteIDLoop taken c (a + 1) k = None" by (auto split: if_splits)
  show ?case using Suc.IH [OF t(2)] t(1) Suc.prems(2,3) by (cases "j = a") simp_all
qed simp

lemma noteIDAttempt_inj: "c \<noteq> [] \<Longrightarrow> inj (noteIDAttempt c)"
proof (rule injI)
  fix i j
  assume c: "c \<noteq> []" and eq: "noteIDAttempt c i = noteIDAttempt c j"
  have trimSuffix_nil: "trimSuffix c [] = c" by (simp add: trimSuffix_def)
  have suffix: "trimSuffix c ''.md'' = c" if "CHR ''.'' \<notin> set c"
  proof -
    have "\<not> hasSuffix c ''.md''"
    proof
      assume "hasSuffix c ''.md''"
      then have "CHR ''.'' \<in> set (drop (length c - length ''.md'') c)" unfolding hasSuffix_def by (metis list.set_intros(1))
      with that show False using in_set_dropD by metis
    qed
    then show ?thesis by (simp add: trimSuffix_def)
  qed
  have form: "noteIDAttempt c k = (if k = 0 then c else c @ ''-'' @ show_nat k @ (if CHR ''.'' \<in> set c then [] else ''.md''))" for k
    by (cases "CHR ''.'' \<in> set c") (simp_all add: noteIDAttempt_def trimSuffix_nil suffix c Let_def)
  show "i = j" using eq by (cases "i = 0"; cases "j = 0") (simp_all add: form split: if_splits)
qed

lemma noteIDCandidate_nonempty: "noteIDCandidate E requested title \<noteq> []"
  by (simp add: noteIDCandidate_def Let_def)

lemma noteRow_Inr: "noteRow P db = Inr n \<Longrightarrow> n \<in> set (nd_notes db) \<and> P n"
  by (auto simp: noteRow_def find_Some_iff split: option.splits)

lemma noteRow_Inl: "noteRow P db = Inl e \<longleftrightarrow> e = ErrNotFound \<and> (\<forall>n \<in> set (nd_notes db). \<not> P n)"
  by (auto simp: noteRow_def find_None_iff find_Some_iff split: option.splits)

lemma noteIDTaken_iff:
  "noteIDTaken db owner home key \<longleftrightarrow> (\<exists>n \<in> set (nd_notes db). un_NoteID n = key \<and> (un_OwnerUserID n = owner \<or> inHome home n))"
proof -
  have "isl (noteRow P db) \<longleftrightarrow> (\<forall>n \<in> set (nd_notes db). \<not> P n)" for P
    by (metis isl_def noteRow_Inl)
  then show ?thesis
    unfolding noteIDTaken_def GetProfileNote_def GetHomeNoteByKey_def by (auto simp: inHome_def)
qed

text \<open>C18: the loop that picks the id of a new note ends with an id that no note of the owner and no note of the home has, as long
  as owner and home together have fewer than 1000 notes; its attempts are pairwise different.\<close>

theorem note_id_allocated:
  assumes "length (filter (\<lambda>n. un_OwnerUserID n = owner \<or> inHome home n) (nd_notes db)) < 1000"
  shows "\<exists>nid. generateNoteID E db owner home requested title = Inr nid
    \<and> (\<forall>n \<in> set (nd_notes db). un_NoteID n = nid \<longrightarrow> un_OwnerUserID n \<noteq> owner \<and> \<not> inHome home n)"
proof -
  let ?c = "noteIDCandidate E requested title"
  let ?rows = "filter (\<lambda>n. un_OwnerUserID n = owner \<or> inHome home n) (nd_notes db)"
  have inj: "inj (noteIDAttempt ?c)" using noteIDCandidate_nonempty noteIDAttempt_inj by blast
  have "noteIDLoop (noteIDTaken db owner home) ?c 0 1000 \<noteq> None"
  proof
    assume none: "noteIDLoop (noteIDTaken db owner home) ?c 0 1000 = None"
    have "noteIDTaken db owner home (noteIDAttempt ?c j)" if "j < 1000" for j using noteIDLoop_None [OF none] that by simp
    then have "noteIDAttempt ?c ` {0..<1000} \<subseteq> un_NoteID ` set ?rows"
      unfolding noteIDTaken_iff by (auto simp: image_iff) metis
    then have "card (noteIDAttempt ?c ` {0..<1000}) \<le> card (un_NoteID ` set ?rows)" by (simp add: card_mono)
    moreover have "card (noteIDAttempt ?c ` {0..<1000}) = 1000" using inj by (simp add: card_image inj_on_subset)
    moreover have "card (un_NoteID ` set ?rows) \<le> length ?rows" using card_image_le card_length le_trans by blast
    ultimately show False using assms by linarith
  qed
  then obtain nid where n: "noteIDLoop (noteIDTaken db owner home) ?c 0 1000 = Some nid" by blast
  then have "\<not> noteIDTaken db owner home nid" by (rule noteIDLoop_Some)
  with n show ?thesis by (auto simp: generateNoteID_def noteIDTaken_iff)
qed

section \<open>The effect of a save\<close>

lemma saveTarget_Inr:
  assumes "saveTarget E newID now db homeID actor owner noteID req = Inr existing"
  shows "(existing \<in> set (nd_notes db) \<and> un_NoteID existing = noteID
        \<and> (if homeID = [] then un_OwnerUserID existing = owner \<and> un_OwnerUserID existing = actor
           else inHome homeID existing \<and> (un_OwnerUserID existing = actor \<or> sharedWith db (un_ID existing) actor))
        \<and> (active existing \<longrightarrow> sr_ExpectedRevision req = [] \<or> sr_ExpectedRevision req = un_Revision existing))
      \<or> (\<exists>nid. generateNoteID E db owner homeID (trimSpace noteID) (sr_Title req) = Inr nid \<and> existing = newNote newID nid owner homeID now)"
  using assms unfolding saveTarget_def Let_def
  by (auto simp: GetHomeNoteVisibleToUser_def GetProfileNote_def dest!: noteRow_Inr split: sum.splits if_splits)

lemma saveState_values:
  "cs_Value (st_PageType (saveState E existing actor req)) = savePageType E existing req"
  "cs_Value (st_ParentID (saveState E existing actor req)) = saveParentID existing req"
  "st_CollabVersion (saveState E existing actor req) = un_CollabVersion existing + 1"
  "cs_Value (st_Title (saveState E existing actor req)) = saveTitle E existing (saveContent (savePageType E existing req) req) req"
  by (simp_all add: saveState_def Let_def)

lemma savedNote_simps:
  fixes E now existing actor req
  defines "n \<equiv> fst (savedNote E now existing actor req)" and "pt \<equiv> savePageType E existing req"
  shows "un_ID n = un_ID existing" "un_NoteID n = un_NoteID existing" "un_OwnerUserID n = un_OwnerUserID existing"
    "un_HomeID n = un_HomeID existing" "un_DeletedAt n = un_DeletedAt existing" "un_PageType n = pageTypeOf E pt"
    "un_ParentID n = trimSpace (saveParentID existing req)" "un_CollabVersion n = un_CollabVersion existing + 1"
    "un_UpdatedAt n = now" "un_CRDTStateJSON n = Doc (settledState E (saveState E existing actor req))"
    "un_BoardJSON n = fst (encodeBoard (pageTypeOf E pt) (st_Board (saveState E existing actor req)))"
    "noteBodyText n = materializedContent (pageTypeOf E pt) (saveState E existing actor req)
        (snd (encodeBoard (pageTypeOf E pt) (st_Board (saveState E existing actor req))))"
    "un_Title n = (let t = saveTitle E existing (saveContent pt req) req in
        if blank t then titleFromNoteID (ne_unicode E) (un_NoteID existing) else trimSpace t)"
  by (simp_all add: n_def pt_def savedNote_def case_prod_unfold Let_def materialize_simps noteBodyText_def saveState_values [unfolded Let_def])

lemma savePageType_norm [simp]: "savePageType E existing req = pageTypeOf E (sr_PageType req)"
  using normalizePageType_range [of "ne_unicode E" "sr_PageType req"] by (auto simp: savePageType_def Let_def)

lemma saved_body:
  "noteBodyText (fst (savedNote E now existing actor req)) = saveContent (pageTypeOf E (sr_PageType req)) req"
proof -
  let ?pt = "pageTypeOf E (sr_PageType req)"
  have "?pt \<in> {NotePageTypeText, NotePageTypeKanban, NotePageTypeNotebook}" by (rule normalizePageType_range)
  then show ?thesis
    by (auto simp: savedNote_simps materializedContent_def saveContent_def saveState_def Let_def encodeBoard_def split: option.split)
qed

lemma saved_board: "boardDoc (un_BoardJSON (fst (savedNote E now existing actor req))) =
    snd (encodeBoard (pageTypeOf E (sr_PageType req)) (sr_Board req))"
  "un_BoardJSON (fst (savedNote E now existing actor req)) \<noteq> Garbled"
  by (simp_all add: savedNote_simps saveState_def Let_def encodeBoard_def)

lemma storeSave_Inr:
  assumes "storeSave E now db homeID actor existing req = Inr (resp, db')"
  obtains r where "rowAdmissible db r" "db' = db\<lparr>nd_notes := replaceRow r (nd_notes db), nd_ops := nd_ops db'\<rparr>"
    "r = (storedNote (fst (savedNote E now existing actor req)))\<lparr>un_CreatedAt := un_CreatedAt r\<rparr>"
    "resp = \<lparr>rp_NoteID = un_NoteID r, rp_Revision = un_Revision r, rp_UpdatedAt = un_UpdatedAt r, rp_PageType = un_PageType r\<rparr>"
    "saveUserNoteWithOperations (fst (savedNote E now existing actor req)) [httpOperation (''http-save:'' @ un_Revision r)
       (fst (savedNote E now existing actor req)) actor (un_CollabVersion existing) (snd (savedNote E now existing actor req)) now] db = Inr db'"
proof -
  let ?n = "fst (savedNote E now existing actor req)"
  have s: "saveUserNoteWithOperations ?n [httpOperation (''http-save:'' @ un_Revision ?n) ?n actor (un_CollabVersion existing)
        (snd (savedNote E now existing actor req)) now] db = Inr db'"
    and resp: "resp = \<lparr>rp_NoteID = un_NoteID ?n, rp_Revision = un_Revision ?n, rp_UpdatedAt = un_UpdatedAt ?n, rp_PageType = un_PageType ?n\<rparr>"
    using assms by (auto simp: storeSave_def bindR_Inr_iff case_prod_unfold Let_def)
  obtain r where r: "rowAdmissible db r" "db' = db\<lparr>nd_notes := replaceRow r (nd_notes db), nd_ops := nd_ops db'\<rparr>"
      "r = (storedNote ?n)\<lparr>un_CreatedAt := un_CreatedAt r\<rparr>" using s by (rule save_rows)
  have "un_NoteID r = un_NoteID ?n" "un_Revision r = un_Revision ?n" "un_UpdatedAt r = un_UpdatedAt ?n" "un_PageType r = un_PageType ?n"
    by (subst r(3), simp)+
  then show ?thesis using that [OF r] s resp by simp
qed

lemma generateNoteID_fresh:
  "generateNoteID E db owner home requested title = Inr nid \<Longrightarrow> n \<in> set (nd_notes db) \<Longrightarrow> un_NoteID n = nid \<Longrightarrow>
     un_OwnerUserID n \<noteq> owner \<and> \<not> inHome home n"
  using noteIDLoop_Some by (fastforce simp: generateNoteID_def noteIDTaken_iff split: option.splits)

lemma save_Inr:
  assumes "save E newID now homeID actor owner noteID req db = Inr (resp, db')"
  obtains existing where "saveTarget E newID now db homeID actor owner noteID req = Inr existing"
    "storeSave E now db homeID actor existing req = Inr (resp, db')"
  using assms by (auto simp: save_def split: sum.splits)

lemma replaceRow_mem: "r \<in> set (replaceRow r rows)"
  by (induction rows) (auto simp: replaceRow_def)


section \<open>A sample\<close>

definition sampleNoteEnv :: noteEnv where
  "sampleNoteEnv =
     \<lparr>ne_unicode = \<lparr>uc_lower = \<lambda>s. s, uc_letter = \<lambda>_. False, uc_number = \<lambda>_. False, uc_title = \<lambda>r. r, uc_equalFold = (=)\<rparr>,
      ne_json = \<lparr>dec_string = Inr, dec_int = \<lambda>_. Inr 0, dec_bool = \<lambda>s. Inr (s = ''true''), dec_board = \<lambda>_. Inr emptyBoard,
        dec_column = \<lambda>s. Inr (sampleColumn s []), dec_card = \<lambda>s. Inr (sampleCard s)\<rparr>,
      ne_sha = \<lambda>h. case h of RevisionPayload c _ _ _ _ _ _ \<Rightarrow> ''r'' @ c | ContentBytes c \<Rightarrow> c | DeletePayload \<Rightarrow> ''deleted''\<rparr>"

definition sampleNotes :: notesDb where
  "sampleNotes =
     \<lparr>nd_users = [(''u1'', ''a@x''), (''u2'', ''b@x'')], nd_homes = [''h1''], nd_members = [(''h1'', ''u1''), (''h1'', ''u2'')],
      nd_sessions = [], nd_notes = [], nd_shares = [], nd_ops = []\<rparr>"

definition sampleSave :: NotesSaveRequest where
  "sampleSave =
     \<lparr>sr_NoteID = [], sr_Title = ''Plan'', sr_Content = ''buy milk'', sr_BodyMarkdown = [], sr_BodyFormat = [], sr_ExpectedRevision = [],
      sr_PageType = ''text'', sr_ParentID = None, sr_MCPExcluded = None, sr_Pinned = None, sr_SortOrder = None, sr_Board = None\<rparr>"

lemma noteIDLoop_first: "0 < k \<Longrightarrow> \<not> taken (noteIDAttempt c a) \<Longrightarrow> noteIDLoop taken c a k = Some (noteIDAttempt c a)"
  by (cases k) simp_all

lemma sampleTarget: "saveTarget sampleNoteEnv ''n1'' 5 sampleNotes [] ''u1'' ''u1'' ''plan.md'' sampleSave = Inr (newNote ''n1'' ''plan.md'' ''u1'' [] 5)"
proof -
  have "noteIDLoop (noteIDTaken sampleNotes ''u1'' []) ''plan.md'' 0 1000 = Some ''plan.md''"
    by (subst noteIDLoop_first) (simp_all add: noteIDTaken_iff sampleNotes_def noteIDAttempt_def)
  then show ?thesis
    by (simp add: saveTarget_def GetProfileNote_def noteRow_def sampleNotes_def generateNoteID_def noteIDCandidate_def literal_simps)
qed

definition sampleNote :: UserNote where
  "sampleNote = fst (savedNote sampleNoteEnv 5 (newNote ''n1'' ''plan.md'' ''u1'' [] 5) ''u1'' sampleSave)"

lemma sampleNote_simps:
  "sampleNote = (newNote ''n1'' ''plan.md'' ''u1'' [] 5)\<lparr>un_Title := ''Plan'', un_Content := ''buy milk'', un_BodyMarkdown := ''buy milk'',
     un_BodyFormat := ''markdown'', un_PageType := ''text'', un_Revision := ''rbuy milk'', un_Checksum := ''buy milk'',
     un_CRDTStateJSON := Doc (saveState sampleNoteEnv (newNote ''n1'' ''plan.md'' ''u1'' [] 5) ''u1'' sampleSave), un_CollabVersion := 1,
     un_UpdatedAt := 5, un_UpdatedBy := ''u1''\<rparr>"
  by (simp add: sampleNote_def savedNote_def materialize_defs saveState_values)
     (simp add: saveState_def Let_def sampleSave_def newNote_def saveParentID_def saveContent_def materializedContent_def saveTitle_def
       literal_simps settledState_def sampleNoteEnv_def isZero_def)

lemma sampleNote_stored: "storedNote sampleNote = sampleNote"
  by (simp add: sampleNote_simps storedNote_def newNote_def noteBodyText_def noteBodyFormat_def literal_simps)

lemma sampleSaved:
  "\<exists>resp db'. SaveProfile sampleNoteEnv ''n1'' 5 ''u1'' ''plan.md'' sampleSave sampleNotes = Inr (resp, db') \<and> rp_NoteID resp = ''plan.md''
    \<and> rp_PageType resp = ''text'' \<and> nd_notes db' = [sampleNote]"
proof -

  have adm: "rowAdmissible sampleNotes sampleNote"
    by (simp add: rowAdmissible_def sampleNote_simps sampleNotes_def newNote_def parentValid_def)
  have c: "sampleNote\<lparr>un_CreatedAt := un_CreatedAt sampleNote\<rparr> = sampleNote" by simp
  have up: "UpsertUserNote sampleNote sampleNotes = Inr (sampleNotes\<lparr>nd_notes := [sampleNote]\<rparr>)"
    using adm c by (simp add: UpsertUserNote_def Let_def sampleNotes_def replaceRow_def sampleNote_stored)
  have ids: "un_ID sampleNote = ''n1''" "un_NoteID sampleNote = ''plan.md''" "un_PageType sampleNote = ''text''"
    by (simp_all add: sampleNote_simps newNote_def)
  have "validateNotebookParent sampleNoteEnv sampleNotes False [] ''u1'' (newNote ''n1'' ''plan.md'' ''u1'' [] 5) pt
      (saveParentID (newNote ''n1'' ''plan.md'' ''u1'' [] 5) sampleSave) = Inr ()" for pt
    by (simp add: validateNotebookParent_def saveParentID_def sampleSave_def newNote_def)
  then show ?thesis
    by (simp add: SaveProfile_def save_def sampleTarget storeSave_def case_prod_unfold Let_def sampleNote_def [symmetric]
      saveUserNoteWithOperations_def up httpOperation_def insertOperation_def HasNoteOperation_def ids)
       (simp add: sampleNotes_def)
qed

lemma sampleNotes_ok: "tables_ok sampleNotes"
  by (simp add: tables_ok_def keys_ok_def tree_ok_def pins_ok_def log_ok_def shares_ok_def sampleNotes_def)

theorem note_id_allocated_witness:
  "\<exists>nid. generateNoteID sampleNoteEnv sampleNotes ''u1'' ''h1'' [] ''Plan'' = Inr nid"
  using note_id_allocated [of "''u1''" "''h1''" sampleNotes sampleNoteEnv "[]" "''Plan''"] by (auto simp: sampleNotes_def)


section \<open>Who can change a note\<close>

datatype noteCommand =
    SaveProfileCmd string NotesSaveRequest
  | SaveHomeCmd string string NotesSaveRequest
  | AppendProfileCmd string NotesAppendRequest
  | AppendHomeCmd string string NotesAppendRequest
  | RenameProfileCmd string string
  | RenameHomeCmd string string string
  | DeleteProfileCmd string
  | DeleteHomeCmd string string

definition okDb :: "'e + 'a \<times> notesDb \<Rightarrow> notesDb option" where
  "okDb r = (case r of Inl _ \<Rightarrow> None | Inr (_, db) \<Rightarrow> Some db)"

definition okOnly :: "notesDb result \<Rightarrow> notesDb option" where
  "okOnly r = (case r of Inl _ \<Rightarrow> None | Inr db \<Rightarrow> Some db)"

text \<open>One command of a user; \<open>None\<close> is an error, which leaves the database as it was.\<close>

fun runNote :: "noteEnv \<Rightarrow> string \<Rightarrow> time \<Rightarrow> string \<Rightarrow> noteCommand \<Rightarrow> notesDb \<Rightarrow> notesDb option" where
  "runNote E newID now u (SaveProfileCmd noteID req) db = okDb (SaveProfile E newID now u noteID req db)"
| "runNote E newID now u (SaveHomeCmd h noteID req) db = okDb (SaveHome E newID now h u noteID req db)"
| "runNote E newID now u (AppendProfileCmd noteID req) db = okDb (AppendProfile E newID now u noteID req db)"
| "runNote E newID now u (AppendHomeCmd h noteID req) db = okDb (AppendHome E newID now h u noteID req db)"
| "runNote E newID now u (RenameProfileCmd noteID title) db = okOnly (RenameProfile E now u noteID title db)"
| "runNote E newID now u (RenameHomeCmd h noteID title) db = okOnly (RenameHome E now h u noteID title db)"
| "runNote E newID now u (DeleteProfileCmd noteID) db = okOnly (DeleteProfile E now u noteID db)"
| "runNote E newID now u (DeleteHomeCmd h noteID) db = okOnly (DeleteHome E now h u noteID db)"

definition mayEdit :: "notesDb \<Rightarrow> string \<Rightarrow> UserNote \<Rightarrow> bool" where
  "mayEdit db u n \<longleftrightarrow> un_OwnerUserID n = u \<or> sharedWith db (un_ID n) u"

text \<open>A write on behalf of \<open>u\<close>: one row, which replaces a note that \<open>u\<close> may edit or is a new note of \<open>u\<close>.\<close>

definition writesFor :: "string \<Rightarrow> string \<Rightarrow> notesDb \<Rightarrow> notesDb \<Rightarrow> bool" where
  "writesFor newID u db db' \<longleftrightarrow> (\<exists>n ps. saveUserNoteWithOperations n ps db = Inr db' \<and>
     ((\<exists>m \<in> set (nd_notes db). mayEdit db u m \<and> un_ID n = un_ID m \<and> sameKey n m) \<or> (un_ID n = newID \<and> un_OwnerUserID n = u)))"

lemma writesForI:
  "saveUserNoteWithOperations n ps db = Inr db' \<Longrightarrow>
   m \<in> set (nd_notes db) \<and> mayEdit db u m \<and> un_ID n = un_ID m \<and> sameKey n m \<or> un_ID n = newID \<and> un_OwnerUserID n = u \<Longrightarrow> writesFor newID u db db'"
  unfolding writesFor_def by blast

lemma okDb_Some: "okDb r = Some db' \<longleftrightarrow> (\<exists>x. r = Inr (x, db'))"
  by (auto simp: okDb_def split: sum.splits)

lemma okOnly_Some: "okOnly r = Some db' \<longleftrightarrow> r = Inr db'"
  by (auto simp: okOnly_def split: sum.splits)

lemma visible_mayEdit:
  "GetHomeNoteVisibleToUser db h u key = Inr n \<Longrightarrow> n \<in> set (nd_notes db) \<and> mayEdit db u n"
  "GetProfileNote db u key = Inr n \<Longrightarrow> n \<in> set (nd_notes db) \<and> mayEdit db u n"
  unfolding GetHomeNoteVisibleToUser_def GetProfileNote_def mayEdit_def by (auto dest!: noteRow_Inr)

lemma save_writesFor: "save E newID now h u u noteID req db = Inr (resp, db') \<Longrightarrow> writesFor newID u db db'"
proof -
  assume "save E newID now h u u noteID req db = Inr (resp, db')"
  then obtain existing where t: "saveTarget E newID now db h u u noteID req = Inr existing"
      and s: "storeSave E now db h u existing req = Inr (resp, db')" by (rule save_Inr)
  obtain ps where "saveUserNoteWithOperations (fst (savedNote E now existing u req)) ps db = Inr db'" using storeSave_Inr [OF s] by metis
  moreover have "existing \<in> set (nd_notes db) \<and> mayEdit db u existing \<or> un_ID existing = newID \<and> un_OwnerUserID existing = u"
    using saveTarget_Inr [OF t] unfolding mayEdit_def newNote_def by (auto split: if_splits)
  ultimately show ?thesis by (intro writesForI [of _ _ _ _ existing]) (auto simp: savedNote_simps sameKey_def)
qed

lemma rename_writesFor:
  "saveTitleOnly E now n u title db = Inr db' \<Longrightarrow> n \<in> set (nd_notes db) \<and> mayEdit db u n \<Longrightarrow> writesFor newID u db db'"
  unfolding saveTitleOnly_def Let_def case_prod_unfold by (erule writesForI [of _ _ _ _ n]) (simp add: materialize_simps sameKey_def)

lemma delete_writesFor:
  "deleteNote E now n u db = Inr db' \<Longrightarrow> n \<in> set (nd_notes db) \<and> mayEdit db u n \<Longrightarrow> writesFor newID u db db'"
  unfolding deleteNote_def Let_def by (erule writesForI [of _ _ _ _ n]) (simp add: deletedNote_def Let_def sameKey_def)

lemma runNote_writesFor: "runNote E newID now u cmd db = Some db' \<Longrightarrow> writesFor newID u db db'"
  by (cases cmd)
     (auto simp: okDb_Some okOnly_Some SaveProfile_def SaveHome_def AppendProfile_def AppendHome_def RenameProfile_def RenameHome_def
        DeleteProfile_def DeleteHome_def bindR_Inr_iff split: sum.splits
        dest: save_writesFor intro: rename_writesFor delete_writesFor dest!: visible_mayEdit)

lemma writesFor_effect:
  assumes ok: "tables_ok db" and w: "writesFor newID u db db'" and fresh: "newID \<notin> un_ID ` set (nd_notes db)"
  shows "tables_ok db' \<and> nd_shares db' = nd_shares db \<and> (\<forall>n \<in> set (nd_notes db). \<not> mayEdit db u n \<longrightarrow> n \<in> set (nd_notes db'))"
proof -
  obtain n ps where s: "saveUserNoteWithOperations n ps db = Inr db'"
      and who: "(\<exists>m \<in> set (nd_notes db). mayEdit db u m \<and> un_ID n = un_ID m) \<or> un_ID n = newID"
    using w unfolding writesFor_def by blast
  obtain r where db': "db' = db\<lparr>nd_notes := replaceRow r (nd_notes db), nd_ops := nd_ops db'\<rparr>"
      and r: "r = (storedNote n)\<lparr>un_CreatedAt := un_CreatedAt r\<rparr>" using s by (rule save_rows)
  have keys: "keys_ok (nd_notes db)" using ok by (simp add: tables_ok_def)
  have nr: "nd_notes db' = replaceRow r (nd_notes db)" "nd_shares db' = nd_shares db" by (subst db', simp)+
  have id: "un_ID r = un_ID n" by (subst r) simp
  have "un_ID k \<noteq> un_ID r" if k: "k \<in> set (nd_notes db)" "\<not> mayEdit db u k" for k
  proof
    assume "un_ID k = un_ID r"
    then obtain m where "m \<in> set (nd_notes db)" "mayEdit db u m" "un_ID k = un_ID m" using who fresh k(1) id by (metis imageI)
    moreover from this have "k = m" using keys k(1) unfolding keys_ok_def distinct_map inj_on_def by blast
    ultimately show False using k(2) by simp
  qed
  then show ?thesis using saveUserNote_ok [OF ok s] nr set_replaceRow [OF keys] by auto
qed

type_synonym noteCall = "string \<times> string \<times> time \<times> noteCommand"

fun runNotes :: "noteEnv \<Rightarrow> noteCall list \<Rightarrow> notesDb \<Rightarrow> notesDb" where
  "runNotes E [] db = db"
| "runNotes E ((u, newID, now, cmd) # cs) db =
     runNotes E cs (case runNote E newID now u cmd db of None \<Rightarrow> db | Some db' \<Rightarrow> db')"

text \<open>The random ids of new notes are not in use.\<close>

fun idsFresh :: "noteEnv \<Rightarrow> noteCall list \<Rightarrow> notesDb \<Rightarrow> bool" where
  "idsFresh E [] db \<longleftrightarrow> True"
| "idsFresh E ((u, newID, now, cmd) # cs) db \<longleftrightarrow>
     newID \<notin> un_ID ` set (nd_notes db) \<and> idsFresh E cs (case runNote E newID now u cmd db of None \<Rightarrow> db | Some db' \<Rightarrow> db')"


definition sampleStored :: notesDb where
  "sampleStored = sampleNotes\<lparr>nd_notes := [sampleNote]\<rparr>"

lemma sampleStored_ok: "tables_ok sampleStored"
proof -
  have "un_ParentID sampleNote = []" "un_Pinned sampleNote = False" by (simp_all add: sampleNote_simps newNote_def)
  then show ?thesis
    by (simp add: tables_ok_def keys_ok_def tree_ok_def pins_ok_def log_ok_def shares_ok_def sampleStored_def sampleNotes_def sampleNote_stored)
qed


section \<open>Sharing and revoking\<close>

lemma AddNoteShare_shared:
  assumes "AddNoteShare s db = Inr db'"
  shows "nd_notes db' = nd_notes db" "sharedWith db' nid u \<longleftrightarrow> sharedWith db nid u \<or> (nid, u) = sharePK s"
proof -
  have up: "list_ex (\<lambda>x. sh_NoteID x = nid \<and> sh_TargetUserID x = u) (upsertBy sharePK (s\<lparr>sh_CreatedAt := c\<rparr>) xs)
      \<longleftrightarrow> list_ex (\<lambda>x. sh_NoteID x = nid \<and> sh_TargetUserID x = u) xs \<or> (nid, u) = sharePK s" for c xs
    by (induction xs) (auto simp: sharePK_def)
  show "nd_notes db' = nd_notes db" "sharedWith db' nid u \<longleftrightarrow> sharedWith db nid u \<or> (nid, u) = sharePK s"
    using assms up by (auto simp: AddNoteShare_def sharedWith_def sharePK_def split: if_splits option.splits)
qed

lemma home_note_unique:
  assumes "keys_ok (nd_notes db)" "r \<in> set (nd_notes db)" "inHome h r"
  shows "GetHomeNoteVisibleToUser db h u (un_NoteID r) = (if mayEdit db u r then Inr r else Inl ErrNotFound)"
    and "GetOwnedHomeNote db h (un_OwnerUserID r) (un_NoteID r) = Inr r"
proof -
  have "m = r" if "m \<in> set (nd_notes db)" "inHome h m" "un_NoteID m = un_NoteID r" for m
    using assms that unfolding keys_ok_def inHome_def by blast
  note uniq = this
  have "GetHomeNoteVisibleToUser db h u (un_NoteID r) = Inr r" if "mayEdit db u r"
    unfolding GetHomeNoteVisibleToUser_def noteRow_def
    by (subst find_unique [of r]) (use assms that uniq in \<open>auto simp: mayEdit_def\<close>)
  moreover have "GetHomeNoteVisibleToUser db h u (un_NoteID r) = Inl ErrNotFound" if "\<not> mayEdit db u r"
    unfolding GetHomeNoteVisibleToUser_def noteRow_Inl using that uniq by (auto simp: mayEdit_def)
  ultimately show "GetHomeNoteVisibleToUser db h u (un_NoteID r) = (if mayEdit db u r then Inr r else Inl ErrNotFound)" by simp
  show "GetOwnedHomeNote db h (un_OwnerUserID r) (un_NoteID r) = Inr r"
    unfolding GetOwnedHomeNote_def noteRow_def by (subst find_unique [of r]) (use assms uniq in auto)
qed

lemma findSharableNote_Inr:
  "findSharableNote db h owner noteID = Inr n \<Longrightarrow> n \<in> set (nd_notes db) \<and> un_OwnerUserID n = owner \<and> un_NoteID n = noteID"
  by (auto simp: findSharableNote_def GetOwnedHomeNote_def GetProfileNote_def bindR_Inr_iff dest!: noteRow_Inr split: sum.splits if_splits)

lemma bindToHome_row:
  assumes ok: "tables_ok db" and bind: "bindToHome now h owner n db = Inr (n', first, db')" and n: "n \<in> set (nd_notes db)"
    and h: "h \<noteq> []" "trimSpace h = h" and home: "un_HomeID n' = h"
  shows "tables_ok db' \<and> nd_shares db' = nd_shares db \<and> (\<exists>r \<in> set (nd_notes db'). un_ID r = un_ID n' \<and> un_ID n' = un_ID n \<and> inHome h r \<and> sameKey r n)"
proof (cases "un_HomeID n = []")
  case False
  then show ?thesis using bind home ok n h(1) by (auto simp: bindToHome_def inHome_def sameKey_def)
next
  case True
  let ?n = "n\<lparr>un_HomeID := h, un_UpdatedAt := now, un_UpdatedBy := owner\<rparr>"
  have n': "n' = ?n" and up: "UpsertUserNote ?n db = Inr db'"
    using bind True by (auto simp: bindToHome_def Let_def bindR_Inr_iff split: sum.splits if_splits)
  obtain r where db': "db' = db\<lparr>nd_notes := replaceRow r (nd_notes db)\<rparr>" and r: "r = (storedNote ?n)\<lparr>un_CreatedAt := un_CreatedAt r\<rparr>"
    using up by (rule UpsertUserNote_Inr)
  have "un_ID r = un_ID n" "un_HomeID r = h" "sameKey r n" by (subst r, simp add: h sameKey_def)+
  then show ?thesis using UpsertUserNote_ok [OF ok up] replaceRow_mem [of r "nd_notes db"] h(1) unfolding n' db' by (auto simp: inHome_def)
qed

lemma GrantShare_Inr:
  assumes "GrantShare now h noteID owner target db = (Inr (n, first), db1)"
  obtains n0 db0 where "findSharableNote db h owner noteID = Inr n0" "target \<noteq> owner" "(h, target) \<in> set (nd_members db)"
    "bindToHome now h owner n0 db = Inr (n, first, db0)" "un_HomeID n = h"
    "AddNoteShare \<lparr>sh_NoteID = un_ID n, sh_HomeID = h, sh_TargetUserID = target, sh_SharedBy = owner, sh_CreatedAt = now, sh_UpdatedAt = now\<rparr> db0 = Inr db1"
  using assms by (auto simp: GrantShare_def bindR_Inr_iff split: sum.splits if_splits)

text \<open>Sharing a note in a home. Only a note of the sharing user is shared, with another member of the home, who can then look
  it up in the home; revoking the share succeeds and takes this access away again, while the owner keeps it.\<close>

theorem share_grant_revoke:
  assumes ok: "tables_ok db" and h: "h \<noteq> []" "trimSpace h = h"
    and grant: "GrantShare now h noteID owner target db = (Inr (n, first), db1)"
  shows "target \<noteq> owner \<and> (h, target) \<in> set (nd_members db)
    \<and> (\<exists>r. un_ID r = un_ID n \<and> un_OwnerUserID r = owner \<and> GetHomeNoteVisibleToUser db1 h target noteID = Inr r
      \<and> (\<exists>last db2. RevokeShare h noteID owner target db1 = Inr ((r, last), db2)
        \<and> GetHomeNoteVisibleToUser db2 h target noteID = Inl ErrNotFound \<and> GetHomeNoteVisibleToUser db2 h owner noteID = Inr r))"
proof -
  obtain n0 db0 where g: "findSharableNote db h owner noteID = Inr n0" "target \<noteq> owner" "(h, target) \<in> set (nd_members db)"
      "bindToHome now h owner n0 db = Inr (n, first, db0)" "un_HomeID n = h"
      "AddNoteShare \<lparr>sh_NoteID = un_ID n, sh_HomeID = h, sh_TargetUserID = target, sh_SharedBy = owner, sh_CreatedAt = now, sh_UpdatedAt = now\<rparr> db0 = Inr db1"
    using grant by (rule GrantShare_Inr)
  have n0: "n0 \<in> set (nd_notes db)" "un_OwnerUserID n0 = owner" "un_NoteID n0 = noteID" using findSharableNote_Inr [OF g(1)] by blast+
  obtain r where ok0: "tables_ok db0" and r: "r \<in> set (nd_notes db0)" "un_ID r = un_ID n" "inHome h r" "sameKey r n0"
    using bindToHome_row [OF ok g(4) n0(1) h g(5)] by blast
  have rf: "un_OwnerUserID r = owner" "un_NoteID r = noteID" using r(4) n0 by (simp_all add: sameKey_def)
  have same: "nd_notes db1 = nd_notes db0" using AddNoteShare_shared(1) [OF g(6)] .
  have keys: "keys_ok (nd_notes db1)" using ok0 same by (simp add: tables_ok_def)
  have shared: "sharedWith db1 (un_ID r) target" using AddNoteShare_shared(2) [OF g(6)] r(2) by (simp add: sharePK_def)
  then have see: "GetHomeNoteVisibleToUser db1 h target noteID = Inr r"
    using home_note_unique(1) [OF keys, of r h target] r same rf by (simp add: mayEdit_def)
  define db2 where "db2 = db1\<lparr>nd_shares := filter (\<lambda>s. sharePK s \<noteq> (un_ID r, target)) (nd_shares db1)\<rparr>"
  have "findSharableNote db1 h owner noteID = Inr r"
    using home_note_unique(2) [OF keys, of r h] r same rf by (simp add: findSharableNote_def)
  then have revoke: "RevokeShare h noteID owner target db1 = Inr ((r, CountNoteShares db2 (un_ID r) = 0), db2)"
    using shared by (simp add: RevokeShare_def RemoveNoteShare_def db2_def)
  have "\<not> sharedWith db2 (un_ID r) target" by (simp add: db2_def sharedWith_def sharePK_def list_ex_iff)
  then have "\<not> mayEdit db2 target r" "mayEdit db2 owner r" using g(2) rf by (simp_all add: mayEdit_def)
  moreover have "keys_ok (nd_notes db2)" "r \<in> set (nd_notes db2)" using keys r(1) same by (simp_all add: db2_def)
  ultimately have "GetHomeNoteVisibleToUser db2 h target noteID = Inl ErrNotFound" "GetHomeNoteVisibleToUser db2 h owner noteID = Inr r"
    using home_note_unique(1) [of db2 r h] r(3) rf by simp_all
  then show ?thesis using g(2,3) see revoke r(2) rf by blast
qed

theorem share_grant_revoke_witness:
  "\<exists>n first db1 r. GrantShare 9 ''h1'' ''plan.md'' ''u1'' ''u2'' sampleStored = (Inr (n, first), db1)
     \<and> GetHomeNoteVisibleToUser db1 ''h1'' ''u2'' ''plan.md'' = Inr r"
proof -
  have rows: "nd_notes sampleStored = [sampleNote]" "nd_homes sampleStored = [''h1'']" "nd_shares sampleStored = []"
      "nd_users sampleStored = [(''u1'', ''a@x''), (''u2'', ''b@x'')]" "nd_members sampleStored = [(''h1'', ''u1''), (''h1'', ''u2'')]"
    by (simp_all add: sampleStored_def sampleNotes_def)
  let ?n = "sampleNote\<lparr>un_HomeID := ''h1'', un_UpdatedAt := 9, un_UpdatedBy := ''u1''\<rparr>"
  have f: "un_ID sampleNote = ''n1''" "un_OwnerUserID sampleNote = ''u1''" "un_HomeID sampleNote = []" "un_NoteID sampleNote = ''plan.md''"
      "un_ParentID sampleNote = []" "un_Pinned sampleNote = False" "un_PageType sampleNote = ''text''" "un_DeletedAt sampleNote = None"
    by (simp_all add: sampleNote_simps newNote_def)
  have "findSharableNote sampleStored ''h1'' ''u1'' ''plan.md'' = Inr sampleNote"
    by (simp add: findSharableNote_def GetOwnedHomeNote_def GetProfileNote_def noteRow_def rows f inHome_def)
  moreover have "\<exists>db0. UpsertUserNote ?n sampleStored = Inr db0 \<and> un_ID ` set (nd_notes db0) = {''n1''} \<and> nd_homes db0 = [''h1'']
      \<and> nd_users db0 = nd_users sampleStored \<and> nd_shares db0 = []"
    by (simp add: UpsertUserNote_def Let_def rowAdmissible_def rows f parentValid_def parentProtected_def replaceRow_def active_def storedNote_def
      literal_simps childOf_def inHome_def sameKey_def)
  ultimately have "\<exists>n first db1. GrantShare 9 ''h1'' ''plan.md'' ''u1'' ''u2'' sampleStored = (Inr (n, first), db1)"
    by (auto simp: GrantShare_def bindToHome_def GetHomeNoteByKey_def noteRow_def rows f inHome_def AddNoteShare_def note_exists_iff)
  then obtain n first db1 where run: "GrantShare 9 ''h1'' ''plan.md'' ''u1'' ''u2'' sampleStored = (Inr (n, first), db1)" by blast
  with share_grant_revoke [OF sampleStored_ok _ _ run] show ?thesis by (auto simp: literal_simps)
qed

section \<open>Divergences of saving\<close>

text \<open>
  A save without a page type turns a board or a notebook into a text note and drops the board: \<open>normalizePageType\<close> maps the
  empty type to \<open>text\<close>, so the branch of \<open>save\<close> that keeps the existing type is never taken.
\<close>

theorem save_without_type_drops_board:
  "sr_PageType req = [] \<Longrightarrow> un_PageType (fst (savedNote E now existing u req)) = NotePageTypeText
     \<and> un_BoardJSON (fst (savedNote E now existing u req)) = NoText"
  by (simp add: savedNote_simps)

text \<open>
  The operation id of a save is derived from its content. A save that returns to an earlier content of the note
  advances the version of the note but is not logged.
\<close>

theorem repeated_content_not_logged:
  assumes "storeSave E now db h u existing req = Inr (resp, db')"
    and "HasNoteOperation db (un_ID existing) (''http-save:'' @ rp_Revision resp)"
  shows "nd_ops db' = nd_ops db \<and> un_CollabVersion (fst (savedNote E now existing u req)) = un_CollabVersion existing + 1"
proof -
  obtain r where r: "r = (storedNote (fst (savedNote E now existing u req)))\<lparr>un_CreatedAt := un_CreatedAt r\<rparr>"
      and resp: "resp = \<lparr>rp_NoteID = un_NoteID r, rp_Revision = un_Revision r, rp_UpdatedAt = un_UpdatedAt r, rp_PageType = un_PageType r\<rparr>"
      and s: "saveUserNoteWithOperations (fst (savedNote E now existing u req)) [httpOperation (''http-save:'' @ un_Revision r)
       (fst (savedNote E now existing u req)) u (un_CollabVersion existing) (snd (savedNote E now existing u req)) now] db = Inr db'"
    using storeSave_Inr [OF assms(1)] by metis
  obtain db1 where up: "UpsertUserNote (fst (savedNote E now existing u req)) db = Inr db1" and ins: "insertOperations
      [httpOperation (''http-save:'' @ un_Revision r) (fst (savedNote E now existing u req)) u (un_CollabVersion existing) (snd (savedNote E now existing u req)) now] db1 = Inr db'"
    using s by (auto simp: saveUserNoteWithOperations_def bindR_Inr_iff)
  have "nd_ops db1 = nd_ops db" using up by (auto elim: UpsertUserNote_Inr)
  then have "HasNoteOperation db1 (un_ID existing) (''http-save:'' @ un_Revision r)" using assms(2) by (simp add: HasNoteOperation_def resp)
  then have "db' = db1" using ins by (simp add: httpOperation_def savedNote_simps insertOperation_def)
  then show ?thesis using \<open>nd_ops db1 = nd_ops db\<close> by (simp add: savedNote_simps)
qed

theorem notes_tables_safe_witness:
  "\<exists>db. reachable no_notes table_step db \<and> nd_notes db = [sampleNote] \<and> distinct (map (\<lambda>p. (no_NoteID p, no_OpID p)) (nd_ops db))"
proof -
  obtain resp db' where run: "SaveProfile sampleNoteEnv ''n1'' 5 ''u1'' ''plan.md'' sampleSave sampleNotes = Inr (resp, db')" "nd_notes db' = [sampleNote]"
    using sampleSaved by blast
  then have "storeSave sampleNoteEnv 5 sampleNotes [] ''u1'' (newNote ''n1'' ''plan.md'' ''u1'' [] 5) sampleSave = Inr (resp, db')"
    by (auto simp: SaveProfile_def save_def sampleTarget split: sum.splits)
  then obtain n ps where s: "saveUserNoteWithOperations n ps sampleNotes = Inr db'" by (rule storeSave_Inr)
  have "reachable no_notes table_step sampleNotes" by (rule reach_init) (simp add: no_notes_def sampleNotes_def)
  then have "reachable no_notes table_step db'" by (rule reach_step) (rule table_step.save_ops [OF s])
  with notes_tables_safe [OF this] run(2) show ?thesis by blast
qed

end
