(* ===== verification/Note_Collab.thy ===== *)
theory Note_Collab
  imports Notes_Service
begin

text \<open>
  The collaboration hub, \<open>internal/cloud/note_collaboration.go\<close>: which app connections have joined which note, and the operations they
  submit and synchronise. The hub's map and its broadcasts are explicit; each method is one lock region on the
  map, and its database calls run outside the lock. A map is an association list, so the order in which peers are served
  is the order of that list; Go iterates in any order.
\<close>

section \<open>Sessions\<close>

record collabApp =
  ca_sessionID :: string
  ca_userID :: string

record noteCollabSession =
  ss_app :: collabApp
  ss_scope :: string
  ss_homeID :: string
  ss_noteInternalID :: string
  ss_noteKey :: string
  ss_collabSessionID :: string
  ss_joinedAt :: time

type_synonym collabHub = "(string, (string, noteCollabSession) gomap) gomap"

record presenceUser =
  pu_UserID :: string
  pu_SessionID :: string
  pu_JoinedAt :: time

record NoteCollaborationAppliedOp =
  ao_Op :: NoteCollaborationOperation
  ao_ActorUserID :: string
  ao_SessionID :: string
  ao_BaseVersion :: int
  ao_AppliedVersion :: int
  ao_CreatedAt :: time

record NoteCollaborationSnapshot =
  sn_NoteID :: string
  sn_AppliedVersion :: int
  sn_Revision :: string
  sn_Note :: NotesFetchResponse
  sn_Presence :: "presenceUser list"

record NoteCollaborationOpsEvent =
  oe_NoteID :: string
  oe_AppliedVersion :: int
  oe_Revision :: string
  oe_Ops :: "NoteCollaborationAppliedOp list"

record NoteCollaborationAck =
  ak_NoteID :: string
  ak_SessionID :: string
  ak_AppliedVersion :: int
  ak_AcceptedOps :: nat
  ak_Revision :: string

datatype collabPayload =
    PresencePayload string "presenceUser list"
  | OpsPayload NoteCollaborationOpsEvent
  | RevokedPayload string string

text \<open>An event written to an app: the connection, the event name is given by the payload, and the topic.\<close>

record collabEvent =
  ev_peer :: collabApp
  ev_topic :: string
  ev_payload :: collabPayload

definition normalizeCollabScope :: "string \<Rightarrow> string" where
  "normalizeCollabScope scope = (if trimSpace scope = ''profile'' then ''profile'' else ''home'')"

definition sessionKey :: "string \<Rightarrow> string \<Rightarrow> string" where
  "sessionKey appSessionID collabSessionID = appSessionID @ '':'' @ collabSessionID"

definition noteCollabTopic :: "string \<Rightarrow> string" where
  "noteCollabTopic noteID = ''notes.collab:'' @ trimSpace noteID"

definition scopedNoteCollabTopic :: "string \<Rightarrow> string \<Rightarrow> string" where
  "scopedNoteCollabTopic scope noteID =
     (let scope = trimSpace scope in
      if scope = [] then noteCollabTopic noteID else ''notes.collab:'' @ scope @ '':'' @ trimSpace noteID)"

section \<open>The map of sessions\<close>

definition sessionsOf :: "collabHub \<Rightarrow> string \<Rightarrow> (string, noteCollabSession) gomap" where
  "sessionsOf hub noteID = (case mget hub noteID of None \<Rightarrow> [] | Some m \<Rightarrow> m)"

definition presenceLocked :: "collabHub \<Rightarrow> string \<Rightarrow> presenceUser list" where
  "presenceLocked hub noteID =
     sort_key (\<lambda>p. (pu_UserID p, pu_SessionID p))
       (map (\<lambda>(k, s). \<lparr>pu_UserID = ca_userID (ss_app s), pu_SessionID = ss_collabSessionID s, pu_JoinedAt = ss_joinedAt s\<rparr>) (sessionsOf hub noteID))"

fun distinctPeers :: "string list \<Rightarrow> noteCollabSession list \<Rightarrow> collabApp list" where
  "distinctPeers seen [] = []"
| "distinctPeers seen (s # ss) =
     (if ca_sessionID (ss_app s) \<in> set seen then distinctPeers seen ss
      else ss_app s # distinctPeers (ca_sessionID (ss_app s) # seen) ss)"

definition notePeersLocked :: "collabHub \<Rightarrow> string \<Rightarrow> collabApp list" where
  "notePeersLocked hub noteID = distinctPeers [] (map snd (sessionsOf hub noteID))"

definition scopedEvents :: "string \<Rightarrow> string \<Rightarrow> collabPayload \<Rightarrow> collabApp \<Rightarrow> collabEvent list" where
  "scopedEvents scope noteID payload peer =
     \<lparr>ev_peer = peer, ev_topic = scopedNoteCollabTopic scope noteID, ev_payload = payload\<rparr> #
     (if normalizeCollabScope scope = ''home'' then [\<lparr>ev_peer = peer, ev_topic = noteCollabTopic noteID, ev_payload = payload\<rparr>] else [])"

definition broadcastPresence :: "collabApp list \<Rightarrow> string \<Rightarrow> string \<Rightarrow> presenceUser list \<Rightarrow> collabEvent list" where
  "broadcastPresence peers scope noteID presence = concat (map (scopedEvents scope noteID (PresencePayload noteID presence)) peers)"

definition broadcastOps :: "collabApp list \<Rightarrow> string \<Rightarrow> NoteCollaborationOpsEvent \<Rightarrow> collabEvent list" where
  "broadcastOps peers scope payload = concat (map (scopedEvents scope (oe_NoteID payload) (OpsPayload payload)) peers)"

definition resolveNote :: "notesDb \<Rightarrow> string \<Rightarrow> string \<Rightarrow> string \<Rightarrow> string \<Rightarrow> UserNote result" where
  "resolveNote db scope homeID userID noteKey =
     (if normalizeCollabScope scope = ''profile'' then GetProfileNote db userID noteKey
      else GetHomeNoteVisibleToUser db homeID userID noteKey)"

definition collabSnapshot :: "noteEnv \<Rightarrow> UserNote \<Rightarrow> presenceUser list \<Rightarrow> NoteCollaborationSnapshot result" where
  "collabSnapshot E n presence =
     bindR (noteFetch E n) (\<lambda>f. Inr \<lparr>sn_NoteID = un_NoteID n, sn_AppliedVersion = un_CollabVersion n, sn_Revision = un_Revision n,
       sn_Note = f, sn_Presence = presence\<rparr>)"

definition addSession :: "string \<Rightarrow> string \<Rightarrow> noteCollabSession \<Rightarrow> collabHub \<Rightarrow> collabHub" where
  "addSession noteID key s hub = mput noteID (mput key s (sessionsOf hub noteID)) hub"

text \<open>Deleting the sessions of a note that satisfy a condition, and the note's entry when none is left.\<close>

definition dropSessions :: "string \<Rightarrow> (string \<Rightarrow> noteCollabSession \<Rightarrow> bool) \<Rightarrow> collabHub \<Rightarrow> collabHub" where
  "dropSessions noteID gone hub =
     (case mget hub noteID of
        None \<Rightarrow> hub
      | Some m \<Rightarrow>
          let m' = filter (\<lambda>(k, s). \<not> gone k s) m in
          if m' = [] then mdel noteID hub else mput noteID m' hub)"

definition join ::
    "noteEnv \<Rightarrow> time \<Rightarrow> notesDb \<Rightarrow> string \<Rightarrow> string \<Rightarrow> string \<Rightarrow> string \<Rightarrow> collabApp \<Rightarrow> collabHub
      \<Rightarrow> NoteCollaborationSnapshot result \<times> collabEvent list \<times> collabHub" where
  "join E now db scope homeID noteKey collabSessionID app hub =
     (let scope = normalizeCollabScope scope in
      case ifActive (resolveNote db scope homeID (ca_userID app) noteKey) of
        Inl e \<Rightarrow> (Inl e, [], hub)
      | Inr n \<Rightarrow>
          let s = \<lparr>ss_app = app, ss_scope = scope, ss_homeID = homeID, ss_noteInternalID = un_ID n, ss_noteKey = un_NoteID n,
                   ss_collabSessionID = collabSessionID, ss_joinedAt = now\<rparr>;
              hub' = addSession (un_ID n) (sessionKey (ca_sessionID app) collabSessionID) s hub;
              presence = presenceLocked hub' (un_ID n)
          in case collabSnapshot E n presence of
               Inl e \<Rightarrow> (Inl e, [], hub')
             | Inr snap \<Rightarrow> (Inr snap, broadcastPresence (notePeersLocked hub' (un_ID n)) scope (un_NoteID n) presence, hub'))"

definition leave ::
    "notesDb \<Rightarrow> string \<Rightarrow> string \<Rightarrow> string \<Rightarrow> string \<Rightarrow> collabApp \<Rightarrow> collabHub \<Rightarrow> unit result \<times> collabEvent list \<times> collabHub" where
  "leave db scope homeID noteKey collabSessionID app hub =
     (let scope = normalizeCollabScope scope in
      case resolveNote db scope homeID (ca_userID app) noteKey of
        Inl e \<Rightarrow> (Inl e, [], hub)
      | Inr n \<Rightarrow>
          let hub' = dropSessions (un_ID n) (\<lambda>k s. k = sessionKey (ca_sessionID app) collabSessionID) hub in
          (Inr (), broadcastPresence (notePeersLocked hub' (un_ID n)) scope (un_NoteID n) (presenceLocked hub' (un_ID n)), hub'))"

definition allSessions :: "collabHub \<Rightarrow> noteCollabSession list" where
  "allSessions hub = concat (map (\<lambda>(nid, m). map snd m) hub)"

text \<open>Deleting matching sessions from every note, as the loops over the whole map do.\<close>

definition dropEverywhere :: "(noteCollabSession \<Rightarrow> bool) \<Rightarrow> collabHub \<Rightarrow> collabHub" where
  "dropEverywhere gone hub =
     filter (\<lambda>(nid, m). m \<noteq> []) (map (\<lambda>(nid, m). (nid, filter (\<lambda>(k, s). \<not> gone s) m)) hub)"

definition revokedEvent :: "string \<Rightarrow> noteCollabSession \<Rightarrow> collabEvent" where
  "revokedEvent reason s = \<lparr>ev_peer = ss_app s, ev_topic = noteCollabTopic (ss_noteKey s), ev_payload = RevokedPayload (ss_noteKey s) reason\<rparr>"

definition revokeUser :: "string \<Rightarrow> string \<Rightarrow> string \<Rightarrow> collabHub \<Rightarrow> collabEvent list \<times> collabHub" where
  "revokeUser homeID userID reason hub =
     (let gone = (\<lambda>s. ss_homeID s = homeID \<and> ca_userID (ss_app s) = userID) in
      (map (revokedEvent reason) (filter gone (allSessions hub)), dropEverywhere gone hub))"

definition revokeNoteUser :: "string \<Rightarrow> string \<Rightarrow> string \<Rightarrow> collabHub \<Rightarrow> collabEvent list \<times> collabHub" where
  "revokeNoteUser noteInternalID userID reason hub =
     (map (revokedEvent reason) (filter (\<lambda>s. ca_userID (ss_app s) = userID) (map snd (sessionsOf hub noteInternalID))),
      dropSessions noteInternalID (\<lambda>k s. ca_userID (ss_app s) = userID) hub)"

definition removeApp :: "string \<Rightarrow> collabHub \<Rightarrow> collabEvent list \<times> collabHub" where
  "removeApp appSessionID hub =
     (let gone = (\<lambda>s. ca_sessionID (ss_app s) = appSessionID);
          hub' = dropEverywhere gone hub;
          affected = filter (\<lambda>(nid, m). list_ex (gone \<circ> snd) m) hub
      in (concat (map (\<lambda>(nid, m).
            let s = snd (last (filter (gone \<circ> snd) m)) in
            broadcastPresence (notePeersLocked hub' nid) (ss_scope s) (ss_noteKey s) (presenceLocked hub' nid)) affected), hub'))"

section \<open>Operations\<close>

text \<open>What reading a logged document as an operation gives: fields that the operation does not have are dropped.\<close>

definition emptyOperation :: NoteCollaborationOperation where
  "emptyOperation = \<lparr>op_OpID = [], op_Type = [], op_Field = [], op_Value = [], op_Index = 0, op_DeleteCount = 0, op_Text = [], op_ID = [],
     op_ParentID = [], op_ToIndex = 0\<rparr>"

fun decodeOperation :: "opDoc \<Rightarrow> NoteCollaborationOperation" where
  "decodeOperation (CollabDoc p) = p"
| "decodeOperation (SnapshotDoc title content pageType parent pinned sortOrder board) =
     emptyOperation\<lparr>op_Type := ''replace_snapshot'', op_ParentID := parent\<rparr>"
| "decodeOperation DeleteDoc = emptyOperation\<lparr>op_Type := ''delete_note''\<rparr>"

definition decodeAppliedOperations :: "NoteOperation list \<Rightarrow> NoteCollaborationAppliedOp list" where
  "decodeAppliedOperations = map (\<lambda>p.
     \<lparr>ao_Op = decodeOperation (no_OpJSON p), ao_ActorUserID = no_ActorUserID p, ao_SessionID = no_SessionID p,
      ao_BaseVersion = no_BaseVersion p, ao_AppliedVersion = no_AppliedVersion p, ao_CreatedAt = no_CreatedAt p\<rparr>)"

datatype syncResult = SyncSnapshot NoteCollaborationSnapshot | SyncOps NoteCollaborationOpsEvent

definition sync ::
    "noteEnv \<Rightarrow> notesDb \<Rightarrow> collabHub \<Rightarrow> string \<Rightarrow> string \<Rightarrow> string \<Rightarrow> string \<Rightarrow> int \<Rightarrow> int \<Rightarrow> syncResult result" where
  "sync E db hub scope homeID noteKey userID afterVersion maxOperations =
     bindR (ifActive (resolveNote db (normalizeCollabScope scope) homeID userID noteKey)) (\<lambda>n.
       let snap = bindR (collabSnapshot E n (presenceLocked hub (un_ID n))) (Inr \<circ> SyncSnapshot);
           oldest = GetOldestNoteOperationVersion db (un_ID n)
       in if oldest > 0 \<and> afterVersion < oldest - 1 then snap
          else let ops = ListNoteOperationsSince db (un_ID n) afterVersion maxOperations in
            if ops = [] then snap
            else Inr (SyncOps \<lparr>oe_NoteID = un_NoteID n, oe_AppliedVersion = un_CollabVersion n, oe_Revision = un_Revision n,
              oe_Ops = decodeAppliedOperations ops\<rparr>))"

record NoteCollaborationSubmitOpsRequest =
  so_NoteID :: string
  so_SessionID :: string
  so_Scope :: string
  so_BaseVersion :: int
  so_Ops :: "NoteCollaborationOperation list"

definition errOpID :: error where "errOpID = ErrMsg ''op_id is required''"

text \<open>The loop over the submitted operations: the state, and what was applied together with the version it got.\<close>

fun applyOps ::
    "noteEnv \<Rightarrow> notesDb \<Rightarrow> string \<Rightarrow> string \<Rightarrow> NoteCollaborationOperation list \<Rightarrow> collabState
      \<Rightarrow> (collabState \<times> (NoteCollaborationOperation \<times> int) list) result" where
  "applyOps E db nid userID [] st = Inr (st, [])"
| "applyOps E db nid userID (p # ps) st =
     (if blank (op_OpID p) then Inl errOpID
      else if HasNoteOperation db nid (op_OpID p) then applyOps E db nid userID ps st
      else bindR (applyCollaborationOperation E st userID p) (\<lambda>st1.
        bindR (applyOps E db nid userID ps st1) (\<lambda>(st', applied). Inr (st', (p, st_CollabVersion st1) # applied))))"

definition opRecord :: "string \<Rightarrow> string \<Rightarrow> NoteCollaborationSubmitOpsRequest \<Rightarrow> time \<Rightarrow> NoteCollaborationOperation \<times> int \<Rightarrow> NoteOperation" where
  "opRecord nid userID req now = (\<lambda>(p, v).
     \<lparr>no_NoteID = nid, no_OpID = op_OpID p, no_ActorUserID = userID, no_SessionID = so_SessionID req, no_BaseVersion = so_BaseVersion req,
      no_AppliedVersion = v, no_OpJSON = CollabDoc p, no_CreatedAt = now\<rparr>)"

definition appliedOp :: "string \<Rightarrow> NoteCollaborationSubmitOpsRequest \<Rightarrow> time \<Rightarrow> NoteCollaborationOperation \<times> int \<Rightarrow> NoteCollaborationAppliedOp" where
  "appliedOp userID req now = (\<lambda>(p, v).
     \<lparr>ao_Op = p, ao_ActorUserID = userID, ao_SessionID = so_SessionID req, ao_BaseVersion = so_BaseVersion req, ao_AppliedVersion = v,
      ao_CreatedAt = now\<rparr>)"

text \<open>
  \<open>submitOps\<close> reads the note, applies the operations to its state, and writes note and log in one transaction. \<open>prepareOps\<close> is
  the part before the transaction: what is to be written, or nothing when every operation is known already.
\<close>

definition prepareOps ::
    "noteEnv \<Rightarrow> time \<Rightarrow> notesDb \<Rightarrow> string \<Rightarrow> NoteCollaborationSubmitOpsRequest \<Rightarrow> collabApp
      \<Rightarrow> (UserNote \<times> (UserNote \<times> (NoteCollaborationOperation \<times> int) list) option) result" where
  "prepareOps E now db homeID req app =
     (let scope = normalizeCollabScope (so_Scope req) in
      bindR (ifActive (resolveNote db scope homeID (ca_userID app) (so_NoteID req))) (\<lambda>n.
      bindR (applyOps E db (un_ID n) (ca_userID app) (so_Ops req) (decodeCollabState E n)) (\<lambda>(st, applied).
        if applied = [] then Inr (n, None)
        else bindR (validateNotebookParent E db (scope = ''home'') homeID (ca_userID app) n (pageTypeOf E (cs_Value (st_PageType st)))
              (trimSpace (cs_Value (st_ParentID st)))) (\<lambda>_.
          Inr (n, Some (fst (materializeNoteFromState E n st (ca_userID app) now), applied))))))"

definition submitOps ::
    "noteEnv \<Rightarrow> time \<Rightarrow> string \<Rightarrow> NoteCollaborationSubmitOpsRequest \<Rightarrow> collabApp \<Rightarrow> collabHub \<Rightarrow> notesDb
      \<Rightarrow> (NoteCollaborationAck \<times> collabEvent list \<times> notesDb) result" where
  "submitOps E now homeID req app hub db =
     bindR (prepareOps E now db homeID req app) (\<lambda>(n, work).
       let ack = (\<lambda>m k. \<lparr>ak_NoteID = un_NoteID m, ak_SessionID = so_SessionID req, ak_AppliedVersion = un_CollabVersion m,
                         ak_AcceptedOps = k, ak_Revision = un_Revision m\<rparr>) in
       case work of
         None \<Rightarrow> Inr (ack n 0, [], db)
       | Some (updated, applied) \<Rightarrow>
           bindR (saveUserNoteWithOperations updated (map (opRecord (un_ID n) (ca_userID app) req now) applied) db) (\<lambda>db'.
             Inr (ack updated (length applied),
                  broadcastOps (notePeersLocked hub (un_ID updated)) (normalizeCollabScope (so_Scope req))
                    \<lparr>oe_NoteID = un_NoteID updated, oe_AppliedVersion = un_CollabVersion updated, oe_Revision = un_Revision updated,
                     oe_Ops = map (appliedOp (ca_userID app) req now) applied\<rparr>,
                  db')))"

section \<open>Submitting operations\<close>

definition replayOps :: "noteEnv \<Rightarrow> string \<Rightarrow> NoteCollaborationOperation list \<Rightarrow> collabState \<Rightarrow> collabState result" where
  "replayOps E userID ps st = foldl (\<lambda>r p. bindR r (\<lambda>st. applyCollaborationOperation E st userID p)) (Inr st) ps"

lemma replayOps_simps [simp]:
  "replayOps E u [] st = Inr st"
  "replayOps E u (p # ps) st = bindR (applyCollaborationOperation E st u p) (replayOps E u ps)"
proof -
  have inl: "foldl (\<lambda>r p. bindR r (\<lambda>st. applyCollaborationOperation E st u p)) (Inl e) ps = Inl e" for e by (induction ps) simp_all
  show "replayOps E u [] st = Inr st" by (simp add: replayOps_def)
  show "replayOps E u (p # ps) st = bindR (applyCollaborationOperation E st u p) (replayOps E u ps)"
    by (cases "applyCollaborationOperation E st u p") (simp_all add: replayOps_def inl)
qed

text \<open>The operations that are applied are those not logged before, in the order of the request, with consecutive versions.\<close>

lemma applyOps_Inr:
  assumes "applyOps E db nid u ps st = Inr (st', applied)"
  shows "map fst applied = filter (\<lambda>p. \<not> HasNoteOperation db nid (op_OpID p)) ps"
    and "map snd applied = map (\<lambda>i. st_CollabVersion st + int (Suc i)) [0..<length applied]"
    and "replayOps E u (filter (\<lambda>p. \<not> HasNoteOperation db nid (op_OpID p)) ps) st = Inr st'" and "st_CollabVersion st' = st_CollabVersion st + int (length applied)"
    and "\<forall>p \<in> set ps. \<not> blank (op_OpID p)"
proof -
  have "map fst applied = filter (\<lambda>p. \<not> HasNoteOperation db nid (op_OpID p)) ps
      \<and> map snd applied = map (\<lambda>i. st_CollabVersion st + int (Suc i)) [0..<length applied]
      \<and> replayOps E u (filter (\<lambda>p. \<not> HasNoteOperation db nid (op_OpID p)) ps) st = Inr st' \<and> st_CollabVersion st' = st_CollabVersion st + int (length applied)
      \<and> (\<forall>p \<in> set ps. \<not> blank (op_OpID p))"
    using assms
  proof (induction ps arbitrary: st applied)
    case (Cons p ps)
    show ?case
    proof (cases "HasNoteOperation db nid (op_OpID p)")
      case True
      then have nb: "\<not> blank (op_OpID p)" and rest: "applyOps E db nid u ps st = Inr (st', applied)"
        using Cons.prems by (auto split: if_splits)
      show ?thesis using Cons.IH [OF rest] True nb by auto
    next
      case False
      then obtain st1 rest where s: "applyCollaborationOperation E st u p = Inr st1" "applyOps E db nid u ps st1 = Inr (st', rest)"
          "applied = (p, st_CollabVersion st1) # rest" "\<not> blank (op_OpID p)"
        using Cons.prems by (auto simp: bindR_Inr_iff split: if_splits)
      have v: "st_CollabVersion st1 = st_CollabVersion st + 1" using s(1) by (rule apply_version)
      have "[0..<Suc (length rest)] = 0 # map Suc [0..<length rest]" by (simp add: map_Suc_upt upt_conv_Cons del: upt_Suc)
      then show ?thesis using Cons.IH [OF s(2)] s False v by (simp add: comp_def algebra_simps del: upt_Suc)
    qed
  qed simp
  then show "map fst applied = filter (\<lambda>p. \<not> HasNoteOperation db nid (op_OpID p)) ps"
    "map snd applied = map (\<lambda>i. st_CollabVersion st + int (Suc i)) [0..<length applied]"
    "replayOps E u (filter (\<lambda>p. \<not> HasNoteOperation db nid (op_OpID p)) ps) st = Inr st'" "st_CollabVersion st' = st_CollabVersion st + int (length applied)"
    "\<forall>p \<in> set ps. \<not> blank (op_OpID p)" by blast+
qed

lemma applyOps_known:
  "\<forall>p \<in> set ps. \<not> blank (op_OpID p) \<and> HasNoteOperation db nid (op_OpID p) \<Longrightarrow> applyOps E db nid u ps st = Inr (st, [])"
  by (induction ps) auto

lemma prepareOps_Inr:
  assumes "prepareOps E now db h req app = Inr (n, work)"
  obtains st applied where "resolveNote db (normalizeCollabScope (so_Scope req)) h (ca_userID app) (so_NoteID req) = Inr n" "active n"
    "applyOps E db (un_ID n) (ca_userID app) (so_Ops req) (decodeCollabState E n) = Inr (st, applied)"
    "work = (if applied = [] then None else Some (fst (materializeNoteFromState E n st (ca_userID app) now), applied))"
  using assms by (auto simp: prepareOps_def ifActive_def bindR_Inr_iff Let_def split: if_splits)

lemma resolve_mayEdit:
  "resolveNote db scope h u key = Inr n \<Longrightarrow> n \<in> set (nd_notes db) \<and> mayEdit db u n \<and> un_NoteID n = key
     \<and> (if normalizeCollabScope scope = ''profile'' then un_OwnerUserID n = u else inHome h n)"
  unfolding resolveNote_def GetHomeNoteVisibleToUser_def GetProfileNote_def mayEdit_def by (auto dest!: noteRow_Inr split: if_splits)

text \<open>A row with the key and the home of a note is found in its place.\<close>

lemma resolve_replaced:
  assumes "keys_ok (nd_notes db')" "r \<in> set (nd_notes db')" "nd_shares db' = nd_shares db"
    and n: "resolveNote db scope h u key = Inr n" and r: "sameKey r n" "un_ID r = un_ID n" "un_HomeID r = un_HomeID n"
  shows "resolveNote db' scope h u key = Inr r"
proof -
  have f: "mayEdit db u n" "un_NoteID n = key" "if normalizeCollabScope scope = ''profile'' then un_OwnerUserID n = u else inHome h n"
    using resolve_mayEdit [OF n] by blast+
  have "un_NoteID r = key" "un_OwnerUserID r = un_OwnerUserID n" using r(1) f(2) by (simp_all add: sameKey_def)
  moreover have "mayEdit db' u r" using f(1) r assms(3) by (simp add: mayEdit_def sharedWith_def sameKey_def)
  ultimately show ?thesis
    using f(3) profile_lookup [OF assms(1,2)] home_note_unique(1) [OF assms(1,2), of h u] r(3)
    by (cases "normalizeCollabScope scope = ''profile''") (auto simp: resolveNote_def inHome_def)
qed

lemma insertOperations_has:
  "insertOperations ps db = Inr db' \<Longrightarrow>
     (\<forall>p \<in> set ps. HasNoteOperation db' (no_NoteID p) (no_OpID p)) \<and> (HasNoteOperation db nid k \<longrightarrow> HasNoteOperation db' nid k)"
proof (induction ps arbitrary: db)
  case (Cons p ps)
  then obtain db1 where s: "insertOperation p db = Inr db1" "insertOperations ps db1 = Inr db'" by (auto simp: bindR_Inr_iff)
  have "HasNoteOperation db1 (no_NoteID p) (no_OpID p)" "HasNoteOperation db nid k \<Longrightarrow> HasNoteOperation db1 nid k"
    using insertOperation_Inr(1) [OF s(1)] by (auto simp: HasNoteOperation_def)
  moreover have "HasNoteOperation db1 a b \<Longrightarrow> HasNoteOperation db' a b" for a b
    using insertOperations_frame [OF s(2)] by (auto simp: HasNoteOperation_iff)
  ultimately show ?case using Cons.IH [OF s(2)] by auto
qed simp

lemma save_has:
  assumes "saveUserNoteWithOperations n ps db = Inr db'"
  shows "p \<in> set ps \<Longrightarrow> HasNoteOperation db' (no_NoteID p) (no_OpID p)" "HasNoteOperation db nid k \<Longrightarrow> HasNoteOperation db' nid k"
proof -
  obtain db1 where s: "UpsertUserNote n db = Inr db1" "insertOperations ps db1 = Inr db'"
    using assms by (auto simp: saveUserNoteWithOperations_def bindR_Inr_iff)
  have "nd_ops db1 = nd_ops db" using s(1) by (auto elim: UpsertUserNote_Inr)
  then have same: "HasNoteOperation db1 nid k = HasNoteOperation db nid k" by (simp add: HasNoteOperation_def)
  show "p \<in> set ps \<Longrightarrow> HasNoteOperation db' (no_NoteID p) (no_OpID p)" using insertOperations_has [OF s(2)] by blast
  show "HasNoteOperation db nid k \<Longrightarrow> HasNoteOperation db' nid k" using insertOperations_has [OF s(2)] same by blast
qed

lemma applied_logged:
  assumes save: "saveUserNoteWithOperations m (map (opRecord nid u req now) applied) db1 = Inr db'"
    and ops: "applyOps E db nid u ps st = Inr (st', applied)" and p: "p \<in> set ps" "\<not> HasNoteOperation db nid (op_OpID p)"
  shows "HasNoteOperation db' nid (op_OpID p)"
proof -
  have "p \<in> set (map fst applied)" using p applyOps_Inr(1) [OF ops] by simp
  then obtain v where "(p, v) \<in> set applied" by auto
  then have "opRecord nid u req now (p, v) \<in> set (map (opRecord nid u req now) applied)" by simp
  from save_has(1) [OF save this] show ?thesis by (simp add: opRecord_def)
qed

lemma submitted_known:
  assumes save: "saveUserNoteWithOperations m (map (opRecord nid u req now) applied) db = Inr db'"
    and ops: "applyOps E db nid u ps st = Inr (st', applied)"
  shows "\<forall>p \<in> set ps. HasNoteOperation db' nid (op_OpID p)"
  using applied_logged [OF save ops] save_has(2) [OF save] by blast

lemma submitOps_cases:
  assumes "submitOps E now h req app hub db = Inr (ack, evs, db')"
  obtains (none) n where "prepareOps E now db h req app = Inr (n, None)" "db' = db" "evs = []"
      "ack = \<lparr>ak_NoteID = un_NoteID n, ak_SessionID = so_SessionID req, ak_AppliedVersion = un_CollabVersion n, ak_AcceptedOps = 0, ak_Revision = un_Revision n\<rparr>"
  | (some) n m applied where "prepareOps E now db h req app = Inr (n, Some (m, applied))"
      "saveUserNoteWithOperations m (map (opRecord (un_ID n) (ca_userID app) req now) applied) db = Inr db'"
      "ack = \<lparr>ak_NoteID = un_NoteID m, ak_SessionID = so_SessionID req, ak_AppliedVersion = un_CollabVersion m, ak_AcceptedOps = length applied, ak_Revision = un_Revision m\<rparr>"
      "evs = broadcastOps (notePeersLocked hub (un_ID m)) (normalizeCollabScope (so_Scope req)) \<lparr>oe_NoteID = un_NoteID m, oe_AppliedVersion = un_CollabVersion m,
         oe_Revision = un_Revision m, oe_Ops = map (appliedOp (ca_userID app) req now) applied\<rparr>"
proof -
  obtain n work where prep: "prepareOps E now db h req app = Inr (n, work)"
    using assms by (auto simp: submitOps_def bindR_Inr_iff)
  show thesis
  proof (cases work)
    case None
    show thesis by (rule none [of n]) (use assms prep in \<open>simp_all add: None submitOps_def\<close>)
  next
    case (Some w)
    obtain m applied where w: "w = (m, applied)" by (cases w)
    have "submitOps E now h req app hub db = Inr (ack, evs, db')" by (fact assms)
    then obtain db1 where r: "saveUserNoteWithOperations m (map (opRecord (un_ID n) (ca_userID app) req now) applied) db = Inr db1"
      by (auto simp: submitOps_def prep Some w bindR_Inr_iff)
    show thesis by (rule some [of n m applied]) (use prep assms r in \<open>simp_all add: Some w submitOps_def\<close>)
  qed
qed

text \<open>What a submission with new operations wrote: one row, in the place of the note it found.\<close>

lemma submit_row:
  assumes ok: "tables_ok db" and prep: "prepareOps E now db h req app = Inr (n, Some (m, applied))"
    and save: "saveUserNoteWithOperations m ps db = Inr db'"
  obtains r st where "applyOps E db (un_ID n) (ca_userID app) (so_Ops req) (decodeCollabState E n) = Inr (st, applied)"
    "m = fst (materializeNoteFromState E n st (ca_userID app) now)" "active n"
    "r = m\<lparr>un_CreatedAt := un_CreatedAt r\<rparr>" "nd_notes db' = replaceRow r (nd_notes db)" "nd_shares db' = nd_shares db" "tables_ok db'"
    "resolveNote db (normalizeCollabScope (so_Scope req)) h (ca_userID app) (so_NoteID req) = Inr n"
    "resolveNote db' (normalizeCollabScope (so_Scope req)) h (ca_userID app) (so_NoteID req) = Inr r"
proof -
  obtain st where p: "resolveNote db (normalizeCollabScope (so_Scope req)) h (ca_userID app) (so_NoteID req) = Inr n" "active n"
      "applyOps E db (un_ID n) (ca_userID app) (so_Ops req) (decodeCollabState E n) = Inr (st, applied)"
      "m = fst (materializeNoteFromState E n st (ca_userID app) now)"
    using prep by (rule prepareOps_Inr) (auto split: if_splits)
  obtain r where db': "db' = db\<lparr>nd_notes := replaceRow r (nd_notes db), nd_ops := nd_ops db'\<rparr>"
      and r: "r = (storedNote m)\<lparr>un_CreatedAt := un_CreatedAt r\<rparr>" using save by (rule save_rows)
  have n: "n \<in> set (nd_notes db)" using resolve_mayEdit [OF p(1)] by blast
  then have "storedNote n = n" using ok by (simp add: tables_ok_def)
  then have home: "trimSpace (un_HomeID n) = un_HomeID n" by (metis stored_simps(13))
  then have "storedNote m = m"
    by (simp add: storedNote_def p(4) materialize_simps noteBodyText_def noteBodyFormat_def literal_simps)
  then have r': "r = m\<lparr>un_CreatedAt := un_CreatedAt r\<rparr>" using r by metis
  have rows: "nd_notes db' = replaceRow r (nd_notes db)" "nd_shares db' = nd_shares db" by (subst db', simp)+
  have ok': "tables_ok db'" using saveUserNote_ok [OF ok save] .
  have "sameKey r n" "un_ID r = un_ID n" "un_HomeID r = un_HomeID n" by (subst r', simp add: p(4) materialize_simps sameKey_def)+
  then have "resolveNote db' (normalizeCollabScope (so_Scope req)) h (ca_userID app) (so_NoteID req) = Inr r"
    using ok' rows replaceRow_mem p(1) by (intro resolve_replaced [of db' r db]) (simp_all add: tables_ok_def)
  then show ?thesis using that [OF p(3,4,2) r' rows ok' p(1)] by blast
qed


text \<open>Submitting is idempotent. A request that was accepted, sent again by the same user, is answered with the same note,
  version and revision, accepts no operation, sends nothing to collaborators and changes nothing in the database.\<close>

theorem submit_ops_idempotent:
  assumes ok: "tables_ok db" and run: "submitOps E now h req app hub db = Inr (ack, evs, db')"
  shows "\<exists>ack'. submitOps E now' h req app hub' db' = Inr (ack', [], db') \<and> ak_AcceptedOps ack' = 0
    \<and> ak_NoteID ack' = ak_NoteID ack \<and> ak_AppliedVersion ack' = ak_AppliedVersion ack \<and> ak_Revision ack' = ak_Revision ack"
  using run
proof (cases rule: submitOps_cases)
  case (none n)
  obtain st' applied where p: "resolveNote db (normalizeCollabScope (so_Scope req)) h (ca_userID app) (so_NoteID req) = Inr n" "active n"
      "applyOps E db (un_ID n) (ca_userID app) (so_Ops req) (decodeCollabState E n) = Inr (st', [])"
    using none(1) by (rule prepareOps_Inr) (auto split: if_splits)
  then show ?thesis using none by (simp add: submitOps_def prepareOps_def ifActive_def Let_def)
next
  case (some n m applied)
  obtain r st where w: "applyOps E db (un_ID n) (ca_userID app) (so_Ops req) (decodeCollabState E n) = Inr (st, applied)"
      "m = fst (materializeNoteFromState E n st (ca_userID app) now)" "active n" "r = m\<lparr>un_CreatedAt := un_CreatedAt r\<rparr>"
      "resolveNote db' (normalizeCollabScope (so_Scope req)) h (ca_userID app) (so_NoteID req) = Inr r"
    using ok some(1,2) by (rule submit_row)
  have rf: "un_ID r = un_ID n" "active r" "un_NoteID r = un_NoteID m" "un_CollabVersion r = un_CollabVersion m" "un_Revision r = un_Revision m"
    using w(3) by (subst w(4), simp add: w(2) materialize_simps active_def)+
  have "\<forall>p \<in> set (so_Ops req). \<not> blank (op_OpID p) \<and> HasNoteOperation db' (un_ID r) (op_OpID p)"
    using submitted_known [OF some(2) w(1)] applyOps_Inr(5) [OF w(1)] rf(1) by simp
  then show ?thesis using w(5) rf by (simp add: submitOps_def prepareOps_def ifActive_def applyOps_known some(3))
qed

section \<open>A sample\<close>

definition sampleApp :: "string \<Rightarrow> collabApp" where
  "sampleApp k = \<lparr>ca_sessionID = k, ca_userID = ''u1''\<rparr>"

lemma sampleApp_user [simp]: "ca_userID (sampleApp k) = ''u1''"
  by (simp add: sampleApp_def)

definition sampleEdit :: "string \<Rightarrow> string \<Rightarrow> NoteCollaborationSubmitOpsRequest" where
  "sampleEdit opID t = \<lparr>so_NoteID = ''plan.md'', so_SessionID = [], so_Scope = ''profile'', so_BaseVersion = 1,
     so_Ops = [emptyOperation\<lparr>op_OpID := opID, op_Type := ''text_replace'', op_Text := t\<rparr>]\<rparr>"

definition sampleState :: "string \<Rightarrow> collabState" where
  "sampleState t = (saveState sampleNoteEnv (newNote ''n1'' ''plan.md'' ''u1'' [] 5) ''u1'' sampleSave)\<lparr>st_Content := t, st_CollabVersion := 2\<rparr>"

definition sampleWritten :: "time \<Rightarrow> string \<Rightarrow> UserNote" where
  "sampleWritten now t = fst (materializeNoteFromState sampleNoteEnv sampleNote (sampleState t) ''u1'' now)"

lemma sampleNote_fields:
  "un_ID sampleNote = ''n1''" "un_OwnerUserID sampleNote = ''u1''" "un_NoteID sampleNote = ''plan.md''" "un_DeletedAt sampleNote = None"
  "un_HomeID sampleNote = []" "un_ParentID sampleNote = []" "un_CollabVersion sampleNote = 1" "un_PageType sampleNote = ''text''"
  "un_Pinned sampleNote = False"
  by (simp_all add: sampleNote_simps newNote_def)

lemma sample_decode: "decodeCollabState sampleNoteEnv sampleNote = sampleState ''buy milk''\<lparr>st_CollabVersion := 1\<rparr>"
  by (simp add: decodeCollabState_def sampleNote_simps sampleState_def saveState_def Let_def newNote_def sampleSave_def saveParentID_def
    saveContent_def saveTitle_def fillScalar_def encodeBoard_def literal_simps)

lemma sample_prepare:
  assumes "\<not> blank opID"
  shows "prepareOps sampleNoteEnv now sampleStored [] (sampleEdit opID t) (sampleApp k)
      = Inr (sampleNote, Some (sampleWritten now t, [(hd (so_Ops (sampleEdit opID t)), 2)]))"
proof -
  have "cs_Value (st_ParentID (sampleState t)) = []" for t by (simp add: sampleState_def saveState_values saveParentID_def newNote_def sampleSave_def)
  then show ?thesis using assms
    by (simp add: prepareOps_def sampleEdit_def sampleApp_def resolveNote_def normalizeCollabScope_def GetProfileNote_def noteRow_def
      sampleStored_def ifActive_def active_def sampleNote_fields literal_simps HasNoteOperation_def sampleNotes_def sample_decode
      applyCollaborationOperation_def applyEdit_def emptyOperation_def validateNotebookParent_def sampleWritten_def)
      (simp add: sampleState_def)
qed

lemma sampleWritten_simps:
  "sampleWritten now t = sampleNote\<lparr>un_Title := ''Plan'', un_Content := t, un_BodyMarkdown := t, un_BodyFormat := ''markdown'',
     un_Revision := ''r'' @ t, un_Checksum := t, un_CRDTStateJSON := Doc (sampleState t), un_CollabVersion := 2, un_UpdatedAt := now, un_UpdatedBy := ''u1''\<rparr>"
  by (simp add: sampleWritten_def materialize_defs sampleState_def saveState_def Let_def newNote_def sampleSave_def saveParentID_def
    saveContent_def saveTitle_def settledState_def materializedContent_def encodeBoard_def sampleNoteEnv_def sampleNote_simps literal_simps isZero_def)

lemma sampleWritten_fields:
  "un_ID (sampleWritten now t) = ''n1''" "un_OwnerUserID (sampleWritten now t) = ''u1''" "un_NoteID (sampleWritten now t) = ''plan.md''"
  "un_HomeID (sampleWritten now t) = []" "un_ParentID (sampleWritten now t) = []" "un_PageType (sampleWritten now t) = ''text''"
  "un_Pinned (sampleWritten now t) = False" "un_UpdatedBy (sampleWritten now t) = ''u1''"
  by (simp_all add: sampleWritten_simps sampleNote_fields)

lemma sample_save:
  assumes db: "nd_notes db = [m]" "m = sampleNote \<or> m = sampleWritten now0 t0" "nd_users db = nd_users sampleNotes" "nd_sessions db = []"
    and new: "\<not> HasNoteOperation db ''n1'' opID"
  shows "saveUserNoteWithOperations (sampleWritten now t) (map (opRecord ''n1'' ''u1'' (sampleEdit opID t) now) [(hd (so_Ops (sampleEdit opID t)), 2)]) db
    = Inr (db\<lparr>nd_notes := [sampleWritten now t], nd_ops := nd_ops db @ [opRecord ''n1'' ''u1'' (sampleEdit opID t) now (hd (so_Ops (sampleEdit opID t)), 2)]\<rparr>)"
proof -
  have st: "storedNote (sampleWritten now t) = sampleWritten now t"
    by (simp add: sampleWritten_simps storedNote_def noteBodyText_def noteBodyFormat_def sampleNote_fields literal_simps)
  have c: "(sampleWritten now t)\<lparr>un_CreatedAt := un_CreatedAt m\<rparr> = sampleWritten now t" using db(2)
    by (auto simp: sampleWritten_simps)
  have m: "un_ID m = ''n1''" "un_ParentID m = []" "un_PageType m = ''text''" "un_OwnerUserID m = ''u1''" "un_NoteID m = ''plan.md''" using db(2)
    by (auto simp: sampleWritten_fields sampleNote_fields)
  have adm: "rowAdmissible db (sampleWritten now t)"
    by (simp add: rowAdmissible_def db(1,3) m sampleWritten_fields sampleNotes_def parentValid_def parentProtected_def sameKey_def)
  have "UpsertUserNote (sampleWritten now t) db = Inr (db\<lparr>nd_notes := [sampleWritten now t]\<rparr>)"
    using adm c by (simp add: UpsertUserNote_def Let_def db(1) replaceRow_def st sampleWritten_fields m)
  then show ?thesis using new
    by (simp add: saveUserNoteWithOperations_def opRecord_def insertOperation_def HasNoteOperation_def sampleWritten_fields
      sampleEdit_def emptyOperation_def db(3) sampleNotes_def nullableExistingSessionID_def db(4))
qed

lemma sample_submit:
  "\<exists>ack evs db'. submitOps sampleNoteEnv 7 [] (sampleEdit ''op1'' ''buy tea'') (sampleApp ''a1'') [] sampleStored = Inr (ack, evs, db')
    \<and> ak_AcceptedOps ack = 1"
proof -
  have "\<not> HasNoteOperation sampleStored ''n1'' ''op1''" by (simp add: HasNoteOperation_def sampleStored_def sampleNotes_def)
  then have "\<exists>db'. saveUserNoteWithOperations (sampleWritten 7 ''buy tea'')
      (map (opRecord ''n1'' ''u1'' (sampleEdit ''op1'' ''buy tea'') 7) [(hd (so_Ops (sampleEdit ''op1'' ''buy tea'')), 2)]) sampleStored = Inr db'"
    by (subst sample_save [where m = sampleNote]) (simp_all add: sampleStored_def sampleNotes_def)
  then show ?thesis
    by (auto simp: submitOps_def sample_prepare literal_simps blank_def sampleNote_fields)
qed


theorem submit_ops_idempotent_witness:
  "\<exists>ack evs db' ack'. submitOps sampleNoteEnv 7 [] (sampleEdit ''op1'' ''buy tea'') (sampleApp ''a1'') [] sampleStored = Inr (ack, evs, db')
    \<and> submitOps sampleNoteEnv 8 [] (sampleEdit ''op1'' ''buy tea'') (sampleApp ''a1'') [] db' = Inr (ack', [], db') \<and> ak_AcceptedOps ack' = 0"
  using sample_submit submit_ops_idempotent [OF sampleStored_ok] by blast

section \<open>Two submissions at once\<close>

text \<open>
  The hub reads the note before the transaction and never compares the version it read with the version in the database. When two
  submissions read the same row, the one that commits last stores what its own operations make of the row both have read: the
  operations of the other one stay in the log, acknowledged, and are in no stored state.
\<close>

theorem concurrent_submit_overwrites:
  assumes ok: "tables_ok db"
    and p1: "prepareOps E now1 db h req1 app1 = Inr (n, Some (m1, ops1))" and p2: "prepareOps E now2 db h req2 app2 = Inr (n, Some (m2, ops2))"
    and s1: "saveUserNoteWithOperations m1 (map (opRecord (un_ID n) (ca_userID app1) req1 now1) ops1) db = Inr db1"
    and s2: "saveUserNoteWithOperations m2 (map (opRecord (un_ID n) (ca_userID app2) req2 now2) ops2) db1 = Inr db2"
  shows "\<exists>r st. r \<in> set (nd_notes db2) \<and> un_ID r = un_ID n \<and> un_CRDTStateJSON r = Doc (settledState E st)
    \<and> replayOps E (ca_userID app2) (filter (\<lambda>p. \<not> HasNoteOperation db (un_ID n) (op_OpID p)) (so_Ops req2)) (decodeCollabState E n) = Inr st
    \<and> (\<forall>p \<in> set (so_Ops req1) \<union> set (so_Ops req2). HasNoteOperation db2 (un_ID n) (op_OpID p))"
proof -
  obtain st1 where a1: "applyOps E db (un_ID n) (ca_userID app1) (so_Ops req1) (decodeCollabState E n) = Inr (st1, ops1)"
    using p1 by (rule prepareOps_Inr) (auto split: if_splits)
  obtain st2 where a2: "applyOps E db (un_ID n) (ca_userID app2) (so_Ops req2) (decodeCollabState E n) = Inr (st2, ops2)"
      and m2: "m2 = fst (materializeNoteFromState E n st2 (ca_userID app2) now2)"
    using p2 by (rule prepareOps_Inr) (auto split: if_splits)
  obtain r where db2: "db2 = db1\<lparr>nd_notes := replaceRow r (nd_notes db1), nd_ops := nd_ops db2\<rparr>"
      and r: "r = (storedNote m2)\<lparr>un_CreatedAt := un_CreatedAt r\<rparr>" using s2 by (rule save_rows)
  have "r \<in> set (nd_notes db2)" by (subst db2) (simp add: replaceRow_mem)
  moreover have "un_ID r = un_ID n" "un_CRDTStateJSON r = Doc (settledState E st2)"
    by (subst r, simp add: stored_simps m2 materialize_simps)+
  moreover have "HasNoteOperation db2 (un_ID n) (op_OpID p)" if "p \<in> set (so_Ops req1)" for p
    using that submitted_known [OF s1 a1] save_has(2) [OF s2] by blast
  moreover have "HasNoteOperation db2 (un_ID n) (op_OpID p)" if "p \<in> set (so_Ops req2)" for p
    using that applied_logged [OF s2 a2] save_has(2) [OF s1] save_has(2) [OF s2] by blast
  ultimately show ?thesis using applyOps_Inr(3) [OF a2] by blast
qed

section \<open>The hub's map\<close>

definition entry_ok :: "string \<Rightarrow> (string, noteCollabSession) gomap \<Rightarrow> bool" where
  "entry_ok nid m \<longleftrightarrow> mwf m \<and> m \<noteq> [] \<and>
     (\<forall>(k, s) \<in> set m. ss_noteInternalID s = nid \<and> k = sessionKey (ca_sessionID (ss_app s)) (ss_collabSessionID s))"

definition hub_ok :: "collabHub \<Rightarrow> bool" where
  "hub_ok hub \<longleftrightarrow> mwf hub \<and> (\<forall>(nid, m) \<in> set hub. entry_ok nid m)"

lemma hub_ok_mget: "hub_ok hub \<Longrightarrow> mget hub nid = Some m \<Longrightarrow> entry_ok nid m"
  by (auto simp: hub_ok_def dest: map_of_SomeD)

lemma set_mput: "set (mput k v m) \<subseteq> insert (k, v) (set m)"
  by (induction m) auto

lemma hub_ok_mput: "hub_ok hub \<Longrightarrow> entry_ok nid m \<Longrightarrow> hub_ok (mput nid m hub)"
  using set_mput [of nid m hub] by (fastforce simp: hub_ok_def)

lemma hub_ok_mdel: "hub_ok hub \<Longrightarrow> hub_ok (mdel nid hub)"
  using delete_conv' [of nid hub] by (auto simp: hub_ok_def AList.delete_eq)

lemma entry_ok_filter: "entry_ok nid m \<Longrightarrow> filter P m \<noteq> [] \<Longrightarrow> entry_ok nid (filter P m)"
  by (auto simp: entry_ok_def)

lemma addSession_ok:
  assumes "hub_ok hub" "ss_noteInternalID s = nid" "k = sessionKey (ca_sessionID (ss_app s)) (ss_collabSessionID s)"
  shows "hub_ok (addSession nid k s hub)"
proof -
  have "mwf (sessionsOf hub nid)" "\<forall>(k, s) \<in> set (sessionsOf hub nid). ss_noteInternalID s = nid \<and> k = sessionKey (ca_sessionID (ss_app s)) (ss_collabSessionID s)"
    using hub_ok_mget [OF assms(1), of nid] by (cases "mget hub nid"; force simp: sessionsOf_def entry_ok_def)+
  moreover have "mput k s m \<noteq> []" for m :: "(string, noteCollabSession) gomap" by (cases m) auto
  ultimately have "entry_ok nid (mput k s (sessionsOf hub nid))"
    using assms set_mput [of k s "sessionsOf hub nid"] by (fastforce simp: entry_ok_def)
  then show ?thesis using assms(1) by (simp add: addSession_def hub_ok_mput)
qed

lemma dropSessions_ok: "hub_ok hub \<Longrightarrow> hub_ok (dropSessions nid gone hub)"
  by (auto simp: dropSessions_def Let_def hub_ok_mdel hub_ok_mput entry_ok_filter hub_ok_mget split: option.split)

lemma dropEverywhere_ok: "hub_ok hub \<Longrightarrow> hub_ok (dropEverywhere gone hub)"
proof -
  assume ok: "hub_ok hub"
  have "map fst (map (\<lambda>(nid, m). (nid, filter (\<lambda>(k, s). \<not> gone s) m)) hub) = map fst hub" by (induction hub) auto
  then have "mwf (map (\<lambda>(nid, m). (nid, filter (\<lambda>(k, s). \<not> gone s) m)) hub)" using ok by (metis hub_ok_def mwf_def)
  then show ?thesis using ok by (auto simp: hub_ok_def dropEverywhere_def entry_ok_filter split: prod.splits)
qed

inductive hub_step :: "collabHub \<Rightarrow> collabHub \<Rightarrow> bool" where
  hub_join: "hub_step hub (snd (snd (join E now db scope h key cs app hub)))"
| hub_leave: "hub_step hub (snd (snd (leave db scope h key cs app hub)))"
| hub_revoke_user: "hub_step hub (snd (revokeUser h u reason hub))"
| hub_revoke_note_user: "hub_step hub (snd (revokeNoteUser nid u reason hub))"
| hub_remove_app: "hub_step hub (snd (removeApp app hub))"

lemma join_ok: "hub_ok hub \<Longrightarrow> hub_ok (snd (snd (join E now db scope h key cs app hub)))"
  by (auto simp: join_def Let_def addSession_ok split: sum.split)

lemma leave_ok: "hub_ok hub \<Longrightarrow> hub_ok (snd (snd (leave db scope h key cs app hub)))"
  by (auto simp: leave_def Let_def dropSessions_ok split: sum.split)

definition emptyHub :: "collabHub \<Rightarrow> bool" where "emptyHub hub \<longleftrightarrow> hub = []"

interpretation collab_hub: invariant_system emptyHub hub_step hub_ok
proof
  show "emptyHub hub \<Longrightarrow> hub_ok hub" for hub by (simp add: emptyHub_def hub_ok_def)
  show "hub_ok hub'" if "hub_ok hub" "hub_step hub hub'" for hub hub'
    using that(2,1) by (cases rule: hub_step.cases)
      (auto simp: join_ok leave_ok revokeUser_def revokeNoteUser_def removeApp_def Let_def dropSessions_ok dropEverywhere_ok)
qed

lemma set_allSessions: "s \<in> set (allSessions hub) \<longleftrightarrow> (\<exists>(nid, m) \<in> set hub. \<exists>k. (k, s) \<in> set m)"
  by (force simp: allSessions_def)

lemma allSessions_sessionsOf: "hub_ok hub \<Longrightarrow> s \<in> set (allSessions hub) \<and> ss_noteInternalID s = nid \<longleftrightarrow> s \<in> snd ` set (sessionsOf hub nid)"
proof
  assume ok: "hub_ok hub"
  show "s \<in> set (allSessions hub) \<and> ss_noteInternalID s = nid \<Longrightarrow> s \<in> snd ` set (sessionsOf hub nid)"
  proof -
    assume "s \<in> set (allSessions hub) \<and> ss_noteInternalID s = nid"
    then obtain n m k where m: "(n, m) \<in> set hub" "(k, s) \<in> set m" "ss_noteInternalID s = nid" by (auto simp: set_allSessions)
    then have "n = nid" using ok by (fastforce simp: hub_ok_def entry_ok_def)
    then have "mget hub nid = Some m" using m ok by (simp add: hub_ok_def mwf_def)
    then show ?thesis using m by (force simp: sessionsOf_def)
  qed
  assume "s \<in> snd ` set (sessionsOf hub nid)"
  then obtain m k where "mget hub nid = Some m" "(k, s) \<in> set m" by (cases "mget hub nid") (auto simp: sessionsOf_def)
  then show "s \<in> set (allSessions hub) \<and> ss_noteInternalID s = nid"
    using hub_ok_mget [OF ok, of nid m] map_of_SomeD [of hub nid m] by (auto simp: set_allSessions entry_ok_def)
qed

lemma dropEverywhere_sessions: "set (allSessions (dropEverywhere gone hub)) = {s \<in> set (allSessions hub). \<not> gone s}"
  by (force simp: set_allSessions dropEverywhere_def filter_empty_conv)

lemma sessionsOf_dropSessions:
  "sessionsOf (dropSessions nid gone hub) nid' = (if nid' = nid then filter (\<lambda>(k, s). \<not> gone k s) (sessionsOf hub nid) else sessionsOf hub nid')"
  by (auto simp: dropSessions_def sessionsOf_def Let_def split: option.split)

lemma dropSessions_all:
  assumes "hub_ok hub"
  shows "set (allSessions (dropSessions nid (\<lambda>k s. gone s) hub)) = {s \<in> set (allSessions hub). \<not> (ss_noteInternalID s = nid \<and> gone s)}"
proof -
  have ok: "hub_ok (dropSessions nid (\<lambda>k s. gone s) hub)" using assms by (rule dropSessions_ok)
  have "s \<in> set (allSessions (dropSessions nid (\<lambda>k s. gone s) hub)) \<longleftrightarrow> s \<in> set (allSessions hub) \<and> \<not> (ss_noteInternalID s = nid \<and> gone s)" for s
    using allSessions_sessionsOf [OF ok, of s "ss_noteInternalID s"] allSessions_sessionsOf [OF assms, of s "ss_noteInternalID s"]
    by (force simp: sessionsOf_dropSessions split: if_splits)
  then show ?thesis by blast
qed

text \<open>The hub's map on every reachable state. Each note's entry is non-empty and holds, under their own keys, sessions that joined that note;
  disconnecting an app, removing a user from a home and revoking a share delete exactly the sessions they are meant to delete, and the two revocations tell exactly
  the apps whose sessions they delete.\<close>

theorem collab_hub_safe:
  assumes "reachable emptyHub hub_step hub"
  shows "hub_ok hub
    \<and> set (allSessions (snd (removeApp app hub))) = {s \<in> set (allSessions hub). ca_sessionID (ss_app s) \<noteq> app}
    \<and> set (allSessions (snd (revokeUser h u reason hub))) = {s \<in> set (allSessions hub). \<not> (ss_homeID s = h \<and> ca_userID (ss_app s) = u)}
    \<and> ev_peer ` set (fst (revokeUser h u reason hub)) = ss_app ` {s \<in> set (allSessions hub). ss_homeID s = h \<and> ca_userID (ss_app s) = u}
    \<and> set (allSessions (snd (revokeNoteUser nid u reason hub))) = {s \<in> set (allSessions hub). \<not> (ss_noteInternalID s = nid \<and> ca_userID (ss_app s) = u)}
    \<and> ev_peer ` set (fst (revokeNoteUser nid u reason hub)) = ss_app ` {s \<in> set (allSessions hub). ss_noteInternalID s = nid \<and> ca_userID (ss_app s) = u}"
proof -
  have ok: "hub_ok hub" using assms by (rule collab_hub.reachable_inv)
  have "{s \<in> set (allSessions hub). ss_noteInternalID s = nid \<and> ca_userID (ss_app s) = u} = {s \<in> snd ` set (sessionsOf hub nid). ca_userID (ss_app s) = u}"
    using allSessions_sessionsOf [OF ok, of _ nid] by blast
  moreover have "ev_peer ` set (map (revokedEvent reason) ss) = ss_app ` set ss" for ss by (auto simp: revokedEvent_def image_comp)
  ultimately show ?thesis using ok
    by (simp add: removeApp_def revokeUser_def revokeNoteUser_def Let_def dropEverywhere_sessions dropSessions_all del: set_map) (simp add: Collect_conj_eq)
qed

theorem collab_hub_safe_witness:
  "\<exists>hub. reachable emptyHub hub_step hub \<and> allSessions hub \<noteq> [] \<and> allSessions (snd (removeApp ''a1'' hub)) = []"
proof -
  let ?hub = "snd (snd (join sampleNoteEnv 7 sampleStored ''profile'' [] ''plan.md'' ''s1'' (sampleApp ''a1'') []))"
  have r: "reachable emptyHub hub_step ?hub" by (rule reach_step [OF reach_init]) (simp add: emptyHub_def, rule hub_join)
  have "ifActive (resolveNote sampleStored (normalizeCollabScope ''profile'') [] ''u1'' ''plan.md'') = Inr sampleNote"
    by (simp add: resolveNote_def normalizeCollabScope_def GetProfileNote_def noteRow_def sampleStored_def ifActive_def active_def
      sampleNote_fields literal_simps)
  then have "\<exists>s k. ?hub = addSession ''n1'' k s [] \<and> ca_sessionID (ss_app s) = ''a1''"
    by (auto simp: join_def Let_def sampleNote_fields sampleApp_def split: sum.split)
  then have s: "allSessions ?hub \<noteq> [] \<and> (\<forall>s \<in> set (allSessions ?hub). ca_sessionID (ss_app s) = ''a1'')"
    by (auto simp: addSession_def sessionsOf_def allSessions_def)
  obtain hub where hub: "reachable emptyHub hub_step hub" "allSessions hub \<noteq> []" "\<forall>s \<in> set (allSessions hub). ca_sessionID (ss_app s) = ''a1''"
    using r s by (elim conjE) (rule that)
  have "set (allSessions (snd (removeApp ''a1'' hub))) = {}"
    using collab_hub_safe [OF hub(1), of "''a1''", THEN conjunct2, THEN conjunct1] hub(3) by simp
  then show ?thesis using hub(1,2) by (intro exI [of _ hub]) simp
qed

section \<open>Revoking a share\<close>

text \<open>C16: revoking a share shuts the user out of the note. The owner's revocation removes the share from the database and then the user's sessions from the hub;
  afterwards no session of that user is on the note, and whatever scope, home and key the user names, the hub resolves it to another note
  or to none, so that joining again, synchronising and submitting operations never reach it.\<close>

theorem revoked_share_shuts_out:
  assumes ok: "tables_ok db" and hub: "reachable emptyHub hub_step hub"
    and revoke: "RevokeShare h noteID owner target db = Inr ((n, lastShare), db')" and other: "target \<noteq> owner"
  shows "(\<forall>s \<in> set (allSessions (snd (revokeNoteUser (un_ID n) target reason hub))). ss_noteInternalID s = un_ID n \<longrightarrow> ca_userID (ss_app s) \<noteq> target)
    \<and> (\<forall>scope h' key n'. resolveNote db' scope h' target key = Inr n' \<longrightarrow> un_ID n' \<noteq> un_ID n)
    \<and> (\<forall>E now req app hub' ack evs db'' n'. ca_userID app = target \<longrightarrow> submitOps E now h req app hub' db' = Inr (ack, evs, db'')
        \<longrightarrow> n' \<in> set (nd_notes db') \<longrightarrow> un_ID n' = un_ID n \<longrightarrow> n' \<in> set (nd_notes db''))"
proof -
  have hok: "hub_ok hub" using hub by (rule collab_hub.reachable_inv)
  obtain f: "findSharableNote db h owner noteID = Inr n" and rm: "RemoveNoteShare (un_ID n) target db = Inr db'"
    using revoke by (auto simp: RevokeShare_def bindR_Inr_iff)
  have n: "n \<in> set (nd_notes db)" "un_OwnerUserID n = owner" using findSharableNote_Inr [OF f] by blast+
  have db': "nd_notes db' = nd_notes db" "\<not> sharedWith db' (un_ID n) target"
    using rm by (auto simp: RemoveNoteShare_def sharedWith_def sharePK_def list_ex_iff split: if_splits)
  have ok': "tables_ok db'" using ok rm by (rule RemoveNoteShare_ok)
  then have keys: "keys_ok (nd_notes db')" by (simp add: tables_ok_def)
  have uniq: "k = n" if "k \<in> set (nd_notes db')" "un_ID k = un_ID n" for k
    using that keys n(1) db'(1) by (auto simp: keys_ok_def distinct_map inj_on_def)
  have res: "un_ID n' \<noteq> un_ID n" if "resolveNote db' scope h' target key = Inr n'" for scope h' key n'
    using resolve_mayEdit [OF that] uniq db'(2) n(2) other by (auto simp: mayEdit_def)
  have "n' \<in> set (nd_notes db'')"
    if run: "ca_userID app = target" "submitOps E now h req app hub' db' = Inr (ack, evs, db'')" and n': "n' \<in> set (nd_notes db')" "un_ID n' = un_ID n"
    for E now req app hub' ack evs db'' n'
    using run(2)
  proof (cases rule: submitOps_cases)
    case none
    then show ?thesis using n' by simp
  next
    case (some m0 m applied)
    obtain r st where w: "r = m\<lparr>un_CreatedAt := un_CreatedAt r\<rparr>" "m = fst (materializeNoteFromState E m0 st (ca_userID app) now)"
        "nd_notes db'' = replaceRow r (nd_notes db')" "resolveNote db' (normalizeCollabScope (so_Scope req)) h (ca_userID app) (so_NoteID req) = Inr m0"
      using ok' some(1,2) by (rule submit_row)
    have "un_ID r = un_ID m0" by (subst w(1)) (simp add: w(2) materialize_simps)
    moreover have "un_ID m0 \<noteq> un_ID n" using w(4) res run(1) by simp
    ultimately show ?thesis using n' w(3) set_replaceRow [OF keys] by auto
  qed
  then show ?thesis using res dropSessions_all [OF hok, of "un_ID n" "\<lambda>s. ca_userID (ss_app s) = target"]
    by (auto simp: revokeNoteUser_def)
qed

definition sampleShared :: notesDb where
  "sampleShared = sampleStored\<lparr>nd_notes := [sampleNote\<lparr>un_HomeID := ''h1''\<rparr>],
     nd_shares := [\<lparr>sh_NoteID = ''n1'', sh_HomeID = ''h1'', sh_TargetUserID = ''u2'', sh_SharedBy = ''u1'', sh_CreatedAt = 6, sh_UpdatedAt = 6\<rparr>]\<rparr>"

theorem revoked_share_shuts_out_witness:
  "\<exists>n db'. GetHomeNoteVisibleToUser sampleShared ''h1'' ''u2'' ''plan.md'' = Inr n \<and> RevokeShare ''h1'' ''plan.md'' ''u1'' ''u2'' sampleShared = Inr ((n, True), db')
    \<and> (\<forall>scope h' key n'. resolveNote db' scope h' ''u2'' key = Inr n' \<longrightarrow> un_ID n' \<noteq> un_ID n)"
proof -
  have "storedNote (sampleNote\<lparr>un_HomeID := ''h1''\<rparr>) = sampleNote\<lparr>un_HomeID := ''h1''\<rparr>"
    by (simp add: sampleNote_simps storedNote_def newNote_def noteBodyText_def noteBodyFormat_def literal_simps)
  then have ok: "tables_ok sampleShared"
    by (simp add: tables_ok_def keys_ok_def tree_ok_def pins_ok_def log_ok_def shares_ok_def sampleShared_def sampleStored_def sampleNotes_def sampleNote_fields sharePK_def)
  have hub: "reachable emptyHub hub_step []" by (rule reach_init) (simp add: emptyHub_def)
  let ?n = "sampleNote\<lparr>un_HomeID := ''h1''\<rparr>"
  have see: "GetHomeNoteVisibleToUser sampleShared ''h1'' ''u2'' ''plan.md'' = Inr ?n"
    by (simp add: GetHomeNoteVisibleToUser_def noteRow_def sampleShared_def sampleNote_fields inHome_def sharedWith_def)
  have run: "RevokeShare ''h1'' ''plan.md'' ''u1'' ''u2'' sampleShared = Inr ((?n, True), sampleShared\<lparr>nd_shares := []\<rparr>)"
    by (simp add: RevokeShare_def findSharableNote_def GetOwnedHomeNote_def GetProfileNote_def noteRow_def sampleShared_def sampleNote_fields inHome_def
      RemoveNoteShare_def sharedWith_def sharePK_def CountNoteShares_def)
  show ?thesis using revoked_share_shuts_out [OF ok hub run, of "[]"] see run by auto
qed

section \<open>Catching up\<close>

text \<open>
  A peer that catches up from the log receives no text for a note that was saved as a whole: reading the logged snapshot as an operation keeps neither its
  title nor its content, so two saves with different contents look the same. The peer is told the current version nevertheless, also when
  the log was cut at the limit.
\<close>

theorem snapshot_text_not_synced:
  "decodeOperation (SnapshotDoc t1 c1 pt1 parent p1 o1 b1) = decodeOperation (SnapshotDoc t2 c2 pt2 parent p2 o2 b2)"
  "sync E db hub scope h key u after lim = Inr (SyncOps e) \<Longrightarrow> \<exists>n. resolveNote db scope h u key = Inr n \<and> oe_AppliedVersion e = un_CollabVersion n
     \<and> oe_Ops e = decodeAppliedOperations (ListNoteOperationsSince db (un_ID n) after lim)"
  by (auto simp: sync_def bindR_Inr_iff Let_def ifActive_def resolveNote_def normalizeCollabScope_def literal_simps split: if_splits)

end
