(* ===== verification/File_Jobs.thy ===== *)
theory File_Jobs
  imports Go_Text
begin

text \<open>
  File operation jobs: the tables \<open>file_operation_jobs\<close> and \<open>file_transfers\<close> with the statements of
  \<open>internal/store/production_state.go\<close> on them, and the job handling of \<open>internal/cloud/file_jobs.go\<close>. The payload an agent sends
  is given by the fields it sets: \<open>json.Unmarshal\<close> into a struct that was filled before overwrites exactly those. Audit
  records, log lines and metrics are left out.
\<close>

section \<open>Rows\<close>

record FileOperationJob =
  fj_ID :: string
  fj_HomeID :: string
  fj_UserID :: string
  fj_Operation :: string
  fj_SourceID :: string
  fj_DestinationSourceID :: string
  fj_FromPath :: string
  fj_ToPath :: string
  fj_IsDirectory :: bool
  fj_Status :: string
  fj_BytesTotal :: int
  fj_BytesDone :: int
  fj_FilesTotal :: int
  fj_FilesDone :: int
  fj_ErrorMessage :: string
  fj_CreatedAt :: time
  fj_UpdatedAt :: time
  fj_CompletedAt :: "time option"

record FileTransferRecord =
  ft_ID :: string
  ft_TokenHash :: string
  ft_JobID :: string
  ft_HomeID :: string
  ft_UserID :: string
  ft_AgentID :: string
  ft_Operation :: string
  ft_SourceID :: string
  ft_Path :: string
  ft_Status :: string
  ft_BytesTotal :: "int option"
  ft_BytesDone :: int
  ft_CreatedAt :: time
  ft_ExpiresAt :: time
  ft_CompletedAt :: "time option"

text \<open>The two tables, with the users and homes their foreign keys refer to.\<close>

record filesDb =
  fd_users :: "string list"
  fd_homes :: "string list"
  fd_jobs :: "FileOperationJob list"
  fd_transfers :: "FileTransferRecord list"

definition errFileConstraint :: error where "errFileConstraint = ErrMsg ''constraint violation''"

definition jobStatuses :: "string list" where
  "jobStatuses = [''queued'', ''running'', ''completed'', ''failed'', ''cancelled'', ''rollback_required'', ''rolled_back'']"

definition jobOperations :: "string list" where
  "jobOperations = [''move'', ''copy'', ''delete'', ''upload'', ''download'']"

definition transferStatuses :: "string list" where
  "transferStatuses = [''pending'', ''active'', ''completed'', ''failed'', ''expired'']"

text \<open>The statuses that end a job: what the monotonic update refuses to overwrite, and what gets a completion time.\<close>

definition settledStatus :: "string \<Rightarrow> bool" where
  "settledStatus s \<longleftrightarrow> s \<in> set [''completed'', ''failed'', ''cancelled'', ''rollback_required'', ''rolled_back'']"

section \<open>Statements\<close>

text \<open>A foreign key that may be null is the empty string; \<open>UserID\<close> is written as text, so it must name a user.\<close>

definition CreateFileOperationJob :: "FileOperationJob \<Rightarrow> filesDb \<Rightarrow> filesDb result" where
  "CreateFileOperationJob j db =
     (let j = (if fj_Status j = [] then j\<lparr>fj_Status := ''queued''\<rparr> else j) in
      if fj_ID j \<in> fj_ID ` set (fd_jobs db) \<or> fj_HomeID j \<notin> set (fd_homes db) \<or> fj_UserID j \<notin> set (fd_users db)
         \<or> fj_Operation j \<notin> set jobOperations \<or> fj_Status j \<notin> set jobStatuses
      then Inl errFileConstraint
      else Inr (db\<lparr>fd_jobs := fd_jobs db @ [j]\<rparr>))"

text \<open>\<open>UPDATE file_operation_jobs SET \<dots> WHERE id = ? AND \<dots>\<close>: the rows that satisfy the condition; a status outside the check fails the statement.\<close>

definition updateJobs :: "(FileOperationJob \<Rightarrow> bool) \<Rightarrow> (FileOperationJob \<Rightarrow> FileOperationJob) \<Rightarrow> filesDb \<Rightarrow> filesDb result" where
  "updateJobs P f db =
     (if list_ex (\<lambda>j. P j \<and> fj_Status (f j) \<notin> set jobStatuses) (fd_jobs db) then Inl errFileConstraint
      else Inr (db\<lparr>fd_jobs := map (\<lambda>j. if P j then f j else j) (fd_jobs db)\<rparr>))"

definition setJob :: "time \<Rightarrow> string \<Rightarrow> int \<Rightarrow> int \<Rightarrow> string \<Rightarrow> time option \<Rightarrow> FileOperationJob \<Rightarrow> FileOperationJob" where
  "setJob now status bytesDone filesDone errorMessage completedAt j =
     j\<lparr>fj_Status := status, fj_BytesDone := bytesDone, fj_FilesDone := filesDone, fj_ErrorMessage := errorMessage, fj_UpdatedAt := now,
       fj_CompletedAt := completedAt\<rparr>"

definition UpdateFileOperationJob ::
    "time \<Rightarrow> string \<Rightarrow> string \<Rightarrow> int \<Rightarrow> int \<Rightarrow> string \<Rightarrow> time option \<Rightarrow> filesDb \<Rightarrow> filesDb result" where
  "UpdateFileOperationJob now jobID status bytesDone filesDone errorMessage completedAt db =
     updateJobs (\<lambda>j. fj_ID j = jobID) (setJob now status bytesDone filesDone errorMessage completedAt) db"

definition UpdateFileOperationJobMonotonic ::
    "time \<Rightarrow> string \<Rightarrow> string \<Rightarrow> int \<Rightarrow> int \<Rightarrow> string \<Rightarrow> time option \<Rightarrow> filesDb \<Rightarrow> (bool \<times> filesDb) result" where
  "UpdateFileOperationJobMonotonic now jobID status bytesDone filesDone errorMessage completedAt db =
     (let P = (\<lambda>j. fj_ID j = jobID \<and> \<not> settledStatus (fj_Status j)) in
      bindR (updateJobs P (setJob now status bytesDone filesDone errorMessage completedAt) db) (\<lambda>db'.
        Inr (list_ex P (fd_jobs db), db')))"

definition UpdateFileOperationJobTotals :: "time \<Rightarrow> string \<Rightarrow> int \<Rightarrow> int \<Rightarrow> filesDb \<Rightarrow> filesDb result" where
  "UpdateFileOperationJobTotals now jobID bytesTotal filesTotal db =
     updateJobs (\<lambda>j. fj_ID j = jobID) (\<lambda>j. j\<lparr>fj_BytesTotal := bytesTotal, fj_FilesTotal := filesTotal, fj_UpdatedAt := now\<rparr>) db"

definition GetFileOperationJob :: "filesDb \<Rightarrow> string \<Rightarrow> FileOperationJob result" where
  "GetFileOperationJob db jobID = (case find (\<lambda>j. fj_ID j = jobID) (fd_jobs db) of None \<Rightarrow> Inl ErrNotFound | Some j \<Rightarrow> Inr j)"

definition ListFileOperationJobs :: "filesDb \<Rightarrow> string \<Rightarrow> int \<Rightarrow> FileOperationJob list" where
  "ListFileOperationJobs db homeID limit =
     (let limit = (if limit \<le> 0 \<or> limit > 100 then 50 else limit) in
      take (nat limit) (sort_key (\<lambda>j. - fj_UpdatedAt j) (sort_key (\<lambda>j. - fj_CreatedAt j) (filter (\<lambda>j. fj_HomeID j = homeID) (fd_jobs db)))))"

definition CountFileOperationJobsByStatus :: "filesDb \<Rightarrow> string \<Rightarrow> (string, nat) gomap" where
  "CountFileOperationJobsByStatus db homeID =
     (let statuses = map fj_Status (filter (\<lambda>j. fj_HomeID j = homeID) (fd_jobs db)) in
      map (\<lambda>s. (s, count_list statuses s)) (remdups statuses))"

definition interruptedMessage :: string where "interruptedMessage = ''cloud runtime restarted while job was active''"

definition MarkInterruptedFileOperationJobs :: "time \<Rightarrow> filesDb \<Rightarrow> filesDb result" where
  "MarkInterruptedFileOperationJobs now db =
     updateJobs (\<lambda>j. fj_Status j \<in> set [''queued'', ''running''])
       (\<lambda>j. j\<lparr>fj_Status := ''rollback_required'',
              fj_ErrorMessage := (if fj_ErrorMessage j = [] then interruptedMessage else fj_ErrorMessage j), fj_UpdatedAt := now\<rparr>) db"

definition CreateFileTransfer :: "FileTransferRecord \<Rightarrow> filesDb \<Rightarrow> filesDb result" where
  "CreateFileTransfer t db =
     (let t = (if ft_Status t = [] then t\<lparr>ft_Status := ''pending''\<rparr> else t) in
      if ft_ID t \<in> ft_ID ` set (fd_transfers db) \<or> ft_TokenHash t \<in> ft_TokenHash ` set (fd_transfers db)
         \<or> ft_HomeID t \<notin> set (fd_homes db) \<or> ft_UserID t \<notin> set (fd_users db)
         \<or> ft_Operation t \<notin> set [''download'', ''upload''] \<or> ft_Status t \<notin> set transferStatuses
      then Inl errFileConstraint
      else Inr (db\<lparr>fd_transfers := fd_transfers db @ [t]\<rparr>))"

definition GetFileTransfer :: "filesDb \<Rightarrow> string \<Rightarrow> FileTransferRecord result" where
  "GetFileTransfer db i = (case find (\<lambda>t. ft_ID t = i) (fd_transfers db) of None \<Rightarrow> Inl ErrNotFound | Some t \<Rightarrow> Inr t)"

definition UpdateFileTransferProgress :: "string \<Rightarrow> string \<Rightarrow> int option \<Rightarrow> int \<Rightarrow> time option \<Rightarrow> filesDb \<Rightarrow> filesDb result" where
  "UpdateFileTransferProgress i status bytesTotal bytesDone completedAt db =
     (if status \<notin> set transferStatuses \<and> i \<in> ft_ID ` set (fd_transfers db) then Inl errFileConstraint
      else Inr (db\<lparr>fd_transfers := map (\<lambda>t. if ft_ID t = i
        then t\<lparr>ft_Status := status, ft_BytesTotal := bytesTotal, ft_BytesDone := bytesDone, ft_CompletedAt := completedAt\<rparr> else t) (fd_transfers db)\<rparr>))"

section \<open>Jobs in the server\<close>

record FilesMoveRequest =
  mr_SourceID :: string
  mr_DestinationSourceID :: string
  mr_JobID :: string
  mr_From :: string
  mr_To :: string
  mr_IsDirectory :: bool

record FileOperationJobResponse =
  fr_JobID :: string
  fr_Status :: string
  fr_BytesTotal :: int
  fr_BytesDone :: int
  fr_FilesTotal :: int
  fr_FilesDone :: int

text \<open>The fields that a payload sets.\<close>

record jobFields =
  jf_JobID :: "string option"
  jf_Status :: "string option"
  jf_BytesTotal :: "int option"
  jf_BytesDone :: "int option"
  jf_FilesTotal :: "int option"
  jf_FilesDone :: "int option"

definition orElse :: "'a option \<Rightarrow> 'a \<Rightarrow> 'a" where
  "orElse a b = (case a of None \<Rightarrow> b | Some x \<Rightarrow> x)"

lemma orElse_simps [simp]: "orElse None b = b" "orElse (Some x) b = x"
  by (simp_all add: orElse_def)

definition unmarshalResponse :: "jobFields \<Rightarrow> FileOperationJobResponse \<Rightarrow> FileOperationJobResponse" where
  "unmarshalResponse p r =
     \<lparr>fr_JobID = orElse (jf_JobID p) (fr_JobID r), fr_Status = orElse (jf_Status p) (fr_Status r),
      fr_BytesTotal = orElse (jf_BytesTotal p) (fr_BytesTotal r), fr_BytesDone = orElse (jf_BytesDone p) (fr_BytesDone r),
      fr_FilesTotal = orElse (jf_FilesTotal p) (fr_FilesTotal r), fr_FilesDone = orElse (jf_FilesDone p) (fr_FilesDone r)\<rparr>"

record FileOperationJobEvent =
  fe_JobID :: string
  fe_Status :: string
  fe_BytesTotal :: int
  fe_BytesDone :: int
  fe_FilesTotal :: int
  fe_FilesDone :: int
  fe_ErrorMessage :: string

text \<open>An event \<open>files.job_changed\<close>: the home it is published for and the job it carries.\<close>

type_synonym jobChanged = "string \<times> FileOperationJob"

text \<open>A statement whose error is only logged.\<close>

definition tryUpdate :: "filesDb result \<Rightarrow> filesDb \<Rightarrow> filesDb" where
  "tryUpdate r db = (case r of Inl e \<Rightarrow> db | Inr db' \<Rightarrow> db')"

definition completionTime :: "time \<Rightarrow> string \<Rightarrow> time option" where
  "completionTime now status = (if settledStatus status then Some now else None)"

definition broadcastFileJobChanged :: "filesDb \<Rightarrow> string \<Rightarrow> string \<Rightarrow> jobChanged list" where
  "broadcastFileJobChanged db homeID jobID = (case GetFileOperationJob db jobID of Inl e \<Rightarrow> [] | Inr j \<Rightarrow> [(homeID, j)])"

definition prepareManagedFileCommand ::
    "string \<Rightarrow> time \<Rightarrow> string \<Rightarrow> string \<Rightarrow> string \<Rightarrow> FilesMoveRequest result \<Rightarrow> filesDb \<Rightarrow> (FilesMoveRequest option \<times> string \<times> filesDb) result" where
  "prepareManagedFileCommand newID now homeID userID command body db =
     (if command \<noteq> ''files.move'' then Inr (None, [], db)
      else bindR body (\<lambda>request.
        let request = (if blank (mr_DestinationSourceID request) then request\<lparr>mr_DestinationSourceID := mr_SourceID request\<rparr> else request);
            request = request\<lparr>mr_JobID := newID\<rparr>;
            job = \<lparr>fj_ID = newID, fj_HomeID = homeID, fj_UserID = userID, fj_Operation = ''move'',
              fj_SourceID = trimSpace (mr_SourceID request), fj_DestinationSourceID = trimSpace (mr_DestinationSourceID request),
              fj_FromPath = trimSpace (mr_From request), fj_ToPath = trimSpace (mr_To request), fj_IsDirectory = mr_IsDirectory request,
              fj_Status = ''queued'', fj_BytesTotal = 0, fj_BytesDone = 0, fj_FilesTotal = 1, fj_FilesDone = 0, fj_ErrorMessage = [],
              fj_CreatedAt = now, fj_UpdatedAt = now, fj_CompletedAt = None\<rparr>
        in bindR (CreateFileOperationJob job db) (\<lambda>db'. Inr (Some request, newID, db'))))"

definition markFileJobRunning :: "time \<Rightarrow> string \<Rightarrow> filesDb \<Rightarrow> filesDb" where
  "markFileJobRunning now jobID db =
     (if jobID = [] then db else tryUpdate (UpdateFileOperationJob now jobID ''running'' 0 0 [] None db) db)"

definition failFileJob :: "time \<Rightarrow> string \<Rightarrow> string \<Rightarrow> string \<Rightarrow> filesDb \<Rightarrow> filesDb" where
  "failFileJob now jobID status message db =
     (if jobID = [] then db
      else let status = (if status = [] then ''failed'' else status) in
        tryUpdate (UpdateFileOperationJob now jobID status 0 0 message (Some now) db) db)"

definition updateTotals :: "time \<Rightarrow> string \<Rightarrow> int \<Rightarrow> int \<Rightarrow> filesDb \<Rightarrow> filesDb" where
  "updateTotals now jobID bytesTotal filesTotal db =
     (if bytesTotal > 0 \<or> filesTotal > 0 then tryUpdate (UpdateFileOperationJobTotals now jobID bytesTotal filesTotal db) db else db)"

definition isCancelled :: "filesDb \<Rightarrow> string \<Rightarrow> bool" where
  "isCancelled db jobID \<longleftrightarrow> (case GetFileOperationJob db jobID of Inl e \<Rightarrow> False | Inr j \<Rightarrow> fj_Status j = ''cancelled'')"

text \<open>\<open>pendingJobID\<close> and \<open>homeID\<close> are those of the pending request; \<open>err\<close> is the message of the envelope's error.\<close>

definition completePendingFileJob ::
    "time \<Rightarrow> string \<Rightarrow> string \<Rightarrow> string option \<Rightarrow> jobFields \<Rightarrow> filesDb \<Rightarrow> jobChanged list \<times> filesDb" where
  "completePendingFileJob now homeID jobID err payload db =
     (if jobID = [] \<or> isCancelled db jobID then ([], db)
      else case err of
        Some msg \<Rightarrow> ([], tryUpdate (UpdateFileOperationJob now jobID ''failed'' 0 0 msg (Some now) db) db)
      | None \<Rightarrow>
        let r = unmarshalResponse payload
              \<lparr>fr_JobID = jobID, fr_Status = ''completed'', fr_BytesTotal = 0, fr_BytesDone = 0, fr_FilesTotal = 0, fr_FilesDone = 1\<rparr>;
            r = (if fr_Status r = [] then r\<lparr>fr_Status := ''completed''\<rparr> else r);
            r = (if fr_JobID r = [] then r\<lparr>fr_JobID := jobID\<rparr> else r);
            db1 = tryUpdate (UpdateFileOperationJob now (fr_JobID r) (fr_Status r) (fr_BytesDone r) (fr_FilesDone r) []
                   (completionTime now (fr_Status r)) db) db;
            db2 = updateTotals now (fr_JobID r) (fr_BytesTotal r) (fr_FilesTotal r) db1
        in (broadcastFileJobChanged db2 homeID (fr_JobID r), db2))"

text \<open>\<open>body\<close> is \<open>None\<close> when the payload does not decode.\<close>

definition handleFileMoveJobEvent ::
    "time \<Rightarrow> string \<Rightarrow> string \<Rightarrow> FileOperationJobEvent option \<Rightarrow> filesDb \<Rightarrow> jobChanged list \<times> filesDb" where
  "handleFileMoveJobEvent now homeID event body db =
     (case body of
        None \<Rightarrow> ([], db)
      | Some p \<Rightarrow>
        if blank (fe_JobID p) then ([], db)
        else case GetFileOperationJob db (fe_JobID p) of
          Inl e \<Rightarrow> ([], db)
        | Inr job \<Rightarrow>
          if fj_HomeID job \<noteq> homeID then ([], db)
          else if fj_Status job = ''cancelled'' \<and> event \<noteq> ''files.move_failed'' then ([], db)
          else let status = (if blank (fe_Status p) then ''running'' else trimSpace (fe_Status p)) in
            case UpdateFileOperationJob now (fe_JobID p) status (fe_BytesDone p) (fe_FilesDone p) (fe_ErrorMessage p) (completionTime now status) db of
              Inl e \<Rightarrow> ([], db)
            | Inr db1 \<Rightarrow>
              let db2 = updateTotals now (fe_JobID p) (fe_BytesTotal p) (fe_FilesTotal p) db1 in
              (broadcastFileJobChanged db2 homeID (fe_JobID p), db2))"

definition errRetry :: error where "errRetry = ErrMsg ''only move jobs can be retried''"
definition errRollback :: error where "errRollback = ErrMsg ''only move jobs can be rolled back''"

text \<open>
  What comes back for a command: the error of sending it, or the answer, with its error or the fields of its payload.
  \<open>during\<close> is what other requests do to the tables while the server waits for the agent.
\<close>

type_synonym agentAnswer = "string + string option \<times> jobFields"

definition finishRetry :: "time \<Rightarrow> FileOperationJob \<Rightarrow> agentAnswer \<Rightarrow> filesDb \<Rightarrow> FileOperationJob result \<times> filesDb" where
  "finishRetry now job answer db =
     (let failed = (\<lambda>msg. let db' = tryUpdate (UpdateFileOperationJob now (fj_ID job) ''failed'' (fj_BytesDone job) (fj_FilesDone job) msg (Some now) db) db
                          in (GetFileOperationJob db' (fj_ID job), db'))
      in case answer of
        Inl msg \<Rightarrow> failed msg
      | Inr (Some msg, payload) \<Rightarrow> failed msg
      | Inr (None, payload) \<Rightarrow>
        let r = unmarshalResponse payload
              \<lparr>fr_JobID = fj_ID job, fr_Status = ''completed'', fr_BytesTotal = 0, fr_BytesDone = 0, fr_FilesTotal = 0, fr_FilesDone = 1\<rparr>;
            status = (if fr_Status r = [] then ''completed'' else fr_Status r)
        in case UpdateFileOperationJobMonotonic now (fj_ID job) status (fr_BytesDone r) (fr_FilesDone r) [] (completionTime now status) db of
             Inl e \<Rightarrow> (Inl e, db)
           | Inr (changed, db') \<Rightarrow> (GetFileOperationJob db' (fj_ID job), db'))"

text \<open>The part of a retry before the command is sent: the answer when there is nothing to retry, or the job.\<close>

definition beginRetry :: "time \<Rightarrow> string \<Rightarrow> string \<Rightarrow> filesDb \<Rightarrow> FileOperationJob result + FileOperationJob \<times> filesDb" where
  "beginRetry now homeID jobID db =
     (case GetFileOperationJob db jobID of
        Inl e \<Rightarrow> Inl (Inl e)
      | Inr job \<Rightarrow>
        if fj_HomeID job \<noteq> homeID then Inl (Inr job)
        else if fj_Operation job \<noteq> ''move'' then Inl (Inl errRetry)
        else if fj_Status job \<noteq> ''failed'' \<and> fj_Status job \<noteq> ''cancelled'' then Inl (Inr job)
        else case UpdateFileOperationJob now (fj_ID job) ''running'' (fj_BytesDone job) (fj_FilesDone job) [] None db of
          Inl e \<Rightarrow> Inl (Inl e)
        | Inr db1 \<Rightarrow> Inr (job, db1))"

definition moveRequest :: "FileOperationJob \<Rightarrow> FilesMoveRequest" where
  "moveRequest job =
     \<lparr>mr_SourceID = fj_SourceID job, mr_DestinationSourceID = fj_DestinationSourceID job, mr_JobID = fj_ID job,
      mr_From = fj_FromPath job, mr_To = fj_ToPath job, mr_IsDirectory = fj_IsDirectory job\<rparr>"

definition retryFileOperationJob ::
    "time \<Rightarrow> string \<Rightarrow> string \<Rightarrow> (FilesMoveRequest \<Rightarrow> agentAnswer) \<Rightarrow> (filesDb \<Rightarrow> filesDb) \<Rightarrow> filesDb \<Rightarrow> FileOperationJob result \<times> filesDb" where
  "retryFileOperationJob now homeID jobID send during db =
     (case beginRetry now homeID jobID db of
        Inl r \<Rightarrow> (r, db)
      | Inr (job, db1) \<Rightarrow> finishRetry now job (send (moveRequest job)) (during db1))"

definition beginRollback :: "string \<Rightarrow> string \<Rightarrow> filesDb \<Rightarrow> FileOperationJob result + FileOperationJob" where
  "beginRollback homeID jobID db =
     (case GetFileOperationJob db jobID of
        Inl e \<Rightarrow> Inl (Inl e)
      | Inr job \<Rightarrow>
        if fj_HomeID job \<noteq> homeID then Inl (Inr job)
        else if fj_Operation job \<noteq> ''move'' then Inl (Inl errRollback)
        else if fj_Status job \<noteq> ''rollback_required'' then Inl (Inr job)
        else Inr job)"

definition finishRollback :: "time \<Rightarrow> string \<Rightarrow> FileOperationJob \<Rightarrow> agentAnswer \<Rightarrow> filesDb \<Rightarrow> FileOperationJob result \<times> jobChanged list \<times> filesDb" where
  "finishRollback now homeID job answer db =
     (case answer of
        Inl msg \<Rightarrow> (Inl (ErrMsg msg), [], db)
      | Inr (Some msg, payload) \<Rightarrow> (Inl (ErrMsg msg), [], db)
      | Inr (None, payload) \<Rightarrow>
        let r = unmarshalResponse payload
              \<lparr>fr_JobID = fj_ID job, fr_Status = ''rolled_back'', fr_BytesTotal = 0, fr_BytesDone = 0, fr_FilesTotal = 0, fr_FilesDone = 0\<rparr>;
            status = (if fr_Status r = [] then ''rolled_back'' else fr_Status r)
        in case UpdateFileOperationJob now (fj_ID job) status (fj_BytesDone job) (fj_FilesDone job) [] (Some now) db of
             Inl e \<Rightarrow> (Inl e, [], db)
           | Inr db' \<Rightarrow> (GetFileOperationJob db' (fj_ID job), broadcastFileJobChanged db' homeID (fj_ID job), db'))"

definition rollbackFileOperationJob ::
    "time \<Rightarrow> string \<Rightarrow> string \<Rightarrow> agentAnswer \<Rightarrow> (filesDb \<Rightarrow> filesDb) \<Rightarrow> filesDb \<Rightarrow> FileOperationJob result \<times> jobChanged list \<times> filesDb" where
  "rollbackFileOperationJob now homeID jobID answer during db =
     (case beginRollback homeID jobID db of
        Inl r \<Rightarrow> (r, [], db)
      | Inr job \<Rightarrow> finishRollback now homeID job answer (during db))"

section \<open>The HTTP handler\<close>

datatype featureCheck = Permitted | Denied | CheckFailed

datatype jobsReply = NotHandled | HttpStatus nat | JobsBody "FileOperationJob list" | JobBody FileOperationJob

definition zeroJob :: FileOperationJob where
  "zeroJob = \<lparr>fj_ID = [], fj_HomeID = [], fj_UserID = [], fj_Operation = [], fj_SourceID = [], fj_DestinationSourceID = [], fj_FromPath = [],
     fj_ToPath = [], fj_IsDirectory = False, fj_Status = [], fj_BytesTotal = 0, fj_BytesDone = 0, fj_FilesTotal = 0, fj_FilesDone = 0,
     fj_ErrorMessage = [], fj_CreatedAt = 0, fj_UpdatedAt = 0, fj_CompletedAt = None\<rparr>"

text \<open>The job a request may see: not found when it is missing or of another home.\<close>

definition homeJob :: "string \<Rightarrow> FileOperationJob result \<Rightarrow> jobsReply + FileOperationJob" where
  "homeJob homeID r =
     (case r of
        Inl ErrNotFound \<Rightarrow> Inl (HttpStatus 404)
      | Inl e \<Rightarrow> Inl (HttpStatus 500)
      | Inr job \<Rightarrow> if fj_HomeID job \<noteq> homeID then Inl (HttpStatus 404) else Inr job)"

definition beginCancel :: "time \<Rightarrow> string \<Rightarrow> string \<Rightarrow> filesDb \<Rightarrow> jobsReply + string \<times> filesDb" where
  "beginCancel now homeID jobID db =
     (case homeJob homeID (GetFileOperationJob db jobID) of
        Inl reply \<Rightarrow> Inl reply
      | Inr job \<Rightarrow>
        if fj_Status job \<in> set [''completed'', ''failed'', ''cancelled'', ''rolled_back''] then Inl (JobBody job)
        else case UpdateFileOperationJob now (fj_ID job) ''cancelled'' (fj_BytesDone job) (fj_FilesDone job) ''cancelled by user'' (Some now) db of
          Inl e \<Rightarrow> Inl (HttpStatus 500)
        | Inr db1 \<Rightarrow> Inr (fj_ID job, db1))"

definition cancelFileJob :: "time \<Rightarrow> string \<Rightarrow> string \<Rightarrow> (filesDb \<Rightarrow> filesDb) \<Rightarrow> filesDb \<Rightarrow> jobsReply \<times> filesDb" where
  "cancelFileJob now homeID jobID during db =
     (case beginCancel now homeID jobID db of
        Inl reply \<Rightarrow> (reply, db)
      | Inr (i, db1) \<Rightarrow>
        let db2 = during db1 in
        (JobBody (case GetFileOperationJob db2 i of Inl e \<Rightarrow> zeroJob | Inr job \<Rightarrow> job), db2))"

definition gatewayReply :: "string \<Rightarrow> FileOperationJob result \<Rightarrow> jobsReply" where
  "gatewayReply homeID r =
     (case homeJob homeID r of Inl (HttpStatus c) \<Rightarrow> HttpStatus (if c = 500 then 502 else c) | Inl reply \<Rightarrow> reply | Inr job \<Rightarrow> JobBody job)"

definition handleHomeFileJobs ::
    "time \<Rightarrow> featureCheck \<Rightarrow> string \<Rightarrow> string list \<Rightarrow> string \<Rightarrow> int \<Rightarrow> (FilesMoveRequest \<Rightarrow> agentAnswer) \<Rightarrow> agentAnswer \<Rightarrow> (filesDb \<Rightarrow> filesDb) \<Rightarrow> filesDb
      \<Rightarrow> jobsReply \<times> filesDb" where
  "handleHomeFileJobs now permission homeID parts meth limit send answer during db =
     (case parts of
        [] \<Rightarrow> (NotHandled, db)
      | p # rest \<Rightarrow>
        if p \<noteq> ''file-jobs'' then (NotHandled, db)
        else case permission of
          Denied \<Rightarrow> (HttpStatus 403, db)
        | CheckFailed \<Rightarrow> (HttpStatus 500, db)
        | Permitted \<Rightarrow>
          (case rest of
             [] \<Rightarrow> if meth \<noteq> ''GET'' then (HttpStatus 405, db) else (JobsBody (ListFileOperationJobs db homeID limit), db)
           | i # actions \<Rightarrow>
             let jobID = trimSpace i in
             if jobID = [] then (HttpStatus 404, db)
             else if actions = [] \<and> meth = ''GET''
             then (case homeJob homeID (GetFileOperationJob db jobID) of Inl reply \<Rightarrow> (reply, db) | Inr job \<Rightarrow> (JobBody job, db))
             else if actions = [''cancel''] \<and> meth = ''POST'' then cancelFileJob now homeID jobID during db
             else if actions = [''retry''] \<and> meth = ''POST''
             then (let (r, db') = retryFileOperationJob now homeID jobID send during db in (gatewayReply homeID r, db'))
             else if actions = [''rollback''] \<and> meth = ''POST''
             then (let (r, evs, db') = rollbackFileOperationJob now homeID jobID answer during db in (gatewayReply homeID r, db'))
             else (HttpStatus 405, db)))"

section \<open>What every statement keeps\<close>

text \<open>The part of a job that no operation changes.\<close>

definition jobKey :: "FileOperationJob \<Rightarrow> FileOperationJob" where
  "jobKey j = j\<lparr>fj_Status := [], fj_BytesTotal := 0, fj_BytesDone := 0, fj_FilesTotal := 0, fj_FilesDone := 0, fj_ErrorMessage := [], fj_UpdatedAt := 0,
     fj_CompletedAt := None\<rparr>"

lemma jobKey_setJob [simp]: "jobKey (setJob now st b f e c j) = jobKey j"
  by (simp add: jobKey_def setJob_def)

lemma setJob_simps [simp]:
  "fj_ID (setJob now st b f e c j) = fj_ID j" "fj_Status (setJob now st b f e c j) = st" "fj_HomeID (setJob now st b f e c j) = fj_HomeID j"
  "fj_CompletedAt (setJob now st b f e c j) = c" "fj_Operation (setJob now st b f e c j) = fj_Operation j"
  by (simp_all add: setJob_def)

definition jobs_ok :: "filesDb \<Rightarrow> bool" where
  "jobs_ok db \<longleftrightarrow> distinct (map fj_ID (fd_jobs db)) \<and> (\<forall>j \<in> set (fd_jobs db). fj_Status j \<in> set jobStatuses \<and> fj_Operation j \<in> set jobOperations
     \<and> fj_HomeID j \<in> set (fd_homes db)) \<and> distinct (map ft_ID (fd_transfers db)) \<and> (\<forall>t \<in> set (fd_transfers db). ft_Status t \<in> set transferStatuses)"

text \<open>The shape of a change: jobs are neither lost nor rewritten beyond their progress; new ones come at the end.\<close>

definition jobs_grow :: "filesDb \<Rightarrow> filesDb \<Rightarrow> bool" where
  "jobs_grow db db' \<longleftrightarrow> (\<exists>new. map jobKey (fd_jobs db') = map jobKey (fd_jobs db) @ new) \<and> fd_homes db' = fd_homes db \<and> fd_users db' = fd_users db"

lemma jobs_grow_refl [simp]: "jobs_grow db db"
  by (simp add: jobs_grow_def)

lemma jobs_grow_trans: "jobs_grow a b \<Longrightarrow> jobs_grow b c \<Longrightarrow> jobs_grow a c"
  by (auto simp: jobs_grow_def)

lemma jobKey_ID: "jobKey j = jobKey k \<Longrightarrow> fj_ID j = fj_ID k \<and> fj_HomeID j = fj_HomeID k \<and> fj_Operation j = fj_Operation k"
proof -
  have "fj_ID (jobKey x) = fj_ID x" "fj_HomeID (jobKey x) = fj_HomeID x" "fj_Operation (jobKey x) = fj_Operation x" for x by (simp_all add: jobKey_def)
  then show "jobKey j = jobKey k \<Longrightarrow> fj_ID j = fj_ID k \<and> fj_HomeID j = fj_HomeID k \<and> fj_Operation j = fj_Operation k" by metis
qed

text \<open>What one statement does: the law every operation of the table satisfies.\<close>

definition keeps :: "filesDb \<Rightarrow> filesDb \<Rightarrow> bool" where
  "keeps db db' \<longleftrightarrow> jobs_grow db db' \<and> (jobs_ok db \<longrightarrow> jobs_ok db')"

lemma keeps_refl [simp, intro]: "keeps db db"
  by (simp add: keeps_def)

lemma keeps_trans [trans]: "keeps a b \<Longrightarrow> keeps b c \<Longrightarrow> keeps a c"
  by (auto simp: keeps_def intro: jobs_grow_trans)

lemma updateJobs_Inr:
  assumes "updateJobs P f db = Inr db'"
  shows "db' = db\<lparr>fd_jobs := map (\<lambda>j. if P j then f j else j) (fd_jobs db)\<rparr>"
    and "j \<in> set (fd_jobs db) \<Longrightarrow> P j \<Longrightarrow> fj_Status (f j) \<in> set jobStatuses"
  using assms by (auto simp: updateJobs_def list_ex_iff split: if_splits)

lemma updateJobs_keeps:
  assumes upd: "updateJobs P f db = Inr db'" and f: "\<And>j. jobKey (f j) = jobKey j"
  shows "keeps db db'"
proof -
  note db' = updateJobs_Inr(1) [OF upd]
  have key: "map jobKey (fd_jobs db') = map jobKey (fd_jobs db)" by (simp add: db' f)
  have "jobs_ok db'" if ok: "jobs_ok db"
  proof -
    have "fj_ID (f j) = fj_ID j" for j using jobKey_ID [OF f] by blast
    then have "map fj_ID (fd_jobs db') = map fj_ID (fd_jobs db)" by (simp add: db')
    moreover have "fj_Status j \<in> set jobStatuses \<and> fj_Operation j \<in> set jobOperations \<and> fj_HomeID j \<in> set (fd_homes db)" if j: "j \<in> set (fd_jobs db')" for j
    proof -
      obtain i where i: "i \<in> set (fd_jobs db)" "j = (if P i then f i else i)" using j by (auto simp: db')
      then show ?thesis using ok updateJobs_Inr(2) [OF upd i(1)] jobKey_ID [OF f, of i] by (auto simp: jobs_ok_def)
    qed
    moreover have "fd_homes db' = fd_homes db" "fd_transfers db' = fd_transfers db" by (simp_all add: db')
    ultimately show ?thesis using ok unfolding jobs_ok_def by metis
  qed
  moreover have "fd_homes db' = fd_homes db" "fd_users db' = fd_users db" by (simp_all add: db')
  ultimately show ?thesis using key unfolding keeps_def jobs_grow_def by (metis append_Nil2)
qed

lemma tryUpdate_keeps: "(\<And>db'. r = Inr db' \<Longrightarrow> keeps db db') \<Longrightarrow> keeps db (tryUpdate r db)"
  by (cases r) (auto simp: tryUpdate_def)

lemma update_keeps:
  "UpdateFileOperationJob now i st b f e c db = Inr db' \<Longrightarrow> keeps db db'"
  "UpdateFileOperationJobTotals now i bt ft db = Inr db' \<Longrightarrow> keeps db db'"
  "UpdateFileOperationJobMonotonic now i st b f e c db = Inr (ch, db') \<Longrightarrow> keeps db db'"
  "MarkInterruptedFileOperationJobs now db = Inr db' \<Longrightarrow> keeps db db'"
  by (auto simp: UpdateFileOperationJob_def UpdateFileOperationJobTotals_def UpdateFileOperationJobMonotonic_def
    MarkInterruptedFileOperationJobs_def bindR_Inr_iff Let_def setJob_def jobKey_def intro!: updateJobs_keeps)

lemma create_keeps: "CreateFileOperationJob j db = Inr db' \<Longrightarrow> keeps db db'"
  by (auto simp: CreateFileOperationJob_def keeps_def jobs_grow_def jobs_ok_def Let_def split: if_splits)

lemma transfer_keeps:
  "CreateFileTransfer t db = Inr db' \<Longrightarrow> keeps db db'"
  "UpdateFileTransferProgress i st bt bd c db = Inr db' \<Longrightarrow> keeps db db'"
proof -
  show "CreateFileTransfer t db = Inr db' \<Longrightarrow> keeps db db'"
    by (auto simp: CreateFileTransfer_def keeps_def jobs_grow_def jobs_ok_def Let_def split: if_splits)
  assume upd: "UpdateFileTransferProgress i st bt bd c db = Inr db'"
  let ?f = "\<lambda>t :: FileTransferRecord. if ft_ID t = i then t\<lparr>ft_Status := st, ft_BytesTotal := bt, ft_BytesDone := bd, ft_CompletedAt := c\<rparr> else t"
  have "ft_ID \<circ> ?f = ft_ID" by auto
  then show "keeps db db'" using upd
    by (auto simp: UpdateFileTransferProgress_def keeps_def jobs_grow_def jobs_ok_def split: if_splits)
qed

lemma tryUpdate_jobs_keeps [simp, intro]:
  "keeps db (tryUpdate (UpdateFileOperationJob now i st b f e c db) db)"
  "keeps db (updateTotals now i bt ft db)"
  by (auto simp: updateTotals_def intro!: tryUpdate_keeps intro: update_keeps)

lemma markFileJobRunning_keeps: "keeps db (markFileJobRunning now i db)"
  by (simp add: markFileJobRunning_def)

lemma failFileJob_keeps: "keeps db (failFileJob now i st msg db)"
  by (simp add: failFileJob_def Let_def)

lemma prepare_keeps: "prepareManagedFileCommand k now h u c body db = Inr (r, i, db') \<Longrightarrow> keeps db db'"
  by (auto simp: prepareManagedFileCommand_def bindR_Inr_iff Let_def intro: create_keeps split: if_splits)

lemma complete_keeps: "keeps db (snd (completePendingFileJob now h i err p db))"
  by (auto simp: completePendingFileJob_def Let_def intro: keeps_trans split: option.split)

lemma event_keeps: "keeps db (snd (handleFileMoveJobEvent now h ev body db))"
  by (auto simp: handleFileMoveJobEvent_def Let_def intro: keeps_trans update_keeps split: option.split sum.split)

lemma retry_keeps:
  "beginRetry now h i db = Inr (job, db') \<Longrightarrow> keeps db db'"
  "keeps db (snd (finishRetry now job answer db))"
  by (auto simp: beginRetry_def finishRetry_def Let_def intro: update_keeps split: sum.splits if_splits option.splits prod.splits)

lemma rollback_keeps: "keeps db (snd (snd (finishRollback now h job answer db)))"
  by (auto simp: finishRollback_def Let_def intro: update_keeps split: sum.splits option.splits prod.splits)

lemma cancel_keeps: "beginCancel now h i db = Inr (k, db') \<Longrightarrow> keeps db db'"
  by (auto simp: beginCancel_def intro: update_keeps split: sum.splits if_splits)

section \<open>Runs\<close>

text \<open>
  Requests interleave at the points where the server waits for an agent: a retry, a rollback and a cancellation are two steps each.
\<close>

inductive job_step :: "filesDb \<Rightarrow> filesDb \<Rightarrow> bool" where
  step_prepare: "prepareManagedFileCommand k now h u c body db = Inr (r, i, db') \<Longrightarrow> job_step db db'"
| step_create: "CreateFileOperationJob j db = Inr db' \<Longrightarrow> job_step db db'"
| step_running: "job_step db (markFileJobRunning now i db)"
| step_fail: "job_step db (failFileJob now i st msg db)"
| step_complete: "job_step db (snd (completePendingFileJob now h i err p db))"
| step_event: "job_step db (snd (handleFileMoveJobEvent now h ev body db))"
| step_begin_retry: "beginRetry now h i db = Inr (job, db') \<Longrightarrow> job_step db db'"
| step_finish_retry: "job_step db (snd (finishRetry now job answer db))"
| step_finish_rollback: "job_step db (snd (snd (finishRollback now h job answer db)))"
| step_begin_cancel: "beginCancel now h i db = Inr (k, db') \<Longrightarrow> job_step db db'"
| step_interrupted: "MarkInterruptedFileOperationJobs now db = Inr db' \<Longrightarrow> job_step db db'"
| step_update: "UpdateFileOperationJob now i st b f e c db = Inr db' \<Longrightarrow> job_step db db'"
| step_new_transfer: "CreateFileTransfer t db = Inr db' \<Longrightarrow> job_step db db'"
| step_transfer: "UpdateFileTransferProgress i st bt bd c db = Inr db' \<Longrightarrow> job_step db db'"

lemma job_step_keeps: "job_step db db' \<Longrightarrow> keeps db db'"
  by (induction rule: job_step.induct)
    (auto intro: prepare_keeps create_keeps markFileJobRunning_keeps failFileJob_keeps complete_keeps event_keeps retry_keeps rollback_keeps
      cancel_keeps update_keeps transfer_keeps)

definition no_jobs :: "filesDb \<Rightarrow> bool" where
  "no_jobs db \<longleftrightarrow> fd_jobs db = [] \<and> fd_transfers db = []"

interpretation file_jobs: invariant_system no_jobs job_step jobs_ok
proof
  show "no_jobs db \<Longrightarrow> jobs_ok db" for db by (simp add: no_jobs_def jobs_ok_def)
  show "jobs_ok db \<Longrightarrow> job_step db db' \<Longrightarrow> jobs_ok db'" for db db' using job_step_keeps [of db db'] by (simp add: keeps_def)
qed

lemma job_steps_grow: "job_step\<^sup>*\<^sup>* db db' \<Longrightarrow> jobs_grow db db'"
  by (induction rule: rtranclp_induct) (simp, metis job_step_keeps keeps_def jobs_grow_trans)

text \<open>C36: the table of file jobs under every interleaving of requests, agent events, timeouts, transfers and restarts. Ids are unique, statuses and operations
  are those of the schema, and from any reachable state on no job is lost and none changes its home, user, operation, sources or
  paths: what a retry or a rollback sends to an agent is what was asked for when the job was created.\<close>

theorem file_jobs_safe:
  assumes "reachable no_jobs job_step db" and "job_step\<^sup>*\<^sup>* db db'" and "GetFileOperationJob db i = Inr j"
  shows "jobs_ok db' \<and> (\<exists>j'. GetFileOperationJob db' i = Inr j' \<and> jobKey j' = jobKey j \<and> moveRequest j' = moveRequest j)"
proof -
  have ok: "jobs_ok db" using assms(1) by (rule file_jobs.reachable_inv)
  have "reachable no_jobs job_step db'" using assms(2,1) by (induction rule: rtranclp_induct) (auto intro: reach_step)
  then have ok': "jobs_ok db'" by (rule file_jobs.reachable_inv)
  have j: "j \<in> set (fd_jobs db)" "fj_ID j = i" using assms(3) by (auto simp: GetFileOperationJob_def find_Some_iff split: option.splits)
  obtain new where "map jobKey (fd_jobs db') = map jobKey (fd_jobs db) @ new" using job_steps_grow [OF assms(2)] by (auto simp: jobs_grow_def)
  then have "jobKey j \<in> set (map jobKey (fd_jobs db'))" using j(1) by auto
  then obtain j' where j': "j' \<in> set (fd_jobs db')" "jobKey j' = jobKey j" by auto
  have id: "fj_ID j' = i" using jobKey_ID [OF j'(2)] j(2) by simp
  have "find (\<lambda>k. fj_ID k = i) (fd_jobs db') = Some j'"
  proof (cases "find (\<lambda>k. fj_ID k = i) (fd_jobs db')")
    case None
    then show ?thesis using j'(1) id by (auto simp: find_None_iff)
  next
    case (Some k)
    then have "k \<in> set (fd_jobs db')" "fj_ID k = i" by (auto simp: find_Some_iff)
    then have "k = j'" using ok' j'(1) id by (auto simp: jobs_ok_def distinct_map inj_on_def)
    then show ?thesis using Some by simp
  qed
  moreover have "moveRequest (jobKey x) = moveRequest x" for x by (simp add: moveRequest_def jobKey_def)
  then have "moveRequest j' = moveRequest j" using j'(2) by metis
  ultimately show ?thesis using ok' j'(2) by (simp add: GetFileOperationJob_def)
qed

section \<open>Events of an agent\<close>

lemma update_jobs:
  "UpdateFileOperationJob now i st b f e c db = Inr db' \<Longrightarrow> fd_jobs db' = map (\<lambda>j. if fj_ID j = i then setJob now st b f e c j else j) (fd_jobs db)"
  unfolding UpdateFileOperationJob_def by (drule updateJobs_Inr(1)) simp

text \<open>Equal up to the totals.\<close>

definition sameProgress :: "FileOperationJob \<Rightarrow> FileOperationJob \<Rightarrow> bool" where
  "sameProgress j k \<longleftrightarrow> fj_ID j = fj_ID k \<and> fj_HomeID j = fj_HomeID k \<and> fj_Status j = fj_Status k \<and> fj_BytesDone j = fj_BytesDone k \<and> fj_FilesDone j = fj_FilesDone k
     \<and> fj_ErrorMessage j = fj_ErrorMessage k \<and> fj_CompletedAt j = fj_CompletedAt k"

lemma totals_jobs:
  "\<exists>g. fd_jobs (updateTotals now i bt ft db) = map (\<lambda>j. if fj_ID j = i then g j else j) (fd_jobs db) \<and> (\<forall>j. sameProgress (g j) j)"
proof (cases "fd_jobs (updateTotals now i bt ft db) = fd_jobs db")
  case True
  show ?thesis by (rule exI [of _ "\<lambda>j. j"]) (simp add: True sameProgress_def)
next
  case False
  then show ?thesis
    by (intro exI [of _ "\<lambda>j. j\<lparr>fj_BytesTotal := bt, fj_FilesTotal := ft, fj_UpdatedAt := now\<rparr>"])
      (auto simp: updateTotals_def tryUpdate_def UpdateFileOperationJobTotals_def updateJobs_def sameProgress_def split: if_splits)
qed

lemma updated_member:
  "j \<in> set (map (\<lambda>j. if fj_ID j = i then f j else j) js) \<Longrightarrow> fj_ID j = i \<Longrightarrow> \<exists>k \<in> set js. fj_ID k = i \<and> j = f k"
  by auto

lemma settled_after_update:
  assumes "UpdateFileOperationJob now i st b f e c db = Inr db1" "j \<in> set (fd_jobs (updateTotals now' i bt ft db1))" "fj_ID j = i"
  shows "fj_Status j = st \<and> fj_CompletedAt j = c"
proof -
  obtain g where g: "fd_jobs (updateTotals now' i bt ft db1) = map (\<lambda>j. if fj_ID j = i then g j else j) (fd_jobs db1)" "\<forall>j. sameProgress (g j) j"
    using totals_jobs by blast
  obtain k where k: "k \<in> set (fd_jobs db1)" "fj_ID k = i" "j = g k" using updated_member [OF assms(2) [unfolded g(1)] assms(3)] by blast
  obtain l where "k = setJob now st b f e c l" using updated_member [OF k(1) [unfolded update_jobs [OF assms(1)]] k(2)] by blast
  then show ?thesis using k(3) g(2) by (simp add: sameProgress_def)
qed

lemma event_run:
  assumes "handleFileMoveJobEvent now h ev body db = (evs, db')"
  obtains (ignored) "db' = db" "evs = []"
  | (applied) p job db1 st where "body = Some p" "GetFileOperationJob db (fe_JobID p) = Inr job" "fj_HomeID job = h"
      "fj_Status job = ''cancelled'' \<longrightarrow> ev = ''files.move_failed''" "st = (if blank (fe_Status p) then ''running'' else trimSpace (fe_Status p))"
      "UpdateFileOperationJob now (fe_JobID p) st (fe_BytesDone p) (fe_FilesDone p) (fe_ErrorMessage p) (completionTime now st) db = Inr db1"
      "db' = updateTotals now (fe_JobID p) (fe_BytesTotal p) (fe_FilesTotal p) db1" "evs = broadcastFileJobChanged db' h (fe_JobID p)"
  using assms by (auto simp: handleFileMoveJobEvent_def Let_def split: option.splits sum.splits if_splits)

lemma Get_mem: "GetFileOperationJob db i = Inr j \<Longrightarrow> j \<in> set (fd_jobs db) \<and> fj_ID j = i"
  by (auto simp: GetFileOperationJob_def find_Some_iff split: option.splits)

lemma jobs_unique: "jobs_ok db \<Longrightarrow> j \<in> set (fd_jobs db) \<Longrightarrow> k \<in> set (fd_jobs db) \<Longrightarrow> fj_ID j = fj_ID k \<Longrightarrow> j = k"
  by (auto simp: jobs_ok_def distinct_map inj_on_def)


section \<open>A sample and what goes wrong\<close>

definition sampleJobs :: filesDb where
  "sampleJobs =
     \<lparr>fd_users = [''u1''], fd_homes = [''h1'', ''h2''],
      fd_jobs = [zeroJob\<lparr>fj_ID := ''j1'', fj_HomeID := ''h1'', fj_UserID := ''u1'', fj_Operation := ''move'', fj_Status := ''running''\<rparr>,
        zeroJob\<lparr>fj_ID := ''j2'', fj_HomeID := ''h2'', fj_UserID := ''u1'', fj_Operation := ''move'', fj_Status := ''running''\<rparr>],
      fd_transfers = []\<rparr>"

definition sampleJobEvent :: FileOperationJobEvent where
  "sampleJobEvent = \<lparr>fe_JobID = ''j1'', fe_Status = ''completed'', fe_BytesTotal = 9, fe_BytesDone = 9, fe_FilesTotal = 1, fe_FilesDone = 1, fe_ErrorMessage = []\<rparr>"

lemma sampleJobs_ok: "jobs_ok sampleJobs"
  by (simp add: jobs_ok_def sampleJobs_def jobStatuses_def jobOperations_def)


text \<open>
  The answer to a pending request may name any job: it is updated without looking at its home, so an agent can settle the job of another home. (An event
  of the same agent would be refused.)
\<close>

theorem response_settles_foreign_job:
  assumes "jobs_ok db" "i \<noteq> []" "\<not> isCancelled db i" "k \<noteq> []" "jf_JobID p = Some k" "jf_Status p = None" "j \<in> set (fd_jobs (snd (completePendingFileJob now h i None p db)))"
    "fj_ID j = k"
  shows "fj_Status j = ''completed'' \<and> fj_CompletedAt j = Some now"
proof -
  have s: "''completed'' \<in> set jobStatuses" by (simp add: jobStatuses_def)
  let ?b = "orElse (jf_BytesDone p) 0" and ?f = "orElse (jf_FilesDone p) 1"
  obtain db1 where u: "UpdateFileOperationJob now k ''completed'' ?b ?f [] (Some now) db = Inr db1"
    using s by (auto simp: UpdateFileOperationJob_def updateJobs_def list_ex_iff)
  then have run: "snd (completePendingFileJob now h i None p db) = updateTotals now k (orElse (jf_BytesTotal p) 0) (orElse (jf_FilesTotal p) 0) db1"
    using assms(2-6) by (simp add: completePendingFileJob_def Let_def unmarshalResponse_def tryUpdate_def completionTime_def settledStatus_def)
  show ?thesis using settled_after_update [OF u assms(7) [unfolded run] assms(8)] .
qed

text \<open>
  A command is marked as running after it was written to the agent. When the agent's answer is handled first, the mark overwrites it: the job of a finished
  move shows as running without a completion time.
\<close>

theorem late_running_mark:
  assumes "jobs_ok db" "i \<noteq> []" "j \<in> set (fd_jobs (markFileJobRunning now' i (snd (completePendingFileJob now h i err p db))))" "fj_ID j = i"
  shows "fj_Status j = ''running'' \<and> fj_CompletedAt j = None"
proof -
  let ?db = "snd (completePendingFileJob now h i err p db)"
  have "''running'' \<in> set jobStatuses" by (simp add: jobStatuses_def)
  then obtain db1 where u: "UpdateFileOperationJob now' i ''running'' 0 0 [] None ?db = Inr db1"
    by (auto simp: UpdateFileOperationJob_def updateJobs_def list_ex_iff)
  have "markFileJobRunning now' i ?db = updateTotals now' i 0 0 db1" using assms(2) u by (simp add: markFileJobRunning_def tryUpdate_def updateTotals_def)
  then show ?thesis using settled_after_update [OF u, of j now' 0 0] assms(3,4) by simp
qed

theorem file_jobs_safe_witness:
  "\<exists>db db' j. reachable no_jobs job_step db \<and> GetFileOperationJob db ''j1'' = Inr j \<and> db' = markFileJobRunning 8 ''j1'' db
    \<and> (\<exists>j'. GetFileOperationJob db' ''j1'' = Inr j' \<and> moveRequest j' = moveRequest j)"
proof -
  let ?e = "\<lparr>fd_users = [''u1''], fd_homes = [''h1''], fd_jobs = [], fd_transfers = []\<rparr>"
  let ?j = "zeroJob\<lparr>fj_ID := ''j1'', fj_HomeID := ''h1'', fj_UserID := ''u1'', fj_Operation := ''move''\<rparr>"
  let ?db = "?e\<lparr>fd_jobs := [?j\<lparr>fj_Status := ''queued''\<rparr>]\<rparr>"
  have "CreateFileOperationJob ?j ?e = Inr ?db" by (simp add: CreateFileOperationJob_def zeroJob_def jobStatuses_def jobOperations_def)
  then have r: "reachable no_jobs job_step ?db"
    by (intro reach_step [OF reach_init, of no_jobs ?e job_step ?db]) (simp add: no_jobs_def, rule step_create)
  have g: "GetFileOperationJob ?db ''j1'' = Inr (?j\<lparr>fj_Status := ''queued''\<rparr>)" by (simp add: GetFileOperationJob_def zeroJob_def)
  have "job_step\<^sup>*\<^sup>* ?db (markFileJobRunning 8 ''j1'' ?db)" using step_running by blast
  from file_jobs_safe [OF r this g] show ?thesis using r g by blast
qed

end
