(* ===== verification/Transfers.thy ===== *)
theory Transfers
  imports File_Jobs "HOL-Library.Multiset"
begin

text \<open>
  File transfers in the server: the registry of \<open>internal/cloud/transfers.go\<close> and the authorisation and bookkeeping of transfers in
  \<open>internal/cloud/server.go\<close>. Sessions are objects: the registry maps a transfer id to an address, an attempt holds the
  address of its session, and a session outlives its entry in the map. Random ids and tokens, their hash and the clock are
  arguments; an operation reads the clock once. The channels of an attempt are the subject of \<open>Transfer_Stream\<close>.
\<close>

section \<open>Sessions and attempts\<close>

definition ErrTransferNotFound :: error where "ErrTransferNotFound = ErrMsg ''transfer not found''"
definition ErrTransferBusy :: error where "ErrTransferBusy = ErrMsg ''transfer is already active''"
definition ErrTransferOffsetInvalid :: error where "ErrTransferOffsetInvalid = ErrMsg ''transfer offset is invalid''"

lemma transfer_errors [simp]:
  "ErrTransferBusy \<noteq> ErrTransferNotFound" "ErrTransferOffsetInvalid \<noteq> ErrTransferNotFound" "ErrTransferOffsetInvalid \<noteq> ErrTransferBusy"
  by (simp_all add: ErrTransferNotFound_def ErrTransferBusy_def ErrTransferOffsetInvalid_def)

text \<open>An error payload: its code and its message.\<close>

type_synonym errorPayload = "string \<times> string"

record transferSession =
  ts_ID :: string
  ts_HomeID :: string
  ts_AgentID :: string
  ts_JobID :: string
  ts_Operation :: string
  ts_SourceID :: string
  ts_Path :: string
  ts_TokenHash :: string
  ts_CreatedAt :: time
  ts_ExpiresAt :: time
  ts_size :: int
  ts_nextOffset :: int
  ts_lastError :: "errorPayload option"
  ts_active :: bool
  ts_attemptID :: string
  ts_resumeCount :: nat
  ts_completedAt :: "time option"

record transferAttempt =
  ta_ID :: string
  ta_Session :: nat
  ta_Offset :: int

record transferRegistry =
  tr_sessions :: "transferSession list"
  tr_transfers :: "(string, nat) gomap"
  tr_attempts :: "(string, transferAttempt) gomap"

record FileTransferReady =
  rd_Operation :: string
  rd_SourceID :: string
  rd_Path :: string
  rd_Offset :: int
  rd_Size :: int

record FileTransferComplete =
  cp_Operation :: string
  cp_SourceID :: string
  cp_Path :: string
  cp_Offset :: int
  cp_Size :: int

definition newTransferRegistry :: transferRegistry where
  "newTransferRegistry = \<lparr>tr_sessions = [], tr_transfers = [], tr_attempts = []\<rparr>"

section \<open>Methods of a session\<close>

definition sessionBeginAttempt :: "time \<Rightarrow> string \<Rightarrow> int \<Rightarrow> transferSession \<Rightarrow> transferSession result" where
  "sessionBeginAttempt now newID offset s =
     (if now > ts_ExpiresAt s then Inl ErrTransferNotFound
      else if ts_active s then Inl ErrTransferBusy
      else if offset < 0 then Inl ErrTransferOffsetInvalid
      else if ts_Operation s = ''upload'' \<and> offset > ts_nextOffset s then Inl ErrTransferOffsetInvalid
      else if ts_Operation s = ''download'' \<and> ts_size s > 0 \<and> offset > ts_size s then Inl ErrTransferOffsetInvalid
      else Inr (s\<lparr>ts_active := True, ts_attemptID := newID, ts_resumeCount := ts_resumeCount s + 1, ts_lastError := None\<rparr>))"

definition sessionEndAttempt :: "transferSession \<Rightarrow> transferSession" where
  "sessionEndAttempt s = s\<lparr>ts_active := False, ts_attemptID := []\<rparr>"

definition IsAttempt :: "string \<Rightarrow> transferSession \<Rightarrow> bool" where
  "IsAttempt attemptID s \<longleftrightarrow> ts_active s \<and> ts_attemptID s = attemptID"

definition MarkReady :: "FileTransferReady \<Rightarrow> transferSession \<Rightarrow> transferSession" where
  "MarkReady ready s =
     s\<lparr>ts_size := rd_Size ready,
       ts_nextOffset := (if ts_Operation s = ''upload'' \<and> rd_Offset ready > ts_nextOffset s then rd_Offset ready else ts_nextOffset s)\<rparr>"

definition Advance :: "int \<Rightarrow> int \<Rightarrow> transferSession \<Rightarrow> transferSession" where
  "Advance nextOffset totalSize s =
     s\<lparr>ts_nextOffset := (if nextOffset > ts_nextOffset s then nextOffset else ts_nextOffset s),
       ts_size := (if totalSize > ts_size s then totalSize else ts_size s)\<rparr>"

definition Fail :: "errorPayload \<Rightarrow> transferSession \<Rightarrow> transferSession" where
  "Fail err s = s\<lparr>ts_lastError := Some err\<rparr>"

definition Complete :: "time \<Rightarrow> FileTransferComplete \<Rightarrow> transferSession \<Rightarrow> transferSession" where
  "Complete now d s =
     s\<lparr>ts_size := cp_Size d, ts_nextOffset := (if cp_Offset d > ts_nextOffset s then cp_Offset d else ts_nextOffset s),
       ts_completedAt := Some now, ts_lastError := None\<rparr>"

definition NextOffset :: "transferSession \<Rightarrow> int" where "NextOffset s = ts_nextOffset s"

definition Progress :: "transferSession \<Rightarrow> int \<times> int \<times> time option" where
  "Progress s = (ts_size s, ts_nextOffset s, ts_completedAt s)"

definition LastError :: "transferSession \<Rightarrow> errorPayload option" where "LastError s = ts_lastError s"

section \<open>Methods of the registry\<close>

definition updateSession :: "nat \<Rightarrow> (transferSession \<Rightarrow> transferSession) \<Rightarrow> transferRegistry \<Rightarrow> transferRegistry" where
  "updateSession a f r = r\<lparr>tr_sessions := (if a < length (tr_sessions r) then (tr_sessions r)[a := f (tr_sessions r ! a)] else tr_sessions r)\<rparr>"

text \<open>Allocating a session object: its address is the number of objects so far.\<close>

definition allocSession :: "transferSession \<Rightarrow> transferRegistry \<Rightarrow> nat \<times> transferRegistry" where
  "allocSession s r = (length (tr_sessions r), r\<lparr>tr_sessions := tr_sessions r @ [s]\<rparr>)"

definition Restore :: "nat \<Rightarrow> transferRegistry \<Rightarrow> transferRegistry" where
  "Restore a r =
     (if a < length (tr_sessions r) \<and> ts_ID (tr_sessions r ! a) \<noteq> [] then r\<lparr>tr_transfers := mput (ts_ID (tr_sessions r ! a)) a (tr_transfers r)\<rparr> else r)"

definition TransferCreate ::
    "string \<Rightarrow> string \<Rightarrow> time \<Rightarrow> string \<Rightarrow> string \<Rightarrow> string \<Rightarrow> string \<Rightarrow> string \<Rightarrow> string \<Rightarrow> duration \<Rightarrow> transferRegistry \<Rightarrow> nat \<times> transferRegistry" where
  "TransferCreate newID tokenHash now homeID agentID jobID operation sourceID path ttl r =
     (let ttl = (if ttl \<le> 0 then 10 * 60 * 1000000000 else ttl);
          s = \<lparr>ts_ID = newID, ts_HomeID = homeID, ts_AgentID = agentID, ts_JobID = jobID, ts_Operation = operation, ts_SourceID = sourceID,
               ts_Path = path, ts_TokenHash = tokenHash, ts_CreatedAt = now, ts_ExpiresAt = now + ttl, ts_size = 0, ts_nextOffset = 0,
               ts_lastError = None, ts_active = False, ts_attemptID = [], ts_resumeCount = 0, ts_completedAt = None\<rparr>;
          (a, r') = allocSession s r
      in (a, r'\<lparr>tr_transfers := mput newID a (tr_transfers r')\<rparr>))"

definition TransferGet :: "time \<Rightarrow> string \<Rightarrow> transferRegistry \<Rightarrow> nat option \<times> transferRegistry" where
  "TransferGet now i r =
     (case mget (tr_transfers r) i of
        None \<Rightarrow> (None, r)
      | Some a \<Rightarrow> if now > ts_ExpiresAt (tr_sessions r ! a) then (None, r\<lparr>tr_transfers := mdel i (tr_transfers r)\<rparr>) else (Some a, r))"

definition TransferDelete :: "string \<Rightarrow> transferRegistry \<Rightarrow> transferRegistry" where
  "TransferDelete i r = r\<lparr>tr_transfers := mdel i (tr_transfers r)\<rparr>"

definition Authorize :: "time \<Rightarrow> (string \<Rightarrow> string) \<Rightarrow> string \<Rightarrow> string \<Rightarrow> string \<Rightarrow> transferRegistry \<Rightarrow> nat result \<times> transferRegistry" where
  "Authorize now hashToken i rawToken operation r =
     (case TransferGet now i r of
        (None, r') \<Rightarrow> (Inl ErrTransferNotFound, r')
      | (Some a, r') \<Rightarrow>
        if ts_Operation (tr_sessions r' ! a) \<noteq> operation \<or> ts_TokenHash (tr_sessions r' ! a) \<noteq> hashToken rawToken then (Inl ErrTransferNotFound, r')
        else (Inr a, r'))"

text \<open>
  \<open>BeginAttempt\<close> and \<open>EndAttempt\<close> of the registry take the lock of the session and the lock of the registry one after the
  other: each is two steps for the other goroutines.
\<close>

definition beginSession :: "time \<Rightarrow> string \<Rightarrow> int \<Rightarrow> nat \<Rightarrow> transferRegistry \<Rightarrow> (transferAttempt \<times> transferRegistry) result" where
  "beginSession now newID offset a r =
     bindR (sessionBeginAttempt now newID offset (tr_sessions r ! a)) (\<lambda>s.
       Inr (\<lparr>ta_ID = newID, ta_Session = a, ta_Offset = offset\<rparr>, updateSession a (\<lambda>_. s) r))"

definition registerAttempt :: "transferAttempt \<Rightarrow> transferRegistry \<Rightarrow> transferRegistry" where
  "registerAttempt t r = r\<lparr>tr_attempts := mput (ta_ID t) t (tr_attempts r)\<rparr>"

definition BeginAttempt :: "time \<Rightarrow> string \<Rightarrow> nat \<Rightarrow> int \<Rightarrow> transferRegistry \<Rightarrow> (transferAttempt \<times> transferRegistry) result" where
  "BeginAttempt now newID a offset r = bindR (beginSession now newID offset a r) (\<lambda>(t, r'). Inr (t, registerAttempt t r'))"

definition GetAttempt :: "transferRegistry \<Rightarrow> string \<Rightarrow> transferAttempt option" where
  "GetAttempt r i = mget (tr_attempts r) i"

definition takeAttempt :: "string \<Rightarrow> transferRegistry \<Rightarrow> transferAttempt option \<times> transferRegistry" where
  "takeAttempt i r = (mget (tr_attempts r) i, r\<lparr>tr_attempts := mdel i (tr_attempts r)\<rparr>)"

definition EndAttempt :: "string \<Rightarrow> transferRegistry \<Rightarrow> transferRegistry" where
  "EndAttempt i r =
     (case takeAttempt i r of (None, r') \<Rightarrow> r' | (Some t, r') \<Rightarrow> updateSession (ta_Session t) sessionEndAttempt r')"

section \<open>Authorisation and bookkeeping in the server\<close>

text \<open>A session rebuilt from its stored row, after a restart of the server.\<close>

definition sessionFromRecord :: "FileTransferRecord \<Rightarrow> transferSession" where
  "sessionFromRecord t =
     \<lparr>ts_ID = ft_ID t, ts_HomeID = ft_HomeID t, ts_AgentID = ft_AgentID t, ts_JobID = ft_JobID t, ts_Operation = ft_Operation t,
      ts_SourceID = ft_SourceID t, ts_Path = ft_Path t, ts_TokenHash = ft_TokenHash t, ts_CreatedAt = ft_CreatedAt t, ts_ExpiresAt = ft_ExpiresAt t,
      ts_size = (case ft_BytesTotal t of None \<Rightarrow> 0 | Some n \<Rightarrow> n), ts_nextOffset = ft_BytesDone t, ts_lastError = None, ts_active = False,
      ts_attemptID = [], ts_resumeCount = 0, ts_completedAt = ft_CompletedAt t\<rparr>"

text \<open>The row that may stand in for a session, and what is refused.\<close>

definition restorable :: "time \<Rightarrow> (string \<Rightarrow> string) \<Rightarrow> filesDb \<Rightarrow> string \<Rightarrow> string \<Rightarrow> string \<Rightarrow> FileTransferRecord result" where
  "restorable now hashToken db i rawToken operation =
     (case GetFileTransfer db i of
        Inl e \<Rightarrow> Inl ErrTransferNotFound
      | Inr t \<Rightarrow>
        if ft_Operation t \<noteq> operation \<or> ft_TokenHash t \<noteq> hashToken rawToken \<or> \<not> ft_ExpiresAt t > now then Inl ErrTransferNotFound
        else if ft_Status t = ''expired'' \<or> ft_Status t = ''failed'' then Inl ErrTransferNotFound
        else Inr t)"

definition restoreSession :: "FileTransferRecord \<Rightarrow> transferRegistry \<Rightarrow> nat \<times> transferRegistry" where
  "restoreSession t r = (let (a, r') = allocSession (sessionFromRecord t) r in (a, Restore a r'))"

definition authorizeTransfer ::
    "time \<Rightarrow> (string \<Rightarrow> string) \<Rightarrow> filesDb \<Rightarrow> string \<Rightarrow> string \<Rightarrow> string \<Rightarrow> transferRegistry \<Rightarrow> nat result \<times> transferRegistry" where
  "authorizeTransfer now hashToken db i rawToken operation r =
     (case Authorize now hashToken i rawToken operation r of
        (Inr a, r') \<Rightarrow> (Inr a, r')
      | (Inl e, r') \<Rightarrow>
        (case restorable now hashToken db i rawToken operation of
           Inl e \<Rightarrow> (Inl e, r')
         | Inr t \<Rightarrow> let (a, r'') = restoreSession t r' in (Inr a, r'')))"

definition persistTransferJobStatus :: "time \<Rightarrow> transferSession \<Rightarrow> string \<Rightarrow> int \<Rightarrow> time option \<Rightarrow> filesDb \<Rightarrow> filesDb" where
  "persistTransferJobStatus now s transferStatus bytesDone completedAt db =
     (if ts_JobID s = [] then db
      else
        let update = (\<lambda>status files msg at. tryUpdate (UpdateFileOperationJob now (ts_JobID s) status bytesDone files msg at db) db) in
        if transferStatus = ''active'' then update ''running'' 0 [] None
        else if transferStatus = ''completed'' then update ''completed'' 1 [] (Some (orElse completedAt now))
        else if transferStatus = ''failed'' \<or> transferStatus = ''expired''
        then update ''failed'' 0 (case LastError s of None \<Rightarrow> [] | Some (code, msg) \<Rightarrow> msg) (Some now)
        else db)"

definition persistTransferStatus :: "time \<Rightarrow> transferSession \<Rightarrow> string \<Rightarrow> filesDb \<Rightarrow> filesDb" where
  "persistTransferStatus now s status db =
     (let (size, done, completedAt) = Progress s;
          total = (if size > 0 then Some size else None);
          db1 = tryUpdate (UpdateFileTransferProgress (ts_ID s) status total done completedAt db) db
      in persistTransferJobStatus now s status done completedAt db1)"

text \<open>
  Setting a transfer up: the job and the lease are stored (failures are only logged) and the session is created. The checks of
  the path policy and the resolution of the agent come before.
\<close>

definition setupTransfer ::
    "string \<Rightarrow> string \<Rightarrow> string \<Rightarrow> time \<Rightarrow> string \<Rightarrow> string \<Rightarrow> string \<Rightarrow> string \<Rightarrow> string \<Rightarrow> string \<Rightarrow> transferRegistry \<Rightarrow> filesDb \<Rightarrow> nat \<times> transferRegistry \<times> filesDb" where
  "setupTransfer jobID transferID tokenHash now homeID userID agentID operation sourceID path r db =
     (let db1 = tryUpdate (CreateFileOperationJob (zeroJob\<lparr>fj_ID := jobID, fj_HomeID := homeID, fj_UserID := userID, fj_Operation := operation,
                 fj_SourceID := sourceID, fj_FromPath := path, fj_Status := ''queued'', fj_CreatedAt := now, fj_UpdatedAt := now\<rparr>) db) db;
          (a, r') = TransferCreate transferID tokenHash now homeID agentID jobID operation sourceID path (10 * 60 * 1000000000) r;
          s = tr_sessions r' ! a;
          db2 = tryUpdate (CreateFileTransfer \<lparr>ft_ID = ts_ID s, ft_TokenHash = ts_TokenHash s, ft_JobID = jobID, ft_HomeID = homeID,
                 ft_UserID = userID, ft_AgentID = agentID, ft_Operation = operation, ft_SourceID = sourceID, ft_Path = path, ft_Status = ''pending'',
                 ft_BytesTotal = None, ft_BytesDone = 0, ft_CreatedAt = ts_CreatedAt s, ft_ExpiresAt = ts_ExpiresAt s, ft_CompletedAt = None\<rparr> db1) db1
      in (a, r', db2))"

section \<open>Attempts and their sessions\<close>

text \<open>
  The registry as the goroutines of the server drive it: a handler creates, authorises or restores a session, begins an attempt
  on a session it holds, registers it, reports progress, takes the attempt out and clears the session. Between the two halves of
  \<open>BeginAttempt\<close> an attempt is begun and not yet registered, between those of \<open>EndAttempt\<close> it is taken and not yet cleared.
\<close>

record transferState =
  xs_reg :: transferRegistry
  xs_begun :: "transferAttempt list"
  xs_taken :: "transferAttempt list"

definition liveAttempts :: "transferState \<Rightarrow> transferAttempt list" where
  "liveAttempts st = xs_begun st @ map snd (tr_attempts (xs_reg st)) @ xs_taken st"

definition no_transfers :: "transferState \<Rightarrow> bool" where
  "no_transfers st \<longleftrightarrow> st = \<lparr>xs_reg = newTransferRegistry, xs_begun = [], xs_taken = []\<rparr>"

inductive transfer_step :: "transferState \<Rightarrow> transferState \<Rightarrow> bool" where
  tr_create: "TransferCreate newID h now hm ag job opn src pth ttl (xs_reg st) = (a, r) \<Longrightarrow> transfer_step st (st\<lparr>xs_reg := r\<rparr>)"
| tr_authorize: "Authorize now hash i tok opn (xs_reg st) = (res, r) \<Longrightarrow> transfer_step st (st\<lparr>xs_reg := r\<rparr>)"
| tr_restore: "restorable now hash db i tok opn = Inr t \<Longrightarrow> restoreSession t (xs_reg st) = (a, r) \<Longrightarrow> transfer_step st (st\<lparr>xs_reg := r\<rparr>)"
| tr_delete: "transfer_step st (st\<lparr>xs_reg := TransferDelete i (xs_reg st)\<rparr>)"
| tr_begin: "a < length (tr_sessions (xs_reg st)) \<Longrightarrow> newID \<noteq> [] \<Longrightarrow> newID \<notin> ta_ID ` set (liveAttempts st) \<Longrightarrow>
    beginSession now newID off a (xs_reg st) = Inr (t, r) \<Longrightarrow> transfer_step st (st\<lparr>xs_reg := r, xs_begun := t # xs_begun st\<rparr>)"
| tr_register: "t \<in> set (xs_begun st) \<Longrightarrow>
    transfer_step st (st\<lparr>xs_reg := registerAttempt t (xs_reg st), xs_begun := remove1 t (xs_begun st)\<rparr>)"
| tr_take: "takeAttempt i (xs_reg st) = (Some t, r) \<Longrightarrow> transfer_step st (st\<lparr>xs_reg := r, xs_taken := t # xs_taken st\<rparr>)"
| tr_clear: "t \<in> set (xs_taken st) \<Longrightarrow>
    transfer_step st (st\<lparr>xs_reg := updateSession (ta_Session t) sessionEndAttempt (xs_reg st), xs_taken := remove1 t (xs_taken st)\<rparr>)"
| tr_ready: "transfer_step st (st\<lparr>xs_reg := updateSession a (MarkReady rd) (xs_reg st)\<rparr>)"
| tr_advance: "transfer_step st (st\<lparr>xs_reg := updateSession a (Advance n sz) (xs_reg st)\<rparr>)"
| tr_fail: "transfer_step st (st\<lparr>xs_reg := updateSession a (Fail e) (xs_reg st)\<rparr>)"
| tr_complete: "transfer_step st (st\<lparr>xs_reg := updateSession a (Complete now d) (xs_reg st)\<rparr>)"

text \<open>What an attempt and its session say of each other.\<close>

definition attemptFits :: "transferSession \<Rightarrow> transferAttempt \<Rightarrow> bool" where
  "attemptFits s t \<longleftrightarrow> IsAttempt (ta_ID t) s \<and> 0 \<le> ta_Offset t \<and> (ts_Operation s = ''upload'' \<longrightarrow> ta_Offset t \<le> ts_nextOffset s)"

definition attemptsMatch :: "transferSession list \<Rightarrow> transferAttempt list \<Rightarrow> bool" where
  "attemptsMatch ss l \<longleftrightarrow> distinct (map ta_Session l) \<and> distinct (map ta_ID l) \<and>
     (\<forall>t\<in>set l. ta_Session t < length ss \<and> attemptFits (ss ! ta_Session t) t) \<and>
     (\<forall>a<length ss. ts_active (ss ! a) \<longrightarrow> a \<in> ta_Session ` set l)"

text \<open>The fields a session keeps from its creation, and the progress it never loses.\<close>

definition sameLease :: "transferSession \<Rightarrow> transferSession \<Rightarrow> bool" where
  "sameLease s s' \<longleftrightarrow> ts_ID s' = ts_ID s \<and> ts_HomeID s' = ts_HomeID s \<and> ts_AgentID s' = ts_AgentID s \<and> ts_JobID s' = ts_JobID s \<and>
     ts_Operation s' = ts_Operation s \<and> ts_SourceID s' = ts_SourceID s \<and> ts_Path s' = ts_Path s \<and> ts_TokenHash s' = ts_TokenHash s \<and>
     ts_CreatedAt s' = ts_CreatedAt s \<and> ts_ExpiresAt s' = ts_ExpiresAt s \<and> ts_nextOffset s \<le> ts_nextOffset s' \<and> ts_resumeCount s \<le> ts_resumeCount s'"

definition reportsProgress :: "(transferSession \<Rightarrow> transferSession) \<Rightarrow> bool" where
  "reportsProgress f \<longleftrightarrow> (\<forall>s. sameLease s (f s) \<and> ts_active (f s) = ts_active s \<and> ts_attemptID (f s) = ts_attemptID s)"

lemma sameLease_refl [simp]: "sameLease s s"
  by (simp add: sameLease_def)

lemma sameLease_trans: "sameLease s s' \<Longrightarrow> sameLease s' s'' \<Longrightarrow> sameLease s s''"
  by (simp add: sameLease_def)

lemma reports_progress [simp]:
  "reportsProgress (MarkReady rd)" "reportsProgress (Advance n sz)" "reportsProgress (Fail e)" "reportsProgress (Complete now d)"
  by (simp_all add: reportsProgress_def sameLease_def MarkReady_def Advance_def Fail_def Complete_def)

lemma sameLease_end [simp]: "sameLease s (sessionEndAttempt s)"
  by (simp add: sameLease_def sessionEndAttempt_def)

lemma sessionBeginAttempt_Inr:
  "sessionBeginAttempt now i off s = Inr s' \<Longrightarrow> \<not> now > ts_ExpiresAt s \<and> \<not> ts_active s \<and> sameLease s s' \<and>
     attemptFits s' \<lparr>ta_ID = i, ta_Session = a, ta_Offset = off\<rparr> \<and> ts_resumeCount s' = ts_resumeCount s + 1"
  by (auto simp: sessionBeginAttempt_def sameLease_def attemptFits_def IsAttempt_def split: if_splits)

lemma fits_sameLease:
  "attemptFits s t \<Longrightarrow> sameLease s s' \<Longrightarrow> ts_active s' = ts_active s \<Longrightarrow> ts_attemptID s' = ts_attemptID s \<Longrightarrow> attemptFits s' t"
  by (auto simp: attemptFits_def sameLease_def IsAttempt_def)

lemma match_mset: "mset l = mset l' \<Longrightarrow> attemptsMatch ss l \<longleftrightarrow> attemptsMatch ss l'"
proof -
  assume m: "mset l = mset l'"
  have same: "set l = set l'" "distinct (map g l) = distinct (map g l')" for g :: "transferAttempt \<Rightarrow> 'b"
    using m mset_eq_imp_distinct_iff [of "map g l" "map g l'"] by (auto dest: arg_cong [where f = set_mset])
  show ?thesis by (simp add: attemptsMatch_def same)
qed

lemma match_alloc: "\<not> ts_active s \<Longrightarrow> attemptsMatch ss l \<Longrightarrow> attemptsMatch (ss @ [s]) l"
  by (auto simp: attemptsMatch_def nth_append less_Suc_eq)

lemma match_update: "reportsProgress f \<Longrightarrow> attemptsMatch ss l \<Longrightarrow> attemptsMatch (ss[a := f (ss ! a)]) l"
proof -
  assume f: "reportsProgress f" and m: "attemptsMatch ss l"
  have nth: "(ss[a := f (ss ! a)]) ! k = (if k = a then f (ss ! k) else ss ! k)" if "k < length ss" for k
    using that by (auto simp: nth_list_update)
  have same: "ts_active (f s) = ts_active s" "attemptFits s t \<Longrightarrow> attemptFits (f s) t" for s t
    using f by (auto simp: reportsProgress_def intro: fits_sameLease)
  show ?thesis using m by (auto simp: attemptsMatch_def nth same)
qed

lemma match_begin:
  "attemptsMatch ss l \<Longrightarrow> ta_Session t < length ss \<Longrightarrow> \<not> ts_active (ss ! ta_Session t) \<Longrightarrow> attemptFits s t \<Longrightarrow> ta_ID t \<notin> ta_ID ` set l \<Longrightarrow>
     attemptsMatch (ss[ta_Session t := s]) (t # l)"
  unfolding attemptsMatch_def
  by (auto simp: nth_list_update attemptFits_def IsAttempt_def)

lemma match_clear:
  assumes m: "attemptsMatch ss l" and t: "t \<in> set l"
  shows "attemptsMatch (ss[ta_Session t := sessionEndAttempt (ss ! ta_Session t)]) (remove1 t l)"
proof -
  have d: "distinct (map ta_Session l)" "distinct l" using m by (auto simp: attemptsMatch_def distinct_map)
  have r: "set (remove1 t l) = set l - {t}" using d(2) by simp
  have other: "ta_Session t' \<noteq> ta_Session t" if "t' \<in> set l - {t}" for t'
    using that t d(1) by (auto simp: distinct_map inj_on_def)
  have sub: "distinct (map g (remove1 t l))" if "distinct (map g l)" for g :: "transferAttempt \<Rightarrow> 'b"
    using that by (metis distinct_map distinct_remove1 inj_on_subset set_remove1_subset)
  let ?ss = "ss[ta_Session t := sessionEndAttempt (ss ! ta_Session t)]"
  have nth: "k \<noteq> ta_Session t \<Longrightarrow> ?ss ! k = ss ! k" for k by simp
  have live: "ta_Session t' < length ?ss \<and> attemptFits (?ss ! ta_Session t') t'" if "t' \<in> set l - {t}" for t'
    using m that nth [OF other [OF that]] by (simp add: attemptsMatch_def)
  have act: "a \<in> ta_Session ` (set l - {t})" if "a < length ?ss" "ts_active (?ss ! a)" for a
  proof -
    have ne: "a \<noteq> ta_Session t" using that by (auto simp: sessionEndAttempt_def)
    then have "a \<in> ta_Session ` set l" using m that nth [OF ne] by (simp add: attemptsMatch_def)
    with ne show ?thesis by auto
  qed
  have "distinct (map ta_Session (remove1 t l))" "distinct (map ta_ID (remove1 t l))" using m sub by (auto simp: attemptsMatch_def)
  with live act show ?thesis by (simp add: attemptsMatch_def r)
qed

text \<open>The registry alone: keys and values agree, and every address is that of an object.\<close>

definition registryOk :: "transferRegistry \<Rightarrow> bool" where
  "registryOk r \<longleftrightarrow> mwf (tr_attempts r) \<and> (\<forall>(i, t)\<in>set (tr_attempts r). ta_ID t = i) \<and>
     (\<forall>i a. mget (tr_transfers r) i = Some a \<longrightarrow> a < length (tr_sessions r) \<and> ts_ID (tr_sessions r ! a) = i)"

definition transfersOk :: "transferState \<Rightarrow> bool" where
  "transfersOk st \<longleftrightarrow> registryOk (xs_reg st) \<and> attemptsMatch (tr_sessions (xs_reg st)) (liveAttempts st)"

lemma mset_mdel:
  "mwf m \<Longrightarrow> mget m k = Some v \<Longrightarrow> mset (map snd m) = add_mset v (mset (map snd (mdel k m)))"
proof (induction m)
  case (Cons kv m)
  show ?case
  proof (cases "fst kv = k")
    case True
    then have "k \<notin> fst ` set m" using Cons.prems by (auto simp: mwf_def)
    then have "mdel k m = m" by (force simp: AList.delete_eq filter_id_conv)
    with True Cons.prems show ?thesis by (cases kv) simp
  next
    case False
    then show ?thesis using Cons by (cases kv) (auto simp: mwf_def)
  qed
qed simp

lemma updateSession_fields [simp]:
  "tr_attempts (updateSession a f r) = tr_attempts r" "tr_transfers (updateSession a f r) = tr_transfers r"
  "length (tr_sessions (updateSession a f r)) = length (tr_sessions r)"
  by (simp_all add: updateSession_def)

lemma updateSession_sessions: "tr_sessions (updateSession a f r) = (tr_sessions r)[a := f (tr_sessions r ! a)]"
  by (auto simp: updateSession_def list_update_beyond)

lemma updateSession_ok:
  "registryOk r \<Longrightarrow> (\<And>s. s = tr_sessions r ! a \<Longrightarrow> ts_ID (f s) = ts_ID s) \<Longrightarrow> registryOk (updateSession a f r)"
proof -
  assume ok: "registryOk r" and f: "\<And>s. s = tr_sessions r ! a \<Longrightarrow> ts_ID (f s) = ts_ID s"
  have "ts_ID ((tr_sessions r)[a := f (tr_sessions r ! a)] ! k) = ts_ID (tr_sessions r ! k)" if "k < length (tr_sessions r)" for k
    using that f by (cases "k = a") auto
  with ok show ?thesis by (simp add: registryOk_def updateSession_sessions)
qed

lemma alloc_ok:
  "registryOk r \<Longrightarrow> allocSession s r = (a, r') \<Longrightarrow>
     registryOk r' \<and> a = length (tr_sessions r) \<and> tr_sessions r' = tr_sessions r @ [s] \<and> tr_attempts r' = tr_attempts r \<and> tr_transfers r' = tr_transfers r"
  by (auto simp: registryOk_def allocSession_def nth_append less_Suc_eq)

lemma transfers_map_ok:
  "registryOk r \<Longrightarrow> a < length (tr_sessions r) \<Longrightarrow> ts_ID (tr_sessions r ! a) = i \<Longrightarrow> registryOk (r\<lparr>tr_transfers := mput i a (tr_transfers r)\<rparr>)"
  "registryOk r \<Longrightarrow> registryOk (r\<lparr>tr_transfers := mdel i (tr_transfers r)\<rparr>)"
  by (auto simp: registryOk_def)

lemma take_ok:
  assumes "registryOk r" "takeAttempt i r = (Some t, r')"
  shows "registryOk r'" "ta_ID t = i" "mset (map snd (tr_attempts r)) = add_mset t (mset (map snd (tr_attempts r')))"
    "tr_sessions r' = tr_sessions r"
proof -
  have r': "r' = r\<lparr>tr_attempts := mdel i (tr_attempts r)\<rparr>" and get: "mget (tr_attempts r) i = Some t"
    using assms(2) by (auto simp: takeAttempt_def)
  have wf: "mwf (tr_attempts r)" using assms(1) by (simp add: registryOk_def)
  show "mset (map snd (tr_attempts r)) = add_mset t (mset (map snd (tr_attempts r')))" "tr_sessions r' = tr_sessions r"
    using mset_mdel [OF wf get] by (simp_all add: r')
  show "registryOk r'" using assms(1) by (auto simp: r' registryOk_def AList.delete_eq)
  show "ta_ID t = i" using assms(1) map_of_SomeD [OF get] by (auto simp: registryOk_def)
qed

lemma register_ok:
  assumes "registryOk r" "ta_ID t \<notin> ta_ID ` snd ` set (tr_attempts r)"
  shows "registryOk (registerAttempt t r)" "map snd (tr_attempts (registerAttempt t r)) = map snd (tr_attempts r) @ [t]"
    "tr_sessions (registerAttempt t r) = tr_sessions r"
proof -
  have "mget (tr_attempts r) (ta_ID t) = None"
  proof (rule ccontr)
    assume "mget (tr_attempts r) (ta_ID t) \<noteq> None"
    then obtain u where "(ta_ID t, u) \<in> set (tr_attempts r)" by (auto dest: map_of_SomeD)
    then have "ta_ID u = ta_ID t" "u \<in> snd ` set (tr_attempts r)" using assms(1) by (auto simp: registryOk_def rev_image_eqI)
    then show False using assms(2) by (metis image_eqI)
  qed
  then have put: "mput (ta_ID t) t (tr_attempts r) = tr_attempts r @ [(ta_ID t, t)]" by (rule mput_new)
  have "mwf (mput (ta_ID t) t (tr_attempts r))" using assms(1) by (auto simp: registryOk_def)
  then show "registryOk (registerAttempt t r)" using assms(1) by (auto simp: registryOk_def registerAttempt_def put)
  show "map snd (tr_attempts (registerAttempt t r)) = map snd (tr_attempts r) @ [t]" "tr_sessions (registerAttempt t r) = tr_sessions r"
    by (simp_all add: registerAttempt_def put)
qed

lemma new_object_ok:
  assumes "transfersOk st" "allocSession s (xs_reg st) = (a, r)" "\<not> ts_active s"
  shows "transfersOk (st\<lparr>xs_reg := r\<rparr>)" "transfersOk (st\<lparr>xs_reg := r\<lparr>tr_transfers := mput (ts_ID s) a (tr_transfers r)\<rparr>\<rparr>)"
proof -
  note al = alloc_ok [OF _ assms(2)]
  show "transfersOk (st\<lparr>xs_reg := r\<rparr>)"
    using assms(1,3) al match_alloc by (auto simp: transfersOk_def liveAttempts_def)
  moreover have "a < length (tr_sessions r)" "ts_ID (tr_sessions r ! a) = ts_ID s" using assms(1) al by (auto simp: transfersOk_def)
  ultimately show "transfersOk (st\<lparr>xs_reg := r\<lparr>tr_transfers := mput (ts_ID s) a (tr_transfers r)\<rparr>\<rparr>)"
    by (auto simp: transfersOk_def liveAttempts_def intro: transfers_map_ok)
qed

lemma create_ok:
  assumes "transfersOk st" "TransferCreate newID h now hm ag job opn src pth ttl (xs_reg st) = (a, r)"
  shows "transfersOk (st\<lparr>xs_reg := r\<rparr>)"
  using assms(2) new_object_ok(2) [OF assms(1)] by (force simp: TransferCreate_def Let_def split: prod.splits)

lemma authorize_ok:
  assumes "transfersOk st" "Authorize now hash i tok opn (xs_reg st) = (res, r)"
  shows "transfersOk (st\<lparr>xs_reg := r\<rparr>)"
  using assms by (auto simp: Authorize_def TransferGet_def transfersOk_def liveAttempts_def transfers_map_ok(2) split: option.splits if_splits)

lemma restore_ok:
  assumes "transfersOk st" "restoreSession t (xs_reg st) = (a, r)"
  shows "transfersOk (st\<lparr>xs_reg := r\<rparr>)"
proof -
  obtain r' where al: "allocSession (sessionFromRecord t) (xs_reg st) = (a, r')" and r: "r = Restore a r'"
    using assms(2) by (auto simp: restoreSession_def split: prod.splits)
  have "tr_sessions r' ! a = sessionFromRecord t" "a < length (tr_sessions r')" using al by (auto simp: allocSession_def)
  then show ?thesis
    using new_object_ok [OF assms(1) al] by (auto simp: r Restore_def sessionFromRecord_def)
qed

lemma begin_ok:
  assumes ok: "transfersOk st" and a: "a < length (tr_sessions (xs_reg st))" and new: "newID \<notin> ta_ID ` set (liveAttempts st)"
    and b: "beginSession now newID off a (xs_reg st) = Inr (t, r)"
  shows "transfersOk (st\<lparr>xs_reg := r, xs_begun := t # xs_begun st\<rparr>)"
proof -
  obtain s where s: "sessionBeginAttempt now newID off (tr_sessions (xs_reg st) ! a) = Inr s"
    and t: "t = \<lparr>ta_ID = newID, ta_Session = a, ta_Offset = off\<rparr>" and r: "r = updateSession a (\<lambda>_. s) (xs_reg st)"
    using b by (auto simp: beginSession_def bindR_Inr_iff)
  note f = sessionBeginAttempt_Inr [OF s, of a]
  have "registryOk r" using ok f by (auto simp: r transfersOk_def sameLease_def intro!: updateSession_ok)
  moreover have "attemptsMatch ((tr_sessions (xs_reg st))[ta_Session t := s]) (t # liveAttempts st)"
    using ok f a new by (intro match_begin) (auto simp: transfersOk_def t)
  ultimately show ?thesis by (simp add: transfersOk_def liveAttempts_def r updateSession_sessions t)
qed

lemma registered_ok:
  assumes ok: "transfersOk st" and t: "t \<in> set (xs_begun st)"
  shows "transfersOk (st\<lparr>xs_reg := registerAttempt t (xs_reg st), xs_begun := remove1 t (xs_begun st)\<rparr>)" (is "transfersOk ?st")
proof -
  have "ta_ID t \<notin> ta_ID ` snd ` set (tr_attempts (xs_reg st))"
    using ok t by (auto simp: transfersOk_def attemptsMatch_def liveAttempts_def)
  note reg = register_ok [OF _ this]
  have ok': "registryOk (xs_reg st)" using ok by (simp add: transfersOk_def)
  have "mset (liveAttempts ?st) = mset (liveAttempts st)" using t by (simp add: liveAttempts_def reg [OF ok'])
  from match_mset [OF this] have "attemptsMatch (tr_sessions (xs_reg st)) (liveAttempts ?st)" using ok unfolding transfersOk_def by blast
  then show ?thesis using reg [OF ok'] by (simp add: transfersOk_def)
qed

lemma taken_ok:
  assumes ok: "transfersOk st" and t: "takeAttempt i (xs_reg st) = (Some t, r)"
  shows "transfersOk (st\<lparr>xs_reg := r, xs_taken := t # xs_taken st\<rparr>)" (is "transfersOk ?st")
proof -
  note tk = take_ok [OF _ t]
  have ok': "registryOk (xs_reg st)" using ok by (simp add: transfersOk_def)
  have "mset (liveAttempts ?st) = mset (liveAttempts st)" using tk(3) [OF ok'] by (simp add: liveAttempts_def)
  from match_mset [OF this] have "attemptsMatch (tr_sessions (xs_reg st)) (liveAttempts ?st)" using ok unfolding transfersOk_def by blast
  then show ?thesis using tk [OF ok'] by (simp add: transfersOk_def)
qed

lemma cleared_ok:
  assumes ok: "transfersOk st" and t: "t \<in> set (xs_taken st)"
  shows "transfersOk (st\<lparr>xs_reg := updateSession (ta_Session t) sessionEndAttempt (xs_reg st), xs_taken := remove1 t (xs_taken st)\<rparr>)" (is "transfersOk ?st")
proof -
  have live: "t \<in> set (liveAttempts st)" using t by (simp add: liveAttempts_def)
  have "mset (liveAttempts ?st) = mset (remove1 t (liveAttempts st))" using t by (simp add: liveAttempts_def)
  moreover have "attemptsMatch (tr_sessions (xs_reg ?st)) (remove1 t (liveAttempts st))"
    using match_clear [OF _ live] ok by (simp add: transfersOk_def updateSession_sessions)
  ultimately have "attemptsMatch (tr_sessions (xs_reg ?st)) (liveAttempts ?st)" using match_mset by blast
  moreover have "registryOk (xs_reg ?st)" using ok by (auto simp: transfersOk_def sessionEndAttempt_def intro!: updateSession_ok)
  ultimately show ?thesis by (simp add: transfersOk_def)
qed

lemma progress_ok:
  assumes ok: "transfersOk st" and f: "reportsProgress f"
  shows "transfersOk (st\<lparr>xs_reg := updateSession a f (xs_reg st)\<rparr>)"
proof -
  have "registryOk (updateSession a f (xs_reg st))"
    using ok f by (auto simp: transfersOk_def reportsProgress_def sameLease_def intro!: updateSession_ok)
  then show ?thesis using ok match_update [OF f] by (simp add: transfersOk_def liveAttempts_def updateSession_sessions)
qed

lemma transfer_step_ok: "transfer_step st st' \<Longrightarrow> transfersOk st \<Longrightarrow> transfersOk st'"
proof (induction rule: transfer_step.induct)
  case (tr_delete st i)
  then show ?case by (simp add: transfersOk_def TransferDelete_def liveAttempts_def transfers_map_ok(2))
qed (auto intro: create_ok authorize_ok restore_ok begin_ok registered_ok taken_ok cleared_ok progress_ok)

lemma no_transfers_ok: "no_transfers st \<Longrightarrow> transfersOk st"
  by (simp add: no_transfers_def transfersOk_def newTransferRegistry_def registryOk_def attemptsMatch_def liveAttempts_def)

interpretation transfers: invariant_system no_transfers transfer_step transfersOk
  by unfold_locales (auto intro: no_transfers_ok transfer_step_ok)

section \<open>What the registry promises\<close>

lemma match_filter:
  assumes m: "attemptsMatch ss l" and a: "a < length ss"
  shows "if ts_active (ss ! a) then \<exists>t. filter (\<lambda>t. ta_Session t = a) l = [t] \<and> attemptFits (ss ! a) t else filter (\<lambda>t. ta_Session t = a) l = []"
proof (cases "ts_active (ss ! a)")
  case True
  then obtain t where t: "t \<in> set l" "ta_Session t = a" using m a by (auto simp: attemptsMatch_def)
  obtain xs ys where l: "l = xs @ t # ys" using t(1) by (auto dest: split_list)
  have "distinct (map ta_Session l)" using m by (simp add: attemptsMatch_def)
  then have "filter (\<lambda>t. ta_Session t = a) xs = []" "filter (\<lambda>t. ta_Session t = a) ys = []"
    using t(2) by (auto simp: l filter_empty_conv) (metis image_eqI)+
  then show ?thesis using m t True by (auto simp: l attemptsMatch_def)
next
  case False
  then show ?thesis using m by (auto simp: filter_empty_conv attemptsMatch_def attemptFits_def IsAttempt_def)
qed

text \<open>C22: At every moment each session object is active exactly when one attempt on it is under way (begun, registered, or taken out and not yet cleared), that
  attempt carries the id the session remembers and its offset is not negative nor, for an upload, past what the session has received; attempts under way have
  distinct ids, and looking an attempt up gives the one with that id on a session that knows it.
\<close>

theorem transfer_attempts_exclusive:
  assumes "reachable no_transfers transfer_step st"
  shows "(\<forall>a<length (tr_sessions (xs_reg st)).
      if ts_active (tr_sessions (xs_reg st) ! a)
      then \<exists>t. filter (\<lambda>t. ta_Session t = a) (liveAttempts st) = [t] \<and> attemptFits (tr_sessions (xs_reg st) ! a) t
      else filter (\<lambda>t. ta_Session t = a) (liveAttempts st) = []) \<and>
    distinct (map ta_ID (liveAttempts st)) \<and>
    (\<forall>i t. GetAttempt (xs_reg st) i = Some t \<longrightarrow>
      ta_ID t = i \<and> ta_Session t < length (tr_sessions (xs_reg st)) \<and> IsAttempt i (tr_sessions (xs_reg st) ! ta_Session t))"
proof -
  have ok: "transfersOk st" by (rule transfers.reachable_inv [OF assms])
  then have m: "attemptsMatch (tr_sessions (xs_reg st)) (liveAttempts st)" by (simp add: transfersOk_def)
  have look: "ta_ID t = i \<and> ta_Session t < length (tr_sessions (xs_reg st)) \<and> IsAttempt i (tr_sessions (xs_reg st) ! ta_Session t)"
    if g: "GetAttempt (xs_reg st) i = Some t" for i t
  proof -
    have mem: "(i, t) \<in> set (tr_attempts (xs_reg st))" using g by (auto simp: GetAttempt_def dest: map_of_SomeD)
    then have "t \<in> set (liveAttempts st)" by (force simp: liveAttempts_def)
    moreover have "ta_ID t = i" using ok mem by (auto simp: transfersOk_def registryOk_def)
    ultimately show ?thesis using m by (auto simp: attemptsMatch_def attemptFits_def)
  qed
  have "distinct (map ta_ID (liveAttempts st))" using m by (simp add: attemptsMatch_def)
  then show ?thesis using match_filter [OF m] look by blast
qed

lemma update_sameLease:
  "reportsProgress f \<or> f = sessionEndAttempt \<Longrightarrow> a < length (tr_sessions r) \<Longrightarrow> sameLease (tr_sessions r ! a) (tr_sessions (updateSession b f r) ! a)"
  by (cases "a = b") (auto simp: updateSession_sessions reportsProgress_def)

lemma step_sameLease:
  "transfer_step st st' \<Longrightarrow> a < length (tr_sessions (xs_reg st)) \<Longrightarrow>
     a < length (tr_sessions (xs_reg st')) \<and> sameLease (tr_sessions (xs_reg st) ! a) (tr_sessions (xs_reg st') ! a)"
proof (induction rule: transfer_step.induct)
  case (tr_begin b st newID now off t r)
  then show ?case
    by (cases "a = b") (auto simp: beginSession_def bindR_Inr_iff updateSession_sessions dest: sessionBeginAttempt_Inr)
qed (auto simp: TransferCreate_def allocSession_def Let_def nth_append Authorize_def TransferGet_def restoreSession_def Restore_def TransferDelete_def
    registerAttempt_def takeAttempt_def update_sameLease split: option.splits if_splits)

text \<open>A session object never changes the transfer it stands for: along any run its id, home, agent, job, operation, source, path, token hash and times stay as
  they were when it was created or restored, and neither its received offset nor its count of attempts ever goes back.
\<close>

theorem transfer_lease_kept:
  assumes "transfer_step\<^sup>*\<^sup>* st st'" "a < length (tr_sessions (xs_reg st))"
  shows "a < length (tr_sessions (xs_reg st')) \<and> sameLease (tr_sessions (xs_reg st) ! a) (tr_sessions (xs_reg st') ! a)"
  using assms
proof (induction rule: rtranclp_induct)
  case (step y z)
  then show ?case using step_sameLease sameLease_trans by blast
qed simp

text \<open>C23: A transfer request is only served with a session of that transfer whose operation and token hash are those presented and that has not expired: either the
  session in memory, with the registry unchanged, or a new idle session made of the stored row when that row is neither failed nor expired, continuing at the
  bytes the row counts.
\<close>

theorem transfer_authorised:
  assumes "reachable no_transfers transfer_step st" "authorizeTransfer now hashToken db i tok opn (xs_reg st) = (Inr a, r')"
  shows "\<exists>s. a < length (tr_sessions r') \<and> s = tr_sessions r' ! a \<and> ts_ID s = i \<and> ts_Operation s = opn \<and> ts_TokenHash s = hashToken tok \<and> \<not> now > ts_ExpiresAt s \<and>
     (r' = xs_reg st \<and> mget (tr_transfers (xs_reg st)) i = Some a \<or>
      (\<exists>t. GetFileTransfer db i = Inr t \<and> ft_Status t \<notin> {''failed'', ''expired''} \<and> s = sessionFromRecord t \<and> \<not> ts_active s \<and> ts_nextOffset s = ft_BytesDone t))"
proof -
  let ?r = "xs_reg st"
  have ok: "registryOk ?r" using transfers.reachable_inv [OF assms(1)] by (simp add: transfersOk_def)
  show ?thesis
  proof (cases "fst (Authorize now hashToken i tok opn ?r)")
    case (Inr b)
    then have "b = a" "r' = ?r" "mget (tr_transfers ?r) i = Some a" "\<not> now > ts_ExpiresAt (tr_sessions ?r ! a)"
      "ts_Operation (tr_sessions ?r ! a) = opn" "ts_TokenHash (tr_sessions ?r ! a) = hashToken tok"
      using assms(2) by (auto simp: authorizeTransfer_def Authorize_def TransferGet_def split: option.splits if_splits)
    moreover have "a < length (tr_sessions ?r)" "ts_ID (tr_sessions ?r ! a) = i" using ok calculation(3) by (auto simp: registryOk_def)
    ultimately show ?thesis by blast
  next
    case (Inl e)
    then obtain r1 t where r1: "restoreSession t r1 = (a, r')" and t: "restorable now hashToken db i tok opn = Inr t"
      using assms(2) by (auto simp: authorizeTransfer_def Let_def split: prod.splits sum.splits)
    have s: "a < length (tr_sessions r')" "tr_sessions r' ! a = sessionFromRecord t"
      using r1 by (auto simp: restoreSession_def allocSession_def Restore_def split: if_splits)
    have row: "GetFileTransfer db i = Inr t" "ft_Operation t = opn" "ft_TokenHash t = hashToken tok" "ft_ExpiresAt t > now"
      "ft_Status t \<notin> {''failed'', ''expired''}"
      using t by (auto simp: restorable_def split: sum.splits if_splits)
    have "ft_ID t = i" using row(1) by (auto simp: GetFileTransfer_def find_Some_iff split: option.splits)
    then show ?thesis using s row by (auto simp: sessionFromRecord_def)
  qed
qed

text \<open>The session and the row that the setup of a transfer makes.\<close>

definition leaseSession :: "string \<Rightarrow> string \<Rightarrow> string \<Rightarrow> time \<Rightarrow> string \<Rightarrow> string \<Rightarrow> string \<Rightarrow> string \<Rightarrow> string \<Rightarrow> transferSession" where
  "leaseSession job i h now hm ag opn src pth =
     \<lparr>ts_ID = i, ts_HomeID = hm, ts_AgentID = ag, ts_JobID = job, ts_Operation = opn, ts_SourceID = src, ts_Path = pth, ts_TokenHash = h,
      ts_CreatedAt = now, ts_ExpiresAt = now + 600000000000, ts_size = 0, ts_nextOffset = 0, ts_lastError = None, ts_active = False, ts_attemptID = [],
      ts_resumeCount = 0, ts_completedAt = None\<rparr>"

definition leaseRow :: "string \<Rightarrow> transferSession \<Rightarrow> FileTransferRecord" where
  "leaseRow us s =
     \<lparr>ft_ID = ts_ID s, ft_TokenHash = ts_TokenHash s, ft_JobID = ts_JobID s, ft_HomeID = ts_HomeID s, ft_UserID = us, ft_AgentID = ts_AgentID s,
      ft_Operation = ts_Operation s, ft_SourceID = ts_SourceID s, ft_Path = ts_Path s, ft_Status = ''pending'', ft_BytesTotal = None, ft_BytesDone = 0,
      ft_CreatedAt = ts_CreatedAt s, ft_ExpiresAt = ts_ExpiresAt s, ft_CompletedAt = None\<rparr>"

lemma create_job_fields:
  "fd_transfers (tryUpdate (CreateFileOperationJob j db) db) = fd_transfers db" "fd_homes (tryUpdate (CreateFileOperationJob j db) db) = fd_homes db"
  "fd_users (tryUpdate (CreateFileOperationJob j db) db) = fd_users db"
  by (simp_all add: tryUpdate_def CreateFileOperationJob_def Let_def)

lemma create_transfer_fields:
  "fd_transfers (tryUpdate (CreateFileTransfer t db) db) \<in> {fd_transfers db, fd_transfers db @ [if ft_Status t = [] then t\<lparr>ft_Status := ''pending''\<rparr> else t]}"
  by (simp add: tryUpdate_def CreateFileTransfer_def Let_def)

lemma setupTransfer_facts:
  assumes "setupTransfer job i h now hm us ag opn src pth r db = (a, r', db')"
  defines "s \<equiv> leaseSession job i h now hm ag opn src pth"
  shows "a = length (tr_sessions r)" "tr_sessions r' = tr_sessions r @ [s]" "mget (tr_transfers r') i = Some a"
    "fd_transfers db' \<in> {fd_transfers db, fd_transfers db @ [leaseRow us s]}"
    "hm \<in> set (fd_homes db) \<Longrightarrow> us \<in> set (fd_users db) \<Longrightarrow> opn \<in> {''upload'', ''download''} \<Longrightarrow> i \<notin> ft_ID ` set (fd_transfers db) \<Longrightarrow>
      h \<notin> ft_TokenHash ` set (fd_transfers db) \<Longrightarrow> fd_transfers db' = fd_transfers db @ [leaseRow us s]"
proof -
  let ?j = "zeroJob\<lparr>fj_ID := job, fj_HomeID := hm, fj_UserID := us, fj_Operation := opn, fj_SourceID := src, fj_FromPath := pth, fj_Status := ''queued'',
    fj_CreatedAt := now, fj_UpdatedAt := now\<rparr>"
  define db1 where "db1 = tryUpdate (CreateFileOperationJob ?j db) db"
  have db1: "fd_transfers db1 = fd_transfers db" "fd_homes db1 = fd_homes db" "fd_users db1 = fd_users db"
    unfolding db1_def by (rule create_job_fields)+
  have r': "r' = r\<lparr>tr_sessions := tr_sessions r @ [s], tr_transfers := mput i a (tr_transfers r)\<rparr>" and a: "a = length (tr_sessions r)"
    and db': "db' = tryUpdate (CreateFileTransfer (leaseRow us s) db1) db1"
    using assms(1) by (auto simp: setupTransfer_def TransferCreate_def allocSession_def Let_def s_def leaseSession_def leaseRow_def db1_def)
  show "a = length (tr_sessions r)" by (rule a)
  show "tr_sessions r' = tr_sessions r @ [s]" "mget (tr_transfers r') i = Some a" by (simp_all add: r')
  show "fd_transfers db' \<in> {fd_transfers db, fd_transfers db @ [leaseRow us s]}"
    using create_transfer_fields [of "leaseRow us s" db1] by (simp add: db' db1 leaseRow_def)
  assume "hm \<in> set (fd_homes db)" "us \<in> set (fd_users db)" "opn \<in> {''upload'', ''download''}" "i \<notin> ft_ID ` set (fd_transfers db)"
    "h \<notin> ft_TokenHash ` set (fd_transfers db)"
  then have "CreateFileTransfer (leaseRow us s) db1 = Inr (db1\<lparr>fd_transfers := fd_transfers db1 @ [leaseRow us s]\<rparr>)"
    by (auto simp: CreateFileTransfer_def Let_def leaseRow_def s_def leaseSession_def db1 transferStatuses_def)
  then show "fd_transfers db' = fd_transfers db @ [leaseRow us s]" by (simp add: db' tryUpdate_def db1)
qed

lemma find_appended: "k \<notin> f ` set xs \<Longrightarrow> find (\<lambda>x. f x = k) (xs @ [y]) = (if f y = k then Some y else None)"
  by (induction xs) auto

lemma GetFileTransfer_lease:
  "i \<notin> ft_ID ` set ts \<Longrightarrow> fd_transfers db = ts \<Longrightarrow> GetFileTransfer db i = Inl ErrNotFound"
  "i \<notin> ft_ID ` set ts \<Longrightarrow> fd_transfers db = ts @ [t] \<Longrightarrow> ft_ID t = i \<Longrightarrow> GetFileTransfer db i = Inr t"
  by (auto simp: GetFileTransfer_def find_appended find_None_iff find_Some_iff split: option.splits)

text \<open>The token handed out by the setup of a transfer opens it: until the lease expires the transfer is authorised on the session that was created, and once its
  row was stored a server that starts afresh authorises it too, on a session that begins at offset zero. A request for the other operation or with a token of
  another hash is refused, also after a restart.
\<close>

theorem transfer_setup_roundtrip:
  assumes "setupTransfer job i (hashToken tok) now hm us ag opn src pth r db = (a, r', db')" "now' < now + 600000000000"
    and "i \<notin> ft_ID ` set (fd_transfers db)"
  shows "authorizeTransfer now' hashToken db' i tok opn r' = (Inr a, r') \<and>
    (hm \<in> set (fd_homes db) \<and> us \<in> set (fd_users db) \<and> opn \<in> {''upload'', ''download''} \<and> hashToken tok \<notin> ft_TokenHash ` set (fd_transfers db) \<longrightarrow>
      (\<exists>s. fst (authorizeTransfer now' hashToken db' i tok opn newTransferRegistry) = Inr 0 \<and>
        tr_sessions (snd (authorizeTransfer now' hashToken db' i tok opn newTransferRegistry)) = [s] \<and> ts_nextOffset s = 0 \<and> sameLease (tr_sessions r' ! a) s)) \<and>
    (\<forall>opn' tok'. opn' \<noteq> opn \<or> hashToken tok' \<noteq> hashToken tok \<longrightarrow>
      fst (authorizeTransfer now' hashToken db' i tok' opn' r') = Inl ErrTransferNotFound \<and>
      fst (authorizeTransfer now' hashToken db' i tok' opn' newTransferRegistry) = Inl ErrTransferNotFound)"
proof -
  let ?s = "leaseSession job i (hashToken tok) now hm ag opn src pth"
  note f = setupTransfer_facts [OF assms(1)]
  have s: "tr_sessions r' ! a = ?s" using f(1,2) by simp
  have live: "\<not> ts_ExpiresAt ?s < now'" "ts_Operation ?s = opn" "ts_TokenHash ?s = hashToken tok" using assms(2) by (simp_all add: leaseSession_def)
  have now: "authorizeTransfer now' hashToken db' i tok opn r' = (Inr a, r')"
    using live by (simp add: authorizeTransfer_def Authorize_def TransferGet_def f(3) s)
  have restart: "\<exists>s. fst (authorizeTransfer now' hashToken db' i tok opn newTransferRegistry) = Inr 0 \<and>
        tr_sessions (snd (authorizeTransfer now' hashToken db' i tok opn newTransferRegistry)) = [s] \<and> ts_nextOffset s = 0 \<and> sameLease (tr_sessions r' ! a) s"
    if "hm \<in> set (fd_homes db)" "us \<in> set (fd_users db)" "opn \<in> {''upload'', ''download''}" "hashToken tok \<notin> ft_TokenHash ` set (fd_transfers db)"
  proof -
    have "GetFileTransfer db' i = Inr (leaseRow us ?s)"
      using f(5) that assms(3) by (intro GetFileTransfer_lease(2)) (auto simp: leaseRow_def leaseSession_def)
    then have "restorable now' hashToken db' i tok opn = Inr (leaseRow us ?s)" using assms(2) by (simp add: restorable_def leaseRow_def leaseSession_def)
    then show ?thesis
      by (simp add: authorizeTransfer_def Authorize_def TransferGet_def newTransferRegistry_def restoreSession_def allocSession_def Restore_def s)
        (simp add: sessionFromRecord_def leaseRow_def leaseSession_def sameLease_def)
  qed
  have row: "GetFileTransfer db' i \<in> {Inl ErrNotFound, Inr (leaseRow us ?s)}"
    using f(4) GetFileTransfer_lease [OF assms(3), of db'] by (auto simp: leaseRow_def leaseSession_def)
  have refused: "fst (authorizeTransfer now' hashToken db' i tok' opn' r') = Inl ErrTransferNotFound \<and>
      fst (authorizeTransfer now' hashToken db' i tok' opn' newTransferRegistry) = Inl ErrTransferNotFound"
    if other: "opn' \<noteq> opn \<or> hashToken tok' \<noteq> hashToken tok" for opn' tok'
  proof -
    have "restorable now' hashToken db' i tok' opn' = Inl ErrTransferNotFound"
      using other row by (auto simp: restorable_def leaseRow_def leaseSession_def)
    then show ?thesis
      using other live by (auto simp: authorizeTransfer_def Authorize_def TransferGet_def newTransferRegistry_def f(3) s)
  qed
  from now restart refused show ?thesis by blast
qed

section \<open>Divergences\<close>

text \<open>
  One attempt at a time is kept per session object, not per transfer. After a restart two requests that both miss the registry each restore an object of their own
  from the row, and both attempts are accepted and registered.
\<close>

theorem restart_two_attempts:
  assumes "restorable now hashToken db i tok opn = Inr t" "0 \<le> ft_BytesDone t" "(case ft_BytesTotal t of None \<Rightarrow> True | Some n \<Rightarrow> 0 \<le> n)" "id1 \<noteq> id2"
    and "restoreSession t newTransferRegistry = (a1, r1)" "restoreSession t r1 = (a2, r2)"
  shows "fst (Authorize now hashToken i tok opn newTransferRegistry) = Inl ErrTransferNotFound \<and>
    (\<exists>t1 r3 t2 r4. BeginAttempt now id1 a1 0 r2 = Inr (t1, r3) \<and> BeginAttempt now id2 a2 0 r3 = Inr (t2, r4) \<and>
      GetAttempt r4 id1 = Some t1 \<and> GetAttempt r4 id2 = Some t2 \<and>
      ts_ID (tr_sessions r4 ! ta_Session t1) = i \<and> ts_ID (tr_sessions r4 ! ta_Session t2) = i)"
proof -
  let ?s = "sessionFromRecord t"
  have row: "ft_ExpiresAt t > now" "ft_ID t = i"
    using assms(1) by (auto simp: restorable_def GetFileTransfer_def find_Some_iff split: sum.splits option.splits if_splits)
  have r: "a1 = 0" "a2 = 1" "tr_sessions r2 = [?s, ?s]" "tr_attempts r2 = []"
    using assms(5,6) by (auto simp: restoreSession_def allocSession_def Restore_def newTransferRegistry_def)
  have "\<exists>s'. sessionBeginAttempt now j 0 ?s = Inr s' \<and> ts_ID s' = i" for j
    using row assms(2,3) by (auto simp: sessionBeginAttempt_def sessionFromRecord_def split: option.splits)
  then obtain s1 s2 where b: "sessionBeginAttempt now id1 0 ?s = Inr s1" "ts_ID s1 = i" "sessionBeginAttempt now id2 0 ?s = Inr s2" "ts_ID s2 = i" by meson
  have miss: "fst (Authorize now hashToken i tok opn newTransferRegistry) = Inl ErrTransferNotFound"
    by (simp add: Authorize_def TransferGet_def newTransferRegistry_def)
  show ?thesis using b assms(4) miss
    by (simp add: BeginAttempt_def beginSession_def registerAttempt_def GetAttempt_def updateSession_sessions r bindR_Inr_iff)
qed

text \<open>
  Nothing stops an attempt on a transfer that is complete, and marking it active writes its job without looking at the status: a job that was completed or
  cancelled is running again and loses its completion time.
\<close>

theorem reattempt_reopens_job:
  assumes "ts_JobID s \<noteq> []" "j \<in> set (fd_jobs (persistTransferStatus now s ''active'' db))" "fj_ID j = ts_JobID s"
  shows "fj_Status j = ''running'' \<and> fj_CompletedAt j = None"
proof -
  have st: "''running'' \<in> set jobStatuses" by (simp add: jobStatuses_def)
  define db1 where "db1 = tryUpdate (UpdateFileTransferProgress (ts_ID s) ''active'' (if ts_size s > 0 then Some (ts_size s) else None) (ts_nextOffset s) (ts_completedAt s) db) db"
  obtain db2 where u: "UpdateFileOperationJob now (ts_JobID s) ''running'' (ts_nextOffset s) 0 [] None db1 = Inr db2"
    using st by (auto simp: UpdateFileOperationJob_def updateJobs_def setJob_def list_ex_iff)
  have "persistTransferStatus now s ''active'' db = db2"
    using assms(1) u by (simp add: persistTransferStatus_def persistTransferJobStatus_def Progress_def db1_def Let_def tryUpdate_def)
  then show ?thesis using settled_after_update [OF u, of j now 0 0] assms(2,3) by (simp add: updateTotals_def)
qed

section \<open>Examples\<close>

definition exampleSession :: transferSession where
  "exampleSession = leaseSession ''j1'' ''x1'' ''#tok'' 5 ''h1'' ''ag1'' ''upload'' ''s1'' ''/a''"

definition exampleState :: transferState where
  "exampleState = \<lparr>xs_reg = \<lparr>tr_sessions = [exampleSession], tr_transfers = [(''x1'', 0)], tr_attempts = []\<rparr>, xs_begun = [], xs_taken = []\<rparr>"

definition busyState :: transferState where
  "busyState = exampleState\<lparr>
     xs_reg := (xs_reg exampleState)\<lparr>tr_sessions := [exampleSession\<lparr>ts_active := True, ts_attemptID := ''t1'', ts_resumeCount := 1\<rparr>]\<rparr>,
     xs_begun := [\<lparr>ta_ID = ''t1'', ta_Session = 0, ta_Offset = 0\<rparr>]\<rparr>"

lemmas example_defs = exampleState_def exampleSession_def busyState_def leaseSession_def

lemma example_reachable: "reachable no_transfers transfer_step exampleState"
proof -
  let ?st = "\<lparr>xs_reg = newTransferRegistry, xs_begun = [], xs_taken = []\<rparr>"
  have "TransferCreate ''x1'' ''#tok'' 5 ''h1'' ''ag1'' ''j1'' ''upload'' ''s1'' ''/a'' 600000000000 (xs_reg ?st) = (0, xs_reg exampleState)"
    by (simp add: TransferCreate_def allocSession_def newTransferRegistry_def example_defs)
  then have "transfer_step ?st (?st\<lparr>xs_reg := xs_reg exampleState\<rparr>)" by (rule tr_create)
  moreover have "?st\<lparr>xs_reg := xs_reg exampleState\<rparr> = exampleState" by (simp add: exampleState_def)
  ultimately have step: "transfer_step ?st exampleState" by simp
  have "reachable no_transfers transfer_step ?st" by (rule reach_init) (simp add: no_transfers_def)
  then show ?thesis using step by (rule reach_step)
qed

lemma busy_step: "transfer_step exampleState busyState"
proof -
  let ?t = "\<lparr>ta_ID = ''t1'', ta_Session = 0, ta_Offset = 0\<rparr>"
  have "beginSession 6 ''t1'' 0 0 (xs_reg exampleState) = Inr (?t, xs_reg busyState)"
    by (simp add: beginSession_def sessionBeginAttempt_def updateSession_def example_defs)
  then have "transfer_step exampleState (exampleState\<lparr>xs_reg := xs_reg busyState, xs_begun := ?t # xs_begun exampleState\<rparr>)"
    by (intro tr_begin) (simp_all add: exampleState_def liveAttempts_def)
  moreover have "exampleState\<lparr>xs_reg := xs_reg busyState, xs_begun := ?t # xs_begun exampleState\<rparr> = busyState" by (simp add: busyState_def exampleState_def)
  ultimately show ?thesis by simp
qed

theorem transfer_attempts_exclusive_witness:
  "reachable no_transfers transfer_step busyState \<and> (\<exists>t. filter (\<lambda>t. ta_Session t = 0) (liveAttempts busyState) = [t] \<and> ta_ID t = ''t1'')"
proof -
  have r: "reachable no_transfers transfer_step busyState" by (rule reach_step [OF example_reachable busy_step])
  have "0 < length (tr_sessions (xs_reg busyState))" "ts_active (tr_sessions (xs_reg busyState) ! 0)"
    "ts_attemptID (tr_sessions (xs_reg busyState) ! 0) = ''t1''" by (simp_all add: example_defs)
  moreover from this obtain t where "filter (\<lambda>t. ta_Session t = 0) (liveAttempts busyState) = [t]" "attemptFits (tr_sessions (xs_reg busyState) ! 0) t"
    using transfer_attempts_exclusive [OF r, THEN conjunct1, rule_format, of 0] by auto
  ultimately show ?thesis using r by (auto simp: attemptFits_def IsAttempt_def)
qed

theorem transfer_lease_kept_witness:
  "transfer_step\<^sup>*\<^sup>* exampleState busyState \<and> ts_TokenHash (tr_sessions (xs_reg busyState) ! 0) = ''#tok''"
proof -
  have run: "transfer_step\<^sup>*\<^sup>* exampleState busyState" using busy_step by blast
  have "0 < length (tr_sessions (xs_reg exampleState))" "ts_TokenHash (tr_sessions (xs_reg exampleState) ! 0) = ''#tok''" by (simp_all add: example_defs)
  then show ?thesis using transfer_lease_kept [OF run, of 0] run by (simp add: sameLease_def)
qed

theorem transfer_authorised_witness:
  "authorizeTransfer 6 (\<lambda>t. CHR ''#'' # t) \<lparr>fd_users = [], fd_homes = [], fd_jobs = [], fd_transfers = []\<rparr> ''x1'' ''tok'' ''upload'' (xs_reg exampleState) = (Inr 0, xs_reg exampleState)
    \<and> ts_Operation (tr_sessions (xs_reg exampleState) ! 0) = ''upload''"
proof -
  have a: "authorizeTransfer 6 (\<lambda>t. CHR ''#'' # t) \<lparr>fd_users = [], fd_homes = [], fd_jobs = [], fd_transfers = []\<rparr> ''x1'' ''tok'' ''upload'' (xs_reg exampleState) = (Inr 0, xs_reg exampleState)"
    by (simp add: authorizeTransfer_def Authorize_def TransferGet_def example_defs)
  from transfer_authorised [OF example_reachable a] a show ?thesis by auto
qed

theorem transfer_setup_roundtrip_witness:
  "\<exists>a r' db'. setupTransfer ''j1'' ''x1'' (CHR ''#'' # ''tok'') 5 ''h1'' ''u1'' ''ag1'' ''upload'' ''s1'' ''/a'' newTransferRegistry
      \<lparr>fd_users = [''u1''], fd_homes = [''h1''], fd_jobs = [], fd_transfers = []\<rparr> = (a, r', db') \<and>
    authorizeTransfer 6 (\<lambda>t. CHR ''#'' # t) db' ''x1'' ''tok'' ''upload'' r' = (Inr a, r') \<and>
    fst (authorizeTransfer 6 (\<lambda>t. CHR ''#'' # t) db' ''x1'' ''tok'' ''upload'' newTransferRegistry) = Inr 0 \<and>
    fst (authorizeTransfer 6 (\<lambda>t. CHR ''#'' # t) db' ''x1'' ''tok'' ''download'' newTransferRegistry) = Inl ErrTransferNotFound"
proof -
  let ?db = "\<lparr>fd_users = [''u1''], fd_homes = [''h1''], fd_jobs = [], fd_transfers = []\<rparr>"
  obtain a r' db' where s: "setupTransfer ''j1'' ''x1'' (CHR ''#'' # ''tok'') 5 ''h1'' ''u1'' ''ag1'' ''upload'' ''s1'' ''/a'' newTransferRegistry ?db = (a, r', db')"
    by (rule prod_cases3)
  have c: "(6 :: int) < 5 + 600000000000" "''x1'' \<notin> ft_ID ` set (fd_transfers ?db)" by simp_all
  from transfer_setup_roundtrip [of "''j1''" "''x1''" "\<lambda>t. CHR ''#'' # t" "''tok''", OF s c] s show ?thesis by auto
qed

end
