(* ===== verification/Base64.thy ===== *)
theory Base64
  imports Prelude
begin

text \<open>The standard base64 encoding of Go, in which the chunks of a transfer travel, and that decoding inverts encoding.\<close>

text \<open>\<open>base64.StdEncoding\<close>: groups of three bytes, padding; the decoder skips line ends and does not check unused bits.\<close>

definition base64Alphabet :: string where
  "base64Alphabet = ''ABCDEFGHIJKLMNOPQRSTUVWXYZabcdefghijklmnopqrstuvwxyz0123456789+/''"

definition sextet :: "nat \<Rightarrow> char" where "sextet n = base64Alphabet ! (n mod 64)"

definition padChar :: char where "padChar = CHR ''=''"

fun EncodeToString :: "bytes \<Rightarrow> string" where
  "EncodeToString [] = []"
| "EncodeToString [a] = [sextet (unat a div 4), sextet (unat a * 16), padChar, padChar]"
| "EncodeToString [a, b] = [sextet (unat a div 4), sextet (unat a * 16 + unat b div 16), sextet (unat b * 4), padChar]"
| "EncodeToString (a # b # c # rest) =
     sextet (unat a div 4) # sextet (unat a * 16 + unat b div 16) # sextet (unat b * 4 + unat c div 64) # sextet (unat c) # EncodeToString rest"

fun indexOf :: "char \<Rightarrow> string \<Rightarrow> nat option" where
  "indexOf c [] = None"
| "indexOf c (x # xs) = (if x = c then Some 0 else map_option Suc (indexOf c xs))"

definition sextetValue :: "char \<Rightarrow> nat option" where "sextetValue c = indexOf c base64Alphabet"

fun decodeQuads :: "string \<Rightarrow> bytes option" where
  "decodeQuads [] = Some []"
| "decodeQuads (p # q # r # s # rest) =
     (case (sextetValue p, sextetValue q) of
        (Some x, Some y) \<Rightarrow>
          if r = padChar \<and> s = padChar \<and> rest = [] then Some [of_nat (x * 4 + y div 16)]
          else (case sextetValue r of
             None \<Rightarrow> None
           | Some z \<Rightarrow>
             if s = padChar \<and> rest = [] then Some [of_nat (x * 4 + y div 16), of_nat (y * 16 + z div 4)]
             else (case sextetValue s of
                None \<Rightarrow> None
              | Some w \<Rightarrow> map_option (\<lambda>more. of_nat (x * 4 + y div 16) # of_nat (y * 16 + z div 4) # of_nat (z * 64 + w) # more) (decodeQuads rest)))
      | _ \<Rightarrow> None)"
| "decodeQuads _ = None"

definition DecodeString :: "string \<Rightarrow> bytes option" where
  "DecodeString s = decodeQuads (filter (\<lambda>c. (of_char c :: nat) \<noteq> 10 \<and> (of_char c :: nat) \<noteq> 13) s)"

lemma alphabet_length: "length base64Alphabet = 64"
  by (simp add: base64Alphabet_def)

lemma alphabet_values: "map sextetValue base64Alphabet = map Some [0..<64]"
  by code_simp

lemma sextetValue_sextet [simp]: "sextetValue (sextet n) = Some (n mod 64)"
proof -
  have "sextetValue (sextet n) = map sextetValue base64Alphabet ! (n mod 64)" by (simp add: sextet_def alphabet_length)
  then show ?thesis by (simp add: alphabet_values)
qed

lemma pad_no_value: "sextetValue padChar = None"
  by code_simp

lemma sextet_not_pad [simp]: "sextet n \<noteq> padChar"
  using pad_no_value sextetValue_sextet [of n] by (metis option.distinct(1))

lemma alphabet_no_newline: "list_all (\<lambda>c. (of_char c :: nat) \<noteq> 10 \<and> (of_char c :: nat) \<noteq> 13) (padChar # base64Alphabet)"
  by code_simp

lemma sextet_no_newline [simp]:
  "(of_char (sextet n) :: nat) \<noteq> 10 \<and> (of_char (sextet n) :: nat) \<noteq> 13" "(of_char padChar :: nat) \<noteq> 10 \<and> (of_char padChar :: nat) \<noteq> 13"
proof -
  have "sextet n \<in> set (padChar # base64Alphabet)" by (simp add: sextet_def alphabet_length)
  with alphabet_no_newline show "(of_char (sextet n) :: nat) \<noteq> 10 \<and> (of_char (sextet n) :: nat) \<noteq> 13" unfolding list_all_iff by blast
  from alphabet_no_newline show "(of_char padChar :: nat) \<noteq> 10 \<and> (of_char padChar :: nat) \<noteq> 13" unfolding list_all_iff by simp
qed

lemma encode_no_newline: "filter (\<lambda>c. (of_char c :: nat) \<noteq> 10 \<and> (of_char c :: nat) \<noteq> 13) (EncodeToString bs) = EncodeToString bs"
  by (induction bs rule: EncodeToString.induct) simp_all

lemma byte_less: "unat (a :: byte) < 256"
  using unat_lt2p [of a] by simp

lemma digits_mod: "y < k \<Longrightarrow> (x * k + y) mod (k * m) = (x mod m) * k + (y :: nat)"
  by (simp add: mod_mult2_eq)

lemma byte_wrap: "of_nat (256 * k + unat a) = (a :: byte)"
proof -
  have "of_nat (256 * k + unat a) = (of_nat 256 * of_nat k + of_nat (unat a) :: byte)" by (simp only: of_nat_add of_nat_mult)
  moreover have "(of_nat 256 :: byte) = 0" by code_simp
  ultimately show ?thesis by (simp only: mult_zero_left add_0_left of_nat_unat ucast_id)
qed

lemma sextets_first:
  assumes "y < 256"
  shows "of_nat (unat a div 4 mod 64 * 4 + (unat a * 16 + y div 16) mod 64 div 16) = (a :: byte)"
proof -
  have y: "y div 16 < 16" using assms by (simp add: div_less_iff_less_mult)
  have "(unat a * 16 + y div 16) mod 64 = unat a mod 4 * 16 + y div 16" using digits_mod [OF y, of "unat a" 4] by simp
  then have "(unat a * 16 + y div 16) mod 64 div 16 = unat a mod 4" using y by simp
  moreover have "unat a div 4 mod 64 = unat a div 4" using byte_less [of a] by (simp add: div_less_iff_less_mult)
  ultimately have "unat a div 4 mod 64 * 4 + (unat a * 16 + y div 16) mod 64 div 16 = 256 * 0 + unat a" by simp
  then show ?thesis using byte_wrap by metis
qed

lemma sextets_second:
  assumes "z < 256"
  shows "of_nat ((x * 16 + unat b div 16) mod 64 * 16 + (unat b * 4 + z div 64) mod 64 div 4) = (b :: byte)"
proof -
  have z: "z div 64 < 4" and b: "unat b div 16 < 16" using assms byte_less [of b] by (simp_all add: div_less_iff_less_mult)
  have "(unat b * 4 + z div 64) mod 64 div 4 = unat b mod 16" using digits_mod [OF z, of "unat b" 16] z by simp
  moreover have "(x * 16 + unat b div 16) mod 64 = x mod 4 * 16 + unat b div 16" using digits_mod [OF b, of x 4] by simp
  ultimately have "(x * 16 + unat b div 16) mod 64 * 16 + (unat b * 4 + z div 64) mod 64 div 4 = 256 * (x mod 4) + unat b"
    by (simp add: algebra_simps)
  then show ?thesis using byte_wrap by metis
qed

lemma sextets_third: "of_nat ((y * 4 + unat c div 64) mod 64 * 64 + unat c mod 64) = (c :: byte)"
proof -
  have c: "unat c div 64 < 4" using byte_less [of c] by (simp add: div_less_iff_less_mult)
  have "(y * 4 + unat c div 64) mod 64 = y mod 16 * 4 + unat c div 64" using digits_mod [OF c, of y 16] by simp
  then have "(y * 4 + unat c div 64) mod 64 * 64 + unat c mod 64 = 256 * (y mod 16) + unat c" by (simp add: algebra_simps)
  then show ?thesis using byte_wrap by metis
qed

lemma base64_roundtrip: "DecodeString (EncodeToString bs) = Some bs"
  unfolding DecodeString_def encode_no_newline
proof (induction bs rule: EncodeToString.induct)
  case (2 a)
  show ?case using sextets_first [of 0 a] by simp
next
  case (3 a b)
  show ?case using sextets_first [of "unat b" a] sextets_second [of 0 "unat a" b] byte_less [of b] by simp
next
  case (4 a b c rest)
  then show ?case
    using sextets_first [of "unat b" a] sextets_second [of "unat c" "unat a" b] sextets_third [of "unat b" c] byte_less [of b] byte_less [of c] by simp
qed simp

end
