(* ===== verification/Transfer_Stream.thy ===== *)
theory Transfer_Stream
  imports Transfers Base64 "HOL-Library.Sublist"
begin

text \<open>
  The data of a download on its way from the file of an agent (\<open>streamDownload\<close> of \<open>internal/agent/transfers.go\<close>) through the
  websocket loop of the server and the channels of an attempt to the HTTP response (\<open>handleFileTransfer\<close> and the
  \<open>handleTransfer\<close> functions of \<open>internal/cloud/server.go\<close>), as a transition system whose steps are the channel operations.
  Base64 is in \<open>Base64\<close>; JSON is not modelled: a message carries its payload or the text of the decoding error. A file is the bytes left to read
  and what the next reads do; the outcomes of writes to the network are arguments.
\<close>

section \<open>Messages of an agent\<close>

record FileTransferChunk =
  ck_Offset :: int
  ck_ContentBase64 :: string

text \<open>The four messages the websocket loop hands to the transfers: the error of the envelope, and the payload or why it cannot be decoded.\<close>

datatype agentMessage =
    TypeFileTransferReady "errorPayload option" "string + FileTransferReady"
  | TypeFileTransferData "string + FileTransferChunk"
  | TypeFileTransferComplete "errorPayload option" "string + FileTransferComplete"
  | TypeFileTransferError "errorPayload option"

record transferReadyResult =
  rr_Ready :: FileTransferReady
  rr_Error :: "errorPayload option"

record transferDataFrame =
  df_Offset :: int
  df_Data :: bytes
  df_Error :: "errorPayload option"

record transferCompleteResult =
  cc_Complete :: FileTransferComplete
  cc_Error :: "errorPayload option"

definition zeroReady :: FileTransferReady where
  "zeroReady = \<lparr>rd_Operation = [], rd_SourceID = [], rd_Path = [], rd_Offset = 0, rd_Size = 0\<rparr>"

definition zeroComplete :: FileTransferComplete where
  "zeroComplete = \<lparr>cp_Operation = [], cp_SourceID = [], cp_Path = [], cp_Offset = 0, cp_Size = 0\<rparr>"

text \<open>What a handler of the websocket loop sends to the channels of the attempt it looked up, in order.\<close>

datatype chanSend = ToReady transferReadyResult | ToData transferDataFrame | ToComplete transferCompleteResult

definition readyError :: "errorPayload \<Rightarrow> chanSend" where
  "readyError e = ToReady \<lparr>rr_Ready = zeroReady, rr_Error = Some e\<rparr>"

definition dataError :: "errorPayload \<Rightarrow> chanSend" where
  "dataError e = ToData \<lparr>df_Offset = 0, df_Data = [], df_Error = Some e\<rparr>"

definition completeError :: "errorPayload \<Rightarrow> chanSend" where
  "completeError e = ToComplete \<lparr>cc_Complete = zeroComplete, cc_Error = Some e\<rparr>"

definition handleTransferReady :: "errorPayload option \<Rightarrow> string + FileTransferReady \<Rightarrow> chanSend list" where
  "handleTransferReady err payload =
     (case err of
        Some e \<Rightarrow> [readyError e]
      | None \<Rightarrow> (case payload of
           Inl msg \<Rightarrow> [readyError (''invalid_transfer_ready'', msg)]
         | Inr ready \<Rightarrow> [ToReady \<lparr>rr_Ready = ready, rr_Error = None\<rparr>]))"

definition handleTransferData :: "(string \<Rightarrow> string) \<Rightarrow> string + FileTransferChunk \<Rightarrow> chanSend list" where
  "handleTransferData base64Error payload =
     (case payload of
        Inl msg \<Rightarrow> [dataError (''invalid_transfer_chunk'', msg)]
      | Inr chunk \<Rightarrow> (case DecodeString (ck_ContentBase64 chunk) of
           None \<Rightarrow> [dataError (''invalid_transfer_chunk'', base64Error (ck_ContentBase64 chunk))]
         | Some content \<Rightarrow> [ToData \<lparr>df_Offset = ck_Offset chunk, df_Data = content, df_Error = None\<rparr>]))"

definition handleTransferComplete :: "errorPayload option \<Rightarrow> string + FileTransferComplete \<Rightarrow> chanSend list" where
  "handleTransferComplete err payload =
     (case err of
        Some e \<Rightarrow> [completeError e]
      | None \<Rightarrow> (case payload of
           Inl msg \<Rightarrow> [completeError (''invalid_transfer_complete'', msg)]
         | Inr complete \<Rightarrow> [ToComplete \<lparr>cc_Complete = complete, cc_Error = None\<rparr>]))"

definition handleTransferError :: "errorPayload option \<Rightarrow> chanSend list" where
  "handleTransferError err =
     (let e = (case err of None \<Rightarrow> (''transfer_failed'', ''unknown transfer failure'') | Some e \<Rightarrow> e) in [readyError e, completeError e])"

definition transferSends :: "(string \<Rightarrow> string) \<Rightarrow> agentMessage \<Rightarrow> chanSend list" where
  "transferSends base64Error m =
     (case m of
        TypeFileTransferReady err payload \<Rightarrow> handleTransferReady err payload
      | TypeFileTransferData payload \<Rightarrow> handleTransferData base64Error payload
      | TypeFileTransferComplete err payload \<Rightarrow> handleTransferComplete err payload
      | TypeFileTransferError err \<Rightarrow> handleTransferError err)"

section \<open>The agent reads a file\<close>

text \<open>
  A reader: the bytes left, and for the next calls of \<open>Read\<close> how many bytes they return at most and with which error. After these calls a read fills its buffer.
  The end of the file is only reported when no byte is left.
\<close>

datatype readErr = ReadOK | ReadEOF | ReadFailed string

record reader =
  rd_rest :: bytes
  rd_script :: "(nat \<times> readErr) list"

definition readInto :: "nat \<Rightarrow> reader \<Rightarrow> bytes \<times> readErr \<times> reader" where
  "readInto k r =
     (case rd_script r of
        [] \<Rightarrow> (take k (rd_rest r), if rd_rest r = [] then ReadEOF else ReadOK, r\<lparr>rd_rest := drop k (rd_rest r)\<rparr>)
      | (n, e) # later \<Rightarrow>
        let n = min n k; rest = drop n (rd_rest r) in
        (take n (rd_rest r), if e = ReadEOF \<and> rest \<noteq> [] then ReadOK else e, \<lparr>rd_rest = rest, rd_script = later\<rparr>))"

definition transferChunkSize :: nat where "transferChunkSize = 32 * 1024"

definition readBufferSize :: "int \<Rightarrow> nat" where
  "readBufferSize remaining = (if remaining > 0 \<and> remaining < int transferChunkSize then nat remaining else transferChunkSize)"

lemma readInto_measure:
  "readInto k r = (chunk, e, r') \<Longrightarrow> 0 < k \<Longrightarrow> e \<noteq> ReadEOF \<Longrightarrow>
     length (rd_rest r') + length (rd_script r') < length (rd_rest r) + length (rd_script r)"
  by (cases "rd_script r") (auto simp: readInto_def Let_def split: if_splits prod.splits)

lemma readBufferSize_pos [simp]: "0 < readBufferSize n"
  by (simp add: readBufferSize_def transferChunkSize_def)

definition dataMessage :: "int \<Rightarrow> bytes \<Rightarrow> agentMessage" where
  "dataMessage off chunk = TypeFileTransferData (Inr \<lparr>ck_Offset = off, ck_ContentBase64 = EncodeToString chunk\<rparr>)"

definition transferError :: "string \<Rightarrow> string \<Rightarrow> agentMessage" where
  "transferError code msg = TypeFileTransferError (Some (code, msg))"

text \<open>
  The loop of \<open>streamDownload\<close>: the messages it writes and the offset it ends with, or none when it returned early. \<open>writes\<close> is the number of writes that
  succeed before the connection fails or the context is cancelled; \<open>errorSent\<close> tells whether the report of a failed read, which does not use the context, is written.
\<close>

function streamLoop :: "bool \<Rightarrow> int \<Rightarrow> int \<Rightarrow> int \<Rightarrow> nat \<Rightarrow> reader \<Rightarrow> agentMessage list \<times> (nat \<times> int) option" where
  "streamLoop errorSent len currentOffset remaining writes r =
     (if remaining = 0 \<and> len > 0 then ([], Some (writes, currentOffset))
      else
        let (chunk, e, r') = readInto (readBufferSize remaining) r; n = length chunk in
        if n > 0 \<and> writes = 0 then ([], None)
        else
          let sent = (if n > 0 then [dataMessage currentOffset chunk] else []);
              writes' = (if n > 0 then writes - 1 else writes);
              currentOffset' = currentOffset + int n;
              remaining' = (if n > 0 \<and> remaining > 0 then remaining - int n else remaining)
          in (case e of
                ReadEOF \<Rightarrow> (sent, Some (writes', currentOffset'))
              | ReadFailed msg \<Rightarrow> (sent @ (if errorSent then [transferError ''transfer_read_failed'' msg] else []), None)
              | ReadOK \<Rightarrow> (case streamLoop errorSent len currentOffset' remaining' writes' r' of (later, fin) \<Rightarrow> (sent @ later, fin))))"
  by pat_completeness auto
termination
proof (relation "measure (\<lambda>(es, len, cur, rem, w, r). length (rd_rest r) + length (rd_script r))", goal_cases)
  case (2 es len cur rem w r p chunk y e r')
  then show ?case using readInto_measure [of "readBufferSize rem" r chunk e r'] by auto
qed simp

declare streamLoop.simps [simp del]

definition streamDownload ::
    "bool \<Rightarrow> bool \<Rightarrow> string \<Rightarrow> string \<Rightarrow> int \<Rightarrow> int \<Rightarrow> int \<Rightarrow> nat \<Rightarrow> reader \<Rightarrow> agentMessage list" where
  "streamDownload errorSent cancelled sourceID path off totalSize len writes r =
     (case streamLoop errorSent len off len writes r of
        (sent, None) \<Rightarrow> sent
      | (sent, Some (writes', currentOffset)) \<Rightarrow>
        if cancelled \<or> writes' = 0 then sent
        else sent @ [TypeFileTransferComplete None (Inr \<lparr>cp_Operation = ''download'', cp_SourceID = sourceID, cp_Path = path, cp_Offset = currentOffset,
                       cp_Size = totalSize\<rparr>)])"

text \<open>Opening a download: what the source answers is an argument.\<close>

definition startDownloadTransfer ::
    "bool \<Rightarrow> (string + (reader \<times> int)) \<Rightarrow> bool \<Rightarrow> nat \<Rightarrow> string \<Rightarrow> string \<Rightarrow> int \<Rightarrow> int \<Rightarrow> agentMessage list" where
  "startDownloadTransfer errorSent opened cancelled writes sourceID path off len =
     (case opened of
        Inl msg \<Rightarrow> if writes = 0 then [] else [transferError ''transfer_open_failed'' msg]
      | Inr (file, fsize) \<Rightarrow>
        if writes = 0 then []
        else TypeFileTransferReady None (Inr \<lparr>rd_Operation = ''download'', rd_SourceID = sourceID, rd_Path = path, rd_Offset = off, rd_Size = fsize\<rparr>)
          # streamDownload errorSent cancelled sourceID path off fsize len (writes - 1) file)"

section \<open>The server answers a download\<close>

record attemptChans =
  ch_ready :: "transferReadyResult list"
  ch_data :: "transferDataFrame list"
  ch_complete :: "transferCompleteResult list"

definition newChans :: attemptChans where
  "newChans = \<lparr>ch_ready = [], ch_data = [], ch_complete = []\<rparr>"

text \<open>Sending to a buffered channel: no result while the buffer is full.\<close>

fun trySend :: "chanSend \<Rightarrow> attemptChans \<Rightarrow> attemptChans option" where
  "trySend (ToReady x) c = (if length (ch_ready c) < 1 then Some (c\<lparr>ch_ready := ch_ready c @ [x]\<rparr>) else None)"
| "trySend (ToData x) c = (if length (ch_data c) < 16 then Some (c\<lparr>ch_data := ch_data c @ [x]\<rparr>) else None)"
| "trySend (ToComplete x) c = (if length (ch_complete c) < 1 then Some (c\<lparr>ch_complete := ch_complete c @ [x]\<rparr>) else None)"

text \<open>How the handler ends: an HTTP error, or one of the returns of its loop.\<close>

datatype downloadEnd = HttpError nat string | ClientGone | FrameFailed errorPayload | WriteFailed | Completed | CompleteFailed errorPayload

datatype downloadPhase = WaitReady | Streaming FileTransferReady int "FileTransferComplete option" | Returned downloadEnd

text \<open>
  The download of one attempt: the messages that still have to arrive, what the websocket loop is about to send, the channels, whether the attempt is registered,
  the handler, the length it announced, the body it wrote, the session and the database, and the reasons of cancel messages to the agent.
\<close>

record downloadState =
  dl_inbox :: "agentMessage list"
  dl_loop :: "chanSend list"
  dl_chans :: attemptChans
  dl_registered :: bool
  dl_phase :: downloadPhase
  dl_length :: "int option"
  dl_written :: bytes
  dl_session :: transferSession
  dl_db :: filesDb
  dl_cancels :: "string list"

definition failDownload :: "time \<Rightarrow> errorPayload \<Rightarrow> downloadEnd \<Rightarrow> downloadState \<Rightarrow> downloadState" where
  "failDownload now e result st =
     (let s = Fail e (dl_session st) in st\<lparr>dl_session := s, dl_db := persistTransferStatus now s ''failed'' (dl_db st), dl_phase := Returned result\<rparr>)"

definition completeDownload :: "time \<Rightarrow> FileTransferComplete \<Rightarrow> downloadState \<Rightarrow> downloadState" where
  "completeDownload now d st =
     (let s = Complete now d (dl_session st) in st\<lparr>dl_session := s, dl_db := persistTransferStatus now s ''completed'' (dl_db st), dl_phase := Returned Completed\<rparr>)"

definition waitTransferReady :: "time \<Rightarrow> int \<Rightarrow> transferReadyResult \<Rightarrow> downloadState \<Rightarrow> downloadState" where
  "waitTransferReady now off x st =
     (case rr_Error x of
        Some e \<Rightarrow> failDownload now e (HttpError 502 (snd e)) st
      | None \<Rightarrow> st\<lparr>dl_session := MarkReady (rr_Ready x) (dl_session st), dl_phase := Streaming (rr_Ready x) off None,
          dl_length := (if rd_Size (rr_Ready x) - off \<ge> 0 then Some (rd_Size (rr_Ready x) - off) else None)\<rparr>)"

text \<open>One frame: \<open>failedAfter\<close> says after how many bytes the write to the client failed, if it did.\<close>

definition downloadFrame :: "time \<Rightarrow> nat option \<Rightarrow> transferDataFrame \<Rightarrow> downloadState \<Rightarrow> downloadState" where
  "downloadFrame now failedAfter frame st =
     (case dl_phase st of
        Streaming ready currentOffset pendingComplete \<Rightarrow>
          (case df_Error frame of
             Some e \<Rightarrow> failDownload now e (FrameFailed e) st
           | None \<Rightarrow>
             if df_Offset frame \<noteq> currentOffset
             then let e = (''transfer_offset_mismatch'', ''download stream offset mismatch'') in failDownload now e (FrameFailed e) st
             else if df_Data frame = [] then st
             else (case failedAfter of
                Some k \<Rightarrow> st\<lparr>dl_written := dl_written st @ take k (df_Data frame), dl_session := Advance currentOffset (rd_Size ready) (dl_session st),
                  dl_phase := Returned WriteFailed\<rparr>
              | None \<Rightarrow>
                let currentOffset' = currentOffset + int (length (df_Data frame));
                    st' = st\<lparr>dl_written := dl_written st @ df_Data frame, dl_session := Advance currentOffset' (rd_Size ready) (dl_session st)\<rparr>
                in (case pendingComplete of
                      Some d \<Rightarrow> if currentOffset' \<ge> cp_Offset d then completeDownload now d st'
                                else st'\<lparr>dl_phase := Streaming ready currentOffset' pendingComplete\<rparr>
                    | None \<Rightarrow> st'\<lparr>dl_phase := Streaming ready currentOffset' pendingComplete\<rparr>)))
      | _ \<Rightarrow> st)"

definition downloadComplete :: "time \<Rightarrow> transferCompleteResult \<Rightarrow> downloadState \<Rightarrow> downloadState" where
  "downloadComplete now x st =
     (case dl_phase st of
        Streaming ready currentOffset pendingComplete \<Rightarrow>
          (case cc_Error x of
             Some e \<Rightarrow> failDownload now e (CompleteFailed e) st
           | None \<Rightarrow>
             if currentOffset \<ge> cp_Offset (cc_Complete x) then completeDownload now (cc_Complete x) st
             else st\<lparr>dl_phase := Streaming ready currentOffset (Some (cc_Complete x))\<rparr>)
      | _ \<Rightarrow> st)"

definition downloadCancelled :: "string \<Rightarrow> downloadState \<Rightarrow> downloadState" where
  "downloadCancelled msg st =
     (case dl_phase st of
        WaitReady \<Rightarrow> st\<lparr>dl_phase := Returned (HttpError 504 msg)\<rparr>
      | Streaming ready currentOffset pendingComplete \<Rightarrow>
          st\<lparr>dl_cancels := dl_cancels st @ [''http_request_cancelled''], dl_session := Advance currentOffset (rd_Size ready) (dl_session st),
             dl_phase := Returned ClientGone\<rparr>
      | Returned result \<Rightarrow> st)"

text \<open>
  The steps that move a download forward: the websocket loop receives a message and looks the attempt up, or sends; the handler takes a result from a channel, or ends the attempt
  when it returns. Beside them the client may go away and a write to it may fail.
\<close>

inductive download_progress :: "(string \<Rightarrow> string) \<Rightarrow> int \<Rightarrow> downloadState \<Rightarrow> downloadState \<Rightarrow> bool"
  for b64 :: "string \<Rightarrow> string" and off :: int where
  loop_receive: "dl_loop st = [] \<Longrightarrow> dl_inbox st = m # ms \<Longrightarrow>
    download_progress b64 off st (st\<lparr>dl_inbox := ms, dl_loop := (if dl_registered st then transferSends b64 m else [])\<rparr>)"
| loop_send: "dl_loop st = x # xs \<Longrightarrow> trySend x (dl_chans st) = Some c \<Longrightarrow> download_progress b64 off st (st\<lparr>dl_loop := xs, dl_chans := c\<rparr>)"
| take_ready: "dl_phase st = WaitReady \<Longrightarrow> ch_ready (dl_chans st) = x # xs \<Longrightarrow>
    download_progress b64 off st (waitTransferReady now off x (st\<lparr>dl_chans := (dl_chans st)\<lparr>ch_ready := xs\<rparr>\<rparr>))"
| take_frame: "dl_phase st = Streaming rdy cur pc \<Longrightarrow> ch_data (dl_chans st) = x # xs \<Longrightarrow>
    download_progress b64 off st (downloadFrame now None x (st\<lparr>dl_chans := (dl_chans st)\<lparr>ch_data := xs\<rparr>\<rparr>))"
| take_complete: "dl_phase st = Streaming rdy cur pc \<Longrightarrow> ch_complete (dl_chans st) = x # xs \<Longrightarrow>
    download_progress b64 off st (downloadComplete now x (st\<lparr>dl_chans := (dl_chans st)\<lparr>ch_complete := xs\<rparr>\<rparr>))"
| end_attempt: "dl_phase st = Returned result \<Longrightarrow> dl_registered st \<Longrightarrow>
    download_progress b64 off st (st\<lparr>dl_registered := False, dl_session := sessionEndAttempt (dl_session st)\<rparr>)"

inductive download_step :: "(string \<Rightarrow> string) \<Rightarrow> int \<Rightarrow> downloadState \<Rightarrow> downloadState \<Rightarrow> bool"
  for b64 :: "string \<Rightarrow> string" and off :: int where
  progress: "download_progress b64 off st st' \<Longrightarrow> download_step b64 off st st'"
| client_gone: "\<forall>result. dl_phase st \<noteq> Returned result \<Longrightarrow> download_step b64 off st (downloadCancelled msg st)"
| write_fails: "dl_phase st = Streaming rdy cur pc \<Longrightarrow> ch_data (dl_chans st) = x # xs \<Longrightarrow>
    download_step b64 off st (downloadFrame now (Some k) x (st\<lparr>dl_chans := (dl_chans st)\<lparr>ch_data := xs\<rparr>\<rparr>))"

text \<open>A download begins with an attempt registered, its channels empty and the open message written.\<close>

definition downloadStart :: "transferSession \<Rightarrow> filesDb \<Rightarrow> agentMessage list \<Rightarrow> downloadState" where
  "downloadStart s db msgs =
     \<lparr>dl_inbox = msgs, dl_loop = [], dl_chans = newChans, dl_registered = True, dl_phase = WaitReady, dl_length = None, dl_written = [], dl_session = s,
      dl_db = db, dl_cancels = []\<rparr>"

section \<open>The messages of an agent as frames\<close>

fun framesAt :: "int \<Rightarrow> bytes list \<Rightarrow> transferDataFrame list" where
  "framesAt off [] = []"
| "framesAt off (d # ds) = \<lparr>df_Offset = off, df_Data = d, df_Error = None\<rparr> # framesAt (off + int (length d)) ds"

text \<open>The bytes a download of \<open>len\<close> bytes (or of everything, when no length is given) is about.\<close>

definition requested :: "int \<Rightarrow> bytes \<Rightarrow> bytes" where
  "requested len bs = (if len > 0 then take (nat len) bs else bs)"

text \<open>
  The sends an agent can cause: nothing, a failure, or the ready message, consecutive frames of a prefix of the wanted bytes, and then nothing, a failure, or the
  completion after all of them.
\<close>

definition streamTail :: "int \<Rightarrow> bytes \<Rightarrow> bytes list \<Rightarrow> chanSend list \<Rightarrow> bool" where
  "streamTail off W ds tail \<longleftrightarrow> tail = [] \<or> (\<exists>e. tail = [readyError e, completeError e]) \<or>
     (\<exists>c. tail = [ToComplete c] \<and> cc_Error c = None \<and> concat ds = W \<and> cp_Offset (cc_Complete c) = off + int (length W))"

definition agentStream :: "int \<Rightarrow> bytes \<Rightarrow> chanSend list \<Rightarrow> bool" where
  "agentStream off W S \<longleftrightarrow> S = [] \<or> (\<exists>e. S = [readyError e, completeError e]) \<or>
     (\<exists>r ds tail. S = ToReady r # map ToData (framesAt off ds) @ tail \<and> rr_Error r = None \<and> [] \<notin> set ds \<and> prefix (concat ds) W \<and> streamTail off W ds tail)"

lemma sends_dataMessage [simp]: "transferSends b64 (dataMessage off d) = [ToData \<lparr>df_Offset = off, df_Data = d, df_Error = None\<rparr>]"
  by (simp add: transferSends_def dataMessage_def handleTransferData_def base64_roundtrip)

lemma sends_transferError [simp]: "transferSends b64 (transferError code msg) = [readyError (code, msg), completeError (code, msg)]"
  by (simp add: transferSends_def transferError_def handleTransferError_def Let_def)

lemma sends_nonempty: "transferSends b64 m \<noteq> []"
  by (simp add: transferSends_def handleTransferReady_def handleTransferData_def handleTransferComplete_def handleTransferError_def Let_def
      split: agentMessage.split option.split sum.split)

abbreviation sendsOf :: "(string \<Rightarrow> string) \<Rightarrow> agentMessage list \<Rightarrow> chanSend list" where
  "sendsOf b64 ms \<equiv> concat (map (transferSends b64) ms)"

lemma readInto_split:
  "readInto k r = (chunk, e, r') \<Longrightarrow> rd_rest r = chunk @ rd_rest r' \<and> length chunk \<le> k \<and> (e = ReadEOF \<longrightarrow> rd_rest r' = [])"
  by (cases "rd_script r") (auto simp: readInto_def Let_def split: if_splits prod.splits)

lemma requested_append:
  assumes "len > 0 \<longrightarrow> int (length chunk) \<le> rem"
  shows "(if len > 0 then take (nat rem) (chunk @ rest) else chunk @ rest)
    = chunk @ (if len > 0 then take (nat (rem - int (length chunk))) rest else rest)"
  using assms by (auto simp: nat_diff_distrib)

text \<open>What the loop of the agent sends, for the part \<open>W\<close> of the file it still has to send.\<close>

definition loopSends :: "(string \<Rightarrow> string) \<Rightarrow> int \<Rightarrow> bytes \<Rightarrow> agentMessage list \<Rightarrow> (nat \<times> int) option \<Rightarrow> bool" where
  "loopSends b64 cur W ms fin \<longleftrightarrow>
     (\<exists>ds tail. sendsOf b64 ms = map ToData (framesAt cur ds) @ tail \<and> [] \<notin> set ds \<and> prefix (concat ds) W \<and>
       (tail = [] \<or> fin = None \<and> (\<exists>e. tail = [readyError e, completeError e])) \<and>
       (\<forall>w c. fin = Some (w, c) \<longrightarrow> concat ds = W \<and> c = cur + int (length W)))"

lemma loopSends_Cons:
  assumes "loopSends b64 (cur + int (length d)) W ms fin" "d \<noteq> []"
  shows "loopSends b64 cur (d @ W) (dataMessage cur d # ms) fin"
proof -
  obtain ds tail where h: "sendsOf b64 ms = map ToData (framesAt (cur + int (length d)) ds) @ tail" "[] \<notin> set ds" "prefix (concat ds) W"
      "tail = [] \<or> fin = None \<and> (\<exists>e. tail = [readyError e, completeError e])"
      "\<forall>w c. fin = Some (w, c) \<longrightarrow> concat ds = W \<and> c = cur + int (length d) + int (length W)"
    using assms(1) unfolding loopSends_def by blast
  show ?thesis unfolding loopSends_def
    by (rule exI [of _ "d # ds"], rule exI [of _ tail]) (use h assms(2) in auto)
qed

lemma loopSends_end:
  "loopSends b64 cur W [] None" "loopSends b64 cur [] [] (Some (w, cur))" "loopSends b64 cur W [transferError code msg] None"
  "d \<noteq> [] \<Longrightarrow> loopSends b64 cur (d @ W) [dataMessage cur d] None" "d \<noteq> [] \<Longrightarrow> loopSends b64 cur d [dataMessage cur d] (Some (w, cur + int (length d)))"
proof -
  show base: "loopSends b64 cur W [] None" "loopSends b64 cur [] [] (Some (w, cur))" "loopSends b64 cur W [transferError code msg] None" for cur W w code msg
    unfolding loopSends_def by (rule exI [of _ "[]"], fastforce)+
  show "d \<noteq> [] \<Longrightarrow> loopSends b64 cur (d @ W) [dataMessage cur d] None" by (rule loopSends_Cons [OF base(1)])
  show "d \<noteq> [] \<Longrightarrow> loopSends b64 cur d [dataMessage cur d] (Some (w, cur + int (length d)))"
    using loopSends_Cons [OF base(2), of d cur w] by simp
qed

lemma readBufferSize_le: "rem > 0 \<Longrightarrow> int (readBufferSize rem) \<le> rem"
  by (simp add: readBufferSize_def)

lemma streamLoop_step:
  assumes "\<not> (rem = 0 \<and> len > 0)" "readInto (readBufferSize rem) r = (chunk, e, r')"
  shows "streamLoop errorSent len cur rem w r =
    (if chunk \<noteq> [] \<and> w = 0 then ([], None)
     else let sent = (if chunk = [] then [] else [dataMessage cur chunk]);
              w' = (if chunk = [] then w else w - 1);
              rem' = (if chunk \<noteq> [] \<and> rem > 0 then rem - int (length chunk) else rem)
          in (case e of
                ReadEOF \<Rightarrow> (sent, Some (w', cur + int (length chunk)))
              | ReadFailed msg \<Rightarrow> (sent @ (if errorSent then [transferError ''transfer_read_failed'' msg] else []), None)
              | ReadOK \<Rightarrow> (case streamLoop errorSent len (cur + int (length chunk)) rem' w' r' of (later, fin) \<Rightarrow> (sent @ later, fin))))"
  unfolding streamLoop.simps [of errorSent len cur rem w r] if_not_P [OF assms(1)] assms(2) Let_def prod.case by (simp cong: if_cong)

lemma streamLoop_sends:
  assumes "streamLoop errorSent len cur rem writes r = (ms, fin)" "len > 0 \<longrightarrow> rem \<ge> 0" "\<not> len > 0 \<longrightarrow> rem \<le> 0"
  shows "loopSends b64 cur (if len > 0 then take (nat rem) (rd_rest r) else rd_rest r) ms fin"
  using assms
proof (induction "length (rd_rest r) + length (rd_script r)" arbitrary: cur rem writes r ms fin rule: less_induct)
  case (less r cur rem writes ms fin)
  let ?W = "\<lambda>rem rest. if len > 0 then take (nat rem) rest else rest"
  show ?case
  proof (cases "rem = 0 \<and> len > 0")
    case True
    then have "streamLoop errorSent len cur rem writes r = ([], Some (writes, cur))" by (subst streamLoop.simps) simp
    with True less.prems(1) show ?thesis using loopSends_end(2) by simp
  next
    case nz: False
    obtain chunk e r' where rd: "readInto (readBufferSize rem) r = (chunk, e, r')" by (rule prod_cases3)
    note sp = readInto_split [OF rd]
    have le: "len > 0 \<longrightarrow> int (length chunk) \<le> rem" using less.prems(2) nz sp readBufferSize_le [of rem] by fastforce
    define rem' where "rem' = (if chunk \<noteq> [] \<and> rem > 0 then rem - int (length chunk) else rem)"
    define w' where "w' = (if chunk = [] then writes else writes - 1)"
    define V where "V = ?W rem' (rd_rest r')"
    have W: "?W rem (rd_rest r) = chunk @ V" using requested_append [OF le, of "rd_rest r'"] sp le by (auto simp: V_def rem'_def)
    have rem': "len > 0 \<longrightarrow> rem' \<ge> 0" "\<not> len > 0 \<longrightarrow> rem' \<le> 0" using less.prems(2,3) le by (auto simp: rem'_def)
    have eof: "e = ReadEOF \<longrightarrow> V = []" using sp by (auto simp: V_def)
    obtain later f where rest: "streamLoop errorSent len (cur + int (length chunk)) rem' w' r' = (later, f)" by (cases "streamLoop errorSent len (cur + int (length chunk)) rem' w' r'")
    have IH: "loopSends b64 (cur + int (length chunk)) V later f" if "e = ReadOK"
      using less.hyps [OF readInto_measure [OF rd] rest rem'] that by (simp add: V_def)
    have run: "(if chunk \<noteq> [] \<and> writes = 0 then ([], None)
       else (case e of ReadEOF \<Rightarrow> ((if chunk = [] then [] else [dataMessage cur chunk]), Some (w', cur + int (length chunk)))
             | ReadFailed msg \<Rightarrow> ((if chunk = [] then [] else [dataMessage cur chunk]) @ (if errorSent then [transferError ''transfer_read_failed'' msg] else []), None)
             | ReadOK \<Rightarrow> ((if chunk = [] then [] else [dataMessage cur chunk]) @ later, f))) = (ms, fin)"
      using less.prems(1) unfolding streamLoop_step [OF nz rd, of errorSent cur writes, unfolded Let_def, folded rem'_def w'_def] rest prod.case .
    show ?thesis unfolding W
    proof (cases "chunk = []")
      case True
      then show "loopSends b64 cur (chunk @ V) ms fin" using run IH eof loopSends_end by (cases e) (auto split: if_splits)
    next
      case False
      have err: "loopSends b64 cur (chunk @ V) [dataMessage cur chunk, transferError code msg] None" for code msg
        by (rule loopSends_Cons [OF loopSends_end(3) False])
      show "loopSends b64 cur (chunk @ V) ms fin"
        using run False IH eof err loopSends_Cons [OF IH False] loopSends_end by (cases e) (auto split: if_splits)
    qed
  qed
qed

text \<open>The bytes a download is to deliver.\<close>

definition wanted :: "int \<Rightarrow> string + reader \<times> int \<Rightarrow> bytes" where
  "wanted len opened = (case opened of Inl msg \<Rightarrow> [] | Inr (f, fsize) \<Rightarrow> requested len (rd_rest f))"

lemma streamDownload_sends:
  "\<exists>ds tail. sendsOf b64 (streamDownload errorSent cancelled src pth off fsize len writes f) = map ToData (framesAt off ds) @ tail \<and> [] \<notin> set ds
     \<and> prefix (concat ds) (requested len (rd_rest f)) \<and> streamTail off (requested len (rd_rest f)) ds tail"
proof -
  obtain ms fin where run: "streamLoop errorSent len off len writes f = (ms, fin)" by (cases "streamLoop errorSent len off len writes f")
  define W where "W = requested len (rd_rest f)"
  have "loopSends b64 off W ms fin"
    using streamLoop_sends [OF run, of b64] by (simp add: W_def requested_def)
  then obtain ds tail where h: "sendsOf b64 ms = map ToData (framesAt off ds) @ tail" "[] \<notin> set ds" "prefix (concat ds) W"
      "tail = [] \<or> fin = None \<and> (\<exists>e. tail = [readyError e, completeError e])"
      "\<forall>w c. fin = Some (w, c) \<longrightarrow> concat ds = W \<and> c = off + int (length W)"
    unfolding loopSends_def by blast
  show ?thesis unfolding W_def [symmetric]
  proof (cases fin)
    case None
    then have "streamDownload errorSent cancelled src pth off fsize len writes f = ms" by (simp add: streamDownload_def run)
    then show "\<exists>ds tail. sendsOf b64 (streamDownload errorSent cancelled src pth off fsize len writes f) = map ToData (framesAt off ds) @ tail \<and> [] \<notin> set ds
      \<and> prefix (concat ds) W \<and> streamTail off W ds tail"
      using h(1-4) unfolding streamTail_def by metis
  next
    case (Some p)
    obtain w c where p: "p = (w, c)" by (cases p)
    let ?c = "\<lparr>cp_Operation = ''download'', cp_SourceID = src, cp_Path = pth, cp_Offset = c, cp_Size = fsize\<rparr>"
    have t: "tail = []" "concat ds = W" "c = off + int (length W)" using h(4,5) Some p by auto
    have msg: "transferSends b64 (TypeFileTransferComplete None (Inr ?c)) = [ToComplete \<lparr>cc_Complete = ?c, cc_Error = None\<rparr>]"
      by (simp add: transferSends_def handleTransferComplete_def)
    have "streamDownload errorSent cancelled src pth off fsize len writes f = (if cancelled \<or> w = 0 then ms else ms @ [TypeFileTransferComplete None (Inr ?c)])"
      by (simp add: streamDownload_def run Some p)
    then have "sendsOf b64 (streamDownload errorSent cancelled src pth off fsize len writes f)
        = map ToData (framesAt off ds) @ (if cancelled \<or> w = 0 then [] else [ToComplete \<lparr>cc_Complete = ?c, cc_Error = None\<rparr>])"
      using h(1) t(1) msg by simp
    moreover have "streamTail off W ds (if cancelled \<or> w = 0 then [] else [ToComplete \<lparr>cc_Complete = ?c, cc_Error = None\<rparr>])"
      using t by (simp add: streamTail_def)
    ultimately show "\<exists>ds tail. sendsOf b64 (streamDownload errorSent cancelled src pth off fsize len writes f) = map ToData (framesAt off ds) @ tail \<and> [] \<notin> set ds
      \<and> prefix (concat ds) W \<and> streamTail off W ds tail" using h(2,3) by blast
  qed
qed

lemma startDownload_stream: "agentStream off (wanted len opened) (sendsOf b64 (startDownloadTransfer errorSent opened cancelled writes src pth off len))"
proof (cases opened)
  case (Inl msg)
  then show ?thesis by (fastforce simp: startDownloadTransfer_def agentStream_def)
next
  case (Inr p)
  obtain f fsize where p: "p = (f, fsize)" by (cases p)
  obtain ds tail where h: "sendsOf b64 (streamDownload errorSent cancelled src pth off fsize len (writes - 1) f) = map ToData (framesAt off ds) @ tail" "[] \<notin> set ds"
      "prefix (concat ds) (requested len (rd_rest f))" "streamTail off (requested len (rd_rest f)) ds tail"
    using streamDownload_sends by blast
  let ?r = "\<lparr>rr_Ready = \<lparr>rd_Operation = ''download'', rd_SourceID = src, rd_Path = pth, rd_Offset = off, rd_Size = fsize\<rparr>, rr_Error = None\<rparr>"
  have "sendsOf b64 (startDownloadTransfer errorSent opened cancelled writes src pth off len) = (if writes = 0 then [] else ToReady ?r # map ToData (framesAt off ds) @ tail)"
    using h(1) by (simp add: startDownloadTransfer_def Inr p transferSends_def handleTransferReady_def)
  then show ?thesis using h(2-4) unfolding agentStream_def by (auto simp: wanted_def Inr p)
qed

section \<open>What the client receives\<close>

definition framesOf :: "chanSend list \<Rightarrow> transferDataFrame list" where
  "framesOf S = concat (map (\<lambda>x. case x of ToData f \<Rightarrow> [f] | _ \<Rightarrow> []) S)"

definition completesOf :: "chanSend list \<Rightarrow> transferCompleteResult list" where
  "completesOf S = concat (map (\<lambda>x. case x of ToComplete c \<Rightarrow> [c] | _ \<Rightarrow> []) S)"

definition pendingSends :: "(string \<Rightarrow> string) \<Rightarrow> downloadState \<Rightarrow> chanSend list" where
  "pendingSends b64 st = dl_loop st @ sendsOf b64 (dl_inbox st)"

definition framesLeft :: "(string \<Rightarrow> string) \<Rightarrow> downloadState \<Rightarrow> transferDataFrame list" where
  "framesLeft b64 st = ch_data (dl_chans st) @ framesOf (pendingSends b64 st)"

definition completesLeft :: "(string \<Rightarrow> string) \<Rightarrow> downloadState \<Rightarrow> transferCompleteResult list" where
  "completesLeft b64 st = ch_complete (dl_chans st) @ completesOf (pendingSends b64 st)"

text \<open>
  The state of a download of the bytes \<open>W\<close> from offset \<open>off\<close>: as long as the handler runs, what it wrote and the frames under way make a prefix of \<open>W\<close> in order, and
  a completion under way means that they make all of it.
\<close>

definition endsAt :: "int \<Rightarrow> bytes \<Rightarrow> bytes \<Rightarrow> FileTransferComplete \<Rightarrow> bool" where
  "endsAt off W all d \<longleftrightarrow> all = W \<and> cp_Offset d = off + int (length W)"

definition phaseOk :: "int \<Rightarrow> bytes \<Rightarrow> bytes \<Rightarrow> downloadState \<Rightarrow> bool" where
  "phaseOk off W all st \<longleftrightarrow>
     (case dl_phase st of
        WaitReady \<Rightarrow> dl_written st = []
      | Streaming rdy cur pc \<Rightarrow> cur = off + int (length (dl_written st)) \<and> (\<forall>d. pc = Some d \<longrightarrow> endsAt off W all d \<and> cur < cp_Offset d)
      | Returned x \<Rightarrow> False)"

definition runningOk :: "(string \<Rightarrow> string) \<Rightarrow> int \<Rightarrow> bytes \<Rightarrow> bytes list \<Rightarrow> downloadState \<Rightarrow> bool" where
  "runningOk b64 off W ds st \<longleftrightarrow> dl_registered st \<and> framesLeft b64 st = framesAt (off + int (length (dl_written st))) ds \<and> [] \<notin> set ds \<and>
     prefix (dl_written st @ concat ds) W \<and> phaseOk off W (dl_written st @ concat ds) st \<and>
     (\<forall>c\<in>set (completesLeft b64 st). cc_Error c = None \<longrightarrow> endsAt off W (dl_written st @ concat ds) (cc_Complete c))"

definition downloadOk :: "(string \<Rightarrow> string) \<Rightarrow> int \<Rightarrow> bytes \<Rightarrow> downloadState \<Rightarrow> bool" where
  "downloadOk b64 off W st \<longleftrightarrow>
     length (ch_ready (dl_chans st)) \<le> 1 \<and> length (ch_data (dl_chans st)) \<le> 16 \<and> length (ch_complete (dl_chans st)) \<le> 1 \<and>
     (case dl_phase st of
        Returned x \<Rightarrow> prefix (dl_written st) W \<and> (x = Completed \<longrightarrow> dl_written st = W)
      | _ \<Rightarrow> \<exists>ds. runningOk b64 off W ds st)"

lemma sends_split [simp]:
  "framesOf [] = []" "completesOf [] = []" "framesOf (x # S) = (case x of ToData f \<Rightarrow> [f] | _ \<Rightarrow> []) @ framesOf S"
  "completesOf (x # S) = (case x of ToComplete c \<Rightarrow> [c] | _ \<Rightarrow> []) @ completesOf S"
  "framesOf (S @ T) = framesOf S @ framesOf T" "completesOf (S @ T) = completesOf S @ completesOf T"
  "framesOf (map ToData fs) = fs" "completesOf (map ToData fs) = []"
  by (simp_all add: framesOf_def completesOf_def) (induction fs; simp)+

lemma errors_split [simp]: "framesOf [readyError e, completeError e] = []" "completesOf [readyError e, completeError e] = [\<lparr>cc_Complete = zeroComplete, cc_Error = Some e\<rparr>]"
  by (simp_all add: readyError_def completeError_def)

lemma prefix_same_length: "prefix xs ys \<Longrightarrow> length ys \<le> length xs \<Longrightarrow> xs = ys"
  by (metis append_eq_conv_conj le_antisym length_append prefixE prefix_length_le take_all)

text \<open>Moving sends along does not change what is under way.\<close>

lemma loop_keeps:
  assumes "dl_loop st = []" "dl_inbox st = m # ms" "dl_registered st"
  shows "pendingSends b64 (st\<lparr>dl_inbox := ms, dl_loop := transferSends b64 m\<rparr>) = pendingSends b64 st"
  using assms by (simp add: pendingSends_def)

lemma send_keeps:
  assumes "dl_loop st = x # xs" "trySend x (dl_chans st) = Some c"
  shows "framesLeft b64 (st\<lparr>dl_loop := xs, dl_chans := c\<rparr>) = framesLeft b64 st" "completesLeft b64 (st\<lparr>dl_loop := xs, dl_chans := c\<rparr>) = completesLeft b64 st"
  using assms by (cases x; auto simp: framesLeft_def completesLeft_def pendingSends_def split: if_splits)+

lemma send_bounds:
  "trySend x c = Some c' \<Longrightarrow> length (ch_ready c) \<le> 1 \<and> length (ch_data c) \<le> 16 \<and> length (ch_complete c) \<le> 1 \<Longrightarrow>
     length (ch_ready c') \<le> 1 \<and> length (ch_data c') \<le> 16 \<and> length (ch_complete c') \<le> 1"
  by (cases x) (auto split: if_splits)

lemma handler_keeps [simp]:
  "dl_chans (waitTransferReady now off x st) = dl_chans st" "dl_chans (downloadFrame now k f st) = dl_chans st" "dl_chans (downloadComplete now c st) = dl_chans st"
  "dl_chans (downloadCancelled msg st) = dl_chans st"
  "dl_loop (waitTransferReady now off x st) = dl_loop st" "dl_loop (downloadFrame now k f st) = dl_loop st" "dl_loop (downloadComplete now c st) = dl_loop st"
  "dl_inbox (waitTransferReady now off x st) = dl_inbox st" "dl_inbox (downloadFrame now k f st) = dl_inbox st" "dl_inbox (downloadComplete now c st) = dl_inbox st"
  "dl_registered (waitTransferReady now off x st) = dl_registered st" "dl_registered (downloadFrame now k f st) = dl_registered st"
  "dl_registered (downloadComplete now c st) = dl_registered st"
  by (simp_all add: waitTransferReady_def downloadFrame_def downloadComplete_def downloadCancelled_def failDownload_def completeDownload_def Let_def
      split: option.split downloadPhase.split)

lemma ready_ok:
  assumes ok: "downloadOk b64 off W st" and w: "dl_phase st = WaitReady" and x: "ch_ready (dl_chans st) = x # xs"
  shows "downloadOk b64 off W (waitTransferReady now off x (st\<lparr>dl_chans := (dl_chans st)\<lparr>ch_ready := xs\<rparr>\<rparr>))"
proof -
  obtain ds where r: "runningOk b64 off W ds st" using ok w by (auto simp: downloadOk_def)
  let ?st = "waitTransferReady now off x (st\<lparr>dl_chans := (dl_chans st)\<lparr>ch_ready := xs\<rparr>\<rparr>)"
  have wr: "dl_written st = []" using r w by (simp add: runningOk_def phaseOk_def)
  show ?thesis
  proof (cases "rr_Error x")
    case None
    then have "runningOk b64 off W ds ?st"
      using r wr by (simp add: runningOk_def phaseOk_def framesLeft_def completesLeft_def pendingSends_def waitTransferReady_def)
    then show ?thesis using ok x None by (auto simp: downloadOk_def waitTransferReady_def)
  next
    case (Some e)
    then show ?thesis using ok x wr by (auto simp: downloadOk_def waitTransferReady_def failDownload_def Let_def)
  qed
qed

lemma complete_ok:
  assumes ok: "downloadOk b64 off W st" and s: "dl_phase st = Streaming rdy cur pc" and x: "ch_complete (dl_chans st) = x # xs"
  shows "downloadOk b64 off W (downloadComplete now x (st\<lparr>dl_chans := (dl_chans st)\<lparr>ch_complete := xs\<rparr>\<rparr>))"
proof -
  obtain ds where r: "runningOk b64 off W ds st" using ok s by (auto simp: downloadOk_def)
  let ?st = "downloadComplete now x (st\<lparr>dl_chans := (dl_chans st)\<lparr>ch_complete := xs\<rparr>\<rparr>)"
  have pre: "prefix (dl_written st @ concat ds) W" "cur = off + int (length (dl_written st))" using r s by (simp_all add: runningOk_def phaseOk_def)
  then have pw: "prefix (dl_written st) W" by (meson prefix_def prefix_order.trans append_assoc)
  have q: "length (ch_ready (dl_chans st)) \<le> 1 \<and> length (ch_data (dl_chans st)) \<le> 16 \<and> length xs \<le> 1" using ok x by (auto simp: downloadOk_def)
  show ?thesis
  proof (cases "cc_Error x")
    case (Some e)
    then show ?thesis using q pw s by (simp add: downloadOk_def downloadComplete_def failDownload_def Let_def)
  next
    case None
    then have e: "endsAt off W (dl_written st @ concat ds) (cc_Complete x)" using r x by (simp add: runningOk_def completesLeft_def)
    show ?thesis
    proof (cases "cur \<ge> cp_Offset (cc_Complete x)")
      case True
      then have "dl_written st = W" using e pre pw by (intro prefix_same_length) (auto simp: endsAt_def)
      then show ?thesis using q True None s by (simp add: downloadOk_def downloadComplete_def completeDownload_def Let_def)
    next
      case False
      then have "runningOk b64 off W ds ?st"
        using r s x e None by (auto simp: runningOk_def phaseOk_def framesLeft_def completesLeft_def pendingSends_def downloadComplete_def)
      then show ?thesis using q False None s by (auto simp: downloadOk_def downloadComplete_def)
    qed
  qed
qed

text \<open>The next frame is the one the handler expects.\<close>

lemma next_frame:
  assumes r: "runningOk b64 off W ds st" and s: "dl_phase st = Streaming rdy cur pc" and x: "ch_data (dl_chans st) = x # xs"
  shows "\<exists>d ds'. ds = d # ds' \<and> d \<noteq> [] \<and> x = \<lparr>df_Offset = cur, df_Data = d, df_Error = None\<rparr> \<and>
    xs @ framesOf (pendingSends b64 st) = framesAt (cur + int (length d)) ds'"
proof -
  have "x # xs @ framesOf (pendingSends b64 st) = framesAt cur ds" "[] \<notin> set ds" using r s x by (simp_all add: runningOk_def phaseOk_def framesLeft_def)
  then show ?thesis by (cases ds) auto
qed

lemma frame_ok:
  assumes ok: "downloadOk b64 off W st" and s: "dl_phase st = Streaming rdy cur pc" and x: "ch_data (dl_chans st) = x # xs"
  shows "downloadOk b64 off W (downloadFrame now k x (st\<lparr>dl_chans := (dl_chans st)\<lparr>ch_data := xs\<rparr>\<rparr>))"
proof -
  obtain ds0 where r: "runningOk b64 off W ds0 st" using ok s by (auto simp: downloadOk_def)
  obtain d ds where ds: "ds0 = d # ds" and d: "d \<noteq> []" and xd: "x = \<lparr>df_Offset = cur, df_Data = d, df_Error = None\<rparr>"
    and left: "xs @ framesOf (pendingSends b64 st) = framesAt (cur + int (length d)) ds"
    using next_frame [OF r s x] by blast
  let ?st = "downloadFrame now k x (st\<lparr>dl_chans := (dl_chans st)\<lparr>ch_data := xs\<rparr>\<rparr>)"
  have q: "length (ch_ready (dl_chans st)) \<le> 1 \<and> length xs \<le> 16 \<and> length (ch_complete (dl_chans st)) \<le> 1" using ok x by (auto simp: downloadOk_def)
  have cur: "cur = off + int (length (dl_written st))" and pre: "prefix (dl_written st @ d @ concat ds) W" and ne: "[] \<notin> set ds"
    and pc: "\<And>d'. pc = Some d' \<Longrightarrow> endsAt off W (dl_written st @ d @ concat ds) d'"
    and cs: "\<forall>c\<in>set (completesLeft b64 st). cc_Error c = None \<longrightarrow> endsAt off W (dl_written st @ d @ concat ds) (cc_Complete c)"
    using r s by (simp_all add: runningOk_def phaseOk_def ds)
  have pw: "prefix (dl_written st @ take n d) W" for n
    using pre by (metis append_assoc append_take_drop_id prefix_def)
  have running: "downloadOk b64 off W ?st" if "k = None" "\<And>d'. pc = Some d' \<Longrightarrow> cur + int (length d) < cp_Offset d'"
  proof -
    have st: "?st = st\<lparr>dl_chans := (dl_chans st)\<lparr>ch_data := xs\<rparr>, dl_written := dl_written st @ d,
        dl_session := Advance (cur + int (length d)) (rd_Size rdy) (dl_session st), dl_phase := Streaming rdy (cur + int (length d)) pc\<rparr>"
    proof (cases pc)
      case None
      then show ?thesis using that(1) s d by (simp add: downloadFrame_def xd Let_def)
    next
      case (Some d')
      then have "\<not> cp_Offset d' \<le> cur + int (length d)" using that(2) by force
      then show ?thesis using that(1) s d Some by (simp add: downloadFrame_def xd Let_def)
    qed
    have "runningOk b64 off W ds ?st" unfolding st
      using r left ne pre pc cs cur that(2) by (simp add: runningOk_def phaseOk_def framesLeft_def completesLeft_def pendingSends_def add.assoc)
    then show ?thesis using q by (auto simp: downloadOk_def st)
  qed
  show ?thesis
  proof (cases k)
    case (Some n)
    then show ?thesis using q s d pw by (simp add: downloadOk_def downloadFrame_def xd)
  next
    case None
    show ?thesis
    proof (cases "\<exists>d'. pc = Some d' \<and> cur + int (length d) \<ge> cp_Offset d'")
      case True
      then obtain d' where d': "pc = Some d'" "cur + int (length d) \<ge> cp_Offset d'" by blast
      then have "dl_written st @ d = W" using pc [OF d'(1)] pw [of "length d"] cur by (intro prefix_same_length) (auto simp: endsAt_def)
      then show ?thesis using q s d d' None by (simp add: downloadOk_def downloadFrame_def xd completeDownload_def Let_def)
    next
      case False
      then show ?thesis using running [OF None] by force
    qed
  qed
qed

lemma running_prefix: "downloadOk b64 off W st \<Longrightarrow> prefix (dl_written st) W"
  by (cases "dl_phase st") (auto simp: downloadOk_def runningOk_def dest: append_prefixD)

lemma cancel_ok: "downloadOk b64 off W st \<Longrightarrow> downloadOk b64 off W (downloadCancelled msg st)"
  using running_prefix [of b64 off W st]
  by (cases "dl_phase st") (auto simp: downloadOk_def downloadCancelled_def)

lemma loop_ok:
  assumes ok: "downloadOk b64 off W st"
    and keep: "dl_phase st' = dl_phase st" "dl_written st' = dl_written st"
    and q: "length (ch_ready (dl_chans st')) \<le> 1 \<and> length (ch_data (dl_chans st')) \<le> 16 \<and> length (ch_complete (dl_chans st')) \<le> 1"
    and run: "dl_registered st \<Longrightarrow> dl_registered st' \<and> framesLeft b64 st' = framesLeft b64 st \<and> completesLeft b64 st' = completesLeft b64 st"
  shows "downloadOk b64 off W st'"
proof -
  have "runningOk b64 off W ds st'" if "runningOk b64 off W ds st" for ds
    using that keep run by (simp add: runningOk_def phaseOk_def split: downloadPhase.splits)
  then show ?thesis using ok q keep by (cases "dl_phase st") (auto simp: downloadOk_def)
qed

lemma progress_download_ok: "download_progress b64 off st st' \<Longrightarrow> downloadOk b64 off W st \<Longrightarrow> downloadOk b64 off W st'"
proof (induction rule: download_progress.induct)
  case (loop_receive st m ms)
  then show ?case
    by (intro loop_ok [OF loop_receive(3)]) (auto simp: downloadOk_def framesLeft_def completesLeft_def pendingSends_def)
next
  case (loop_send st x xs c)
  have "length (ch_ready c) \<le> 1 \<and> length (ch_data c) \<le> 16 \<and> length (ch_complete c) \<le> 1"
    using send_bounds [OF loop_send(2)] loop_send(3) by (simp add: downloadOk_def)
  then show ?case using send_keeps [OF loop_send(1,2)] by (intro loop_ok [OF loop_send(3)]) simp_all
next
  case (end_attempt st result)
  then show ?case by (simp add: downloadOk_def)
qed (simp_all add: ready_ok frame_ok complete_ok)

lemma download_step_ok: "download_step b64 off st st' \<Longrightarrow> downloadOk b64 off W st \<Longrightarrow> downloadOk b64 off W st'"
  by (induction rule: download_step.induct) (simp_all add: progress_download_ok cancel_ok frame_ok)

definition downloadBegins :: "(string \<Rightarrow> string) \<Rightarrow> int \<Rightarrow> bytes \<Rightarrow> downloadState \<Rightarrow> bool" where
  "downloadBegins b64 off W st \<longleftrightarrow> (\<exists>s db msgs. st = downloadStart s db msgs \<and> agentStream off W (sendsOf b64 msgs))"

lemma agentStream_frames:
  assumes "agentStream off W S"
  shows "\<exists>ds. framesOf S = framesAt off ds \<and> [] \<notin> set ds \<and> prefix (concat ds) W \<and>
      (\<forall>c\<in>set (completesOf S). cc_Error c = None \<longrightarrow> endsAt off W (concat ds) (cc_Complete c))"
  using assms unfolding agentStream_def
proof (elim disjE exE conjE)
  fix r ds tail
  assume "S = ToReady r # map ToData (framesAt off ds) @ tail" "[] \<notin> set ds" "prefix (concat ds) W" "streamTail off W ds tail"
  then show ?thesis by (intro exI [of _ ds]) (auto simp: streamTail_def endsAt_def readyError_def completeError_def)
qed (intro exI [of _ "[]"], simp add: readyError_def completeError_def)+

lemma download_begins_ok: "downloadBegins b64 off W st \<Longrightarrow> downloadOk b64 off W st"
  using agentStream_frames
  by (fastforce simp: downloadBegins_def downloadStart_def downloadOk_def runningOk_def phaseOk_def framesLeft_def completesLeft_def pendingSends_def newChans_def)

interpretation download: invariant_system "downloadBegins b64 off W" "download_step b64 off" "downloadOk b64 off W"
  for b64 off W
  by unfold_locales (auto intro: download_begins_ok download_step_ok)

section \<open>Undisturbed downloads complete\<close>

text \<open>The shape of an undisturbed download: exactly one completion without error is on its way or waits for the last frame.\<close>

definition oneCompletion :: "transferCompleteResult list \<Rightarrow> bool" where
  "oneCompletion l \<longleftrightarrow> (\<exists>c. l = [c] \<and> cc_Error c = None)"

definition completionDue :: "FileTransferComplete option \<Rightarrow> transferCompleteResult list \<Rightarrow> bool" where
  "completionDue pc l \<longleftrightarrow> (if pc = None then oneCompletion l else l = [])"

definition streamLeft :: "transferDataFrame list \<Rightarrow> transferCompleteResult list \<Rightarrow> chanSend list" where
  "streamLeft fs cs = map ToData fs @ map ToComplete cs"

definition undisturbed :: "(string \<Rightarrow> string) \<Rightarrow> downloadState \<Rightarrow> bool" where
  "undisturbed b64 st \<longleftrightarrow>
     (case dl_phase st of
        WaitReady \<Rightarrow> (\<exists>r fs cs. rr_Error r = None \<and> oneCompletion (ch_complete (dl_chans st) @ cs) \<and>
          (ch_ready (dl_chans st) = [] \<and> pendingSends b64 st = ToReady r # streamLeft fs cs \<or>
           ch_ready (dl_chans st) = [r] \<and> pendingSends b64 st = streamLeft fs cs))
      | Streaming rdy cur pc \<Rightarrow> ch_ready (dl_chans st) = [] \<and> (\<exists>fs cs. pendingSends b64 st = streamLeft fs cs \<and>
          completionDue pc (ch_complete (dl_chans st) @ cs))
      | Returned x \<Rightarrow> x = Completed \<and> dl_loop st = [] \<and> dl_inbox st = [])"

lemma streamLeft_Cons:
  "streamLeft fs cs = x # S \<longleftrightarrow> (\<exists>f fs'. fs = f # fs' \<and> x = ToData f \<and> S = streamLeft fs' cs) \<or> (\<exists>c cs'. fs = [] \<and> cs = c # cs' \<and> x = ToComplete c \<and> S = streamLeft [] cs')"
  by (cases fs; cases cs) (auto simp: streamLeft_def)

lemma streamLeft_split [simp]: "framesOf (streamLeft fs cs) = fs" "streamLeft [] [] = []"
proof -
  have "framesOf (map ToComplete cs) = []" by (induction cs) simp_all
  then show "framesOf (streamLeft fs cs) = fs" by (simp add: streamLeft_def)
qed (simp add: streamLeft_def)

lemma pending_empty: "pendingSends b64 st = [] \<longleftrightarrow> dl_loop st = [] \<and> dl_inbox st = []"
  using sends_nonempty by (cases "dl_inbox st") (auto simp: pendingSends_def)

lemma nothing_left:
  assumes "framesAt o' ds = xs @ framesOf P" "[] \<notin> set ds" "prefix (W @ concat ds) W"
  shows "xs = [] \<and> framesOf P = []"
proof -
  have "length (W @ concat ds) \<le> length W" using assms(3) by (rule prefix_length_le)
  then have "concat ds = []" by simp
  then have "ds = []" using assms(2) by (cases ds) auto
  then show ?thesis using assms(1) by simp
qed

lemma undisturbed_running:
  assumes "undisturbed b64 st" "downloadOk b64 off W st" "dl_phase st \<noteq> Returned Completed"
  shows "dl_registered st" "\<exists>ds. runningOk b64 off W ds st"
  using assms by (auto simp: undisturbed_def downloadOk_def runningOk_def split: downloadPhase.splits)

lemma undisturbed_receive:
  assumes u: "undisturbed b64 st" and ok: "downloadOk b64 off W st" and e: "dl_loop st = []" "dl_inbox st = m # ms"
  shows "undisturbed b64 (st\<lparr>dl_inbox := ms, dl_loop := (if dl_registered st then transferSends b64 m else [])\<rparr>)"
proof -
  have n: "dl_phase st \<noteq> Returned x" for x using u e by (auto simp: undisturbed_def)
  then have r: "dl_registered st" using undisturbed_running(1) [OF u ok] by blast
  then show ?thesis using u loop_keeps [OF e r, of b64] n by (simp add: undisturbed_def split: downloadPhase.splits)
qed

lemma undisturbed_send:
  assumes u: "undisturbed b64 st" and l: "dl_loop st = x # xs" and c: "trySend x (dl_chans st) = Some c"
  shows "undisturbed b64 (st\<lparr>dl_loop := xs, dl_chans := c\<rparr>)" (is "undisturbed b64 ?st")
proof -
  define P where "P = pendingSends b64 ?st"
  have p: "pendingSends b64 st = x # P" using l by (simp add: pendingSends_def P_def)
  show ?thesis
  proof (cases "dl_phase st")
    case WaitReady
    then obtain r fs cs where h: "rr_Error r = None" "oneCompletion (ch_complete (dl_chans st) @ cs)"
        "ch_ready (dl_chans st) = [] \<and> x # P = ToReady r # streamLeft fs cs \<or> ch_ready (dl_chans st) = [r] \<and> x # P = streamLeft fs cs"
      using u p by (auto simp: undisturbed_def)
    from h(3) consider "ch_ready (dl_chans st) = []" "x = ToReady r" "P = streamLeft fs cs"
      | f fs' where "ch_ready (dl_chans st) = [r]" "x = ToData f" "P = streamLeft fs' cs"
      | d cs' where "ch_ready (dl_chans st) = [r]" "x = ToComplete d" "P = streamLeft [] cs'" "cs = d # cs'"
      by (auto simp: streamLeft_Cons [symmetric] eq_commute [of "x # P"] streamLeft_Cons)
    then show ?thesis
    proof cases
      case 1
      then have "c = (dl_chans st)\<lparr>ch_ready := [r]\<rparr>" using c by (simp split: if_splits)
      then show ?thesis using WaitReady 1 h(1,2) P_def by (auto simp: undisturbed_def)
    next
      case 2
      then have "ch_ready c = [r]" "ch_complete c = ch_complete (dl_chans st)" using c by (auto split: if_splits)
      then show ?thesis using WaitReady 2 h(1,2) P_def by (auto simp: undisturbed_def)
    next
      case 3
      then have "ch_ready c = [r]" "ch_complete c = ch_complete (dl_chans st) @ [d]" using c by (auto split: if_splits)
      moreover have "oneCompletion ((ch_complete (dl_chans st) @ [d]) @ cs')" using h(2) 3 by simp
      ultimately show ?thesis using WaitReady 3 h(1) P_def by (auto simp: undisturbed_def)
    qed
  next
    case (Streaming rdy cur pc)
    then obtain fs cs where h: "ch_ready (dl_chans st) = []" "streamLeft fs cs = x # P"
        "completionDue pc (ch_complete (dl_chans st) @ cs)"
      using u p by (auto simp: undisturbed_def)
    from h(2) consider f fs' where "x = ToData f" "P = streamLeft fs' cs" | d cs' where "x = ToComplete d" "P = streamLeft [] cs'" "cs = d # cs'"
      by (auto simp: streamLeft_Cons)
    then show ?thesis
    proof cases
      case 1
      then have "ch_ready c = []" "ch_complete c = ch_complete (dl_chans st)" using c h(1) by (auto split: if_splits)
      then show ?thesis using Streaming 1 h(3) P_def by (auto simp: undisturbed_def)
    next
      case 2
      then have "ch_ready c = []" "ch_complete c = ch_complete (dl_chans st) @ [d]" using c h(1) by (auto split: if_splits)
      moreover have "completionDue pc ((ch_complete (dl_chans st) @ [d]) @ cs')" using h(3) 2 by simp
      ultimately show ?thesis using Streaming 2 P_def by (auto simp: undisturbed_def)
    qed
  next
    case (Returned y)
    then show ?thesis using u l by (simp add: undisturbed_def)
  qed
qed

lemma undisturbed_ready:
  assumes u: "undisturbed b64 st" and w: "dl_phase st = WaitReady" and x: "ch_ready (dl_chans st) = x # xs"
  shows "undisturbed b64 (waitTransferReady now off x (st\<lparr>dl_chans := (dl_chans st)\<lparr>ch_ready := xs\<rparr>\<rparr>))"
proof -
  obtain fs cs where h: "rr_Error x = None" "xs = []" "oneCompletion (ch_complete (dl_chans st) @ cs)" "pendingSends b64 st = streamLeft fs cs"
    using u w x by (auto simp: undisturbed_def)
  have "completionDue None (ch_complete (dl_chans st) @ cs)" using h(3) by (simp add: completionDue_def)
  then show ?thesis using h(1,2,4) by (auto simp: undisturbed_def waitTransferReady_def pendingSends_def)
qed

text \<open>A handler that has written everything and has the completion leaves nothing under way.\<close>

lemma undisturbed_end:
  assumes r: "framesAt o' ds = xs @ framesOf (pendingSends b64 st)" "[] \<notin> set ds" "prefix (W @ concat ds) W" and p: "pendingSends b64 st = streamLeft fs []"
  shows "dl_loop st = [] \<and> dl_inbox st = []"
proof -
  have "framesOf (pendingSends b64 st) = []" using nothing_left [OF r] by blast
  then show ?thesis using p pending_empty [of b64 st] by simp
qed

lemma undisturbed_frame:
  assumes u: "undisturbed b64 st" and ok: "downloadOk b64 off W st" and s: "dl_phase st = Streaming rdy cur pc" and x: "ch_data (dl_chans st) = x # xs"
  shows "undisturbed b64 (downloadFrame now None x (st\<lparr>dl_chans := (dl_chans st)\<lparr>ch_data := xs\<rparr>\<rparr>))" (is "undisturbed b64 ?st")
proof -
  obtain ds0 where r: "runningOk b64 off W ds0 st" using undisturbed_running(2) [OF u ok] s by auto
  obtain d ds where ds: "ds0 = d # ds" and d: "d \<noteq> []" and xd: "x = \<lparr>df_Offset = cur, df_Data = d, df_Error = None\<rparr>"
    and left: "xs @ framesOf (pendingSends b64 st) = framesAt (cur + int (length d)) ds"
    using next_frame [OF r s x] by blast
  obtain fs cs where h: "ch_ready (dl_chans st) = []" "pendingSends b64 st = streamLeft fs cs" "completionDue pc (ch_complete (dl_chans st) @ cs)"
    using u s by (auto simp: undisturbed_def)
  show ?thesis
  proof (cases "\<exists>d'. pc = Some d' \<and> cur + int (length d) \<ge> cp_Offset d'")
    case True
    then obtain d' where d': "pc = Some d'" "cur + int (length d) \<ge> cp_Offset d'" by blast
    then have over: "dl_phase ?st = Returned Completed" using s d by (simp add: downloadFrame_def xd completeDownload_def Let_def)
    then have "dl_written ?st = W" using frame_ok [OF ok s x, of now None] by (simp add: downloadOk_def)
    then have W: "dl_written st @ d = W" using s d d' by (simp add: downloadFrame_def xd completeDownload_def Let_def)
    have "cs = []" using h(3) d'(1) by (simp add: completionDue_def)
    moreover have "prefix (W @ concat ds) W" "[] \<notin> set ds" using r W [symmetric] by (simp_all add: runningOk_def ds)
    ultimately have "dl_loop st = [] \<and> dl_inbox st = []" using left [symmetric] h(2) by (intro undisturbed_end) auto
    then show ?thesis using over by (simp add: undisturbed_def)
  next
    case False
    then have "dl_phase ?st = Streaming rdy (cur + int (length d)) pc"
      using s d by (cases pc) (auto simp: downloadFrame_def xd Let_def)
    then show ?thesis using h by (auto simp: undisturbed_def pendingSends_def)
  qed
qed

lemma undisturbed_complete:
  assumes u: "undisturbed b64 st" and ok: "downloadOk b64 off W st" and s: "dl_phase st = Streaming rdy cur pc" and x: "ch_complete (dl_chans st) = x # xs"
  shows "undisturbed b64 (downloadComplete now x (st\<lparr>dl_chans := (dl_chans st)\<lparr>ch_complete := xs\<rparr>\<rparr>))" (is "undisturbed b64 ?st")
proof -
  obtain fs cs where h: "ch_ready (dl_chans st) = []" "pendingSends b64 st = streamLeft fs cs" "completionDue pc (x # xs @ cs)"
    using u s x by (auto simp: undisturbed_def)
  then have c: "cc_Error x = None" "xs = []" "cs = []" "pc = None" by (auto simp: completionDue_def oneCompletion_def split: if_splits)
  obtain ds where r: "runningOk b64 off W ds st" using undisturbed_running(2) [OF u ok] s by auto
  show ?thesis
  proof (cases "cur \<ge> cp_Offset (cc_Complete x)")
    case True
    then have over: "dl_phase ?st = Returned Completed" "dl_written ?st = dl_written st"
      using s c by (simp_all add: downloadComplete_def completeDownload_def Let_def)
    then have W: "dl_written st = W" using complete_ok [OF ok s x, of now] by (simp add: downloadOk_def)
    then have "dl_loop st = [] \<and> dl_inbox st = []"
      using r h(2) c(3) by (intro undisturbed_end [of "off + int (length W)" ds "ch_data (dl_chans st)" b64 st W fs]) (auto simp: runningOk_def framesLeft_def)
    then show ?thesis using over by (simp add: undisturbed_def)
  next
    case False
    then have "dl_phase ?st = Streaming rdy cur (Some (cc_Complete x))" using s c by (simp add: downloadComplete_def)
    then show ?thesis using h(1,2) c by (auto simp: undisturbed_def pendingSends_def completionDue_def)
  qed
qed

lemma progress_undisturbed:
  "download_progress b64 off st st' \<Longrightarrow> undisturbed b64 st \<Longrightarrow> downloadOk b64 off W st \<Longrightarrow> undisturbed b64 st'"
proof (induction rule: download_progress.induct)
  case (end_attempt st result)
  then show ?case by (simp add: undisturbed_def)
qed (simp_all add: undisturbed_receive undisturbed_send undisturbed_ready undisturbed_frame undisturbed_complete)

text \<open>An undisturbed download is never stuck before it is over.\<close>

lemma pending_step:
  assumes "pendingSends b64 st = x # S" "\<And>l. dl_loop st = x # l \<Longrightarrow> trySend x (dl_chans st) \<noteq> None"
  shows "\<exists>st'. download_progress b64 off st st'"
proof (cases "dl_loop st")
  case Nil
  then have "dl_inbox st \<noteq> []" using assms(1) by (auto simp: pendingSends_def)
  then show ?thesis using Nil by (cases "dl_inbox st") (auto intro: loop_receive)
next
  case (Cons y l)
  then have "y = x" using assms(1) by (simp add: pendingSends_def)
  then show ?thesis using assms(2) Cons by (auto intro: loop_send)
qed

lemma undisturbed_progress:
  assumes u: "undisturbed b64 st" and ok: "downloadOk b64 off W st" and going: "dl_phase st \<noteq> Returned Completed \<or> dl_registered st"
  shows "\<exists>st'. download_progress b64 off st st'"
proof (cases "dl_phase st")
  case (Returned x)
  then show ?thesis using u going by (auto simp: undisturbed_def intro: end_attempt)
next
  case WaitReady
  show ?thesis
  proof (cases "ch_ready (dl_chans st)")
    case Nil
    then obtain r S where "pendingSends b64 st = ToReady r # S" using u WaitReady by (auto simp: undisturbed_def)
    then show ?thesis by (rule pending_step) (simp add: Nil)
  qed (use WaitReady take_ready in blast)
next
  case (Streaming rdy cur pc)
  show ?thesis
  proof (cases "ch_data (dl_chans st) = [] \<and> ch_complete (dl_chans st) = []")
    case False
    then show ?thesis using Streaming take_frame take_complete by (meson neq_Nil_conv)
  next
    case True
    obtain fs cs where h: "pendingSends b64 st = streamLeft fs cs" "completionDue pc cs" using u Streaming True by (auto simp: undisturbed_def)
    have "pendingSends b64 st \<noteq> []"
    proof
      assume "pendingSends b64 st = []"
      then have e: "fs = []" "cs = []" "framesLeft b64 st = []" using h(1) True by (auto simp: streamLeft_def framesLeft_def)
      obtain d where d: "pc = Some d" using h(2) e(2) by (auto simp: completionDue_def oneCompletion_def split: if_splits)
      obtain ds where r: "runningOk b64 off W ds st" using undisturbed_running(2) [OF u ok] Streaming by auto
      have "ds = []" using r e(3) by (cases ds) (auto simp: runningOk_def)
      then show False using r d Streaming by (auto simp: runningOk_def phaseOk_def endsAt_def)
    qed
    then obtain x S where p: "pendingSends b64 st = x # S" by (cases "pendingSends b64 st") auto
    then have "streamLeft fs cs = x # S" using h(1) by simp
    then have "trySend x (dl_chans st) \<noteq> None" using True by (auto simp: streamLeft_Cons)
    then show ?thesis using pending_step [OF p] by blast
  qed
qed

text \<open>The work left in a download, which every step of it decreases.\<close>

definition workLeft :: "(string \<Rightarrow> string) \<Rightarrow> downloadState \<Rightarrow> nat" where
  "workLeft b64 st = sum_list (map (\<lambda>m. 1 + 2 * length (transferSends b64 m)) (dl_inbox st)) + 2 * length (dl_loop st) + length (ch_ready (dl_chans st))
     + length (ch_data (dl_chans st)) + length (ch_complete (dl_chans st)) + (if dl_registered st then 1 else 0)"

lemma progress_decreases: "download_progress b64 off st st' \<Longrightarrow> workLeft b64 st' < workLeft b64 st"
proof (induction rule: download_progress.induct)
  case (loop_send st x xs c)
  then show ?case by (cases x) (auto simp: workLeft_def split: if_splits)
qed (auto simp: workLeft_def)

section \<open>Downloads end to end\<close>

lemma download_run_ok:
  assumes "(download_step b64 off)\<^sup>*\<^sup>* (downloadStart s db (startDownloadTransfer errorSent opened cancelled writes src pth off len)) st"
  shows "downloadOk b64 off (wanted len opened) st"
proof -
  have "downloadBegins b64 off (wanted len opened) (downloadStart s db (startDownloadTransfer errorSent opened cancelled writes src pth off len))"
    unfolding downloadBegins_def using startDownload_stream by blast
  with assms have "reachable (downloadBegins b64 off (wanted len opened)) (download_step b64 off) st"
    by (induction rule: rtranclp_induct) (auto intro: reach_init reach_step)
  then show ?thesis by (rule download.reachable_inv)
qed

definition noReadFailure :: "reader \<Rightarrow> bool" where
  "noReadFailure f \<longleftrightarrow> list_all (\<lambda>(n, e). e = ReadOK \<or> e = ReadEOF) (rd_script f)"

lemma readInto_noFailure:
  "readInto k r = (chunk, e, r') \<Longrightarrow> noReadFailure r \<Longrightarrow> (e = ReadOK \<or> e = ReadEOF) \<and> noReadFailure r'"
  by (cases "rd_script r") (auto simp: readInto_def noReadFailure_def Let_def split: if_splits prod.splits)

lemma streamLoop_finishes:
  assumes "noReadFailure r" "length (rd_rest r) < writes"
  shows "\<exists>ms w c. streamLoop errorSent len cur rem writes r = (ms, Some (w, c)) \<and> 0 < w"
  using assms
proof (induction "length (rd_rest r) + length (rd_script r)" arbitrary: cur rem writes r rule: less_induct)
  case (less r cur rem writes)
  show ?case
  proof (cases "rem = 0 \<and> len > 0")
    case True
    then show ?thesis using less.prems(2) by (subst streamLoop.simps) simp
  next
    case nz: False
    obtain chunk e r' where rd: "readInto (readBufferSize rem) r = (chunk, e, r')" by (rule prod_cases3)
    define rem' where "rem' = (if chunk \<noteq> [] \<and> rem > 0 then rem - int (length chunk) else rem)"
    define w' where "w' = (if chunk = [] then writes else writes - 1)"
    have w': "length (rd_rest r') < w'" "\<not> (chunk \<noteq> [] \<and> writes = 0)" using less.prems(2) readInto_split [OF rd] by (cases chunk; auto simp: w'_def)+
    note nf = readInto_noFailure [OF rd less.prems(1)]
    note step = streamLoop_step [OF nz rd, of errorSent cur writes, unfolded Let_def, folded rem'_def w'_def]
    show ?thesis
    proof (cases "e = ReadEOF")
      case True
      then show ?thesis using w' step by auto
    next
      case False
      then obtain ms w c where "streamLoop errorSent len (cur + int (length chunk)) rem' w' r' = (ms, Some (w, c))" "0 < w"
        using less.hyps [OF readInto_measure [OF rd], of w' "cur + int (length chunk)" rem'] nf w'(1) by auto
      then show ?thesis using w'(2) step nf False by auto
    qed
  qed
qed

lemma full_stream_undisturbed:
  assumes "noReadFailure f" "length (rd_rest f) + 1 < writes"
  shows "undisturbed b64 (downloadStart s db (startDownloadTransfer errorSent (Inr (f, fsize)) False writes src pth off len))"
proof -
  obtain ms w c where run: "streamLoop errorSent len off len (writes - 1) f = (ms, Some (w, c))" "0 < w"
  proof -
    have "length (rd_rest f) < writes - 1" using assms(2) by simp
    from streamLoop_finishes [OF assms(1) this, of errorSent len off len] show ?thesis using that by blast
  qed
  have "loopSends b64 off (requested len (rd_rest f)) ms (Some (w, c))"
    using streamLoop_sends [OF run(1), of b64] by (simp add: requested_def)
  then obtain ds where ms: "sendsOf b64 ms = map ToData (framesAt off ds)" unfolding loopSends_def by auto
  let ?c = "\<lparr>cc_Complete = \<lparr>cp_Operation = ''download'', cp_SourceID = src, cp_Path = pth, cp_Offset = c, cp_Size = fsize\<rparr>, cc_Error = None\<rparr>"
  let ?r = "\<lparr>rr_Ready = \<lparr>rd_Operation = ''download'', rd_SourceID = src, rd_Path = pth, rd_Offset = off, rd_Size = fsize\<rparr>, rr_Error = None\<rparr>"
  have "sendsOf b64 (startDownloadTransfer errorSent (Inr (f, fsize)) False writes src pth off len) = ToReady ?r # streamLeft (framesAt off ds) [?c]"
    using ms run assms(2)
    by (simp add: startDownloadTransfer_def streamDownload_def streamLeft_def transferSends_def handleTransferReady_def handleTransferComplete_def)
  moreover have "rr_Error ?r = None" "oneCompletion [?c]" by (simp_all add: oneCompletion_def)
  ultimately show ?thesis
    unfolding undisturbed_def downloadStart_def pendingSends_def newChans_def by (simp only: downloadState.simps attemptChans.simps downloadPhase.case append.simps) blast
qed


text \<open>C20: When the file can be read, the connection holds and the client stays, a download of any file in any interleaving of the goroutines always reaches its end: every step
  decreases the work left, no reachable state is stuck, and at the end all wanted bytes were written, the attempt is over and the websocket loop of the agent is idle again.\<close>

theorem download_completes:
  assumes "noReadFailure f" "length (rd_rest f) + 1 < writes"
    and "(download_progress b64 off)\<^sup>*\<^sup>* (downloadStart s db (startDownloadTransfer errorSent (Inr (f, fsize)) False writes src pth off len)) st"
  shows "((\<exists>st'. download_progress b64 off st st') \<or>
      dl_phase st = Returned Completed \<and> \<not> dl_registered st \<and> dl_written st = requested len (rd_rest f) \<and> dl_loop st = [] \<and> dl_inbox st = []) \<and>
    (\<forall>st'. download_progress b64 off st st' \<longrightarrow> workLeft b64 st' < workLeft b64 st)"
proof -
  let ?W = "wanted len (Inr (f, fsize))"
  have W: "?W = requested len (rd_rest f)" by (simp add: wanted_def)
  have "undisturbed b64 st \<and> downloadOk b64 off ?W st" using assms(3)
  proof (induction rule: rtranclp_induct)
    case base
    show ?case using full_stream_undisturbed [OF assms(1,2)] download_run_ok [OF rtranclp.rtrancl_refl] by blast
  next
    case (step y z)
    then show ?case using progress_undisturbed progress_download_ok by blast
  qed
  then have u: "undisturbed b64 st" and ok: "downloadOk b64 off ?W st" by blast+
  have "dl_written st = requested len (rd_rest f) \<and> dl_loop st = [] \<and> dl_inbox st = []" if "dl_phase st = Returned Completed"
    using that u ok W by (simp add: undisturbed_def downloadOk_def)
  then show ?thesis using undisturbed_progress [OF u ok] progress_decreases by blast
qed

section \<open>A client that leaves can stop its agent\<close>

fun dataMessages :: "int \<Rightarrow> bytes list \<Rightarrow> agentMessage list" where
  "dataMessages off [] = []"
| "dataMessages off (d # ds) = dataMessage off d # dataMessages (off + int (length d)) ds"

lemma dataMessages_append: "dataMessages o' (xs @ ys) = dataMessages o' xs @ dataMessages (o' + int (length (concat xs))) ys"
  by (induction xs arbitrary: o') (simp_all add: add.assoc)

lemma push_frames:
  assumes "dl_loop st = []" "dl_registered st" "dl_inbox st = dataMessages o' ds @ ms" "length (ch_data (dl_chans st)) + length ds \<le> 16"
  shows "(download_step b64 off)\<^sup>*\<^sup>* st (st\<lparr>dl_inbox := ms, dl_chans := (dl_chans st)\<lparr>ch_data := ch_data (dl_chans st) @ framesAt o' ds\<rparr>\<rparr>)"
  using assms
proof (induction ds arbitrary: o' st)
  case (Cons d ds)
  let ?f = "\<lparr>df_Offset = o', df_Data = d, df_Error = None\<rparr>"
  let ?st1 = "st\<lparr>dl_inbox := dataMessages (o' + int (length d)) ds @ ms, dl_loop := [ToData ?f]\<rparr>"
  let ?c = "(dl_chans st)\<lparr>ch_data := ch_data (dl_chans st) @ [?f]\<rparr>"
  let ?st2 = "?st1\<lparr>dl_loop := [], dl_chans := ?c\<rparr>"
  have "download_progress b64 off st ?st1" using loop_receive [of st "dataMessage o' d" "dataMessages (o' + int (length d)) ds @ ms" b64 off] Cons.prems by simp
  moreover have "download_progress b64 off ?st1 ?st2" by (rule loop_send [of _ "ToData ?f"]) (use Cons.prems(4) in simp_all)
  moreover have "(download_step b64 off)\<^sup>*\<^sup>* ?st2
      (?st2\<lparr>dl_inbox := ms, dl_chans := (dl_chans ?st2)\<lparr>ch_data := ch_data (dl_chans ?st2) @ framesAt (o' + int (length d)) ds\<rparr>\<rparr>)"
    by (rule Cons.IH) (use Cons.prems in simp_all)
  moreover have "?st2\<lparr>dl_inbox := ms, dl_chans := (dl_chans ?st2)\<lparr>ch_data := ch_data (dl_chans ?st2) @ framesAt (o' + int (length d)) ds\<rparr>\<rparr>
      = st\<lparr>dl_inbox := ms, dl_chans := (dl_chans st)\<lparr>ch_data := ch_data (dl_chans st) @ framesAt o' (d # ds)\<rparr>\<rparr>"
    using Cons.prems(1) by simp
  ultimately show ?case by (metis (no_types, lifting) converse_rtranclp_into_rtranclp download_step.progress)
next
  case (Nil o' st)
  then have "st\<lparr>dl_inbox := ms, dl_chans := (dl_chans st)\<lparr>ch_data := ch_data (dl_chans st) @ framesAt o' []\<rparr>\<rparr> = st" by (cases st) simp
  then show ?case by simp
qed

text \<open>After the handler returned, a websocket loop that waits for room among the frames waits forever.\<close>

lemma loop_blocked:
  assumes "(download_step b64 off)\<^sup>*\<^sup>* st st'" "dl_phase st = Returned x" "dl_loop st = ToData f # l" "length (ch_data (dl_chans st)) = 16"
  shows "dl_phase st' = Returned x \<and> dl_loop st' = dl_loop st \<and> dl_inbox st' = dl_inbox st \<and> dl_chans st' = dl_chans st"
  using assms(1)
proof (induction rule: rtranclp_induct)
  case (step y z)
  from step.hyps(2) show ?case
  proof (cases rule: download_step.cases)
    case progress
    then show ?thesis using step.IH assms(2-4) by (cases rule: download_progress.cases) auto
  qed (use step.IH assms(2-4) in auto)
qed (use assms in simp)

text \<open>
  A client that is slower than its agent and goes away while the channel of frames is full leaves the websocket loop of the agent blocked in a send that nobody will ever
  receive: no later message of that agent is read.
\<close>

theorem slow_client_blocks_agent_loop:
  "\<exists>st. (download_step b64 0)\<^sup>*\<^sup>* (downloadStart s db (TypeFileTransferReady None (Inr r) # dataMessages 0 (replicate 17 d) @ ms)) st \<and>
     dl_phase st = Returned ClientGone \<and> (\<forall>st'. (download_step b64 0)\<^sup>*\<^sup>* st st' \<longrightarrow> dl_inbox st' = ms \<and> dl_loop st' \<noteq> [])"
proof -
  let ?ds = "replicate 16 d"
  let ?stop = "16 * int (length d)"
  have "replicate 17 d = ?ds @ [d]" using replicate_app_Cons_same [of 16 d "[]"] by (simp add: eval_nat_numeral)
  moreover have "int (length (concat ?ds)) = ?stop" by (simp add: length_concat sum_list_replicate)
  ultimately have "dataMessages 0 (replicate 17 d) = dataMessages 0 ?ds @ [dataMessage ?stop d]" by (simp only: dataMessages_append) simp
  then have ms: "dataMessages 0 (replicate 17 d) @ ms = dataMessages 0 ?ds @ dataMessage ?stop d # ms" by simp
  let ?m = "TypeFileTransferReady None (Inr r)" and ?x = "\<lparr>rr_Ready = r, rr_Error = None\<rparr>"
  define st0 where "st0 = downloadStart s db (?m # dataMessages 0 (replicate 17 d) @ ms)"
  define st1 where "st1 = st0\<lparr>dl_inbox := dataMessages 0 ?ds @ dataMessage ?stop d # ms, dl_loop := [ToReady ?x]\<rparr>"
  define st2 where "st2 = st1\<lparr>dl_loop := [], dl_chans := newChans\<lparr>ch_ready := [?x]\<rparr>\<rparr>"
  define st3 where "st3 = waitTransferReady 0 0 ?x (st2\<lparr>dl_chans := newChans\<rparr>)"
  define st4 where "st4 = st3\<lparr>dl_inbox := dataMessage ?stop d # ms, dl_chans := newChans\<lparr>ch_data := framesAt 0 ?ds\<rparr>\<rparr>"
  define st5 where "st5 = st4\<lparr>dl_inbox := ms, dl_loop := [ToData \<lparr>df_Offset = ?stop, df_Data = d, df_Error = None\<rparr>]\<rparr>"
  define st6 where "st6 = downloadCancelled [] st5"
  have s1: "download_progress b64 0 st0 st1"
    using loop_receive [of st0 ?m "dataMessages 0 ?ds @ dataMessage ?stop d # ms" b64 0]
    by (simp add: st0_def st1_def downloadStart_def ms transferSends_def handleTransferReady_def)
  have "download_progress b64 0 st1 (st1\<lparr>dl_loop := [], dl_chans := newChans\<lparr>ch_ready := [?x]\<rparr>\<rparr>)"
    by (rule loop_send [of _ "ToReady ?x"]) (simp_all add: st1_def st0_def downloadStart_def newChans_def)
  then have s2: "download_progress b64 0 st1 st2" by (simp only: st2_def)
  have "download_progress b64 0 st2 (waitTransferReady 0 0 ?x (st2\<lparr>dl_chans := (dl_chans st2)\<lparr>ch_ready := []\<rparr>\<rparr>))"
    by (rule take_ready) (simp_all add: st2_def st1_def st0_def downloadStart_def newChans_def)
  then have s3: "download_progress b64 0 st2 st3" by (simp add: st3_def st2_def newChans_def)
  have st3: "dl_loop st3 = []" "dl_registered st3" "dl_inbox st3 = dataMessages 0 ?ds @ dataMessage ?stop d # ms" "dl_chans st3 = newChans"
      "\<exists>rdy cur. dl_phase st3 = Streaming rdy cur None"
    by (simp_all add: st3_def waitTransferReady_def st2_def st1_def st0_def downloadStart_def)
  have s4: "(download_step b64 0)\<^sup>*\<^sup>* st3 st4"
    using push_frames [OF st3(1,2,3), of b64 0] st3(4) by (simp add: st4_def newChans_def)
  have "download_progress b64 0 st4 (st4\<lparr>dl_inbox := ms, dl_loop := (if dl_registered st4 then transferSends b64 (dataMessage ?stop d) else [])\<rparr>)"
    by (rule loop_receive) (simp_all add: st4_def st3(1))
  then have s5: "download_progress b64 0 st4 st5" using st3(2) by (simp add: st5_def st4_def)
  have "dl_phase st5 \<noteq> Returned y" for y using st3(5) by (auto simp: st5_def st4_def)
  then have s6: "download_step b64 0 st5 st6" unfolding st6_def by (intro client_gone) blast
  have len: "length (framesAt o' ds) = length ds" for o' ds by (induction ds arbitrary: o') simp_all
  have st6: "dl_phase st6 = Returned ClientGone" "dl_loop st6 = [ToData \<lparr>df_Offset = ?stop, df_Data = d, df_Error = None\<rparr>]" "dl_inbox st6 = ms"
      "length (ch_data (dl_chans st6)) = 16"
    using st3(5) by (auto simp: st6_def downloadCancelled_def st5_def st4_def len)
  have "(download_step b64 0)\<^sup>*\<^sup>* st0 st6"
    using s1 s2 s3 s4 s5 s6 by (meson converse_rtranclp_into_rtranclp download_step.progress rtranclp.rtrancl_into_rtrancl)
  then show ?thesis using loop_blocked [OF _ st6(1,2,4)] st6 unfolding st0_def by (metis list.distinct(1))
qed

section \<open>Examples\<close>

lemma undisturbed_ends:
  assumes "undisturbed b64 st" "downloadOk b64 off W st"
  shows "\<exists>st'. (download_progress b64 off)\<^sup>*\<^sup>* st st' \<and> dl_phase st' = Returned Completed \<and> \<not> dl_registered st' \<and> dl_loop st' = [] \<and> dl_inbox st' = []"
  using assms
proof (induction "workLeft b64 st" arbitrary: st rule: less_induct)
  case less
  show ?case
  proof (cases "dl_phase st = Returned Completed \<and> \<not> dl_registered st")
    case False
    then obtain st1 where s: "download_progress b64 off st st1" using undisturbed_progress [OF less.prems] by blast
    then show ?thesis using less.hyps [OF progress_decreases [OF s] progress_undisturbed [OF s less.prems] progress_download_ok [OF s less.prems(2)]]
      by (meson converse_rtranclp_into_rtranclp)
  next
    case True
    then show ?thesis using less.prems(1) by (auto simp: undisturbed_def)
  qed
qed

definition exampleFile :: reader where
  "exampleFile = \<lparr>rd_rest = [7, 8, 9], rd_script = [(2, ReadOK), (0, ReadOK)]\<rparr>"

definition exampleDownload :: downloadState where
  "exampleDownload = downloadStart exampleSession \<lparr>fd_users = [], fd_homes = [], fd_jobs = [], fd_transfers = []\<rparr>
     (startDownloadTransfer False (Inr (exampleFile, 3)) False 9 ''s1'' ''/a'' 0 0)"

lemma example_readable: "noReadFailure exampleFile" "length (rd_rest exampleFile) + 1 < 9" "requested 0 (rd_rest exampleFile) = [7, 8, 9]"
  by (simp_all add: exampleFile_def noReadFailure_def requested_def)

lemma example_ends: "\<exists>st. (download_progress id 0)\<^sup>*\<^sup>* exampleDownload st \<and> dl_phase st = Returned Completed \<and> \<not> dl_registered st \<and> dl_loop st = [] \<and> dl_inbox st = []"
  unfolding exampleDownload_def
  by (rule undisturbed_ends [OF full_stream_undisturbed [OF example_readable(1,2)] download_run_ok [OF rtranclp.rtrancl_refl]])


theorem download_completes_witness:
  "\<exists>st. (download_progress id 0)\<^sup>*\<^sup>* exampleDownload st \<and> dl_written st = [7, 8, 9] \<and> dl_inbox st = []"
proof -
  obtain st where r: "(download_progress id 0)\<^sup>*\<^sup>* exampleDownload st"
    and e: "dl_phase st = Returned Completed" "\<not> dl_registered st" "dl_loop st = []" "dl_inbox st = []" using example_ends by blast
  have "\<not> download_progress id 0 st st'" for st' using e by (auto elim: download_progress.cases)
  then show ?thesis using download_completes [OF example_readable(1,2) r [unfolded exampleDownload_def]] r example_readable(3) by auto
qed

end
