(* ===== verification/Transfer_Upload.thy ===== *)
theory Transfer_Upload
  imports Transfer_Stream
begin

text \<open>
  Uploads: the loop that sends the body of a request to the agent (\<open>handleFileTransfer\<close> of \<open>internal/cloud/server.go\<close>, method PUT) and the handlers of the
  agent that write it to a file (\<open>internal/agent/transfers.go\<close>). Opening, writing and closing a file of the agent are arguments; of a write that reports no error it is
  used that it appended all bytes.
\<close>

section \<open>The server sends the body\<close>

datatype serverMessage = SendData FileTransferChunk | SendComplete FileTransferComplete

text \<open>How the loop over the body ends: past the limit, a failed write to the agent, a failed read of the body, or at its end with the writes left and the offset.\<close>

datatype bodyEnd = TooLarge | AgentGone | BodyFailed string | BodySent nat int

function uploadLoop :: "int \<Rightarrow> int \<Rightarrow> nat \<Rightarrow> reader \<Rightarrow> transferSession \<Rightarrow> serverMessage list \<times> transferSession \<times> bodyEnd" where
  "uploadLoop maxUploadBytes currentOffset writes body s =
     (let (chunk, e, body') = readInto (32 * 1024) body; n = int (length chunk) in
      if n > 0 \<and> maxUploadBytes > 0 \<and> currentOffset + n > maxUploadBytes then ([], s, TooLarge)
      else if n > 0 \<and> writes = 0 then ([], s, AgentGone)
      else
        let sent = (if n > 0 then [SendData \<lparr>ck_Offset = currentOffset, ck_ContentBase64 = EncodeToString chunk\<rparr>] else []);
            writes' = (if n > 0 then writes - 1 else writes);
            currentOffset' = currentOffset + n;
            s' = (if n > 0 then Advance currentOffset' currentOffset' s else s)
        in (case e of
              ReadEOF \<Rightarrow> (sent, s', BodySent writes' currentOffset')
            | ReadFailed msg \<Rightarrow> (sent, s', BodyFailed msg)
            | ReadOK \<Rightarrow> (case uploadLoop maxUploadBytes currentOffset' writes' body' s' of (later, s'', fin) \<Rightarrow> (sent @ later, s'', fin))))"
  by pat_completeness auto
termination
proof (relation "measure (\<lambda>(m, cur, w, r, s). length (rd_rest r) + length (rd_script r))", goal_cases)
  case (2 m cur w r s p chunk y e r')
  then show ?case using readInto_measure [of "32 * 1024" r chunk e r'] by auto
qed simp

declare uploadLoop.simps [simp del]

text \<open>
  The part of the handler after the agent was ready at the requested offset: the messages it sends, the session and the rows, and the HTTP error it answers or the offset of
  the completion it waits for.
\<close>

definition uploadBody ::
    "time \<Rightarrow> string \<Rightarrow> int \<Rightarrow> int \<Rightarrow> nat \<Rightarrow> reader \<Rightarrow> transferSession \<Rightarrow> filesDb \<Rightarrow> serverMessage list \<times> transferSession \<times> filesDb \<times> ((nat \<times> string) + int)" where
  "uploadBody now peerError maxUploadBytes off writes body s db =
     (case uploadLoop maxUploadBytes off writes body s of
        (sent, s1, TooLarge) \<Rightarrow>
          let s2 = Fail (''upload_too_large'', ''file source policy upload size limit exceeded'') s1 in
          (sent, s2, persistTransferStatus now s2 ''failed'' db, Inl (413, ''file source policy upload size limit exceeded''))
      | (sent, s1, AgentGone) \<Rightarrow> (sent, s1, db, Inl (502, peerError))
      | (sent, s1, BodyFailed msg) \<Rightarrow> (sent, s1, db, Inl (400, msg))
      | (sent, s1, BodySent writes' currentOffset) \<Rightarrow>
          if writes' = 0 then (sent, s1, db, Inl (502, peerError))
          else (sent @ [SendComplete \<lparr>cp_Operation = ''upload'', cp_SourceID = ts_SourceID s, cp_Path = ts_Path s, cp_Offset = currentOffset, cp_Size = currentOffset\<rparr>],
                s1, db, Inr currentOffset))"

text \<open>Before the loop: the announced length against the limit, and the agent's ready message against the requested offset. Waiting for the agent fails when the client goes away.\<close>

definition uploadRefused :: "int \<Rightarrow> int \<Rightarrow> int \<Rightarrow> bool" where
  "uploadRefused maxUploadBytes off contentLength \<longleftrightarrow> maxUploadBytes > 0 \<and> contentLength > 0 \<and> off + contentLength > maxUploadBytes"

definition uploadReady :: "time \<Rightarrow> int \<Rightarrow> string + transferReadyResult \<Rightarrow> transferSession \<Rightarrow> filesDb \<Rightarrow> transferSession \<times> filesDb \<times> ((nat \<times> string) + unit)" where
  "uploadReady now off waited s db =
     (case waited of Inl msg \<Rightarrow> (s, db, Inl (504, msg)) | Inr x \<Rightarrow>
      (case rr_Error x of
        Some e \<Rightarrow> let s1 = Fail e s in (s1, persistTransferStatus now s1 ''failed'' db, Inl (502, snd e))
      | None \<Rightarrow> (MarkReady (rr_Ready x) s, db, if rd_Offset (rr_Ready x) \<noteq> off then Inl (409, ''transfer_offset_mismatch'') else Inr ())))"

text \<open>After the loop: the agent's completion. The answer carries the path, the size and the next offset.\<close>

definition uploadDone :: "time \<Rightarrow> string + transferCompleteResult \<Rightarrow> transferSession \<Rightarrow> filesDb \<Rightarrow> transferSession \<times> filesDb \<times> ((nat \<times> string) + (string \<times> int \<times> int))" where
  "uploadDone now waited s db =
     (case waited of Inl msg \<Rightarrow> (s, db, Inl (504, msg)) | Inr x \<Rightarrow>
      (case cc_Error x of
        Some e \<Rightarrow> let s1 = Fail e s in (s1, persistTransferStatus now s1 ''failed'' db, Inl (502, snd e))
      | None \<Rightarrow> let d = cc_Complete x; s1 = Complete now d s in
          (s1, persistTransferStatus now s1 ''completed'' db, Inr (cp_Path d, cp_Size d, cp_Offset d))))"

section \<open>The agent writes the file\<close>

record 'f uploadTransfer =
  ul_sourceID :: string
  ul_path :: string
  ul_file :: 'f
  ul_size :: int

type_synonym 'f uploads = "(string, 'f uploadTransfer) gomap"

definition startUploadTransfer :: "string + ('f \<times> int) \<Rightarrow> string \<Rightarrow> string \<Rightarrow> string \<Rightarrow> 'f uploads \<Rightarrow> 'f uploads \<times> agentMessage list" where
  "startUploadTransfer opened transferID sourceID path uploads =
     (let uploads1 = mdel transferID uploads in
      case opened of
        Inl msg \<Rightarrow> (uploads1, [transferError ''transfer_open_failed'' msg])
      | Inr (f, fsize) \<Rightarrow>
        (mput transferID \<lparr>ul_sourceID = sourceID, ul_path = path, ul_file = f, ul_size = fsize\<rparr> uploads1,
         [TypeFileTransferReady None (Inr \<lparr>rd_Operation = ''upload'', rd_SourceID = sourceID, rd_Path = path, rd_Offset = fsize, rd_Size = fsize\<rparr>)]))"

definition expectedOffset :: "string \<Rightarrow> int \<Rightarrow> int \<Rightarrow> string" where
  "expectedOffset what want got = what @ show_int want @ '', got '' @ show_int got"

text \<open>\<open>writeFile\<close> gives the number of bytes written, the error, if any, and the file.\<close>

definition agentTransferData ::
    "(bytes \<Rightarrow> 'f \<Rightarrow> int \<times> string option \<times> 'f) \<Rightarrow> (string \<Rightarrow> string) \<Rightarrow> string \<Rightarrow> string + FileTransferChunk \<Rightarrow> 'f uploads \<Rightarrow> 'f uploads \<times> agentMessage list" where
  "agentTransferData writeFile base64Error i payload uploads =
     (case payload of
        Inl msg \<Rightarrow> (uploads, [transferError ''invalid_transfer_chunk'' msg])
      | Inr chunk \<Rightarrow>
        (case DecodeString (ck_ContentBase64 chunk) of
           None \<Rightarrow> (uploads, [transferError ''invalid_transfer_chunk'' (base64Error (ck_ContentBase64 chunk))])
         | Some content \<Rightarrow>
           (case mget uploads i of
              None \<Rightarrow> (uploads, [transferError ''transfer_not_found'' ''upload transfer was not prepared''])
            | Some u \<Rightarrow>
              if ck_Offset chunk \<noteq> ul_size u
              then (uploads, [transferError ''transfer_offset_mismatch'' (expectedOffset ''expected offset '' (ul_size u) (ck_Offset chunk))])
              else (case writeFile content (ul_file u) of
                 (n, Some msg, f') \<Rightarrow> (mdel i uploads, [transferError ''transfer_write_failed'' msg])
               | (n, None, f') \<Rightarrow> (mput i (u\<lparr>ul_file := f', ul_size := ul_size u + n\<rparr>) uploads, [])))))"

text \<open>\<open>closeFile\<close> is the error of closing, if any; the file that was closed is part of the result.\<close>

definition agentTransferComplete ::
    "('f \<Rightarrow> string option) \<Rightarrow> string \<Rightarrow> string + FileTransferComplete \<Rightarrow> 'f uploads \<Rightarrow> 'f uploads \<times> agentMessage list \<times> 'f option" where
  "agentTransferComplete closeFile i payload uploads =
     (case payload of
        Inl msg \<Rightarrow> (uploads, [transferError ''invalid_transfer_complete'' msg], None)
      | Inr complete \<Rightarrow>
        if cp_Operation complete \<noteq> ''upload'' then (uploads, [], None)
        else (case mget uploads i of
           None \<Rightarrow> (uploads, [transferError ''transfer_not_found'' ''upload transfer was not prepared''], None)
         | Some u \<Rightarrow>
           let uploads' = mdel i uploads in
           if cp_Offset complete \<noteq> ul_size u
           then (uploads', [transferError ''transfer_offset_mismatch'' (expectedOffset ''expected final offset '' (ul_size u) (cp_Offset complete))], Some (ul_file u))
           else (case closeFile (ul_file u) of
              Some msg \<Rightarrow> (uploads', [transferError ''transfer_close_failed'' msg], Some (ul_file u))
            | None \<Rightarrow> (uploads', [TypeFileTransferComplete None (Inr \<lparr>cp_Operation = ''upload'', cp_SourceID = ul_sourceID u, cp_Path = ul_path u,
                         cp_Offset = ul_size u, cp_Size = ul_size u\<rparr>)], Some (ul_file u)))))"

text \<open>The agent handles the messages of one upload in the order they were sent.\<close>

fun agentUpload ::
    "(bytes \<Rightarrow> 'f \<Rightarrow> int \<times> string option \<times> 'f) \<Rightarrow> ('f \<Rightarrow> string option) \<Rightarrow> (string \<Rightarrow> string) \<Rightarrow> string \<Rightarrow> serverMessage list \<Rightarrow> 'f uploads
      \<Rightarrow> 'f uploads \<times> agentMessage list \<times> 'f option" where
  "agentUpload wr cl b64 i [] uploads = (uploads, [], None)"
| "agentUpload wr cl b64 i (SendData chunk # ms) uploads =
     (case agentTransferData wr b64 i (Inr chunk) uploads of
        (uploads1, replies) \<Rightarrow> (case agentUpload wr cl b64 i ms uploads1 of (uploads2, later, closed) \<Rightarrow> (uploads2, replies @ later, closed)))"
| "agentUpload wr cl b64 i (SendComplete d # ms) uploads =
     (case agentTransferComplete cl i (Inr d) uploads of
        (uploads1, replies, closed1) \<Rightarrow>
          (case agentUpload wr cl b64 i ms uploads1 of (uploads2, later, closed) \<Rightarrow> (uploads2, replies @ later, case closed of None \<Rightarrow> closed1 | Some f \<Rightarrow> Some f)))"

section \<open>What the server sends\<close>

fun chunkMessages :: "int \<Rightarrow> bytes list \<Rightarrow> serverMessage list" where
  "chunkMessages off [] = []"
| "chunkMessages off (d # ds) = SendData \<lparr>ck_Offset = off, ck_ContentBase64 = EncodeToString d\<rparr> # chunkMessages (off + int (length d)) ds"

definition overLimit :: "int \<Rightarrow> int \<Rightarrow> bytes \<Rightarrow> bool" where
  "overLimit m off bs \<longleftrightarrow> m > 0 \<and> bs \<noteq> [] \<and> off + int (length bs) > m"

lemma overLimit_append: "\<not> overLimit m (off + int (length d)) bs \<Longrightarrow> d \<noteq> [] \<Longrightarrow> \<not> overLimit m off d \<Longrightarrow> \<not> overLimit m off (d @ bs)"
  by (cases "bs = []") (auto simp: overLimit_def)

definition bodySends :: "int \<Rightarrow> int \<Rightarrow> bytes \<Rightarrow> serverMessage list \<Rightarrow> bodyEnd \<Rightarrow> bool" where
  "bodySends m cur W ms fin \<longleftrightarrow>
     (\<exists>ds. ms = chunkMessages cur ds \<and> [] \<notin> set ds \<and> prefix (concat ds) W \<and> \<not> overLimit m cur (concat ds) \<and>
       (\<forall>w c. fin = BodySent w c \<longrightarrow> concat ds = W \<and> c = cur + int (length W)) \<and> (fin = TooLarge \<longrightarrow> overLimit m cur W))"

lemma bodySends_Cons:
  assumes "bodySends m (cur + int (length d)) W ms fin" "d \<noteq> []" "\<not> overLimit m cur d"
  shows "bodySends m cur (d @ W) (SendData \<lparr>ck_Offset = cur, ck_ContentBase64 = EncodeToString d\<rparr> # ms) fin"
proof -
  obtain ds where h: "ms = chunkMessages (cur + int (length d)) ds" "[] \<notin> set ds" "prefix (concat ds) W" "\<not> overLimit m (cur + int (length d)) (concat ds)"
      "\<forall>w c. fin = BodySent w c \<longrightarrow> concat ds = W \<and> c = cur + int (length d) + int (length W)" "fin = TooLarge \<longrightarrow> overLimit m (cur + int (length d)) W"
    using assms(1) unfolding bodySends_def by blast
  have "\<not> overLimit m cur (d @ concat ds)" using h(4) assms(2,3) by (intro overLimit_append)
  moreover have "fin = TooLarge \<longrightarrow> overLimit m cur (d @ W)" using h(6) by (auto simp: overLimit_def)
  ultimately show ?thesis unfolding bodySends_def
    by (intro exI [of _ "d # ds"]) (use h assms(2) in auto)
qed

lemma bodySends_Nil:
  "bodySends m cur W [] AgentGone" "bodySends m cur W [] (BodyFailed msg)" "bodySends m cur [] [] (BodySent w cur)" "overLimit m cur W \<Longrightarrow> bodySends m cur W [] TooLarge"
  unfolding bodySends_def by (intro exI [of _ "[]"]; simp add: overLimit_def)+

lemma uploadLoop_step:
  assumes "readInto (32 * 1024) r = (chunk, e, r')"
  shows "uploadLoop m cur w r s =
    (if overLimit m cur chunk then ([], s, TooLarge)
     else if chunk \<noteq> [] \<and> w = 0 then ([], s, AgentGone)
     else let sent = (if chunk = [] then [] else [SendData \<lparr>ck_Offset = cur, ck_ContentBase64 = EncodeToString chunk\<rparr>]);
              w' = (if chunk = [] then w else w - 1);
              s' = (if chunk = [] then s else Advance (cur + int (length chunk)) (cur + int (length chunk)) s)
          in (case e of
                ReadEOF \<Rightarrow> (sent, s', BodySent w' (cur + int (length chunk)))
              | ReadFailed msg \<Rightarrow> (sent, s', BodyFailed msg)
              | ReadOK \<Rightarrow> (case uploadLoop m (cur + int (length chunk)) w' r' s' of (later, s'', fin) \<Rightarrow> (sent @ later, s'', fin))))"
proof -
  have "(0 < int (length chunk) \<and> 0 < m \<and> m < cur + int (length chunk)) = overLimit m cur chunk" by (auto simp: overLimit_def)
  moreover have "(0 < int (length chunk)) = (chunk \<noteq> [])" by auto
  ultimately show ?thesis
    unfolding uploadLoop.simps [of m cur w r s] assms Let_def prod.case by (simp cong: if_cong)
qed

lemma uploadLoop_sends: "uploadLoop m cur w r s = (ms, s', fin) \<Longrightarrow> bodySends m cur (rd_rest r) ms fin"
proof (induction "length (rd_rest r) + length (rd_script r)" arbitrary: cur w r s ms s' fin rule: less_induct)
  case (less r cur w s ms s' fin)
  obtain chunk e r' where rd: "readInto (32 * 1024) r = (chunk, e, r')" by (rule prod_cases3)
  note sp = readInto_split [OF rd]
  define w' where "w' = (if chunk = [] then w else w - 1)"
  define s1 where "s1 = (if chunk = [] then s else Advance (cur + int (length chunk)) (cur + int (length chunk)) s)"
  obtain later s2 f where rest: "uploadLoop m (cur + int (length chunk)) w' r' s1 = (later, s2, f)" by (rule prod_cases3)
  note run = less.prems [unfolded uploadLoop_step [OF rd, of m cur w s, unfolded Let_def, folded w'_def s1_def] rest prod.case]
  have IH: "bodySends m (cur + int (length chunk)) (rd_rest r') later f" if "e = ReadOK"
    using less.hyps [OF readInto_measure [OF rd] rest] that by simp
  show ?case
  proof (cases "overLimit m cur chunk")
    case True
    then have "overLimit m cur (rd_rest r)" using sp by (auto simp: overLimit_def)
    then show ?thesis using run True bodySends_Nil(4) by auto
  next
    case fits: False
    show ?thesis
    proof (cases "chunk = []")
      case True
      then show ?thesis using run fits IH sp bodySends_Nil by (cases e) (auto split: if_splits)
    next
      case False
      note cons = bodySends_Cons [OF _ False fits]
      have eof: "bodySends m cur chunk [SendData \<lparr>ck_Offset = cur, ck_ContentBase64 = EncodeToString chunk\<rparr>] (BodySent x (cur + int (length chunk)))" for x
        using cons [OF bodySends_Nil(3), of x] by simp
      show ?thesis using run fits False IH sp cons eof bodySends_Nil by (cases e) (auto split: if_splits)
    qed
  qed
qed

lemma uploadLoop_finishes:
  assumes "noReadFailure r" "length (rd_rest r) < w"
  shows "\<exists>ms s' w' c. uploadLoop m cur w r s = (ms, s', TooLarge) \<or> uploadLoop m cur w r s = (ms, s', BodySent w' c) \<and> 0 < w'"
  using assms
proof (induction "length (rd_rest r) + length (rd_script r)" arbitrary: cur w r s rule: less_induct)
  case (less r cur w s)
  obtain chunk e r' where rd: "readInto (32 * 1024) r = (chunk, e, r')" by (rule prod_cases3)
  define w' where "w' = (if chunk = [] then w else w - 1)"
  define s1 where "s1 = (if chunk = [] then s else Advance (cur + int (length chunk)) (cur + int (length chunk)) s)"
  have w': "length (rd_rest r') < w'" "\<not> (chunk \<noteq> [] \<and> w = 0)" using less.prems(2) readInto_split [OF rd] by (cases chunk; auto simp: w'_def)+
  note nf = readInto_noFailure [OF rd less.prems(1)]
  note step = uploadLoop_step [OF rd, of m cur w s, unfolded Let_def, folded w'_def s1_def]
  show ?case
  proof (cases "overLimit m cur chunk \<or> e = ReadEOF")
    case True
    then show ?thesis using w' step by auto
  next
    case False
    then obtain ms s' w'' c where "uploadLoop m (cur + int (length chunk)) w' r' s1 = (ms, s', TooLarge) \<or>
        uploadLoop m (cur + int (length chunk)) w' r' s1 = (ms, s', BodySent w'' c) \<and> 0 < w''"
      using less.hyps [OF readInto_measure [OF rd], of w' "cur + int (length chunk)" s1] nf w'(1) by auto
    then show ?thesis using w'(2) step nf False by auto
  qed
qed

section \<open>What the agent stores\<close>

text \<open>A write without error appended all its bytes.\<close>

definition appends :: "('f \<Rightarrow> bytes) \<Rightarrow> (bytes \<Rightarrow> 'f \<Rightarrow> int \<times> string option \<times> 'f) \<Rightarrow> bool" where
  "appends content wr \<longleftrightarrow> (\<forall>bs f n f'. wr bs f = (n, None, f') \<longrightarrow> n = int (length bs) \<and> content f' = content f @ bs)"

definition onlyErrors :: "agentMessage list \<Rightarrow> bool" where
  "onlyErrors replies \<longleftrightarrow> (\<forall>m\<in>set replies. \<exists>code msg. m = transferError code msg)"

lemma onlyErrors_simps [simp]:
  "onlyErrors []" "onlyErrors (transferError code msg # ms) = onlyErrors ms" "onlyErrors (ms @ ms') = (onlyErrors ms \<and> onlyErrors ms')"
  by (auto simp: onlyErrors_def)

lemma complete_not_error [simp]: "TypeFileTransferComplete e p \<noteq> transferError code msg"
  by (simp add: transferError_def)

lemma agent_absent:
  "mget uploads i = None \<Longrightarrow> agentUpload wr cl b64 i ms uploads = (uploads', replies, closed) \<Longrightarrow> uploads' = uploads \<and> onlyErrors replies \<and> closed = None"
proof (induction ms arbitrary: uploads' replies closed)
  case (Cons m ms)
  then show ?case
    by (cases m) (auto simp: agentTransferData_def agentTransferComplete_def split: option.splits prod.splits if_splits)
qed simp

definition stored :: "('f \<Rightarrow> bytes) \<Rightarrow> 'f uploadTransfer \<Rightarrow> bytes \<Rightarrow> 'f uploadTransfer \<Rightarrow> bool" where
  "stored content u bs u' \<longleftrightarrow> ul_size u' = ul_size u + int (length bs) \<and> content (ul_file u') = content (ul_file u) @ bs \<and> ul_sourceID u' = ul_sourceID u \<and> ul_path u' = ul_path u"

lemma agent_chunks:
  assumes "appends content wr" "mget uploads i = Some u"
  shows "(\<exists>U' u'. (\<forall>later. agentUpload wr cl b64 i (chunkMessages (ul_size u) ds @ later) uploads = agentUpload wr cl b64 i later U') \<and> mget U' i = Some u' \<and>
        stored content u (concat ds) u') \<or>
      (\<exists>bs f. fst (snd (wr bs f)) \<noteq> None) \<and> (\<forall>later uploads' replies closed.
        agentUpload wr cl b64 i (chunkMessages (ul_size u) ds @ later) uploads = (uploads', replies, closed) \<longrightarrow> onlyErrors replies \<and> closed = None)"
  using assms(2)
proof (induction ds arbitrary: uploads u)
  case Nil
  then show ?case by (auto simp: stored_def)
next
  case (Cons d ds)
  let ?c = "\<lparr>ck_Offset = ul_size u, ck_ContentBase64 = EncodeToString d\<rparr>"
  obtain n err f' where w: "wr d (ul_file u) = (n, err, f')" by (rule prod_cases3)
  show ?case
  proof (cases err)
    case None
    have n: "n = int (length d)" "content f' = content (ul_file u) @ d" using assms(1) w None by (auto simp: appends_def)
    define u1 where "u1 = u\<lparr>ul_file := f', ul_size := ul_size u + n\<rparr>"
    have one: "agentTransferData wr b64 i (Inr ?c) uploads = (mput i u1 uploads, [])"
      using Cons.prems w None by (simp add: agentTransferData_def base64_roundtrip u1_def)
    have u1: "mget (mput i u1 uploads) i = Some u1" "ul_size u1 = ul_size u + int (length d)" by (simp_all add: u1_def n)
    have same: "agentUpload wr cl b64 i (chunkMessages (ul_size u) (d # ds) @ later) uploads
        = agentUpload wr cl b64 i (chunkMessages (ul_size u1) ds @ later) (mput i u1 uploads)" for later
      by (simp add: one u1(2) split: prod.split)
    have st: "stored content u (concat (d # ds)) u'" if "stored content u1 (concat ds) u'" for u'
      using that by (simp add: stored_def u1_def n)
    from Cons.IH [OF u1(1)] show ?thesis unfolding same using st by blast
  next
    case (Some msg)
    have one: "agentTransferData wr b64 i (Inr ?c) uploads = (mdel i uploads, [transferError ''transfer_write_failed'' msg])"
      using Cons.prems w Some by (simp add: agentTransferData_def base64_roundtrip)
    have "onlyErrors replies \<and> closed = None"
      if run: "agentUpload wr cl b64 i (chunkMessages (ul_size u) (d # ds) @ later) uploads = (uploads', replies, closed)" for later uploads' replies closed
      using run agent_absent [of "mdel i uploads" i wr cl b64] by (auto simp: one split: prod.splits)
    moreover have "\<exists>bs f. fst (snd (wr bs f)) \<noteq> None" using w Some by (intro exI [of _ d] exI [of _ "ul_file u"]) simp
    ultimately show ?thesis by blast
  qed
qed

lemma uploadBody_messages:
  assumes "uploadBody now pe m off w body s db = (ms, s', db', Inr cur)"
  shows "\<exists>ds d. ms = chunkMessages off ds @ [SendComplete d] \<and> concat ds = rd_rest body \<and> cur = off + int (length (rd_rest body)) \<and> cp_Operation d = ''upload'' \<and> cp_Offset d = cur
    \<and> \<not> overLimit m off (rd_rest body)"
proof -
  obtain sent s1 fin where l: "uploadLoop m off w body s = (sent, s1, fin)" by (rule prod_cases3)
  obtain w' c where f: "fin = BodySent w' c" "c = cur"
    using assms l by (cases fin) (auto simp: uploadBody_def Let_def split: if_splits)
  have "bodySends m off (rd_rest body) sent fin" by (rule uploadLoop_sends [OF l])
  then obtain ds where ds: "sent = chunkMessages off ds" "\<not> overLimit m off (concat ds)" "concat ds = rd_rest body" "c = off + int (length (rd_rest body))"
    unfolding bodySends_def f by auto
  then show ?thesis using assms l f by (auto simp: uploadBody_def split: if_splits)
qed

text \<open>C21: What is uploaded is what is stored. When the server has sent a whole body, an agent whose file stood at the offset of the request answers with a completion only if the
  closed file holds its former content followed by exactly the body, at the size the server answers the client with; an agent whose writes and close succeed always answers so. The
  body then stayed within the limit of the home.\<close>

theorem upload_stores_body:
  assumes "appends content wr" "mget uploads i = Some u"
    and "uploadBody now peerError m (ul_size u) w body s db = (msgs, s', db', Inr cur)"
    and "agentUpload wr cl b64 i msgs uploads = (uploads', replies, closed)"
  shows "(\<forall>e p. TypeFileTransferComplete e p \<in> set replies \<longrightarrow>
       (\<exists>f c. closed = Some f \<and> content f = content (ul_file u) @ rd_rest body \<and> replies = [TypeFileTransferComplete None (Inr c)] \<and>
         snd (snd (uploadDone now' (Inr \<lparr>cc_Complete = c, cc_Error = None\<rparr>) s' db')) = Inr (ul_path u, cur, cur)) \<and> mget uploads' i = None) \<and>
     ((\<forall>bs f. fst (snd (wr bs f)) = None) \<and> (\<forall>f. cl f = None) \<longrightarrow> (\<exists>p. TypeFileTransferComplete None p \<in> set replies)) \<and>
     cur = ul_size u + int (length (rd_rest body)) \<and> (m > 0 \<and> rd_rest body \<noteq> [] \<longrightarrow> cur \<le> m)"
proof -
  obtain ds d where ms: "msgs = chunkMessages (ul_size u) ds @ [SendComplete d]" "concat ds = rd_rest body" and cur: "cur = ul_size u + int (length (rd_rest body))"
    and d: "cp_Operation d = ''upload''" "cp_Offset d = cur" and lim: "\<not> overLimit m (ul_size u) (rd_rest body)"
    using uploadBody_messages [OF assms(3)] by blast
  have bound: "m > 0 \<and> rd_rest body \<noteq> [] \<longrightarrow> cur \<le> m" using lim cur by (auto simp: overLimit_def)
  from agent_chunks [OF assms(1,2), of cl b64 ds] show ?thesis
  proof (elim disjE exE conjE)
    fix U' u'
    assume run: "\<forall>later. agentUpload wr cl b64 i (chunkMessages (ul_size u) ds @ later) uploads = agentUpload wr cl b64 i later U'"
      and u': "mget U' i = Some u'" and st: "stored content u (concat ds) u'"
    have "agentUpload wr cl b64 i [SendComplete d] U' = (uploads', replies, closed)" using run assms(4) ms(1) by metis
    moreover have "ul_size u' = cur" using st cur ms(2) by (simp add: stored_def)
    ultimately show ?thesis
      using u' d st ms(2) cur bound
      by (cases "cl (ul_file u')") (auto simp: agentTransferComplete_def Let_def stored_def uploadDone_def)
  next
    fix bs f
    assume bad: "fst (snd (wr bs f)) \<noteq> None" and all: "\<forall>later uploads' replies closed.
        agentUpload wr cl b64 i (chunkMessages (ul_size u) ds @ later) uploads = (uploads', replies, closed) \<longrightarrow> onlyErrors replies \<and> closed = None"
    have "onlyErrors replies" using all assms(4) ms(1) by blast
    then have "TypeFileTransferComplete e p \<notin> set replies" for e p by (auto simp: onlyErrors_def)
    moreover have "\<not> (\<forall>bs f. fst (snd (wr bs f)) = None)" using bad by metis
    ultimately show ?thesis using cur bound by simp
  qed
qed

lemma chunk_bounds:
  "SendData c \<in> set (chunkMessages off ds) \<Longrightarrow> \<exists>d. DecodeString (ck_ContentBase64 c) = Some d \<and> off \<le> ck_Offset c \<and> ck_Offset c + int (length d) \<le> off + int (length (concat ds))"
proof (induction ds arbitrary: off)
  case (Cons d ds)
  then show ?case by (force simp: base64_roundtrip)
qed simp

text \<open>C37: The upload limit is exact and holds for every chunk: when a body is read to its end and the agent stays connected, the upload is answered with 413 and marked as failed exactly
  when it is not empty and its end lies past a positive limit, and otherwise it is sent whole; whatever happens, no chunk that was sent reaches past the limit or starts before the offset.\<close>

theorem upload_limit_exact:
  assumes "uploadBody now peerError m off w body s db = (msgs, s', db', result)"
  shows "(noReadFailure body \<and> length (rd_rest body) < w \<longrightarrow>
      result = (if m > 0 \<and> rd_rest body \<noteq> [] \<and> off + int (length (rd_rest body)) > m
                then Inl (413, ''file source policy upload size limit exceeded'') else Inr (off + int (length (rd_rest body)))) \<and>
      (result = Inl (413, ''file source policy upload size limit exceeded'') \<longrightarrow> LastError s' = Some (''upload_too_large'', ''file source policy upload size limit exceeded''))) \<and>
    (\<forall>c. SendData c \<in> set msgs \<longrightarrow> (\<exists>d. DecodeString (ck_ContentBase64 c) = Some d \<and> off \<le> ck_Offset c \<and> (m > 0 \<and> d \<noteq> [] \<longrightarrow> ck_Offset c + int (length d) \<le> m)))"
proof -
  obtain sent s1 fin where l: "uploadLoop m off w body s = (sent, s1, fin)" by (rule prod_cases3)
  obtain ds where ds: "sent = chunkMessages off ds" "prefix (concat ds) (rd_rest body)" "\<not> overLimit m off (concat ds)"
      "\<And>w c. fin = BodySent w c \<Longrightarrow> concat ds = rd_rest body \<and> c = off + int (length (rd_rest body))" "fin = TooLarge \<Longrightarrow> overLimit m off (rd_rest body)"
    using uploadLoop_sends [OF l] unfolding bodySends_def by blast
  have data: "SendData c \<in> set sent" if "SendData c \<in> set msgs" for c
    using that assms l by (cases fin) (auto simp: uploadBody_def Let_def split: if_splits)
  have chunks: "\<exists>d. DecodeString (ck_ContentBase64 c) = Some d \<and> off \<le> ck_Offset c \<and> (m > 0 \<and> d \<noteq> [] \<longrightarrow> ck_Offset c + int (length d) \<le> m)" if c: "SendData c \<in> set msgs" for c
  proof -
    obtain d where d: "DecodeString (ck_ContentBase64 c) = Some d" "off \<le> ck_Offset c" "ck_Offset c + int (length d) \<le> off + int (length (concat ds))"
      using chunk_bounds [of c off ds] data [OF c] ds(1) by blast
    have "off + int (length (concat ds)) \<le> m" if "m > 0" "d \<noteq> []"
    proof -
      have "0 < length d" using that(2) by simp
      then have "concat ds \<noteq> []" using d(2,3) by (metis add_le_same_cancel1 length_0_conv less_le_not_le linorder_not_le of_nat_0 of_nat_0_less_iff order_trans add.right_neutral add_strict_increasing2)
      then show ?thesis using ds(3) that(1) unfolding overLimit_def by linarith
    qed
    then show ?thesis using d by force
  qed
  have whole: "result = (if overLimit m off (rd_rest body) then Inl (413, ''file source policy upload size limit exceeded'') else Inr (off + int (length (rd_rest body)))) \<and>
      (result = Inl (413, ''file source policy upload size limit exceeded'') \<longrightarrow> LastError s' = Some (''upload_too_large'', ''file source policy upload size limit exceeded''))"
    if "noReadFailure body" "length (rd_rest body) < w"
  proof -
    from uploadLoop_finishes [OF that, of m off s] consider "fin = TooLarge" | w' c where "fin = BodySent w' c" "0 < w'" using l by auto
    then show ?thesis
    proof cases
      case 1
      then show ?thesis using ds(5) assms l by (auto simp: uploadBody_def Let_def LastError_def Fail_def)
    next
      case 2
      then show ?thesis using ds(3) ds(4) [OF 2(1)] assms l by (auto simp: uploadBody_def)
    qed
  qed
  show ?thesis using whole chunks unfolding overLimit_def by blast
qed

section \<open>A failed write can stop the agent\<close>

text \<open>
  An agent that cannot write a chunk answers it and every later chunk with an error, and each error is sent to the channel of the ready results first, which the handler of an upload reads
  only once. The second error blocks the websocket loop of the agent, also after the handler has taken the completion.
\<close>

theorem upload_write_failure_blocks_agent_loop:
  assumes "mget uploads i = Some u" "wr d (ul_file u) = (n, Some msg, f')"
    and "agentUpload wr cl b64 i (chunkMessages (ul_size u) (d # d' # ds)) uploads = (uploads', replies, closed)"
  shows "\<exists>later c1 c2. sendsOf b64 replies = [readyError (''transfer_write_failed'', msg), completeError (''transfer_write_failed'', msg)]
      @ readyError (''transfer_not_found'', ''upload transfer was not prepared'') # later \<and>
    trySend (readyError (''transfer_write_failed'', msg)) newChans = Some c1 \<and> trySend (completeError (''transfer_write_failed'', msg)) c1 = Some c2 \<and>
    (\<forall>taken. trySend (readyError (''transfer_not_found'', ''upload transfer was not prepared'')) (c2\<lparr>ch_complete := taken\<rparr>) = None)"
proof -
  let ?c = "\<lambda>off d. \<lparr>ck_Offset = off, ck_ContentBase64 = EncodeToString d\<rparr>"
  have one: "agentTransferData wr b64 i (Inr (?c (ul_size u) d)) uploads = (mdel i uploads, [transferError ''transfer_write_failed'' msg])"
    using assms(1,2) by (simp add: agentTransferData_def base64_roundtrip)
  have two: "agentTransferData wr b64 i (Inr (?c off d')) (mdel i uploads) = (mdel i uploads, [transferError ''transfer_not_found'' ''upload transfer was not prepared''])" for off
    by (simp add: agentTransferData_def base64_roundtrip)
  obtain later where "replies = [transferError ''transfer_write_failed'' msg, transferError ''transfer_not_found'' ''upload transfer was not prepared''] @ later"
    using assms(3) by (auto simp: one two split: prod.splits)
  then show ?thesis by (simp add: newChans_def readyError_def completeError_def)
qed

section \<open>Examples\<close>

text \<open>A file in memory.\<close>

definition appendFile :: "bytes \<Rightarrow> bytes \<Rightarrow> int \<times> string option \<times> bytes" where
  "appendFile bs f = (int (length bs), None, f @ bs)"

definition exampleUploads :: "bytes uploads" where
  "exampleUploads = [(''t1'', \<lparr>ul_sourceID = ''s1'', ul_path = ''/a'', ul_file = [5], ul_size = 1\<rparr>)]"

definition exampleBody :: "int \<Rightarrow> serverMessage list \<times> transferSession \<times> filesDb \<times> ((nat \<times> string) + int)" where
  "exampleBody m = uploadBody 6 [] m 1 9 exampleFile exampleSession \<lparr>fd_users = [], fd_homes = [], fd_jobs = [], fd_transfers = []\<rparr>"

theorem upload_stores_body_witness:
  "\<exists>msgs s' db' uploads' replies f. exampleBody 100 = (msgs, s', db', Inr 4) \<and>
     agentUpload appendFile (\<lambda>_. None) id ''t1'' msgs exampleUploads = (uploads', replies, Some f) \<and> f = [5, 7, 8, 9]"
proof -
  let ?u = "\<lparr>ul_sourceID = ''s1'', ul_path = ''/a'', ul_file = [5], ul_size = 1\<rparr> :: bytes uploadTransfer"
  have "snd (snd (snd (exampleBody 100))) = Inr 4" by code_simp
  then obtain msgs s' db' where run: "exampleBody 100 = (msgs, s', db', Inr 4)" by (cases "exampleBody 100") auto
  have run': "uploadBody 6 [] 100 (ul_size ?u) 9 exampleFile exampleSession \<lparr>fd_users = [], fd_homes = [], fd_jobs = [], fd_transfers = []\<rparr> = (msgs, s', db', Inr 4)"
    using run by (simp add: exampleBody_def)
  obtain uploads' replies closed where ag: "agentUpload appendFile (\<lambda>_. None) id ''t1'' msgs exampleUploads = (uploads', replies, closed)" by (rule prod_cases3)
  have app: "appends id appendFile" by (simp add: appends_def appendFile_def)
  have get: "mget exampleUploads ''t1'' = Some ?u" by (simp add: exampleUploads_def)
  have ex: "rd_rest exampleFile = [7, 8, 9]" "fst (snd (appendFile bs f)) = None" for bs f by (simp_all add: exampleFile_def appendFile_def)
  note t = upload_stores_body [OF app get run' ag, of 0]
  from t [THEN conjunct2, THEN conjunct1] ex(2) obtain p where "TypeFileTransferComplete None p \<in> set replies" by auto
  from t [THEN conjunct1, rule_format, OF this] obtain f where "closed = Some f" "id f = id (ul_file ?u) @ rd_rest exampleFile" by blast
  then show ?thesis using run ag ex(1) by simp
qed

theorem upload_limit_exact_witness:
  "\<exists>msgs s' db'. exampleBody 3 = (msgs, s', db', Inl (413, ''file source policy upload size limit exceeded'')) \<and>
     LastError s' = Some (''upload_too_large'', ''file source policy upload size limit exceeded'')"
proof -
  obtain msgs s' db' res where run: "exampleBody 3 = (msgs, s', db', res)" by (rule prod_cases4)
  have f: "rd_rest exampleFile = [7, 8, 9]" "length (rd_rest exampleFile) < 9" by (simp_all add: exampleFile_def)
  from upload_limit_exact [OF run [unfolded exampleBody_def]] example_readable(1) f run show ?thesis by auto
qed

end
