(* ===== verification/Transfer_Preview.thy ===== *)
theory Transfer_Preview
  imports Transfer_Stream
begin

text \<open>
  Previews of files (\<open>handleFilePreviewStream\<close> of \<open>internal/cloud/server.go\<close>): the \<open>Range\<close> header, the answer it leads to, and the loop that copies frames of the agent
  until the announced length is written. Unlike a download, a preview asks the agent for the length of the range only.
\<close>

section \<open>Numbers and ranges in requests\<close>

definition decimal :: "char \<Rightarrow> bool" where "decimal c \<longleftrightarrow> 48 \<le> (of_char c :: nat) \<and> (of_char c :: nat) \<le> 57"

definition decimalValue :: "string \<Rightarrow> nat" where "decimalValue s = foldl (\<lambda>n c. 10 * n + (of_char c - 48)) 0 s"

text \<open>\<open>strconv.ParseInt(s, 10, 64)\<close>.\<close>

definition parseInt64 :: "string \<Rightarrow> int option" where
  "parseInt64 s =
     (let neg = (s \<noteq> [] \<and> hd s = CHR ''-''); ds = (if s \<noteq> [] \<and> (hd s = CHR ''-'' \<or> hd s = CHR ''+'') then tl s else s) in
      if ds = [] \<or> \<not> list_all decimal ds then None
      else let v = (if neg then - int (decimalValue ds) else int (decimalValue ds)) in
           if - (2 ^ 63) \<le> v \<and> v < 2 ^ 63 then Some v else None)"

definition offsetParam :: "string \<Rightarrow> int \<Rightarrow> int result" where
  "offsetParam query fallback =
     (let raw = trimSpace query in
      if raw = [] then Inr fallback
      else (case parseInt64 raw of
         None \<Rightarrow> Inl (ErrMsg ''offset must be a non-negative integer'')
       | Some v \<Rightarrow> if v < 0 then Inl (ErrMsg ''offset must be a non-negative integer'') else Inr v))"

record filePreviewRange =
  pr_HasRange :: bool
  pr_Start :: int
  pr_End :: int

definition previewLength :: "filePreviewRange \<Rightarrow> int" where
  "previewLength r = (if \<not> pr_HasRange r \<or> pr_End r < pr_Start r then 0 else pr_End r - pr_Start r + 1)"

text \<open>\<open>strings.SplitN(s, "-", 2)\<close>.\<close>

definition splitDash :: "string \<Rightarrow> string list" where
  "splitDash s = (let before = takeWhile (\<lambda>c. c \<noteq> CHR ''-'') s; rest = dropWhile (\<lambda>c. c \<noteq> CHR ''-'') s in if rest = [] then [s] else [before, tl rest])"

definition parseFilePreviewRange :: "string \<Rightarrow> filePreviewRange result" where
  "parseFilePreviewRange h =
     (let header = trimSpace h in
      if header = [] then Inr \<lparr>pr_HasRange = False, pr_Start = 0, pr_End = 0\<rparr>
      else if \<not> hasPrefix header ''bytes='' then Inl (ErrMsg ''unsupported range unit'')
      else
        let spec = trimPrefix header ''bytes='' in
        if CHR '','' \<in> set spec then Inl (ErrMsg ''multiple ranges are not supported'')
        else (case splitDash spec of
           [a, b] \<Rightarrow>
             if trimSpace a = [] then Inl (ErrMsg ''range start is required'')
             else (case parseInt64 (trimSpace a) of
                None \<Rightarrow> Inl (ErrMsg ''range start is invalid'')
              | Some start \<Rightarrow>
                if start < 0 then Inl (ErrMsg ''range start is invalid'')
                else if trimSpace b = [] then Inr \<lparr>pr_HasRange = True, pr_Start = start, pr_End = -1\<rparr>
                else (case parseInt64 (trimSpace b) of
                   None \<Rightarrow> Inl (ErrMsg ''range end is invalid'')
                 | Some stop \<Rightarrow> if stop < start then Inl (ErrMsg ''range end is invalid'') else Inr \<lparr>pr_HasRange = True, pr_Start = start, pr_End = stop\<rparr>))
         | _ \<Rightarrow> Inl (ErrMsg ''range start is required'')))"

section \<open>The answer\<close>

text \<open>Status, content length and content range of the answer once the agent told the size of the file.\<close>

definition previewAnswer :: "filePreviewRange \<Rightarrow> int \<Rightarrow> (nat \<times> int \<times> string option) result" where
  "previewAnswer r0 size' =
     (let r = (if pr_HasRange r0 \<and> pr_End r0 < 0 then r0\<lparr>pr_End := size' - 1\<rparr> else r0) in
      if pr_Start r \<ge> size' \<or> pr_HasRange r \<and> pr_End r \<ge> size' then Inl (ErrMsg ''range not satisfiable'')
      else if pr_HasRange r
      then Inr (206, pr_End r - pr_Start r + 1, Some (''bytes '' @ show_int (pr_Start r) @ ''-'' @ show_int (pr_End r) @ ''/'' @ show_int size'))
      else Inr (200, size' - pr_Start r, None))"

text \<open>
  What the loop takes next: a frame, with the number of bytes the client accepted and whether that write failed, a completion, or the end of the request. The loop returns what it
  wrote and whether it is over; it is not when it still waits for frames after the events given.
\<close>

datatype previewEvent = PreviewFrame transferDataFrame "nat option" | PreviewComplete transferCompleteResult | PreviewCancelled

fun previewLoop :: "int \<Rightarrow> int \<Rightarrow> previewEvent list \<Rightarrow> bytes \<times> bool" where
  "previewLoop currentOffset remaining [] = ([], remaining \<le> 0)"
| "previewLoop currentOffset remaining (ev # evs) =
     (if remaining \<le> 0 then ([], True)
      else (case ev of
         PreviewCancelled \<Rightarrow> ([], True)
       | PreviewFrame frame failedAfter \<Rightarrow>
         if df_Error frame \<noteq> None \<or> df_Offset frame \<noteq> currentOffset then ([], True)
         else if df_Data frame = [] then previewLoop currentOffset remaining evs
         else
           let content = take (nat remaining) (df_Data frame) in
           (case failedAfter of
              Some k \<Rightarrow> (take k content, True)
            | None \<Rightarrow> (case previewLoop (currentOffset + int (length content)) (remaining - int (length content)) evs of (more', over) \<Rightarrow> (content @ more', over)))
       | PreviewComplete result \<Rightarrow> if cc_Error result \<noteq> None then ([], True) else previewLoop currentOffset remaining evs))"

section \<open>Content types\<close>

text \<open>\<open>filepath.Ext\<close>: from the last dot of the last element of the path.\<close>

definition filepathExt :: "string \<Rightarrow> string" where
  "filepathExt path =
     (let back = takeWhile (\<lambda>c. c \<noteq> CHR ''/'') (rev path) in
      if CHR ''.'' \<in> set back then CHR ''.'' # rev (takeWhile (\<lambda>c. c \<noteq> CHR ''.'') back) else [])"

definition contentTypes :: "(string list \<times> string) list" where
  "contentTypes =
     [([''.apng''], ''image/apng''), ([''.avif''], ''image/avif''), ([''.bmp''], ''image/bmp''), ([''.gif''], ''image/gif''), ([''.heic''], ''image/heic''),
      ([''.heif''], ''image/heif''), ([''.jpg'', ''.jpeg''], ''image/jpeg''), ([''.png''], ''image/png''), ([''.svg''], ''image/svg+xml''),
      ([''.tif'', ''.tiff''], ''image/tiff''), ([''.webp''], ''image/webp''), ([''.m4v'', ''.mp4''], ''video/mp4''), ([''.mkv''], ''video/x-matroska''),
      ([''.mov''], ''video/quicktime''), ([''.mpeg'', ''.mpg''], ''video/mpeg''), ([''.ogv''], ''video/ogg''), ([''.webm''], ''video/webm''), ([''.aac''], ''audio/aac''),
      ([''.flac''], ''audio/flac''), ([''.m4a''], ''audio/mp4''), ([''.mp3''], ''audio/mpeg''), ([''.oga'', ''.ogg'', ''.opus''], ''audio/ogg''), ([''.wav''], ''audio/wav''),
      ([''.weba''], ''audio/webm''), ([''.pdf''], ''application/pdf''), ([''.htm'', ''.html''], ''text/html; charset=utf-8''),
      ([''.md'', ''.markdown''], ''text/markdown; charset=utf-8''), ([''.json''], ''application/json''), ([''.xml''], ''application/xml'')]"

definition previewContentType :: "(string \<Rightarrow> string) \<Rightarrow> string \<Rightarrow> string" where
  "previewContentType wideLower path =
     (case find (\<lambda>(exts, ct). toLower wideLower (filepathExt path) \<in> set exts) contentTypes of None \<Rightarrow> ''application/octet-stream'' | Some (exts, ct) \<Rightarrow> ct)"

definition previewContentSecurityPolicy :: "string \<Rightarrow> string" where
  "previewContentSecurityPolicy contentType = (if hasPrefix contentType ''text/html'' then ''sandbox'' else [])"

section \<open>What a preview shows\<close>

definition eventFrames :: "previewEvent list \<Rightarrow> transferDataFrame list" where
  "eventFrames evs = concat (map (\<lambda>ev. case ev of PreviewFrame f k \<Rightarrow> [f] | _ \<Rightarrow> []) evs)"

text \<open>Events of a preview that nothing disturbs: writes to the client succeed, completions carry no error and the client stays.\<close>

definition quiet :: "previewEvent \<Rightarrow> bool" where
  "quiet ev \<longleftrightarrow> (case ev of PreviewFrame f k \<Rightarrow> k = None | PreviewComplete c \<Rightarrow> cc_Error c = None | PreviewCancelled \<Rightarrow> False)"

lemma eventFrames_simps [simp]:
  "eventFrames [] = []" "eventFrames (PreviewFrame f k # evs) = f # eventFrames evs" "eventFrames (PreviewComplete c # evs) = eventFrames evs"
  by (simp_all add: eventFrames_def)

lemma previewLoop_quiet:
  assumes "list_all quiet evs" "eventFrames evs = framesAt cur ds" "0 \<le> n"
  shows "previewLoop cur n evs = (take (nat n) (concat ds), n \<le> int (length (concat ds)))"
  using assms
proof (induction evs arbitrary: cur n ds)
  case Nil
  then show ?case by (cases ds) auto
next
  case (Cons ev evs)
  show ?case
  proof (cases "n = 0")
    case False
    then have n: "0 < n" using Cons.prems(3) by simp
    show ?thesis
    proof (cases ev)
      case (PreviewFrame f k)
      then obtain d ds' where ds: "ds = d # ds'" "f = \<lparr>df_Offset = cur, df_Data = d, df_Error = None\<rparr>" "eventFrames evs = framesAt (cur + int (length d)) ds'" "k = None"
        using Cons.prems(1,2) by (cases ds) (auto simp: quiet_def)
      show ?thesis
      proof (cases "length d \<le> nat n")
        case True
        then have c: "take (nat n) d = d" by simp
        have "previewLoop (cur + int (length d)) (n - int (length d)) evs = (take (nat (n - int (length d))) (concat ds'), n - int (length d) \<le> int (length (concat ds')))"
          using Cons.prems(1) ds(3) True n by (intro Cons.IH) auto
        moreover have "nat (n - int (length d)) = nat n - length d" "(n - int (length d) \<le> int (length (concat ds'))) = (n \<le> int (length d) + int (length (concat ds')))" by linarith+
        ultimately show ?thesis using PreviewFrame ds n True Cons.IH [of cur ds' n] Cons.prems(1)
          by (cases "d = []") (simp_all add: c Let_def)
      next
        case False
        then have c: "int (length (take (nat n) d)) = n" "d \<noteq> []" using n by auto
        have "previewLoop cur' 0 evs = ([], True)" for cur' by (cases evs) auto
        then show ?thesis using PreviewFrame ds n False c by (simp add: Let_def)
      qed
    next
      case (PreviewComplete c)
      then show ?thesis using Cons n by (simp add: quiet_def)
    next
      case PreviewCancelled
      then show ?thesis using Cons.prems(1) by (simp add: quiet_def)
    qed
  qed simp
qed

lemma previewLoop_bound: "0 \<le> n \<Longrightarrow> int (length (fst (previewLoop cur n evs))) \<le> n"
proof (induction evs arbitrary: cur n)
  case (Cons ev evs)
  show ?case
  proof (cases ev)
    case (PreviewFrame f k)
    let ?c = "take (nat n) (df_Data f)"
    have "int (length ?c) \<le> n" using Cons.prems by simp
    moreover from this have "int (length (fst (previewLoop (cur + int (length ?c)) (n - int (length ?c)) evs))) \<le> n - int (length ?c)" by (intro Cons.IH) simp
    ultimately show ?thesis using PreviewFrame Cons.IH [OF Cons.prems] Cons.prems by (auto simp: Let_def split: option.split prod.split)
  qed (use Cons in auto)
qed simp

text \<open>A preview serves the requested range. For a file whose size the agent reports, an answer is given only for a range that lies within it, with status 206 for a range and 200 otherwise;
  nothing past the announced length is ever written, and when nothing disturbs it, in whatever order completions and frames are taken, the body is exactly the bytes of the range and as long as announced.\<close>

theorem preview_serves_range:
  assumes "parseFilePreviewRange header = Inr r" "previewAnswer r (int (length F)) = Inr (status, n, contentRange)"
    and "concat ds = requested (previewLength r) (drop (nat (pr_Start r)) F)" "list_all quiet evs" "eventFrames evs = framesAt (pr_Start r) ds"
  shows "0 < n \<and> pr_Start r + n \<le> int (length F) \<and> (pr_HasRange r \<longrightarrow> pr_End r \<ge> 0 \<longrightarrow> n = pr_End r - pr_Start r + 1) \<and> status = (if pr_HasRange r then 206 else 200) \<and>
    (\<forall>evs'. int (length (fst (previewLoop (pr_Start r) n evs'))) \<le> n) \<and>
    previewLoop (pr_Start r) n evs = (take (nat n) (drop (nat (pr_Start r)) F), True)"
proof -
  have r: "0 \<le> pr_Start r" "\<not> pr_HasRange r \<Longrightarrow> pr_Start r = 0" "pr_HasRange r \<Longrightarrow> pr_End r = -1 \<or> pr_Start r \<le> pr_End r"
    using assms(1) by (auto simp: parseFilePreviewRange_def Let_def split: if_splits list.splits option.splits)
  have n: "0 < n" "pr_Start r + n \<le> int (length F)" "status = (if pr_HasRange r then 206 else 200)" "pr_HasRange r \<longrightarrow> pr_End r \<ge> 0 \<longrightarrow> n = pr_End r - pr_Start r + 1"
      "previewLength r = 0 \<or> previewLength r = n"
    using assms(2) r by (auto simp: previewAnswer_def previewLength_def Let_def split: if_splits)
  have "take (nat n) (concat ds) = take (nat n) (drop (nat (pr_Start r)) F)" "n \<le> int (length (concat ds))"
    using n(1,2,5) r(1) by (auto simp: assms(3) requested_def)
  then show ?thesis using n previewLoop_quiet [OF assms(4,5), of n] previewLoop_bound by simp
qed

theorem preview_serves_range_witness:
  "parseFilePreviewRange ''bytes=1-2'' = Inr \<lparr>pr_HasRange = True, pr_Start = 1, pr_End = 2\<rparr> \<and>
   previewLoop 1 2 [PreviewComplete \<lparr>cc_Complete = zeroComplete, cc_Error = None\<rparr>, PreviewFrame \<lparr>df_Offset = 1, df_Data = [8, 9], df_Error = None\<rparr> None] = ([8, 9], True)"
proof -
  let ?r = "\<lparr>pr_HasRange = True, pr_Start = 1, pr_End = 2\<rparr>"
  let ?evs = "[PreviewComplete \<lparr>cc_Complete = zeroComplete, cc_Error = None\<rparr>, PreviewFrame \<lparr>df_Offset = 1, df_Data = [8, 9], df_Error = None\<rparr> None]"
  have p: "parseFilePreviewRange ''bytes=1-2'' = Inr ?r" by code_simp
  have a: "previewAnswer ?r (int (length [7, 8, 9, 10 :: byte])) = Inr (206, 2, Some ''bytes 1-2/4'')" by code_simp
  have "concat [[8, 9 :: byte]] = requested (previewLength ?r) (drop (nat (pr_Start ?r)) [7, 8, 9, 10])" "list_all quiet ?evs" "eventFrames ?evs = framesAt (pr_Start ?r) [[8, 9]]"
    by (simp_all add: requested_def previewLength_def quiet_def)
  from preview_serves_range [OF p a this] p show ?thesis by simp
qed

section \<open>Divergences\<close>

text \<open>An empty file has no preview: without a range the start of the file counts as past its end.\<close>

theorem empty_preview_refused: "previewAnswer \<lparr>pr_HasRange = False, pr_Start = 0, pr_End = 0\<rparr> 0 = Inl (ErrMsg ''range not satisfiable'')"
  by (simp add: previewAnswer_def)

text \<open>
  When the agent sends fewer bytes than it announced, the loop does not end at the completion: it waits until the client goes away.
\<close>

theorem short_preview_waits:
  assumes "list_all quiet evs" "eventFrames evs = framesAt cur ds" "int (length (concat ds)) < n"
  shows "previewLoop cur n (evs @ [PreviewComplete \<lparr>cc_Complete = d, cc_Error = None\<rparr>]) = (concat ds, False)"
proof -
  have "eventFrames (evs @ [PreviewComplete \<lparr>cc_Complete = d, cc_Error = None\<rparr>]) = framesAt cur ds" using assms(2) by (simp add: eventFrames_def)
  moreover have "list_all quiet (evs @ [PreviewComplete \<lparr>cc_Complete = d, cc_Error = None\<rparr>])" using assms(1) by (simp add: quiet_def)
  ultimately show ?thesis using previewLoop_quiet [of _ cur ds n] assms(3) by simp
qed

end
