(* ===== verification/Agent_Paths.thy ===== *)
theory Agent_Paths
  imports File_Policy
begin

text \<open>
  Paths and the host file system under the file sources of the agent, and the two functions of
  \<open>internal/agent/files/service.go\<close> that confine a source to its folder: \<open>resolveLocal\<close> and
  \<open>resolveLocalForWrite\<close>. A cleaned absolute path is the list of its components; the file system maps such lists to
  directories, files and symbolic links, with the operations of package \<open>os\<close> on it, for one process, Unix paths
  and no permission errors. The folder of a source is an absolute path, as \<open>prepareLocalConfigs\<close> requires.
\<close>

section \<open>Paths\<close>

type_synonym path = "string list"

text \<open>\<open>filepath.Clean\<close> of an absolute path, and the string of a cleaned one.\<close>

definition absPath :: "string \<Rightarrow> path" where
  "absPath s = cleanComponents [] (splitSlash s)"

definition pathString :: "path \<Rightarrow> string" where
  "pathString p = (if p = [] then [slash] else rooted p)"

text \<open>\<open>filepath.Join\<close> of an absolute path and a second element, \<open>filepath.Dir\<close> and \<open>filepath.Base\<close>.\<close>

definition joinString :: "string \<Rightarrow> string \<Rightarrow> path" where
  "joinString a b = absPath (if b = [] then a else a @ [slash] @ b)"

definition joinPath :: "path \<Rightarrow> string \<Rightarrow> path" where
  "joinPath p w = cleanComponents (rev p) (splitSlash w)"

definition dirPath :: "path \<Rightarrow> path" where "dirPath p = butlast p"
definition basePath :: "path \<Rightarrow> string" where "basePath p = (if p = [] then [slash] else last p)"

definition cleanPath :: "string \<Rightarrow> string" where
  "cleanPath path = trimPrefix (filepathClean (slash # trimSpace path)) [slash]"

definition resolveSharePath :: "string \<Rightarrow> string" where
  "resolveSharePath path = (let cleaned = cleanPath path in if cleaned = [] then ''.'' else cleaned)"

lemma splitSlash_Nil_iff [simp]: "splitSlash s \<noteq> []"
  by (cases s) (auto split: list.splits)

lemma splitSlash_append: "splitSlash (a @ slash # b) = splitSlash a @ splitSlash b"
  by (induction a) (auto split: list.splits)

lemma splitSlash_word: "slash \<notin> set w \<Longrightarrow> splitSlash w = [w]"
  by (induction w) auto

lemma cleanComponents_append: "cleanComponents acc (xs @ ys) = cleanComponents (rev (cleanComponents acc xs)) ys"
  by (induction acc xs rule: cleanComponents.induct) auto

lemma cleanComponents_id: "list_all component ws \<Longrightarrow> cleanComponents acc ws = rev acc @ ws"
  by (induction ws arbitrary: acc) (auto simp: component_def)

lemma absPath_ok: "list_all component (absPath s)"
  unfolding absPath_def by (rule cleanComponents_ok) (auto simp: list_all_iff dest: splitSlash_no_slash)

lemma splitSlash_rooted: "list_all component ws \<Longrightarrow> splitSlash (rooted ws) = [] # ws"
proof (induction ws rule: rev_induct)
  case (snoc w ws)
  then have "slash \<notin> set w" "splitSlash (rooted ws) = [] # ws" by (simp_all add: component_def)
  then show ?case by (simp add: splitSlash_append splitSlash_word)
qed simp

lemma absPath_pathString [simp]: "list_all component p \<Longrightarrow> absPath (pathString p) = p"
  by (simp add: absPath_def pathString_def splitSlash_rooted cleanComponents_id)

lemma cleanPath_components: "cleanPath path = (if components path = [] then [] else tl (rooted (components path)))"
proof -
  have "filepathClean (slash # trimSpace path) = pathString (components path)"
    by (simp add: filepathClean_def components_def pathString_def Let_def)
  then show ?thesis
    by (cases "components path") (simp_all add: cleanPath_def pathString_def trimPrefix_def hasPrefix_def)
qed

lemma components_ne: "components path = w # ws \<Longrightarrow> component w \<and> list_all component ws"
  using components_ok [of path] by simp

lemma splitSlash_cleanPath: "components path \<noteq> [] \<Longrightarrow> splitSlash (cleanPath path) = components path"
proof -
  assume ne: "components path \<noteq> []"
  then obtain w ws where c: "components path = w # ws" by (cases "components path") auto
  have "splitSlash (slash # (w @ rooted ws)) = [] # (w # ws)" using splitSlash_rooted [OF components_ok [of path]] c by simp
  then have "splitSlash (w @ rooted ws) = w # ws" by simp
  then show ?thesis by (simp add: cleanPath_components c)
qed

lemma cleanPath_Nil_iff: "cleanPath path = [] \<longleftrightarrow> components path = []"
  by (cases "components path") (auto simp: cleanPath_components component_def dest: components_ne)

text \<open>The folder of a source followed by the components of the request.\<close>

lemma joinString_cleanPath: "joinString rootDir (cleanPath path) = absPath rootDir @ components path"
proof (cases "components path = []")
  case True
  then show ?thesis by (simp add: joinString_def cleanPath_Nil_iff)
next
  case False
  then show ?thesis
    using absPath_ok [of rootDir] components_ok [of path]
    by (simp add: joinString_def cleanPath_Nil_iff absPath_def splitSlash_append cleanComponents_append splitSlash_cleanPath cleanComponents_id)
qed

lemma joinPath_component: "component w \<Longrightarrow> joinPath p w = p @ [w]"
  by (simp add: joinPath_def component_def splitSlash_word)

lemma foldl_joinPath: "list_all component ws \<Longrightarrow> foldl joinPath p ws = p @ ws"
  by (induction ws arbitrary: p) (simp_all add: joinPath_component)

section \<open>The file system\<close>

datatype node = Dir | File bytes | Link string

type_synonym fs = "(path, node) gomap"

definition ErrNotExist :: error where "ErrNotExist = ErrMsg ''file does not exist''"
definition ENOTDIR :: error where "ENOTDIR = ErrMsg ''not a directory''"
definition EISDIR :: error where "EISDIR = ErrMsg ''is a directory''"
definition EEXIST :: error where "EEXIST = ErrMsg ''file exists''"
definition ENOTEMPTY :: error where "ENOTEMPTY = ErrMsg ''directory not empty''"
definition EINVAL :: error where "EINVAL = ErrMsg ''invalid argument''"
definition EBUSY :: error where "EBUSY = ErrMsg ''device or resource busy''"
definition ELOOP :: error where "ELOOP = ErrMsg ''too many links''"

lemmas errno_defs = ErrNotExist_def ENOTDIR_def EISDIR_def EEXIST_def ENOTEMPTY_def EINVAL_def EBUSY_def ELOOP_def

text \<open>
  Resolving the remaining components \<open>ws\<close> from the directory \<open>dest\<close>, following at most \<open>n\<close> symbolic links. With
  \<open>create\<close>, the last component may be missing, as for \<open>O_CREATE\<close>.
\<close>

function walk :: "bool \<Rightarrow> fs \<Rightarrow> nat \<Rightarrow> path \<Rightarrow> string list \<Rightarrow> path result" where
  "walk create fs n dest [] = Inr dest"
| "walk create fs n dest (w # ws) =
     (if w = [] \<or> w = ''.'' then walk create fs n dest ws
      else if w = ''..'' then walk create fs n (butlast dest) ws
      else
        (case mget fs (dest @ [w]) of
           None \<Rightarrow> if create \<and> ws = [] then Inr (dest @ [w]) else Inl ErrNotExist
         | Some Dir \<Rightarrow> walk create fs n (dest @ [w]) ws
         | Some (File _) \<Rightarrow> if ws \<noteq> [] then Inl ENOTDIR else Inr (dest @ [w])
         | Some (Link t) \<Rightarrow>
             if n = 0 then Inl ELOOP
             else walk create fs (n - 1) (if hasPrefix t [slash] then [] else dest) (splitSlash t @ ws)))"
  by pat_completeness auto
termination by (relation "measures [\<lambda>(_, _, n, _, _). n, \<lambda>(_, _, _, _, ws). length ws]") auto

text \<open>\<open>filepath.EvalSymlinks\<close> gives up after 255 links, the kernel after 40.\<close>

definition evalSymlinks :: "fs \<Rightarrow> path \<Rightarrow> path result" where
  "evalSymlinks fs p = walk False fs 255 [] p"

definition osPath :: "fs \<Rightarrow> path \<Rightarrow> path result" where
  "osPath fs p = walk False fs 40 [] p"

definition osCreatePath :: "fs \<Rightarrow> path \<Rightarrow> path result" where
  "osCreatePath fs p = walk True fs 40 [] p"

text \<open>Every entry has a name and lies in a directory, and the root is a directory.\<close>

definition fs_wf :: "fs \<Rightarrow> bool" where
  "fs_wf fs \<longleftrightarrow> mwf fs \<and> mget fs [] = Some Dir
     \<and> list_all (\<lambda>(p, _). list_all component p \<and> (p = [] \<or> mget fs (butlast p) = Some Dir)) fs"

text \<open>The directory \<open>p\<close> and all above it are directories and not links.\<close>

definition dirs :: "fs \<Rightarrow> path \<Rightarrow> bool" where
  "dirs fs p \<longleftrightarrow> (\<forall>q. prefix q p \<longrightarrow> mget fs q = Some Dir)"

lemma fs_wf_entry:
  assumes "fs_wf fs" "mget fs p = Some n"
  shows "list_all component p" "p \<noteq> [] \<Longrightarrow> mget fs (butlast p) = Some Dir"
  using assms map_of_SomeD [OF assms(2)] by (auto simp: fs_wf_def list_all_iff)

lemma fs_wf_root [simp]: "fs_wf fs \<Longrightarrow> mget fs [] = Some Dir"
  by (simp add: fs_wf_def)

lemma fs_wf_dirs: "fs_wf fs \<Longrightarrow> mget fs p = Some Dir \<Longrightarrow> dirs fs p"
proof (induction p rule: rev_induct)
  case (snoc w p)
  have "mget fs p = Some Dir" using fs_wf_entry(2) [OF snoc.prems] by simp
  then have "dirs fs p" using snoc by blast
  then show ?case using snoc.prems by (simp add: dirs_def)
qed (simp add: dirs_def)

lemma fs_wf_none: "fs_wf fs \<Longrightarrow> mget fs p \<noteq> Some Dir \<Longrightarrow> strict_prefix p q \<Longrightarrow> mget fs q = None"
proof (induction q rule: rev_induct)
  case (snoc w q)
  have "mget fs q \<noteq> Some Dir"
  proof (cases "p = q")
    case False
    then show ?thesis using snoc by (auto simp: strict_prefix_def)
  qed (use snoc in simp)
  then show ?case using fs_wf_entry(2) [OF snoc.prems(1), of "q @ [w]"] by fastforce
qed simp

lemma fs_wf_component: "fs_wf fs \<Longrightarrow> mget fs (p @ [w]) = Some n \<Longrightarrow> component w"
  using fs_wf_entry(1) [of fs "p @ [w]"] by simp

section \<open>Resolved paths\<close>

text \<open>Where a walk ends: below directories only, at an entry that is not a link, or at a missing one.\<close>

lemma dirs_simps: "dirs fs [] \<longleftrightarrow> mget fs [] = Some Dir" "dirs fs (p @ [w]) \<longleftrightarrow> dirs fs p \<and> mget fs (p @ [w]) = Some Dir"
  by (auto simp: dirs_def)

lemma dirs_butlast: "dirs fs p \<Longrightarrow> dirs fs (butlast p)"
  using prefix_order.trans prefixeq_butlast unfolding dirs_def by blast

lemma dirs_Nil: "fs_wf fs \<Longrightarrow> dirs fs []"
  by (simp add: dirs_simps)

definition settled :: "bool \<Rightarrow> fs \<Rightarrow> path \<Rightarrow> bool" where
  "settled create fs p \<longleftrightarrow>
     (case mget fs p of None \<Rightarrow> create | Some Dir \<Rightarrow> True | Some (File _) \<Rightarrow> True | Some (Link _) \<Rightarrow> False)
     \<and> (p = [] \<or> dirs fs (butlast p)) \<and> list_all component p"

lemma splitSlash_plain: "list_all (\<lambda>w. slash \<notin> set w) (splitSlash t)"
  by (auto simp: list_all_iff dest: splitSlash_no_slash)

lemma walk_settled:
  assumes "fs_wf fs" "dirs fs dest" "list_all component dest" "list_all (\<lambda>w. slash \<notin> set w) ws"
    and "walk create fs n dest ws = Inr p"
  shows "settled create fs p"
  using assms
proof (induction create fs n dest ws rule: walk.induct)
  case (1 create fs n dest)
  then have "mget fs dest = Some Dir" by (simp add: dirs_def)
  then show ?case using 1 by (auto simp: settled_def dirs_butlast)
next
  case (2 create fs n dest w ws)
  have ok: "w \<noteq> [] \<Longrightarrow> w \<noteq> ''.'' \<Longrightarrow> w \<noteq> ''..'' \<Longrightarrow> component w" using 2(8) by (simp add: component_def)
  have butlast: "list_all component (butlast dest)" using 2(7) by (auto simp: list_all_iff dest: in_set_butlastD)
  show ?case
  proof (cases "w = [] \<or> w = ''.'' \<or> w = ''..''")
    case True
    then show ?thesis using 2(1,2,5-) butlast dirs_butlast by (auto split: if_splits)
  next
    case False
    note here = False ok 2(5-9)
    show ?thesis
    proof (cases "mget fs (dest @ [w])")
      case None
      then show ?thesis using here by (auto simp: settled_def split: if_splits)
    next
      case (Some nd)
      show ?thesis
      proof (cases nd)
        case Dir
        then show ?thesis using here Some 2(3) [OF _ _ Some] by (auto simp: dirs_simps)
      next
        case (File d)
        then show ?thesis using here Some by (auto simp: settled_def split: if_splits)
      next
        case (Link t)
        then show ?thesis using here Some splitSlash_plain [of t] 2(4) [OF _ _ Some Link] dirs_Nil [OF 2(5)]
          by (auto split: if_splits)
      qed
    qed
  qed
qed

lemma component_plain: "list_all component p \<Longrightarrow> list_all (\<lambda>w. slash \<notin> set w) p"
  by (auto simp: list_all_iff component_def)

lemma evalSymlinks_settled: "fs_wf fs \<Longrightarrow> list_all component p \<Longrightarrow> evalSymlinks fs p = Inr r \<Longrightarrow> settled False fs r"
  unfolding evalSymlinks_def by (rule walk_settled [of fs "[]" p]) (auto simp: dirs_Nil component_plain)

text \<open>A settled path is its own resolution, for every walk.\<close>

lemma walk_along: "list_all component ws \<Longrightarrow> dirs fs (dest @ ws) \<Longrightarrow> walk create fs n dest (ws @ vs) = walk create fs n (dest @ ws) vs"
proof (induction ws arbitrary: dest)
  case (Cons w ws)
  have "mget fs (dest @ [w]) = Some Dir" using Cons.prems(2) by (simp add: dirs_def)
  then show ?case using Cons.IH [of "dest @ [w]"] Cons.prems by (auto simp: component_def)
qed simp

lemma walk_settled_id: "settled create fs p \<Longrightarrow> walk create fs n [] p = Inr p"
proof (cases p rule: rev_cases)
  case (snoc q w)
  assume "settled create fs p"
  then show ?thesis using snoc walk_along [of q fs "[]" create n "[w]"]
    by (auto simp: settled_def component_def split: option.splits node.splits)
qed simp

lemma settled_create: "settled False fs p \<Longrightarrow> settled True fs p"
  by (auto simp: settled_def split: option.splits)

lemma settled_os:
  "settled False fs p \<Longrightarrow> osPath fs p = Inr p" "settled True fs p \<Longrightarrow> osCreatePath fs p = Inr p"
  "settled False fs p \<Longrightarrow> evalSymlinks fs p = Inr p"
  by (simp_all add: osPath_def osCreatePath_def evalSymlinks_def walk_settled_id)

section \<open>Resolving a request\<close>

definition ErrDisabled :: error where "ErrDisabled = ErrMsg ''files root is not configured''"
definition ErrEscapes :: error where "ErrEscapes = ErrMsg ''path escapes root''"

text \<open>\<open>resolved != root && !strings.HasPrefix(resolved, root+"/")\<close>, negated.\<close>

definition within :: "path \<Rightarrow> path \<Rightarrow> bool" where
  "within root p \<longleftrightarrow> pathString p = pathString root \<or> hasPrefix (pathString p) (pathString root @ [slash])"

definition resolveLocal :: "fs \<Rightarrow> string \<Rightarrow> string \<Rightarrow> path result" where
  "resolveLocal fs rootDir0 path =
     (let rootDir = trimSpace rootDir0 in
      if rootDir = [] then Inl ErrDisabled
      else
        let resolved = joinString rootDir (cleanPath path) in
        bindR (evalSymlinks fs (absPath rootDir)) (\<lambda>root.
        bindR (evalSymlinks fs resolved) (\<lambda>resolved'.
        if within root resolved' then Inr resolved' else Inl ErrEscapes)))"

text \<open>
  The loop of \<open>resolveLocalForWrite\<close> over the parents of a missing path. When no parent exists the code returns the
  error variable of the enclosing scope, which is nil: the empty path, \<open>None\<close>, without an error.
\<close>

function resolveMissing :: "fs \<Rightarrow> path \<Rightarrow> path \<Rightarrow> string list \<Rightarrow> path option result" where
  "resolveMissing fs root existingParent missing =
     (case evalSymlinks fs existingParent of
        Inr realParent \<Rightarrow>
          if \<not> within root realParent then Inl ErrEscapes else Inr (Some (foldl joinPath realParent (rev missing)))
      | Inl e \<Rightarrow>
          if e \<noteq> ErrNotExist then Inl e
          else if existingParent = root \<or> dirPath existingParent = existingParent then Inr None
          else resolveMissing fs root (dirPath existingParent) (missing @ [basePath existingParent]))"
  by pat_completeness auto
termination
proof (relation "measure (\<lambda>(_, _, p, _). length p)", goal_cases)
  case (2 fs root existingParent missing e)
  then show ?case by (cases existingParent) (auto simp: dirPath_def)
qed simp

declare resolveMissing.simps [simp del]

definition resolveLocalForWrite :: "fs \<Rightarrow> string \<Rightarrow> string \<Rightarrow> path option result" where
  "resolveLocalForWrite fs rootDir0 path =
     (let rootDir = trimSpace rootDir0 in
      if rootDir = [] then Inl ErrDisabled
      else
        case resolveLocal fs rootDir path of
          Inr resolved \<Rightarrow> Inr (Some resolved)
        | Inl e \<Rightarrow>
            if e \<noteq> ErrNotExist then Inl e
            else
              let joined = joinString rootDir (cleanPath path) in
              bindR (evalSymlinks fs (absPath rootDir)) (\<lambda>root.
              resolveMissing fs root (dirPath joined) [basePath joined]))"

section \<open>Containment\<close>

lemma pathString_slash: "list_all component p \<Longrightarrow> hasPrefix (pathString p) [slash, slash] \<longleftrightarrow> False"
  by (cases p) (auto simp: pathString_def component_def hasPrefix_def neq_Nil_conv)

lemma pathString_inject: "list_all component p \<Longrightarrow> list_all component q \<Longrightarrow> pathString q = pathString p \<longleftrightarrow> q = p"
  using absPath_pathString by metis

text \<open>Containment of strings is containment of components, except that the root of the file system contains nothing.\<close>

lemma within_iff:
  assumes "list_all component root" "list_all component p"
  shows "within root p \<longleftrightarrow> p = root \<or> root \<noteq> [] \<and> prefix root p"
proof (cases "root = []")
  case True
  then have "within root p \<longleftrightarrow> pathString p = pathString root"
    using pathString_slash [OF assms(2)] by (auto simp: within_def pathString_def [of "[]"])
  then show ?thesis using True pathString_inject [OF assms] by auto
next
  case False
  then have root: "pathString root = rooted root" by (simp add: pathString_def)
  show ?thesis
  proof
    assume "within root p"
    then consider "pathString p = pathString root" | t where "pathString p = rooted root @ slash # t"
      by (auto simp: within_def root hasPrefix_iff)
    then show "p = root \<or> root \<noteq> [] \<and> prefix root p"
    proof cases
      case 1
      then show ?thesis using pathString_inject [OF assms] by auto
    next
      case 2
      then have "p \<noteq> []" using False by (cases root) (auto simp: pathString_def)
      then have "rooted root @ slash # t = rooted p" using 2 by (simp add: pathString_def)
      then show ?thesis using rooted_prefix [OF assms, of "slash # t"] False by simp
    qed
  next
    assume "p = root \<or> root \<noteq> [] \<and> prefix root p"
    then obtain us where "p = root @ us" by (auto simp: prefix_def)
    then show "within root p" by (cases us) (auto simp: within_def pathString_def hasPrefix_def False)
  qed
qed

lemma within_prefix: "list_all component root \<Longrightarrow> list_all component p \<Longrightarrow> within root p \<Longrightarrow> prefix root p"
  by (auto simp: within_iff)

lemma settled_component: "settled c fs p \<Longrightarrow> list_all component p"
  by (simp add: settled_def)

text \<open>A resolved path exists, is below the resolved folder, and no component of it is a link.\<close>

lemma resolveLocal_ok:
  assumes "fs_wf fs" "resolveLocal fs rootDir path = Inr p"
  shows "\<exists>root. evalSymlinks fs (absPath (trimSpace rootDir)) = Inr root \<and> settled False fs root \<and> settled False fs p \<and> prefix root p"
proof -
  from assms(2) obtain root where
    r: "evalSymlinks fs (absPath (trimSpace rootDir)) = Inr root"
    "evalSymlinks fs (joinString (trimSpace rootDir) (cleanPath path)) = Inr p" "within root p"
    by (auto simp: resolveLocal_def Let_def bindR_Inr_iff split: if_splits)
  have "settled False fs root" by (rule evalSymlinks_settled [OF assms(1) absPath_ok r(1)])
  moreover have "settled False fs p"
    by (rule evalSymlinks_settled [OF assms(1) _ r(2)]) (simp add: joinString_def absPath_ok)
  ultimately show ?thesis using r within_prefix settled_component by blast
qed

text \<open>A path that does not resolve while its parent does: its last component is missing or a link.\<close>

lemma walk_missing:
  assumes "fs_wf fs" "dirs fs dest" "list_all component dest" "list_all (\<lambda>w. slash \<notin> set w) ws" "component m"
    and "walk False fs n dest ws = Inr r" "walk False fs n dest (ws @ [m]) = Inl ErrNotExist"
  shows "mget fs r = Some Dir \<and> (\<exists>n'. walk False fs n' r [m] = Inl ErrNotExist)"
  using assms
proof (induction False fs n dest ws rule: walk.induct)
  case (1 fs n dest)
  then show ?case by (auto simp: dirs_def simp del: walk.simps(2))
next
  case (2 fs n dest w ws)
  have ok: "w \<noteq> [] \<Longrightarrow> w \<noteq> ''.'' \<Longrightarrow> w \<noteq> ''..'' \<Longrightarrow> component w" using 2(8) by (simp add: component_def)
  have butlast: "list_all component (butlast dest)" using 2(7) by (auto simp: list_all_iff dest: in_set_butlastD)
  show ?case
  proof (cases "w = [] \<or> w = ''.'' \<or> w = ''..''")
    case True
    then show ?thesis using 2(1,2,5-) butlast dirs_butlast by (auto split: if_splits)
  next
    case False
    note here = False ok 2(5-)
    show ?thesis
    proof (cases "mget fs (dest @ [w])")
      case None
      then show ?thesis using here by auto
    next
      case (Some nd)
      show ?thesis
      proof (cases nd)
        case Dir
        then show ?thesis using here Some 2(3) [OF _ _ Some] by (auto simp: dirs_simps)
      next
        case (File d)
        then show ?thesis using here Some by (auto simp: ENOTDIR_def ErrNotExist_def split: if_splits)
      next
        case (Link t)
        then show ?thesis using here Some splitSlash_plain [of t] 2(4) [OF _ _ Some Link] dirs_Nil [OF 2(5)]
          by (auto simp: ELOOP_def ErrNotExist_def split: if_splits)
      qed
    qed
  qed
qed

text \<open>A name that leads nowhere: there is no such entry, or it is a link whose target is missing.\<close>

definition dangles :: "fs \<Rightarrow> path \<Rightarrow> string \<Rightarrow> bool" where
  "dangles fs d m \<longleftrightarrow> (\<exists>n. walk False fs n d [m] = Inl ErrNotExist)"

lemma dangles_node: "component m \<Longrightarrow> dangles fs d m \<Longrightarrow> mget fs (d @ [m]) = None \<or> (\<exists>t. mget fs (d @ [m]) = Some (Link t))"
  unfolding dangles_def component_def
  by (cases "mget fs (d @ [m])"; cases "the (mget fs (d @ [m]))") auto

lemma evalSymlinks_missing:
  assumes "fs_wf fs" "list_all component (p @ [m])" "evalSymlinks fs p = Inr r" "evalSymlinks fs (p @ [m]) = Inl ErrNotExist"
  shows "mget fs r = Some Dir \<and> dangles fs r m"
  using walk_missing [of fs "[]" p m 255 r] assms dirs_Nil [OF assms(1)] component_plain [of p] by (simp add: evalSymlinks_def dangles_def)

lemma evalSymlinks_Nil [simp]: "evalSymlinks fs [] = Inr []"
  by (simp add: evalSymlinks_def)

text \<open>The loop stops at a parent that exists, so it never returns the empty path.\<close>

lemma resolveMissing_ok:
  assumes "fs_wf fs" "settled False fs root" "list_all component p" "list_all component missing" "missing \<noteq> []"
    and "evalSymlinks fs (p @ [last missing]) = Inl ErrNotExist" "resolveMissing fs root p missing = Inr r"
  shows "\<exists>d m ms p'. r = Some (d @ m # ms) \<and> prefix root d \<and> settled False fs d \<and> mget fs d = Some Dir
    \<and> dangles fs d m \<and> list_all component (m # ms) \<and> p @ rev missing = p' @ m # ms \<and> evalSymlinks fs p' = Inr d"
  using assms
proof (induction fs root p missing rule: resolveMissing.induct)
  case (1 fs root p missing)
  show ?case
  proof (cases "evalSymlinks fs p")
    case (Inr d)
    have d: "settled False fs d" by (rule evalSymlinks_settled [OF 1(2,4) Inr])
    obtain m ms where rev: "rev missing = m # ms" using 1(6) by (cases "rev missing") auto
    have m: "last missing = m" using rev hd_rev [of missing] by simp
    have "list_all component (rev missing)" using 1(5) by (simp add: list_all_iff)
    then have ms: "list_all component (m # ms)" by (simp only: rev)
    have "r = Some (d @ m # ms)" "within root d"
      using 1(8) Inr foldl_joinPath [OF ms, of d] by (auto simp: resolveMissing.simps [of fs root p] rev simp del: foldl.simps split: if_splits)
    moreover have "mget fs d = Some Dir \<and> dangles fs d m"
      by (rule evalSymlinks_missing [OF 1(2) _ Inr]) (use 1(4,7) m ms in auto)
    ultimately show ?thesis
      using d ms within_prefix [OF settled_component [OF 1(3)] settled_component [OF d]] rev Inr by blast
  next
    case (Inl e)
    have "p \<noteq> []" using Inl by auto
    then obtain q w where p: "p = q @ [w]" by (cases p rule: rev_cases) auto
    have "p \<noteq> root" using Inl settled_os(3) [OF 1(3)] by auto
    moreover have e: "e = ErrNotExist" using 1(8) Inl by (auto simp: resolveMissing.simps [of fs root p] split: if_splits)
    ultimately have "resolveMissing fs root q (missing @ [w]) = Inr r"
      using 1(8) Inl p by (simp add: resolveMissing.simps [of fs root "q @ [w]"] dirPath_def basePath_def)
    then show ?thesis
      using 1(1) [OF Inl] 1(2-5) Inl e p \<open>p \<noteq> root\<close> by (simp add: dirPath_def basePath_def)
  qed
qed

lemma resolveLocalForWrite_ok:
  assumes "fs_wf fs" "resolveLocalForWrite fs rootDir path = Inr r"
  shows "\<exists>root. evalSymlinks fs (absPath (trimSpace rootDir)) = Inr root \<and> settled False fs root
    \<and> ((\<exists>p. r = Some p \<and> settled False fs p \<and> prefix root p \<and> resolveLocal fs rootDir path = Inr p)
       \<or> (\<exists>d m ms p'. r = Some (d @ m # ms) \<and> prefix root d \<and> settled False fs d \<and> mget fs d = Some Dir
            \<and> dangles fs d m \<and> list_all component (m # ms)
            \<and> absPath (trimSpace rootDir) @ components path = p' @ m # ms \<and> evalSymlinks fs p' = Inr d))"
proof (cases "resolveLocal fs (trimSpace rootDir) path")
  case (Inr p)
  then have "r = Some p" using assms(2) by (auto simp: resolveLocalForWrite_def Let_def split: if_splits)
  moreover have "resolveLocal fs rootDir path = Inr p" using Inr by (simp add: resolveLocal_def)
  ultimately show ?thesis using resolveLocal_ok [OF assms(1) Inr] by auto
next
  case (Inl e)
  let ?rootDir = "trimSpace rootDir" and ?joined = "absPath (trimSpace rootDir) @ components path"
  obtain root where e: "e = ErrNotExist" "?rootDir \<noteq> []" and root: "evalSymlinks fs (absPath ?rootDir) = Inr root"
    and r: "resolveMissing fs root (dirPath ?joined) [basePath ?joined] = Inr r"
    using assms(2) Inl by (auto simp: resolveLocalForWrite_def Let_def bindR_Inr_iff joinString_cleanPath split: if_splits)
  have s: "settled False fs root" by (rule evalSymlinks_settled [OF assms(1) absPath_ok root])
  have joined: "evalSymlinks fs ?joined = Inl ErrNotExist"
    using Inl e root by (auto simp: resolveLocal_def Let_def joinString_cleanPath bindR_def ErrEscapes_def ErrNotExist_def split: sum.splits if_splits)
  then have "?joined \<noteq> []" by (metis Inl_not_Inr evalSymlinks_Nil)
  then obtain q w where qw: "?joined = q @ [w]" by (cases ?joined rule: rev_cases) auto
  have ok: "list_all component (q @ [w])" unfolding qw [symmetric] using absPath_ok components_ok by simp
  show ?thesis
    using resolveMissing_ok [OF assms(1) s, of q "[w]" r] r ok joined s root by (auto simp: qw dirPath_def basePath_def)
qed

text \<open>
  So a path resolved for writing is the empty path in no case, and if it names no link its own resolution is
  itself: a write to it stays below the folder.
\<close>

lemma resolveLocalForWrite_new:
  assumes "fs_wf fs" "resolveLocalForWrite fs rootDir path = Inr r"
  obtains root p where "r = Some p" "evalSymlinks fs (absPath (trimSpace rootDir)) = Inr root" "settled False fs root"
    "prefix root p" "list_all component p"
  using resolveLocalForWrite_ok [OF assms] that by (fastforce simp: settled_component)

text \<open>However many links are allowed, a name that leads nowhere resolves for no walk, nor does anything below it.\<close>

lemma walk_error_extend: "walk False fs n dest ws = Inl e \<Longrightarrow> walk False fs n dest (ws @ vs) = Inl e"
  by (induction False fs n dest ws rule: walk.induct) (auto split: if_splits option.splits node.splits)

lemma walk_not_exist: "walk False fs n dest ws = Inl ErrNotExist \<Longrightarrow> \<exists>e. walk False fs n' dest ws = Inl e"
proof (induction False fs n dest ws arbitrary: n' rule: walk.induct)
  case (2 fs n dest w ws)
  show ?case
  proof (cases "w = [] \<or> w = ''.'' \<or> w = ''..''")
    case True
    then show ?thesis using 2(1,2) 2(5) by (auto split: if_splits)
  next
    case False
    show ?thesis
    proof (cases "mget fs (dest @ [w])")
      case None
      then show ?thesis using False by simp
    next
      case (Some nd)
      show ?thesis
      proof (cases nd)
        case Dir
        then show ?thesis using False Some 2(3) [OF _ _ Some Dir] 2(5) by auto
      next
        case (File d)
        then show ?thesis using False Some 2(5) by (auto simp: ENOTDIR_def ErrNotExist_def split: if_splits)
      next
        case (Link t)
        then show ?thesis using False Some 2(4) [OF _ _ Some Link, of "n' - 1"] 2(5)
          by (auto simp: ELOOP_def ErrNotExist_def split: if_splits)
      qed
    qed
  qed
qed simp

lemma dangles_walk: "dangles fs d m \<Longrightarrow> \<exists>e. walk False fs n d (m # ms) = Inl e"
proof -
  assume "dangles fs d m"
  then obtain n' where "walk False fs n' d [m] = Inl ErrNotExist" unfolding dangles_def by blast
  from walk_not_exist [OF this] obtain e where "walk False fs n d [m] = Inl e" by blast
  from walk_error_extend [OF this, of ms] show ?thesis by (auto simp del: walk.simps)
qed

end
