(* ===== verification/Agent_Host.thy ===== *)
theory Agent_Host
  imports Agent_Paths
begin

text \<open>
  The calls of package \<open>os\<close> that the file sources of the agent make, on the file system of \<open>Agent_Paths\<close>: what they
  change and what they leave, and that each keeps the file system well formed. A call follows symbolic links as the
  kernel does: the last component too when a file is opened or read, only the parents when an entry is made, removed or
  renamed.
\<close>

section \<open>Calls\<close>

text \<open>\<open>os.Stat\<close>: the node a path leads to.\<close>

definition osStat :: "fs \<Rightarrow> path \<Rightarrow> node result" where
  "osStat fs p = bindR (osPath fs p) (\<lambda>q. case mget fs q of None \<Rightarrow> Inl ErrNotExist | Some n \<Rightarrow> Inr n)"

text \<open>The entry a path names, its last component not followed, and \<open>os.Lstat\<close>.\<close>

definition osEntry :: "fs \<Rightarrow> path \<Rightarrow> path result" where
  "osEntry fs p =
     (if p = [] then Inr []
      else bindR (osPath fs (butlast p)) (\<lambda>d. if mget fs d = Some Dir then Inr (d @ [last p]) else Inl ENOTDIR))"

definition osLstat :: "fs \<Rightarrow> path \<Rightarrow> node result" where
  "osLstat fs p = bindR (osEntry fs p) (\<lambda>q. case mget fs q of None \<Rightarrow> Inl ErrNotExist | Some n \<Rightarrow> Inr n)"

definition children :: "fs \<Rightarrow> path \<Rightarrow> (string \<times> node) list" where
  "children fs q = map (\<lambda>(p, n). (last p, n)) (filter (\<lambda>(p, _). p \<noteq> [] \<and> butlast p = q) fs)"

definition osReadDir :: "fs \<Rightarrow> path \<Rightarrow> (string \<times> node) list result" where
  "osReadDir fs p = bindR (osPath fs p) (\<lambda>q. if mget fs q = Some Dir then Inr (children fs q) else Inl ENOTDIR)"

definition osReadFile :: "fs \<Rightarrow> path \<Rightarrow> bytes result" where
  "osReadFile fs p =
     bindR (osStat fs p) (\<lambda>n. case n of File d \<Rightarrow> Inr d | _ \<Rightarrow> Inl EISDIR)"

definition osMkdir :: "fs \<Rightarrow> path \<Rightarrow> fs \<times> unit result" where
  "osMkdir fs p =
     (case osEntry fs p of
        Inl e \<Rightarrow> (fs, Inl e)
      | Inr q \<Rightarrow> if mget fs q = None then (mput q Dir fs, Inr ()) else (fs, Inl EEXIST))"

function osMkdirAll :: "fs \<Rightarrow> path \<Rightarrow> fs \<times> unit result" where
  "osMkdirAll fs p =
     (case osStat fs p of
        Inr n \<Rightarrow> if n = Dir then (fs, Inr ()) else (fs, Inl ENOTDIR)
      | Inl e \<Rightarrow>
          if p = [] then (fs, Inl e)
          else
            (case osMkdirAll fs (butlast p) of
               (fs1, Inl e1) \<Rightarrow> (fs1, Inl e1)
             | (fs1, Inr _) \<Rightarrow>
                 (case osMkdir fs1 p of
                    (fs2, Inr u) \<Rightarrow> (fs2, Inr u)
                  | (fs2, Inl e2) \<Rightarrow> if osLstat fs2 p = Inr Dir then (fs2, Inr ()) else (fs2, Inl e2))))"
  by pat_completeness auto
termination by (relation "measure (\<lambda>(_, p). length p)") auto

declare osMkdirAll.simps [simp del]

text \<open>\<open>os.OpenFile\<close> with \<open>O_CREATE|O_WRONLY\<close>, and \<open>O_TRUNC\<close> if \<open>trunc\<close>: the file opened. A handle names its file by its path.\<close>

definition osOpenWrite :: "fs \<Rightarrow> path \<Rightarrow> bool \<Rightarrow> fs \<times> path result" where
  "osOpenWrite fs p trunc =
     (case osCreatePath fs p of
        Inl e \<Rightarrow> (fs, Inl e)
      | Inr q \<Rightarrow>
          (case mget fs q of
             None \<Rightarrow> (mput q (File []) fs, Inr q)
           | Some (File _) \<Rightarrow> (if trunc then mput q (File []) fs else fs, Inr q)
           | Some _ \<Rightarrow> (fs, Inl EISDIR)))"

definition osWriteFile :: "fs \<Rightarrow> path \<Rightarrow> bytes \<Rightarrow> fs \<times> unit result" where
  "osWriteFile fs p data =
     (case osOpenWrite fs p True of
        (fs1, Inl e) \<Rightarrow> (fs1, Inl e)
      | (fs1, Inr q) \<Rightarrow> (mput q (File data) fs1, Inr ()))"

definition osRemove :: "fs \<Rightarrow> path \<Rightarrow> fs \<times> unit result" where
  "osRemove fs p =
     (case osEntry fs p of
        Inl e \<Rightarrow> (fs, Inl e)
      | Inr q \<Rightarrow>
          if q = [] then (fs, Inl EBUSY)
          else if mget fs q = None then (fs, Inl ErrNotExist)
          else if mget fs q = Some Dir \<and> children fs q \<noteq> [] then (fs, Inl ENOTEMPTY)
          else (mdel q fs, Inr ()))"

definition osRemoveAll :: "fs \<Rightarrow> path \<Rightarrow> fs \<times> unit result" where
  "osRemoveAll fs p =
     (case osEntry fs p of
        Inl e \<Rightarrow> if e = ErrNotExist then (fs, Inr ()) else (fs, Inl e)
      | Inr q \<Rightarrow>
          if q = [] then (filter (\<lambda>(p', _). p' = []) fs, Inl EBUSY)
          else (filter (\<lambda>(p', _). \<not> prefix q p') fs, Inr ()))"

text \<open>
  \<open>os.Rename\<close> refuses a directory as the new name before it asks the kernel. What the kernel moves is the entry and
  everything below it; a file in its way is replaced.
\<close>

definition moveTree :: "path \<Rightarrow> path \<Rightarrow> fs \<Rightarrow> fs" where
  "moveTree a b fs = map (\<lambda>(p, n). (if prefix a p then b @ drop (length a) p else p, n)) (mdel b fs)"

definition osRename :: "fs \<Rightarrow> path \<Rightarrow> path \<Rightarrow> fs \<times> unit result" where
  "osRename fs old new =
     (case osLstat fs old of
        Inl e \<Rightarrow> (fs, Inl e)
      | Inr n \<Rightarrow>
          (case (osEntry fs old, osEntry fs new) of
             (Inr a, Inr b) \<Rightarrow>
               if mget fs b = Some Dir \<and> (old = new \<or> a \<noteq> b) then (fs, Inl EEXIST)
               else if a = b then (fs, Inr ())
               else if a = [] then (fs, Inl EBUSY)
               else if prefix a b then (fs, Inl EINVAL)
               else if n = Dir \<and> mget fs b \<noteq> None then (fs, Inl ENOTDIR)
               else (moveTree a b fs, Inr ())
           | (_, Inl e) \<Rightarrow> (fs, Inl e)
           | (Inl e, _) \<Rightarrow> (fs, Inl e)))"

section \<open>Well-formedness\<close>

lemma fs_wf_iff:
  "fs_wf fs \<longleftrightarrow> mwf fs \<and> mget fs [] = Some Dir
     \<and> (\<forall>p n. mget fs p = Some n \<longrightarrow> list_all component p \<and> (p = [] \<or> mget fs (butlast p) = Some Dir))"
  (is "_ \<longleftrightarrow> _ \<and> _ \<and> ?entries")
proof (cases "mwf fs")
  case True
  then have "(p, n) \<in> set fs \<longleftrightarrow> mget fs p = Some n" for p n by (simp add: mwf_def)
  then show ?thesis unfolding fs_wf_def list_all_iff by fastforce
qed (simp add: fs_wf_def)

lemma fs_wf_mput:
  assumes "fs_wf fs" "list_all component q" "q \<noteq> []" "mget fs (butlast q) = Some Dir" "n = Dir \<or> mget fs q \<noteq> Some Dir"
  shows "fs_wf (mput q n fs)"
  using assms unfolding fs_wf_iff by (auto split: if_splits)

text \<open>A subtree can go, if the root stays.\<close>

lemma mget_removeAll: "mwf fs \<Longrightarrow> mget (filter (\<lambda>(p, _). \<not> prefix q p) fs) p = (if prefix q p then None else mget fs p)"
  using mget_filter [of fs "\<lambda>p _. \<not> prefix q p" p] by (auto simp: case_prod_unfold split: option.splits)

lemma fs_wf_removeAll: "fs_wf fs \<Longrightarrow> q \<noteq> [] \<Longrightarrow> fs_wf (filter (\<lambda>(p, _). \<not> prefix q p) fs)"
  unfolding fs_wf_iff by (auto simp: mget_removeAll prefix_order.dual_order.trans [OF prefixeq_butlast] split: if_splits)

lemma children_iff: "fs_wf fs \<Longrightarrow> (w, n) \<in> set (children fs q) \<longleftrightarrow> mget fs (q @ [w]) = Some n"
proof -
  assume "fs_wf fs"
  then have "(p, n) \<in> set fs \<longleftrightarrow> mget fs p = Some n" for p n by (simp add: fs_wf_def mwf_def)
  moreover have "p \<noteq> [] \<and> butlast p = q \<and> last p = w \<longleftrightarrow> p = q @ [w]" for p :: path
    by (metis append_butlast_last_id butlast_snoc last_snoc snoc_eq_iff_butlast)
  ultimately show ?thesis unfolding children_def by force
qed

lemma fs_wf_mdel:
  assumes "fs_wf fs" "q \<noteq> []" "mget fs q \<noteq> Some Dir \<or> children fs q = []"
  shows "fs_wf (mdel q fs)"
proof -
  have "butlast p = q \<Longrightarrow> p \<noteq> [] \<Longrightarrow> mget fs p = None" for p
  proof (cases "mget fs q = Some Dir")
    case True
    assume p: "butlast p = q" "p \<noteq> []"
    have "(last p, n) \<notin> set (children fs q)" for n using True assms(3) by simp
    then show "mget fs p = None" using children_iff [OF assms(1), of "last p" _ q] p by (metis append_butlast_last_id not_None_eq)
  next
    case False
    assume p: "butlast p = q" "p \<noteq> []"
    then show "mget fs p = None" using fs_wf_entry(2) [OF assms(1)] False by (metis not_None_eq)
  qed
  then show ?thesis using assms unfolding fs_wf_iff by (fastforce split: if_splits)
qed

lemma option_eqI: "(\<And>n. x = Some n \<longleftrightarrow> y = Some n) \<Longrightarrow> x = y"
  by (cases x; cases y) auto

text \<open>A moved tree, when neither path is below the other and nothing is below the new one.\<close>

lemma moveTree_facts:
  assumes "mwf fs" "\<not> prefix a b" "\<not> prefix b a" "\<And>p. strict_prefix b p \<Longrightarrow> mget fs p = None"
  shows "mwf (moveTree a b fs)"
    and "mget (moveTree a b fs) p = (if prefix b p then mget fs (a @ drop (length b) p) else if prefix a p then None else mget fs p)"
proof -
  let ?f = "\<lambda>p. if prefix a p then b @ drop (length a) p else p"
  have eq: "moveTree a b fs = map (\<lambda>(p, n). (?f p, n)) (mdel b fs)" by (simp add: moveTree_def)
  have entry: "(p, n) \<in> set (mdel b fs) \<longleftrightarrow> mget fs p = Some n \<and> p \<noteq> b" for p n
    using assms(1) mwf_mdel [OF assms(1), of b] by (metis map_of_eq_Some_iff mget_mdel mwf_def not_None_eq option.distinct(1))
  have b: "\<not> prefix b p" if "(p, n) \<in> set (mdel b fs)" for p n
    using that assms(4) [of p] by (auto simp: entry strict_prefix_def)
  have inj: "inj_on ?f (fst ` set (mdel b fs))"
  proof (rule inj_onI)
    fix p q
    assume "p \<in> fst ` set (mdel b fs)" "q \<in> fst ` set (mdel b fs)" and f: "?f p = ?f q"
    then have nb: "\<not> prefix b p" "\<not> prefix b q" using b by auto
    show "p = q"
      using f nb by (auto simp: prefix_def split: if_splits)
  qed
  have keys: "map fst (moveTree a b fs) = map ?f (map fst (mdel b fs))" by (auto simp: eq)
  have "distinct (map fst (mdel b fs))" using mwf_mdel [OF assms(1), of b] by (simp add: mwf_def)
  then show wf: "mwf (moveTree a b fs)" unfolding mwf_def keys using inj by (simp add: distinct_map comp_inj_on)
  have mem: "(p, n) \<in> set (moveTree a b fs) \<longleftrightarrow> (\<exists>p0. (p0, n) \<in> set (mdel b fs) \<and> ?f p0 = p)" for n
    unfolding eq by (auto simp: image_iff Bex_def)
  have "(p, n) \<in> set (moveTree a b fs) \<longleftrightarrow>
      (if prefix b p then mget fs (a @ drop (length b) p) = Some n else \<not> prefix a p \<and> mget fs p = Some n)" for n
  proof (cases "prefix b p")
    case True
    then obtain s where p: "p = b @ s" by (auto simp: prefix_def)
    have "p0 = a @ s" if "(p0, n) \<in> set (mdel b fs)" "?f p0 = p" for p0
      using b [OF that(1)] that(2) p by (auto simp: prefix_def split: if_splits)
    moreover have "?f (a @ s) = p" by (simp add: p)
    ultimately have "(p, n) \<in> set (moveTree a b fs) \<longleftrightarrow> (a @ s, n) \<in> set (mdel b fs)" unfolding mem by blast
    moreover have "a @ s \<noteq> b" using assms(2) by auto
    ultimately show ?thesis by (simp add: p entry)
  next
    case False
    then have "?f p0 = p \<longleftrightarrow> p0 = p \<and> \<not> prefix a p" for p0
      by (auto split: if_splits)
    then have "(p, n) \<in> set (moveTree a b fs) \<longleftrightarrow> (p, n) \<in> set (mdel b fs) \<and> \<not> prefix a p"
      unfolding mem by simp
    then show ?thesis using False by (auto simp: entry)
  qed
  then have "mget (moveTree a b fs) p = Some n \<longleftrightarrow>
      (if prefix b p then mget fs (a @ drop (length b) p) = Some n else \<not> prefix a p \<and> mget fs p = Some n)" for n
    using wf by (simp add: mwf_def)
  then show "mget (moveTree a b fs) p = (if prefix b p then mget fs (a @ drop (length b) p) else if prefix a p then None else mget fs p)"
    by (intro option_eqI) simp
qed

lemma fs_wf_moveTree:
  assumes wf: "fs_wf fs" and a: "a \<noteq> []" "mget fs a \<noteq> None" and b: "b \<noteq> []" "list_all component b" "mget fs (butlast b) = Some Dir"
    and apart: "\<not> prefix a b" "mget fs b \<noteq> Some Dir"
  shows "fs_wf (moveTree a b fs)"
    and "mget (moveTree a b fs) p = (if prefix b p then mget fs (a @ drop (length b) p) else if prefix a p then None else mget fs p)"
proof -
  have "mwf fs" using wf by (simp add: fs_wf_def)
  moreover have none: "mget fs q = None" if "strict_prefix b q" for q by (rule fs_wf_none [OF wf apart(2) that])
  moreover have ba: "\<not> prefix b a" using none a(2) apart(1) by (auto simp: strict_prefix_def)
  ultimately have facts: "mwf (moveTree a b fs)"
    "mget (moveTree a b fs) p = (if prefix b p then mget fs (a @ drop (length b) p) else if prefix a p then None else mget fs p)" for p
    using moveTree_facts [of fs a b] apart(1) by blast+
  show "mget (moveTree a b fs) p = (if prefix b p then mget fs (a @ drop (length b) p) else if prefix a p then None else mget fs p)"
    by (rule facts(2))
  have "list_all component p \<and> (p = [] \<or> mget (moveTree a b fs) (butlast p) = Some Dir)" if n: "mget (moveTree a b fs) p = Some n" for p n
  proof (cases "prefix b p")
    case True
    then obtain s where p: "p = b @ s" by (auto simp: prefix_def)
    have s: "mget fs (a @ s) = Some n" using n by (simp add: facts(2) p)
    show ?thesis
    proof (cases s rule: rev_cases)
      case Nil
      have "\<not> prefix a (butlast b)" "\<not> prefix b (butlast b)"
        using apart(1) prefix_order.trans [OF _ prefixeq_butlast] b(1) prefix_length_le [of b "butlast b"] by (auto simp: neq_Nil_conv)
      then show ?thesis using b p Nil by (simp add: facts(2))
    next
      case (snoc t w)
      have "list_all component (a @ s)" "mget fs (butlast (a @ s)) = Some Dir" using fs_wf_entry [OF wf s] a(1) by auto
      then show ?thesis using snoc b(2) by (simp add: p facts(2) butlast_append)
    qed
  next
    case False
    then have s: "mget fs p = Some n" "\<not> prefix a p" using n by (auto simp: facts(2) split: if_splits)
    have "p \<noteq> [] \<Longrightarrow> \<not> prefix b (butlast p) \<and> \<not> prefix a (butlast p)"
      using False s(2) prefix_order.trans [OF _ prefixeq_butlast] by blast
    then show ?thesis using fs_wf_entry [OF wf s(1)] by (auto simp: facts(2))
  qed
  moreover have "mget (moveTree a b fs) [] = Some Dir" using a(1) b(1) wf by (simp add: facts(2))
  ultimately show "fs_wf (moveTree a b fs)" using facts(1) by (simp add: fs_wf_iff)
qed

section \<open>Calls on resolved paths\<close>

lemma settled_entry: "fs_wf fs \<Longrightarrow> settled c fs p \<Longrightarrow> osEntry fs p = Inr p"
proof (cases p rule: rev_cases)
  case (snoc q w)
  assume "fs_wf fs" "settled c fs p"
  then have q: "dirs fs q" "list_all component q" using snoc by (auto simp: settled_def)
  then have "mget fs q = Some Dir" by (simp add: dirs_def)
  moreover from this q have "settled False fs q" using dirs_butlast by (auto simp: settled_def)
  ultimately show ?thesis using settled_os(1) [of fs q] by (simp add: osEntry_def snoc)
qed (simp add: osEntry_def)

lemma settled_stat: "settled False fs p \<Longrightarrow> mget fs p = Some n \<Longrightarrow> osStat fs p = Inr n"
  by (simp add: osStat_def settled_os)

lemma settled_lstat: "fs_wf fs \<Longrightarrow> settled c fs p \<Longrightarrow> mget fs p = Some n \<Longrightarrow> osLstat fs p = Inr n"
  by (simp add: osLstat_def settled_entry)

lemma settled_node: "settled False fs p \<Longrightarrow> (\<exists>d. mget fs p = Some (File d)) \<or> mget fs p = Some Dir"
  by (auto simp: settled_def split: option.splits node.splits)

lemma settled_dirs: "settled c fs p \<Longrightarrow> mget fs p = Some Dir \<Longrightarrow> dirs fs p"
  by (cases p rule: rev_cases) (auto simp: settled_def dirs_simps)

text \<open>\<open>os.MkdirAll\<close> below a directory: it makes the missing ones, or fails on a link that leads nowhere and changes nothing.\<close>

lemma mkdirAll_exists: "settled False fs p \<Longrightarrow> osMkdirAll fs p = (if mget fs p = Some Dir then (fs, Inr ()) else (fs, Inl ENOTDIR))"
  using settled_node [of fs p] settled_stat [of fs p] by (auto simp: osMkdirAll.simps [of fs p])

lemma dangles_stat:
  assumes "settled False fs d" "mget fs d = Some Dir" "dangles fs d m"
  shows "\<exists>e. osStat fs (d @ m # ms) = Inl e"
proof -
  have "walk False fs 40 [] (d @ m # ms) = walk False fs 40 d (m # ms)"
    using walk_along [of d fs "[]" False 40 "m # ms"] settled_dirs [OF assms(1,2)] settled_component [OF assms(1)] by simp
  then show ?thesis using dangles_walk [OF assms(3), of 40 ms] by (auto simp: osStat_def osPath_def simp del: walk.simps)
qed

lemma mkdirAll_link:
  assumes "fs_wf fs" "settled False fs d" "mget fs d = Some Dir" "dangles fs d m" "mget fs (d @ [m]) = Some (Link t)"
  shows "osMkdirAll fs (d @ m # ms) = (fs, Inl EEXIST)"
proof (induction ms rule: rev_induct)
  case Nil
  have "component m" using fs_wf_component [OF assms(1,5)] .
  have entry: "osEntry fs (d @ [m]) = Inr (d @ [m])" using settled_os(1) [OF assms(2)] assms(3) by (simp add: osEntry_def)
  obtain e where "osStat fs (d @ [m]) = Inl e" using dangles_stat [OF assms(2-4), of "[]"] by auto
  then show ?case
    using mkdirAll_exists [OF assms(2)] assms(3,5) by (simp add: osMkdirAll.simps [of fs "d @ [m]"] osMkdir_def osLstat_def entry)
next
  case (snoc w ms)
  obtain e where "osStat fs (d @ m # ms @ [w]) = Inl e" using dangles_stat [OF assms(2-4), of "ms @ [w]"] by auto
  then show ?case using snoc by (simp add: osMkdirAll.simps [of fs "d @ m # ms @ [w]"] butlast_append)
qed

lemma dangles_none: "component m \<Longrightarrow> mget fs (d @ [m]) = None \<Longrightarrow> dangles fs d m"
  by (auto simp: dangles_def component_def)

lemma settled_dir: "fs_wf fs \<Longrightarrow> mget fs p = Some Dir \<Longrightarrow> settled False fs p"
  using fs_wf_dirs [of fs p] fs_wf_entry(1) [of fs p] dirs_butlast by (auto simp: settled_def)

lemma entry_below: "fs_wf fs \<Longrightarrow> mget fs p = Some Dir \<Longrightarrow> osEntry fs (p @ [w]) = Inr (p @ [w])"
  using settled_os(1) [OF settled_dir] by (simp add: osEntry_def)

lemma mkdirAll_new:
  assumes "fs_wf fs" "mget fs d = Some Dir" "mget fs (d @ [m]) = None" "list_all component (m # ms)"
  shows "\<exists>fs'. osMkdirAll fs (d @ m # ms) = (fs', Inr ()) \<and> fs_wf fs'
    \<and> (\<forall>q. mget fs' q = (if prefix q (d @ m # ms) \<and> \<not> prefix q d then Some Dir else mget fs q))"
  using assms(4)
proof (induction ms rule: rev_induct)
  case Nil
  then have m: "component m" by simp
  note d = settled_dir [OF assms(1,2)]
  obtain e where "osStat fs (d @ [m]) = Inl e" using dangles_stat [OF d assms(2) dangles_none [OF m assms(3)], of "[]"] by auto
  then have "osMkdirAll fs (d @ [m]) = (mput (d @ [m]) Dir fs, Inr ())"
    using mkdirAll_exists [OF d] assms(2,3) entry_below [OF assms(1,2)] by (simp add: osMkdirAll.simps [of fs "d @ [m]"] osMkdir_def)
  moreover have "fs_wf (mput (d @ [m]) Dir fs)"
    by (rule fs_wf_mput [OF assms(1)]) (use m assms(2) settled_component [OF d] in auto)
  moreover have "mget (mput (d @ [m]) Dir fs) q = (if prefix q (d @ [m]) \<and> \<not> prefix q d then Some Dir else mget fs q)" for q
    by auto
  ultimately show ?case by blast
next
  case (snoc w ms)
  let ?p = "d @ m # ms"
  obtain fs1 where fs1: "osMkdirAll fs ?p = (fs1, Inr ())" "fs_wf fs1"
    and get: "\<And>q. mget fs1 q = (if prefix q ?p \<and> \<not> prefix q d then Some Dir else mget fs q)"
    using snoc by auto
  have p: "mget fs1 ?p = Some Dir" by (simp add: get prefix_def)
  have "component m" using snoc.prems by simp
  then obtain e where stat: "osStat fs (?p @ [w]) = Inl e"
    using dangles_stat [OF settled_dir [OF assms(1,2)] assms(2) dangles_none [OF _ assms(3)], of "ms @ [w]"] by auto
  have "mget fs (?p @ [w]) = None"
    by (rule fs_wf_none [OF assms(1), of "d @ [m]"]) (use assms(3) in \<open>auto simp: strict_prefix_def prefix_def\<close>)
  then have none: "mget fs1 (?p @ [w]) = None" by (auto simp: get dest: prefix_length_le)
  have "osMkdirAll fs (?p @ [w]) = (mput (?p @ [w]) Dir fs1, Inr ())"
    using stat fs1(1) none entry_below [OF fs1(2) p, of w]
    by (simp add: osMkdirAll.simps [of fs "d @ m # ms @ [w]"] osMkdir_def butlast_append)
  moreover have "fs_wf (mput (?p @ [w]) Dir fs1)"
    by (rule fs_wf_mput [OF fs1(2)])
      (use p snoc.prems fs_wf_entry(1) [OF fs1(2) p] in \<open>auto simp: butlast_append\<close>)
  moreover have "mget (mput (?p @ [w]) Dir fs1) q = (if prefix q (?p @ [w]) \<and> \<not> prefix q d then Some Dir else mget fs q)" for q
  proof (cases "q = ?p @ [w]")
    case True
    then show ?thesis by (auto dest: prefix_length_le)
  next
    case False
    then have "prefix q (?p @ [w]) \<longleftrightarrow> prefix q ?p" by (auto simp del: append_Cons append_assoc)
    then show ?thesis using False by (simp add: get)
  qed
  ultimately show ?case by auto
qed

end
