(* ===== verification/Agent_Local.thy ===== *)
theory Agent_Local
  imports Agent_Host Base64 "HOL-Library.List_Lexorder" "HOL-Library.Char_ord" "HOL-Library.Product_Lexorder"
begin

text \<open>
  The operations of the agent on a host folder, \<open>internal/agent/files/service.go\<close>: each resolves the request below the
  folder and makes the calls of \<open>Agent_Host\<close>. The size that \<open>Stat\<close> reports of a directory is the host's, an argument.
  Modification times are left out.
\<close>

section \<open>Items\<close>

record FileItem =
  fi_Path :: string
  fi_Name :: string
  fi_IsDirectory :: bool
  fi_Size :: int
  fi_SourceID :: string

fun nodeSize :: "int \<Rightarrow> node \<Rightarrow> int" where
  "nodeSize dirSize Dir = dirSize"
| "nodeSize dirSize (File d) = int (length d)"
| "nodeSize dirSize (Link t) = int (length t)"

definition fileItem :: "int \<Rightarrow> string \<Rightarrow> string \<Rightarrow> node \<Rightarrow> FileItem" where
  "fileItem dirSize path name n =
     \<lparr>fi_Path = path, fi_Name = name, fi_IsDirectory = (n = Dir), fi_Size = nodeSize dirSize n, fi_SourceID = []\<rparr>"

definition sortItems :: "FileItem list \<Rightarrow> FileItem list" where
  "sortItems = sort_key (\<lambda>i. (\<not> fi_IsDirectory i, fi_Name i))"

definition decorateFileItemsSource :: "FileItem list \<Rightarrow> string \<Rightarrow> FileItem list" where
  "decorateFileItemsSource items sourceID = map (\<lambda>i. i\<lparr>fi_SourceID := sourceID\<rparr>) items"

text \<open>\<open>filepath.Join\<close> of a cleaned relative path and a name.\<close>

definition relJoin :: "string \<Rightarrow> string \<Rightarrow> string" where
  "relJoin a name = (if a = [] then name else a @ [slash] @ name)"

definition ErrCanceled :: error where "ErrCanceled = ErrMsg ''context canceled''"

section \<open>Operations\<close>

text \<open>\<open>cancelled\<close>: the context of the request is done when the entries are read.\<close>

definition listLocal :: "int \<Rightarrow> bool \<Rightarrow> fs \<Rightarrow> string \<Rightarrow> string \<Rightarrow> FileItem list result" where
  "listLocal dirSize cancelled fs root path =
     bindR (resolveLocal fs root path) (\<lambda>resolved.
     bindR (osReadDir fs resolved) (\<lambda>entries.
     if cancelled \<and> entries \<noteq> [] then Inl ErrCanceled
     else Inr (sortItems (map (\<lambda>(name, n). fileItem dirSize (relJoin (cleanPath path) name) name n) entries))))"

definition statLocal :: "int \<Rightarrow> fs \<Rightarrow> string \<Rightarrow> string \<Rightarrow> FileItem result" where
  "statLocal dirSize fs root path =
     bindR (resolveLocal fs root path) (\<lambda>resolved.
     bindR (osStat fs resolved) (\<lambda>n. Inr (fileItem dirSize (cleanPath path) (basePath resolved) n)))"

text \<open>The empty path, which \<open>resolveLocalForWrite\<close> never returns, would name no file.\<close>

definition forWrite :: "fs \<Rightarrow> string \<Rightarrow> string \<Rightarrow> (path \<Rightarrow> fs \<times> 'a result) \<Rightarrow> fs \<times> 'a result" where
  "forWrite fs root path k =
     (case resolveLocalForWrite fs root path of
        Inl e \<Rightarrow> (fs, Inl e)
      | Inr None \<Rightarrow> (fs, Inl ErrNotExist)
      | Inr (Some resolved) \<Rightarrow> k resolved)"

definition afterMkdir :: "fs \<Rightarrow> path \<Rightarrow> (fs \<Rightarrow> fs \<times> 'a result) \<Rightarrow> fs \<times> 'a result" where
  "afterMkdir fs p k = (case osMkdirAll fs p of (fs1, Inl e) \<Rightarrow> (fs1, Inl e) | (fs1, Inr _) \<Rightarrow> k fs1)"

definition createDirectoryLocal :: "fs \<Rightarrow> string \<Rightarrow> string \<Rightarrow> fs \<times> unit result" where
  "createDirectoryLocal fs root path = forWrite fs root path (osMkdirAll fs)"

definition renameLocal :: "fs \<Rightarrow> string \<Rightarrow> string \<Rightarrow> string \<Rightarrow> fs \<times> unit result" where
  "renameLocal fs root from to =
     (case resolveLocal fs root from of
        Inl e \<Rightarrow> (fs, Inl e)
      | Inr resolvedFrom \<Rightarrow>
          forWrite fs root to (\<lambda>resolvedTo. afterMkdir fs (dirPath resolvedTo) (\<lambda>fs1. osRename fs1 resolvedFrom resolvedTo)))"

definition deleteLocal :: "fs \<Rightarrow> string \<Rightarrow> string \<Rightarrow> bool \<Rightarrow> fs \<times> unit result" where
  "deleteLocal fs root path isDirectory =
     (case resolveLocal fs root path of
        Inl e \<Rightarrow> (fs, Inl e)
      | Inr resolved \<Rightarrow> if isDirectory then osRemoveAll fs resolved else osRemove fs resolved)"

definition downloadLocal :: "fs \<Rightarrow> string \<Rightarrow> string \<Rightarrow> string result" where
  "downloadLocal fs root path =
     bindR (resolveLocal fs root path) (\<lambda>resolved. bindR (osReadFile fs resolved) (\<lambda>data. Inr (EncodeToString data)))"

definition uploadLocal :: "fs \<Rightarrow> string \<Rightarrow> string \<Rightarrow> string \<Rightarrow> fs \<times> unit result" where
  "uploadLocal fs root path contentBase64 =
     forWrite fs root path (\<lambda>resolved.
       case DecodeString contentBase64 of
         None \<Rightarrow> (fs, Inl (ErrMsg ''illegal base64 data''))
       | Some data \<Rightarrow> afterMkdir fs (dirPath resolved) (\<lambda>fs1. osWriteFile fs1 resolved data))"

text \<open>The file a reader is on and its size; the reader starts at the offset.\<close>

definition openReaderLocal :: "fs \<Rightarrow> string \<Rightarrow> string \<Rightarrow> int \<Rightarrow> (path \<times> int) result" where
  "openReaderLocal fs root path offset =
     bindR (resolveLocal fs root path) (\<lambda>resolved.
     bindR (osPath fs resolved) (\<lambda>q.
     case mget fs q of
       None \<Rightarrow> Inl ErrNotExist
     | Some n \<Rightarrow>
         if n = Dir then Inl (ErrMsg ''path is a directory'')
         else if offset < 0 \<or> offset > nodeSize 0 n then Inl (ErrMsg ''invalid read offset'')
         else Inr (q, nodeSize 0 n)))"

text \<open>The file a writer is on and its size, where the writer starts. A resumed upload drops what lies behind its offset.\<close>

definition fileBytes :: "fs \<Rightarrow> path \<Rightarrow> bytes" where
  "fileBytes fs q = (case mget fs q of Some (File d) \<Rightarrow> d | _ \<Rightarrow> [])"

definition openWriterLocal :: "fs \<Rightarrow> string \<Rightarrow> string \<Rightarrow> int \<Rightarrow> fs \<times> (path \<times> int) result" where
  "openWriterLocal fs root path offset =
     forWrite fs root path (\<lambda>resolved. afterMkdir fs (dirPath resolved) (\<lambda>fs1.
       case osOpenWrite fs1 resolved (offset = 0) of
         (fs2, Inl e) \<Rightarrow> (fs2, Inl e)
       | (fs2, Inr q) \<Rightarrow>
           if offset = 0 then (fs2, Inr (q, 0))
           else
             let sz = int (length (fileBytes fs2 q)) in
             if offset < 0 \<or> offset > sz then (fs2, Inl (ErrMsg ''invalid write offset''))
             else if sz > offset then (mput q (File (take (nat offset) (fileBytes fs2 q))) fs2, Inr (q, offset))
             else (fs2, Inr (q, sz))))"

definition openRandomWriterLocal :: "fs \<Rightarrow> string \<Rightarrow> string \<Rightarrow> fs \<times> path result" where
  "openRandomWriterLocal fs root path =
     forWrite fs root path (\<lambda>resolved. afterMkdir fs (dirPath resolved) (\<lambda>fs1. osOpenWrite fs1 resolved True))"

section \<open>Confinement\<close>

text \<open>Nothing outside a directory has changed.\<close>

definition confined :: "path \<Rightarrow> fs \<Rightarrow> fs \<Rightarrow> bool" where
  "confined root fs fs' \<longleftrightarrow> fs_wf fs' \<and> (\<forall>q. \<not> prefix root q \<longrightarrow> mget fs' q = mget fs q)"

lemma confined_refl: "fs_wf fs \<Longrightarrow> confined root fs fs"
  by (simp add: confined_def)

lemma confined_trans: "confined root fs fs1 \<Longrightarrow> confined root fs1 fs2 \<Longrightarrow> confined root fs fs2"
  by (simp add: confined_def)

lemma confined_put:
  assumes "fs_wf fs" "settled True fs q" "prefix root q" "mget fs q \<noteq> Some Dir"
  shows "confined root fs (mput q (File d) fs)"
proof -
  have "q \<noteq> []" using assms(1,4) by auto
  moreover from this have "mget fs (butlast q) = Some Dir" using assms(2) by (auto simp: settled_def dirs_def)
  ultimately have "fs_wf (mput q (File d) fs)" using assms settled_component [OF assms(2)] by (intro fs_wf_mput) auto
  then show ?thesis using assms(3) by (auto simp: confined_def)
qed

lemma confined_remove: "fs_wf fs \<Longrightarrow> settled False fs p \<Longrightarrow> prefix root p \<Longrightarrow> confined root fs (fst (osRemove fs p))"
  using settled_entry [of fs False p] fs_wf_mdel [of fs p] confined_refl [of fs root]
  by (auto simp: osRemove_def confined_def)

lemma fs_wf_only_root: "fs_wf fs \<Longrightarrow> fs_wf (filter (\<lambda>(p, _). p = []) fs)"
proof -
  assume wf: "fs_wf fs"
  then have "mwf fs" by (simp add: fs_wf_def)
  then have "mget (filter (\<lambda>(p, _). p = []) fs) p = (if p = [] then mget fs p else None)" for p
    using mget_filter [of fs "\<lambda>p _. p = []" p] by (auto simp: case_prod_unfold split: option.splits)
  then show ?thesis using wf \<open>mwf fs\<close> by (auto simp: fs_wf_iff split: if_splits)
qed

lemma confined_removeAll: "fs_wf fs \<Longrightarrow> settled False fs p \<Longrightarrow> prefix root p \<Longrightarrow> confined root fs (fst (osRemoveAll fs p))"
proof -
  assume a: "fs_wf fs" "settled False fs p" "prefix root p"
  then have "mwf fs" by (simp add: fs_wf_def)
  show ?thesis
  proof (cases "p = []")
    case True
    then show ?thesis using a settled_entry [OF a(1,2)] fs_wf_only_root [OF a(1)] by (simp add: osRemoveAll_def confined_def)
  next
    case False
    then show ?thesis using a settled_entry [OF a(1,2)] fs_wf_removeAll [OF a(1) False] mget_removeAll [OF \<open>mwf fs\<close>, of p]
      by (auto simp: osRemoveAll_def confined_def dest: prefix_order.trans)
  qed
qed

text \<open>Making the directories above a resolved path: it fails and changes nothing, or they are there and nothing else changed.\<close>

definition extends :: "fs \<Rightarrow> fs \<Rightarrow> bool" where
  "extends fs fs' \<longleftrightarrow> (\<forall>q. mget fs' q = mget fs q \<or> mget fs q = None \<and> mget fs' q = Some Dir)"

lemma extendsD: "extends fs fs' \<Longrightarrow> mget fs q = Some n \<Longrightarrow> mget fs' q = Some n"
  by (auto simp: extends_def dest: spec [of _ q])

lemma between: "prefix root d \<Longrightarrow> prefix q (d @ ms) \<Longrightarrow> \<not> prefix q d \<Longrightarrow> prefix root q"
  by (meson prefixI prefix_order.trans prefix_same_cases)

lemma mkdirAll_below:
  assumes "fs_wf fs" "mget fs d = Some Dir" "dangles fs d m" "list_all component (m # ms)" "prefix root d"
  shows "osMkdirAll fs (d @ m # ms) = (fs, Inl EEXIST)
    \<or> (\<exists>fs1. osMkdirAll fs (d @ m # ms) = (fs1, Inr ()) \<and> confined root fs fs1 \<and> extends fs fs1
         \<and> mget fs1 (d @ m # ms) = Some Dir \<and> (\<forall>q. strict_prefix (d @ m # ms) q \<longrightarrow> mget fs1 q = None))"
proof (cases "mget fs (d @ [m])")
  case None
  obtain fs1 where fs1: "osMkdirAll fs (d @ m # ms) = (fs1, Inr ())" "fs_wf fs1"
    and get: "\<And>q. mget fs1 q = (if prefix q (d @ m # ms) \<and> \<not> prefix q d then Some Dir else mget fs q)"
    using mkdirAll_new [OF assms(1,2) None assms(4)] by blast
  have none: "mget fs q = None" if "prefix (d @ [m]) q" for q
    using that None fs_wf_none [OF assms(1), of "d @ [m]" q] by (cases "q = d @ [m]") (auto simp: strict_prefix_def)
  have "prefix (d @ [m]) q" if "prefix q (d @ m # ms)" "\<not> prefix q d" for q
    using that between [of "d @ [m]" "d @ [m]" q ms] by (cases "prefix q (d @ [m])") auto
  then have "extends fs fs1" using none by (auto simp: extends_def get)
  moreover have "confined root fs fs1" using fs1(2) between [OF assms(5)] by (auto simp: confined_def get)
  moreover have "mget fs1 (d @ m # ms) = Some Dir" by (simp add: get prefix_def)
  moreover have "mget fs1 q = None" if "strict_prefix (d @ m # ms) q" for q
  proof -
    have "prefix (d @ [m]) q" using that by (auto simp: strict_prefix_def prefix_def)
    moreover have "\<not> prefix q (d @ m # ms)" using that prefix_order.less_le_not_le by blast
    ultimately show ?thesis using none by (simp add: get)
  qed
  ultimately show ?thesis using fs1(1) by blast
next
  case (Some n)
  then obtain t where "mget fs (d @ [m]) = Some (Link t)" using dangles_node [OF _ assms(3)] assms(4) by auto
  then show ?thesis using mkdirAll_link [OF assms(1) settled_dir [OF assms(1,2)] assms(2,3)] by blast
qed

lemma resolved_parent:
  assumes "fs_wf fs" "resolveLocalForWrite fs rootDir path = Inr r"
  obtains root p where "r = Some p" "evalSymlinks fs (absPath (trimSpace rootDir)) = Inr root" "prefix root p" "list_all component p"
    and "osMkdirAll fs (dirPath p) = (fs, Inl EEXIST)
      \<or> (\<exists>fs1. osMkdirAll fs (dirPath p) = (fs1, Inr ()) \<and> confined root fs fs1 \<and> extends fs fs1
           \<and> mget fs1 (dirPath p) = Some Dir \<and> mget fs1 p = mget fs p)"
proof -
  obtain root where root: "evalSymlinks fs (absPath (trimSpace rootDir)) = Inr root" "settled False fs root"
    and cs: "(\<exists>p. r = Some p \<and> settled False fs p \<and> prefix root p)
       \<or> (\<exists>d m ms p'. r = Some (d @ m # ms) \<and> prefix root d \<and> settled False fs d \<and> mget fs d = Some Dir
            \<and> dangles fs d m \<and> list_all component (m # ms)
            \<and> absPath (trimSpace rootDir) @ components path = p' @ m # ms \<and> evalSymlinks fs p' = Inr d)"
    using resolveLocalForWrite_ok [OF assms] by blast
  have stay: "osMkdirAll fs d = (fs, Inr ()) \<and> confined root fs fs \<and> extends fs fs \<and> mget fs d = Some Dir" if "mget fs d = Some Dir" for d
    using mkdirAll_exists [OF settled_dir [OF assms(1) that]] that confined_refl [OF assms(1)] by (simp add: extends_def)
  from cs show ?thesis
  proof (elim disjE exE conjE)
    fix p
    assume p: "r = Some p" "settled False fs p" "prefix root p"
    have "mget fs (dirPath p) = Some Dir" using p(2) assms(1) by (cases "p = []") (auto simp: dirPath_def settled_def dirs_def)
    from that [OF p(1) root(1) p(3) settled_component [OF p(2)]] stay [OF this] show ?thesis by blast
  next
    fix d m ms p'
    assume p: "r = Some (d @ m # ms)" "prefix root d" "settled False fs d" "mget fs d = Some Dir" "dangles fs d m" "list_all component (m # ms)"
    have pre: "prefix root (d @ m # ms)" using p(2) by (simp add: prefix_prefix)
    have comp: "list_all component (d @ m # ms)" using p(3,6) by (simp add: settled_component)
    show ?thesis
    proof (cases ms rule: rev_cases)
      case Nil
      from that [OF p(1) root(1) pre comp] stay [OF p(4)] show ?thesis by (auto simp: Nil dirPath_def)
    next
      case (snoc us w)
      have "dirPath (d @ m # ms) = d @ m # us" by (simp add: snoc dirPath_def butlast_append)
      moreover have "strict_prefix (d @ m # us) (d @ m # ms)" by (simp add: snoc strict_prefix_def)
      moreover have "mget fs (d @ m # ms) = None"
        by (rule fs_wf_none [OF assms(1), of "d @ [m]"])
          (use dangles_node [OF _ p(5)] p(6) snoc in \<open>auto simp: strict_prefix_def prefix_def\<close>)
      ultimately show ?thesis
        using that [OF p(1) root(1) pre comp] mkdirAll_below [OF assms(1) p(4,5) _ p(2), of us] p(6) snoc by auto
    qed
  qed
qed

text \<open>Opening a path that is not a link acts on that path.\<close>

lemma settled_below:
  assumes "fs_wf fs" "mget fs (dirPath p) = Some Dir" "list_all component p" "\<forall>t. mget fs p \<noteq> Some (Link t)"
  shows "settled True fs p"
  using assms fs_wf_dirs [OF assms(1,2)] by (auto simp: settled_def dirPath_def split: option.splits node.splits)

lemma openWrite_settled:
  assumes "fs_wf fs" "settled True fs p"
  shows "osOpenWrite fs p trunc =
    (case mget fs p of
       None \<Rightarrow> (mput p (File []) fs, Inr p)
     | Some (File _) \<Rightarrow> (if trunc then mput p (File []) fs else fs, Inr p)
     | Some _ \<Rightarrow> (fs, Inl EISDIR))"
  by (simp add: osOpenWrite_def settled_os(2) [OF assms(2)])

lemma openWrite_confined:
  assumes "fs_wf fs" "settled True fs p" "prefix root p"
  shows "confined root fs (fst (osOpenWrite fs p trunc))"
    and "osOpenWrite fs p trunc = (fs', Inr q) \<Longrightarrow> q = p \<and> settled True fs' p \<and> mget fs' p \<noteq> Some Dir"
proof -
  show "confined root fs (fst (osOpenWrite fs p trunc))"
    using confined_put [OF assms] confined_refl [OF assms(1)]
    by (auto simp: openWrite_settled [OF assms(1,2)] split: option.splits node.splits)
  have up: "dirs (mput p (File d) fs) (butlast p)" if "p \<noteq> []" for d
  proof -
    have "\<not> prefix p (butlast p)" using that prefix_length_le [of p "butlast p"] by (auto simp: neq_Nil_conv)
    then show ?thesis using assms(2) that by (auto simp: settled_def dirs_def)
  qed
  then show "osOpenWrite fs p trunc = (fs', Inr q) \<Longrightarrow> q = p \<and> settled True fs' p \<and> mget fs' p \<noteq> Some Dir"
    using assms(1,2) by (auto simp: openWrite_settled [OF assms(1,2)] settled_def split: option.splits node.splits if_splits)
qed

lemma writeFile_confined:
  assumes "fs_wf fs" "settled True fs p" "prefix root p"
  shows "confined root fs (fst (osWriteFile fs p data))"
proof -
  obtain fs' r where o: "osOpenWrite fs p True = (fs', r)" by (cases "osOpenWrite fs p True")
  have c: "confined root fs fs'" using openWrite_confined(1) [OF assms, of True] o by simp
  show ?thesis
  proof (cases r)
    case (Inr q)
    with o openWrite_confined(2) [OF assms, of True fs' q] have q: "q = p" "settled True fs' p" "mget fs' p \<noteq> Some Dir" by auto
    have "confined root fs' (mput p (File data) fs')" by (rule confined_put [OF _ q(2) assms(3) q(3)]) (use c in \<open>simp add: confined_def\<close>)
    then show ?thesis using confined_trans [OF c] o Inr q(1) by (simp add: osWriteFile_def)
  qed (use c o in \<open>simp add: osWriteFile_def\<close>)
qed

text \<open>
  Opening for writing: if the resolved path is no link, whatever is then done to it stays below the folder.
\<close>

definition opensLink :: "fs \<Rightarrow> string \<Rightarrow> string \<Rightarrow> bool" where
  "opensLink fs root path =
     (case resolveLocalForWrite fs root path of
        Inr (Some p) \<Rightarrow> (case mget fs p of Some (Link _) \<Rightarrow> True | _ \<Rightarrow> False)
      | _ \<Rightarrow> False)"

lemma forWrite_confined:
  assumes "fs_wf fs" "evalSymlinks fs (absPath (trimSpace rootDir)) = Inr root"
    and "\<And>fs1 p. fs_wf fs1 \<Longrightarrow> extends fs fs1 \<Longrightarrow> mget fs1 (dirPath p) = Some Dir \<Longrightarrow> list_all component p \<Longrightarrow> prefix root p
      \<Longrightarrow> opensLink fs rootDir path \<or> settled True fs1 p \<Longrightarrow> confined root fs1 (fst (k p fs1))"
  shows "confined root fs (fst (forWrite fs rootDir path (\<lambda>p. afterMkdir fs (dirPath p) (k p))))"
proof (cases "resolveLocalForWrite fs rootDir path")
  case (Inl e)
  then show ?thesis using confined_refl [OF assms(1)] by (simp add: forWrite_def)
next
  case (Inr r)
  obtain p where p: "r = Some p" "prefix root p" "list_all component p"
    and mk: "osMkdirAll fs (dirPath p) = (fs, Inl EEXIST)
      \<or> (\<exists>fs1. osMkdirAll fs (dirPath p) = (fs1, Inr ()) \<and> confined root fs fs1 \<and> extends fs fs1
           \<and> mget fs1 (dirPath p) = Some Dir \<and> mget fs1 p = mget fs p)"
    using resolved_parent [OF assms(1) Inr] assms(2) by (metis Inr_inject)
  from mk show ?thesis
  proof (elim disjE exE conjE)
    fix fs1
    assume fs1: "osMkdirAll fs (dirPath p) = (fs1, Inr ())" "confined root fs fs1" "mget fs1 (dirPath p) = Some Dir" "mget fs1 p = mget fs p"
      and ext: "extends fs fs1"
    have wf: "fs_wf fs1" using fs1(2) by (simp add: confined_def)
    have "opensLink fs rootDir path \<or> settled True fs1 p"
    proof (cases "opensLink fs rootDir path")
      case False
      then have "\<forall>t. mget fs1 p \<noteq> Some (Link t)" using Inr p(1) fs1(4) by (auto simp: opensLink_def split: option.splits)
      then show ?thesis using settled_below [OF wf fs1(3) p(3)] by blast
    qed simp
    from assms(3) [OF wf ext fs1(3) p(3) p(2) this] show ?thesis
      using confined_trans [OF fs1(2)] Inr p(1) fs1(1) by (simp add: forWrite_def afterMkdir_def)
  qed (use Inr p(1) confined_refl [OF assms(1)] in \<open>simp add: forWrite_def afterMkdir_def\<close>)
qed

lemma forWrite_fails: "evalSymlinks fs (absPath (trimSpace rootDir)) = Inl e \<Longrightarrow> fst (forWrite fs rootDir path k) = fs"
  by (auto simp: forWrite_def resolveLocalForWrite_def resolveLocal_def Let_def split: sum.splits option.splits)

lemma settled_extends:
  assumes "extends fs fs1" "settled False fs p"
  shows "settled False fs1 p"
proof -
  have "dirs fs q \<Longrightarrow> dirs fs1 q" for q using extendsD [OF assms(1)] by (auto simp: dirs_def)
  moreover have "\<exists>n. mget fs p = Some n \<and> mget fs1 p = Some n"
    using assms(2) extendsD [OF assms(1)] by (cases "mget fs p") (auto simp: settled_def)
  ultimately show ?thesis using assms(2) by (auto simp: settled_def)
qed

lemma rename_confined:
  assumes "fs_wf fs" "settled False fs a" "prefix root a" "mget fs (dirPath b) = Some Dir" "list_all component b" "prefix root b"
  shows "confined root fs (fst (osRename fs a b))"
proof -
  have a: "osEntry fs a = Inr a" by (rule settled_entry [OF assms(1,2)])
  obtain n where n: "mget fs a = Some n" using assms(2) by (auto simp: settled_def split: option.splits)
  have b: "osEntry fs b = Inr b"
    using entry_below [OF assms(1,4)] by (cases b rule: rev_cases) (auto simp: dirPath_def osEntry_def)
  show ?thesis
  proof (cases "fst (osRename fs a b) = fs")
    case False
    then have c: "fst (osRename fs a b) = moveTree a b fs" "a \<noteq> []" "\<not> prefix a b" "mget fs b \<noteq> Some Dir"
      using settled_lstat [OF assms(1,2) n] by (auto simp: osRename_def a b split: if_splits)
    have "b \<noteq> []" using c(4) assms(1) by auto
    then have m: "fs_wf (moveTree a b fs)"
      "mget (moveTree a b fs) p = (if prefix b p then mget fs (a @ drop (length b) p) else if prefix a p then None else mget fs p)" for p
      using fs_wf_moveTree [OF assms(1) c(2) _ _ assms(5) _ c(3,4)] assms(4) n by (auto simp: dirPath_def)
    then show ?thesis using assms(3,6) unfolding c(1) confined_def by (auto dest: prefix_order.trans)
  qed (use confined_refl [OF assms(1)] in simp)
qed

text \<open>The operations that change the file system, and which of them open a link.\<close>

datatype localOp =
    OpCreateDirectory string
  | OpRename string string
  | OpDelete string bool
  | OpUpload string string
  | OpOpenWriter string int
  | OpOpenRandomWriter string

fun runLocal :: "fs \<Rightarrow> string \<Rightarrow> localOp \<Rightarrow> fs" where
  "runLocal fs root (OpCreateDirectory path) = fst (createDirectoryLocal fs root path)"
| "runLocal fs root (OpRename from to) = fst (renameLocal fs root from to)"
| "runLocal fs root (OpDelete path isDirectory) = fst (deleteLocal fs root path isDirectory)"
| "runLocal fs root (OpUpload path content) = fst (uploadLocal fs root path content)"
| "runLocal fs root (OpOpenWriter path offset) = fst (openWriterLocal fs root path offset)"
| "runLocal fs root (OpOpenRandomWriter path) = fst (openRandomWriterLocal fs root path)"

fun writesThroughLink :: "fs \<Rightarrow> string \<Rightarrow> localOp \<Rightarrow> bool" where
  "writesThroughLink fs root (OpUpload path content) = opensLink fs root path"
| "writesThroughLink fs root (OpOpenWriter path offset) = opensLink fs root path"
| "writesThroughLink fs root (OpOpenRandomWriter path) = opensLink fs root path"
| "writesThroughLink fs root _ = False"

lemma createDirectory_confined:
  assumes "fs_wf fs" "evalSymlinks fs (absPath (trimSpace rootDir)) = Inr root"
  shows "confined root fs (fst (createDirectoryLocal fs rootDir path))"
proof (cases "resolveLocalForWrite fs rootDir path")
  case (Inr r)
  have "(\<exists>p. r = Some p \<and> settled False fs p \<and> prefix root p)
       \<or> (\<exists>d m ms. r = Some (d @ m # ms) \<and> prefix root d \<and> mget fs d = Some Dir \<and> dangles fs d m \<and> list_all component (m # ms))"
    using resolveLocalForWrite_ok [OF assms(1) Inr] assms(2) by auto
  then show ?thesis
  proof (elim disjE exE conjE)
    fix d m ms
    assume p: "r = Some (d @ m # ms)" "prefix root d" "mget fs d = Some Dir" "dangles fs d m" "list_all component (m # ms)"
    then show ?thesis using mkdirAll_below [OF assms(1) p(3-5,2)] Inr confined_refl [OF assms(1)]
      by (auto simp: createDirectoryLocal_def forWrite_def)
  qed (use Inr mkdirAll_exists confined_refl [OF assms(1)] in \<open>simp add: createDirectoryLocal_def forWrite_def\<close>)
qed (use confined_refl [OF assms(1)] in \<open>simp add: createDirectoryLocal_def forWrite_def\<close>)

lemma renameLocal_confined:
  assumes "fs_wf fs" "evalSymlinks fs (absPath (trimSpace rootDir)) = Inr root"
  shows "confined root fs (fst (renameLocal fs rootDir from to))"
proof (cases "resolveLocal fs rootDir from")
  case (Inr a)
  have a: "settled False fs a" "prefix root a" using resolveLocal_ok [OF assms(1) Inr] assms(2) by auto
  have "confined root fs (fst (forWrite fs rootDir to (\<lambda>p. afterMkdir fs (dirPath p) (\<lambda>fs1. osRename fs1 a p))))"
    by (rule forWrite_confined [OF assms]) (auto intro: rename_confined settled_extends [OF _ a(1)] a(2))
  then show ?thesis using Inr by (simp add: renameLocal_def)
qed (use confined_refl [OF assms(1)] in \<open>simp add: renameLocal_def\<close>)

lemma deleteLocal_confined:
  assumes "fs_wf fs" "evalSymlinks fs (absPath (trimSpace rootDir)) = Inr root"
  shows "confined root fs (fst (deleteLocal fs rootDir path isDirectory))"
proof (cases "resolveLocal fs rootDir path")
  case (Inr p)
  then show ?thesis using resolveLocal_ok [OF assms(1) Inr] assms confined_remove confined_removeAll by (auto simp: deleteLocal_def)
qed (use confined_refl [OF assms(1)] in \<open>simp add: deleteLocal_def\<close>)

lemma uploadLocal_confined:
  assumes "fs_wf fs" "evalSymlinks fs (absPath (trimSpace rootDir)) = Inr root" "\<not> opensLink fs rootDir path"
  shows "confined root fs (fst (uploadLocal fs rootDir path content))"
proof (cases "DecodeString content")
  case None
  then show ?thesis using confined_refl [OF assms(1)] by (auto simp: uploadLocal_def forWrite_def split: sum.splits option.splits)
next
  case (Some data)
  have "confined root fs (fst (forWrite fs rootDir path (\<lambda>p. afterMkdir fs (dirPath p) (\<lambda>fs1. osWriteFile fs1 p data))))"
    by (rule forWrite_confined [OF assms(1,2)]) (use assms(3) writeFile_confined in blast)
  then show ?thesis by (simp add: uploadLocal_def Some)
qed

lemma openWriterLocal_confined:
  assumes "fs_wf fs" "evalSymlinks fs (absPath (trimSpace rootDir)) = Inr root" "\<not> opensLink fs rootDir path"
  shows "confined root fs (fst (openWriterLocal fs rootDir path offset))"
  unfolding openWriterLocal_def
proof (rule forWrite_confined [OF assms(1,2)])
  fix fs1 p
  assume a: "fs_wf fs1" "prefix root p" "opensLink fs rootDir path \<or> settled True fs1 p"
  then have s: "settled True fs1 p" using assms(3) by blast
  obtain fs2 r where o: "osOpenWrite fs1 p (offset = 0) = (fs2, r)" by (cases "osOpenWrite fs1 p (offset = 0)")
  have c: "confined root fs1 fs2" using openWrite_confined(1) [OF a(1) s a(2), of "offset = 0"] o by simp
  then have wf: "fs_wf fs2" by (simp add: confined_def)
  show "confined root fs1 (fst (case osOpenWrite fs1 p (offset = 0) of
         (fs2, Inl e) \<Rightarrow> (fs2, Inl e)
       | (fs2, Inr q) \<Rightarrow>
           if offset = 0 then (fs2, Inr (q, 0))
           else
             let sz = int (length (fileBytes fs2 q)) in
             if offset < 0 \<or> offset > sz then (fs2, Inl (ErrMsg ''invalid write offset''))
             else if sz > offset then (mput q (File (take (nat offset) (fileBytes fs2 q))) fs2, Inr (q, offset))
             else (fs2, Inr (q, sz))))"
  proof (cases r)
    case (Inr q)
    with o openWrite_confined(2) [OF a(1) s a(2), of "offset = 0" fs2 q] have q: "q = p" "settled True fs2 p" "mget fs2 p \<noteq> Some Dir" by auto
    show ?thesis using confined_trans [OF c confined_put [OF wf q(2) a(2) q(3)]] c o Inr q(1) by (simp add: Let_def)
  qed (use c o in simp)
qed

lemma openRandomWriterLocal_confined:
  assumes "fs_wf fs" "evalSymlinks fs (absPath (trimSpace rootDir)) = Inr root" "\<not> opensLink fs rootDir path"
  shows "confined root fs (fst (openRandomWriterLocal fs rootDir path))"
  unfolding openRandomWriterLocal_def
  by (rule forWrite_confined [OF assms(1,2)]) (use assms(3) openWrite_confined(1) in blast)

lemma unresolved_unchanged:
  assumes "evalSymlinks fs (absPath (trimSpace rootDir)) = Inl e"
  shows "runLocal fs rootDir op = fs"
proof -
  have "resolveLocal fs rootDir path \<noteq> Inr p" for path p using assms by (auto simp: resolveLocal_def Let_def)
  then show ?thesis
    by (cases op)
      (simp_all add: createDirectoryLocal_def renameLocal_def deleteLocal_def uploadLocal_def openWriterLocal_def openRandomWriterLocal_def
        forWrite_fails [OF assms] split: sum.splits)
qed

section \<open>Properties\<close>

lemma local_confined_or_same:
  assumes "fs_wf fs" "\<not> writesThroughLink fs rootDir op"
  shows "case evalSymlinks fs (absPath (trimSpace rootDir)) of
      Inl _ \<Rightarrow> runLocal fs rootDir op = fs
    | Inr root \<Rightarrow> confined root fs (runLocal fs rootDir op)"
proof (cases "evalSymlinks fs (absPath (trimSpace rootDir))")
  case (Inl e)
  then show ?thesis using unresolved_unchanged by simp
next
  case (Inr root)
  note c = createDirectory_confined renameLocal_confined deleteLocal_confined uploadLocal_confined openWriterLocal_confined openRandomWriterLocal_confined
  show ?thesis using assms c [OF assms(1) Inr] Inr by (cases op) simp_all
qed

text \<open>C24: an operation on a host folder changes nothing outside the folder's real path and keeps the file system well
  formed, whatever path the request names and whatever links the folder holds: creating, renaming and deleting
  always, uploading and opening for writing unless the resolved path is itself a link. If the folder does not
  resolve, nothing changes.\<close>

theorem local_operations_confined:
  assumes "fs_wf fs" "\<not> writesThroughLink fs rootDir op"
  shows "case evalSymlinks fs (absPath (trimSpace rootDir)) of
      Inl _ \<Rightarrow> runLocal fs rootDir op = fs
    | Inr root \<Rightarrow> confined root fs (runLocal fs rootDir op)"
  by (rule local_confined_or_same [OF assms])

text \<open>A host with a folder \<open>/srv\<close>, a link in it that leads out of it, and a link in it that leads nowhere.\<close>

definition sampleHost :: fs where
  "sampleHost =
     [([], Dir), ([''etc''], Dir), ([''etc'', ''passwd''], File [1, 2]), ([''srv''], Dir), ([''srv'', ''docs''], Dir),
      ([''srv'', ''docs'', ''a''], File [7, 8, 9]), ([''srv'', ''out''], Link ''../etc''), ([''srv'', ''lost''], Link ''/etc/cron'')]"

lemma sampleHost_wf: "fs_wf sampleHost"
  by code_simp

theorem local_operations_confined_witness:
  "confined [''srv''] sampleHost (runLocal sampleHost ''/srv'' (OpUpload ''docs/../new/b'' ''AAAA''))
   \<and> mget (runLocal sampleHost ''/srv'' (OpUpload ''docs/../new/b'' ''AAAA'')) [''srv'', ''new'', ''b''] = Some (File [0, 0, 0])
   \<and> runLocal sampleHost ''/srv'' (OpUpload ''out/passwd'' ''AAAA'') = sampleHost"
proof -
  have "\<not> writesThroughLink sampleHost ''/srv'' (OpUpload ''docs/../new/b'' ''AAAA'')" by code_simp
  moreover have "evalSymlinks sampleHost (absPath (trimSpace ''/srv'')) = Inr [''srv'']" by code_simp
  moreover have "mget (runLocal sampleHost ''/srv'' (OpUpload ''docs/../new/b'' ''AAAA'')) [''srv'', ''new'', ''b''] = Some (File [0, 0, 0])" by code_simp
  moreover have "runLocal sampleHost ''/srv'' (OpUpload ''out/passwd'' ''AAAA'') = sampleHost" by code_simp
  ultimately show ?thesis
    using local_operations_confined [OF sampleHost_wf, of "''/srv''" "OpUpload ''docs/../new/b'' ''AAAA''"] by simp
qed

text \<open>
  An upload to a link that leads nowhere is not refused: the path resolves to the link itself, below the folder, and
  opening it creates the target of the link, outside the folder.
\<close>

theorem upload_through_dangling_link:
  "resolveLocalForWrite sampleHost ''/srv'' ''lost'' = Inr (Some [''srv'', ''lost''])
   \<and> snd (uploadLocal sampleHost ''/srv'' ''lost'' ''AAAA'') = Inr ()
   \<and> mget (fst (uploadLocal sampleHost ''/srv'' ''lost'' ''AAAA'')) [''etc'', ''cron''] = Some (File [0, 0, 0])"
  by code_simp

text \<open>A folder at the root of the file system contains only itself: every path below it is refused.\<close>

theorem filesystem_root_refused:
  assumes "fs_wf fs" "resolveLocal fs ''/'' path = Inr p"
  shows "p = []"
proof -
  have t: "trimSpace ''/'' = ''/''" "absPath ''/'' = []" by code_simp+
  have "evalSymlinks fs (joinString ''/'' (cleanPath path)) = Inr p" "within [] p"
    using assms(2) by (auto simp: resolveLocal_def Let_def t bindR_Inr_iff split: if_splits)
  moreover from this have "list_all component p"
    using evalSymlinks_settled [OF assms(1)] settled_component by (metis absPath_ok joinString_def)
  ultimately show ?thesis using within_iff [of "[]" p] by simp
qed

section \<open>Reading what was written\<close>

text \<open>A file system in which files may have changed and entries may have been added: what resolved still resolves.\<close>

definition keepsNodes :: "fs \<Rightarrow> fs \<Rightarrow> bool" where
  "keepsNodes fs fs' \<longleftrightarrow> (\<forall>q n. mget fs q = Some n \<longrightarrow> mget fs' q = Some n \<or> (\<exists>d d'. n = File d \<and> mget fs' q = Some (File d')))"

lemma walk_keeps: "keepsNodes fs fs' \<Longrightarrow> walk False fs n dest ws = Inr r \<Longrightarrow> walk False fs' n dest ws = Inr r"
proof (induction False fs n dest ws rule: walk.induct)
  case (2 fs n dest w ws)
  show ?case
  proof (cases "w = [] \<or> w = ''.'' \<or> w = ''..''")
    case True
    then show ?thesis using 2(1,2,5,6) by (auto split: if_splits)
  next
    case False
    obtain nd where nd: "mget fs (dest @ [w]) = Some nd" using 2(6) False by (cases "mget fs (dest @ [w])") auto
    have "mget fs' (dest @ [w]) = Some nd \<or> (\<exists>d d'. nd = File d \<and> mget fs' (dest @ [w]) = Some (File d'))"
      using 2(5) nd by (simp add: keepsNodes_def)
    then show ?thesis using False 2(3,4) [OF _ _ nd] 2(5,6) nd by (cases nd) (auto split: if_splits)
  qed
qed simp

lemma walk_then:
  "walk False fs n dest ws = Inr d \<Longrightarrow> mget fs d = Some Dir \<Longrightarrow> settled False fs (d @ ms) \<Longrightarrow> fs_wf fs \<Longrightarrow>
   walk False fs n dest (ws @ ms) = Inr (d @ ms)"
proof (induction False fs n dest ws rule: walk.induct)
  case (1 fs n dest)
  then have d: "dirs fs d" "list_all component d" using fs_wf_dirs fs_wf_entry(1) by auto
  have "walk False fs n [] (d @ ms) = Inr (d @ ms)" by (rule walk_settled_id [OF 1(3)])
  then show ?case using walk_along [of d fs "[]" False n ms] d 1(1) by simp
next
  case (2 fs n dest w ws)
  show ?case
  proof (cases "w = [] \<or> w = ''.'' \<or> w = ''..''")
    case True
    then show ?thesis using 2(1,2,5-) by (auto split: if_splits)
  next
    case False
    obtain nd where nd: "mget fs (dest @ [w]) = Some nd" using 2(5) False by (cases "mget fs (dest @ [w])") auto
    then show ?thesis using False 2(3,4) [OF _ _ nd] 2(5-) by (cases nd) (auto split: if_splits)
  qed
qed

lemma writeFile_ok:
  assumes "fs_wf fs" "settled True fs p" "osWriteFile fs p data = (fs', Inr ())"
  shows "p \<noteq> [] \<and> (\<forall>q. mget fs' q = (if q = p then Some (File data) else mget fs q)) \<and> settled False fs' p
    \<and> (mget fs p = None \<or> (\<exists>d. mget fs p = Some (File d)))"
proof -
  have ne: "p \<noteq> []" using assms fs_wf_root [OF assms(1)] by (auto simp: osWriteFile_def openWrite_settled)
  have "fs' = mput p (File data) fs \<or> fs' = mput p (File data) (mput p (File []) fs)"
    "mget fs p = None \<or> (\<exists>d. mget fs p = Some (File d))"
    using assms(2,3) by (auto simp: osWriteFile_def openWrite_settled [OF assms(1,2)] split: option.splits node.splits)
  moreover from this(1) have "mget fs' q = (if q = p then Some (File data) else mget fs q)" for q by auto
  moreover from this have "settled False fs' p"
  proof -
    have "\<not> prefix p (butlast p)" using ne prefix_length_le [of p "butlast p"] by (auto simp: neq_Nil_conv)
    then show ?thesis using assms(2) \<open>\<And>q. mget fs' q = (if q = p then Some (File data) else mget fs q)\<close> by (auto simp: settled_def dirs_def)
  qed
  ultimately show ?thesis using ne by blast
qed

lemma uploadLocal_ok:
  assumes "fs_wf fs" "\<not> opensLink fs rootDir path" "uploadLocal fs rootDir path content = (fs', Inr ())"
  obtains p data where "resolveLocalForWrite fs rootDir path = Inr (Some p)" "DecodeString content = Some data"
    "keepsNodes fs fs'" "fs_wf fs'" "settled False fs' p" "mget fs' p = Some (File data)"
proof -
  obtain r where r: "resolveLocalForWrite fs rootDir path = Inr r"
    using assms(3) by (cases "resolveLocalForWrite fs rootDir path") (auto simp: uploadLocal_def forWrite_def)
  obtain root p where p: "r = Some p" "list_all component p" and root: "evalSymlinks fs (absPath (trimSpace rootDir)) = Inr root"
    and mk: "osMkdirAll fs (dirPath p) = (fs, Inl EEXIST)
      \<or> (\<exists>fs1. osMkdirAll fs (dirPath p) = (fs1, Inr ()) \<and> confined root fs fs1 \<and> extends fs fs1
           \<and> mget fs1 (dirPath p) = Some Dir \<and> mget fs1 p = mget fs p)"
    using resolved_parent [OF assms(1) r] by metis
  obtain data where data: "DecodeString content = Some data"
    using assms(3) r p(1) by (cases "DecodeString content") (auto simp: uploadLocal_def forWrite_def)
  have "afterMkdir fs (dirPath p) (\<lambda>fs1. osWriteFile fs1 p data) = (fs', Inr ())"
    using assms(3) r p(1) data by (simp add: uploadLocal_def forWrite_def)
  then obtain fs1 where fs1: "osMkdirAll fs (dirPath p) = (fs1, Inr ())" "confined root fs fs1" "extends fs fs1"
    "mget fs1 (dirPath p) = Some Dir" "mget fs1 p = mget fs p" and w: "osWriteFile fs1 p data = (fs', Inr ())"
    using mk by (auto simp: afterMkdir_def)
  have wf: "fs_wf fs1" using fs1(2) by (simp add: confined_def)
  have "\<forall>t. mget fs1 p \<noteq> Some (Link t)" using assms(2) r p(1) fs1(5) by (auto simp: opensLink_def split: option.splits)
  note s = settled_below [OF wf fs1(4) p(2) this]
  note ok = writeFile_ok [OF wf s w]
  have "keepsNodes fs fs'" using ok fs1(5) extendsD [OF fs1(3)] by (auto simp: keepsNodes_def)
  moreover have "fs_wf fs'" using uploadLocal_confined [OF assms(1) root assms(2), of content] assms(3) by (simp add: confined_def)
  ultimately show ?thesis using that [of p data] r p(1) data ok by simp
qed



lemma resolved_settled:
  assumes "fs_wf fs" "evalSymlinks fs (absPath (trimSpace rootDir)) = Inr root" "resolveLocal fs rootDir path = Inr p"
  shows "settled False fs p" "prefix root p" "osPath fs p = Inr p"
  using resolveLocal_ok [OF assms(1,3)] assms(2) settled_os(1) by auto

lemma downloadLocal_reads:
  assumes "fs_wf fs" "evalSymlinks fs (absPath (trimSpace rootDir)) = Inr root" "downloadLocal fs rootDir path = Inr content"
  shows "\<exists>p d. prefix root p \<and> mget fs p = Some (File d) \<and> content = EncodeToString d"
  using assms(3) resolved_settled [OF assms(1,2)]
  by (fastforce simp: downloadLocal_def osReadFile_def osStat_def bindR_Inr_iff split: option.splits node.splits)

lemma openReaderLocal_reads:
  assumes "fs_wf fs" "evalSymlinks fs (absPath (trimSpace rootDir)) = Inr root" "openReaderLocal fs rootDir path offset = Inr (q, sz)"
  shows "\<exists>d. resolveLocal fs rootDir path = Inr q \<and> prefix root q \<and> mget fs q = Some (File d) \<and> sz = int (length d) \<and> 0 \<le> offset \<and> offset \<le> sz"
proof -
  obtain p where p: "resolveLocal fs rootDir path = Inr p" using assms(3) by (auto simp: openReaderLocal_def bindR_Inr_iff)
  note r = resolved_settled [OF assms(1,2) p]
  from assms(3) have q: "q = p" "mget fs p \<noteq> Some Dir" "sz = nodeSize 0 (the (mget fs p))" "0 \<le> offset" "offset \<le> sz"
    by (auto simp: openReaderLocal_def p r(3) split: option.splits if_splits)
  then show ?thesis using r settled_node [OF r(1)] p by auto
qed

lemma listLocal_reads:
  assumes "fs_wf fs" "evalSymlinks fs (absPath (trimSpace rootDir)) = Inr root" "listLocal dirSize cancelled fs rootDir path = Inr items"
  shows "\<exists>p. resolveLocal fs rootDir path = Inr p \<and> prefix root p \<and> mget fs p = Some Dir
    \<and> set items = {fileItem dirSize (relJoin (cleanPath path) w) w n |w n. mget fs (p @ [w]) = Some n}"
proof -
  obtain p where p: "resolveLocal fs rootDir path = Inr p" using assms(3) by (auto simp: listLocal_def bindR_Inr_iff)
  note r = resolved_settled [OF assms(1,2) p]
  from assms(3) have items: "mget fs p = Some Dir"
    "set items = (\<lambda>(w, n). fileItem dirSize (relJoin (cleanPath path) w) w n) ` set (children fs p)"
    by (auto simp: listLocal_def osReadDir_def bindR_Inr_iff p r(3) sortItems_def split: if_splits)
  have "set (children fs p) = {(w, n). mget fs (p @ [w]) = Some n}" using children_iff [OF assms(1), of _ _ p] by auto
  then show ?thesis using r p items by (auto simp: image_iff)
qed

text \<open>C38: what is read of a host folder lies in the folder: a download is the encoding of a file whose real path is
  below the folder's real path, a reader is on such a file with an offset within it, and a listing holds exactly
  the entries of such a directory.\<close>

theorem local_reads_confined:
  assumes "fs_wf fs" "evalSymlinks fs (absPath (trimSpace rootDir)) = Inr root"
  shows "(downloadLocal fs rootDir path = Inr content \<longrightarrow>
      (\<exists>p d. prefix root p \<and> mget fs p = Some (File d) \<and> content = EncodeToString d))
    \<and> (openReaderLocal fs rootDir path offset = Inr (q, sz) \<longrightarrow>
      (\<exists>d. prefix root q \<and> mget fs q = Some (File d) \<and> sz = int (length d) \<and> 0 \<le> offset \<and> offset \<le> sz))
    \<and> (listLocal dirSize cancelled fs rootDir path = Inr items \<longrightarrow>
      (\<exists>p. prefix root p \<and> mget fs p = Some Dir
        \<and> set items = {fileItem dirSize (relJoin (cleanPath path) w) w n |w n. mget fs (p @ [w]) = Some n}))"
  using downloadLocal_reads [OF assms] openReaderLocal_reads [OF assms] listLocal_reads [OF assms] by blast

theorem local_reads_confined_witness:
  "downloadLocal sampleHost ''/srv'' ''docs/a'' = Inr ''BwgJ'' \<and> downloadLocal sampleHost ''/srv'' ''out/passwd'' = Inl ErrEscapes
   \<and> (\<exists>p d. prefix [''srv''] p \<and> mget sampleHost p = Some (File d) \<and> ''BwgJ'' = EncodeToString d)"
proof -
  have "evalSymlinks sampleHost (absPath (trimSpace ''/srv'')) = Inr [''srv'']" by code_simp
  from local_reads_confined [OF sampleHost_wf this, of "''docs/a''" "''BwgJ''" 0 "[]" 0 0 False "[]"]
  have "downloadLocal sampleHost ''/srv'' ''docs/a'' = Inr ''BwgJ'' \<longrightarrow>
      (\<exists>p d. prefix [''srv''] p \<and> mget sampleHost p = Some (File d) \<and> ''BwgJ'' = EncodeToString d)" by blast
  moreover have "downloadLocal sampleHost ''/srv'' ''docs/a'' = Inr ''BwgJ''" by code_simp
  moreover have "downloadLocal sampleHost ''/srv'' ''out/passwd'' = Inl ErrEscapes" by code_simp
  ultimately show ?thesis by blast
qed

text \<open>
  A writer that opens at an offset finds exactly that many bytes before it: those the file had.
\<close>

theorem writer_resumes_at_offset:
  assumes "fs_wf fs" "\<not> opensLink fs rootDir path" "openWriterLocal fs rootDir path offset = (fs', Inr (q, sz))"
  shows "sz = offset \<and> 0 \<le> offset \<and> (\<exists>old. mget fs' q = Some (File old) \<and> old = take (nat offset) (fileBytes fs q) \<and> int (length old) = offset)"
proof -
  obtain r where r: "resolveLocalForWrite fs rootDir path = Inr r"
    using assms(3) by (cases "resolveLocalForWrite fs rootDir path") (auto simp: openWriterLocal_def forWrite_def)
  obtain root p where p: "r = Some p" "list_all component p"
    and mk: "osMkdirAll fs (dirPath p) = (fs, Inl EEXIST)
      \<or> (\<exists>fs1. osMkdirAll fs (dirPath p) = (fs1, Inr ()) \<and> confined root fs fs1 \<and> extends fs fs1
           \<and> mget fs1 (dirPath p) = Some Dir \<and> mget fs1 p = mget fs p)"
    using resolved_parent [OF assms(1) r] by metis
  then obtain fs1 where fs1: "osMkdirAll fs (dirPath p) = (fs1, Inr ())" "confined root fs fs1" "mget fs1 (dirPath p) = Some Dir" "mget fs1 p = mget fs p"
    using assms(3) r by (auto simp: openWriterLocal_def forWrite_def afterMkdir_def)
  have wf: "fs_wf fs1" using fs1(2) by (simp add: confined_def)
  have "\<forall>t. mget fs1 p \<noteq> Some (Link t)" using assms(2) r p(1) fs1(4) by (auto simp: opensLink_def split: option.splits)
  note s = settled_below [OF wf fs1(3) p(2) this]
  have "fileBytes fs1 p = fileBytes fs p" by (simp add: fileBytes_def fs1(4))
  then show ?thesis
    using assms(3) r p(1) fs1(1)
    by (auto simp: openWriterLocal_def forWrite_def afterMkdir_def openWrite_settled [OF wf s] Let_def fileBytes_def split: option.splits node.splits if_splits)
qed

end
