(* ===== verification/Agent_Files.thy ===== *)
theory Agent_Files
  imports Agent_Local
begin

text \<open>
  The file sources of the agent, the \<open>Service\<close> of \<open>internal/agent/files/service.go\<close>: the configured host folders and
  network shares, the access policy of a source, the operations that select a source, ask its policy and act on it, and
  the search index with its cache. The operations on a network share go through a client library and are arguments, as
  are the Unicode lower case and the parser of URLs.
\<close>

section \<open>Configuration\<close>

record LocalConfig =
  lc_ID :: string
  lc_Name :: string
  lc_Root :: string
  lc_Policy :: fileAccessPolicy

record SMBConfig =
  sc_ID :: string
  sc_Name :: string
  sc_Host :: string
  sc_Share :: string
  sc_Username :: string
  sc_Password :: string
  sc_Domain :: string
  sc_Policy :: fileAccessPolicy

definition localEnabled :: "LocalConfig \<Rightarrow> bool" where "localEnabled c \<longleftrightarrow> \<not> blank (lc_Root c)"
definition smbEnabled :: "SMBConfig \<Rightarrow> bool" where "smbEnabled c \<longleftrightarrow> \<not> blank (sc_Host c) \<and> \<not> blank (sc_Share c)"

definition LocalSourceID :: string where "LocalSourceID = ''local''"
definition DefaultSMBSourceID :: string where "DefaultSMBSourceID = ''smb''"

text \<open>\<open>cleanSourceID\<close>: lower case, every run of other runes a dash, no dash at the ends.\<close>

definition idRune :: "nat \<Rightarrow> bool" where
  "idRune r \<longleftrightarrow> (97 \<le> r \<and> r \<le> 122) \<or> (48 \<le> r \<and> r \<le> 57) \<or> r = 95 \<or> r = 45 \<or> r = 46"

fun cleanRunes :: "bool \<Rightarrow> nat list \<Rightarrow> string" where
  "cleanRunes lastDash [] = []"
| "cleanRunes lastDash (r # rs) =
     (if idRune r then char_of r # cleanRunes False rs
      else if lastDash then cleanRunes True rs
      else CHR ''-'' # cleanRunes True rs)"

definition trimDashes :: "string \<Rightarrow> string" where
  "trimDashes s = rev (dropWhile (\<lambda>c. c = CHR ''-'') (rev (dropWhile (\<lambda>c. c = CHR ''-'') s)))"

definition cleanSourceID :: "(string \<Rightarrow> string) \<Rightarrow> string \<Rightarrow> string" where
  "cleanSourceID lower value = trimDashes (cleanRunes False (runes (toLower lower (trimSpace value))))"

fun firstNonBlank :: "string list \<Rightarrow> string" where
  "firstNonBlank [] = []"
| "firstNonBlank (v # vs) = (if trimSpace v \<noteq> [] then trimSpace v else firstNonBlank vs)"

text \<open>\<open>filepath.Base\<close> of any string.\<close>

definition baseString :: "string \<Rightarrow> string" where
  "baseString s =
     (if s = [] then ''.''
      else case dropWhile (\<lambda>w. w = []) (rev (splitSlash s)) of [] \<Rightarrow> [slash] | w # _ \<Rightarrow> w)"

definition numbered :: "string \<Rightarrow> nat \<Rightarrow> string" where
  "numbered base n = base @ ''-'' @ show_nat n"

text \<open>A repeated id gets a number: \<open>seen\<close> counts the ids before they are numbered.\<close>

definition countSeen :: "string \<Rightarrow> (string, nat) gomap \<Rightarrow> nat" where
  "countSeen k seen = (case mget seen k of None \<Rightarrow> 0 | Some n \<Rightarrow> n)"

definition uniqueID :: "(string, nat) gomap \<Rightarrow> string \<Rightarrow> string" where
  "uniqueID seen baseID = (if countSeen baseID seen > 0 then numbered baseID (countSeen baseID seen + 1) else baseID)"

definition fallbackID :: "string \<Rightarrow> nat \<Rightarrow> string" where
  "fallbackID kind index = (if index > 0 then numbered kind (index + 1) else kind)"

definition baseIDOf :: "(string \<Rightarrow> string) \<Rightarrow> string \<Rightarrow> string list \<Rightarrow> string \<Rightarrow> string" where
  "baseIDOf lower ident candidates fallback =
     (let c = cleanSourceID lower (if ident = [] then firstNonBlank (candidates @ [fallback]) else ident) in
      if c = [] then fallback else c)"

fun normalizeLocalFrom :: "(string \<Rightarrow> string) \<Rightarrow> nat \<Rightarrow> (string, nat) gomap \<Rightarrow> LocalConfig list \<Rightarrow> LocalConfig list" where
  "normalizeLocalFrom lower index seen [] = []"
| "normalizeLocalFrom lower index seen (cfg # cfgs) =
     (let root = trimSpace (lc_Root cfg); name = trimSpace (lc_Name cfg);
          baseID = baseIDOf lower (lc_ID cfg) [name, baseString root] (fallbackID LocalSourceID index);
          ident = uniqueID seen baseID in
      cfg\<lparr>lc_ID := ident, lc_Root := root, lc_Name := (if name = [] then firstNonBlank [baseString root, ident] else name)\<rparr>
      # normalizeLocalFrom lower (index + 1) (mput baseID (countSeen baseID seen + 1) seen) cfgs)"

definition normalizeLocalConfigs :: "(string \<Rightarrow> string) \<Rightarrow> LocalConfig list \<Rightarrow> LocalConfig list" where
  "normalizeLocalConfigs lower configs = normalizeLocalFrom lower 0 [] configs"

text \<open>\<open>url.Parse\<close>: the scheme, the host with its port and the host alone.\<close>

type_synonym urlParser = "string \<Rightarrow> (string \<times> string \<times> string) option"

definition schemelessHost :: "string \<Rightarrow> string" where
  "schemelessHost host0 =
     (let host = dropWhile (\<lambda>c. c = slash) (trimPrefix (trimPrefix host0 ''smb://'') ''cifs://'') in
      trimSpace (takeWhile (\<lambda>c. c \<noteq> slash) host))"

definition NormalizeSMBHost :: "(string \<Rightarrow> string) \<Rightarrow> urlParser \<Rightarrow> string \<Rightarrow> string" where
  "NormalizeSMBHost lower urlParse host0 =
     (let trimmed = trimSpace host0 in
      if trimmed = [] then []
      else
        let host = map (\<lambda>c. if c = CHR 0x5C then slash else c) trimmed in
        case urlParse host of
          None \<Rightarrow> schemelessHost host
        | Some (scheme, hostPort, hostname) \<Rightarrow>
            if scheme = [] then schemelessHost host
            else if toLower lower scheme \<in> {''http'', ''https''} then trimSpace hostname
            else if hostPort \<noteq> [] then trimSpace hostPort
            else schemelessHost host)"

fun normalizeSMBFrom ::
    "(string \<Rightarrow> string) \<Rightarrow> urlParser \<Rightarrow> nat \<Rightarrow> (string, nat) gomap \<Rightarrow> SMBConfig list \<Rightarrow> SMBConfig list" where
  "normalizeSMBFrom lower urlParse index seen [] = []"
| "normalizeSMBFrom lower urlParse index seen (cfg # cfgs) =
     (let share = trimSpace (sc_Share cfg); name = trimSpace (sc_Name cfg);
          baseID = baseIDOf lower (sc_ID cfg) [name, share] (fallbackID DefaultSMBSourceID index);
          ident = uniqueID seen baseID in
      cfg\<lparr>sc_ID := ident, sc_Host := NormalizeSMBHost lower urlParse (sc_Host cfg), sc_Share := share,
          sc_Username := trimSpace (sc_Username cfg), sc_Domain := trimSpace (sc_Domain cfg),
          sc_Name := (if name \<noteq> [] then name else if share \<noteq> [] then share else ident)\<rparr>
      # normalizeSMBFrom lower urlParse (index + 1) (mput baseID (countSeen baseID seen + 1) seen) cfgs)"

definition normalizeSMBConfigs :: "(string \<Rightarrow> string) \<Rightarrow> urlParser \<Rightarrow> SMBConfig list \<Rightarrow> SMBConfig list" where
  "normalizeSMBConfigs lower urlParse configs = normalizeSMBFrom lower urlParse 0 [] configs"

section \<open>The service\<close>

record fileSearchCacheEntry =
  ce_items :: "FileItem list"
  ce_createdAt :: time

record fileService =
  fv_localSources :: "LocalConfig list"
  fv_smbShares :: "SMBConfig list"
  fv_searchCache :: "(string, fileSearchCacheEntry) gomap"
  fv_searchCacheGen :: "(string, 64 word) gomap"

record fileSourceSelection =
  fs_ID :: string
  fs_SMB :: bool
  fs_Root :: string
  fs_Policy :: fileAccessPolicy

definition selectLocal :: "LocalConfig \<Rightarrow> fileSourceSelection" where
  "selectLocal c = \<lparr>fs_ID = lc_ID c, fs_SMB = False, fs_Root = lc_Root c, fs_Policy = lc_Policy c\<rparr>"

definition selectSMB :: "SMBConfig \<Rightarrow> fileSourceSelection" where
  "selectSMB c = \<lparr>fs_ID = sc_ID c, fs_SMB = True, fs_Root = [], fs_Policy = sc_Policy c\<rparr>"

definition serviceEnabled :: "fileService \<Rightarrow> bool" where
  "serviceEnabled s \<longleftrightarrow> list_ex localEnabled (fv_localSources s) \<or> list_ex smbEnabled (fv_smbShares s)"

definition defaultSource :: "fileService \<Rightarrow> fileSourceSelection result" where
  "defaultSource s =
     (case find smbEnabled (fv_smbShares s) of
        Some c \<Rightarrow> Inr (selectSMB c)
      | None \<Rightarrow>
          (case find localEnabled (fv_localSources s) of
             Some c \<Rightarrow> Inr (selectLocal c)
           | None \<Rightarrow> Inl ErrDisabled))"

definition sourceForID :: "(string \<Rightarrow> string) \<Rightarrow> fileService \<Rightarrow> string \<Rightarrow> fileSourceSelection result" where
  "sourceForID lower s sourceID0 =
     (let sourceID = cleanSourceID lower sourceID0 in
      if sourceID = [] then defaultSource s
      else
        case find (\<lambda>c. lc_ID c = sourceID) (fv_localSources s) of
          Some c \<Rightarrow> if localEnabled c then Inr (selectLocal c) else Inl ErrDisabled
        | None \<Rightarrow>
            (case find (\<lambda>c. sc_ID c = sourceID) (fv_smbShares s) of
               Some c \<Rightarrow> if smbEnabled c then Inr (selectSMB c) else Inl ErrDisabled
             | None \<Rightarrow>
                 if sourceID = LocalSourceID then Inl ErrDisabled
                 else Inl (ErrMsg (''file source '' @ [CHR 0x22] @ sourceID @ [CHR 0x22] @ '' is not configured''))))"

definition newService :: "(string \<Rightarrow> string) \<Rightarrow> urlParser \<Rightarrow> string \<Rightarrow> fileAccessPolicy \<Rightarrow> LocalConfig list \<Rightarrow> SMBConfig list \<Rightarrow> fileService" where
  "newService lower urlParse root policy locals shares =
     (let first = if trimSpace root \<noteq> []
                  then [\<lparr>lc_ID = LocalSourceID, lc_Name = ''Home connector files'', lc_Root = root, lc_Policy = policy\<rparr>] else [] in
      \<lparr>fv_localSources = normalizeLocalConfigs lower (first @ locals), fv_smbShares = normalizeSMBConfigs lower urlParse shares,
       fv_searchCache = [], fv_searchCacheGen = []\<rparr>)"

section \<open>The search cache\<close>

definition searchIndexGeneration :: "fileService \<Rightarrow> string \<Rightarrow> 64 word" where
  "searchIndexGeneration s sourceID = (case mget (fv_searchCacheGen s) sourceID of None \<Rightarrow> 0 | Some g \<Rightarrow> g)"

definition storeSearchIndexIfCurrent :: "string \<Rightarrow> 64 word \<Rightarrow> FileItem list \<Rightarrow> time \<Rightarrow> fileService \<Rightarrow> fileService" where
  "storeSearchIndexIfCurrent sourceID generation items createdAt s =
     (if searchIndexGeneration s sourceID \<noteq> generation then s
      else s\<lparr>fv_searchCache := mput sourceID \<lparr>ce_items = items, ce_createdAt = createdAt\<rparr> (fv_searchCache s)\<rparr>)"

definition invalidateSearchIndex :: "string \<Rightarrow> fileService \<Rightarrow> fileService" where
  "invalidateSearchIndex sourceID s =
     s\<lparr>fv_searchCache := mdel sourceID (fv_searchCache s),
       fv_searchCacheGen := mput sourceID (searchIndexGeneration s sourceID + 1) (fv_searchCacheGen s)\<rparr>"

definition invalidateAllSearchIndexes :: "fileService \<Rightarrow> fileService" where
  "invalidateAllSearchIndexes s =
     s\<lparr>fv_searchCache := [], fv_searchCacheGen := map (\<lambda>(k, g). (k, g + 1)) (fv_searchCacheGen s)\<rparr>"

definition ApplyLocalConfigs :: "(string \<Rightarrow> string) \<Rightarrow> LocalConfig list \<Rightarrow> fileService \<Rightarrow> fileService" where
  "ApplyLocalConfigs lower configs s =
     invalidateAllSearchIndexes (s\<lparr>fv_localSources := normalizeLocalConfigs lower configs\<rparr>)"

text \<open>A share without a password keeps the one it had.\<close>

definition ApplySMBConfigs :: "(string \<Rightarrow> string) \<Rightarrow> urlParser \<Rightarrow> SMBConfig list \<Rightarrow> fileService \<Rightarrow> fileService" where
  "ApplySMBConfigs lower urlParse configs s =
     (let existing = map_of (rev (map (\<lambda>c. (sc_ID c, sc_Password c)) (fv_smbShares s)));
          keepPassword = (\<lambda>c. if sc_Password c = []
                              then c\<lparr>sc_Password := (case existing (sc_ID c) of None \<Rightarrow> [] | Some p \<Rightarrow> p)\<rparr> else c) in
      invalidateAllSearchIndexes (s\<lparr>fv_smbShares := map keepPassword (normalizeSMBConfigs lower urlParse configs)\<rparr>))"

section \<open>Searching\<close>

definition fileSearchCacheTTL :: duration where "fileSearchCacheTTL = minutes 5"
definition fileSearchMaxItems :: nat where "fileSearchMaxItems = 250000"
definition fileSearchMaxDirs :: nat where "fileSearchMaxDirs = 50000"

definition errMaxDirs :: error where
  "errMaxDirs = ErrMsg (''file search index exceeds '' @ show_nat fileSearchMaxDirs @ '' directories'')"

definition errMaxItems :: error where
  "errMaxItems = ErrMsg (''file search index exceeds '' @ show_nat fileSearchMaxItems @ '' items'')"

text \<open>The loop of \<open>searchIndex\<close> over the directories still to list; \<open>lst\<close> is \<open>ListSource\<close> for the source.\<close>

function searchLoop :: "(string \<Rightarrow> FileItem list result) \<Rightarrow> bool \<Rightarrow> string list \<Rightarrow> string list \<Rightarrow> FileItem list \<Rightarrow> FileItem list result" where
  "searchLoop lst stop queue visited items =
     (case queue of
        [] \<Rightarrow> Inr items
      | current # queue' \<Rightarrow>
          if stop then Inl ErrCanceled
          else if cleanPath current \<in> set visited then searchLoop lst stop queue' visited items
          else if length visited \<ge> fileSearchMaxDirs then Inl errMaxDirs
          else
            (case lst current of
               Inl e \<Rightarrow> Inl e
             | Inr kids \<Rightarrow>
                 if length items + length kids > fileSearchMaxItems then Inl errMaxItems
                 else searchLoop lst stop (queue' @ map fi_Path (filter fi_IsDirectory kids))
                        (cleanPath current # visited) (items @ kids)))"
  by pat_completeness auto
termination
  by (relation "measures [\<lambda>(_, _, _, visited, _). fileSearchMaxDirs - length visited, \<lambda>(_, _, queue, _, _). length queue]") auto

declare searchLoop.simps [simp del]

definition contains :: "string \<Rightarrow> string \<Rightarrow> bool" where
  "contains s sub \<longleftrightarrow> stringsIndex s sub \<noteq> None"

definition fileSearchScore :: "(string \<Rightarrow> string) \<Rightarrow> FileItem \<Rightarrow> string \<Rightarrow> nat" where
  "fileSearchScore lower item query0 =
     (let query = toLower lower (trimSpace query0); name = toLower lower (fi_Name item); path = toLower lower (fi_Path item);
          score = (if contains name query then 8 else 0) + (if contains path query then 5 else 0)
            + sum_list (map (\<lambda>token. (if contains name token then 3 else 0) + (if contains path token then 1 else 0)) (stringsFields query)) in
      if score > 0 \<and> fi_IsDirectory item then score + 1 else score)"

section \<open>The policy of a source\<close>

definition sourceAllow :: "fileAccessPolicy \<Rightarrow> string \<Rightarrow> string \<Rightarrow> int \<Rightarrow> unit result" where
  "sourceAllow p action rawPath sz =
     (if action = ''read'' \<and> po_Read p = Some False then deny ''denies read''
      else if action = ''write'' \<and> po_Write p = Some False then deny ''denies write''
      else if action = ''write'' \<and> MaxUploadBytes p > 0 \<and> sz > MaxUploadBytes p then deny ''upload size limit exceeded''
      else if action = ''delete'' \<and> po_Delete p = Some False then deny ''denies delete''
      else
        let path = cleanPolicyPath rawPath in
        if list_ex (pathHasPolicyPrefix path) (BlockedPrefixes p) then deny ''blocks this path''
        else if AllowedPrefixes p \<noteq> []
        then (if list_ex (pathHasPolicyPrefix path) (AllowedPrefixes p) then Inr () else deny ''does not allow this path'')
        else Inr ())"

lemma sourceAllow_iff:
  "sourceAllow p action path sz = Inr u \<longleftrightarrow>
     permits p action (components path) \<and> (action = ''write'' \<longrightarrow> MaxUploadBytes p \<le> 0 \<or> sz \<le> MaxUploadBytes p)"
proof -
  have "sourceAllow p action path sz =
      (if action = ''write'' \<and> po_Write p \<noteq> Some False \<and> MaxUploadBytes p > 0 \<and> sz > MaxUploadBytes p
       then deny ''upload size limit exceeded'' else allow p action path)"
    by (simp add: sourceAllow_def allow_def)
  moreover have "permits p action (components path) \<Longrightarrow> action = ''write'' \<Longrightarrow> po_Write p \<noteq> Some False" unfolding permits_def by blast
  moreover have "deny what \<noteq> Inr u" for what by (simp add: deny_def)
  ultimately show ?thesis using allow_iff [of p action path u] unfolding not_le [symmetric] by metis
qed

section \<open>Operations on a source\<close>

text \<open>
  What a network share answers: the functions of \<open>smb.go\<close> on the state \<open>'b\<close> of the shares. A handle of the client
  library is a number.
\<close>

record 'b smbOps =
  sm_list :: "'b \<Rightarrow> string \<Rightarrow> string \<Rightarrow> FileItem list result"
  sm_stat :: "'b \<Rightarrow> string \<Rightarrow> string \<Rightarrow> FileItem result"
  sm_createDirectory :: "'b \<Rightarrow> string \<Rightarrow> string \<Rightarrow> 'b \<times> unit result"
  sm_rename :: "'b \<Rightarrow> string \<Rightarrow> string \<Rightarrow> string \<Rightarrow> 'b \<times> unit result"
  sm_delete :: "'b \<Rightarrow> string \<Rightarrow> string \<Rightarrow> bool \<Rightarrow> 'b \<times> unit result"
  sm_download :: "'b \<Rightarrow> string \<Rightarrow> string \<Rightarrow> string result"
  sm_upload :: "'b \<Rightarrow> string \<Rightarrow> string \<Rightarrow> string \<Rightarrow> 'b \<times> unit result"
  sm_openReader :: "'b \<Rightarrow> string \<Rightarrow> string \<Rightarrow> int \<Rightarrow> 'b \<times> (nat \<times> int) result"
  sm_openWriter :: "'b \<Rightarrow> string \<Rightarrow> string \<Rightarrow> int \<Rightarrow> 'b \<times> (nat \<times> int) result"
  sm_read :: "'b \<Rightarrow> nat \<Rightarrow> 'b \<times> (bytes \<times> bool) result"
  sm_write :: "'b \<Rightarrow> nat \<Rightarrow> bytes \<Rightarrow> 'b \<times> nat result"
  sm_close :: "'b \<Rightarrow> nat \<Rightarrow> 'b \<times> unit result"

record agentEnv =
  ae_lower :: "string \<Rightarrow> string"
  ae_dirSize :: int

record 'b agentWorld =
  aw_fs :: fs
  aw_smb :: 'b
  aw_service :: fileService
  aw_ctx :: "nat option"

text \<open>The context of the request: the number of times it is still found alive, or that it is never cancelled.\<close>

definition cancelled :: "'b agentWorld \<Rightarrow> bool" where "cancelled w \<longleftrightarrow> aw_ctx w = Some 0"

definition ListSource :: "agentEnv \<Rightarrow> 'b smbOps \<Rightarrow> 'b agentWorld \<Rightarrow> string \<Rightarrow> string \<Rightarrow> FileItem list result" where
  "ListSource E smb w sourceID path =
     bindR (sourceForID (ae_lower E) (aw_service w) sourceID) (\<lambda>source.
     bindR (sourceAllow (fs_Policy source) ''read'' path 0) (\<lambda>_.
     bindR (if fs_SMB source then sm_list smb (aw_smb w) (fs_ID source) path
            else listLocal (ae_dirSize E) (cancelled w) (aw_fs w) (fs_Root source) path) (\<lambda>items.
     Inr (decorateFileItemsSource items (fs_ID source)))))"

definition StatSource :: "agentEnv \<Rightarrow> 'b smbOps \<Rightarrow> 'b agentWorld \<Rightarrow> string \<Rightarrow> string \<Rightarrow> FileItem result" where
  "StatSource E smb w sourceID path =
     bindR (sourceForID (ae_lower E) (aw_service w) sourceID) (\<lambda>source.
     bindR (sourceAllow (fs_Policy source) ''read'' path 0) (\<lambda>_.
     bindR (if fs_SMB source then sm_stat smb (aw_smb w) (fs_ID source) path
            else statLocal (ae_dirSize E) (aw_fs w) (fs_Root source) path) (\<lambda>item.
     Inr (item\<lparr>fi_SourceID := fs_ID source\<rparr>))))"

definition DownloadSource :: "agentEnv \<Rightarrow> 'b smbOps \<Rightarrow> 'b agentWorld \<Rightarrow> string \<Rightarrow> string \<Rightarrow> string result" where
  "DownloadSource E smb w sourceID path =
     bindR (sourceForID (ae_lower E) (aw_service w) sourceID) (\<lambda>source.
     bindR (sourceAllow (fs_Policy source) ''read'' path 0) (\<lambda>_.
     if fs_SMB source then sm_download smb (aw_smb w) (fs_ID source) path
     else downloadLocal (aw_fs w) (fs_Root source) path))"

text \<open>The checks of an operation: the action, the path and the size it asks the policy for.\<close>

fun allowChecks :: "fileAccessPolicy \<Rightarrow> (string \<times> string \<times> int) list \<Rightarrow> unit result" where
  "allowChecks p [] = Inr ()"
| "allowChecks p ((action, path, sz) # cs) = bindR (sourceAllow p action path sz) (\<lambda>_. allowChecks p cs)"

definition authorised :: "agentEnv \<Rightarrow> 'b agentWorld \<Rightarrow> string \<Rightarrow> (string \<times> string \<times> int) list \<Rightarrow> fileSourceSelection result" where
  "authorised E w sourceID checks =
     bindR (sourceForID (ae_lower E) (aw_service w) sourceID) (\<lambda>source.
     bindR (allowChecks (fs_Policy source) checks) (\<lambda>_. Inr source))"

definition onFs :: "(fs \<Rightarrow> fs \<times> 'a result) \<Rightarrow> 'b agentWorld \<Rightarrow> 'b agentWorld \<times> 'a result" where
  "onFs f w = (case f (aw_fs w) of (fs', r) \<Rightarrow> (w\<lparr>aw_fs := fs'\<rparr>, r))"

definition onSmb :: "('b \<Rightarrow> 'b \<times> 'a result) \<Rightarrow> 'b agentWorld \<Rightarrow> 'b agentWorld \<times> 'a result" where
  "onSmb f w = (case f (aw_smb w) of (b', r) \<Rightarrow> (w\<lparr>aw_smb := b'\<rparr>, r))"

definition invalidate :: "string \<Rightarrow> 'b agentWorld \<Rightarrow> 'b agentWorld" where
  "invalidate sourceID w = w\<lparr>aw_service := invalidateSearchIndex sourceID (aw_service w)\<rparr>"

text \<open>An operation that changes a source: the search index of the source is dropped when it succeeds.\<close>

definition changeSource ::
    "agentEnv \<Rightarrow> string \<Rightarrow> (string \<times> string \<times> int) list \<Rightarrow> (string \<Rightarrow> 'b \<Rightarrow> 'b \<times> unit result) \<Rightarrow> (string \<Rightarrow> fs \<Rightarrow> fs \<times> unit result)
      \<Rightarrow> 'b agentWorld \<Rightarrow> 'b agentWorld \<times> unit result" where
  "changeSource E sourceID checks smbOp localOp w =
     (case authorised E w sourceID checks of
        Inl e \<Rightarrow> (w, Inl e)
      | Inr source \<Rightarrow>
          (case (if fs_SMB source then onSmb (smbOp (fs_ID source)) w else onFs (localOp (fs_Root source)) w) of
             (w', Inr u) \<Rightarrow> (invalidate (fs_ID source) w', Inr u)
           | (w', Inl e) \<Rightarrow> (w', Inl e)))"

definition CreateDirectorySource :: "agentEnv \<Rightarrow> 'b smbOps \<Rightarrow> string \<Rightarrow> string \<Rightarrow> 'b agentWorld \<Rightarrow> 'b agentWorld \<times> unit result" where
  "CreateDirectorySource E smb sourceID path =
     changeSource E sourceID [(''write'', path, 0)] (\<lambda>ident b. sm_createDirectory smb b ident path)
       (\<lambda>root fs. createDirectoryLocal fs root path)"

definition RenameSource :: "agentEnv \<Rightarrow> 'b smbOps \<Rightarrow> string \<Rightarrow> string \<Rightarrow> string \<Rightarrow> 'b agentWorld \<Rightarrow> 'b agentWorld \<times> unit result" where
  "RenameSource E smb sourceID from to =
     changeSource E sourceID [(''write'', from, 0), (''write'', to, 0)] (\<lambda>ident b. sm_rename smb b ident from to)
       (\<lambda>root fs. renameLocal fs root from to)"

definition DeleteSource :: "agentEnv \<Rightarrow> 'b smbOps \<Rightarrow> string \<Rightarrow> string \<Rightarrow> bool \<Rightarrow> 'b agentWorld \<Rightarrow> 'b agentWorld \<times> unit result" where
  "DeleteSource E smb sourceID path isDirectory =
     changeSource E sourceID [(''delete'', path, 0)] (\<lambda>ident b. sm_delete smb b ident path isDirectory)
       (\<lambda>root fs. deleteLocal fs root path isDirectory)"

definition UploadSource :: "agentEnv \<Rightarrow> 'b smbOps \<Rightarrow> string \<Rightarrow> string \<Rightarrow> string \<Rightarrow> 'b agentWorld \<Rightarrow> 'b agentWorld \<times> unit result" where
  "UploadSource E smb sourceID path contentBase64 =
     changeSource E sourceID [(''write'', path, int (decodedBase64Size contentBase64))] (\<lambda>ident b. sm_upload smb b ident path contentBase64)
       (\<lambda>root fs. uploadLocal fs root path contentBase64)"

definition RollbackMoveDestination :: "agentEnv \<Rightarrow> 'b smbOps \<Rightarrow> string \<Rightarrow> string \<Rightarrow> bool \<Rightarrow> 'b agentWorld \<Rightarrow> 'b agentWorld \<times> unit result" where
  "RollbackMoveDestination E smb destinationSourceID to0 isDirectory w =
     (let to = trimSpace to0 in
      if to = [] then (w, Inl (ErrMsg ''rollback destination path is required''))
      else
        case StatSource E smb w destinationSourceID to of
          Inl e \<Rightarrow> if e = ErrNotExist then (w, Inr ()) else (w, Inl e)
        | Inr _ \<Rightarrow> DeleteSource E smb destinationSourceID to isDirectory w)"

section \<open>Handles\<close>

text \<open>
  A reader or writer on a host file is its path and its position; one on a share is the client's. A writer of a source
  with an upload limit counts what it writes; closing a writer drops the search index.
\<close>

datatype handle = LocalHandle path nat | SmbHandle nat

record writeHandle =
  wh_inner :: handle
  wh_max :: "int option"
  wh_current :: int
  wh_source :: string

definition OpenReaderSource :: "agentEnv \<Rightarrow> 'b smbOps \<Rightarrow> string \<Rightarrow> string \<Rightarrow> int \<Rightarrow> 'b agentWorld \<Rightarrow> 'b agentWorld \<times> (handle \<times> int) result" where
  "OpenReaderSource E smb sourceID path offset w =
     (case authorised E w sourceID [(''read'', path, 0)] of
        Inl e \<Rightarrow> (w, Inl e)
      | Inr source \<Rightarrow>
          if fs_SMB source
          then (case onSmb (\<lambda>b. sm_openReader smb b (fs_ID source) path offset) w of
                  (w', Inl e) \<Rightarrow> (w', Inl e)
                | (w', Inr (h, sz)) \<Rightarrow> (w', Inr (SmbHandle h, sz)))
          else (w, bindR (openReaderLocal (aw_fs w) (fs_Root source) path offset) (\<lambda>(q, sz). Inr (LocalHandle q (nat offset), sz))))"

definition limitWriteHandle :: "handle \<Rightarrow> int \<Rightarrow> int \<Rightarrow> string \<Rightarrow> writeHandle" where
  "limitWriteHandle inner limit current sourceID =
     \<lparr>wh_inner = inner, wh_max = (if limit \<le> 0 then None else Some limit), wh_current = current, wh_source = sourceID\<rparr>"

definition OpenWriterSource :: "agentEnv \<Rightarrow> 'b smbOps \<Rightarrow> string \<Rightarrow> string \<Rightarrow> int \<Rightarrow> 'b agentWorld \<Rightarrow> 'b agentWorld \<times> (writeHandle \<times> int) result" where
  "OpenWriterSource E smb sourceID path offset w =
     (case authorised E w sourceID [(''write'', path, offset)] of
        Inl e \<Rightarrow> (w, Inl e)
      | Inr source \<Rightarrow>
          let limited = (\<lambda>h. limitWriteHandle h (MaxUploadBytes (fs_Policy source)) offset (fs_ID source)) in
          if fs_SMB source
          then (case onSmb (\<lambda>b. sm_openWriter smb b (fs_ID source) path offset) w of
                  (w', Inl e) \<Rightarrow> (w', Inl e)
                | (w', Inr (h, sz)) \<Rightarrow> (w', Inr (limited (SmbHandle h), sz)))
          else (case onFs (\<lambda>fs. openWriterLocal fs (fs_Root source) path offset) w of
                  (w', Inl e) \<Rightarrow> (w', Inl e)
                | (w', Inr (q, sz)) \<Rightarrow> (w', Inr (limited (LocalHandle q (nat sz)), sz))))"

text \<open>Reading and writing at a position; a host file that is gone reads as ended and takes writes nobody sees.\<close>

fun upTo :: "int \<Rightarrow> bytes \<Rightarrow> bytes" where
  "upTo n [] = []"
| "upTo n (b # bs) = (if n \<le> 0 then [] else b # upTo (n - 1) bs)"

lemma upTo_take: "upTo n bs = take (nat n) bs"
proof (induction n bs rule: upTo.induct)
  case (2 n b bs)
  then show ?case by (cases "nat n") (auto simp: nat_diff_distrib)
qed simp

definition readHandle :: "'b smbOps \<Rightarrow> int \<Rightarrow> handle \<Rightarrow> 'b agentWorld \<Rightarrow> 'b agentWorld \<times> (handle \<times> bytes \<times> bool) result" where
  "readHandle smb n h w =
     (case h of
        LocalHandle q pos \<Rightarrow>
          let data = upTo n (drop pos (fileBytes (aw_fs w) q)) in
          (w, Inr (LocalHandle q (pos + length data), data, data = []))
      | SmbHandle k \<Rightarrow>
          (case onSmb (\<lambda>b. sm_read smb b k) w of
             (w', Inl e) \<Rightarrow> (w', Inl e)
           | (w', Inr (data, eof)) \<Rightarrow> (w', Inr (SmbHandle k, data, eof))))"

definition writeAt :: "bytes \<Rightarrow> nat \<Rightarrow> bytes \<Rightarrow> bytes" where
  "writeAt old pos data = take pos old @ replicate (pos - length old) 0 @ data @ drop (pos + length data) old"

definition innerWrite :: "'b smbOps \<Rightarrow> handle \<Rightarrow> bytes \<Rightarrow> 'b agentWorld \<Rightarrow> 'b agentWorld \<times> (handle \<times> nat) result" where
  "innerWrite smb h data w =
     (case h of
        LocalHandle q pos \<Rightarrow>
          (case mget (aw_fs w) q of
             Some (File old) \<Rightarrow> (w\<lparr>aw_fs := mput q (File (writeAt old pos data)) (aw_fs w)\<rparr>, Inr (LocalHandle q (pos + length data), length data))
           | _ \<Rightarrow> (w, Inr (LocalHandle q (pos + length data), length data)))
      | SmbHandle k \<Rightarrow>
          (case onSmb (\<lambda>b. sm_write smb b k data) w of
             (w', Inl e) \<Rightarrow> (w', Inl e)
           | (w', Inr n) \<Rightarrow> (w', Inr (SmbHandle k, n))))"

definition maxWrite :: "'b smbOps \<Rightarrow> writeHandle \<Rightarrow> bytes \<Rightarrow> 'b agentWorld \<Rightarrow> 'b agentWorld \<times> (writeHandle \<times> nat) result" where
  "maxWrite smb h data w =
     (if (case wh_max h of None \<Rightarrow> False | Some m \<Rightarrow> wh_current h + int (length data) > m)
      then (w, Inl (ErrMsg ''file source policy upload size limit exceeded''))
      else
        case innerWrite smb (wh_inner h) data w of
          (w', Inl e) \<Rightarrow> (w', Inl e)
        | (w', Inr (inner, n)) \<Rightarrow> (w', Inr (h\<lparr>wh_inner := inner, wh_current := wh_current h + int n\<rparr>, n)))"

definition closeWriter :: "'b smbOps \<Rightarrow> writeHandle \<Rightarrow> 'b agentWorld \<Rightarrow> 'b agentWorld \<times> unit result" where
  "closeWriter smb h w =
     (case wh_inner h of
        LocalHandle q pos \<Rightarrow> (invalidate (wh_source h) w, Inr ())
      | SmbHandle k \<Rightarrow>
          (case onSmb (\<lambda>b. sm_close smb b k) w of
             (w', Inl e) \<Rightarrow> (w', Inl e)
           | (w', Inr u) \<Rightarrow> (invalidate (wh_source h) w', Inr u)))"

section \<open>The search of a source\<close>

definition searchIndex :: "agentEnv \<Rightarrow> 'b smbOps \<Rightarrow> time \<Rightarrow> string \<Rightarrow> 'b agentWorld \<Rightarrow> 'b agentWorld \<times> FileItem list result" where
  "searchIndex E smb now sourceID w =
     (let s = aw_service w; generation = searchIndexGeneration s sourceID;
          scan = (case searchLoop (ListSource E smb w sourceID) (cancelled w) [[]] [] [] of
                    Inl e \<Rightarrow> (w, Inl e)
                  | Inr items \<Rightarrow> (w\<lparr>aw_service := storeSearchIndexIfCurrent sourceID generation items now s\<rparr>, Inr items)) in
      case mget (fv_searchCache s) sourceID of
        Some entry \<Rightarrow> if timeSub now (ce_createdAt entry) < fileSearchCacheTTL then (w, Inr (ce_items entry)) else scan
      | None \<Rightarrow> scan)"

definition SearchSource :: "agentEnv \<Rightarrow> 'b smbOps \<Rightarrow> time \<Rightarrow> string \<Rightarrow> string \<Rightarrow> int \<Rightarrow> 'b agentWorld \<Rightarrow> 'b agentWorld \<times> FileItem list result" where
  "SearchSource E smb now sourceID query0 limit0 w =
     (let query = toLower (ae_lower E) (trimSpace query0) in
      if query = [] then (w, Inr [])
      else
        let limit = if limit0 \<le> 0 \<or> limit0 > 100 then 50 else limit0 in
        case sourceForID (ae_lower E) (aw_service w) sourceID of
          Inl e \<Rightarrow> (w, Inl e)
        | Inr source \<Rightarrow>
            (case searchIndex E smb now (fs_ID source) w of
               (w', Inl e) \<Rightarrow> (w', Inl e)
             | (w', Inr items) \<Rightarrow>
                 (w', Inr (take (nat limit) (sort_key (\<lambda>i. (- int (fileSearchScore (ae_lower E) i query), fi_Path i))
                     (filter (\<lambda>i. fileSearchScore (ae_lower E) i query > 0) items))))))"

section \<open>Only what the policy permits\<close>

datatype sourceOp =
    SrcCreateDirectory string
  | SrcRename string string
  | SrcDelete string bool
  | SrcUpload string string
  | SrcOpenWriter string int

fun runSource :: "agentEnv \<Rightarrow> 'b smbOps \<Rightarrow> string \<Rightarrow> sourceOp \<Rightarrow> 'b agentWorld \<Rightarrow> 'b agentWorld" where
  "runSource E smb sourceID (SrcCreateDirectory path) w = fst (CreateDirectorySource E smb sourceID path w)"
| "runSource E smb sourceID (SrcRename from to) w = fst (RenameSource E smb sourceID from to w)"
| "runSource E smb sourceID (SrcDelete path isDirectory) w = fst (DeleteSource E smb sourceID path isDirectory w)"
| "runSource E smb sourceID (SrcUpload path content) w = fst (UploadSource E smb sourceID path content w)"
| "runSource E smb sourceID (SrcOpenWriter path offset) w = fst (OpenWriterSource E smb sourceID path offset w)"

text \<open>The operation on the host folder, and what the policy must permit for it.\<close>

fun localPart :: "sourceOp \<Rightarrow> localOp" where
  "localPart (SrcCreateDirectory path) = OpCreateDirectory path"
| "localPart (SrcRename from to) = OpRename from to"
| "localPart (SrcDelete path isDirectory) = OpDelete path isDirectory"
| "localPart (SrcUpload path content) = OpUpload path content"
| "localPart (SrcOpenWriter path offset) = OpOpenWriter path offset"

fun touches :: "sourceOp \<Rightarrow> (string \<times> string) list" where
  "touches (SrcCreateDirectory path) = [(''write'', path)]"
| "touches (SrcRename from to) = [(''write'', from), (''write'', to)]"
| "touches (SrcDelete path isDirectory) = [(''delete'', path)]"
| "touches (SrcUpload path content) = [(''write'', path)]"
| "touches (SrcOpenWriter path offset) = [(''write'', path)]"

definition permitted :: "fileAccessPolicy \<Rightarrow> sourceOp \<Rightarrow> bool" where
  "permitted p op \<longleftrightarrow> list_all (\<lambda>(action, path). permits p action (components path)) (touches op)
     \<and> (case op of SrcUpload _ content \<Rightarrow> MaxUploadBytes p \<le> 0 \<or> int (decodedBase64Size content) \<le> MaxUploadBytes p
        | SrcOpenWriter _ offset \<Rightarrow> MaxUploadBytes p \<le> 0 \<or> offset \<le> MaxUploadBytes p | _ \<Rightarrow> True)"

lemma allowChecks_iff:
  "allowChecks p cs = Inr u \<longleftrightarrow>
     list_all (\<lambda>(action, path, sz). permits p action (components path) \<and> (action = ''write'' \<longrightarrow> MaxUploadBytes p \<le> 0 \<or> sz \<le> MaxUploadBytes p)) cs"
  by (induction p cs rule: allowChecks.induct) (auto simp: bindR_Inr_iff sourceAllow_iff)

lemma authorised_iff:
  "authorised E w sourceID cs = Inr source \<longleftrightarrow>
     sourceForID (ae_lower E) (aw_service w) sourceID = Inr source \<and> allowChecks (fs_Policy source) cs = Inr ()"
  by (auto simp: authorised_def bindR_Inr_iff)

lemma changeSource_fs:
  "aw_fs (fst (changeSource E sourceID cs smbOp localOp w)) =
     (case authorised E w sourceID cs of
        Inl e \<Rightarrow> aw_fs w
      | Inr source \<Rightarrow> if fs_SMB source then aw_fs w else fst (localOp (fs_Root source) (aw_fs w)))"
  by (auto simp: changeSource_def onFs_def onSmb_def invalidate_def split: sum.splits prod.splits)

lemma OpenWriterSource_fs:
  "aw_fs (fst (OpenWriterSource E smb sourceID path offset w)) =
     (case authorised E w sourceID [(''write'', path, offset)] of
        Inl e \<Rightarrow> aw_fs w
      | Inr source \<Rightarrow> if fs_SMB source then aw_fs w else fst (openWriterLocal (aw_fs w) (fs_Root source) path offset))"
  by (auto simp: OpenWriterSource_def Let_def onFs_def onSmb_def split: sum.splits prod.splits)

lemmas source_defs = CreateDirectorySource_def RenameSource_def DeleteSource_def UploadSource_def

text \<open>On the host file system an operation on a source either does nothing or is the permitted operation on its folder.\<close>

lemma runSource_fs:
  "aw_fs (runSource E smb sourceID op w) = aw_fs w
   \<or> (\<exists>source. sourceForID (ae_lower E) (aw_service w) sourceID = Inr source \<and> \<not> fs_SMB source \<and> permitted (fs_Policy source) op
        \<and> aw_fs (runSource E smb sourceID op w) = runLocal (aw_fs w) (fs_Root source) (localPart op))"
  by (cases op)
    (auto simp: source_defs changeSource_fs OpenWriterSource_fs authorised_iff allowChecks_iff permitted_def
      simp del: allowChecks.simps split: sum.splits)


section \<open>What the search index holds\<close>

text \<open>The directories below a source, as its listings show them, and the items in them.\<close>

inductive scanned :: "(string \<Rightarrow> FileItem list result) \<Rightarrow> string \<Rightarrow> bool"
  for lst where
  scanned_top: "scanned lst []"
| scanned_sub: "scanned lst p \<Longrightarrow> lst p = Inr kids \<Longrightarrow> k \<in> set kids \<Longrightarrow> fi_IsDirectory k \<Longrightarrow> scanned lst (fi_Path k)"

definition listed :: "(string \<Rightarrow> FileItem list result) \<Rightarrow> FileItem \<Rightarrow> bool" where
  "listed lst i \<longleftrightarrow> (\<exists>p kids. scanned lst p \<and> lst p = Inr kids \<and> i \<in> set kids)"

text \<open>A directory is looked up by its cleaned path, which decides what its listing is.\<close>

definition byCleanPath :: "(string \<Rightarrow> FileItem list result) \<Rightarrow> bool" where
  "byCleanPath lst \<longleftrightarrow> (\<forall>p q. cleanPath p = cleanPath q \<longrightarrow> lst p = lst q)"

definition pendingKeys :: "string list \<Rightarrow> string list \<Rightarrow> string set" where
  "pendingKeys queue visited = set visited \<union> cleanPath ` set queue"

definition scanOk :: "(string \<Rightarrow> FileItem list result) \<Rightarrow> string list \<Rightarrow> string list \<Rightarrow> FileItem list \<Rightarrow> bool" where
  "scanOk lst queue visited items \<longleftrightarrow>
     (\<forall>q \<in> set queue. scanned lst q) \<and> (\<forall>i \<in> set items. listed lst i) \<and> cleanPath [] \<in> pendingKeys queue visited
     \<and> (\<forall>k \<in> set visited. \<exists>p kids. cleanPath p = k \<and> lst p = Inr kids \<and> set kids \<subseteq> set items
          \<and> (\<forall>d \<in> set kids. fi_IsDirectory d \<longrightarrow> cleanPath (fi_Path d) \<in> pendingKeys queue visited))"

lemma scanOk_seen:
  assumes "scanOk lst (c # queue) visited items" "cleanPath c \<in> set visited"
  shows "scanOk lst queue visited items"
proof -
  have "pendingKeys (c # queue) visited = pendingKeys queue visited" using assms(2) by (auto simp: pendingKeys_def)
  then show ?thesis using assms(1) by (simp add: scanOk_def)
qed

lemma scanOk_listed:
  assumes ok: "scanOk lst (c # queue) visited items" and kids: "lst c = Inr kids"
  shows "scanOk lst (queue @ map fi_Path (filter fi_IsDirectory kids)) (cleanPath c # visited) (items @ kids)"
    (is "scanOk lst ?queue ?visited ?items")
proof -
  have c: "scanned lst c" using ok by (simp add: scanOk_def)
  have sub: "pendingKeys (c # queue) visited \<subseteq> pendingKeys ?queue ?visited" by (auto simp: pendingKeys_def)
  have new: "\<forall>d \<in> set kids. fi_IsDirectory d \<longrightarrow> cleanPath (fi_Path d) \<in> pendingKeys ?queue ?visited" by (auto simp: pendingKeys_def)
  have "\<forall>k \<in> set ?visited. \<exists>p ks. cleanPath p = k \<and> lst p = Inr ks \<and> set ks \<subseteq> set ?items
      \<and> (\<forall>d \<in> set ks. fi_IsDirectory d \<longrightarrow> cleanPath (fi_Path d) \<in> pendingKeys ?queue ?visited)"
  proof
    fix k
    assume k: "k \<in> set ?visited"
    show "\<exists>p ks. cleanPath p = k \<and> lst p = Inr ks \<and> set ks \<subseteq> set ?items
        \<and> (\<forall>d \<in> set ks. fi_IsDirectory d \<longrightarrow> cleanPath (fi_Path d) \<in> pendingKeys ?queue ?visited)"
    proof (cases "k = cleanPath c")
      case True
      then show ?thesis using kids new by auto
    next
      case False
      then have "k \<in> set visited" using k by simp
      then obtain p ks where "cleanPath p = k" "lst p = Inr ks" "set ks \<subseteq> set items"
        "\<forall>d \<in> set ks. fi_IsDirectory d \<longrightarrow> cleanPath (fi_Path d) \<in> pendingKeys (c # queue) visited"
        using ok unfolding scanOk_def by blast
      then show ?thesis using sub by (intro exI [of _ p] exI [of _ ks]) auto
    qed
  qed
  moreover have "\<forall>q \<in> set ?queue. scanned lst q" using ok scanned_sub [OF c kids] by (auto simp: scanOk_def)
  moreover have "\<forall>i \<in> set ?items. listed lst i" using ok c kids by (auto simp: scanOk_def listed_def)
  moreover have "cleanPath [] \<in> pendingKeys ?queue ?visited" using ok sub by (auto simp: scanOk_def)
  ultimately show ?thesis by (simp add: scanOk_def)
qed

lemma searchLoop_ok:
  "scanOk lst queue visited items \<Longrightarrow> searchLoop lst stop queue visited items = Inr r \<Longrightarrow> length items \<le> fileSearchMaxItems
   \<Longrightarrow> \<exists>visited'. scanOk lst [] visited' r \<and> length r \<le> fileSearchMaxItems"
proof (induction lst stop queue visited items rule: searchLoop.induct)
  case (1 lst stop queue visited items)
  show ?case
  proof (cases queue)
    case Nil
    then show ?thesis using "1.prems" by (auto simp: searchLoop.simps [of lst stop "[]"])
  next
    case (Cons c queue')
    have "searchLoop lst stop (c # queue') visited items = Inr r" using "1.prems"(2) Cons by simp
    note run = this [unfolded searchLoop.simps [of lst stop "c # queue'"], simplified]
    show ?thesis
    proof (cases "cleanPath c \<in> set visited")
      case True
      then show ?thesis
        using "1.IH"(1) [OF Cons _ True] run scanOk_seen "1.prems"(1,3) Cons by (auto split: if_splits)
    next
      case False
      then obtain kids where kids: "lst c = Inr kids" "\<not> stop" "\<not> fileSearchMaxDirs \<le> length visited" "\<not> length items + length kids > fileSearchMaxItems"
        using run by (auto split: if_splits sum.splits)
      then show ?thesis
        using "1.IH"(2) [OF Cons kids(2) False kids(3,1,4)] run False scanOk_listed [of lst c queue' visited items kids] "1.prems"(1) Cons by auto
    qed
  qed
qed

lemma scanned_visited:
  assumes "scanned lst p" "byCleanPath lst" "scanOk lst [] visited items"
  shows "cleanPath p \<in> set visited"
  using assms(1)
proof induction
  case scanned_top
  then show ?case using assms(3) by (simp add: scanOk_def pendingKeys_def)
next
  case (scanned_sub p kids k)
  then obtain p' kids' where "cleanPath p' = cleanPath p" "lst p' = Inr kids'"
    "\<forall>d \<in> set kids'. fi_IsDirectory d \<longrightarrow> cleanPath (fi_Path d) \<in> set visited"
    using assms(3) by (fastforce simp: scanOk_def pendingKeys_def)
  moreover from this have "kids' = kids" using assms(2) scanned_sub by (metis Inr_inject byCleanPath_def)
  ultimately show ?case using scanned_sub by blast
qed

lemma searchLoop_exact:
  assumes "byCleanPath lst" "searchLoop lst stop [[]] [] [] = Inr items"
  shows "(\<forall>i. i \<in> set items \<longleftrightarrow> listed lst i) \<and> length items \<le> fileSearchMaxItems"
proof -
  have "scanOk lst [[]] [] []" by (auto simp: scanOk_def pendingKeys_def intro: scanned_top)
  then obtain visited where ok: "scanOk lst [] visited items" and len: "length items \<le> fileSearchMaxItems"
    using searchLoop_ok [OF _ assms(2)] by auto
  have "i \<in> set items" if i: "listed lst i" for i
  proof -
    obtain p kids where p: "scanned lst p" "lst p = Inr kids" "i \<in> set kids" using i by (auto simp: listed_def)
    obtain p' kids' where q: "cleanPath p' = cleanPath p" "lst p' = Inr kids'" "set kids' \<subseteq> set items"
      using scanned_visited [OF p(1) assms(1) ok] ok unfolding scanOk_def by blast
    then have "kids' = kids" using assms(1) p(2) by (metis Inr_inject byCleanPath_def)
    then show ?thesis using q p(3) by blast
  qed
  then show ?thesis using ok len by (auto simp: scanOk_def)
qed

lemma cleanPath_components_inject: "cleanPath p = cleanPath q \<Longrightarrow> components p = components q"
  using splitSlash_cleanPath [of p] splitSlash_cleanPath [of q] cleanPath_Nil_iff [of p] cleanPath_Nil_iff [of q] by metis

lemma ListSource_byCleanPath:
  assumes "sourceForID (ae_lower E) (aw_service w) sourceID = Inr source" "\<not> fs_SMB source"
  shows "byCleanPath (ListSource E smb w sourceID)"
  unfolding byCleanPath_def
proof (intro allI impI)
  fix p q
  assume eq: "cleanPath p = cleanPath q"
  have "cleanPolicyPath p = cleanPolicyPath q" by (simp add: cleanPolicyPath_rooted cleanPath_components_inject [OF eq])
  then have "sourceAllow pol ''read'' p 0 = sourceAllow pol ''read'' q 0" for pol by (simp add: sourceAllow_def)
  moreover have "listLocal ds c fs root p = listLocal ds c fs root q" for ds c fs root unfolding listLocal_def resolveLocal_def eq ..
  ultimately show "ListSource E smb w sourceID p = ListSource E smb w sourceID q" by (simp add: ListSource_def assms)
qed


text \<open>
  One directory that the policy refuses to list makes every search of the source fail: a blocked directory that
  exists, or the folder itself when the policy allows only directories below it.
\<close>

theorem search_fails_on_refused_directory:
  assumes "sourceForID (ae_lower E) (aw_service w) sourceID = Inr source" "\<not> fs_SMB source"
    and "scanned (ListSource E smb w sourceID) p" "\<not> permits (fs_Policy source) ''read'' (components p)"
  shows "searchLoop (ListSource E smb w sourceID) stop [[]] [] [] \<noteq> Inr items"
proof
  let ?lst = "ListSource E smb w sourceID"
  assume run: "searchLoop ?lst stop [[]] [] [] = Inr items"
  have "scanOk ?lst [[]] [] []" by (auto simp: scanOk_def pendingKeys_def intro: scanned_top)
  then obtain visited where ok: "scanOk ?lst [] visited items" using searchLoop_ok [OF _ run] by auto
  have key: "byCleanPath ?lst" by (rule ListSource_byCleanPath [OF assms(1,2)])
  then obtain q kids where q: "cleanPath q = cleanPath p" "?lst q = Inr kids"
    using scanned_visited [OF assms(3) key ok] ok unfolding scanOk_def by blast
  then have "?lst p = Inr kids" using key unfolding byCleanPath_def by metis
  then show False using assms(4) by (auto simp: ListSource_def assms(1) bindR_Inr_iff sourceAllow_iff)
qed

section \<open>Stale indexes\<close>

text \<open>An index whose scan began before a change of the source is not stored.\<close>

theorem changed_source_not_stored:
  "storeSearchIndexIfCurrent sourceID (searchIndexGeneration s sourceID) items now (invalidateSearchIndex sourceID s)
   = invalidateSearchIndex sourceID s"
  by (simp add: storeSearchIndexIfCurrent_def searchIndexGeneration_def invalidateSearchIndex_def)

text \<open>
  A new configuration raises the generation only of sources that were changed before: an index of the former folder,
  under the former policy, is stored after the new configuration is in place and served until it expires.
\<close>

theorem reconfigured_source_stores_stale_index:
  assumes "mget (fv_searchCacheGen s) sourceID = None"
  shows "mget (fv_searchCache (storeSearchIndexIfCurrent sourceID (searchIndexGeneration s sourceID) items now (ApplyLocalConfigs lower configs s))) sourceID
    = Some \<lparr>ce_items = items, ce_createdAt = now\<rparr>"
proof -
  have "mget (map (\<lambda>(k, g). (k, g + 1)) m) sourceID = None" if "mget m sourceID = None" for m :: "(string, 64 word) gomap"
    using that by (induction m) (auto split: if_splits)
  then show ?thesis
    using assms by (simp add: storeSearchIndexIfCurrent_def searchIndexGeneration_def ApplyLocalConfigs_def invalidateAllSearchIndexes_def)
qed

section \<open>A concrete agent\<close>

definition openPolicy :: fileAccessPolicy where
  "openPolicy = \<lparr>po_Read = None, po_Write = None, po_Delete = None, AllowedPrefixes = [], BlockedPrefixes = [], MaxUploadBytes = 0\<rparr>"

definition sampleFolder :: "string \<Rightarrow> string \<Rightarrow> fileAccessPolicy \<Rightarrow> LocalConfig" where
  "sampleFolder ident root policy = \<lparr>lc_ID = ident, lc_Name = [], lc_Root = root, lc_Policy = policy\<rparr>"

definition sampleAgentEnv :: agentEnv where "sampleAgentEnv = \<lparr>ae_lower = id, ae_dirSize = 4096\<rparr>"

definition noShares :: "unit smbOps" where
  "noShares =
     \<lparr>sm_list = (\<lambda>_ _ _. Inl ErrDisabled), sm_stat = (\<lambda>_ _ _. Inl ErrDisabled), sm_createDirectory = (\<lambda>b _ _. (b, Inl ErrDisabled)),
      sm_rename = (\<lambda>b _ _ _. (b, Inl ErrDisabled)), sm_delete = (\<lambda>b _ _ _. (b, Inl ErrDisabled)), sm_download = (\<lambda>_ _ _. Inl ErrDisabled),
      sm_upload = (\<lambda>b _ _ _. (b, Inl ErrDisabled)), sm_openReader = (\<lambda>b _ _ _. (b, Inl ErrDisabled)), sm_openWriter = (\<lambda>b _ _ _. (b, Inl ErrDisabled)),
      sm_read = (\<lambda>b _. (b, Inl ErrDisabled)), sm_write = (\<lambda>b _ _. (b, Inl ErrDisabled)), sm_close = (\<lambda>b _. (b, Inl ErrDisabled))\<rparr>"

definition sampleAgentWorld :: "LocalConfig list \<Rightarrow> unit agentWorld" where
  "sampleAgentWorld locals =
     \<lparr>aw_fs = sampleHost, aw_smb = (), aw_service = newService id (\<lambda>_. None) [] openPolicy locals [], aw_ctx = None\<rparr>"

text \<open>Numbering repeated ids can repeat an id that was given: the third folder is never selected.\<close>

theorem repeated_source_ids:
  "map lc_ID (normalizeLocalConfigs id [sampleFolder ''a'' ''/x'' openPolicy, sampleFolder ''a'' ''/y'' openPolicy, sampleFolder ''a-2'' ''/z'' openPolicy])
   = [''a'', ''a-2'', ''a-2'']"
  by code_simp

text \<open>A rollback refuses the empty path, but not another name of the folder itself, and then removes the folder.\<close>

theorem rollback_removes_folder:
  "snd (RollbackMoveDestination sampleAgentEnv noShares ''docs'' '' '' True (sampleAgentWorld [sampleFolder ''docs'' ''/srv'' openPolicy])) \<noteq> Inr ()
   \<and> snd (RollbackMoveDestination sampleAgentEnv noShares ''docs'' ''/'' True (sampleAgentWorld [sampleFolder ''docs'' ''/srv'' openPolicy])) = Inr ()
   \<and> mget (aw_fs (fst (RollbackMoveDestination sampleAgentEnv noShares ''docs'' ''/'' True
        (sampleAgentWorld [sampleFolder ''docs'' ''/srv'' openPolicy])))) [''srv''] = None"
  by code_simp

definition sampleDocs :: "unit agentWorld" where
  "sampleDocs = sampleAgentWorld [sampleFolder ''docs'' ''/srv'' (openPolicy\<lparr>BlockedPrefixes := [''docs'']\<rparr>)]"

lemma sampleDocs_fs: "fs_wf (aw_fs sampleDocs)"
  by code_simp


definition sampleFiles :: "unit agentWorld" where
  "sampleFiles = sampleAgentWorld [sampleFolder ''docs'' ''/srv/docs'' openPolicy]"

lemma sampleFiles_list:
  "ListSource sampleAgentEnv noShares sampleFiles ''docs'' [] =
     Inr [\<lparr>fi_Path = ''a'', fi_Name = ''a'', fi_IsDirectory = False, fi_Size = 3, fi_SourceID = ''docs''\<rparr>]"
  by code_simp


end
