(* ===== verification/Agent_Move.thy ===== *)
theory Agent_Move
  imports Agent_Files
begin

text \<open>
  Moving a file or a directory between the sources of an agent, \<open>internal/agent/files/move.go\<close>: a rename within a source, and
  otherwise a plan of the tree, a copy, a comparison of the copies by their hash, and the removal of the original. The
  context can be cancelled at every check. Walks of a tree and copy loops take a bound on their number of rounds, \<open>fuel\<close>, as a
  share may list and deliver without end. Progress reports go to a callback and are left out.
\<close>

section \<open>Writes below a folder\<close>

text \<open>Below a directory, directories and files were added and files were rewritten.\<close>

definition grown :: "path \<Rightarrow> fs \<Rightarrow> fs \<Rightarrow> bool" where
  "grown root fs fs' \<longleftrightarrow>
     (\<forall>q. mget fs' q = mget fs q \<or> prefix root q \<and>
        (mget fs q = None \<and> mget fs' q = Some Dir
         \<or> (\<exists>d. mget fs' q = Some (File d)) \<and> (mget fs q = None \<or> (\<exists>d. mget fs q = Some (File d)))))"

definition noLinks :: "path \<Rightarrow> fs \<Rightarrow> bool" where
  "noLinks root fs \<longleftrightarrow> (\<forall>q t. prefix root q \<longrightarrow> mget fs q \<noteq> Some (Link t))"

lemma grown_at:
  assumes "grown root fs fs'"
  obtains "mget fs' q = mget fs q" | "prefix root q" "mget fs q = None" "mget fs' q = Some Dir"
    | d where "prefix root q" "mget fs' q = Some (File d)" "mget fs q = None \<or> (\<exists>d. mget fs q = Some (File d))"
  using assms [unfolded grown_def, rule_format, of q] by (elim disjE conjE exE) simp_all

lemma grown_refl [simp]: "grown root fs fs"
  by (simp add: grown_def)

lemma grown_trans:
  assumes "grown root fs fs1" "grown root fs1 fs2"
  shows "grown root fs fs2"
  unfolding grown_def
proof
  fix q
  show "mget fs2 q = mget fs q \<or> prefix root q \<and>
      (mget fs q = None \<and> mget fs2 q = Some Dir
       \<or> (\<exists>d. mget fs2 q = Some (File d)) \<and> (mget fs q = None \<or> (\<exists>d. mget fs q = Some (File d))))"
    by (rule grown_at [OF assms(1), of q]; rule grown_at [OF assms(2), of q]) auto
qed

lemma grown_outside: "grown root fs fs' \<Longrightarrow> \<not> prefix root q \<Longrightarrow> mget fs' q = mget fs q"
  by (erule grown_at [of _ _ _ q]) auto

lemma grown_keeps: "grown root fs fs' \<Longrightarrow> keepsNodes fs fs'"
  unfolding keepsNodes_def by (metis grown_at option.distinct(1) option.inject)

lemma grown_noLinks: "grown root fs fs' \<Longrightarrow> noLinks root fs \<Longrightarrow> noLinks root fs'"
  unfolding noLinks_def by (metis grown_at node.distinct(3) node.distinct(5) option.inject)

lemma grown_eval: "grown root fs fs' \<Longrightarrow> evalSymlinks fs p = Inr r \<Longrightarrow> evalSymlinks fs' p = Inr r"
  unfolding evalSymlinks_def by (rule walk_keeps [OF grown_keeps])

lemma extends_grown: "extends fs fs' \<Longrightarrow> confined root fs fs' \<Longrightarrow> grown root fs fs'"
  unfolding extends_def confined_def grown_def by metis

lemma grown_put: "prefix root q \<Longrightarrow> mget fs q = None \<or> (\<exists>d. mget fs q = Some (File d)) \<Longrightarrow> grown root fs (mput q (File d) fs)"
  by (auto simp: grown_def)

lemma noLinks_opens:
  assumes "fs_wf fs" "evalSymlinks fs (absPath (trimSpace rootDir)) = Inr root" "noLinks root fs"
  shows "\<not> opensLink fs rootDir path"
proof
  assume o: "opensLink fs rootDir path"
  then obtain p t where p: "resolveLocalForWrite fs rootDir path = Inr (Some p)" "mget fs p = Some (Link t)"
    by (auto simp: opensLink_def split: sum.splits option.splits node.splits)
  have "prefix root p" using resolveLocalForWrite_new [OF assms(1) p(1)] assms(2) by (metis Inr_inject option.inject)
  then show False using assms(3) p(2) by (simp add: noLinks_def)
qed

lemma createDirectory_grown:
  assumes "fs_wf fs" "evalSymlinks fs (absPath (trimSpace rootDir)) = Inr root"
  shows "grown root fs (fst (createDirectoryLocal fs rootDir path))"
proof (cases "resolveLocalForWrite fs rootDir path")
  case (Inr r)
  have "(\<exists>p. r = Some p \<and> settled False fs p \<and> prefix root p)
       \<or> (\<exists>d m ms. r = Some (d @ m # ms) \<and> prefix root d \<and> mget fs d = Some Dir \<and> dangles fs d m \<and> list_all component (m # ms))"
    using resolveLocalForWrite_ok [OF assms(1) Inr] assms(2) by auto
  then show ?thesis
  proof (elim disjE exE conjE)
    fix d m ms
    assume p: "r = Some (d @ m # ms)" "prefix root d" "mget fs d = Some Dir" "dangles fs d m" "list_all component (m # ms)"
    then show ?thesis using mkdirAll_below [OF assms(1) p(3-5,2)] Inr extends_grown
      by (auto simp: createDirectoryLocal_def forWrite_def)
  qed (use Inr mkdirAll_exists in \<open>simp add: createDirectoryLocal_def forWrite_def\<close>)
qed (simp add: createDirectoryLocal_def forWrite_def)

lemma openWrite_grown:
  assumes "fs_wf fs" "settled True fs p" "prefix root p"
  shows "grown root fs (fst (osOpenWrite fs p trunc))"
  using grown_put [OF assms(3)] by (auto simp: openWrite_settled [OF assms(1,2)] split: option.splits node.splits)

lemma openWriterLocal_grown:
  assumes "fs_wf fs" "evalSymlinks fs (absPath (trimSpace rootDir)) = Inr root" "noLinks root fs"
    and "openWriterLocal fs rootDir path 0 = (fs', r)"
  shows "grown root fs fs' \<and> fs_wf fs'
    \<and> (\<forall>q sz. r = Inr (q, sz) \<longrightarrow> sz = 0 \<and> prefix root q \<and> mget fs' q = Some (File []) \<and> resolveLocalForWrite fs rootDir path = Inr (Some q))"
proof -
  note no = noLinks_opens [OF assms(1-3), of path]
  have wf: "fs_wf fs'" using openWriterLocal_confined [OF assms(1,2) no, of 0] assms(4) by (simp add: confined_def)
  show ?thesis
  proof (cases "resolveLocalForWrite fs rootDir path")
    case (Inl e)
    then show ?thesis using assms(1,4) by (auto simp: openWriterLocal_def forWrite_def)
  next
    case (Inr rr)
    obtain p where p: "rr = Some p" "prefix root p" "list_all component p"
      and mk: "osMkdirAll fs (dirPath p) = (fs, Inl EEXIST)
        \<or> (\<exists>fs1. osMkdirAll fs (dirPath p) = (fs1, Inr ()) \<and> confined root fs fs1 \<and> extends fs fs1
             \<and> mget fs1 (dirPath p) = Some Dir \<and> mget fs1 p = mget fs p)"
      using resolved_parent [OF assms(1) Inr] assms(2) by (metis Inr_inject)
    from mk show ?thesis
    proof (elim disjE exE conjE)
      fix fs1
      assume fs1: "osMkdirAll fs (dirPath p) = (fs1, Inr ())" "confined root fs fs1" "extends fs fs1"
        "mget fs1 (dirPath p) = Some Dir" "mget fs1 p = mget fs p"
      have wf1: "fs_wf fs1" using fs1(2) by (simp add: confined_def)
      have "\<forall>t. mget fs1 p \<noteq> Some (Link t)" using no Inr p(1) fs1(5) by (auto simp: opensLink_def split: option.splits)
      note s = settled_below [OF wf1 fs1(4) p(3) this]
      have "grown root fs (fst (osOpenWrite fs1 p True))"
        by (rule grown_trans [OF extends_grown [OF fs1(3,2)] openWrite_grown [OF wf1 s p(2)]])
      then show ?thesis using assms(4) Inr p fs1(1) wf
        by (auto simp: openWriterLocal_def forWrite_def afterMkdir_def openWrite_settled [OF wf1 s] split: option.splits node.splits)
    qed (use assms(1,4) Inr p(1) in \<open>auto simp: openWriterLocal_def forWrite_def afterMkdir_def\<close>)
  qed
qed

section \<open>Plans\<close>

record MoveProgress =
  mp_BytesTotal :: int
  mp_BytesDone :: int
  mp_FilesTotal :: int
  mp_FilesDone :: int

definition noProgress :: MoveProgress where
  "noProgress = \<lparr>mp_BytesTotal = 0, mp_BytesDone = 0, mp_FilesTotal = 0, mp_FilesDone = 0\<rparr>"

datatype MoveFailureStage = StageCopy | StageVerified

text \<open>How a move ends; an error that is not a \<open>MoveError\<close> has no stage of its own.\<close>

datatype moveOutcome = MoveDone | MoveFailed "MoveFailureStage option" error

record movePath =
  mv_from :: string
  mv_to :: string
  mv_size :: int

record movePlan =
  pl_dirs :: "movePath list"
  pl_files :: "movePath list"
  pl_bytesTotal :: int

definition validateSameSourceMove :: "string \<Rightarrow> string \<Rightarrow> bool \<Rightarrow> unit result" where
  "validateSameSourceMove from to isDirectory =
     (let sourcePath = cleanPath from; destinationPath = cleanPath to in
      if sourcePath = destinationPath then Inl (ErrMsg ''item is already at destination'')
      else if isDirectory \<and> destinationPath \<noteq> [] \<and> hasPrefix destinationPath (sourcePath @ [slash])
      then Inl (ErrMsg ''cannot move a directory inside itself'')
      else Inr ())"

text \<open>\<open>filepath.Clean\<close> and \<open>filepath.Join\<close> of any path; a relative path keeps the \<open>..\<close> it begins with.\<close>

fun cleanRelative :: "string list \<Rightarrow> string list \<Rightarrow> string list" where
  "cleanRelative acc [] = rev acc"
| "cleanRelative acc (w # ws) =
     (if w = [] \<or> w = ''.'' then cleanRelative acc ws
      else if w = ''..'' \<and> acc \<noteq> [] \<and> hd acc \<noteq> ''..'' then cleanRelative (tl acc) ws
      else cleanRelative (w # acc) ws)"

definition cleanAny :: "string \<Rightarrow> string" where
  "cleanAny s =
     (if hasPrefix s [slash] then pathString (absPath s)
      else (case cleanRelative [] (splitSlash s) of [] \<Rightarrow> ''.'' | ws \<Rightarrow> tl (rooted ws)))"

definition joinAny :: "string \<Rightarrow> string \<Rightarrow> string" where
  "joinAny a name = cleanAny (if a = [] then name else a @ [slash] @ name)"

text \<open>The check of the context: it may have been cancelled since the last one.\<close>

definition ctxCheck :: "'b agentWorld \<Rightarrow> 'b agentWorld \<times> unit result" where
  "ctxCheck w =
     (case aw_ctx w of
        None \<Rightarrow> (w, Inr ())
      | Some 0 \<Rightarrow> (w, Inl ErrCanceled)
      | Some (Suc n) \<Rightarrow> (w\<lparr>aw_ctx := Some n\<rparr>, Inr ()))"

definition bindA :: "'w \<times> 'a result \<Rightarrow> ('w \<Rightarrow> 'a \<Rightarrow> 'w \<times> 'c result) \<Rightarrow> 'w \<times> 'c result" where
  "bindA m k = (case m of (w, Inl e) \<Rightarrow> (w, Inl e) | (w, Inr a) \<Rightarrow> k w a)"

definition ErrFuel :: error where "ErrFuel = ErrMsg ''out of fuel''"

definition addDir :: "FileItem \<Rightarrow> string \<Rightarrow> movePlan \<Rightarrow> movePlan" where
  "addDir item childTo plan = plan\<lparr>pl_dirs := pl_dirs plan @ [\<lparr>mv_from = fi_Path item, mv_to = childTo, mv_size = 0\<rparr>]\<rparr>"

definition addFile :: "FileItem \<Rightarrow> string \<Rightarrow> movePlan \<Rightarrow> movePlan" where
  "addFile item childTo plan =
     plan\<lparr>pl_files := pl_files plan @ [\<lparr>mv_from = fi_Path item, mv_to = childTo, mv_size = fi_Size item\<rparr>],
          pl_bytesTotal := pl_bytesTotal plan + fi_Size item\<rparr>"

fun planItems ::
    "(string \<Rightarrow> string \<Rightarrow> movePlan \<Rightarrow> 'b agentWorld \<Rightarrow> 'b agentWorld \<times> movePlan result) \<Rightarrow> string \<Rightarrow> FileItem list \<Rightarrow> movePlan
      \<Rightarrow> 'b agentWorld \<Rightarrow> 'b agentWorld \<times> movePlan result" where
  "planItems planSub to [] plan w = (w, Inr plan)"
| "planItems planSub to (item # items) plan w =
     bindA (ctxCheck w) (\<lambda>w1 _.
       let childTo = joinAny to (fi_Name item) in
       if fi_IsDirectory item
       then bindA (planSub (fi_Path item) childTo (addDir item childTo plan) w1) (\<lambda>w2 plan2. planItems planSub to items plan2 w2)
       else planItems planSub to items (addFile item childTo plan) w1)"

fun planMoveDirectory ::
    "nat \<Rightarrow> agentEnv \<Rightarrow> 'b smbOps \<Rightarrow> string \<Rightarrow> string \<Rightarrow> string \<Rightarrow> movePlan \<Rightarrow> 'b agentWorld \<Rightarrow> 'b agentWorld \<times> movePlan result" where
  "planMoveDirectory 0 E smb sourceID from to plan w = (w, Inl ErrFuel)"
| "planMoveDirectory (Suc n) E smb sourceID from to plan w =
     (case ListSource E smb w sourceID from of
        Inl e \<Rightarrow> (w, Inl e)
      | Inr items \<Rightarrow> planItems (planMoveDirectory n E smb sourceID) to items plan w)"

definition planMove ::
    "nat \<Rightarrow> agentEnv \<Rightarrow> 'b smbOps \<Rightarrow> string \<Rightarrow> string \<Rightarrow> string \<Rightarrow> bool \<Rightarrow> 'b agentWorld \<Rightarrow> 'b agentWorld \<times> movePlan result" where
  "planMove fuel E smb sourceID from to isDirectory w =
     (let tree = planMoveDirectory fuel E smb sourceID from to
                   \<lparr>pl_dirs = [\<lparr>mv_from = from, mv_to = to, mv_size = 0\<rparr>], pl_files = [], pl_bytesTotal = 0\<rparr> w in
      if isDirectory then tree
      else
        case StatSource E smb w sourceID from of
          Inl e \<Rightarrow> (w, Inl e)
        | Inr item \<Rightarrow>
            if fi_IsDirectory item then tree
            else (w, Inr \<lparr>pl_dirs = [], pl_files = [\<lparr>mv_from = from, mv_to = to, mv_size = fi_Size item\<rparr>], pl_bytesTotal = fi_Size item\<rparr>))"

section \<open>Copying\<close>

definition moveChunkSize :: int where "moveChunkSize = 256 * 1024"

definition closeReader :: "'b smbOps \<Rightarrow> handle \<Rightarrow> 'b agentWorld \<Rightarrow> 'b agentWorld" where
  "closeReader smb h w = (case h of LocalHandle _ _ \<Rightarrow> w | SmbHandle k \<Rightarrow> fst (onSmb (\<lambda>b. sm_close smb b k) w))"

text \<open>The loop of \<open>copyMoveFile\<close>: the progress is kept when it fails.\<close>

fun copyChunks ::
    "nat \<Rightarrow> 'b smbOps \<Rightarrow> handle \<Rightarrow> writeHandle \<Rightarrow> MoveProgress \<Rightarrow> 'b agentWorld \<Rightarrow> 'b agentWorld \<times> MoveProgress \<times> writeHandle result" where
  "copyChunks 0 smb reader writer progress w = (w, progress, Inl ErrFuel)"
| "copyChunks (Suc n) smb reader writer progress w =
     (case ctxCheck w of
        (w1, Inl e) \<Rightarrow> (w1, progress, Inl e)
      | (w1, Inr _) \<Rightarrow>
          (case readHandle smb moveChunkSize reader w1 of
             (w2, Inl e) \<Rightarrow> (w2, progress, Inl e)
           | (w2, Inr (reader', data, eof)) \<Rightarrow>
               if data = [] then (if eof then (w2, progress, Inr writer) else copyChunks n smb reader' writer progress w2)
               else
                 (case maxWrite smb writer data w2 of
                    (w3, Inl e) \<Rightarrow> (w3, progress, Inl e)
                  | (w3, Inr (writer', written)) \<Rightarrow>
                      if written \<noteq> length data then (w3, progress, Inl (ErrMsg ''short write''))
                      else
                        let progress' = progress\<lparr>mp_BytesDone := mp_BytesDone progress + int written\<rparr> in
                        if eof then (w3, progress', Inr writer') else copyChunks n smb reader' writer' progress' w3)))"

definition copyMoveFile ::
    "nat \<Rightarrow> agentEnv \<Rightarrow> 'b smbOps \<Rightarrow> string \<Rightarrow> string \<Rightarrow> movePath \<Rightarrow> MoveProgress \<Rightarrow> 'b agentWorld \<Rightarrow> 'b agentWorld \<times> MoveProgress \<times> unit result" where
  "copyMoveFile fuel E smb sourceID destinationSourceID f progress w =
     (case OpenReaderSource E smb sourceID (mv_from f) 0 w of
        (w1, Inl e) \<Rightarrow> (w1, progress, Inl e)
      | (w1, Inr (reader, _)) \<Rightarrow>
          (case OpenWriterSource E smb destinationSourceID (mv_to f) 0 w1 of
             (w2, Inl e) \<Rightarrow> (closeReader smb reader w2, progress, Inl e)
           | (w2, Inr (writer, _)) \<Rightarrow>
               (case copyChunks fuel smb reader writer progress w2 of
                  (w3, progress', Inl e) \<Rightarrow> (closeReader smb reader (fst (closeWriter smb writer w3)), progress', Inl e)
                | (w3, progress', Inr writer') \<Rightarrow>
                    (case closeWriter smb writer' w3 of
                       (w4, Inl e) \<Rightarrow> (closeReader smb reader (fst (closeWriter smb writer' w4)), progress', Inl e)
                     | (w4, Inr _) \<Rightarrow> (closeReader smb reader w4, progress', Inr ())))))"

fun copyDirs :: "agentEnv \<Rightarrow> 'b smbOps \<Rightarrow> string \<Rightarrow> movePath list \<Rightarrow> 'b agentWorld \<Rightarrow> 'b agentWorld \<times> unit result" where
  "copyDirs E smb destinationSourceID [] w = (w, Inr ())"
| "copyDirs E smb destinationSourceID (d # ds) w =
     bindA (CreateDirectorySource E smb destinationSourceID (mv_to d) w) (\<lambda>w1 _. copyDirs E smb destinationSourceID ds w1)"

fun copyFiles ::
    "nat \<Rightarrow> agentEnv \<Rightarrow> 'b smbOps \<Rightarrow> string \<Rightarrow> string \<Rightarrow> movePath list \<Rightarrow> MoveProgress \<Rightarrow> 'b agentWorld \<Rightarrow> 'b agentWorld \<times> MoveProgress \<times> unit result" where
  "copyFiles fuel E smb sourceID destinationSourceID [] progress w = (w, progress, Inr ())"
| "copyFiles fuel E smb sourceID destinationSourceID (f # fs) progress w =
     (case copyMoveFile fuel E smb sourceID destinationSourceID f progress w of
        (w1, progress1, Inl e) \<Rightarrow> (w1, progress1, Inl e)
      | (w1, progress1, Inr _) \<Rightarrow>
          copyFiles fuel E smb sourceID destinationSourceID fs (progress1\<lparr>mp_FilesDone := mp_FilesDone progress1 + 1\<rparr>) w1)"

definition copyMovePlan ::
    "nat \<Rightarrow> agentEnv \<Rightarrow> 'b smbOps \<Rightarrow> string \<Rightarrow> string \<Rightarrow> movePlan \<Rightarrow> MoveProgress \<Rightarrow> 'b agentWorld \<Rightarrow> 'b agentWorld \<times> MoveProgress \<times> unit result" where
  "copyMovePlan fuel E smb sourceID destinationSourceID plan progress w =
     (case copyDirs E smb destinationSourceID (pl_dirs plan) w of
        (w1, Inl e) \<Rightarrow> (w1, progress, Inl e)
      | (w1, Inr _) \<Rightarrow> copyFiles fuel E smb sourceID destinationSourceID (pl_files plan) progress w1)"

section \<open>Verifying\<close>

text \<open>What \<open>io.Copy\<close> feeds to the hash.\<close>

fun readAll :: "nat \<Rightarrow> 'b smbOps \<Rightarrow> handle \<Rightarrow> 'b agentWorld \<Rightarrow> 'b agentWorld \<times> bytes result" where
  "readAll 0 smb h w = (w, Inl ErrFuel)"
| "readAll (Suc n) smb h w =
     bindA (readHandle smb (32 * 1024) h w) (\<lambda>w1 (h', data, eof).
       if eof then (w1, Inr data) else bindA (readAll n smb h' w1) (\<lambda>w2 rest. (w2, Inr (data @ rest))))"

definition fileHash ::
    "nat \<Rightarrow> (bytes \<Rightarrow> string) \<Rightarrow> agentEnv \<Rightarrow> 'b smbOps \<Rightarrow> string \<Rightarrow> string \<Rightarrow> 'b agentWorld \<Rightarrow> 'b agentWorld \<times> string result" where
  "fileHash fuel sha256 E smb sourceID filePath w =
     bindA (OpenReaderSource E smb sourceID filePath 0 w) (\<lambda>w1 (reader, _).
       case readAll fuel smb reader w1 of
         (w2, Inl e) \<Rightarrow> (closeReader smb reader w2, Inl e)
       | (w2, Inr data) \<Rightarrow> (closeReader smb reader w2, Inr (sha256 data)))"

definition verifyCopiedFile ::
    "nat \<Rightarrow> (bytes \<Rightarrow> string) \<Rightarrow> agentEnv \<Rightarrow> 'b smbOps \<Rightarrow> string \<Rightarrow> string \<Rightarrow> string \<Rightarrow> string \<Rightarrow> 'b agentWorld \<Rightarrow> 'b agentWorld \<times> unit result" where
  "verifyCopiedFile fuel sha256 E smb sourceID destinationSourceID from to w =
     (case (StatSource E smb w sourceID from, StatSource E smb w destinationSourceID to) of
        (Inl e, _) \<Rightarrow> (w, Inl e)
      | (_, Inl e) \<Rightarrow> (w, Inl e)
      | (Inr sourceInfo, Inr destinationInfo) \<Rightarrow>
          if fi_IsDirectory sourceInfo \<or> fi_IsDirectory destinationInfo then (w, Inl (ErrMsg ''copy verification expected files''))
          else if fi_Size sourceInfo \<noteq> fi_Size destinationInfo then (w, Inl (ErrMsg ''copy verification failed: size mismatch''))
          else
            bindA (fileHash fuel sha256 E smb sourceID from w) (\<lambda>w1 sourceHash.
            bindA (fileHash fuel sha256 E smb destinationSourceID to w1) (\<lambda>w2 destinationHash.
            if sourceHash \<noteq> destinationHash then (w2, Inl (ErrMsg ''copy verification failed: checksum mismatch'')) else (w2, Inr ()))))"

fun verifyMovePlan ::
    "nat \<Rightarrow> (bytes \<Rightarrow> string) \<Rightarrow> agentEnv \<Rightarrow> 'b smbOps \<Rightarrow> string \<Rightarrow> string \<Rightarrow> movePath list \<Rightarrow> 'b agentWorld \<Rightarrow> 'b agentWorld \<times> unit result" where
  "verifyMovePlan fuel sha256 E smb sourceID destinationSourceID [] w = (w, Inr ())"
| "verifyMovePlan fuel sha256 E smb sourceID destinationSourceID (f # fs) w =
     bindA (ctxCheck w) (\<lambda>w1 _.
     bindA (verifyCopiedFile fuel sha256 E smb sourceID destinationSourceID (mv_from f) (mv_to f) w1) (\<lambda>w2 _.
     verifyMovePlan fuel sha256 E smb sourceID destinationSourceID fs w2))"

section \<open>The move\<close>

text \<open>Within a source it is a rename; the progress then counts one file and, if it is one, its size.\<close>

definition renameMove ::
    "agentEnv \<Rightarrow> 'b smbOps \<Rightarrow> string \<Rightarrow> string \<Rightarrow> string \<Rightarrow> bool \<Rightarrow> 'b agentWorld \<Rightarrow> 'b agentWorld \<times> MoveProgress \<times> moveOutcome" where
  "renameMove E smb sourceID from to isDirectory w =
     (case validateSameSourceMove from to isDirectory of
        Inl e \<Rightarrow> (w, noProgress, MoveFailed None e)
      | Inr _ \<Rightarrow>
          (case RenameSource E smb sourceID from to w of
             (w1, Inl e) \<Rightarrow> (w1, noProgress, MoveFailed None e)
           | (w1, Inr _) \<Rightarrow>
               let moved = (case StatSource E smb w1 sourceID to of Inr item \<Rightarrow> if fi_IsDirectory item then 0 else fi_Size item | Inl _ \<Rightarrow> 0) in
               (w1, \<lparr>mp_BytesTotal = moved, mp_BytesDone = moved, mp_FilesTotal = 1, mp_FilesDone = 1\<rparr>, MoveDone)))"

definition transferMove ::
    "nat \<Rightarrow> (bytes \<Rightarrow> string) \<Rightarrow> agentEnv \<Rightarrow> 'b smbOps \<Rightarrow> string \<Rightarrow> string \<Rightarrow> string \<Rightarrow> string \<Rightarrow> bool \<Rightarrow> 'b agentWorld
      \<Rightarrow> 'b agentWorld \<times> MoveProgress \<times> moveOutcome" where
  "transferMove fuel sha256 E smb sourceID destinationID from to isDirectory w =
     (case planMove fuel E smb sourceID from to isDirectory w of
        (w1, Inl e) \<Rightarrow> (w1, noProgress, MoveFailed None e)
      | (w1, Inr plan) \<Rightarrow>
          (case copyMovePlan fuel E smb sourceID destinationID plan
                  (noProgress\<lparr>mp_BytesTotal := pl_bytesTotal plan, mp_FilesTotal := int (length (pl_files plan))\<rparr>) w1 of
             (w2, progress, Inl e) \<Rightarrow> (w2, progress, MoveFailed (Some StageCopy) e)
           | (w2, progress, Inr _) \<Rightarrow>
               (case verifyMovePlan fuel sha256 E smb sourceID destinationID (pl_files plan) w2 of
                  (w3, Inl e) \<Rightarrow> (w3, progress, MoveFailed (Some StageCopy) e)
                | (w3, Inr _) \<Rightarrow>
                    (case ctxCheck w3 of
                       (w4, Inl e) \<Rightarrow> (w4, progress, MoveFailed (Some StageVerified) e)
                     | (w4, Inr _) \<Rightarrow>
                         (case DeleteSource E smb sourceID from isDirectory w4 of
                            (w5, Inl e) \<Rightarrow> (w5, progress, MoveFailed (Some StageVerified) e)
                          | (w5, Inr _) \<Rightarrow> (w5, progress, MoveDone))))))"

definition MoveBetweenSourcesWithProgress ::
    "nat \<Rightarrow> (bytes \<Rightarrow> string) \<Rightarrow> agentEnv \<Rightarrow> 'b smbOps \<Rightarrow> string \<Rightarrow> string \<Rightarrow> string \<Rightarrow> string \<Rightarrow> bool \<Rightarrow> 'b agentWorld
      \<Rightarrow> 'b agentWorld \<times> MoveProgress \<times> moveOutcome" where
  "MoveBetweenSourcesWithProgress fuel sha256 E smb sourceID destinationSourceID from to isDirectory w =
     (case (sourceForID (ae_lower E) (aw_service w) sourceID, sourceForID (ae_lower E) (aw_service w) destinationSourceID) of
        (Inl e, _) \<Rightarrow> (w, noProgress, MoveFailed None e)
      | (_, Inl e) \<Rightarrow> (w, noProgress, MoveFailed None e)
      | (Inr source, Inr destination) \<Rightarrow>
          (case bindR (sourceAllow (fs_Policy source) ''delete'' from 0) (\<lambda>_. sourceAllow (fs_Policy destination) ''write'' to 0) of
             Inl e \<Rightarrow> (w, noProgress, MoveFailed None e)
           | Inr _ \<Rightarrow>
               if fs_ID source = fs_ID destination \<and> fs_SMB source = fs_SMB destination
               then renameMove E smb (fs_ID source) from to isDirectory w
               else transferMove fuel sha256 E smb (fs_ID source) (fs_ID destination) from to isDirectory w))"

text \<open>The status of a failed move; \<open>rollback_required\<close> lets the destination be removed later.\<close>

definition MoveErrorStage :: "moveOutcome \<Rightarrow> MoveFailureStage" where
  "MoveErrorStage out = (case out of MoveFailed (Some stage) _ \<Rightarrow> stage | _ \<Rightarrow> StageCopy)"

definition MoveStatusForError :: "moveOutcome \<Rightarrow> string" where
  "MoveStatusForError out =
     (case out of
        MoveDone \<Rightarrow> ''failed''
      | MoveFailed _ e \<Rightarrow>
          if e = ErrCanceled then (if MoveErrorStage out = StageVerified then ''rollback_required'' else ''cancelled'')
          else if MoveErrorStage out = StageVerified then ''rollback_required'' else ''failed'')"

definition MoveErrorMessage :: "moveOutcome \<Rightarrow> (error \<Rightarrow> string) \<Rightarrow> string" where
  "MoveErrorMessage out text =
     (case out of MoveDone \<Rightarrow> [] | MoveFailed _ e \<Rightarrow> if e = ErrCanceled then ''move cancelled'' else text e)"

section \<open>Overlapping sources\<close>

text \<open>
  Two sources may be folders one inside the other. A file moved from its path in one to its path in the other is the same
  file: opening the destination empties it, the copy of nothing matches it, and it is deleted as the original. The move
  reports success.
\<close>

definition overlappingWorld :: "unit agentWorld" where
  "overlappingWorld = sampleAgentWorld [sampleFolder ''all'' ''/srv'' openPolicy, sampleFolder ''docs'' ''/srv/docs'' openPolicy]"

theorem overlapping_move_loses_file:
  "mget (aw_fs overlappingWorld) [''srv'', ''docs'', ''a''] = Some (File [7, 8, 9])
   \<and> (case MoveBetweenSourcesWithProgress 5 string_of sampleAgentEnv noShares ''all'' ''docs'' ''docs/a'' ''a'' False overlappingWorld of
        (w, _, out) \<Rightarrow> out = MoveDone \<and> list_all (\<lambda>(p, n). n \<noteq> File [7, 8, 9]) (aw_fs w))"
  by code_simp

section \<open>Copies touch only the destination\<close>

definition sameSources :: "'b agentWorld \<Rightarrow> 'b agentWorld \<Rightarrow> bool" where
  "sameSources w w' \<longleftrightarrow> fv_localSources (aw_service w') = fv_localSources (aw_service w) \<and> fv_smbShares (aw_service w') = fv_smbShares (aw_service w)"

definition progressed :: "path \<Rightarrow> 'b agentWorld \<Rightarrow> 'b agentWorld \<Rightarrow> bool" where
  "progressed root w w' \<longleftrightarrow> sameSources w w' \<and> fs_wf (aw_fs w') \<and> grown root (aw_fs w) (aw_fs w')"

text \<open>A source that is a host folder with the real path \<open>root\<close>, and one without links in it.\<close>

definition hostFolder :: "agentEnv \<Rightarrow> 'b agentWorld \<Rightarrow> string \<Rightarrow> fileSourceSelection \<Rightarrow> path \<Rightarrow> bool" where
  "hostFolder E w sourceID source root \<longleftrightarrow>
     sourceForID (ae_lower E) (aw_service w) sourceID = Inr source \<and> \<not> fs_SMB source
     \<and> evalSymlinks (aw_fs w) (absPath (trimSpace (fs_Root source))) = Inr root \<and> fs_wf (aw_fs w)"

lemma sourceForID_same: "sameSources w w' \<Longrightarrow> sourceForID lower (aw_service w') ident = sourceForID lower (aw_service w) ident"
proof -
  assume "sameSources w w'"
  then have eq: "fv_localSources (aw_service w') = fv_localSources (aw_service w)" "fv_smbShares (aw_service w') = fv_smbShares (aw_service w)"
    by (simp_all add: sameSources_def)
  show ?thesis unfolding sourceForID_def defaultSource_def eq ..
qed

lemma progressed_refl: "fs_wf (aw_fs w) \<Longrightarrow> progressed root w w"
  by (simp add: progressed_def sameSources_def)

lemma progressed_trans: "progressed root w w1 \<Longrightarrow> progressed root w1 w2 \<Longrightarrow> progressed root w w2"
  by (auto simp: progressed_def sameSources_def intro: grown_trans)

lemma progressed_same:
  "fs_wf (aw_fs w) \<Longrightarrow> aw_fs w' = aw_fs w \<Longrightarrow> sameSources w w' \<Longrightarrow> progressed root w w'"
  by (simp add: progressed_def)

lemma hostFolder_progressed: "hostFolder E w ident source root \<Longrightarrow> progressed dest w w' \<Longrightarrow> hostFolder E w' ident source root"
  unfolding hostFolder_def progressed_def by (metis sourceForID_same grown_eval)

lemma noLinks_progressed: "noLinks root (aw_fs w) \<Longrightarrow> progressed root w w' \<Longrightarrow> noLinks root (aw_fs w')"
  unfolding progressed_def by (blast intro: grown_noLinks)

lemma ctxCheck_same: "ctxCheck w = (w', r) \<Longrightarrow> aw_fs w' = aw_fs w \<and> aw_service w' = aw_service w"
  by (auto simp: ctxCheck_def split: option.splits nat.splits)

lemma ctxCheck_progressed: "fs_wf (aw_fs w) \<Longrightarrow> ctxCheck w = (w', r) \<Longrightarrow> progressed root w w'"
  using ctxCheck_same [of w w' r] by (simp add: progressed_def sameSources_def)

lemma invalidate_facts [simp]: "aw_fs (invalidate ident w) = aw_fs w" "sameSources w (invalidate ident w')  \<longleftrightarrow> sameSources w w'"
  by (simp_all add: invalidate_def invalidateSearchIndex_def sameSources_def)

lemma createDirectory_progressed:
  assumes "hostFolder E w ident source root"
  shows "progressed root w (fst (CreateDirectorySource E smb ident path w))"
proof -
  have h: "\<not> fs_SMB source" "evalSymlinks (aw_fs w) (absPath (trimSpace (fs_Root source))) = Inr root" "fs_wf (aw_fs w)"
    "sourceForID (ae_lower E) (aw_service w) ident = Inr source" using assms by (simp_all add: hostFolder_def)
  have "aw_fs (fst (CreateDirectorySource E smb ident path w)) \<in> {aw_fs w, fst (createDirectoryLocal (aw_fs w) (fs_Root source) path)}"
    using h by (auto simp: CreateDirectorySource_def changeSource_fs authorised_def bindR_def split: sum.splits)
  moreover have "fs_wf (fst (createDirectoryLocal (aw_fs w) (fs_Root source) path))"
    using createDirectory_confined [OF h(3,2)] by (simp add: confined_def)
  moreover have "sameSources w (fst (CreateDirectorySource E smb ident path w))"
    by (auto simp: CreateDirectorySource_def changeSource_def onFs_def onSmb_def sameSources_def invalidate_def invalidateSearchIndex_def
        split: sum.splits prod.splits)
  ultimately show ?thesis using createDirectory_grown [OF h(3,2)] h(3) by (auto simp: progressed_def)
qed

lemma openWriter_progressed:
  assumes "hostFolder E w ident source root" "noLinks root (aw_fs w)" "OpenWriterSource E smb ident path 0 w = (w', r)"
  shows "progressed root w w' \<and> (\<forall>h sz. r = Inr (h, sz) \<longrightarrow> (\<exists>q. wh_inner h = LocalHandle q 0 \<and> prefix root q))"
proof -
  have h: "\<not> fs_SMB source" "evalSymlinks (aw_fs w) (absPath (trimSpace (fs_Root source))) = Inr root" "fs_wf (aw_fs w)"
    "sourceForID (ae_lower E) (aw_service w) ident = Inr source" using assms(1) by (simp_all add: hostFolder_def)
  obtain fs' r' where o: "openWriterLocal (aw_fs w) (fs_Root source) path 0 = (fs', r')"
    by (cases "openWriterLocal (aw_fs w) (fs_Root source) path 0")
  note g = openWriterLocal_grown [OF h(3,2) assms(2) o]
  show ?thesis
  proof (cases "allowChecks (fs_Policy source) [(''write'', path, 0)]")
    case (Inl e)
    then show ?thesis using assms(3) h progressed_refl by (auto simp: OpenWriterSource_def authorised_def)
  next
    case (Inr u)
    then have "authorised E w ident [(''write'', path, 0)] = Inr source" using h by (simp add: authorised_def)
    then show ?thesis using assms(3) g o h
      by (auto simp: OpenWriterSource_def onFs_def limitWriteHandle_def progressed_def sameSources_def Let_def split: sum.splits)
  qed
qed

lemma innerWrite_progressed:
  assumes "fs_wf (aw_fs w)" "prefix root q" "innerWrite smb (LocalHandle q pos) data w = (w', r)"
  shows "progressed root w w' \<and> (\<forall>h n. r = Inr (h, n) \<longrightarrow> (\<exists>pos'. h = LocalHandle q pos'))"
proof (cases "\<exists>old. mget (aw_fs w) q = Some (File old)")
  case True
  then obtain old where old: "mget (aw_fs w) q = Some (File old)" by blast
  have "q \<noteq> []" using old assms(1) by auto
  then have "fs_wf (mput q (File d) (aw_fs w))" for d
    using fs_wf_entry [OF assms(1) old] assms(1) old by (intro fs_wf_mput) auto
  then show ?thesis using assms(2,3) old grown_put [OF assms(2)] by (auto simp: innerWrite_def progressed_def sameSources_def)
next
  case False
  then show ?thesis using assms progressed_refl by (auto simp: innerWrite_def split: option.splits node.splits)
qed

lemma maxWrite_progressed:
  assumes "fs_wf (aw_fs w)" "prefix root q" "wh_inner h = LocalHandle q pos" "maxWrite smb h data w = (w', r)"
  shows "progressed root w w' \<and> (\<forall>h' n. r = Inr (h', n) \<longrightarrow> (\<exists>pos'. wh_inner h' = LocalHandle q pos'))"
proof -
  obtain w1 r1 where i: "innerWrite smb (LocalHandle q pos) data w = (w1, r1)" by (cases "innerWrite smb (LocalHandle q pos) data w")
  from innerWrite_progressed [OF assms(1,2) i] show ?thesis
    using assms(3,4) i progressed_refl [OF assms(1)] by (auto simp: maxWrite_def split: option.splits if_splits sum.splits)
qed

lemma closeWriter_progressed:
  "fs_wf (aw_fs w) \<Longrightarrow> wh_inner h = LocalHandle q pos \<Longrightarrow> closeWriter smb h w = (w', r) \<Longrightarrow> progressed root w w' \<and> r = Inr ()"
  by (auto simp: closeWriter_def progressed_def sameSources_def invalidate_def invalidateSearchIndex_def)

lemma openReader_local:
  assumes "hostFolder E w ident source root" "OpenReaderSource E smb ident path offset w = (w', r)"
  shows "w' = w \<and> (\<forall>h sz. r = Inr (h, sz) \<longrightarrow> (\<exists>q. h = LocalHandle q (nat offset) \<and> openReaderLocal (aw_fs w) (fs_Root source) path offset = Inr (q, sz)))"
  using assms by (auto simp: OpenReaderSource_def hostFolder_def authorised_def bindR_def split: sum.splits prod.splits)

lemma readHandle_local: "readHandle smb n (LocalHandle q pos) w = (w', r) \<Longrightarrow> w' = w \<and> (\<exists>data pos'. r = Inr (LocalHandle q pos', data, data = []))"
  by (auto simp: readHandle_def Let_def)

lemma copyChunks_progressed:
  assumes "fs_wf (aw_fs w)" "prefix root q" "wh_inner writer = LocalHandle q pos"
    and "copyChunks n smb (LocalHandle p rpos) writer progress w = (w', progress', r)"
  shows "progressed root w w' \<and> (\<forall>h. r = Inr h \<longrightarrow> (\<exists>pos'. wh_inner h = LocalHandle q pos'))"
  using assms
proof (induction n arbitrary: w writer pos rpos progress)
  case 0
  then show ?case by (auto simp: progressed_refl)
next
  case (Suc n)
  obtain w1 r1 where c: "ctxCheck w = (w1, r1)" by (cases "ctxCheck w")
  note p1 = ctxCheck_progressed [OF Suc.prems(1) c, of root]
  then have wf1: "fs_wf (aw_fs w1)" by (simp add: progressed_def)
  obtain data rpos' where rd: "readHandle smb moveChunkSize (LocalHandle p rpos) w1 = (w1, Inr (LocalHandle p rpos', data, data = []))"
    by (simp add: readHandle_def Let_def)
  show ?case
  proof (cases "r1 = Inr () \<and> data \<noteq> []")
    case False
    then show ?thesis using Suc.prems(3,4) c rd p1 by (cases r1) auto
  next
    case True
    obtain w3 r3 where m: "maxWrite smb writer data w1 = (w3, r3)" by (cases "maxWrite smb writer data w1")
    note p3 = maxWrite_progressed [OF wf1 Suc.prems(2,3) m]
    then have wf3: "fs_wf (aw_fs w3)" by (simp add: progressed_def)
    show ?thesis
    proof (cases r3)
      case (Inl e)
      then show ?thesis using Suc.prems(4) c rd True m p3 progressed_trans [OF p1] by auto
    next
      case (Inr hn)
      obtain writer' written where hn: "hn = (writer', written)" by (cases hn)
      obtain pos' where pos': "wh_inner writer' = LocalHandle q pos'" using p3 Inr hn by auto
      let ?progress = "progress\<lparr>mp_BytesDone := mp_BytesDone progress + int written\<rparr>"
      have p13: "progressed root w w3" using progressed_trans [OF p1] p3 by blast
      show ?thesis
      proof (cases "written = length data")
        case False
        then show ?thesis using Suc.prems(4) c rd True m Inr hn p13 by auto
      next
        case written: True
        have "copyChunks n smb (LocalHandle p rpos') writer' ?progress w3 = (w', progress', r)"
          using Suc.prems(4) c rd True m Inr hn written by (simp add: Let_def)
        from Suc.IH [OF wf3 Suc.prems(2) pos' this] show ?thesis using progressed_trans [OF p13] by blast
      qed
    qed
  qed
qed

lemma copyMoveFile_progressed:
  assumes "hostFolder E w sid source rs" "hostFolder E w did dest rd" "noLinks rd (aw_fs w)"
    and "copyMoveFile fuel E smb sid did f progress w = (w', progress', r)"
  shows "progressed rd w w'"
proof -
  have wf: "fs_wf (aw_fs w)" using assms(1) by (simp add: hostFolder_def)
  obtain w1 r1 where o1: "OpenReaderSource E smb sid (mv_from f) 0 w = (w1, r1)" by (cases "OpenReaderSource E smb sid (mv_from f) 0 w")
  note l1 = openReader_local [OF assms(1) o1]
  obtain w2 r2 where o2: "OpenWriterSource E smb did (mv_to f) 0 w = (w2, r2)" by (cases "OpenWriterSource E smb did (mv_to f) 0 w")
  note l2 = openWriter_progressed [OF assms(2,3) o2]
  then have wf2: "fs_wf (aw_fs w2)" by (simp add: progressed_def)
  show ?thesis
  proof (cases r1)
    case (Inl e)
    then show ?thesis using assms(4) o1 l1 progressed_refl [OF wf] by (simp add: copyMoveFile_def)
  next
    case (Inr hs)
    obtain q sz where hs: "hs = (LocalHandle q 0, sz)" using l1 Inr by (cases hs) auto
    show ?thesis
    proof (cases r2)
      case (Inl e)
      then show ?thesis using assms(4) o1 l1 o2 l2 Inr hs by (auto simp: copyMoveFile_def closeReader_def)
    next
      case r2: (Inr ws)
      obtain writer wsz where ws: "ws = (writer, wsz)" by (cases ws)
      obtain p where p: "wh_inner writer = LocalHandle p 0" "prefix rd p" using l2 r2 ws by auto
      obtain w3 pr3 r3 where c: "copyChunks fuel smb (LocalHandle q 0) writer progress w2 = (w3, pr3, r3)"
        by (cases "copyChunks fuel smb (LocalHandle q 0) writer progress w2")
      note l3 = copyChunks_progressed [OF wf2 p(2,1) c]
      then have wf3: "fs_wf (aw_fs w3)" by (simp add: progressed_def)
      have p23: "progressed rd w w3" using l2 l3 progressed_trans by blast
      show ?thesis
      proof (cases r3)
        case (Inl e)
        have "w' = fst (closeWriter smb writer w3)"
          using assms(4) o1 l1 Inr hs o2 r2 ws c Inl by (auto simp: copyMoveFile_def closeReader_def split: handle.splits)
        moreover have "progressed rd w3 (fst (closeWriter smb writer w3))"
          using closeWriter_progressed [OF wf3 p(1)] by (metis prod.collapse)
        ultimately show ?thesis using progressed_trans [OF p23] by simp
      next
        case r3: (Inr writer')
        then obtain pos' where pos': "wh_inner writer' = LocalHandle p pos'" using l3 by auto
        obtain w4 r4 where cl: "closeWriter smb writer' w3 = (w4, r4)" by (cases "closeWriter smb writer' w3")
        note l4 = closeWriter_progressed [OF wf3 pos' cl, of rd]
        have "w' = w4" using assms(4) o1 l1 Inr hs o2 r2 ws c r3 cl l4 by (simp add: copyMoveFile_def closeReader_def)
        then show ?thesis using l4 progressed_trans [OF p23] by simp
      qed
    qed
  qed
qed

lemma copyDirs_progressed:
  "hostFolder E w did dest rd \<Longrightarrow> copyDirs E smb did ds w = (w', r) \<Longrightarrow> progressed rd w w'"
proof (induction ds arbitrary: w)
  case Nil
  then show ?case using progressed_refl by (auto simp: hostFolder_def)
next
  case (Cons d ds)
  obtain w1 r1 where m: "CreateDirectorySource E smb did (mv_to d) w = (w1, r1)" by (cases "CreateDirectorySource E smb did (mv_to d) w")
  have p1: "progressed rd w w1" using createDirectory_progressed [OF Cons.prems(1), of smb "mv_to d"] m by simp
  show ?case
  proof (cases r1)
    case (Inl e)
    then show ?thesis using Cons.prems(2) m p1 by (simp add: bindA_def)
  next
    case (Inr u)
    then have "copyDirs E smb did ds w1 = (w', r)" using Cons.prems(2) m by (simp add: bindA_def)
    from Cons.IH [OF hostFolder_progressed [OF Cons.prems(1) p1] this] show ?thesis by (rule progressed_trans [OF p1])
  qed
qed

lemma copyFiles_progressed:
  "hostFolder E w sid source rs \<Longrightarrow> hostFolder E w did dest rd \<Longrightarrow> noLinks rd (aw_fs w)
   \<Longrightarrow> copyFiles fuel E smb sid did fls progress w = (w', progress', r) \<Longrightarrow> progressed rd w w'"
proof (induction fls arbitrary: w progress)
  case Nil
  then show ?case using progressed_refl by (auto simp: hostFolder_def)
next
  case (Cons f fls)
  obtain w1 pr1 r1 where m: "copyMoveFile fuel E smb sid did f progress w = (w1, pr1, r1)" by (cases "copyMoveFile fuel E smb sid did f progress w")
  note p1 = copyMoveFile_progressed [OF Cons.prems(1-3) m]
  show ?case
  proof (cases r1)
    case (Inl e)
    then show ?thesis using Cons.prems(4) m p1 by simp
  next
    case (Inr u)
    then have "copyFiles fuel E smb sid did fls (pr1\<lparr>mp_FilesDone := mp_FilesDone pr1 + 1\<rparr>) w1 = (w', progress', r)"
      using Cons.prems(4) m by simp
    from Cons.IH [OF hostFolder_progressed [OF Cons.prems(1) p1] hostFolder_progressed [OF Cons.prems(2) p1] noLinks_progressed [OF Cons.prems(3) p1] this]
    show ?thesis by (rule progressed_trans [OF p1])
  qed
qed

lemma copyMovePlan_progressed:
  assumes "hostFolder E w sid source rs" "hostFolder E w did dest rd" "noLinks rd (aw_fs w)"
    and "copyMovePlan fuel E smb sid did plan progress w = (w', progress', r)"
  shows "progressed rd w w'"
proof -
  obtain w1 r1 where m: "copyDirs E smb did (pl_dirs plan) w = (w1, r1)" by (cases "copyDirs E smb did (pl_dirs plan) w")
  note p1 = copyDirs_progressed [OF assms(2) m]
  show ?thesis
  proof (cases r1)
    case (Inl e)
    then show ?thesis using assms(4) m p1 by (simp add: copyMovePlan_def)
  next
    case (Inr u)
    then have "copyFiles fuel E smb sid did (pl_files plan) progress w1 = (w', progress', r)" using assms(4) m by (simp add: copyMovePlan_def)
    from copyFiles_progressed [OF hostFolder_progressed [OF assms(1) p1] hostFolder_progressed [OF assms(2) p1] noLinks_progressed [OF assms(3) p1] this]
    show ?thesis by (rule progressed_trans [OF p1])
  qed
qed

section \<open>What the verification establishes\<close>

definition unchanged :: "'b agentWorld \<Rightarrow> 'b agentWorld \<Rightarrow> bool" where
  "unchanged w w' \<longleftrightarrow> aw_fs w' = aw_fs w \<and> aw_service w' = aw_service w"

lemma unchanged_refl [simp]: "unchanged w w"
  by (simp add: unchanged_def)

lemma unchanged_trans: "unchanged w w1 \<Longrightarrow> unchanged w1 w2 \<Longrightarrow> unchanged w w2"
  by (simp add: unchanged_def)

lemma hostFolder_unchanged: "hostFolder E w ident source root \<Longrightarrow> unchanged w w' \<Longrightarrow> hostFolder E w' ident source root"
  by (simp add: hostFolder_def unchanged_def)

lemma take_drop_length: "take k xs @ drop (length (take k xs)) xs = xs"
  by (cases "k \<le> length xs") auto

lemma readAll_local: "readAll n smb (LocalHandle q pos) w = (w', r) \<Longrightarrow> w' = w \<and> (\<forall>data. r = Inr data \<longrightarrow> data = drop pos (fileBytes (aw_fs w) q))"
proof (induction n arbitrary: pos r w')
  case (Suc n)
  let ?c = "drop pos (fileBytes (aw_fs w) q)"
  let ?data = "upTo (32 * 1024) ?c"
  have rd: "readHandle smb (32 * 1024) (LocalHandle q pos) w = (w, Inr (LocalHandle q (pos + length ?data), ?data, ?data = []))"
    by (simp add: readHandle_def Let_def)
  show ?case
  proof (cases "?data = []")
    case True
    then have "?c = []" by (cases ?c) auto
    then show ?thesis using Suc.prems rd True by (auto simp: bindA_def)
  next
    case False
    obtain w2 r2 where m: "readAll n smb (LocalHandle q (pos + length ?data)) w = (w2, r2)" by (cases "readAll n smb (LocalHandle q (pos + length ?data)) w")
    have "?data @ drop (length ?data) ?c = ?c" unfolding upTo_take by (rule take_drop_length)
    moreover have "drop (pos + length ?data) (fileBytes (aw_fs w) q) = drop (length ?data) ?c" by (simp add: add.commute)
    ultimately show ?thesis using Suc.IH [OF m] Suc.prems rd False m by (auto simp: bindA_def split: sum.splits)
  qed
qed auto

lemma fileHash_local:
  assumes "hostFolder E w ident source root" "fileHash fuel sha256 E smb ident path w = (w', r)"
  shows "w' = w \<and> (\<forall>h. r = Inr h \<longrightarrow> (\<exists>q c. resolveLocal (aw_fs w) (fs_Root source) path = Inr q \<and> prefix root q \<and> mget (aw_fs w) q = Some (File c) \<and> h = sha256 c))"
proof -
  obtain w1 r1 where o: "OpenReaderSource E smb ident path 0 w = (w1, r1)" by (cases "OpenReaderSource E smb ident path 0 w")
  note l = openReader_local [OF assms(1) o]
  show ?thesis
  proof (cases r1)
    case (Inl e)
    then show ?thesis using assms(2) o l by (auto simp: fileHash_def bindA_def)
  next
    case (Inr hs)
    then obtain q sz where q: "hs = (LocalHandle q 0, sz)" "openReaderLocal (aw_fs w) (fs_Root source) path 0 = Inr (q, sz)" using l by (cases hs) auto
    have "fs_wf (aw_fs w)" "evalSymlinks (aw_fs w) (absPath (trimSpace (fs_Root source))) = Inr root" using assms(1) by (simp_all add: hostFolder_def)
    from openReaderLocal_reads [OF this q(2)]
    obtain c where c: "resolveLocal (aw_fs w) (fs_Root source) path = Inr q" "prefix root q" "mget (aw_fs w) q = Some (File c)" by blast
    obtain w2 r2 where m: "readAll fuel smb (LocalHandle q 0) w = (w2, r2)" by (cases "readAll fuel smb (LocalHandle q 0) w")
    note a = readAll_local [OF m]
    show ?thesis using assms(2) o l Inr q(1) m a c
      by (cases r2) (auto simp: fileHash_def bindA_def closeReader_def fileBytes_def)
  qed
qed

text \<open>Two files with the same hash, below the real paths of their folders.\<close>

definition sameContent :: "(bytes \<Rightarrow> string) \<Rightarrow> fs \<Rightarrow> fileSourceSelection \<Rightarrow> path \<Rightarrow> fileSourceSelection \<Rightarrow> path \<Rightarrow> movePath \<Rightarrow> bool" where
  "sameContent sha256 fs source rs dest rd f \<longleftrightarrow>
     (\<exists>p c p' c'. resolveLocal fs (fs_Root source) (mv_from f) = Inr p \<and> prefix rs p \<and> mget fs p = Some (File c)
        \<and> resolveLocal fs (fs_Root dest) (mv_to f) = Inr p' \<and> prefix rd p' \<and> mget fs p' = Some (File c') \<and> sha256 c = sha256 c')"

lemma verifyCopiedFile_local:
  assumes "hostFolder E w sid source rs" "hostFolder E w did dest rd"
    and "verifyCopiedFile fuel sha256 E smb sid did (mv_from f) (mv_to f) w = (w', r)"
  shows "w' = w \<and> (r = Inr () \<longrightarrow> sameContent sha256 (aw_fs w) source rs dest rd f)"
proof -
  obtain w1 r1 where h1: "fileHash fuel sha256 E smb sid (mv_from f) w = (w1, r1)" by (cases "fileHash fuel sha256 E smb sid (mv_from f) w")
  note l1 = fileHash_local [OF assms(1) h1]
  obtain w2 r2 where h2: "fileHash fuel sha256 E smb did (mv_to f) w = (w2, r2)" by (cases "fileHash fuel sha256 E smb did (mv_to f) w")
  note l2 = fileHash_local [OF assms(2) h2]
  have "(w', r) = (w, r) \<and> (r = Inr () \<longrightarrow> (\<exists>h. r1 = Inr h \<and> r2 = Inr h))"
    using assms(3) h1 h2 l1 l2 by (cases r1; cases r2) (auto simp: verifyCopiedFile_def bindA_def split: sum.splits if_splits)
  then show ?thesis using l1 l2 unfolding sameContent_def by fastforce
qed

lemma verifyMovePlan_local:
  "hostFolder E w sid source rs \<Longrightarrow> hostFolder E w did dest rd
   \<Longrightarrow> verifyMovePlan fuel sha256 E smb sid did fls w = (w', r)
   \<Longrightarrow> unchanged w w' \<and> (r = Inr () \<longrightarrow> (\<forall>f \<in> set fls. sameContent sha256 (aw_fs w) source rs dest rd f))"
proof (induction fls arbitrary: w)
  case (Cons f fls)
  obtain w1 r1 where c: "ctxCheck w = (w1, r1)" by (cases "ctxCheck w")
  have u1: "unchanged w w1" using ctxCheck_same [OF c] by (simp add: unchanged_def)
  note host = hostFolder_unchanged [OF Cons.prems(1) u1] hostFolder_unchanged [OF Cons.prems(2) u1]
  obtain w2 r2 where v: "verifyCopiedFile fuel sha256 E smb sid did (mv_from f) (mv_to f) w1 = (w2, r2)"
    by (cases "verifyCopiedFile fuel sha256 E smb sid did (mv_from f) (mv_to f) w1")
  note l = verifyCopiedFile_local [OF host v]
  show ?case
  proof (cases "r1 = Inr () \<and> r2 = Inr ()")
    case False
    then show ?thesis using Cons.prems(3) c v l u1 by (cases r1; cases r2) (auto simp: bindA_def)
  next
    case True
    then have "verifyMovePlan fuel sha256 E smb sid did fls w1 = (w', r)" using Cons.prems(3) c v l by (simp add: bindA_def)
    from Cons.IH [OF host this] show ?thesis using u1 l True unchanged_trans [OF u1] by (auto simp: unchanged_def)
  qed
qed simp

lemma planItems_unchanged:
  "(\<And>from to plan w w' r. planSub from to plan w = (w', r) \<Longrightarrow> unchanged w w') \<Longrightarrow> planItems planSub to items plan w = (w', r) \<Longrightarrow> unchanged w w'"
proof (induction items arbitrary: plan w)
  case (Cons i items)
  obtain w1 r1 where c: "ctxCheck w = (w1, r1)" by (cases "ctxCheck w")
  have u1: "unchanged w w1" using ctxCheck_same [OF c] by (simp add: unchanged_def)
  let ?to = "joinAny to (fi_Name i)"
  obtain w2 r2 where s: "planSub (fi_Path i) ?to (addDir i ?to plan) w1 = (w2, r2)" by (cases "planSub (fi_Path i) ?to (addDir i ?to plan) w1")
  have u2: "unchanged w w2" using unchanged_trans [OF u1 Cons.prems(1) [OF s]] .
  show ?case using Cons.prems(2) c s u1 u2 Cons.IH [OF Cons.prems(1)]
    by (auto simp: bindA_def Let_def split: sum.splits if_splits intro: unchanged_trans)
qed simp

lemma planMove_unchanged: "planMove fuel E smb sid from to isDirectory w = (w', r) \<Longrightarrow> unchanged w w'"
proof -
  have tree: "planMoveDirectory n E smb sid a b plan w = (w', r) \<Longrightarrow> unchanged w w'" for n a b plan w w' r
  proof (induction n arbitrary: a b plan w w' r)
    case (Suc n)
    then show ?case using planItems_unchanged [of "planMoveDirectory n E smb sid"] by (auto split: sum.splits)
  qed auto
  show "planMove fuel E smb sid from to isDirectory w = (w', r) \<Longrightarrow> unchanged w w'"
    using tree by (auto simp: planMove_def Let_def split: if_splits sum.splits)
qed

lemma resolve_keeps: "keepsNodes fs fs' \<Longrightarrow> resolveLocal fs rootDir path = Inr p \<Longrightarrow> resolveLocal fs' rootDir path = Inr p"
proof -
  assume k: "keepsNodes fs fs'" and r: "resolveLocal fs rootDir path = Inr p"
  have "evalSymlinks fs q = Inr s \<Longrightarrow> evalSymlinks fs' q = Inr s" for q s unfolding evalSymlinks_def by (rule walk_keeps [OF k])
  then show ?thesis using r by (auto simp: resolveLocal_def Let_def bindR_Inr_iff split: if_splits)
qed

text \<open>Below a real directory without links a path is its own resolution.\<close>

lemma walk_noLinks:
  "noLinks root fs \<Longrightarrow> prefix root dest \<Longrightarrow> list_all component ws \<Longrightarrow> walk False fs n dest ws = Inr p \<Longrightarrow> p = dest @ ws"
proof (induction ws arbitrary: dest)
  case (Cons w ws)
  have pre: "prefix root (dest @ [w])" using Cons.prems(2) by (simp add: prefix_prefix)
  have no: "mget fs (dest @ [w]) \<noteq> Some (Link t)" for t using Cons.prems(1) pre unfolding noLinks_def by blast
  obtain nd where nd: "mget fs (dest @ [w]) = Some nd"
    using Cons.prems(3,4) by (cases "mget fs (dest @ [w])") (auto simp: component_def)
  then have "nd \<noteq> Link t" for t using no by blast
  with nd show ?case using Cons.IH [OF Cons.prems(1) pre] Cons.prems(3,4) by (cases nd) (auto simp: component_def split: if_splits)
qed simp

lemma resolve_noLinks:
  assumes "fs_wf fs" "noLinks root fs" "absPath (trimSpace rootDir) = root" "mget fs root = Some Dir" "resolveLocal fs rootDir path = Inr p"
  shows "p = root @ components path"
proof -
  have "evalSymlinks fs (root @ components path) = Inr p"
    using assms(3,5) by (auto simp: resolveLocal_def Let_def bindR_Inr_iff joinString_cleanPath split: if_splits)
  moreover have "list_all component root" using absPath_ok assms(3) by metis
  ultimately have "walk False fs 255 root (components path) = Inr p"
    using walk_along [of root fs "[]" False 255 "components path"] fs_wf_dirs [OF assms(1,4)] by (simp add: evalSymlinks_def)
  from walk_noLinks [OF assms(2) prefix_order.order_refl components_ok this] show ?thesis .
qed

lemma delete_confined:
  assumes "hostFolder E w ident source root"
  shows "confined root (aw_fs w) (aw_fs (fst (DeleteSource E smb ident path isDirectory w)))"
  using assms deleteLocal_confined [of "aw_fs w" "fs_Root source" root path isDirectory] confined_refl [of "aw_fs w" root]
  by (auto simp: DeleteSource_def changeSource_fs hostFolder_def authorised_def bindR_def split: sum.splits)

text \<open>What a move between folders that do not overlap leaves behind, step by step.\<close>

definition movedFile :: "fs \<Rightarrow> fs \<Rightarrow> fileSourceSelection \<Rightarrow> path \<Rightarrow> path \<Rightarrow> movePath \<Rightarrow> bool" where
  "movedFile fs fs' source rs rd f \<longleftrightarrow>
     (\<exists>p c. prefix rs p \<and> (\<forall>q. resolveLocal fs (fs_Root source) (mv_from f) = Inr q \<longrightarrow> q = p)
        \<and> mget fs p = Some (File c) \<and> mget fs' (rd @ components (mv_to f)) = Some (File c))"

lemma apart: "\<not> prefix rs rd \<Longrightarrow> \<not> prefix rd rs \<Longrightarrow> prefix rs p \<Longrightarrow> \<not> prefix rd p"
  by (meson prefix_same_cases)

lemma verified_moved:
  assumes "inj sha256" "progressed rd w w2" "sameContent sha256 (aw_fs w2) source rs dest rd f"
    and "noLinks rd (aw_fs w2)" "absPath (trimSpace (fs_Root dest)) = rd" "mget (aw_fs w2) rd = Some Dir" "\<not> prefix rs rd" "\<not> prefix rd rs"
    and "confined rs (aw_fs w2) fs'"
  shows "movedFile (aw_fs w) fs' source rs rd f"
proof -
  obtain p c p' c' where s: "resolveLocal (aw_fs w2) (fs_Root source) (mv_from f) = Inr p" "prefix rs p" "mget (aw_fs w2) p = Some (File c)"
    and d: "resolveLocal (aw_fs w2) (fs_Root dest) (mv_to f) = Inr p'" "prefix rd p'" "mget (aw_fs w2) p' = Some (File c')"
    and h: "sha256 c = sha256 c'" using assms(3) unfolding sameContent_def by blast
  have wf: "fs_wf (aw_fs w2)" and g: "grown rd (aw_fs w) (aw_fs w2)" using assms(2) by (simp_all add: progressed_def)
  have "c' = c" using h assms(1) by (simp add: inj_eq)
  moreover have "p' = rd @ components (mv_to f)" by (rule resolve_noLinks [OF wf assms(4-6) d(1)])
  moreover have "mget fs' p' = mget (aw_fs w2) p'" using assms(9) apart [OF assms(8,7) d(2)] by (simp add: confined_def)
  moreover have "mget (aw_fs w) p = Some (File c)" using grown_outside [OF g apart [OF assms(7,8) s(2)]] s(3) by simp
  moreover have "q = p" if "resolveLocal (aw_fs w) (fs_Root source) (mv_from f) = Inr q" for q
    using resolve_keeps [OF grown_keeps [OF g] that] s(1) by simp
  ultimately show ?thesis using s(2) d(3) unfolding movedFile_def by metis
qed

lemma transferMove_safe:
  assumes "hostFolder E w sid source rs" "hostFolder E w did dest rd" "noLinks rd (aw_fs w)"
    and "absPath (trimSpace (fs_Root dest)) = rd" "mget (aw_fs w) rd = Some Dir" "\<not> prefix rs rd" "\<not> prefix rd rs" "inj sha256"
    and "transferMove fuel sha256 E smb sid did from to isDirectory w = (w', progress, out)"
  shows "(\<forall>q. \<not> prefix rd q \<longrightarrow> mget (aw_fs w') q = mget (aw_fs w) q) \<and> out \<noteq> MoveDone \<and> MoveErrorStage out = StageCopy
    \<or> (\<forall>q. \<not> prefix rd q \<and> \<not> prefix rs q \<longrightarrow> mget (aw_fs w') q = mget (aw_fs w) q)
      \<and> (\<exists>plan. snd (planMove fuel E smb sid from to isDirectory w) = Inr plan
          \<and> (\<forall>f \<in> set (pl_files plan). movedFile (aw_fs w) (aw_fs w') source rs rd f))"
    (is "?copying \<or> ?verified")
proof -
  obtain w1 r1 where p: "planMove fuel E smb sid from to isDirectory w = (w1, r1)" by (cases "planMove fuel E smb sid from to isDirectory w")
  note u1 = planMove_unchanged [OF p]
  note host1 = hostFolder_unchanged [OF assms(1) u1] hostFolder_unchanged [OF assms(2) u1]
  show ?thesis
  proof (cases r1)
    case (Inl e)
    then have ?copying using assms(9) p u1 by (auto simp: transferMove_def unchanged_def MoveErrorStage_def)
    then show ?thesis ..
  next
    case (Inr plan)
    let ?pr = "noProgress\<lparr>mp_BytesTotal := pl_bytesTotal plan, mp_FilesTotal := int (length (pl_files plan))\<rparr>"
    obtain w2 pr2 r2 where c: "copyMovePlan fuel E smb sid did plan ?pr w1 = (w2, pr2, r2)" by (cases "copyMovePlan fuel E smb sid did plan ?pr w1")
    have no1: "noLinks rd (aw_fs w1)" using assms(3) u1 by (simp add: unchanged_def)
    have p12: "progressed rd w w2" using copyMovePlan_progressed [OF host1 no1 c] u1 by (simp add: unchanged_def progressed_def sameSources_def)
    note host2 = hostFolder_progressed [OF assms(1) p12] hostFolder_progressed [OF assms(2) p12]
    note no2 = noLinks_progressed [OF assms(3) p12]
    have out2: "\<not> prefix rd q \<Longrightarrow> mget (aw_fs w2) q = mget (aw_fs w) q" for q using p12 grown_outside by (simp add: progressed_def) blast
    have rd2: "mget (aw_fs w2) rd = Some Dir" using p12 assms(5) grown_keeps unfolding progressed_def keepsNodes_def by fastforce
    obtain w3 r3 where v: "verifyMovePlan fuel sha256 E smb sid did (pl_files plan) w2 = (w3, r3)" by (cases "verifyMovePlan fuel sha256 E smb sid did (pl_files plan) w2")
    note l3 = verifyMovePlan_local [OF host2 v]
    show ?thesis
    proof (cases "r2 = Inr () \<and> r3 = Inr ()")
      case False
      then have ?copying using assms(9) p Inr c v out2 l3
        by (cases r2; cases r3) (auto simp: transferMove_def unchanged_def MoveErrorStage_def)
      then show ?thesis ..
    next
      case True
      obtain w4 r4 where k: "ctxCheck w3 = (w4, r4)" by (cases "ctxCheck w3")
      have u4: "unchanged w2 w4" using l3 ctxCheck_same [OF k] by (auto simp: unchanged_def)
      obtain w5 r5 where dl: "DeleteSource E smb sid from isDirectory w4 = (w5, r5)" by (cases "DeleteSource E smb sid from isDirectory w4")
      have c5: "confined rs (aw_fs w2) (aw_fs w5)" using delete_confined [OF hostFolder_unchanged [OF host2(1) u4], of smb "from" isDirectory] dl u4 by (simp add: unchanged_def)
      have wf2: "fs_wf (aw_fs w2)" using p12 by (simp add: progressed_def)
      have "aw_fs w' = aw_fs w2 \<or> aw_fs w' = aw_fs w5"
        using assms(9) p Inr c v k dl True u4 by (cases r4; cases r5) (auto simp: transferMove_def unchanged_def)
      then have c': "confined rs (aw_fs w2) (aw_fs w')" using c5 confined_refl [OF wf2] by metis
      have "\<forall>f \<in> set (pl_files plan). movedFile (aw_fs w) (aw_fs w') source rs rd f"
        using l3 True verified_moved [OF assms(8) p12 _ no2 assms(4) rd2 assms(6,7) c'] by blast
      moreover have "\<not> prefix rd q \<and> \<not> prefix rs q \<Longrightarrow> mget (aw_fs w') q = mget (aw_fs w) q" for q using c' out2 by (simp add: confined_def)
      ultimately have ?verified using p Inr by auto
      then show ?thesis ..
    qed
  qed
qed


definition apartWorld :: "unit agentWorld" where
  "apartWorld = sampleAgentWorld [sampleFolder ''docs'' ''/srv/docs'' openPolicy, sampleFolder ''etc'' ''/etc'' openPolicy]"

definition folderAt :: "nat \<Rightarrow> fileSourceSelection" where
  "folderAt i = selectLocal (fv_localSources (aw_service apartWorld) ! i)"

lemma apartWorld_facts:
  "sourceForID (ae_lower sampleAgentEnv) (aw_service apartWorld) ''docs'' = Inr (folderAt 0)" "fs_ID (folderAt 0) = ''docs''"
  "sourceForID (ae_lower sampleAgentEnv) (aw_service apartWorld) ''etc'' = Inr (folderAt 1)" "fs_ID (folderAt 1) = ''etc''"
  "evalSymlinks (aw_fs apartWorld) (absPath (trimSpace (fs_Root (folderAt 0)))) = Inr [''srv'', ''docs'']"
  "evalSymlinks (aw_fs apartWorld) (absPath (trimSpace (fs_Root (folderAt 1)))) = Inr [''etc'']"
  "absPath (trimSpace (fs_Root (folderAt 1))) = [''etc'']" "mget (aw_fs apartWorld) [''etc''] = Some Dir" "fs_wf (aw_fs apartWorld)"
  "\<not> fs_SMB (folderAt 0)" "\<not> fs_SMB (folderAt 1)"
  by code_simp+

lemma apartWorld_noLinks: "noLinks [''etc''] (aw_fs apartWorld)"
proof -
  have "list_all (\<lambda>(p, n). prefix [''etc''] p \<longrightarrow> (case n of Link _ \<Rightarrow> False | _ \<Rightarrow> True)) (aw_fs apartWorld)" by code_simp
  then show ?thesis unfolding noLinks_def list_all_iff using map_of_SomeD by fastforce
qed


section \<open>Rounds\<close>

text \<open>A loop over a host file ends: one round more than the file has bytes left is enough.\<close>

lemma upTo_Nil_iff: "0 < n \<Longrightarrow> upTo n bs = [] \<longleftrightarrow> bs = []"
  by (cases bs) auto

lemma shorter: "l - pos < Suc n \<Longrightarrow> 0 < k \<Longrightarrow> pos < l \<Longrightarrow> l - (pos + k) < (n :: nat)"
  by arith

lemma readAll_enough:
  "length (fileBytes (aw_fs w) q) - pos < n \<Longrightarrow> readAll n smb (LocalHandle q pos) w = (w, Inr (drop pos (fileBytes (aw_fs w) q)))"
proof (induction n arbitrary: pos)
  case (Suc n)
  let ?c = "drop pos (fileBytes (aw_fs w) q)"
  let ?data = "upTo (32 * 1024) ?c"
  have rd: "readHandle smb (32 * 1024) (LocalHandle q pos) w = (w, Inr (LocalHandle q (pos + length ?data), ?data, ?data = []))"
    by (simp add: readHandle_def Let_def)
  show ?case
  proof (cases "?data = []")
    case True
    then have "?c = []" by (simp add: upTo_Nil_iff)
    then show ?thesis using rd True by (simp add: bindA_def)
  next
    case False
    then have "?c \<noteq> []" "0 < length ?data" by (auto simp: upTo_Nil_iff)
    then have "length (fileBytes (aw_fs w) q) - (pos + length ?data) < n" using shorter [OF Suc.prems] by simp
    from Suc.IH [OF this] have m: "readAll n smb (LocalHandle q (pos + length ?data)) w = (w, Inr (drop (length ?data) ?c))" by (simp add: add.commute)
    have "?data @ drop (length ?data) ?c = ?c" unfolding upTo_take by (rule take_drop_length)
    then show ?thesis using rd False m by (simp add: bindA_def)
  qed
qed simp

lemma local_errors_not_fuel: "maxWrite smb writer data w = (w', Inl e) \<Longrightarrow> wh_inner writer = LocalHandle q pos \<Longrightarrow> e \<noteq> ErrFuel"
  "ctxCheck w = (w', Inl e) \<Longrightarrow> e \<noteq> ErrFuel"
  by (auto simp: maxWrite_def innerWrite_def ctxCheck_def ErrFuel_def ErrCanceled_def split: option.splits if_splits node.splits sum.splits nat.splits)

lemma maxWrite_other: "maxWrite smb writer data w = (w', r) \<Longrightarrow> wh_inner writer = LocalHandle q pos \<Longrightarrow> p \<noteq> q \<Longrightarrow>
    fileBytes (aw_fs w') p = fileBytes (aw_fs w) p \<and> (\<forall>h n. r = Inr (h, n) \<longrightarrow> (\<exists>pos'. wh_inner h = LocalHandle q pos'))"
  by (auto simp: maxWrite_def innerWrite_def fileBytes_def split: option.splits if_splits node.splits)

lemma copyChunks_enough:
  "p \<noteq> q \<Longrightarrow> wh_inner writer = LocalHandle q pos \<Longrightarrow> length (fileBytes (aw_fs w) p) - rpos < n
   \<Longrightarrow> copyChunks n smb (LocalHandle p rpos) writer progress w = (w', progress', r) \<Longrightarrow> r \<noteq> Inl ErrFuel"
proof (induction n arbitrary: w writer pos rpos progress)
  case (Suc n)
  obtain w1 r1 where c: "ctxCheck w = (w1, r1)" by (cases "ctxCheck w")
  have same: "aw_fs w1 = aw_fs w" using ctxCheck_same [OF c] by simp
  let ?c = "drop rpos (fileBytes (aw_fs w) p)"
  let ?data = "upTo moveChunkSize ?c"
  have rd: "readHandle smb moveChunkSize (LocalHandle p rpos) w1 = (w1, Inr (LocalHandle p (rpos + length ?data), ?data, ?data = []))"
    by (simp add: readHandle_def Let_def same)
  show ?case
  proof (cases "r1 = Inr () \<and> ?data \<noteq> []")
    case False
    then show ?thesis using Suc.prems(4) c rd local_errors_not_fuel(2) by (cases r1) auto
  next
    case True
    obtain w3 r3 where m: "maxWrite smb writer ?data w1 = (w3, r3)" by (cases "maxWrite smb writer ?data w1")
    note o = maxWrite_other [OF m Suc.prems(2,1)]
    show ?thesis
    proof (cases r3)
      case (Inl e)
      then have "e \<noteq> ErrFuel" using local_errors_not_fuel(1) [OF _ Suc.prems(2)] m by blast
      then show ?thesis using Suc.prems(4) c rd True m Inl by auto
    next
      case (Inr hn)
      obtain writer' written where hn: "hn = (writer', written)" by (cases hn)
      obtain pos' where pos': "wh_inner writer' = LocalHandle q pos'" using o Inr hn by auto
      have "0 < length ?data" "?c \<noteq> []" using True by (auto simp: upTo_Nil_iff moveChunkSize_def)
      then have less: "length (fileBytes (aw_fs w3) p) - (rpos + length ?data) < n" using shorter [OF Suc.prems(3)] o same by simp
      show ?thesis
        using Suc.IH [OF Suc.prems(1) pos' less] Suc.prems(4) c rd True m Inr hn by (auto simp: Let_def ErrFuel_def split: if_splits)
    qed
  qed
qed simp

text \<open>
  The walk of a tree need not end. The path of a directory whose name is a space loses the space when it is listed and
  names the directory around it: the plan lists that one again, with every number of rounds.
\<close>

definition spaceHost :: fs where
  "spaceHost = [([], Dir), ([''srv''], Dir), ([''srv'', '' ''], Dir)]"

definition spaceWorld :: "unit agentWorld" where
  "spaceWorld = (sampleAgentWorld [sampleFolder ''docs'' ''/srv'' openPolicy])\<lparr>aw_fs := spaceHost\<rparr>"

definition spaceItem :: FileItem where
  "spaceItem = \<lparr>fi_Path = '' '', fi_Name = '' '', fi_IsDirectory = True, fi_Size = 4096, fi_SourceID = ''docs''\<rparr>"

lemma spaceWorld_lists:
  "ListSource sampleAgentEnv noShares spaceWorld ''docs'' [] = Inr [spaceItem]"
  "ListSource sampleAgentEnv noShares spaceWorld ''docs'' '' '' = Inr [spaceItem]"
  "aw_ctx spaceWorld = None" "fi_Path spaceItem = '' ''" "fi_IsDirectory spaceItem"
  by code_simp+

theorem space_directory_plan_never_ends:
  "planMoveDirectory n sampleAgentEnv noShares ''docs'' [] to plan spaceWorld = (spaceWorld, Inl ErrFuel)"
proof -
  have "planMoveDirectory n sampleAgentEnv noShares ''docs'' from to plan spaceWorld = (spaceWorld, Inl ErrFuel)" if "from \<in> {[], '' ''}" for "from"
    using that
  proof (induction n arbitrary: "from" to plan)
    case (Suc n)
    then have "ListSource sampleAgentEnv noShares spaceWorld ''docs'' from = Inr [spaceItem]" using spaceWorld_lists by auto
    then show ?case using Suc.IH by (simp add: bindA_def ctxCheck_def spaceWorld_lists Let_def)
  qed simp
  then show ?thesis by simp
qed

end
