(* ===== verification/Spec2Isabelle.thy ===== *)
theory Spec2Isabelle
  imports Desktop_Crypto Desktop_Websocket Desktop_Control Registries Shell_Sessions Sql_Rebind File_Policy Note_Collab Transfer_Upload Transfer_Preview Agent_Move
begin

text \<open>
  A verification of the core of Hank Remote, a self-hosted server for remote access to the machines of a home. The
  server (package \<open>internal/cloud\<close>) keeps websocket connections of apps and agents and routes commands between
  them; its remote desktop part lets an operator's browser and an agent exchange end-to-end encrypted
  frames through a relay in the server. PostgreSQL (package \<open>internal/store\<close>) holds desktop sessions, join
  credentials, identities and trust roots; \<open>internal/protocol\<close> and \<open>internal/desktopcrypto\<close> define the messages and
  the signed encodings. Around it stand the shared notes with live collaboration, and the files of a home: policies,
  jobs, and transfers that pass through the server to an agent (\<open>internal/agent\<close>). All paths below are relative to \<open>src/\<close>.

  \<^bold>\<open>How the parts work together.\<close> An operator asks \<open>desktopService.Create\<close> for a session with an agent the router has
  connected. The service checks permissions, presence, capabilities and both identities, reserves both
  sides at the relay, and stores the session with one hashed credential per side. The agent reports
  progress by events (\<open>handleDesktopAgentEvent\<close>). Browser and agent then open data connections
  (\<open>handleDesktopDataWebSocket\<close>): each spends its credential in the store and joins the relay, which pairs the sides
  and pumps frames through two bounded queues. When a transport is lost the relay's event opens a reconnect window in the store; a
  reconnect advances the key epoch and replaces the credentials. Termination, revocation of an
  identity, replacement of a trust root and expiry end sessions in the store and revoke them at the
  relay.

  The agent serves host folders and network shares as file sources: a request names a source and a path, the policy of the
  source admits it, and the path is resolved below the folder before anything is read or written. A move between
  sources is planned, copied, verified and only then removed at its source.

  A note is a row with a state of text or a board; HTTP saves and live submissions both apply operations to that
  state, log them and bring the row up to date, and the hub tells the other sessions on the note. A share makes a
  note visible to a member of a home; revoking it removes the member's sessions. A file command is
  checked against the policy of the source; a move becomes a job that events of the agent, retries, rollbacks
  and cancellations update. A transfer is set up with a token; each request for it begins an attempt, the
  agent streams or receives chunks over its websocket, and the loop of that websocket passes them to the handler
  through the channels of the attempt.

  \<^bold>\<open>Theories.\<close>
  \<^item> \<open>Prelude\<close>: errors as values (\<open>'a result\<close>), time and durations in nanoseconds, big-endian integers, Go maps as
    association lists, and the locale \<open>invariant_system\<close> (initial states, steps and an inductive invariant) that every
    state machine interprets. \<open>Go_Text\<close>: Go strings as bytes, UTF-8, \<open>strings.TrimSpace\<close>, \<open>strings.ToLower\<close>. \<open>Codec\<close>: the
    contract of a canonical binary codec as a locale.
  \<^item> \<open>Desktop_Wire\<close> (\<open>internal/protocol/desktop_data.go\<close>): outer frames, inner messages, payload validators, stream
    generations. Both formats interpret \<open>Codec\<close>: a byte string decodes to a message iff it is its encoding.
  \<^item> \<open>Desktop_Crypto\<close> (\<open>internal/desktopcrypto/encoding.go\<close>): the encodings that are signed or hashed, and that no two
    different values of any kinds share an encoding.
  \<^item> \<open>Desktop_Protocol\<close> (\<open>internal/protocol/desktop.go\<close>): permissions, events, message validation and the state machine of a
    session, as a step relation with its reachable states.
  \<^item> \<open>Desktop_Db\<close> (\<open>internal/domain/desktop.go\<close> and the migration of the desktop tables): rows, constraints and the SQL
    statements as functions that fail when a constraint does. \<open>Session_Store\<close> (\<open>internal/store/desktop_sessions.go\<close>) and
    \<open>Trust_Store\<close> (\<open>internal/store/desktop_trust.go\<close>, \<open>desktop_auto_enrollment.go\<close>): every operation as a transaction on the
    tables. The invariant \<open>trust_inv\<close> holds in every database reachable through any interleaving of the
    operations: one live session per agent, open credentials only for live sessions at their current
    epoch, unique event numbers.
  \<^item> \<open>Relay_Pipe\<close> and \<open>Relay\<close> (\<open>internal/cloud/desktop_relay.go\<close>): the queue between two pumps with its wake-up channels, and
    the relay with its limits, reservations, joins, failures and timers, each as a transition system whose
    steps are the lock regions of the code.
  \<^item> \<open>Desktop_Service\<close> (\<open>internal/cloud/desktop_service.go\<close>): the service over the interface \<open>desktopStore\<close>; the locale
    \<open>desktop_store_contract\<close> states what it relies on and is interpreted by the modelled PostgreSQL store.
  \<^item> \<open>Router\<close> (\<open>internal/cloud/router.go\<close>): agents, apps, in-flight budgets and pending requests; the agent side refines a
    route table.
  \<^item> \<open>Desktop_Control\<close> (\<open>internal/cloud/desktop_control.go\<close>): agent events. \<open>Desktop_Websocket\<close>
    (\<open>internal/cloud/desktop_websocket.go\<close>): data connections and the effect of relay events on the store.
  \<^item> \<open>Registries\<close> (\<open>internal/cloud/app_tickets.go\<close>, \<open>admin_action_tokens.go\<close>, \<open>ratelimit.go\<close>, \<open>login_backoff.go\<close> and the backoff
    table of \<open>internal/store/production_state.go\<close>): single-use tokens over one locale with two interpretations, the rate limiter
    that compacts a slice in place against its filter specification, and the two login backoffs.
    \<open>Shell_Sessions\<close> (\<open>internal/cloud/shell_sessions.go\<close>, \<open>internal/protocol/messages.go\<close>): shell requests and their registry.
  \<^item> \<open>Sql_Rebind\<close> (\<open>internal/store/sql_driver.go\<close>): the placeholder rewriting, a position scanner against a lexer. \<open>File_Policy\<close>
    (\<open>internal/cloud/file_policy.go\<close>): the path policy of file commands, on cleaned path components.
  \<^item> \<open>Note_Text\<close>, \<open>Note_Board\<close>, \<open>Note_State\<close> (\<open>internal/cloud/note_collaboration.go\<close>, \<open>notes_store.go\<close>): edits of text by runes, edits of
    a board, and the state of a note with its operations and the row made from it. \<open>Note_Store\<close>
    (\<open>internal/store/user_notes.go\<close> and the migration of the notes tables): notes, shares and the operation log with their constraints.
    \<open>Notes_Service\<close> (\<open>internal/cloud/notes_store.go\<close>): fetching, saving, appending, renaming, deleting, sharing and searching notes.
    \<open>Note_Collab\<close> (\<open>internal/cloud/note_collaboration.go\<close>): the hub of sessions and the submission of operations.
  \<^item> \<open>File_Jobs\<close> (\<open>internal/cloud/file_jobs.go\<close> and the tables of \<open>internal/store/production_state.go\<close>): jobs and their life.
    \<open>Transfers\<close> (\<open>internal/cloud/transfers.go\<close>, \<open>server.go\<close>): sessions and attempts of transfers, their authorisation and the statuses
    written; the two halves of beginning and ending an attempt are steps of their own. \<open>Base64\<close>: the encoding of chunks.
    \<open>Transfer_Stream\<close> (\<open>server.go\<close>, \<open>internal/agent/transfers.go\<close>): a download from the agent's file to the HTTP response as a transition
    system over the channels. \<open>Transfer_Upload\<close>: the way from the request body to the agent's file. \<open>Transfer_Preview\<close>: byte ranges of
    previews.
  \<^item> \<open>Agent_Paths\<close> (\<open>internal/agent/files/service.go\<close>): paths, a file system of directories, files and links, and the resolution of a
    request below a host folder. \<open>Agent_Host\<close>: the calls of package \<open>os\<close> on it. \<open>Agent_Local\<close>: the operations of the agent on a
    host folder. \<open>Agent_Files\<close>: the configured sources, their policies, the operations on a source, its handles and its search index.
    \<open>Agent_Move\<close> (\<open>internal/agent/files/move.go\<close>): moves between sources.
  \<^item> This theory connects the router with the desktop service.

  \<^bold>\<open>How code corresponds to definitions.\<close> A struct is a record, a method is a function of the same name that takes and
  returns the state it changes; an error return is \<open>Inl\<close>. A failed transaction leaves the database as it was, so
  store operations return the new database only on success. \<open>uint32\<close> and \<open>uint64\<close> are words where they can
  wrap; byte counters and sizes are integers below the widths the code checks. Objects that outlive their map entry (relay
  sessions, app connections) live in a list of objects and pointers are indices. The clock, random ids,
  hashes, JSON and the outcome of network calls are arguments, so the theorems hold for all of them. Every handler runs its
  store and relay calls in the order of the code against one state; interleavings with other requests are covered by the
  transition systems of store, relay, queue, router, hub, jobs and transfers, whose steps are the operations, lock regions and channel
  operations. Every loop is a total function (structural, or with a measure on the rest of the input), but for those of a move
  between sources, whose reads and listings may come from a share: they take a number of rounds, \<open>fuel\<close>, and end in an error of their own
  without it. The theorems hold for every number; for a host file one round more than its bytes is enough
  (\<open>Agent_Move.copyChunks_enough\<close>, \<open>Agent_Move.readAll_enough\<close>), and the walk of a tree really need not end
  (\<open>Agent_Move.space_directory_plan_never_ends\<close>). The search for a free note id stops after a thousand attempts, as in the code.

  \<^bold>\<open>What is shown.\<close> Codecs and signed encodings are exact and injective; permissions and session states follow their
  rules. Reachable databases, relays, queues, routers and shell registries keep their invariants. A join credential
  is used at most once, only for a live session at its current epoch, and end to end a data connection joins
  the relay only that way. Creating a session is all or nothing across store and relay, needs a connected
  agent with the requested capabilities and unrevoked identities, and its credentials work; terminating, revoking and
  agent errors end a session everywhere. Frames are forwarded in order through a bounded queue and no
  pump waits forever with work to do. Tokens are single-use, rate limits hold in every window, placeholders and
  path policies do what they say.

  No sequence of commands of other users changes a note that is not shared with them; submissions of operations are applied exactly
  once and in order, and a revoked member reaches a note no more. Jobs keep their identity under every interleaving. At most
  one attempt uses a session of a transfer, a transfer is served only to the holder of its token, a download delivers a prefix
  of the file and, undisturbed, all of it without getting stuck, an upload stores exactly the body or reports an error, and
  previews stay within their range. On the agent, operations on a host folder neither change nor show anything outside it, but for a
  write through a link that leads nowhere, and only what the policy of the source permits; an upload can be downloaded again, and
  the search index holds exactly what is below the folder. A move between folders that do not overlap loses no file.

  \<^bold>\<open>Divergences found.\<close> \<open>insertDesktopIdentity\<close> passes one argument more than it has placeholders
  (\<open>Trust_Store.identity_insert_never_binds\<close>); empty frames bypass the queue and rate limits
  (\<open>Relay_Pipe.relay_pipe_empty_frames_unlimited\<close>); a connection that never registered evicts the live one and a late timer takes
  a newer request (\<open>Router.unregistered_close_evicts\<close>, \<open>Router.late_timer_takes_newer_request\<close>); the in-memory backoff forgets its count
  (\<open>Registries.login_backoff_memory_forgets\<close>); a disconnect event sets no reconnect deadline
  (\<open>Desktop_Control.disconnect_event_sets_no_deadline\<close>); a wrapped policy with only an upload limit is ignored
  (\<open>File_Policy.wrapped_upload_limit_ignored\<close>). Notes: a count that overflows panics (\<open>Note_Text.text_edit_roundtrip\<close>), a card moved to an
  unknown column is lost (\<open>Note_Board.move_card_effect\<close>), the body of a board freezes (\<open>Note_State.kanban_body_frozen\<close>), a save without type
  drops the board, repeated content is not logged, rollups count words (\<open>Notes_Service\<close>), a synchronised snapshot has no
  text and concurrent submissions overwrite each other (\<open>Note_Collab\<close>). Files: an answer settles a job of another
  home and a late mark reopens a job (\<open>File_Jobs\<close>), two attempts run on one transfer after a restart and a new attempt reopens
  a finished job (\<open>Transfers\<close>), a client that leaves and an agent that cannot write block the websocket loop of the agent
  (\<open>Transfer_Stream.slow_client_blocks_agent_loop\<close>, \<open>Transfer_Upload.upload_write_failure_blocks_agent_loop\<close>), the preview of an empty
  file is refused and a short one hangs (\<open>Transfer_Preview\<close>), an upload through a link that leads nowhere leaves the folder and the
  folder \<open>/\<close> contains nothing (\<open>Agent_Local\<close>), a search fails on any refused directory, a new configuration lets a stale index be
  stored, numbered source ids repeat, and a rollback of \<open>/\<close> removes the folder (\<open>Agent_Files\<close>);
  a move between overlapping folders deletes the file and the plan of a tree with a directory named by a space never
  ends (\<open>Agent_Move\<close>).

  \<^bold>\<open>Not modelled.\<close> The HTTP handlers around these components (\<open>server.go\<close>, \<open>desktop_session_handlers.go\<close>,
  \<open>desktop_trust_handlers.go\<close>, \<open>collaboration_handlers.go\<close>), which parse requests and format responses, and note attachments kept in
  files; the assistant, notifications, apps, single sign-on and model context parts, which are other product areas built
  on external services; storage operations, which drive backup tools on a host; the client of network shares, which goes through a third-party library, and the rest of the agent process; read-only reports of the stores; configuration, metrics and migrations. Audit records, log lines and response
  headers without influence on the behaviour are left out.
\<close>

section \<open>Agents of the router as parties of desktop sessions\<close>

text \<open>\<open>Router.ResolveDesktopAgent\<close> of \<open>internal/cloud/desktop_service.go\<close>.\<close>

definition ResolveDesktopAgent :: "Router \<Rightarrow> string \<Rightarrow> string \<Rightarrow> desktopAgentPresence option" where
  "ResolveDesktopAgent r homeID agentID =
     (case mget (agentsOf r homeID) agentID of
        None \<Rightarrow> None
      | Some c \<Rightarrow> Some \<lparr>pr_HomeID = homeID, pr_AgentID = ag_ID (ac_agent c), pr_Capabilities = ac_capabilities c\<rparr>)"

lemma resolve_routes:
  "ResolveDesktopAgent r h a = map_option (\<lambda>c. \<lparr>pr_HomeID = h, pr_AgentID = ag_ID (ac_agent c), pr_Capabilities = ac_capabilities c\<rparr>)
     (routes r (h, a))"
  by (simp add: ResolveDesktopAgent_def routes_def split: option.split)

lemma create_unresolved:
  assumes "resolve (in_HomeID inp) (in_AgentID inp) = None"
    and "list_all (\<lambda>f. \<not> blank (f inp)) [in_HomeID, in_AgentID, in_OperatorUserID, in_OperatorDeviceID]"
    and "ValidateDesktopPermissions (in_Permissions inp) = Inr ()"
  shows "Create st resolve env inp w = (Inl errDesktopAgentOffline, w)"
  using assms by (simp add: Create_def trustedParties_def)

text \<open>C11: sessions are created only for agents that are connected: whatever happened in the router before, a
  creation that succeeds found a live connection filed under the home and the agent of the request,
  announcing every requested capability, and the stored session names this agent. Once the agent is
  disconnected, every creation for it is refused without any effect, and a well-formed one with
  \<open>desktop agent is offline\<close>.\<close>

theorem create_needs_connected_agent:
  assumes reach: "reachable router_init router_step (r, held)"
    and run: "Create (pgStore json) (ResolveDesktopAgent r) env inp w = (Inr ok, w')"
  shows "(\<exists>c. routes r (in_HomeID inp, in_AgentID inp) = Some c \<and> ac_homeID c = in_HomeID inp \<and> ag_ID (ac_agent c) = in_AgentID inp
        \<and> set (''desktop.session.open'' # map permissionString (in_Permissions inp)) \<subseteq> set (ac_capabilities c)
        \<and> s_HomeID (cr_Session ok) = ac_homeID c \<and> s_AgentID (cr_Session ok) = ag_ID (ac_agent c))
    \<and> (\<forall>reason env' w''. Create (pgStore json) (ResolveDesktopAgent (snd (DisconnectAgent (in_HomeID inp) (in_AgentID inp) reason r)))
          env' inp w'' = (Inl errDesktopAgentOffline, w''))"
proof (rule create_committed [OF run])
  assume t: "trustedParties (pgStore json) (ResolveDesktopAgent r) env inp (database w) = Inr (cr_OperatorIdentity ok, cr_EndpointIdentity ok)"
    and s: "cr_Session ok = requestedSession env inp (cr_OperatorIdentity ok)"
  have inv: "agents_inv r" using router.reachable_inv [OF reach] by (simp add: router_inv_def)
  obtain c where c: "routes r (in_HomeID inp, in_AgentID inp) = Some c"
      "set (''desktop.session.open'' # map permissionString (in_Permissions inp)) \<subseteq> set (ac_capabilities c)"
    using trustedParties_Inr(1) [OF t] by (auto simp: resolve_routes)
  moreover have "ag_ID (ac_agent c) = in_AgentID inp \<and> ac_homeID c = in_HomeID inp" using inv c(1) unfolding agents_inv_def by blast
  moreover have "s_HomeID (cr_Session ok) = in_HomeID inp" "s_AgentID (cr_Session ok) = in_AgentID inp"
    by (simp_all add: s requestedSession_def)
  moreover have "list_all (\<lambda>f. \<not> blank (f inp)) [in_HomeID, in_AgentID, in_OperatorUserID, in_OperatorDeviceID]"
      "ValidateDesktopPermissions (in_Permissions inp) = Inr ()"
    using t by (auto simp: trustedParties_def bindR_Inr_iff split: if_splits)
  then have "Create (pgStore json) (ResolveDesktopAgent (snd (DisconnectAgent (in_HomeID inp) (in_AgentID inp) reason r))) env' inp w''
      = (Inl errDesktopAgentOffline, w'')" for reason env' w''
    by (intro create_unresolved) (simp_all add: resolve_routes routes_disconnect)
  ultimately show ?thesis by metis
qed

definition desktopAgent :: Agent where
  "desktopAgent = sampleAgent\<lparr>ag_ID := ''agent-01'', ag_HomeID := ''home-001''\<rparr>"

definition desktopRouter :: Router where
  "desktopRouter = snd (RegisterAgent ''conn1'' ''home-001'' desktopAgent (Some 3)
     [''desktop.session.open'', permissionString PermissionView] ''worker'' [] NewRouter)"

theorem create_needs_connected_agent_witness:
  "\<exists>ok w' reason. Create (pgStore (\<lambda>_. True)) (ResolveDesktopAgent desktopRouter) sampleEnv sampleInput sampleWorld = (Inr ok, w')
     \<and> Create (pgStore (\<lambda>_. True)) (ResolveDesktopAgent (snd (DisconnectAgent ''home-001'' ''agent-01'' reason desktopRouter)))
         sampleEnv sampleInput w' = (Inl errDesktopAgentOffline, w')"
proof -
  have "reachable router_init router_step (NewRouter, [])" by (rule reach_init) (simp add: router_init_def)
  then have reach: "reachable router_init router_step (desktopRouter, [])"
    unfolding desktopRouter_def by (rule reach_step) (rule router_step.register)
  have same: "ResolveDesktopAgent desktopRouter ''home-001'' ''agent-01'' = sampleResolve ''home-001'' ''agent-01''"
    by (simp add: resolve_routes desktopRouter_def routes_register desktopAgent_def registeredConnection_def sampleResolve_def)
  have io: "in_HomeID sampleInput = ''home-001''" "in_AgentID sampleInput = ''agent-01''" by (simp_all add: sampleInput_def)
  have "trustedParties (pgStore (\<lambda>_. True)) (ResolveDesktopAgent desktopRouter) sampleEnv sampleInput db
      = trustedParties (pgStore (\<lambda>_. True)) sampleResolve sampleEnv sampleInput db" for db
    by (simp add: trustedParties_def io same)
  then obtain ok w' where run: "Create (pgStore (\<lambda>_. True)) (ResolveDesktopAgent desktopRouter) sampleEnv sampleInput sampleWorld = (Inr ok, w')"
    using sampleCreate by (auto simp: Create_def)
  from create_needs_connected_agent [OF reach run] run show ?thesis unfolding io by blast
qed

end
